(* ===== verification/T32_Prelude.thy ===== *)
theory T32_Prelude
  imports Main "HOL-Library.Word" "HOL-Library.Signed_Division"
begin

text \<open>
  What every component of the T32 development shares: the names of the machine integer
  types, block reads and writes on byte lists (the source's \<open>memcpy\<close> in and out of a
  buffer), the little-endian codec law (as a locale, interpreted by each component on its
  own encoder and decoder), a result type for functions that end the process, bounds-checked
  reads of a byte buffer, C strings inside a byte buffer, and the formatting the source gets
  from \<open>snprintf\<close>.
\<close>

unbundle bit_operations_syntax

type_synonym u8 = "8 word"
type_synonym u16 = "16 word"
type_synonym u32 = "32 word"
type_synonym u64 = "64 word"
type_synonym bytes = "u8 list"

named_theorems len_simps \<open>lengths of updated buffers\<close>
named_theorems blk \<open>reads of a buffer after a write\<close>

section \<open>Blocks of a list\<close>

text \<open>\<open>slice off n xs\<close> is what \<open>memcpy(dst, xs + off, n)\<close> copies out and
  \<open>patch off ys xs\<close> what \<open>memcpy(xs + off, ys, length ys)\<close> leaves in \<open>xs\<close>. Both are
  used only where the code has checked the range.\<close>

definition slice :: "nat \<Rightarrow> nat \<Rightarrow> 'a list \<Rightarrow> 'a list" where
  "slice off n xs = take n (drop off xs)"

definition patch :: "nat \<Rightarrow> 'a list \<Rightarrow> 'a list \<Rightarrow> 'a list" where
  "patch off ys xs = take off xs @ ys @ drop (off + length ys) xs"

lemma length_slice [simp, len_simps]: "off + n \<le> length xs \<Longrightarrow> length (slice off n xs) = n"
  by (simp add: slice_def)

lemma length_patch [simp, len_simps]:
  "off + length ys \<le> length xs \<Longrightarrow> length (patch off ys xs) = length xs"
  by (simp add: patch_def)

lemma nth_patch:
  assumes "off + length ys \<le> length xs" "i < length xs"
  shows "patch off ys xs ! i = (if off \<le> i \<and> i < off + length ys then ys ! (i - off) else xs ! i)"
  using assms by (auto simp: patch_def nth_append min_def)

lemma nth_slice: "off + n \<le> length xs \<Longrightarrow> i < n \<Longrightarrow> slice off n xs ! i = xs ! (off + i)"
  by (simp add: slice_def)

lemma slice_patch [simp, blk]:
  "off + length ys \<le> length xs \<Longrightarrow> slice off (length ys) (patch off ys xs) = ys"
  by (simp add: slice_def patch_def)

lemma slice_patch_other [blk]:
  assumes "off + length ys \<le> length xs" "o' + n \<le> length xs"
    and "o' + n \<le> off \<or> off + length ys \<le> o'"
  shows "slice o' n (patch off ys xs) = slice o' n xs"
  using assms by (intro nth_equalityI) (auto simp: nth_slice nth_patch)

lemma patch_slice [simp]: "off + n \<le> length xs \<Longrightarrow> patch off (slice off n xs) xs = xs"
  by (intro nth_equalityI) (auto simp: nth_patch nth_slice)

lemma patch_Nil [simp]: "patch off [] xs = xs"
  by (simp add: patch_def)

lemma slice_0 [simp]: "slice off 0 xs = []"
  by (simp add: slice_def)

lemma slice_append_left: "off + n \<le> length xs \<Longrightarrow> slice off n (xs @ ys) = slice off n xs"
  by (simp add: slice_def)

lemma slice_append_right: "slice (length xs + off) n (xs @ ys) = slice off n ys"
  by (simp add: slice_def)

lemma slice_middle: "slice (length xs) (length ys) (xs @ ys @ zs) = ys"
  by (simp add: slice_def)

section \<open>Little-endian words\<close>

definition le32 :: "u32 \<Rightarrow> bytes" where
  "le32 v = [ucast v, ucast (drop_bit 8 v), ucast (drop_bit 16 v), ucast (drop_bit 24 v)]"

definition of_le32 :: "bytes \<Rightarrow> u32" where
  "of_le32 p = ucast (p ! 0) OR push_bit 8 (ucast (p ! 1)) OR push_bit 16 (ucast (p ! 2))
     OR push_bit 24 (ucast (p ! 3))"

definition le16 :: "u16 \<Rightarrow> bytes" where
  "le16 v = [ucast v, ucast (drop_bit 8 v)]"

definition of_le16 :: "bytes \<Rightarrow> u16" where
  "of_le16 p = ucast (p ! 0) OR push_bit 8 (ucast (p ! 1))"

lemma length_le32 [simp, len_simps]: "length (le32 v) = 4"
  by (simp add: le32_def)

lemma length_le16 [simp, len_simps]: "length (le16 v) = 2"
  by (simp add: le16_def)

lemma unat_of_nat32: "n < 2 ^ 32 \<Longrightarrow> unat (of_nat n :: u32) = n"
  by (simp add: unat_of_nat take_bit_eq_mod)

lemma unat_u32_bound: "unat (v :: u32) < 2 ^ 32"
  using unsigned_less [of v] by simp

lemma unat_ucast_u64 [simp]: "unat (ucast a :: u64) = unat a" for a :: u32
  by (simp add: unsigned_ucast_eq take_bit_nat_eq_self_iff unat_u32_bound
      order.strict_trans [OF unat_u32_bound])

lemma bit_u32_bound: "bit (v :: u32) n \<Longrightarrow> n < 32"
  using bit_imp_le_length by fastforce

lemma of_le32_le32 [simp]: "of_le32 (le32 v @ rest) = v"
proof (rule bit_word_eqI)
  fix n assume "n < LENGTH(32)"
  then have "n < 8 \<or> (8 \<le> n \<and> n < 16) \<or> (16 \<le> n \<and> n < 24) \<or> (24 \<le> n \<and> n < 32)"
    by auto
  then show "bit (of_le32 (le32 v @ rest)) n = bit v n"
    by (auto simp: of_le32_def le32_def bit_simps nth_append)
qed

lemma of_le16_le16 [simp]: "of_le16 (le16 v @ rest) = v"
  by (rule bit_word_eqI) (auto simp: of_le16_def le16_def bit_simps nth_append)

lemma le32_of_le32:
  assumes "length bs = 4"
  shows "le32 (of_le32 bs) = bs"
proof -
  from assms obtain a b c d where bs: "bs = [a, b, c, d]"
    by (auto simp: length_Suc_conv eval_nat_numeral)
  have "ucast (of_le32 bs) = a"
    unfolding bs of_le32_def by (rule bit_word_eqI) (auto simp: bit_simps)
  moreover have "ucast (drop_bit 8 (of_le32 bs)) = b"
    unfolding bs of_le32_def
    by (rule bit_word_eqI) (auto simp: bit_simps dest: bit_imp_le_length)
  moreover have "ucast (drop_bit 16 (of_le32 bs)) = c"
    unfolding bs of_le32_def
    by (rule bit_word_eqI) (auto simp: bit_simps dest: bit_imp_le_length)
  moreover have "ucast (drop_bit 24 (of_le32 bs)) = d"
    unfolding bs of_le32_def
    by (rule bit_word_eqI) (auto simp: bit_simps dest: bit_imp_le_length)
  ultimately show ?thesis by (simp add: le32_def bs)
qed

text \<open>The interface of a little-endian encoder and decoder pair. The source has one pair
  per program; each is an interpretation, so the buffer lemmas are proved once.\<close>

locale le32_codec =
  fixes enc :: "u32 \<Rightarrow> bytes" and dec :: "bytes \<Rightarrow> u32"
  assumes enc_length: "length (enc v) = 4"
    and dec_enc: "dec (enc v @ rest) = v"
    and enc_dec: "length bs = 4 \<Longrightarrow> enc (dec bs) = bs"
    and dec_prefix: "4 \<le> length p \<Longrightarrow> dec p = dec (take 4 p)"
begin

lemma dec_enc_Nil: "dec (enc v) = v"
  using dec_enc [of v "[]"] by simp

lemma enc_inj: "enc v = enc w \<longleftrightarrow> v = w"
  by (metis dec_enc_Nil)

lemma dec_slice: "off + 4 \<le> length xs \<Longrightarrow> dec (drop off xs) = dec (slice off 4 xs)"
  by (simp add: slice_def dec_prefix [of "drop off xs"])

lemma dec_patch:
  "off + 4 \<le> length xs \<Longrightarrow> dec (drop off (patch off (enc v) xs)) = v"
  using slice_patch [of off "enc v" xs]
  by (simp add: dec_slice enc_length dec_enc_Nil)

lemma dec_patch_other:
  assumes "off + length ys \<le> length xs" "o' + 4 \<le> length xs"
    and "o' + 4 \<le> off \<or> off + length ys \<le> o'"
  shows "dec (drop o' (patch off ys xs)) = dec (drop o' xs)"
  using slice_patch_other [of off ys xs o' 4] assms by (simp add: dec_slice)

end

section \<open>Results\<close>

text \<open>A function that may end the process returns a sum: \<open>Die msg arg\<close> is the message it
  prints before \<open>exit(1)\<close>, \<open>Wild\<close> is a read outside the buffer it is given, which C leaves
  undefined. \<open>Wild\<close> is in the model so that its absence can be proved.\<close>

datatype failure = Die string bytes | Wild

type_synonym 'a res = "failure + 'a"

definition rbind :: "'e + 'a \<Rightarrow> ('a \<Rightarrow> 'e + 'b) \<Rightarrow> 'e + 'b" where
  "rbind x f = (case x of Inl e \<Rightarrow> Inl e | Inr a \<Rightarrow> f a)"

definition check :: "bool \<Rightarrow> 'e \<Rightarrow> 'e + unit" where
  "check b e = (if b then Inr () else Inl e)"

lemma rbind_simps [simp]: "rbind (Inl e) f = Inl e" "rbind (Inr a) f = f a"
  by (simp_all add: rbind_def)

lemma rbind_Inr: "rbind x f = Inr b \<longleftrightarrow> (\<exists>a. x = Inr a \<and> f a = Inr b)"
  by (cases x) auto

lemma rbind_Inl: "rbind x f = Inl e \<longleftrightarrow> x = Inl e \<or> (\<exists>a. x = Inr a \<and> f a = Inl e)"
  by (cases x) auto

lemma check_Inr [simp]: "check b e = Inr u \<longleftrightarrow> b"
  by (simp add: check_def)

lemma check_Inl: "check b e = Inl e' \<longleftrightarrow> \<not> b \<and> e' = e"
  by (auto simp: check_def)

lemma rbind_check_Inr: "rbind (check b e) f = Inr c \<longleftrightarrow> b \<and> f () = Inr c"
  by (simp add: check_def)

lemma rbind_check_Inl: "rbind (check b e) f = Inl e' \<longleftrightarrow> (\<not> b \<and> e' = e) \<or> (b \<and> f () = Inl e')"
  by (auto simp: check_def)

lemma rbind_cong [fundef_cong]:
  "x = y \<Longrightarrow> (\<And>a. y = Inr a \<Longrightarrow> f a = g a) \<Longrightarrow> rbind x f = rbind y g"
  by (cases y) auto

text \<open>\<open>mapM_res f xs\<close> runs a loop body over the list and collects what it produces, ending
  at the first failure.\<close>

fun mapM_res :: "('a \<Rightarrow> 'e + 'b) \<Rightarrow> 'a list \<Rightarrow> 'e + 'b list" where
  "mapM_res f [] = Inr []"
| "mapM_res f (x # xs) = rbind (f x) (\<lambda>y. rbind (mapM_res f xs) (\<lambda>ys. Inr (y # ys)))"

lemma mapM_res_Inr:
  "mapM_res f xs = Inr ys \<longleftrightarrow> length ys = length xs \<and> (\<forall>i < length xs. f (xs ! i) = Inr (ys ! i))"
proof (induction xs arbitrary: ys)
  case Nil
  then show ?case by auto
next
  case (Cons x xs)
  show ?case
    by (cases ys) (auto simp: rbind_Inr Cons.IH nth_Cons split: nat.splits)
qed

lemma mapM_res_Inl: "mapM_res f xs = Inl e \<Longrightarrow> \<exists>x \<in> set xs. f x = Inl e"
  by (induction xs) (auto simp: rbind_Inl)

lemma mapM_res_map:
  "(\<And>x. x \<in> set xs \<Longrightarrow> f (g x) = Inr (h x)) \<Longrightarrow> mapM_res f (map g xs) = Inr (map h xs)"
  by (induction xs) auto

section \<open>C strings in a buffer\<close>

definition cstring_at :: "bytes \<Rightarrow> nat \<Rightarrow> bytes" where
  "cstring_at bs off = takeWhile (\<lambda>b. b \<noteq> 0) (drop off bs)"

lemma cstring_at_no_nul: "0 \<notin> set (cstring_at bs off)"
  by (auto simp: cstring_at_def dest: set_takeWhileD)

lemma cstring_at_append:
  assumes "0 \<notin> set s"
  shows "cstring_at (xs @ s @ 0 # ys) (length xs) = s"
proof -
  have "takeWhile (\<lambda>b. b \<noteq> 0) (s @ 0 # ys) = s"
    using assms by (subst takeWhile_append2) auto
  then show ?thesis by (simp add: cstring_at_def)
qed

section \<open>Formatting\<close>

definition hex_digit :: "nat \<Rightarrow> char" where
  "hex_digit n = ''0123456789abcdef'' ! (n mod 16)"

fun hex_pad :: "nat \<Rightarrow> nat \<Rightarrow> string" where
  "hex_pad 0 n = []"
| "hex_pad (Suc k) n = hex_pad k (n div 16) @ [hex_digit n]"

lemma length_hex_pad [simp]: "length (hex_pad k n) = k"
  by (induction k arbitrary: n) auto

text \<open>\<open>%02x\<close> of a byte, \<open>%08x\<close> of a 32-bit value, and \<open>snprintf\<close> into a buffer of
  \<open>n\<close> bytes, which keeps one byte for the terminator.\<close>

definition fmt_02x :: "u8 \<Rightarrow> string" where
  "fmt_02x v = hex_pad 2 (unat v)"

definition fmt_08x :: "u32 \<Rightarrow> string" where
  "fmt_08x v = hex_pad 8 (unat v)"

definition snprintf :: "nat \<Rightarrow> string \<Rightarrow> string" where
  "snprintf n s = take (n - 1) s"

end
