(* ===== verification/T32_Isa.thy ===== *)
theory T32_Isa
  imports T32_Prelude
begin

text \<open>
  The instruction set of \<open>vm/libt32vm/include/t32_opcodes.h\<close>: the opcode enumeration with its
  byte values, the mnemonics (\<open>t32_opcode_name\<close>), and the table of bits each instruction may
  use (\<open>instruction_encoding_mask\<close>). A C \<open>switch\<close> over an opcode byte is
  \<open>opcode_of_byte\<close> followed by a case distinction; a byte no enumerator has is \<open>None\<close>, the
  \<open>default\<close> branch.
\<close>

datatype opcode =
    OP_HALT | OP_NOP | OP_TRAP | OP_IRET | OP_CPUID | OP_MOV | OP_MOVI | OP_LDB | OP_LDH |
    OP_LDW | OP_STB | OP_STH | OP_STW | OP_ADD | OP_ADDI | OP_SUB | OP_SUBI | OP_MUL |
    OP_MULU | OP_DIV | OP_DIVU | OP_AND | OP_OR | OP_XOR | OP_NOT | OP_SHL | OP_SHR | OP_SAR |
    OP_CMP | OP_CMPI | OP_JMP | OP_JZ | OP_JNZ | OP_PUSH | OP_POP | OP_CALL | OP_RET

fun opcode_byte :: "opcode \<Rightarrow> u8" where
  "opcode_byte OP_HALT = 0x00"
| "opcode_byte OP_NOP = 0x01"
| "opcode_byte OP_TRAP = 0x02"
| "opcode_byte OP_IRET = 0x03"
| "opcode_byte OP_CPUID = 0x04"
| "opcode_byte OP_MOV = 0x08"
| "opcode_byte OP_MOVI = 0x09"
| "opcode_byte OP_LDB = 0x10"
| "opcode_byte OP_LDH = 0x11"
| "opcode_byte OP_LDW = 0x12"
| "opcode_byte OP_STB = 0x13"
| "opcode_byte OP_STH = 0x14"
| "opcode_byte OP_STW = 0x15"
| "opcode_byte OP_ADD = 0x18"
| "opcode_byte OP_ADDI = 0x19"
| "opcode_byte OP_SUB = 0x1A"
| "opcode_byte OP_SUBI = 0x1B"
| "opcode_byte OP_MUL = 0x1C"
| "opcode_byte OP_MULU = 0x1D"
| "opcode_byte OP_DIV = 0x1E"
| "opcode_byte OP_DIVU = 0x1F"
| "opcode_byte OP_AND = 0x20"
| "opcode_byte OP_OR = 0x21"
| "opcode_byte OP_XOR = 0x22"
| "opcode_byte OP_NOT = 0x23"
| "opcode_byte OP_SHL = 0x24"
| "opcode_byte OP_SHR = 0x25"
| "opcode_byte OP_SAR = 0x26"
| "opcode_byte OP_CMP = 0x28"
| "opcode_byte OP_CMPI = 0x29"
| "opcode_byte OP_JMP = 0x2A"
| "opcode_byte OP_JZ = 0x2B"
| "opcode_byte OP_JNZ = 0x2C"
| "opcode_byte OP_PUSH = 0x30"
| "opcode_byte OP_POP = 0x31"
| "opcode_byte OP_CALL = 0x32"
| "opcode_byte OP_RET = 0x33"

definition all_opcodes :: "opcode list" where
  "all_opcodes =
    [OP_HALT, OP_NOP, OP_TRAP, OP_IRET, OP_CPUID, OP_MOV, OP_MOVI, OP_LDB, OP_LDH, OP_LDW,
     OP_STB, OP_STH, OP_STW, OP_ADD, OP_ADDI, OP_SUB, OP_SUBI, OP_MUL, OP_MULU, OP_DIV,
     OP_DIVU, OP_AND, OP_OR, OP_XOR, OP_NOT, OP_SHL, OP_SHR, OP_SAR, OP_CMP, OP_CMPI, OP_JMP,
     OP_JZ, OP_JNZ, OP_PUSH, OP_POP, OP_CALL, OP_RET]"

definition opcode_of_byte :: "u8 \<Rightarrow> opcode option" where
  "opcode_of_byte b = List.find (\<lambda>op. opcode_byte op = b) all_opcodes"

lemma opcode_in_all: "op \<in> set all_opcodes"
  by (cases op) (simp_all add: all_opcodes_def)

lemma distinct_opcode_bytes: "distinct (map opcode_byte all_opcodes)"
  by (simp add: all_opcodes_def)

lemma opcode_byte_inject [simp]: "opcode_byte a = opcode_byte b \<longleftrightarrow> a = b"
  using distinct_opcode_bytes opcode_in_all
  by (auto simp: distinct_map inj_on_def)

lemma opcode_of_byte_Some: "opcode_of_byte b = Some op \<longleftrightarrow> opcode_byte op = b"
proof
  show "opcode_of_byte b = Some op \<Longrightarrow> opcode_byte op = b"
    by (auto simp: opcode_of_byte_def find_Some_iff)
next
  assume "opcode_byte op = b"
  then have "opcode_of_byte b \<noteq> None"
    using opcode_in_all [of op] by (auto simp: opcode_of_byte_def find_None_iff)
  then obtain op' where op': "opcode_of_byte b = Some op'" by blast
  then have "opcode_byte op' = b"
    by (auto simp: opcode_of_byte_def find_Some_iff)
  with \<open>opcode_byte op = b\<close> op' show "opcode_of_byte b = Some op"
    by (metis opcode_byte_inject)
qed

lemma opcode_of_opcode_byte [simp]: "opcode_of_byte (opcode_byte op) = Some op"
  by (simp add: opcode_of_byte_Some)

fun mnemonic :: "opcode \<Rightarrow> string" where
  "mnemonic OP_HALT = ''HALT''"
| "mnemonic OP_NOP = ''NOP''"
| "mnemonic OP_TRAP = ''TRAP''"
| "mnemonic OP_IRET = ''IRET''"
| "mnemonic OP_CPUID = ''CPUID''"
| "mnemonic OP_MOV = ''MOV''"
| "mnemonic OP_MOVI = ''MOVI''"
| "mnemonic OP_LDB = ''LDB''"
| "mnemonic OP_LDH = ''LDH''"
| "mnemonic OP_LDW = ''LDW''"
| "mnemonic OP_STB = ''STB''"
| "mnemonic OP_STH = ''STH''"
| "mnemonic OP_STW = ''STW''"
| "mnemonic OP_ADD = ''ADD''"
| "mnemonic OP_ADDI = ''ADDI''"
| "mnemonic OP_SUB = ''SUB''"
| "mnemonic OP_SUBI = ''SUBI''"
| "mnemonic OP_MUL = ''MUL''"
| "mnemonic OP_MULU = ''MULU''"
| "mnemonic OP_DIV = ''DIV''"
| "mnemonic OP_DIVU = ''DIVU''"
| "mnemonic OP_AND = ''AND''"
| "mnemonic OP_OR = ''OR''"
| "mnemonic OP_XOR = ''XOR''"
| "mnemonic OP_NOT = ''NOT''"
| "mnemonic OP_SHL = ''SHL''"
| "mnemonic OP_SHR = ''SHR''"
| "mnemonic OP_SAR = ''SAR''"
| "mnemonic OP_CMP = ''CMP''"
| "mnemonic OP_CMPI = ''CMPI''"
| "mnemonic OP_JMP = ''JMP''"
| "mnemonic OP_JZ = ''JZ''"
| "mnemonic OP_JNZ = ''JNZ''"
| "mnemonic OP_PUSH = ''PUSH''"
| "mnemonic OP_POP = ''POP''"
| "mnemonic OP_CALL = ''CALL''"
| "mnemonic OP_RET = ''RET''"

definition t32_opcode_name :: "u8 \<Rightarrow> string" where
  "t32_opcode_name b = (case opcode_of_byte b of Some op \<Rightarrow> mnemonic op | None \<Rightarrow> ''UNKNOWN'')"

text \<open>The operand fields an instruction word may carry: bits 23..20 \<open>rd\<close>, 19..16 \<open>ra\<close>,
  15..12 \<open>rb\<close>.\<close>

fun opcode_mask :: "opcode \<Rightarrow> u32" where
  "opcode_mask OP_HALT = 0xff000000"
| "opcode_mask OP_NOP = 0xff000000"
| "opcode_mask OP_TRAP = 0xff000000"
| "opcode_mask OP_IRET = 0xff000000"
| "opcode_mask OP_JMP = 0xff000000"
| "opcode_mask OP_RET = 0xff000000"
| "opcode_mask OP_CALL = 0xff000000"
| "opcode_mask OP_CPUID = 0xfff00000"
| "opcode_mask OP_MOVI = 0xfff00000"
| "opcode_mask OP_POP = 0xfff00000"
| "opcode_mask OP_CMPI = 0xff0f0000"
| "opcode_mask OP_JZ = 0xff0f0000"
| "opcode_mask OP_JNZ = 0xff0f0000"
| "opcode_mask OP_PUSH = 0xff0f0000"
| "opcode_mask OP_MOV = 0xffff0000"
| "opcode_mask OP_LDB = 0xffff0000"
| "opcode_mask OP_LDH = 0xffff0000"
| "opcode_mask OP_LDW = 0xffff0000"
| "opcode_mask OP_ADDI = 0xffff0000"
| "opcode_mask OP_SUBI = 0xffff0000"
| "opcode_mask OP_NOT = 0xffff0000"
| "opcode_mask OP_STB = 0xff0ff000"
| "opcode_mask OP_STH = 0xff0ff000"
| "opcode_mask OP_STW = 0xff0ff000"
| "opcode_mask OP_CMP = 0xff0ff000"
| "opcode_mask OP_ADD = 0xfffff000"
| "opcode_mask OP_SUB = 0xfffff000"
| "opcode_mask OP_MUL = 0xfffff000"
| "opcode_mask OP_MULU = 0xfffff000"
| "opcode_mask OP_DIV = 0xfffff000"
| "opcode_mask OP_DIVU = 0xfffff000"
| "opcode_mask OP_AND = 0xfffff000"
| "opcode_mask OP_OR = 0xfffff000"
| "opcode_mask OP_XOR = 0xfffff000"
| "opcode_mask OP_SHL = 0xfffff000"
| "opcode_mask OP_SHR = 0xfffff000"
| "opcode_mask OP_SAR = 0xfffff000"

definition instruction_encoding_mask :: "u8 \<Rightarrow> u32 option" where
  "instruction_encoding_mask b = map_option opcode_mask (opcode_of_byte b)"

section \<open>Instruction words\<close>

text \<open>The fields \<open>t32_step\<close> takes out of an instruction word.\<close>

definition insn_opcode :: "u32 \<Rightarrow> u8" where
  "insn_opcode w = ucast (drop_bit 24 w)"

definition insn_rd :: "u32 \<Rightarrow> nat" where
  "insn_rd w = unat (drop_bit 20 w AND 0x0f)"

definition insn_ra :: "u32 \<Rightarrow> nat" where
  "insn_ra w = unat (drop_bit 16 w AND 0x0f)"

definition insn_rb :: "u32 \<Rightarrow> nat" where
  "insn_rb w = unat (drop_bit 12 w AND 0x0f)"

lemma nibble_bound: "unat ((x :: u32) AND 0x0f) < 16"
proof -
  have "x AND 0x0f \<le> 0x0f" by (rule word_and_le1)
  then have "unat (x AND 0x0f) \<le> unat (0x0f :: u32)" by (simp only: word_le_nat_alt)
  then show ?thesis by simp
qed

lemma insn_fields_bound [simp]: "insn_rd w < 16" "insn_ra w < 16" "insn_rb w < 16"
  by (simp_all add: insn_rd_def insn_ra_def insn_rb_def nibble_bound)

text \<open>The word an assembler emits for an opcode and its three register fields.\<close>

definition insn_word :: "opcode \<Rightarrow> u32 \<Rightarrow> u32 \<Rightarrow> u32 \<Rightarrow> u32" where
  "insn_word op rd ra rb =
     push_bit 24 (ucast (opcode_byte op)) OR push_bit 20 (rd AND 0x0f)
       OR push_bit 16 (ra AND 0x0f) OR push_bit 12 (rb AND 0x0f)"

lemma nibble_mask: "(0x0f :: u32) = mask 4"
  by (simp add: mask_eq_decr_exp)

lemma insn_word_fields:
  "insn_opcode (insn_word op rd ra rb) = opcode_byte op"
  "insn_rd (insn_word op rd ra rb) = unat (rd AND 0x0f)"
  "insn_ra (insn_word op rd ra rb) = unat (ra AND 0x0f)"
  "insn_rb (insn_word op rd ra rb) = unat (rb AND 0x0f)"
proof -
  show "insn_opcode (insn_word op rd ra rb) = opcode_byte op"
    unfolding insn_opcode_def insn_word_def nibble_mask
    by (rule bit_word_eqI) (auto simp: bit_simps)
  have "drop_bit 20 (insn_word op rd ra rb) AND 0x0f = rd AND 0x0f"
    unfolding insn_word_def nibble_mask by (rule bit_word_eqI) (auto simp: bit_simps)
  then show "insn_rd (insn_word op rd ra rb) = unat (rd AND 0x0f)" by (simp add: insn_rd_def)
  have "drop_bit 16 (insn_word op rd ra rb) AND 0x0f = ra AND 0x0f"
    unfolding insn_word_def nibble_mask by (rule bit_word_eqI) (auto simp: bit_simps)
  then show "insn_ra (insn_word op rd ra rb) = unat (ra AND 0x0f)" by (simp add: insn_ra_def)
  have "drop_bit 12 (insn_word op rd ra rb) AND 0x0f = rb AND 0x0f"
    unfolding insn_word_def nibble_mask by (rule bit_word_eqI) (auto simp: bit_simps)
  then show "insn_rb (insn_word op rd ra rb) = unat (rb AND 0x0f)" by (simp add: insn_rb_def)
qed

end
