(* ===== verification/T32_Host.thy ===== *)
theory T32_Host
  imports T32_Prelude
begin

text \<open>
  What the source uses of C's \<open>stdio\<close> and \<open>time\<close>. An open \<open>FILE *\<close> is its bytes, its
  position and a schedule of faults: every call takes the head of the schedule, \<open>None\<close>
  (or an empty schedule) for a call that works and \<open>Some k\<close> for one that fails, a read or
  write then having moved at most \<open>k\<close> bytes. Every theorem about a file therefore covers
  every pattern of host I/O errors, and the fault-free host is the empty schedule.
\<close>

record host_file =
  hf_bytes :: bytes
  hf_pos :: nat
  hf_faults :: "nat option list"

definition open_file :: "bytes \<Rightarrow> nat option list \<Rightarrow> host_file" where
  "open_file bs faults = \<lparr>hf_bytes = bs, hf_pos = 0, hf_faults = faults\<rparr>"

definition next_fault :: "host_file \<Rightarrow> nat option \<times> host_file" where
  "next_fault f = (case hf_faults f of [] \<Rightarrow> (None, f) | x # xs \<Rightarrow> (x, f\<lparr>hf_faults := xs\<rparr>))"

text \<open>\<open>LONG_MAX\<close> of an LP64 host.\<close>

definition LONG_MAX :: int where
  "LONG_MAX = 2 ^ 63 - 1"

text \<open>\<open>fseek(f, n, SEEK_SET) == 0\<close> and \<open>fseek(f, 0, SEEK_END) == 0\<close>.\<close>

definition fseek_set :: "host_file \<Rightarrow> nat \<Rightarrow> bool \<times> host_file" where
  "fseek_set f n =
     (case next_fault f of
        (Some _, g) \<Rightarrow> (False, g)
      | (None, g) \<Rightarrow> (True, g\<lparr>hf_pos := n\<rparr>))"

definition fseek_end :: "host_file \<Rightarrow> bool \<times> host_file" where
  "fseek_end f =
     (case next_fault f of
        (Some _, g) \<Rightarrow> (False, g)
      | (None, g) \<Rightarrow> (True, g\<lparr>hf_pos := length (hf_bytes g)\<rparr>))"

text \<open>\<open>ftell\<close> is -1 when it fails.\<close>

definition ftell :: "host_file \<Rightarrow> int \<times> host_file" where
  "ftell f =
     (case next_fault f of
        (Some _, g) \<Rightarrow> (-1, g)
      | (None, g) \<Rightarrow> (int (hf_pos g), g))"

text \<open>\<open>fread(buf, 1, n, f)\<close>: the bytes it delivers, their number being the return value.\<close>

definition fread :: "host_file \<Rightarrow> nat \<Rightarrow> bytes \<times> host_file" where
  "fread f n =
     (case next_fault f of
        (q, g) \<Rightarrow>
          let want = (case q of None \<Rightarrow> n | Some k \<Rightarrow> min k (n - 1));
              got = take want (drop (hf_pos g) (hf_bytes g))
          in (got, g\<lparr>hf_pos := hf_pos g + length got\<rparr>))"

text \<open>Bytes written at a position; a gap beyond the end of the file is filled with zeroes.\<close>

definition write_at :: "nat \<Rightarrow> bytes \<Rightarrow> bytes \<Rightarrow> bytes" where
  "write_at p bs old = patch p bs (old @ replicate (p + length bs - length old) 0)"

definition fwrite :: "host_file \<Rightarrow> bytes \<Rightarrow> nat \<times> host_file" where
  "fwrite f bs =
     (case next_fault f of
        (q, g) \<Rightarrow>
          let put = (case q of None \<Rightarrow> bs | Some k \<Rightarrow> take (min k (length bs - 1)) bs)
          in (length put, g\<lparr>hf_bytes := write_at (hf_pos g) put (hf_bytes g),
                            hf_pos := hf_pos g + length put\<rparr>))"

definition fflush :: "host_file \<Rightarrow> bool \<times> host_file" where
  "fflush f = (case next_fault f of (q, g) \<Rightarrow> (q = None, g))"

section \<open>Facts about the calls\<close>

lemma next_fault_cases:
  "next_fault f = (q, g) \<Longrightarrow> hf_bytes g = hf_bytes f \<and> hf_pos g = hf_pos f"
  by (auto simp: next_fault_def split: list.splits)

lemma next_fault_file [simp]:
  "hf_bytes (snd (next_fault f)) = hf_bytes f" "hf_pos (snd (next_fault f)) = hf_pos f"
  by (simp_all add: next_fault_def split: list.splits)

lemma next_fault_none: "hf_faults f = [] \<Longrightarrow> next_fault f = (None, f)"
  by (simp add: next_fault_def)

lemma length_write_at [len_simps]:
  "length (write_at p bs old) = max (length old) (p + length bs)"
  by (simp add: write_at_def)

lemma write_at_inside: "p + length bs \<le> length old \<Longrightarrow> write_at p bs old = patch p bs old"
  by (simp add: write_at_def)

lemma slice_write_at: "slice p (length bs) (write_at p bs old) = bs"
  unfolding write_at_def by (rule slice_patch) simp

lemma fseek_set_bytes [simp]: "hf_bytes (snd (fseek_set f n)) = hf_bytes f"
  by (auto simp: fseek_set_def case_prod_beta split: option.splits)

lemma fseek_set_pos: "fst (fseek_set f n) \<Longrightarrow> hf_pos (snd (fseek_set f n)) = n"
  by (auto simp: fseek_set_def split: prod.splits option.splits)

lemma fseek_end_bytes [simp]: "hf_bytes (snd (fseek_end f)) = hf_bytes f"
  by (auto simp: fseek_end_def case_prod_beta split: option.splits)

lemma fseek_end_pos:
  "fst (fseek_end f) \<Longrightarrow> hf_pos (snd (fseek_end f)) = length (hf_bytes f)"
  by (auto simp: fseek_end_def case_prod_beta split: option.splits)

lemma ftell_file [simp]:
  "hf_bytes (snd (ftell f)) = hf_bytes f" "hf_pos (snd (ftell f)) = hf_pos f"
  by (auto simp: ftell_def case_prod_beta split: option.splits)

lemma ftell_value: "0 \<le> fst (ftell f) \<Longrightarrow> fst (ftell f) = int (hf_pos f)"
  by (auto simp: ftell_def case_prod_beta split: option.splits)

lemma fread_bytes [simp]: "hf_bytes (snd (fread f n)) = hf_bytes f"
  by (auto simp: fread_def Let_def case_prod_beta split: option.splits)

lemma fread_length: "length (fst (fread f n)) \<le> n"
  by (auto simp: fread_def Let_def split: prod.splits option.splits)

text \<open>A read that delivers all it was asked for delivers the bytes at the position.\<close>

lemma fread_full:
  assumes full: "length (fst (fread f n)) = n" and "0 < n"
  shows "fst (fread f n) = slice (hf_pos f) n (hf_bytes f) \<and> hf_pos f + n \<le> length (hf_bytes f)"
proof -
  obtain q g where q: "next_fault f = (q, g)" by force
  note g = next_fault_cases [OF q]
  show ?thesis
  proof (cases q)
    case None
    then show ?thesis using q g full \<open>0 < n\<close>
      by (auto simp: fread_def Let_def slice_def min_def split: if_splits)
  next
    case (Some k)
    have "length (fst (fread f n)) \<le> n - 1"
      using q Some by (simp add: fread_def Let_def)
    with full \<open>0 < n\<close> show ?thesis by simp
  qed
qed

lemma fflush_file [simp]:
  "hf_bytes (snd (fflush f)) = hf_bytes f" "hf_pos (snd (fflush f)) = hf_pos f"
  by (simp_all add: fflush_def case_prod_beta)

text \<open>However a write ends, it put a prefix of its buffer at the position.\<close>

lemma fwrite_prefix:
  "\<exists>put. fst (fwrite f bs) = length put \<and> put = take (length put) bs \<and>
     hf_bytes (snd (fwrite f bs)) = write_at (hf_pos f) put (hf_bytes f)"
proof -
  obtain q g where q: "next_fault f = (q, g)" by force
  let ?put = "case q of None \<Rightarrow> bs | Some k \<Rightarrow> take (min k (length bs - 1)) bs"
  have "?put = take (length ?put) bs" by (simp split: option.split)
  then show ?thesis using q next_fault_cases [OF q]
    by (intro exI [of _ ?put]) (simp add: fwrite_def Let_def)
qed

lemma fwrite_full:
  assumes "fst (fwrite f bs) = length bs"
  shows "hf_bytes (snd (fwrite f bs)) = write_at (hf_pos f) bs (hf_bytes f)"
proof -
  obtain put where "fst (fwrite f bs) = length put" "put = take (length put) bs"
    and w: "hf_bytes (snd (fwrite f bs)) = write_at (hf_pos f) put (hf_bytes f)"
    using fwrite_prefix [of f bs] by blast
  with assms have "put = bs" by simp
  with w show ?thesis by simp
qed

text \<open>The calls on a host without faults.\<close>

lemma fault_free:
  assumes "hf_faults f = []"
  shows "fseek_set f n = (True, f\<lparr>hf_pos := n\<rparr>)"
    and "fseek_end f = (True, f\<lparr>hf_pos := length (hf_bytes f)\<rparr>)"
    and "ftell f = (int (hf_pos f), f)"
    and "fread f n = (slice (hf_pos f) n (hf_bytes f),
           f\<lparr>hf_pos := hf_pos f + length (slice (hf_pos f) n (hf_bytes f))\<rparr>)"
    and "fwrite f bs = (length bs, f\<lparr>hf_bytes := write_at (hf_pos f) bs (hf_bytes f),
           hf_pos := hf_pos f + length bs\<rparr>)"
    and "fflush f = (True, f)"
  using assms
  by (simp_all add: fseek_set_def fseek_end_def ftell_def fread_def fwrite_def fflush_def
      next_fault_none slice_def Let_def)

text \<open>\<open>time(NULL)\<close> takes the next sample of the host clock, -1 when there is none.\<close>

definition time_NULL :: "int list \<Rightarrow> int \<times> int list" where
  "time_NULL ts = (case ts of [] \<Rightarrow> (-1, []) | t # ts' \<Rightarrow> (t, ts'))"

end
