(* ===== verification/T32_Machine.thy ===== *)
theory T32_Machine
  imports T32_Isa T32_Host
begin

text \<open>
  The state of a virtual machine, \<open>struct t32_machine\<close> of \<open>vm/libt32vm/src/t32.c\<close>, with the
  constants of \<open>vm/libt32vm/include/t32.h\<close>, and the library calls that only look at or set
  this state: create, reset, attach and detach a disk, the keyboard queue, the platform
  requests, register and program-counter access, \<open>t32_clear_halt\<close>.

  A machine is a value, so the source's tests for a null pointer have no counterpart.
  \<open>size_t\<close> values are \<open>nat\<close> (every one is below \<open>2 ^ 64\<close> where the code adds to it),
  \<open>uint32_t\<close> and \<open>uint64_t\<close> are words. \<open>disk_file\<close> is the open host file,
  \<open>time_samples\<close> what successive calls of \<open>time(NULL)\<close> will return.
\<close>

section \<open>Constants\<close>

abbreviation (input) "T32_REGISTER_COUNT \<equiv> 16 :: nat"
abbreviation (input) "T32_DEFAULT_MEMORY_SIZE \<equiv> 1048576 :: nat"

abbreviation (input) "T32_VIDEO_BASE \<equiv> 0x90000000 :: nat"
abbreviation (input) "T32_VIDEO_COLUMNS \<equiv> 80 :: nat"
abbreviation (input) "T32_VIDEO_ROWS \<equiv> 25 :: nat"
abbreviation (input) "T32_VIDEO_SIZE \<equiv> 2000 :: nat"

abbreviation (input) "T32_KEYBOARD_BASE \<equiv> 0x90002000 :: nat"
abbreviation (input) "T32_KEYBOARD_MMIO_SIZE \<equiv> 0x0C :: nat"
abbreviation (input) "T32_KEYBOARD_ID \<equiv> 0x54334B31 :: u32"
abbreviation (input) "T32_KEYBOARD_REG_ID \<equiv> 0x00 :: nat"
abbreviation (input) "T32_KEYBOARD_REG_STATUS \<equiv> 0x04 :: nat"
abbreviation (input) "T32_KEYBOARD_REG_DATA \<equiv> 0x08 :: nat"
abbreviation (input) "T32_KEYBOARD_STATUS_DATA_READY \<equiv> 1 :: u32"
abbreviation (input) "T32_KEYBOARD_QUEUE_SIZE \<equiv> 64 :: nat"

abbreviation (input) "T32_RTC_BASE \<equiv> 0x90003000 :: nat"
abbreviation (input) "T32_RTC_MMIO_SIZE \<equiv> 0x0C :: nat"
abbreviation (input) "T32_RTC_ID \<equiv> 0x54335231 :: u32"
abbreviation (input) "T32_RTC_REG_ID \<equiv> 0x00 :: nat"
abbreviation (input) "T32_RTC_REG_STATUS \<equiv> 0x04 :: nat"
abbreviation (input) "T32_RTC_REG_EPOCH \<equiv> 0x08 :: nat"
abbreviation (input) "T32_RTC_STATUS_VALID \<equiv> 1 :: u32"

abbreviation (input) "T32_PLATFORM_BASE \<equiv> 0x90004000 :: nat"
abbreviation (input) "T32_PLATFORM_MMIO_SIZE \<equiv> 0x10 :: nat"
abbreviation (input) "T32_PLATFORM_ID \<equiv> 0x54335031 :: u32"
abbreviation (input) "T32_PLATFORM_REG_ID \<equiv> 0x00 :: nat"
abbreviation (input) "T32_PLATFORM_REG_STATUS \<equiv> 0x04 :: nat"
abbreviation (input) "T32_PLATFORM_REG_CONTROL \<equiv> 0x08 :: nat"
abbreviation (input) "T32_PLATFORM_REG_RAM_SIZE \<equiv> 0x0C :: nat"
abbreviation (input) "T32_PLATFORM_STATUS_POWER_REQUESTED \<equiv> 1 :: u32"
abbreviation (input) "T32_PLATFORM_CONTROL_POWER_OFF \<equiv> 1 :: u32"
abbreviation (input) "T32_PLATFORM_CONTROL_RESET \<equiv> 2 :: u32"

abbreviation (input) "T32_DISK_BASE \<equiv> 0x90001000 :: nat"
abbreviation (input) "T32_DISK_ID \<equiv> 0x54334431 :: u32"
abbreviation (input) "T32_DISK_SECTOR_SIZE \<equiv> 512 :: nat"
abbreviation (input) "T32_DISK_DATA_OFFSET \<equiv> 0x100 :: nat"
abbreviation (input) "T32_DISK_MMIO_SIZE \<equiv> 0x300 :: nat"
abbreviation (input) "T32_DISK_REG_ID \<equiv> 0x00 :: nat"
abbreviation (input) "T32_DISK_REG_STATUS \<equiv> 0x04 :: nat"
abbreviation (input) "T32_DISK_REG_COMMAND \<equiv> 0x08 :: nat"
abbreviation (input) "T32_DISK_REG_LBA \<equiv> 0x0c :: nat"
abbreviation (input) "T32_DISK_REG_ERROR \<equiv> 0x10 :: nat"
abbreviation (input) "T32_DISK_REG_SECTOR_SIZE \<equiv> 0x14 :: nat"
abbreviation (input) "T32_DISK_REG_SECTOR_COUNT \<equiv> 0x18 :: nat"
abbreviation (input) "T32_DISK_STATUS_ATTACHED \<equiv> 1 :: u32"
abbreviation (input) "T32_DISK_STATUS_READY \<equiv> 2 :: u32"
abbreviation (input) "T32_DISK_STATUS_ERROR \<equiv> 4 :: u32"
abbreviation (input) "T32_DISK_COMMAND_READ \<equiv> 1 :: u32"
abbreviation (input) "T32_DISK_COMMAND_WRITE \<equiv> 2 :: u32"
abbreviation (input) "T32_DISK_ERROR_NONE \<equiv> 0 :: u32"
abbreviation (input) "T32_DISK_ERROR_NO_MEDIA \<equiv> 1 :: u32"
abbreviation (input) "T32_DISK_ERROR_RANGE \<equiv> 2 :: u32"
abbreviation (input) "T32_DISK_ERROR_IO \<equiv> 3 :: u32"
abbreviation (input) "T32_DISK_ERROR_BAD_COMMAND \<equiv> 4 :: u32"

abbreviation (input) "T32_STACK_POINTER \<equiv> 15 :: nat"
abbreviation (input) "T32_CPUID_VALUE \<equiv> 0x54333201 :: u32"
abbreviation (input) "UINT32_MAX \<equiv> 0xFFFFFFFF :: nat"

section \<open>The state\<close>

datatype t32_state = STATE_STOPPED | STATE_RUNNING | STATE_HALTED | STATE_ERROR

datatype t32_step_result = STEP_OK | STEP_HALTED | STEP_FAULT

record t32_flags =
  carry :: bool
  zero :: bool
  negative :: bool
  overflow :: bool

definition no_flags :: t32_flags where
  "no_flags = \<lparr>carry = False, zero = False, negative = False, overflow = False\<rparr>"

record t32_machine =
  registers :: "u32 list"
  pc :: u32
  flags :: t32_flags
  memory :: bytes
  memory_size :: nat
  video_memory :: bytes
  video_dirty :: bool
  keyboard_queue :: bytes
  keyboard_head :: nat
  keyboard_tail :: nat
  keyboard_count :: nat
  platform_power_off_requested :: bool
  platform_reset_requested :: bool
  disk_file :: "host_file option"
  disk_sector_count :: u32
  disk_lba :: u32
  disk_error :: u32
  disk_buffer :: bytes
  state :: t32_state
  halt_reason :: string
  instruction_count :: u64
  time_samples :: "int list"

abbreviation set_reg :: "nat \<Rightarrow> u32 \<Rightarrow> t32_machine \<Rightarrow> t32_machine" where
  "set_reg r v m \<equiv> m\<lparr>registers := (registers m)[r := v]\<rparr>"

section \<open>Creation and reset\<close>

definition t32_reset :: "t32_machine \<Rightarrow> t32_machine" where
  "t32_reset m = m\<lparr>
     registers := replicate T32_REGISTER_COUNT 0,
     flags := no_flags,
     video_memory := replicate T32_VIDEO_SIZE 0x20,
     video_dirty := True,
     disk_lba := 0,
     disk_error := T32_DISK_ERROR_NONE,
     disk_buffer := replicate T32_DISK_SECTOR_SIZE 0,
     pc := 0,
     state := STATE_STOPPED,
     halt_reason := [],
     keyboard_head := 0,
     keyboard_tail := 0,
     keyboard_count := 0,
     platform_power_off_requested := False,
     platform_reset_requested := False,
     instruction_count := 0\<rparr>"

text \<open>What \<open>calloc(1, sizeof(*machine))\<close> returns; the host clock is outside the structure.\<close>

definition zeroed_machine :: "int list \<Rightarrow> t32_machine" where
  "zeroed_machine clock = \<lparr>
     registers = replicate T32_REGISTER_COUNT 0, pc = 0, flags = no_flags,
     memory = [], memory_size = 0,
     video_memory = replicate T32_VIDEO_SIZE 0, video_dirty = False,
     keyboard_queue = replicate T32_KEYBOARD_QUEUE_SIZE 0,
     keyboard_head = 0, keyboard_tail = 0, keyboard_count = 0,
     platform_power_off_requested = False, platform_reset_requested = False,
     disk_file = None, disk_sector_count = 0, disk_lba = 0, disk_error = 0,
     disk_buffer = replicate T32_DISK_SECTOR_SIZE 0,
     state = STATE_STOPPED, halt_reason = [], instruction_count = 0,
     time_samples = clock\<rparr>"

text \<open>\<open>calloc_ok\<close> says which of the two allocations, of the structure and of the guest
  memory, the host grants.\<close>

definition t32_create :: "bool \<times> bool \<Rightarrow> int list \<Rightarrow> nat \<Rightarrow> t32_machine option" where
  "t32_create calloc_ok clock size_arg =
     (let size' = (if size_arg = 0 then T32_DEFAULT_MEMORY_SIZE else size_arg)
      in if \<not> fst calloc_ok then None
         else if \<not> snd calloc_ok then None
         else Some (t32_reset ((zeroed_machine clock)\<lparr>memory := replicate size' 0,
                                                       memory_size := size'\<rparr>)))"

section \<open>Disk media\<close>

definition t32_disk_detach :: "t32_machine \<Rightarrow> t32_machine" where
  "t32_disk_detach m = m\<lparr>
     disk_file := None,
     disk_sector_count := 0,
     disk_lba := 0,
     disk_error := T32_DISK_ERROR_NONE,
     disk_buffer := replicate T32_DISK_SECTOR_SIZE 0\<rparr>"

text \<open>The argument is what \<open>fopen(path, "r+b")\<close> returned.\<close>

definition t32_disk_attach :: "t32_machine \<Rightarrow> host_file option \<Rightarrow> bool \<times> t32_machine" where
  "t32_disk_attach m opened =
     (case opened of
        None \<Rightarrow> (False, m)
      | Some f0 \<Rightarrow>
        (case fseek_end f0 of (ok1, f1) \<Rightarrow>
         if \<not> ok1 then (False, m) else
         case ftell f1 of (sz, f2) \<Rightarrow>
         if sz < 0 then (False, m) else
         case fseek_set f2 0 of (ok2, f3) \<Rightarrow>
         if \<not> ok2 \<or> sz mod int T32_DISK_SECTOR_SIZE \<noteq> 0
            \<or> sz div int T32_DISK_SECTOR_SIZE > int UINT32_MAX then (False, m)
         else (True, (t32_disk_detach m)\<lparr>
                disk_file := Some f3,
                disk_sector_count := word_of_int (sz div int T32_DISK_SECTOR_SIZE),
                disk_lba := 0,
                disk_error := T32_DISK_ERROR_NONE,
                disk_buffer := replicate T32_DISK_SECTOR_SIZE 0\<rparr>)))"

definition t32_disk_is_attached :: "t32_machine \<Rightarrow> bool" where
  "t32_disk_is_attached m = (disk_file m \<noteq> None)"

definition t32_disk_sector_count :: "t32_machine \<Rightarrow> u32" where
  "t32_disk_sector_count m = disk_sector_count m"

section \<open>Keyboard queue, platform requests, video flag\<close>

definition t32_keyboard_push :: "t32_machine \<Rightarrow> u8 \<Rightarrow> bool \<times> t32_machine" where
  "t32_keyboard_push m c =
     (if keyboard_count m \<ge> T32_KEYBOARD_QUEUE_SIZE then (False, m)
      else (True, m\<lparr>
        keyboard_queue := (keyboard_queue m)[keyboard_tail m := c],
        keyboard_tail := (keyboard_tail m + 1) mod T32_KEYBOARD_QUEUE_SIZE,
        keyboard_count := keyboard_count m + 1\<rparr>))"

definition t32_keyboard_pending :: "t32_machine \<Rightarrow> nat" where
  "t32_keyboard_pending m = keyboard_count m"

definition t32_power_off_requested :: "t32_machine \<Rightarrow> bool" where
  "t32_power_off_requested m = platform_power_off_requested m"

definition t32_reset_requested :: "t32_machine \<Rightarrow> bool" where
  "t32_reset_requested m = platform_reset_requested m"

definition t32_clear_platform_requests :: "t32_machine \<Rightarrow> t32_machine" where
  "t32_clear_platform_requests m =
     m\<lparr>platform_power_off_requested := False, platform_reset_requested := False\<rparr>"

definition t32_video_is_dirty :: "t32_machine \<Rightarrow> bool" where
  "t32_video_is_dirty m = video_dirty m"

definition t32_video_clear_dirty :: "t32_machine \<Rightarrow> t32_machine" where
  "t32_video_clear_dirty m = m\<lparr>video_dirty := False\<rparr>"

section \<open>Registers, program counter, run state\<close>

definition t32_set_register :: "t32_machine \<Rightarrow> nat \<Rightarrow> u32 \<Rightarrow> bool \<times> t32_machine" where
  "t32_set_register m n v =
     (if n \<ge> T32_REGISTER_COUNT then (False, m) else (True, set_reg n v m))"

definition t32_get_register :: "t32_machine \<Rightarrow> nat \<Rightarrow> u32" where
  "t32_get_register m n = (if n \<ge> T32_REGISTER_COUNT then 0 else registers m ! n)"

definition t32_set_pc :: "t32_machine \<Rightarrow> u32 \<Rightarrow> t32_machine" where
  "t32_set_pc m a = m\<lparr>pc := a\<rparr>"

definition t32_get_pc :: "t32_machine \<Rightarrow> u32" where
  "t32_get_pc m = pc m"

definition t32_get_flags :: "t32_machine \<Rightarrow> t32_flags" where
  "t32_get_flags m = flags m"

definition t32_get_state :: "t32_machine \<Rightarrow> t32_state" where
  "t32_get_state m = state m"

definition t32_get_halt_reason :: "t32_machine \<Rightarrow> string" where
  "t32_get_halt_reason m = halt_reason m"

definition t32_get_instruction_count :: "t32_machine \<Rightarrow> u64" where
  "t32_get_instruction_count m = instruction_count m"

fun t32_state_name :: "t32_state \<Rightarrow> string" where
  "t32_state_name STATE_STOPPED = ''stopped''"
| "t32_state_name STATE_RUNNING = ''running''"
| "t32_state_name STATE_HALTED = ''halted''"
| "t32_state_name STATE_ERROR = ''error''"

definition t32_clear_halt :: "t32_machine \<Rightarrow> t32_machine" where
  "t32_clear_halt m =
     (if state m = STATE_HALTED then m\<lparr>state := STATE_STOPPED, halt_reason := []\<rparr> else m)"

definition set_fault :: "t32_machine \<Rightarrow> string \<Rightarrow> t32_machine" where
  "set_fault m reason = m\<lparr>state := STATE_ERROR, halt_reason := snprintf 128 reason\<rparr>"

section \<open>Well-formed machines\<close>

text \<open>The sizes of the arrays and of the allocated memory, the ring invariant of the keyboard
  queue, and the agreement of the attached file with its sector count.\<close>

definition keyboard_ok :: "t32_machine \<Rightarrow> bool" where
  "keyboard_ok m \<longleftrightarrow>
     length (keyboard_queue m) = T32_KEYBOARD_QUEUE_SIZE
     \<and> keyboard_head m < T32_KEYBOARD_QUEUE_SIZE
     \<and> keyboard_count m \<le> T32_KEYBOARD_QUEUE_SIZE
     \<and> keyboard_tail m = (keyboard_head m + keyboard_count m) mod T32_KEYBOARD_QUEUE_SIZE"

fun media_ok :: "host_file option \<Rightarrow> u32 \<Rightarrow> bool" where
  "media_ok None n = (n = 0)"
| "media_ok (Some f) n = (length (hf_bytes f) = T32_DISK_SECTOR_SIZE * unat n)"

definition disk_ok :: "t32_machine \<Rightarrow> bool" where
  "disk_ok m \<longleftrightarrow> length (disk_buffer m) = T32_DISK_SECTOR_SIZE
     \<and> media_ok (disk_file m) (disk_sector_count m)"

definition machine_wf :: "t32_machine \<Rightarrow> bool" where
  "machine_wf m \<longleftrightarrow>
     length (registers m) = T32_REGISTER_COUNT
     \<and> length (memory m) = memory_size m
     \<and> length (video_memory m) = T32_VIDEO_SIZE
     \<and> keyboard_ok m \<and> disk_ok m"

lemmas machine_wf_defs = machine_wf_def keyboard_ok_def disk_ok_def

text \<open>Updates of a field the invariant does not read.\<close>

lemma machine_wf_frame [simp]:
  "machine_wf (m\<lparr>pc := a\<rparr>) = machine_wf m"
  "machine_wf (m\<lparr>flags := fl\<rparr>) = machine_wf m"
  "machine_wf (m\<lparr>video_dirty := b\<rparr>) = machine_wf m"
  "machine_wf (m\<lparr>platform_power_off_requested := b\<rparr>) = machine_wf m"
  "machine_wf (m\<lparr>platform_reset_requested := b\<rparr>) = machine_wf m"
  "machine_wf (m\<lparr>disk_lba := v\<rparr>) = machine_wf m"
  "machine_wf (m\<lparr>disk_error := v\<rparr>) = machine_wf m"
  "machine_wf (m\<lparr>state := s\<rparr>) = machine_wf m"
  "machine_wf (m\<lparr>halt_reason := r\<rparr>) = machine_wf m"
  "machine_wf (m\<lparr>instruction_count := n\<rparr>) = machine_wf m"
  "machine_wf (m\<lparr>time_samples := ts\<rparr>) = machine_wf m"
  by (simp_all add: machine_wf_defs)

lemma machine_wf_set_reg [simp]:
  "machine_wf (m\<lparr>registers := (registers m)[r := v]\<rparr>) = machine_wf m"
  by (simp add: machine_wf_defs)

lemma machine_wf_reset: "machine_wf m \<Longrightarrow> machine_wf (t32_reset m)"
  by (simp add: machine_wf_defs t32_reset_def)

lemma machine_wf_detach: "machine_wf m \<Longrightarrow> machine_wf (t32_disk_detach m)"
  by (simp add: machine_wf_defs t32_disk_detach_def)

lemma machine_wf_create: "t32_create ok clock n = Some m \<Longrightarrow> machine_wf m"
  by (auto simp: t32_create_def machine_wf_defs t32_reset_def zeroed_machine_def Let_def
      split: if_splits)

lemma machine_wf_set_fault [simp]: "machine_wf (set_fault m r) = machine_wf m"
  by (simp add: set_fault_def)

lemma machine_wf_keyboard_push:
  "machine_wf m \<Longrightarrow> machine_wf (snd (t32_keyboard_push m c))"
  by (simp add: t32_keyboard_push_def machine_wf_defs mod_Suc_eq)

lemma machine_wf_clear_halt [simp]: "machine_wf (t32_clear_halt m) = machine_wf m"
  by (simp add: t32_clear_halt_def)

lemma machine_wf_attach:
  assumes "machine_wf m"
  shows "machine_wf (snd (t32_disk_attach m opened))"
proof (cases "fst (t32_disk_attach m opened)")
  case False
  then have "snd (t32_disk_attach m opened) = m"
    by (auto simp: t32_disk_attach_def case_prod_beta split: option.splits if_splits)
  with assms show ?thesis by simp
next
  case True
  then obtain f0 where f0: "opened = Some f0"
    by (auto simp: t32_disk_attach_def split: option.splits)
  let ?f1 = "snd (fseek_end f0)" let ?f2 = "snd (ftell ?f1)" let ?sz = "fst (ftell ?f1)"
  let ?f3 = "snd (fseek_set ?f2 0)"
  have sz: "fst (fseek_end f0)" "0 \<le> ?sz" "?sz mod 512 = 0" "?sz div 512 \<le> int UINT32_MAX"
    using True f0 by (auto simp: t32_disk_attach_def case_prod_beta split: if_splits)
  let ?L = "length (hf_bytes f0)"
  have eq: "?sz = int ?L"
    using sz(1,2) ftell_value fseek_end_pos by fastforce
  then have "int (?L mod 512) = 0" and div: "?sz div 512 = int (?L div 512)"
    using sz(3) by (simp_all add: zmod_int zdiv_int)
  then have "?L = 512 * (?L div 512)" by auto
  moreover have "unat (word_of_int (?sz div 512) :: u32) = ?L div 512"
    using sz(4) unfolding div by (simp add: unat_of_nat32)
  ultimately have "length (hf_bytes ?f3) = 512 * unat (word_of_int (?sz div 512) :: u32)"
    by simp
  then show ?thesis using assms True f0
    by (auto simp: t32_disk_attach_def case_prod_beta machine_wf_defs t32_disk_detach_def
        split: if_splits)
qed

end
