(* ===== verification/T32_Devices.thy ===== *)
theory T32_Devices
  imports T32_Machine
begin

text \<open>
  The memory-mapped devices of \<open>vm/libt32vm/src/t32.c\<close>: their address windows
  (\<open>*_range_valid\<close>), the disk controller (\<open>disk_execute\<close>, \<open>disk_mmio_read\<close>,
  \<open>disk_mmio_write\<close>), the real-time clock, the platform-control registers and the keyboard.
  A device read returns the bytes it stored through \<open>buffer\<close>, \<open>None\<close> when it returns
  false; a device write returns the C truth value. The source stores a register value either with
  \<open>encode_u32_le\<close> or with the same four assignments written out.
\<close>

section \<open>Little-endian register values\<close>

definition encode_u32_le :: "u32 \<Rightarrow> bytes" where
  "encode_u32_le v =
     [ucast v, ucast (drop_bit 8 v), ucast (drop_bit 16 v), ucast (drop_bit 24 v)]"

definition decode_u32_le :: "bytes \<Rightarrow> u32" where
  "decode_u32_le p = ucast (p ! 0) OR push_bit 8 (ucast (p ! 1))
     OR push_bit 16 (ucast (p ! 2)) OR push_bit 24 (ucast (p ! 3))"

lemma codec_eq: "encode_u32_le = le32" "decode_u32_le = of_le32"
  by (auto simp: fun_eq_iff encode_u32_le_def le32_def decode_u32_le_def of_le32_def)

lemma of_le32_prefix: "4 \<le> length p \<Longrightarrow> of_le32 p = of_le32 (take 4 p)"
  by (simp add: of_le32_def)

interpretation vm_codec: le32_codec encode_u32_le decode_u32_le
  by unfold_locales (simp_all add: codec_eq le32_of_le32 of_le32_prefix [symmetric])

section \<open>Address windows\<close>

text \<open>The interface the bus relies on: a window accepts exactly the accesses that lie within
  it, also when \<open>address + length\<close> exceeds 64 bits.\<close>

locale mmio_region =
  fixes base :: nat and extent :: nat and range :: "u32 \<Rightarrow> nat \<Rightarrow> nat option"
  assumes range_iff: "n < 2 ^ 64 \<Longrightarrow> range a n = Some off \<longleftrightarrow>
    base \<le> unat a \<and> unat a + n \<le> base + extent \<and> off = unat a - base"
begin

lemma range_bounds: "n < 2 ^ 64 \<Longrightarrow> range a n = Some off \<Longrightarrow> off + n \<le> extent"
  by (auto simp: range_iff)

lemma range_None: "n < 2 ^ 64 \<Longrightarrow> range a n = None \<longleftrightarrow> unat a < base \<or> base + extent < unat a + n"
  using range_iff [of n a] by (cases "range a n") force+

lemma range_in: "n < 2 ^ 64 \<Longrightarrow> range a n \<noteq> None \<longleftrightarrow> base \<le> unat a \<and> unat a + n \<le> base + extent"
  by (auto simp: range_None not_less simp del: not_None_eq)

end

locale mmio_below = lo: mmio_region b1 e1 r1 + hi: mmio_region b2 e2 r2
  for b1 e1 r1 b2 e2 r2 +
  assumes below: "b1 + e1 \<le> b2"
begin

text \<open>A non-empty access hits at most one of two windows that do not overlap.\<close>

lemma exclusive: "0 < n \<Longrightarrow> n < 2 ^ 64 \<Longrightarrow> r1 a n \<noteq> None \<Longrightarrow> r2 a n = None"
  using below by (auto simp: hi.range_None lo.range_iff)

end

definition video_range_valid :: "u32 \<Rightarrow> nat \<Rightarrow> nat option" where
  "video_range_valid address len =
     (let start = unat address; base = T32_VIDEO_BASE;
          end' = (start + len) mod 2 ^ 64; video_end = base + T32_VIDEO_SIZE
      in if start < base \<or> end' < start \<or> end' > video_end then None else Some (start - base))"

definition disk_range_valid :: "u32 \<Rightarrow> nat \<Rightarrow> nat option" where
  "disk_range_valid address len =
     (let start = unat address; base = T32_DISK_BASE;
          end' = (start + len) mod 2 ^ 64; disk_end = base + T32_DISK_MMIO_SIZE
      in if start < base \<or> end' < start \<or> end' > disk_end then None else Some (start - base))"

definition rtc_range_valid :: "u32 \<Rightarrow> nat \<Rightarrow> nat option" where
  "rtc_range_valid address len =
     (let start = unat address; base = T32_RTC_BASE;
          end' = (start + len) mod 2 ^ 64; rtc_end = base + T32_RTC_MMIO_SIZE
      in if start < base \<or> end' < start \<or> end' > rtc_end then None else Some (start - base))"

definition platform_range_valid :: "u32 \<Rightarrow> nat \<Rightarrow> nat option" where
  "platform_range_valid address len =
     (let start = unat address; base = T32_PLATFORM_BASE;
          end' = (start + len) mod 2 ^ 64; platform_end = base + T32_PLATFORM_MMIO_SIZE
      in if start < base \<or> end' < start \<or> end' > platform_end then None else Some (start - base))"

definition keyboard_range_valid :: "u32 \<Rightarrow> nat \<Rightarrow> nat option" where
  "keyboard_range_valid address len =
     (let start = unat address; base = T32_KEYBOARD_BASE;
          end' = (start + len) mod 2 ^ 64; keyboard_end = base + T32_KEYBOARD_MMIO_SIZE
      in if start < base \<or> end' < start \<or> end' > keyboard_end then None else Some (start - base))"

lemmas range_valid_defs = video_range_valid_def disk_range_valid_def rtc_range_valid_def
  platform_range_valid_def keyboard_range_valid_def

lemma window_test:
  assumes "n < 2 ^ 64" and "base + extent < 2 ^ 64"
  shows "\<not> (unat (a :: u32) < base \<or> (unat a + n) mod 2 ^ 64 < unat a
            \<or> (unat a + n) mod 2 ^ 64 > base + extent)
         \<longleftrightarrow> base \<le> unat a \<and> unat a + n \<le> base + extent"
proof (cases "unat a + n < 2 ^ 64")
  case True
  then show ?thesis by auto
next
  case False
  have "unat a < 2 ^ 32" by (rule unat_u32_bound)
  with False assms have "(unat a + n) mod 2 ^ 64 = unat a + n - 2 ^ 64"
    by (simp add: mod_if)
  with False assms show ?thesis by auto
qed

interpretation video: mmio_region T32_VIDEO_BASE T32_VIDEO_SIZE video_range_valid
  using window_test [of _ T32_VIDEO_BASE T32_VIDEO_SIZE]
  by unfold_locales (auto simp: video_range_valid_def Let_def)

interpretation disk: mmio_region T32_DISK_BASE T32_DISK_MMIO_SIZE disk_range_valid
  using window_test [of _ T32_DISK_BASE T32_DISK_MMIO_SIZE]
  by unfold_locales (auto simp: disk_range_valid_def Let_def)

interpretation rtc: mmio_region T32_RTC_BASE T32_RTC_MMIO_SIZE rtc_range_valid
  using window_test [of _ T32_RTC_BASE T32_RTC_MMIO_SIZE]
  by unfold_locales (auto simp: rtc_range_valid_def Let_def)

interpretation platform: mmio_region T32_PLATFORM_BASE T32_PLATFORM_MMIO_SIZE platform_range_valid
  using window_test [of _ T32_PLATFORM_BASE T32_PLATFORM_MMIO_SIZE]
  by unfold_locales (auto simp: platform_range_valid_def Let_def)

interpretation keyboard: mmio_region T32_KEYBOARD_BASE T32_KEYBOARD_MMIO_SIZE keyboard_range_valid
  using window_test [of _ T32_KEYBOARD_BASE T32_KEYBOARD_MMIO_SIZE]
  by unfold_locales (auto simp: keyboard_range_valid_def Let_def)

text \<open>The windows in address order: video, disk, keyboard, clock, platform control.\<close>

interpretation video_disk: mmio_below T32_VIDEO_BASE T32_VIDEO_SIZE video_range_valid
  T32_DISK_BASE T32_DISK_MMIO_SIZE disk_range_valid
  by unfold_locales simp

interpretation video_keyboard: mmio_below T32_VIDEO_BASE T32_VIDEO_SIZE video_range_valid
  T32_KEYBOARD_BASE T32_KEYBOARD_MMIO_SIZE keyboard_range_valid
  by unfold_locales simp

interpretation video_rtc: mmio_below T32_VIDEO_BASE T32_VIDEO_SIZE video_range_valid
  T32_RTC_BASE T32_RTC_MMIO_SIZE rtc_range_valid
  by unfold_locales simp

interpretation video_platform: mmio_below T32_VIDEO_BASE T32_VIDEO_SIZE video_range_valid
  T32_PLATFORM_BASE T32_PLATFORM_MMIO_SIZE platform_range_valid
  by unfold_locales simp

interpretation disk_keyboard: mmio_below T32_DISK_BASE T32_DISK_MMIO_SIZE disk_range_valid
  T32_KEYBOARD_BASE T32_KEYBOARD_MMIO_SIZE keyboard_range_valid
  by unfold_locales simp

interpretation disk_rtc: mmio_below T32_DISK_BASE T32_DISK_MMIO_SIZE disk_range_valid
  T32_RTC_BASE T32_RTC_MMIO_SIZE rtc_range_valid
  by unfold_locales simp

interpretation disk_platform: mmio_below T32_DISK_BASE T32_DISK_MMIO_SIZE disk_range_valid
  T32_PLATFORM_BASE T32_PLATFORM_MMIO_SIZE platform_range_valid
  by unfold_locales simp

interpretation keyboard_rtc: mmio_below T32_KEYBOARD_BASE T32_KEYBOARD_MMIO_SIZE
  keyboard_range_valid T32_RTC_BASE T32_RTC_MMIO_SIZE rtc_range_valid
  by unfold_locales simp

interpretation keyboard_platform: mmio_below T32_KEYBOARD_BASE T32_KEYBOARD_MMIO_SIZE
  keyboard_range_valid T32_PLATFORM_BASE T32_PLATFORM_MMIO_SIZE platform_range_valid
  by unfold_locales simp

interpretation rtc_platform: mmio_below T32_RTC_BASE T32_RTC_MMIO_SIZE rtc_range_valid
  T32_PLATFORM_BASE T32_PLATFORM_MMIO_SIZE platform_range_valid
  by unfold_locales simp

section \<open>Disk controller\<close>

definition disk_status :: "t32_machine \<Rightarrow> u32" where
  "disk_status m =
     (if disk_file m \<noteq> None then T32_DISK_STATUS_ATTACHED OR T32_DISK_STATUS_READY else 0)
     OR (if disk_error m \<noteq> T32_DISK_ERROR_NONE then T32_DISK_STATUS_ERROR else 0)"

definition disk_execute :: "t32_machine \<Rightarrow> u32 \<Rightarrow> bool \<times> t32_machine" where
  "disk_execute m0 command =
     (let m = m0\<lparr>disk_error := T32_DISK_ERROR_NONE\<rparr> in
      case disk_file m of
        None \<Rightarrow> (True, m\<lparr>disk_error := T32_DISK_ERROR_NO_MEDIA\<rparr>)
      | Some f \<Rightarrow>
        if disk_lba m \<ge> disk_sector_count m
        then (True, m\<lparr>disk_error := T32_DISK_ERROR_RANGE\<rparr>)
        else if disk_lba m > word_of_int (LONG_MAX div int T32_DISK_SECTOR_SIZE)
        then (True, m\<lparr>disk_error := T32_DISK_ERROR_RANGE\<rparr>)
        else case fseek_set f (unat (disk_lba m) * T32_DISK_SECTOR_SIZE) of (ok, f1) \<Rightarrow>
          if \<not> ok then (True, m\<lparr>disk_file := Some f1, disk_error := T32_DISK_ERROR_IO\<rparr>)
          else if command = T32_DISK_COMMAND_READ then
            (case fread f1 T32_DISK_SECTOR_SIZE of (got, f2) \<Rightarrow>
               let m1 = m\<lparr>disk_file := Some f2, disk_buffer := patch 0 got (disk_buffer m)\<rparr>
               in if length got \<noteq> T32_DISK_SECTOR_SIZE
                  then (True, m1\<lparr>disk_error := T32_DISK_ERROR_IO\<rparr>) else (True, m1))
          else if command = T32_DISK_COMMAND_WRITE then
            (case fwrite f1 (disk_buffer m) of (n, f2) \<Rightarrow>
               if n \<noteq> T32_DISK_SECTOR_SIZE
               then (True, m\<lparr>disk_file := Some f2, disk_error := T32_DISK_ERROR_IO\<rparr>)
               else case fflush f2 of (flushed, f3) \<Rightarrow>
                 if \<not> flushed
                 then (True, m\<lparr>disk_file := Some f3, disk_error := T32_DISK_ERROR_IO\<rparr>)
                 else (True, m\<lparr>disk_file := Some f3\<rparr>))
          else (True, m\<lparr>disk_file := Some f1, disk_error := T32_DISK_ERROR_BAD_COMMAND\<rparr>))"

definition disk_register :: "t32_machine \<Rightarrow> nat \<Rightarrow> u32" where
  "disk_register m off =
     (if off = T32_DISK_REG_ID then T32_DISK_ID
      else if off = T32_DISK_REG_STATUS then disk_status m
      else if off = T32_DISK_REG_COMMAND then 0
      else if off = T32_DISK_REG_LBA then disk_lba m
      else if off = T32_DISK_REG_ERROR then disk_error m
      else if off = T32_DISK_REG_SECTOR_SIZE then of_nat T32_DISK_SECTOR_SIZE
      else if off = T32_DISK_REG_SECTOR_COUNT then disk_sector_count m
      else 0)"

definition disk_mmio_read :: "t32_machine \<Rightarrow> u32 \<Rightarrow> nat \<Rightarrow> bytes option" where
  "disk_mmio_read m address len =
     (case disk_range_valid address len of
        None \<Rightarrow> None
      | Some off \<Rightarrow>
          if off \<ge> T32_DISK_DATA_OFFSET then
            let data_offset = off - T32_DISK_DATA_OFFSET in
            if data_offset + len > T32_DISK_SECTOR_SIZE then None
            else Some (slice data_offset len (disk_buffer m))
          else if len \<noteq> 4 \<or> off mod 4 \<noteq> 0 then None
          else Some (encode_u32_le (disk_register m off)))"

definition disk_mmio_write :: "t32_machine \<Rightarrow> u32 \<Rightarrow> bytes \<Rightarrow> bool \<times> t32_machine" where
  "disk_mmio_write m address buffer =
     (case disk_range_valid address (length buffer) of
        None \<Rightarrow> (False, m)
      | Some off \<Rightarrow>
          if off \<ge> T32_DISK_DATA_OFFSET then
            let data_offset = off - T32_DISK_DATA_OFFSET in
            if data_offset + length buffer > T32_DISK_SECTOR_SIZE then (False, m)
            else (True, m\<lparr>disk_buffer := patch data_offset buffer (disk_buffer m)\<rparr>)
          else if length buffer \<noteq> 4 \<or> off mod 4 \<noteq> 0 then (False, m)
          else let v = decode_u32_le buffer in
            if off = T32_DISK_REG_COMMAND then disk_execute m v
            else if off = T32_DISK_REG_LBA then
              (True, m\<lparr>disk_lba := v, disk_error := T32_DISK_ERROR_NONE\<rparr>)
            else if off = T32_DISK_REG_ERROR then
              (True, if v = 0 then m\<lparr>disk_error := T32_DISK_ERROR_NONE\<rparr> else m)
            else (True, m))"

section \<open>Real-time clock\<close>

definition rtc_read :: "t32_machine \<Rightarrow> u32 \<Rightarrow> nat \<Rightarrow> bytes option \<times> t32_machine" where
  "rtc_read m address len =
     (case rtc_range_valid address len of
        None \<Rightarrow> (None, m)
      | Some off \<Rightarrow>
          if len \<noteq> 4 \<or> off mod 4 \<noteq> 0 then (None, m)
          else if off = T32_RTC_REG_ID then (Some (encode_u32_le T32_RTC_ID), m)
          else if off = T32_RTC_REG_STATUS then
            (case time_NULL (time_samples m) of (now, ts) \<Rightarrow>
               (Some (encode_u32_le (if 0 \<le> now \<and> now \<le> int UINT32_MAX
                                     then T32_RTC_STATUS_VALID else 0)),
                m\<lparr>time_samples := ts\<rparr>))
          else if off = T32_RTC_REG_EPOCH then
            (case time_NULL (time_samples m) of (now, ts) \<Rightarrow>
               (if now < 0 \<or> now > int UINT32_MAX then None
                else Some (encode_u32_le (word_of_int now)),
                m\<lparr>time_samples := ts\<rparr>))
          else (None, m))"

section \<open>Platform control\<close>

definition platform_read :: "t32_machine \<Rightarrow> u32 \<Rightarrow> nat \<Rightarrow> bytes option" where
  "platform_read m address len =
     (case platform_range_valid address len of
        None \<Rightarrow> None
      | Some off \<Rightarrow>
          if len \<noteq> 4 \<or> off mod 4 \<noteq> 0 then None
          else if off = T32_PLATFORM_REG_ID then Some (encode_u32_le T32_PLATFORM_ID)
          else if off = T32_PLATFORM_REG_STATUS then
            Some (encode_u32_le (if platform_power_off_requested m \<or> platform_reset_requested m
                                 then T32_PLATFORM_STATUS_POWER_REQUESTED else 0))
          else if off = T32_PLATFORM_REG_CONTROL then Some (encode_u32_le 0)
          else if off = T32_PLATFORM_REG_RAM_SIZE then
            Some (encode_u32_le (if memory_size m > UINT32_MAX then of_nat UINT32_MAX
                                 else of_nat (memory_size m)))
          else None)"

definition platform_write :: "t32_machine \<Rightarrow> u32 \<Rightarrow> bytes \<Rightarrow> bool \<times> t32_machine" where
  "platform_write m address buffer =
     (case platform_range_valid address (length buffer) of
        None \<Rightarrow> (False, m)
      | Some off \<Rightarrow>
          if length buffer \<noteq> 4 \<or> off mod 4 \<noteq> 0 then (False, m)
          else let v = decode_u32_le buffer in
            if off \<noteq> T32_PLATFORM_REG_CONTROL then (False, m)
            else if v = T32_PLATFORM_CONTROL_POWER_OFF then
              (True, m\<lparr>platform_power_off_requested := True\<rparr>)
            else if v = T32_PLATFORM_CONTROL_RESET then
              (True, m\<lparr>platform_reset_requested := True\<rparr>)
            else (False, m))"

section \<open>Keyboard\<close>

definition keyboard_status :: "t32_machine \<Rightarrow> u32" where
  "keyboard_status m = (if keyboard_count m \<noteq> 0 then T32_KEYBOARD_STATUS_DATA_READY else 0)"

definition keyboard_pop :: "t32_machine \<Rightarrow> u32 \<times> t32_machine" where
  "keyboard_pop m =
     (if keyboard_count m \<noteq> 0 then
        (ucast (keyboard_queue m ! keyboard_head m),
         m\<lparr>keyboard_head := (keyboard_head m + 1) mod T32_KEYBOARD_QUEUE_SIZE,
           keyboard_count := keyboard_count m - 1\<rparr>)
      else (0, m))"

definition keyboard_read :: "t32_machine \<Rightarrow> u32 \<Rightarrow> nat \<Rightarrow> bytes option \<times> t32_machine" where
  "keyboard_read m address len =
     (case keyboard_range_valid address len of
        None \<Rightarrow> (None, m)
      | Some off \<Rightarrow>
          if len \<noteq> 4 \<or> off mod 4 \<noteq> 0 then (None, m)
          else if off = T32_KEYBOARD_REG_ID then (Some (encode_u32_le T32_KEYBOARD_ID), m)
          else if off = T32_KEYBOARD_REG_STATUS then (Some (encode_u32_le (keyboard_status m)), m)
          else if off = T32_KEYBOARD_REG_DATA then
            (case keyboard_pop m of (v, m') \<Rightarrow> (Some (encode_u32_le v), m'))
          else (None, m))"

end
