(* ===== verification/T32_Device_Laws.thy ===== *)
theory T32_Device_Laws
  imports T32_Devices
begin

text \<open>
  What the devices promise. Every device operation keeps a machine well-formed. The keyboard
  ring is a bounded first-in first-out queue (the locale \<open>bounded_fifo\<close>, interpreted on
  \<open>t32_keyboard_push\<close> and on the DATA register's \<open>keyboard_pop\<close>). The disk is an array of
  sectors: a command touches at most the sector at the selected LBA, whatever the host file
  does.
\<close>

section \<open>The invariant\<close>

lemma machine_wf_time [simp]: "machine_wf (snd (rtc_read m a n)) = machine_wf m"
  by (simp add: rtc_read_def case_prod_beta split: option.split)

lemma ring_pop: "0 < c \<Longrightarrow> (Suc h mod n + c - Suc 0) mod n = (h + c) mod n"
proof (induction c)
  case (Suc c)
  have "(Suc h mod n + c) mod n = (Suc h + c) mod n" by (rule mod_add_left_eq)
  then show ?case by simp
qed simp

lemma machine_wf_keyboard_pop: "machine_wf m \<Longrightarrow> machine_wf (snd (keyboard_pop m))"
  by (auto simp: keyboard_pop_def machine_wf_defs ring_pop)

lemma machine_wf_keyboard_read: "machine_wf m \<Longrightarrow> machine_wf (snd (keyboard_read m a n))"
  using machine_wf_keyboard_pop [of m]
  by (auto simp: keyboard_read_def case_prod_beta split: option.split)

lemma machine_wf_platform_write [simp]:
  "machine_wf (snd (platform_write m a bs)) = machine_wf m"
  by (simp add: platform_write_def Let_def split: option.split)

lemma machine_wf_disk_buffer:
  "machine_wf m \<Longrightarrow> length bs = 512 \<Longrightarrow> machine_wf (m\<lparr>disk_buffer := bs\<rparr>)"
  by (simp add: machine_wf_defs)

text \<open>What a command leaves of a machine: the file with its length, a buffer of one sector,
  and the error register.\<close>

lemma machine_wf_disk_parts:
  assumes "machine_wf m" "disk_file m = Some f" "length (hf_bytes g) = length (hf_bytes f)"
  shows "machine_wf (m\<lparr>disk_file := Some g\<rparr>)"
  using assms by (simp add: machine_wf_defs)

text \<open>Where a sector write may leave the file.\<close>

lemma sector_in_file:
  assumes "machine_wf m" "disk_file m = Some f" "unat lba < unat (disk_sector_count m)"
  shows "unat lba * 512 + 512 \<le> length (hf_bytes f)"
proof -
  have "length (hf_bytes f) = 512 * unat (disk_sector_count m)"
    using assms by (simp add: machine_wf_defs)
  moreover have "Suc (unat lba) * 512 \<le> unat (disk_sector_count m) * 512"
    using assms(3) by (intro mult_le_mono1) simp
  ultimately show ?thesis by simp
qed

lemma sector_write_length:
  assumes wf: "machine_wf m" and f: "disk_file m = Some f"
    and lba: "disk_lba m < disk_sector_count m"
    and seek: "fseek_set f (unat (disk_lba m) * 512) = (True, f1)"
  shows "length (hf_bytes (snd (fwrite f1 (disk_buffer m)))) = length (hf_bytes f)"
proof -
  have pos: "hf_pos f1 = unat (disk_lba m) * 512" "hf_bytes f1 = hf_bytes f"
    using fseek_set_pos [of f] fseek_set_bytes [of f] seek by (metis fst_conv snd_conv)+
  have "length (disk_buffer m) = 512" using wf by (simp add: machine_wf_defs)
  moreover obtain put where "put = take (length put) (disk_buffer m)"
    and w: "hf_bytes (snd (fwrite f1 (disk_buffer m))) = write_at (hf_pos f1) put (hf_bytes f1)"
    using fwrite_prefix [of f1 "disk_buffer m"] by blast
  ultimately have "length put \<le> 512" by (metis length_take min.cobounded1)
  moreover have "unat (disk_lba m) * 512 + 512 \<le> length (hf_bytes f)"
    using lba by (intro sector_in_file [OF wf f]) (simp add: word_less_nat_alt)
  ultimately show ?thesis using pos by (simp add: w length_write_at)
qed

lemma machine_wf_disk_execute:
  assumes "machine_wf m"
  shows "machine_wf (snd (disk_execute m c))"
proof (cases "disk_file m")
  case None
  with assms show ?thesis by (simp add: disk_execute_def)
next
  case (Some f)
  let ?pos = "unat (disk_lba m) * 512"
  obtain ok f1 where seek: "fseek_set f ?pos = (ok, f1)" by force
  obtain got f2 where rd: "fread f1 512 = (got, f2)" by force
  obtain n f3 where wr: "fwrite f1 (disk_buffer m) = (n, f3)" by force
  obtain fl f4 where fl: "fflush f3 = (fl, f4)" by force
  have same: "hf_bytes f1 = hf_bytes f" "hf_bytes f2 = hf_bytes f" "hf_bytes f4 = hf_bytes f3"
    using fseek_set_bytes [of f ?pos] fread_bytes [of f1 512] fflush_file(1) [of f3] seek rd fl
    by simp_all
  have got: "length got \<le> 512" using fread_length [of f1 512] rd by simp
  have wrote: "length (hf_bytes f3) = length (hf_bytes f)"
    if "ok" "disk_lba m < disk_sector_count m"
    using sector_write_length [OF assms Some that(2)] seek that wr by simp
  show ?thesis
    using assms Some seek rd wr fl same got wrote
    by (auto simp: disk_execute_def Let_def not_le machine_wf_defs)
qed

lemma machine_wf_disk_mmio_write:
  assumes "machine_wf m"
  shows "machine_wf (snd (disk_mmio_write m a bs))"
proof -
  have "length (disk_buffer m) = 512" using assms by (simp add: machine_wf_defs)
  then show ?thesis using assms
    by (auto simp: disk_mmio_write_def Let_def machine_wf_disk_execute
        intro!: machine_wf_disk_buffer split: option.splits)
qed

section \<open>The keyboard ring is a bounded queue\<close>

text \<open>A queue of at most \<open>cap\<close> elements behind a \<open>push\<close> that may refuse and a \<open>pop\<close>
  that delivers an encoded element, or \<open>none\<close> when there is nothing to deliver.\<close>

locale bounded_fifo =
  fixes push :: "'q \<Rightarrow> 'a \<Rightarrow> bool \<times> 'q" and pop :: "'q \<Rightarrow> 'b \<times> 'q"
    and contents :: "'q \<Rightarrow> 'a list" and inv :: "'q \<Rightarrow> bool"
    and cap :: nat and emit :: "'a \<Rightarrow> 'b" and none :: 'b
  assumes bounded: "inv q \<Longrightarrow> length (contents q) \<le> cap"
    and push_full: "inv q \<Longrightarrow> length (contents q) = cap \<Longrightarrow> push q x = (False, q)"
    and push_room: "inv q \<Longrightarrow> length (contents q) < cap \<Longrightarrow>
      fst (push q x) \<and> contents (snd (push q x)) = contents q @ [x] \<and> inv (snd (push q x))"
    and pop_empty: "inv q \<Longrightarrow> contents q = [] \<Longrightarrow> pop q = (none, q)"
    and pop_front: "inv q \<Longrightarrow> contents q = x # xs \<Longrightarrow>
      fst (pop q) = emit x \<and> contents (snd (pop q)) = xs \<and> inv (snd (pop q))"

text \<open>A burst of pushes, and a burst of pops with what they deliver.\<close>

fun push_all :: "('q \<Rightarrow> 'a \<Rightarrow> bool \<times> 'q) \<Rightarrow> 'a list \<Rightarrow> 'q \<Rightarrow> bool list \<times> 'q" where
  "push_all psh [] q = ([], q)"
| "push_all psh (x # xs) q =
     (case psh q x of (b, q1) \<Rightarrow> case push_all psh xs q1 of (bs, q2) \<Rightarrow> (b # bs, q2))"

fun pop_all :: "('q \<Rightarrow> 'b \<times> 'q) \<Rightarrow> nat \<Rightarrow> 'q \<Rightarrow> 'b list \<times> 'q" where
  "pop_all pp 0 q = ([], q)"
| "pop_all pp (Suc n) q =
     (case pp q of (y, q1) \<Rightarrow> case pop_all pp n q1 of (ys, q2) \<Rightarrow> (y # ys, q2))"

context bounded_fifo
begin

lemma push_all_fit:
  "inv q \<Longrightarrow> length (contents q) + length xs \<le> cap \<Longrightarrow>
   fst (push_all push xs q) = replicate (length xs) True
   \<and> contents (snd (push_all push xs q)) = contents q @ xs
   \<and> inv (snd (push_all push xs q))"
proof (induction xs arbitrary: q)
  case (Cons x xs)
  with push_room [of q x] Cons.IH [of "snd (push q x)"] show ?case
    by (simp add: case_prod_beta)
qed simp

lemma push_all_full:
  "inv q \<Longrightarrow> length (contents q) = cap \<Longrightarrow>
   push_all push xs q = (replicate (length xs) False, q)"
  by (induction xs) (simp_all add: push_full)

lemma pop_all_contents:
  "inv q \<Longrightarrow> n \<le> length (contents q) \<Longrightarrow>
   fst (pop_all pop n q) = map emit (take n (contents q))
   \<and> contents (snd (pop_all pop n q)) = drop n (contents q)
   \<and> inv (snd (pop_all pop n q))"
proof (induction n arbitrary: q)
  case (Suc n)
  then obtain x xs where "contents q = x # xs" by (cases "contents q") auto
  with pop_front [of q x xs] Suc.prems Suc.IH [of "snd (pop q)"] show ?case
    by (simp add: case_prod_beta)
qed simp

text \<open>What is pushed onto an empty queue comes out once, in order.\<close>

lemma fifo:
  assumes "inv q" "contents q = []" "length xs \<le> cap"
  shows "fst (pop_all pop (length xs) (snd (push_all push xs q))) = map emit xs"
    and "contents (snd (pop_all pop (length xs) (snd (push_all push xs q)))) = []"
  using push_all_fit [of q xs] pop_all_contents [of "snd (push_all push xs q)" "length xs"] assms
  by simp_all

end

definition keyboard_contents :: "t32_machine \<Rightarrow> bytes" where
  "keyboard_contents m =
     map (\<lambda>i. keyboard_queue m ! ((keyboard_head m + i) mod 64)) [0..<keyboard_count m]"

lemma length_keyboard_contents [simp]: "length (keyboard_contents m) = keyboard_count m"
  by (simp add: keyboard_contents_def)

lemma ring_slots_distinct:
  assumes "i < c" "c < (64 :: nat)"
  shows "(h + i) mod 64 \<noteq> (h + c) mod 64"
proof
  assume "(h + i) mod 64 = (h + c) mod 64"
  then have "64 dvd c - i"
    using mod_eq_dvd_iff_nat [of "h + i" "h + c" 64] assms by simp
  with assms show False using nat_dvd_not_less [of "c - i" 64] by simp
qed

lemma keyboard_push_contents:
  assumes "keyboard_ok m" "keyboard_count m < 64"
  shows "keyboard_contents (snd (t32_keyboard_push m c)) = keyboard_contents m @ [c]"
proof -
  have "(keyboard_queue m)[keyboard_tail m := c] ! ((keyboard_head m + i) mod 64)
        = keyboard_queue m ! ((keyboard_head m + i) mod 64)" if "i < keyboard_count m" for i
    using ring_slots_distinct [OF that assms(2), of "keyboard_head m"] assms
    by (simp add: keyboard_ok_def)
  then show ?thesis using assms
    by (simp add: keyboard_contents_def t32_keyboard_push_def keyboard_ok_def)
qed

lemma keyboard_ok_push: "keyboard_ok m \<Longrightarrow> keyboard_ok (snd (t32_keyboard_push m c))"
  by (simp add: t32_keyboard_push_def keyboard_ok_def mod_Suc_eq)

lemma keyboard_ok_pop: "keyboard_ok m \<Longrightarrow> keyboard_ok (snd (keyboard_pop m))"
  by (auto simp: keyboard_pop_def keyboard_ok_def ring_pop)

lemma keyboard_pop_contents:
  assumes "keyboard_ok m" "keyboard_count m \<noteq> 0"
  shows "keyboard_contents m =
    keyboard_queue m ! keyboard_head m # keyboard_contents (snd (keyboard_pop m))"
proof -
  obtain c where c: "keyboard_count m = Suc c" using assms(2) by (cases "keyboard_count m") auto
  have "(Suc (keyboard_head m) mod 64 + i) mod 64 = (keyboard_head m + Suc i) mod 64" for i
    by (simp add: mod_simps)
  then show ?thesis using assms
    by (simp add: keyboard_contents_def keyboard_pop_def c upt_conv_Cons keyboard_ok_def
        map_Suc_upt [symmetric] del: upt_Suc)
qed

interpretation keyboard_fifo: bounded_fifo t32_keyboard_push keyboard_pop keyboard_contents
  keyboard_ok T32_KEYBOARD_QUEUE_SIZE "ucast :: u8 \<Rightarrow> u32" 0
proof unfold_locales
  fix q :: t32_machine and x :: u8 and xs
  assume ok: "keyboard_ok q"
  then show "length (keyboard_contents q) \<le> 64" by (simp add: keyboard_ok_def)
  show "t32_keyboard_push q x = (False, q)" if "length (keyboard_contents q) = 64"
    using that by (simp add: t32_keyboard_push_def)
  show "fst (t32_keyboard_push q x)
    \<and> keyboard_contents (snd (t32_keyboard_push q x)) = keyboard_contents q @ [x]
    \<and> keyboard_ok (snd (t32_keyboard_push q x))" if "length (keyboard_contents q) < 64"
    using that ok keyboard_push_contents [of q x] keyboard_ok_push [of q x]
    by (simp add: t32_keyboard_push_def)
  show "keyboard_pop q = (0, q)" if "keyboard_contents q = []"
    using that by (simp add: keyboard_pop_def keyboard_contents_def)
  show "fst (keyboard_pop q) = ucast x \<and> keyboard_contents (snd (keyboard_pop q)) = xs
    \<and> keyboard_ok (snd (keyboard_pop q))" if "keyboard_contents q = x # xs"
  proof -
    have cnt: "keyboard_count q \<noteq> 0"
      using arg_cong [OF that, of length] by simp
    have "keyboard_queue q ! keyboard_head q # keyboard_contents (snd (keyboard_pop q)) = x # xs"
      using keyboard_pop_contents [OF ok cnt, symmetric] that by (rule trans)
    then have "x = keyboard_queue q ! keyboard_head q"
      and "keyboard_contents (snd (keyboard_pop q)) = xs" by simp_all
    moreover have "fst (keyboard_pop q) = ucast (keyboard_queue q ! keyboard_head q)"
      using cnt by (simp add: keyboard_pop_def)
    ultimately show ?thesis using keyboard_ok_pop [OF ok] by simp
  qed
qed

section \<open>The disk is an array of sectors\<close>

definition disk_bytes :: "t32_machine \<Rightarrow> bytes" where
  "disk_bytes m = (case disk_file m of None \<Rightarrow> [] | Some f \<Rightarrow> hf_bytes f)"

definition disk_sector :: "t32_machine \<Rightarrow> nat \<Rightarrow> bytes" where
  "disk_sector m n = slice (n * 512) 512 (disk_bytes m)"

lemma length_disk_bytes: "machine_wf m \<Longrightarrow> length (disk_bytes m) = 512 * unat (disk_sector_count m)"
  by (cases "disk_file m") (simp_all add: disk_bytes_def machine_wf_defs)

lemma lba_in_media:
  assumes "machine_wf m" "disk_lba m < disk_sector_count m"
  shows "unat (disk_lba m) * 512 + 512 \<le> length (disk_bytes m)"
proof -
  have "Suc (unat (disk_lba m)) * 512 \<le> unat (disk_sector_count m) * 512"
    using assms(2) by (intro mult_le_mono1) (simp add: word_less_nat_alt)
  with length_disk_bytes [OF assms(1)] show ?thesis by simp
qed

lemma disk_execute_keeps [simp]:
  "fst (disk_execute m c)"
  "registers (snd (disk_execute m c)) = registers m"
  "pc (snd (disk_execute m c)) = pc m"
  "memory (snd (disk_execute m c)) = memory m"
  "disk_lba (snd (disk_execute m c)) = disk_lba m"
  "disk_sector_count (snd (disk_execute m c)) = disk_sector_count m"
  by (auto simp: disk_execute_def Let_def case_prod_beta split: option.split)

lemma disk_execute_no_media:
  "disk_file m = None \<Longrightarrow> disk_execute m c = (True, m\<lparr>disk_error := T32_DISK_ERROR_NO_MEDIA\<rparr>)"
  by (simp add: disk_execute_def)

lemma disk_execute_range:
  "disk_file m = Some f \<Longrightarrow> disk_sector_count m \<le> disk_lba m \<Longrightarrow>
   disk_execute m c = (True, m\<lparr>disk_error := T32_DISK_ERROR_RANGE\<rparr>)"
  by (simp add: disk_execute_def)

text \<open>With a 64-bit \<open>long\<close> the test against \<open>LONG_MAX / 512\<close> never rejects a sector.\<close>

lemma long_max_lba: "\<not> (lba :: u32) > word_of_int (LONG_MAX div int T32_DISK_SECTOR_SIZE)"
proof -
  have "(word_of_int (LONG_MAX div int T32_DISK_SECTOR_SIZE) :: u32) = - 1"
    by (simp add: LONG_MAX_def)
  then show ?thesis by (simp add: not_less)
qed

text \<open>The commands on a sector of the medium, after the checks.\<close>

lemma disk_execute_in_range:
  assumes "disk_file m = Some f" "disk_lba m < disk_sector_count m"
  shows "disk_execute m c =
    (case fseek_set f (unat (disk_lba m) * 512) of (ok, f1) \<Rightarrow>
      let m = m\<lparr>disk_error := 0\<rparr> in
      if \<not> ok then (True, m\<lparr>disk_file := Some f1, disk_error := T32_DISK_ERROR_IO\<rparr>)
      else if c = T32_DISK_COMMAND_READ then
        (case fread f1 512 of (got, f2) \<Rightarrow>
          (True, m\<lparr>disk_file := Some f2, disk_buffer := patch 0 got (disk_buffer m),
                   disk_error := if length got \<noteq> 512 then T32_DISK_ERROR_IO else 0\<rparr>))
      else if c = T32_DISK_COMMAND_WRITE then
        (case fwrite f1 (disk_buffer m) of (n, f2) \<Rightarrow>
          if n \<noteq> 512 then (True, m\<lparr>disk_file := Some f2, disk_error := T32_DISK_ERROR_IO\<rparr>)
          else (True, m\<lparr>disk_file := Some (snd (fflush f2)),
                        disk_error := if fst (fflush f2) then 0 else T32_DISK_ERROR_IO\<rparr>))
      else (True, m\<lparr>disk_file := Some f1, disk_error := T32_DISK_ERROR_BAD_COMMAND\<rparr>))"
proof -
  note long_max_lba [of "disk_lba m", simplified]
  then show ?thesis using assms
    by (simp add: disk_execute_def Let_def case_prod_beta)
qed

lemma disk_read_sector:
  assumes wf: "machine_wf m"
    and ok: "disk_error (snd (disk_execute m T32_DISK_COMMAND_READ)) = T32_DISK_ERROR_NONE"
  shows "disk_buffer (snd (disk_execute m T32_DISK_COMMAND_READ))
       = disk_sector m (unat (disk_lba m))"
    and "disk_bytes (snd (disk_execute m T32_DISK_COMMAND_READ)) = disk_bytes m"
proof -
  obtain f where f: "disk_file m = Some f"
    using ok by (cases "disk_file m") (simp_all add: disk_execute_no_media)
  have lba: "disk_lba m < disk_sector_count m"
    using ok disk_execute_range [OF f, of 1] by (cases "disk_lba m < disk_sector_count m") auto
  obtain s f1 where seek: "fseek_set f (unat (disk_lba m) * 512) = (s, f1)" by force
  obtain got f2 where rd: "fread f1 512 = (got, f2)" by force
  note exec = disk_execute_in_range [OF f lba]
  have s: "s" and got: "length got = 512"
    using ok seek rd by (auto simp: exec Let_def split: if_splits)
  have "hf_pos f1 = unat (disk_lba m) * 512" "hf_bytes f1 = hf_bytes f"
    using fseek_set_pos [of f] fseek_set_bytes [of f] seek s by (metis fst_conv snd_conv)+
  then have "got = disk_sector m (unat (disk_lba m))"
    using fread_full [of f1 512] rd got by (simp add: disk_sector_def disk_bytes_def f)
  moreover have "patch 0 got (disk_buffer m) = got"
    using wf got by (simp add: patch_def machine_wf_defs)
  ultimately show "disk_buffer (snd (disk_execute m 1)) = disk_sector m (unat (disk_lba m))"
    using seek rd s got by (simp add: exec Let_def)
  show "disk_bytes (snd (disk_execute m 1)) = disk_bytes m"
    using seek rd s fread_bytes [of f1 512] \<open>hf_bytes f1 = hf_bytes f\<close> f
    by (simp add: exec Let_def disk_bytes_def)
qed

lemma disk_write_media:
  assumes wf: "machine_wf m" and f: "disk_file m = Some f"
    and lba: "disk_lba m < disk_sector_count m"
  obtains put where "length put \<le> 512"
    "disk_bytes (snd (disk_execute m T32_DISK_COMMAND_WRITE))
       = patch (unat (disk_lba m) * 512) put (disk_bytes m)"
    "disk_error (snd (disk_execute m T32_DISK_COMMAND_WRITE)) = T32_DISK_ERROR_NONE
       \<Longrightarrow> put = disk_buffer m"
proof -
  let ?pos = "unat (disk_lba m) * 512"
  obtain s f1 where seek: "fseek_set f ?pos = (s, f1)" by force
  obtain n f2 where wr: "fwrite f1 (disk_buffer m) = (n, f2)" by force
  have f1: "hf_bytes f1 = hf_bytes f" using fseek_set_bytes [of f ?pos] seek by simp
  have buf: "length (disk_buffer m) = 512" using wf by (simp add: machine_wf_defs)
  obtain put where put: "n = length put" "put = take (length put) (disk_buffer m)"
    "hf_bytes f2 = write_at (hf_pos f1) put (hf_bytes f1)"
    using fwrite_prefix [of f1 "disk_buffer m"] wr by auto
  have len: "length put \<le> 512" using put(2) buf by (metis length_take min.cobounded1)
  have fl: "hf_bytes (snd (fflush f2)) = hf_bytes f2" by simp
  note exec = disk_execute_in_range [OF f lba]
  show thesis
  proof (cases s)
    case True
    have "hf_pos f1 = ?pos" using fseek_set_pos [of f ?pos] seek True by simp
    then have bytes: "disk_bytes (snd (disk_execute m 2)) = patch ?pos put (disk_bytes m)"
      using seek wr True put(3) f1 len lba_in_media [OF wf lba] f
      by (auto simp: exec Let_def disk_bytes_def write_at_inside)
    have "put = disk_buffer m" if "disk_error (snd (disk_execute m 2)) = 0"
      using that seek wr True put(1,2) buf by (auto simp: exec Let_def split: if_splits)
    with bytes len show thesis by (intro that [of put]) simp_all
  next
    case False
    with seek f f1 show thesis
      by (intro that [of "[]"]) (simp_all add: exec Let_def disk_bytes_def)
  qed
qed

end
