(* ===== verification/T32_Bus.thy ===== *)
theory T32_Bus
  imports T32_Device_Laws
begin

text \<open>
  The address space of the machine: \<open>t32_read_memory\<close>, \<open>t32_write_memory\<close>,
  \<open>t32_load_file\<close> and the typed accesses \<open>fetch_u8\<close> to \<open>store_u32\<close> of
  \<open>vm/libt32vm/src/t32.c\<close>. An access goes to the first window that contains it, in the order
  video, disk, keyboard, clock, platform control, and to RAM otherwise; a write has no keyboard
  window. A read can change the machine: the DATA register of the keyboard takes a character
  out of the queue.
\<close>

section \<open>The bus\<close>

definition ram_range_valid :: "t32_machine \<Rightarrow> u32 \<Rightarrow> nat \<Rightarrow> bool" where
  "ram_range_valid m address len =
     (let start = unat address in
      if start > memory_size m then False else len \<le> memory_size m - start)"

definition t32_read_memory :: "t32_machine \<Rightarrow> u32 \<Rightarrow> nat \<Rightarrow> bytes option \<times> t32_machine" where
  "t32_read_memory m address len =
     (case video_range_valid address len of
        Some off \<Rightarrow> (Some (slice off len (video_memory m)), m)
      | None \<Rightarrow>
        if disk_range_valid address len \<noteq> None then (disk_mmio_read m address len, m)
        else if keyboard_range_valid address len \<noteq> None then keyboard_read m address len
        else if rtc_range_valid address len \<noteq> None then rtc_read m address len
        else if platform_range_valid address len \<noteq> None then (platform_read m address len, m)
        else if \<not> ram_range_valid m address len then (None, m)
        else (Some (slice (unat address) len (memory m)), m))"

definition t32_write_memory :: "t32_machine \<Rightarrow> u32 \<Rightarrow> bytes \<Rightarrow> bool \<times> t32_machine" where
  "t32_write_memory m address buffer =
     (let len = length buffer in
      case video_range_valid address len of
        Some off \<Rightarrow>
          (True, if slice off len (video_memory m) \<noteq> buffer
                 then m\<lparr>video_memory := patch off buffer (video_memory m), video_dirty := True\<rparr>
                 else m)
      | None \<Rightarrow>
        if disk_range_valid address len \<noteq> None then disk_mmio_write m address buffer
        else if rtc_range_valid address len \<noteq> None then (False, m)
        else if platform_range_valid address len \<noteq> None then platform_write m address buffer
        else if \<not> ram_range_valid m address len then (False, m)
        else (True, m\<lparr>memory := patch (unat address) buffer (memory m)\<rparr>))"

text \<open>\<open>t32_load_file\<close> on what \<open>fopen(path, "rb")\<close> returned; \<open>malloc_ok\<close> is the host's
  answer to the allocation of the buffer.\<close>

definition t32_load_file ::
  "bool \<Rightarrow> t32_machine \<Rightarrow> host_file option \<Rightarrow> u32 \<Rightarrow> bool \<times> t32_machine" where
  "t32_load_file malloc_ok m opened address =
     (case opened of
        None \<Rightarrow> (False, m)
      | Some f0 \<Rightarrow>
        case fseek_end f0 of (ok1, f1) \<Rightarrow>
        if \<not> ok1 then (False, m) else
        case ftell f1 of (file_size, f2) \<Rightarrow>
        if file_size < 0 then (False, m) else
        case fseek_set f2 0 of (ok2, f3) \<Rightarrow>
        if \<not> ok2 then (False, m)
        else if \<not> malloc_ok \<and> file_size \<noteq> 0 then (False, m)
        else case fread f3 (nat file_size) of (buffer, f4) \<Rightarrow>
          if length buffer \<noteq> nat file_size then (False, m)
          else t32_write_memory m address buffer)"

section \<open>Typed accesses\<close>

definition fetch_u8 :: "t32_machine \<Rightarrow> u32 \<Rightarrow> u8 option \<times> t32_machine" where
  "fetch_u8 m address =
     (case t32_read_memory m address 1 of (r, m') \<Rightarrow> (map_option (\<lambda>bs. bs ! 0) r, m'))"

definition fetch_u16 :: "t32_machine \<Rightarrow> u32 \<Rightarrow> u16 option \<times> t32_machine" where
  "fetch_u16 m address =
     (case t32_read_memory m address 2 of (r, m') \<Rightarrow>
        (map_option (\<lambda>bs. ucast (bs ! 0) OR push_bit 8 (ucast (bs ! 1))) r, m'))"

definition fetch_u32 :: "t32_machine \<Rightarrow> u32 \<Rightarrow> u32 option \<times> t32_machine" where
  "fetch_u32 m address =
     (case t32_read_memory m address 4 of (r, m') \<Rightarrow>
        (map_option (\<lambda>bs. ucast (bs ! 0) OR push_bit 8 (ucast (bs ! 1))
           OR push_bit 16 (ucast (bs ! 2)) OR push_bit 24 (ucast (bs ! 3))) r, m'))"

definition store_u8 :: "t32_machine \<Rightarrow> u32 \<Rightarrow> u8 \<Rightarrow> bool \<times> t32_machine" where
  "store_u8 m address v = t32_write_memory m address [v]"

definition store_u16 :: "t32_machine \<Rightarrow> u32 \<Rightarrow> u16 \<Rightarrow> bool \<times> t32_machine" where
  "store_u16 m address v = t32_write_memory m address [ucast v, ucast (drop_bit 8 v)]"

definition store_u32 :: "t32_machine \<Rightarrow> u32 \<Rightarrow> u32 \<Rightarrow> bool \<times> t32_machine" where
  "store_u32 m address v =
     t32_write_memory m address
       [ucast v, ucast (drop_bit 8 v), ucast (drop_bit 16 v), ucast (drop_bit 24 v)]"

lemma fetch_u32_le:
  "fetch_u32 m a = (case t32_read_memory m a 4 of (r, m') \<Rightarrow> (map_option of_le32 r, m'))"
  by (simp add: fetch_u32_def of_le32_def [abs_def])

lemma store_u32_le: "store_u32 m a v = t32_write_memory m a (le32 v)"
  by (simp add: store_u32_def le32_def)

section \<open>The bus keeps the invariant\<close>

lemma machine_wf_read_memory: "machine_wf m \<Longrightarrow> machine_wf (snd (t32_read_memory m a n))"
  by (simp add: t32_read_memory_def machine_wf_keyboard_read split: option.split)

lemma machine_wf_write_memory:
  assumes wf: "machine_wf m" and n: "length bs < 2 ^ 64"
  shows "machine_wf (snd (t32_write_memory m a bs))"
proof (cases "video_range_valid a (length bs)")
  case (Some off)
  then have "off + length bs \<le> 2000" using video.range_bounds [OF n] by blast
  with wf Some show ?thesis
    by (simp add: t32_write_memory_def Let_def machine_wf_defs)
next
  case None
  have "machine_wf (m\<lparr>memory := patch (unat a) bs (memory m)\<rparr>)"
    if "ram_range_valid m a (length bs)"
    using wf that by (auto simp: machine_wf_defs ram_range_valid_def Let_def split: if_splits)
  with wf None show ?thesis
    by (simp add: t32_write_memory_def Let_def machine_wf_disk_mmio_write)
qed

lemma machine_wf_fetch:
  assumes "machine_wf m"
  shows "machine_wf (snd (fetch_u8 m a))" "machine_wf (snd (fetch_u16 m a))"
    "machine_wf (snd (fetch_u32 m a))"
  using machine_wf_read_memory [OF assms]
  by (simp_all add: fetch_u8_def fetch_u16_def fetch_u32_def case_prod_beta)

lemma machine_wf_store:
  assumes "machine_wf m"
  shows "machine_wf (snd (store_u8 m a b))" "machine_wf (snd (store_u16 m a h))"
    "machine_wf (snd (store_u32 m a v))"
  using assms
  by (simp_all add: store_u8_def store_u16_def store_u32_def machine_wf_write_memory)

section \<open>What an access leaves alone\<close>

text \<open>The processor's own state is out of reach of the bus.\<close>

lemma disk_mmio_write_core [simp]:
  "registers (snd (disk_mmio_write m a bs)) = registers m"
  "pc (snd (disk_mmio_write m a bs)) = pc m"
  "memory (snd (disk_mmio_write m a bs)) = memory m"
  by (simp_all add: disk_mmio_write_def Let_def split: option.split)

lemma platform_write_core [simp]:
  "registers (snd (platform_write m a bs)) = registers m"
  "pc (snd (platform_write m a bs)) = pc m"
  "memory (snd (platform_write m a bs)) = memory m"
  by (simp_all add: platform_write_def Let_def split: option.split)

lemma write_memory_core [simp]:
  "registers (snd (t32_write_memory m a bs)) = registers m"
  "pc (snd (t32_write_memory m a bs)) = pc m"
  by (simp_all add: t32_write_memory_def Let_def split: option.split)

lemma read_memory_core [simp]:
  "registers (snd (t32_read_memory m a n)) = registers m"
  "pc (snd (t32_read_memory m a n)) = pc m"
  "flags (snd (t32_read_memory m a n)) = flags m"
  "state (snd (t32_read_memory m a n)) = state m"
  "memory (snd (t32_read_memory m a n)) = memory m"
  "memory_size (snd (t32_read_memory m a n)) = memory_size m"
  "video_memory (snd (t32_read_memory m a n)) = video_memory m"
  "disk_file (snd (t32_read_memory m a n)) = disk_file m"
  "disk_buffer (snd (t32_read_memory m a n)) = disk_buffer m"
  by (simp_all add: t32_read_memory_def keyboard_read_def keyboard_pop_def rtc_read_def
      case_prod_beta split: option.split)

section \<open>RAM, video memory and the sector buffer behave as memory\<close>

text \<open>A non-empty access to RAM below the device windows.\<close>

definition ram_access :: "t32_machine \<Rightarrow> u32 \<Rightarrow> nat \<Rightarrow> bool" where
  "ram_access m a n \<longleftrightarrow> 0 < n \<and> unat a + n \<le> memory_size m \<and> unat a + n \<le> T32_VIDEO_BASE"

lemma ram_access_windows:
  assumes "ram_access m a n"
  shows "video_range_valid a n = None" "disk_range_valid a n = None"
    "keyboard_range_valid a n = None" "rtc_range_valid a n = None"
    "platform_range_valid a n = None" "ram_range_valid m a n"
  using assms
  by (auto simp: ram_access_def ram_range_valid_def Let_def video.range_None
      disk.range_None keyboard.range_None rtc.range_None platform.range_None)

lemma read_ram: "ram_access m a n \<Longrightarrow> t32_read_memory m a n = (Some (slice (unat a) n (memory m)), m)"
  by (simp add: t32_read_memory_def ram_access_windows)

lemma write_ram:
  "ram_access m a (length bs) \<Longrightarrow>
   t32_write_memory m a bs = (True, m\<lparr>memory := patch (unat a) bs (memory m)\<rparr>)"
  by (simp add: t32_write_memory_def ram_access_windows Let_def)

lemma fetch_u32_ram:
  "ram_access m a 4 \<Longrightarrow> fetch_u32 m a = (Some (of_le32 (slice (unat a) 4 (memory m))), m)"
  by (simp add: fetch_u32_le read_ram)

lemma store_u32_ram:
  "ram_access m a 4 \<Longrightarrow>
   store_u32 m a v = (True, m\<lparr>memory := patch (unat a) (le32 v) (memory m)\<rparr>)"
  by (simp add: store_u32_le write_ram)

lemma of_le32_le32_alone [simp]: "of_le32 (le32 v) = v"
  using of_le32_le32 [of v "[]"] by simp

text \<open>A word stored to RAM is the word fetched from there, and no other word changes.\<close>

lemma fetch_store_u32:
  assumes "machine_wf m" "ram_access m a 4" "store_u32 m a v = (True, m')"
  shows "fetch_u32 m' a = (Some v, m')"
proof -
  have m': "m' = m\<lparr>memory := patch (unat a) (le32 v) (memory m)\<rparr>"
    using assms by (simp add: store_u32_ram)
  have "ram_access m' a 4" using assms(2) by (simp add: m' ram_access_def)
  moreover have "slice (unat a) 4 (patch (unat a) (le32 v) (memory m)) = le32 v"
    using assms(1,2) slice_patch [of "unat a" "le32 v" "memory m"]
    by (simp add: ram_access_def machine_wf_def)
  ultimately show ?thesis by (simp add: fetch_u32_ram m')
qed

lemma fetch_store_u32_other:
  assumes "machine_wf m" "ram_access m a 4" "ram_access m b 4" "store_u32 m a v = (True, m')"
    and "unat a + 4 \<le> unat b \<or> unat b + 4 \<le> unat a"
  shows "fst (fetch_u32 m' b) = fst (fetch_u32 m b)"
proof -
  have m': "m' = m\<lparr>memory := patch (unat a) (le32 v) (memory m)\<rparr>"
    using assms by (simp add: store_u32_ram)
  have "ram_access m' b 4" using assms(3) by (simp add: m' ram_access_def)
  moreover have "slice (unat b) 4 (patch (unat a) (le32 v) (memory m)) = slice (unat b) 4 (memory m)"
    using assms(1-3,5) by (intro slice_patch_other) (auto simp: ram_access_def machine_wf_def)
  ultimately show ?thesis using assms(3) by (simp add: fetch_u32_ram m')
qed

text \<open>The same for any run of bytes in the video window and in the sector buffer.\<close>

lemma read_write_video:
  assumes "machine_wf m" "video_range_valid a (length bs) = Some off" "length bs < 2 ^ 64"
  shows "t32_read_memory (snd (t32_write_memory m a bs)) a (length bs)
    = (Some bs, snd (t32_write_memory m a bs))"
proof -
  have "off + length bs \<le> length (video_memory m)"
    using assms video.range_bounds [OF assms(3,2)] by (simp add: machine_wf_def)
  then show ?thesis using assms(2)
    by (simp add: t32_read_memory_def t32_write_memory_def Let_def)
qed

lemma read_write_sector_buffer:
  assumes "machine_wf m" "disk_range_valid a (length bs) = Some off" "length bs < 2 ^ 64"
    and "0 < length bs" "256 \<le> off"
  shows "t32_read_memory (snd (t32_write_memory m a bs)) a (length bs)
    = (Some bs, snd (t32_write_memory m a bs))"
proof -
  have "off - 256 + length bs \<le> length (disk_buffer m)"
    using assms disk.range_bounds [OF assms(3,2)] by (simp add: machine_wf_defs)
  moreover have "off + length bs \<le> 768"
    using disk.range_bounds [OF assms(3,2)] by simp
  moreover have "video_range_valid a (length bs) = None"
    using video_disk.exclusive [of "length bs" a] assms by fastforce
  ultimately show ?thesis using assms
    by (simp add: t32_read_memory_def t32_write_memory_def disk_mmio_read_def
        disk_mmio_write_def Let_def)
qed

text \<open>Whatever window it hits, a write changes RAM only inside the addressed range.\<close>

lemma write_memory_frame:
  assumes wf: "machine_wf m" and i: "i < memory_size m" "i < unat a \<or> unat a + length bs \<le> i"
  shows "memory (snd (t32_write_memory m a bs)) ! i = memory m ! i"
proof -
  have "patch (unat a) bs (memory m) ! i = memory m ! i"
    if "ram_range_valid m a (length bs)"
    using that wf i by (subst nth_patch)
      (auto simp: ram_range_valid_def machine_wf_def Let_def split: if_splits)
  then show ?thesis by (simp add: t32_write_memory_def Let_def split: option.split)
qed

lemma write_memory_size [simp]:
  "memory_size (snd (t32_write_memory m a bs)) = memory_size m"
  by (simp add: t32_write_memory_def disk_mmio_write_def disk_execute_def platform_write_def
      Let_def case_prod_beta split: option.split)

end
