(* ===== verification/T32_Cpu.thy ===== *)
theory T32_Cpu
  imports T32_Bus
begin

text \<open>
  The processor of \<open>vm/libt32vm/src/t32.c\<close>: flags and arithmetic (\<open>set_zn\<close>, \<open>alu_add\<close>,
  \<open>alu_sub\<close>), the stack (\<open>stack_push\<close>, \<open>stack_pop\<close>), one definition for each
  \<open>case\<close> of the instruction switch (\<open>exec_HALT\<close> to \<open>exec_RET\<close>), \<open>t32_step\<close> and
  \<open>t32_run\<close>.

  A case that leaves the switch with \<open>break\<close> is \<open>Inr m\<close>; one that returns from
  \<open>t32_step\<close> is \<open>Inl (result, m)\<close>.
\<close>

type_synonym exec = "(t32_step_result \<times> t32_machine) + t32_machine"

section \<open>Faults, extension words, flags\<close>

definition memory_fault :: "t32_machine \<Rightarrow> string \<Rightarrow> u32 \<Rightarrow> t32_step_result \<times> t32_machine" where
  "memory_fault m operation address =
     (STEP_FAULT,
      set_fault m (snprintf 128 (operation @ '' outside memory at 0x'' @ fmt_08x address)))"

definition fetch_extension :: "t32_machine \<Rightarrow> string \<Rightarrow> u32 option \<times> t32_machine" where
  "fetch_extension m instruction_name =
     (case fetch_u32 m (pc m) of
        (Some v, m1) \<Rightarrow> (Some v, m1\<lparr>pc := pc m1 + 4\<rparr>)
      | (None, m1) \<Rightarrow>
          (None, set_fault m1 (snprintf 128 (instruction_name @ '' extension outside memory''))))"

text \<open>The continuation of an instruction that has an extension word.\<close>

definition with_extension ::
  "t32_machine \<Rightarrow> string \<Rightarrow> (u32 \<Rightarrow> t32_machine \<Rightarrow> exec) \<Rightarrow> exec" where
  "with_extension m instruction_name k =
     (case fetch_extension m instruction_name of
        (None, m1) \<Rightarrow> Inl (STEP_FAULT, m1)
      | (Some extension, m1) \<Rightarrow> k extension m1)"

definition set_zn :: "t32_machine \<Rightarrow> u32 \<Rightarrow> t32_machine" where
  "set_zn m result =
     m\<lparr>flags := (flags m)\<lparr>zero := (result = 0), negative := (result AND 0x80000000 \<noteq> 0)\<rparr>\<rparr>"

definition set_co :: "t32_machine \<Rightarrow> bool \<Rightarrow> bool \<Rightarrow> t32_machine" where
  "set_co m c v = m\<lparr>flags := (flags m)\<lparr>carry := c, overflow := v\<rparr>\<rparr>"

definition alu_add :: "t32_machine \<Rightarrow> u32 \<Rightarrow> u32 \<Rightarrow> u32 \<times> t32_machine" where
  "alu_add m left right =
     (let result = left + right;
          wide = (ucast left :: u64) + ucast right
      in (result,
          set_co (set_zn m result)
            (wide > 0xFFFFFFFF)
            ((NOT (left XOR right) AND (left XOR result)) AND 0x80000000 \<noteq> 0)))"

definition alu_sub :: "t32_machine \<Rightarrow> u32 \<Rightarrow> u32 \<Rightarrow> u32 \<times> t32_machine" where
  "alu_sub m left right =
     (let result = left - right
      in (result,
          set_co (set_zn m result)
            (left \<ge> right)
            (((left XOR right) AND (left XOR result)) AND 0x80000000 \<noteq> 0)))"

section \<open>The stack\<close>

definition stack_push :: "t32_machine \<Rightarrow> u32 \<Rightarrow> bool \<times> t32_machine" where
  "stack_push m v =
     (let sp = registers m ! T32_STACK_POINTER in
      if sp < 4 then (False, m)
      else case store_u32 m (sp - 4) v of (ok, m1) \<Rightarrow>
        if \<not> ok then (False, m1) else (True, set_reg T32_STACK_POINTER (sp - 4) m1))"

text \<open>\<open>stack_pop\<close> stores through its pointer argument before it moves the stack pointer;
  \<open>dest\<close> is that store, so a pop into \<open>r15\<close> or into the program counter is the
  source's aliasing.\<close>

definition stack_pop ::
  "(u32 \<Rightarrow> t32_machine \<Rightarrow> t32_machine) \<Rightarrow> t32_machine \<Rightarrow> bool \<times> t32_machine" where
  "stack_pop dest m =
     (let sp = registers m ! T32_STACK_POINTER in
      case fetch_u32 m sp of
        (None, m1) \<Rightarrow> (False, m1)
      | (Some v, m1) \<Rightarrow>
          let m2 = dest v m1 in
          if sp > 0xFFFFFFFF - 4 then (False, m2)
          else (True, set_reg T32_STACK_POINTER (sp + 4) m2))"

section \<open>The instructions\<close>

text \<open>What the logical, shift and division cases do with their result.\<close>

definition put_result :: "nat \<Rightarrow> u32 \<Rightarrow> bool \<Rightarrow> bool \<Rightarrow> t32_machine \<Rightarrow> exec" where
  "put_result rd result c v m = Inr (set_co (set_zn (set_reg rd result m) result) c v)"

definition exec_HALT :: "t32_machine \<Rightarrow> exec" where
  "exec_HALT m =
     Inl (STEP_HALTED, m\<lparr>state := STATE_HALTED, halt_reason := snprintf 128 ''HALT instruction''\<rparr>)"

definition exec_NOP :: "t32_machine \<Rightarrow> exec" where
  "exec_NOP m = Inr m"

definition exec_TRAP :: "t32_machine \<Rightarrow> exec" where
  "exec_TRAP m = with_extension m ''TRAP'' (\<lambda>extension m1.
     Inl (STEP_HALTED, m1\<lparr>state := STATE_HALTED,
            halt_reason := snprintf 128 (''TRAP 0x'' @ fmt_08x extension)\<rparr>))"

definition exec_IRET :: "t32_machine \<Rightarrow> exec" where
  "exec_IRET m =
     (case stack_pop (\<lambda>v m. m\<lparr>pc := v\<rparr>) m of (ok, m1) \<Rightarrow>
        if \<not> ok then Inl (memory_fault m1 ''IRET stack read'' (registers m1 ! T32_STACK_POINTER))
        else Inr m1)"

definition exec_CPUID :: "nat \<Rightarrow> t32_machine \<Rightarrow> exec" where
  "exec_CPUID rd m = Inr (set_reg rd T32_CPUID_VALUE m)"

definition exec_MOV :: "nat \<Rightarrow> nat \<Rightarrow> t32_machine \<Rightarrow> exec" where
  "exec_MOV rd ra m = Inr (set_reg rd (registers m ! ra) m)"

definition exec_MOVI :: "nat \<Rightarrow> t32_machine \<Rightarrow> exec" where
  "exec_MOVI rd m = with_extension m ''MOVI'' (\<lambda>extension m1.
     Inr (set_zn (set_reg rd extension m1) extension))"

definition exec_LDB :: "nat \<Rightarrow> nat \<Rightarrow> t32_machine \<Rightarrow> exec" where
  "exec_LDB rd ra m =
     (let address = registers m ! ra in
      case fetch_u8 m address of
        (None, m1) \<Rightarrow> Inl (memory_fault m1 ''LDB read'' address)
      | (Some v, m1) \<Rightarrow> Inr (set_reg rd (ucast v) m1))"

definition exec_LDH :: "nat \<Rightarrow> nat \<Rightarrow> t32_machine \<Rightarrow> exec" where
  "exec_LDH rd ra m =
     (let address = registers m ! ra in
      case fetch_u16 m address of
        (None, m1) \<Rightarrow> Inl (memory_fault m1 ''LDH read'' address)
      | (Some v, m1) \<Rightarrow> Inr (set_reg rd (ucast v) m1))"

definition exec_LDW :: "nat \<Rightarrow> nat \<Rightarrow> t32_machine \<Rightarrow> exec" where
  "exec_LDW rd ra m =
     (let address = registers m ! ra in
      case fetch_u32 m address of
        (None, m1) \<Rightarrow> Inl (memory_fault m1 ''LDW read'' address)
      | (Some v, m1) \<Rightarrow> Inr (set_reg rd v m1))"

definition exec_STB :: "nat \<Rightarrow> nat \<Rightarrow> t32_machine \<Rightarrow> exec" where
  "exec_STB ra rb m =
     (let address = registers m ! ra in
      case store_u8 m address (ucast (registers m ! rb)) of (ok, m1) \<Rightarrow>
        if \<not> ok then Inl (memory_fault m1 ''STB write'' address) else Inr m1)"

definition exec_STH :: "nat \<Rightarrow> nat \<Rightarrow> t32_machine \<Rightarrow> exec" where
  "exec_STH ra rb m =
     (let address = registers m ! ra in
      case store_u16 m address (ucast (registers m ! rb)) of (ok, m1) \<Rightarrow>
        if \<not> ok then Inl (memory_fault m1 ''STH write'' address) else Inr m1)"

definition exec_STW :: "nat \<Rightarrow> nat \<Rightarrow> t32_machine \<Rightarrow> exec" where
  "exec_STW ra rb m =
     (let address = registers m ! ra in
      case store_u32 m address (registers m ! rb) of (ok, m1) \<Rightarrow>
        if \<not> ok then Inl (memory_fault m1 ''STW write'' address) else Inr m1)"

definition exec_ADD :: "nat \<Rightarrow> nat \<Rightarrow> nat \<Rightarrow> t32_machine \<Rightarrow> exec" where
  "exec_ADD rd ra rb m =
     (case alu_add m (registers m ! ra) (registers m ! rb) of (result, m1) \<Rightarrow>
        Inr (set_reg rd result m1))"

definition exec_ADDI :: "nat \<Rightarrow> nat \<Rightarrow> t32_machine \<Rightarrow> exec" where
  "exec_ADDI rd ra m = with_extension m ''ADDI'' (\<lambda>extension m1.
     case alu_add m1 (registers m1 ! ra) extension of (result, m2) \<Rightarrow>
       Inr (set_reg rd result m2))"

definition exec_SUB :: "nat \<Rightarrow> nat \<Rightarrow> nat \<Rightarrow> t32_machine \<Rightarrow> exec" where
  "exec_SUB rd ra rb m =
     (case alu_sub m (registers m ! ra) (registers m ! rb) of (result, m1) \<Rightarrow>
        Inr (set_reg rd result m1))"

definition exec_SUBI :: "nat \<Rightarrow> nat \<Rightarrow> t32_machine \<Rightarrow> exec" where
  "exec_SUBI rd ra m = with_extension m ''SUBI'' (\<lambda>extension m1.
     case alu_sub m1 (registers m1 ! ra) extension of (result, m2) \<Rightarrow>
       Inr (set_reg rd result m2))"

definition exec_MUL :: "nat \<Rightarrow> nat \<Rightarrow> nat \<Rightarrow> t32_machine \<Rightarrow> exec" where
  "exec_MUL rd ra rb m =
     (let product = sint (registers m ! ra) * sint (registers m ! rb);
          result = word_of_int product
      in put_result rd result False (product > 2 ^ 31 - 1 \<or> product < - (2 ^ 31)) m)"

definition exec_MULU :: "nat \<Rightarrow> nat \<Rightarrow> nat \<Rightarrow> t32_machine \<Rightarrow> exec" where
  "exec_MULU rd ra rb m =
     (let product = (ucast (registers m ! ra) :: u64) * ucast (registers m ! rb);
          result = ucast product
      in put_result rd result (drop_bit 32 product \<noteq> 0) False m)"

definition exec_DIV :: "nat \<Rightarrow> nat \<Rightarrow> nat \<Rightarrow> t32_machine \<Rightarrow> exec" where
  "exec_DIV rd ra rb m =
     (let dividend = sint (registers m ! ra); divisor = sint (registers m ! rb) in
      if divisor = 0 then Inl (STEP_FAULT, set_fault m ''DIV by zero'')
      else if dividend = - (2 ^ 31) \<and> divisor = -1
      then Inl (STEP_FAULT, set_fault m ''DIV signed overflow'')
      else put_result rd (word_of_int (dividend sdiv divisor)) False False m)"

definition exec_DIVU :: "nat \<Rightarrow> nat \<Rightarrow> nat \<Rightarrow> t32_machine \<Rightarrow> exec" where
  "exec_DIVU rd ra rb m =
     (let right = registers m ! rb in
      if right = 0 then Inl (STEP_FAULT, set_fault m ''DIVU by zero'')
      else put_result rd (registers m ! ra div right) False False m)"

definition exec_AND :: "nat \<Rightarrow> nat \<Rightarrow> nat \<Rightarrow> t32_machine \<Rightarrow> exec" where
  "exec_AND rd ra rb m = put_result rd (registers m ! ra AND registers m ! rb) False False m"

definition exec_OR :: "nat \<Rightarrow> nat \<Rightarrow> nat \<Rightarrow> t32_machine \<Rightarrow> exec" where
  "exec_OR rd ra rb m = put_result rd (registers m ! ra OR registers m ! rb) False False m"

definition exec_XOR :: "nat \<Rightarrow> nat \<Rightarrow> nat \<Rightarrow> t32_machine \<Rightarrow> exec" where
  "exec_XOR rd ra rb m = put_result rd (registers m ! ra XOR registers m ! rb) False False m"

definition exec_NOT :: "nat \<Rightarrow> nat \<Rightarrow> t32_machine \<Rightarrow> exec" where
  "exec_NOT rd ra m = put_result rd (NOT (registers m ! ra)) False False m"

definition exec_SHL :: "nat \<Rightarrow> nat \<Rightarrow> nat \<Rightarrow> t32_machine \<Rightarrow> exec" where
  "exec_SHL rd ra rb m =
     (let count = unat (registers m ! rb AND 31); left = registers m ! ra in
      put_result rd (if count \<noteq> 0 then push_bit count left else left)
        (if count \<noteq> 0 then drop_bit (32 - count) left AND 1 \<noteq> 0 else False) False m)"

definition exec_SHR :: "nat \<Rightarrow> nat \<Rightarrow> nat \<Rightarrow> t32_machine \<Rightarrow> exec" where
  "exec_SHR rd ra rb m =
     (let count = unat (registers m ! rb AND 31); left = registers m ! ra in
      put_result rd (if count \<noteq> 0 then drop_bit count left else left)
        (if count \<noteq> 0 then drop_bit (count - 1) left AND 1 \<noteq> 0 else False) False m)"

definition exec_SAR :: "nat \<Rightarrow> nat \<Rightarrow> nat \<Rightarrow> t32_machine \<Rightarrow> exec" where
  "exec_SAR rd ra rb m =
     (let count = unat (registers m ! rb AND 31); left = registers m ! ra in
      put_result rd (if count \<noteq> 0 then signed_drop_bit count left else left)
        (if count \<noteq> 0 then drop_bit (count - 1) left AND 1 \<noteq> 0 else False) False m)"

definition exec_CMP :: "nat \<Rightarrow> nat \<Rightarrow> t32_machine \<Rightarrow> exec" where
  "exec_CMP ra rb m = Inr (snd (alu_sub m (registers m ! ra) (registers m ! rb)))"

definition exec_CMPI :: "nat \<Rightarrow> t32_machine \<Rightarrow> exec" where
  "exec_CMPI ra m = with_extension m ''CMPI'' (\<lambda>extension m1.
     Inr (snd (alu_sub m1 (registers m1 ! ra) extension)))"

definition exec_JMP :: "t32_machine \<Rightarrow> exec" where
  "exec_JMP m = with_extension m ''JMP'' (\<lambda>extension m1. Inr (m1\<lparr>pc := extension\<rparr>))"

definition exec_JZ :: "nat \<Rightarrow> t32_machine \<Rightarrow> exec" where
  "exec_JZ ra m = with_extension m ''JZ'' (\<lambda>extension m1.
     Inr (if registers m1 ! ra = 0 then m1\<lparr>pc := extension\<rparr> else m1))"

definition exec_JNZ :: "nat \<Rightarrow> t32_machine \<Rightarrow> exec" where
  "exec_JNZ ra m = with_extension m ''JNZ'' (\<lambda>extension m1.
     Inr (if registers m1 ! ra \<noteq> 0 then m1\<lparr>pc := extension\<rparr> else m1))"

definition exec_PUSH :: "nat \<Rightarrow> t32_machine \<Rightarrow> exec" where
  "exec_PUSH ra m =
     (case stack_push m (registers m ! ra) of (ok, m1) \<Rightarrow>
        if \<not> ok then Inl (memory_fault m1 ''PUSH stack write'' (registers m1 ! T32_STACK_POINTER))
        else Inr m1)"

definition exec_POP :: "nat \<Rightarrow> t32_machine \<Rightarrow> exec" where
  "exec_POP rd m =
     (case stack_pop (set_reg rd) m of (ok, m1) \<Rightarrow>
        if \<not> ok then Inl (memory_fault m1 ''POP stack read'' (registers m1 ! T32_STACK_POINTER))
        else Inr m1)"

definition exec_CALL :: "t32_machine \<Rightarrow> exec" where
  "exec_CALL m = with_extension m ''CALL'' (\<lambda>extension m1.
     case stack_push m1 (pc m1) of (ok, m2) \<Rightarrow>
       if \<not> ok then Inl (memory_fault m2 ''CALL stack write'' (registers m2 ! T32_STACK_POINTER))
       else Inr (m2\<lparr>pc := extension\<rparr>))"

definition exec_RET :: "t32_machine \<Rightarrow> exec" where
  "exec_RET m =
     (case stack_pop (\<lambda>v m. m\<lparr>pc := v\<rparr>) m of (ok, m1) \<Rightarrow>
        if \<not> ok then Inl (memory_fault m1 ''RET stack read'' (registers m1 ! T32_STACK_POINTER))
        else Inr m1)"

lemmas exec_defs = exec_HALT_def exec_NOP_def exec_TRAP_def exec_IRET_def exec_CPUID_def exec_MOV_def
  exec_MOVI_def exec_LDB_def exec_LDH_def exec_LDW_def exec_STB_def exec_STH_def
  exec_STW_def exec_ADD_def exec_ADDI_def exec_SUB_def exec_SUBI_def exec_MUL_def
  exec_MULU_def exec_DIV_def exec_DIVU_def exec_AND_def exec_OR_def exec_XOR_def
  exec_NOT_def exec_SHL_def exec_SHR_def exec_SAR_def exec_CMP_def exec_CMPI_def
  exec_JMP_def exec_JZ_def exec_JNZ_def exec_PUSH_def exec_POP_def exec_CALL_def
  exec_RET_def

fun execute :: "opcode \<Rightarrow> nat \<Rightarrow> nat \<Rightarrow> nat \<Rightarrow> t32_machine \<Rightarrow> exec" where
  "execute OP_HALT rd ra rb m = exec_HALT m"
| "execute OP_NOP rd ra rb m = exec_NOP m"
| "execute OP_TRAP rd ra rb m = exec_TRAP m"
| "execute OP_IRET rd ra rb m = exec_IRET m"
| "execute OP_CPUID rd ra rb m = exec_CPUID rd m"
| "execute OP_MOV rd ra rb m = exec_MOV rd ra m"
| "execute OP_MOVI rd ra rb m = exec_MOVI rd m"
| "execute OP_LDB rd ra rb m = exec_LDB rd ra m"
| "execute OP_LDH rd ra rb m = exec_LDH rd ra m"
| "execute OP_LDW rd ra rb m = exec_LDW rd ra m"
| "execute OP_STB rd ra rb m = exec_STB ra rb m"
| "execute OP_STH rd ra rb m = exec_STH ra rb m"
| "execute OP_STW rd ra rb m = exec_STW ra rb m"
| "execute OP_ADD rd ra rb m = exec_ADD rd ra rb m"
| "execute OP_ADDI rd ra rb m = exec_ADDI rd ra m"
| "execute OP_SUB rd ra rb m = exec_SUB rd ra rb m"
| "execute OP_SUBI rd ra rb m = exec_SUBI rd ra m"
| "execute OP_MUL rd ra rb m = exec_MUL rd ra rb m"
| "execute OP_MULU rd ra rb m = exec_MULU rd ra rb m"
| "execute OP_DIV rd ra rb m = exec_DIV rd ra rb m"
| "execute OP_DIVU rd ra rb m = exec_DIVU rd ra rb m"
| "execute OP_AND rd ra rb m = exec_AND rd ra rb m"
| "execute OP_OR rd ra rb m = exec_OR rd ra rb m"
| "execute OP_XOR rd ra rb m = exec_XOR rd ra rb m"
| "execute OP_NOT rd ra rb m = exec_NOT rd ra m"
| "execute OP_SHL rd ra rb m = exec_SHL rd ra rb m"
| "execute OP_SHR rd ra rb m = exec_SHR rd ra rb m"
| "execute OP_SAR rd ra rb m = exec_SAR rd ra rb m"
| "execute OP_CMP rd ra rb m = exec_CMP ra rb m"
| "execute OP_CMPI rd ra rb m = exec_CMPI ra m"
| "execute OP_JMP rd ra rb m = exec_JMP m"
| "execute OP_JZ rd ra rb m = exec_JZ ra m"
| "execute OP_JNZ rd ra rb m = exec_JNZ ra m"
| "execute OP_PUSH rd ra rb m = exec_PUSH ra m"
| "execute OP_POP rd ra rb m = exec_POP rd m"
| "execute OP_CALL rd ra rb m = exec_CALL m"
| "execute OP_RET rd ra rb m = exec_RET m"

section \<open>One step, and a run\<close>

definition bad_encoding :: "u8 \<Rightarrow> u32 \<Rightarrow> bool" where
  "bad_encoding opcode instruction =
     (case instruction_encoding_mask opcode of
        None \<Rightarrow> False
      | Some allowed_mask \<Rightarrow> instruction AND NOT allowed_mask \<noteq> 0)"

definition t32_step :: "t32_machine \<Rightarrow> t32_step_result \<times> t32_machine" where
  "t32_step m =
     (if state m = STATE_HALTED then (STEP_HALTED, m)
      else if state m = STATE_ERROR then (STEP_FAULT, m)
      else case fetch_u32 (m\<lparr>state := STATE_RUNNING\<rparr>) (pc m) of
        (None, m1) \<Rightarrow> (STEP_FAULT, set_fault m1 ''instruction fetch outside memory'')
      | (Some instruction, m1) \<Rightarrow>
          let m2 = m1\<lparr>pc := pc m1 + 4, instruction_count := instruction_count m1 + 1\<rparr>;
              opcode = insn_opcode instruction
          in if bad_encoding opcode instruction then
               (STEP_FAULT, set_fault m2 (snprintf 128 (''invalid encoding for ''
                  @ t32_opcode_name opcode @ '' at 0x'' @ fmt_08x (pc m2 - 4)
                  @ '': 0x'' @ fmt_08x instruction)))
             else case opcode_of_byte opcode of
               None \<Rightarrow> (STEP_FAULT, set_fault m2 (snprintf 128 (''unknown opcode 0x''
                  @ fmt_02x opcode @ '' at 0x'' @ fmt_08x (pc m2 - 4))))
             | Some op \<Rightarrow>
                 (case execute op (insn_rd instruction) (insn_ra instruction)
                         (insn_rb instruction) m2 of
                    Inl result \<Rightarrow> result
                  | Inr m3 \<Rightarrow> (STEP_OK, m3\<lparr>state := STATE_STOPPED\<rparr>)))"

partial_function (option) t32_run_loop ::
  "u64 \<Rightarrow> u64 \<Rightarrow> t32_machine \<Rightarrow> (t32_step_result \<times> t32_machine) option" where
  "t32_run_loop instruction_limit executed m =
     (if instruction_limit \<noteq> 0 \<and> executed \<ge> instruction_limit then
        Some (STEP_OK, m\<lparr>state := STATE_STOPPED,
                         halt_reason := snprintf 128 ''instruction limit reached''\<rparr>)
      else let result = t32_step m in
        if fst result \<noteq> STEP_OK then Some result
        else t32_run_loop instruction_limit (executed + 1) (snd result))"

definition t32_run :: "t32_machine \<Rightarrow> u64 \<Rightarrow> (t32_step_result \<times> t32_machine) option" where
  "t32_run m instruction_limit = t32_run_loop instruction_limit 0 m"

end
