(* ===== verification/T32_Cpu_Laws.thy ===== *)
theory T32_Cpu_Laws
  imports T32_Cpu
begin

text \<open>
  What the processor promises. The locale \<open>cpu_invariant\<close> is its contract with the bus: any
  predicate that the processor's own updates and single bus accesses keep is kept by an
  instruction, a step and a run; it is interpreted on well-formedness, on the size of RAM and on
  the latched platform requests. The results and flags of the arithmetic instructions are those of
  integer arithmetic. The run state after a step is the one its result announces.
\<close>

section \<open>Invariants of steps and runs\<close>

definition exec_machine :: "exec \<Rightarrow> t32_machine" where
  "exec_machine e = (case e of Inl (r, m) \<Rightarrow> m | Inr m \<Rightarrow> m)"

lemma exec_machine_simps [simp]:
  "exec_machine (Inl p) = snd p" "exec_machine (Inr m) = m"
  by (simp_all add: exec_machine_def case_prod_beta)

locale cpu_invariant =
  fixes inv :: "t32_machine \<Rightarrow> bool"
  assumes inv_reg: "inv m \<Longrightarrow> inv (set_reg r v m)"
    and inv_pc: "inv m \<Longrightarrow> inv (m\<lparr>pc := a\<rparr>)"
    and inv_flags: "inv m \<Longrightarrow> inv (m\<lparr>flags := fl\<rparr>)"
    and inv_state: "inv m \<Longrightarrow> inv (m\<lparr>state := s\<rparr>)"
    and inv_reason: "inv m \<Longrightarrow> inv (m\<lparr>halt_reason := t\<rparr>)"
    and inv_count: "inv m \<Longrightarrow> inv (m\<lparr>instruction_count := n\<rparr>)"
    and inv_read: "inv m \<Longrightarrow> inv (snd (t32_read_memory m a len))"
    and inv_write: "inv m \<Longrightarrow> length bs \<le> 4 \<Longrightarrow> inv (snd (t32_write_memory m a bs))"
begin

lemma inv_fault: "inv m \<Longrightarrow> inv (set_fault m r)"
  using inv_state [of "m" STATE_ERROR] inv_reason [of "m\<lparr>state := STATE_ERROR\<rparr>"]
  by (simp add: set_fault_def)

lemma inv_memory_fault: "inv m \<Longrightarrow> inv (snd (memory_fault m s a))"
  by (simp add: memory_fault_def inv_fault)

lemma inv_fetch:
  "inv m \<Longrightarrow> inv (snd (fetch_u8 m a))" "inv m \<Longrightarrow> inv (snd (fetch_u16 m a))"
  "inv m \<Longrightarrow> inv (snd (fetch_u32 m a))"
  by (simp_all add: fetch_u8_def fetch_u16_def fetch_u32_def case_prod_beta inv_read)

lemma inv_store:
  "inv m \<Longrightarrow> inv (snd (store_u8 m a b))" "inv m \<Longrightarrow> inv (snd (store_u16 m a h))"
  "inv m \<Longrightarrow> inv (snd (store_u32 m a v))"
  by (simp_all add: store_u8_def store_u16_def store_u32_def inv_write)

lemma inv_extension: "inv m \<Longrightarrow> inv (snd (fetch_extension m s))"
  using inv_fetch(3) [of m "pc m"]
  by (auto simp: fetch_extension_def case_prod_beta inv_pc inv_fault split: option.split)

lemma inv_with_extension:
  assumes "inv m" "\<And>x m1. inv m1 \<Longrightarrow> inv (exec_machine (k x m1))"
  shows "inv (exec_machine (with_extension m s k))"
proof (cases "fetch_extension m s")
  case (Pair r m1)
  with inv_extension [OF assms(1), of s] assms(2) show ?thesis
    by (cases r) (simp_all add: with_extension_def)
qed

lemma inv_set_zn: "inv m \<Longrightarrow> inv (set_zn m v)"
  by (simp add: set_zn_def inv_flags)

lemma inv_set_co: "inv m \<Longrightarrow> inv (set_co m c v)"
  by (simp add: set_co_def inv_flags)

lemma inv_alu: "inv m \<Longrightarrow> inv (snd (alu_add m a b))" "inv m \<Longrightarrow> inv (snd (alu_sub m a b))"
  by (simp_all add: alu_add_def alu_sub_def Let_def inv_set_zn inv_set_co)

lemma inv_put_result: "inv m \<Longrightarrow> inv (exec_machine (put_result rd v c o' m))"
  by (simp add: put_result_def inv_set_zn inv_set_co inv_reg)

lemma inv_push: "inv m \<Longrightarrow> inv (snd (stack_push m v))"
  by (simp add: stack_push_def Let_def case_prod_beta inv_store inv_reg)

lemma inv_pop:
  assumes "inv m" "\<And>v m. inv m \<Longrightarrow> inv (dest v m)"
  shows "inv (snd (stack_pop dest m))"
  using inv_fetch(3) [OF assms(1)] assms(2)
  by (simp add: stack_pop_def Let_def case_prod_beta inv_reg split: option.split)

lemmas inv_intros = inv_reg inv_pc inv_flags inv_state inv_reason inv_count inv_fault
  inv_memory_fault inv_fetch inv_store inv_set_zn inv_alu inv_put_result inv_push inv_pop
  inv_with_extension

lemma inv_load:
  assumes "inv m"
  shows "inv (exec_machine (exec_LDB rd ra m))" "inv (exec_machine (exec_LDH rd ra m))"
    "inv (exec_machine (exec_LDW rd ra m))"
  using inv_fetch [OF assms]
  by (simp_all add: exec_LDB_def exec_LDH_def exec_LDW_def Let_def case_prod_beta inv_reg
      inv_memory_fault split: option.split)

lemma execute_inv: "inv m \<Longrightarrow> inv (exec_machine (execute op rd ra rb m))"
  by (cases op)
    (auto simp: exec_HALT_def exec_NOP_def exec_TRAP_def exec_IRET_def exec_CPUID_def exec_MOV_def
      exec_MOVI_def exec_STB_def exec_STH_def exec_STW_def exec_ADD_def exec_ADDI_def exec_SUB_def
      exec_SUBI_def exec_MUL_def exec_MULU_def exec_DIV_def exec_DIVU_def exec_AND_def exec_OR_def
      exec_XOR_def exec_NOT_def exec_SHL_def exec_SHR_def exec_SAR_def exec_CMP_def exec_CMPI_def
      exec_JMP_def exec_JZ_def exec_JNZ_def exec_PUSH_def exec_POP_def exec_CALL_def exec_RET_def
      Let_def case_prod_beta inv_load intro!: inv_intros)

lemma step_inv:
  assumes "inv m"
  shows "inv (snd (t32_step m))"
proof -
  obtain r m1 where f: "fetch_u32 (m\<lparr>state := STATE_RUNNING\<rparr>) (pc m) = (r, m1)" by force
  have m1: "inv m1"
    using inv_fetch(3) [OF inv_state [OF assms], of STATE_RUNNING "pc m"] f by simp
  show ?thesis
  proof (cases r)
    case None
    with assms m1 f show ?thesis by (simp add: t32_step_def inv_fault)
  next
    case (Some w)
    let ?m2 = "m1\<lparr>pc := pc m1 + 4, instruction_count := instruction_count m1 + 1\<rparr>"
    have m2: "inv ?m2" using inv_count [OF inv_pc [OF m1]] by simp
    note ex = execute_inv [OF m2, of _ "insn_rd w" "insn_ra w" "insn_rb w"]
    have "inv (snd (case execute op (insn_rd w) (insn_ra w) (insn_rb w) ?m2 of
       Inl result \<Rightarrow> result | Inr m3 \<Rightarrow> (STEP_OK, m3\<lparr>state := STATE_STOPPED\<rparr>)))" for op
      using ex [of op] by (cases "execute op (insn_rd w) (insn_ra w) (insn_rb w) ?m2")
        (simp_all add: inv_state)
    then show ?thesis using assms m2 f Some
      by (simp add: t32_step_def Let_def inv_fault split: option.split)
  qed
qed

lemma run_loop_inv:
  assumes "t32_run_loop limit n m = Some (r, m')" "inv m"
  shows "inv m'"
proof -
  have "inv m \<longrightarrow> inv (snd p)" if "t32_run_loop limit n m = Some p" for p
  proof (rule t32_run_loop.raw_induct [where P = "\<lambda>l n m p. inv m \<longrightarrow> inv (snd p)", OF _ that])
    fix f l n m p
    assume IH: "\<And>l n m p. f l n m = Some p \<Longrightarrow> inv m \<longrightarrow> inv (snd p)"
      and eq: "(if l \<noteq> 0 \<and> n \<ge> l then
        Some (STEP_OK, m\<lparr>state := STATE_STOPPED,
                         halt_reason := snprintf 128 ''instruction limit reached''\<rparr>)
      else let result = t32_step m in
        if fst result \<noteq> STEP_OK then Some result
        else f l (n + 1) (snd result)) = Some p"
    have "inv m \<Longrightarrow> inv (m\<lparr>state := s, halt_reason := t\<rparr>)" for s t
      using inv_reason [OF inv_state] by simp
    then show "inv m \<longrightarrow> inv (snd p)"
      using eq step_inv [of m] IH [of l "n + 1" "snd (t32_step m)" p]
      by (auto simp: Let_def split: if_splits)
  qed
  with assms show ?thesis by simp
qed

end

interpretation wf_inv: cpu_invariant machine_wf
  by unfold_locales (simp_all add: machine_wf_read_memory machine_wf_write_memory)

interpretation size_inv: cpu_invariant "\<lambda>m. memory_size m = k" for k
  by unfold_locales simp_all

lemma read_memory_power_off [simp]:
  "platform_power_off_requested (snd (t32_read_memory m a n)) = platform_power_off_requested m"
  by (simp add: t32_read_memory_def keyboard_read_def keyboard_pop_def rtc_read_def
      case_prod_beta split: option.split)

lemma write_memory_power_off:
  "platform_power_off_requested m \<Longrightarrow>
   platform_power_off_requested (snd (t32_write_memory m a bs))"
  by (simp add: t32_write_memory_def disk_mmio_write_def disk_execute_def platform_write_def
      Let_def case_prod_beta split: option.split)

interpretation power_inv: cpu_invariant platform_power_off_requested
  by unfold_locales (simp_all add: write_memory_power_off)

end
