(* ===== verification/T32_Cpu_Arith.thy ===== *)
theory T32_Cpu_Arith
  imports T32_Cpu_Laws
begin

text \<open>
  The arithmetic of the processor against the integers. \<open>alu_add\<close> and \<open>alu_sub\<close> compute
  their flags with bit tricks; here the flags are tied to the unsigned and signed values of the
  operands. \<open>alu_result\<close> is the reference semantics of the register-to-register
  instructions: the value that the destination gets, or no value where the instruction faults.
\<close>

section \<open>Flags\<close>

lemma sign_bit: "(w AND 0x80000000 \<noteq> 0) = bit w 31" for w :: u32
proof -
  have "(0x80000000 :: u32) = 2 ^ 31" by simp
  then show ?thesis by (simp only: and_exp_eq_0_iff_not_bit) simp
qed

lemma sign_bit_sint: "bit w 31 = (sint w < 0)" for w :: u32
  using bit_last_iff [of w] by simp

lemma sint_range32: "- (2 ^ 31) \<le> sint w" "sint w < 2 ^ 31" for w :: u32
  using sint_greater_eq [of w] sint_less [of w] by simp_all

lemma sint_sum_range: "- (2 ^ 32) \<le> sint a + sint b" "sint a + sint b < 2 ^ 32" for a b :: u32
  using sint_range32 [of a] sint_range32 [of b] by simp_all

lemma sint_diff_range: "- (2 ^ 32) \<le> sint a - sint b" "sint a - sint b < 2 ^ 32" for a b :: u32
  using sint_range32 [of a] sint_range32 [of b] by simp_all

lemma sint_of_int32: "sint (word_of_int i :: u32) = (i + 2 ^ 31) mod 2 ^ 32 - 2 ^ 31"
  using int_word_sint [of i, where 'a = 32] by simp

lemma sint_plus32:
  "sint (a + b) = (sint a + sint b + 2 ^ 31) mod 2 ^ 32 - 2 ^ 31" for a b :: u32
  using sint_of_int32 [of "sint a + sint b"] by simp

lemma sint_minus32:
  "sint (a - b) = (sint a - sint b + 2 ^ 31) mod 2 ^ 32 - 2 ^ 31" for a b :: u32
  using sint_of_int32 [of "sint a - sint b"] by simp

lemma wrap_cases:
  assumes "- (2 ^ 32) \<le> i" "i < (2 ^ 32 :: int)"
  shows "(i + 2 ^ 31) mod 2 ^ 32 - 2 ^ 31 =
    (if i < - (2 ^ 31) then i + 2 ^ 32 else if i < 2 ^ 31 then i else i - 2 ^ 32)"
  using assms mod_pos_pos_trivial [of "i + 2 ^ 31" "2 ^ 32"]
    mod_pos_pos_trivial [of "i + 2 ^ 31 + 2 ^ 32" "2 ^ 32"]
    mod_pos_pos_trivial [of "i + 2 ^ 31 - 2 ^ 32" "2 ^ 32"]
    mod_add_self2 [of "i + 2 ^ 31" "2 ^ 32 :: int"] minus_mod_self2 [of "i + 2 ^ 31" "2 ^ 32 :: int"]
  by (auto split: if_splits)

lemma overflow_add_int:
  "((NOT (a XOR b) AND (a XOR (a + b))) AND 0x80000000 \<noteq> 0)
     = (sint (a + b) \<noteq> sint a + sint b)" for a b :: u32
proof -
  note w = wrap_cases [OF sint_sum_range [of a b]]
  show ?thesis
    unfolding sign_bit bit_and_iff bit_not_iff bit_xor_iff unfolding sign_bit_sint sint_plus32 w
    using sint_range32 [of a] sint_range32 [of b] by (auto split: if_splits)
qed

lemma overflow_sub_int:
  "(((a XOR b) AND (a XOR (a - b))) AND 0x80000000 \<noteq> 0)
     = (sint (a - b) \<noteq> sint a - sint b)" for a b :: u32
proof -
  note w = wrap_cases [OF sint_diff_range [of a b]]
  show ?thesis
    unfolding sign_bit bit_and_iff bit_xor_iff unfolding sign_bit_sint sint_minus32 w
    using sint_range32 [of a] sint_range32 [of b] by (auto split: if_splits)
qed

lemma carry_add_nat:
  "((ucast a :: u64) + ucast b > 0xFFFFFFFF) = (2 ^ 32 \<le> unat a + unat b)" for a b :: u32
proof -
  have "unat ((ucast a :: u64) + ucast b) = unat a + unat b"
    using unat_u32_bound [of a] unat_u32_bound [of b]
    by (subst unat_add_lem [THEN iffD1]) (simp_all add: unat_ucast_u64)
  then show ?thesis by (simp add: word_less_nat_alt) linarith
qed

text \<open>The flags of an addition and of a subtraction, in integers.\<close>

definition flags_after :: "u32 \<Rightarrow> bool \<Rightarrow> bool \<Rightarrow> t32_flags" where
  "flags_after result c v =
     \<lparr>carry = c, zero = (result = 0), negative = (sint result < 0), overflow = v\<rparr>"

lemma set_flags [simp]:
  "set_co (set_zn m result) c v = m\<lparr>flags := flags_after result c v\<rparr>"
  by (simp add: set_co_def set_zn_def flags_after_def sign_bit sign_bit_sint)

lemma alu_add_int:
  "alu_add m a b = (a + b, m\<lparr>flags := flags_after (a + b) (2 ^ 32 \<le> unat a + unat b)
     (sint (a + b) \<noteq> sint a + sint b)\<rparr>)"
  by (simp add: alu_add_def Let_def carry_add_nat overflow_add_int del: word_neq_0_conv)

lemma alu_sub_int:
  "alu_sub m a b = (a - b, m\<lparr>flags := flags_after (a - b) (unat b \<le> unat a)
     (sint (a - b) \<noteq> sint a - sint b)\<rparr>)"
  by (simp add: alu_sub_def Let_def overflow_sub_int word_le_nat_alt del: word_neq_0_conv)

text \<open>After a comparison, the negative flag differs from the overflow flag exactly for a signed
  less-than, and the carry flag is clear exactly for an unsigned one.\<close>

lemma signed_less_flags:
  "negative fl \<noteq> overflow fl \<longleftrightarrow> sint a < sint b"
  if "fl = flags_after (a - b) c (sint (a - b) \<noteq> sint a - sint b)" for a b :: u32
proof -
  note w = wrap_cases [OF sint_diff_range [of a b]]
  show ?thesis
    unfolding that flags_after_def sint_minus32 w
    using sint_range32 [of a] sint_range32 [of b] by (auto split: if_splits)
qed

section \<open>A reference for the arithmetic instructions\<close>

text \<open>The value and the flags that an instruction computes from its two operands, stated with
  integers and bit positions; no value where the quotient does not exist or does not fit.\<close>

fun alu_reference :: "opcode \<Rightarrow> u32 \<Rightarrow> u32 \<Rightarrow> (u32 \<times> t32_flags) option" where
  "alu_reference OP_ADD a b =
     (let i = sint a + sint b; r = word_of_int i in
      Some (r, flags_after r (2 ^ 32 \<le> uint a + uint b) (sint r \<noteq> i)))"
| "alu_reference OP_SUB a b =
     (let i = sint a - sint b; r = word_of_int i in
      Some (r, flags_after r (uint b \<le> uint a) (sint r \<noteq> i)))"
| "alu_reference OP_MUL a b =
     (let i = sint a * sint b; r = word_of_int i in Some (r, flags_after r False (sint r \<noteq> i)))"
| "alu_reference OP_MULU a b =
     (let i = uint a * uint b; r = word_of_int i in Some (r, flags_after r (uint r \<noteq> i) False))"
| "alu_reference OP_DIV a b =
     (let i = sint a sdiv sint b; r = word_of_int i in
      if sint b = 0 \<or> sint r \<noteq> i then None else Some (r, flags_after r False False))"
| "alu_reference OP_DIVU a b =
     (let r = word_of_int (uint a div uint b) in
      if uint b = 0 then None else Some (r, flags_after r False False))"
| "alu_reference OP_AND a b = (let r = a AND b in Some (r, flags_after r False False))"
| "alu_reference OP_OR a b = (let r = a OR b in Some (r, flags_after r False False))"
| "alu_reference OP_XOR a b = (let r = a XOR b in Some (r, flags_after r False False))"
| "alu_reference OP_NOT a b = (let r = - a - 1 in Some (r, flags_after r False False))"
| "alu_reference OP_SHL a b =
     (let n = unat b mod 32; r = word_of_int (uint a * 2 ^ n) in
      Some (r, flags_after r (n \<noteq> 0 \<and> bit a (32 - n)) False))"
| "alu_reference OP_SHR a b =
     (let n = unat b mod 32; r = word_of_int (uint a div 2 ^ n) in
      Some (r, flags_after r (n \<noteq> 0 \<and> bit a (n - 1)) False))"
| "alu_reference OP_SAR a b =
     (let n = unat b mod 32; r = word_of_int (sint a div 2 ^ n) in
      Some (r, flags_after r (n \<noteq> 0 \<and> bit a (n - 1)) False))"
| "alu_reference op a b = None"

abbreviation alu_opcodes :: "opcode list" where
  "alu_opcodes \<equiv> [OP_ADD, OP_SUB, OP_MUL, OP_MULU, OP_DIV, OP_DIVU, OP_AND, OP_OR, OP_XOR, OP_NOT,
     OP_SHL, OP_SHR, OP_SAR]"

text \<open>Whether the instruction's outcome is the reference's.\<close>

definition agrees_alu :: "nat \<Rightarrow> t32_machine \<Rightarrow> (u32 \<times> t32_flags) option \<Rightarrow> exec \<Rightarrow> bool" where
  "agrees_alu rd m r e = (case r of
       Some (v, fl) \<Rightarrow> e = Inr (set_reg rd v (m\<lparr>flags := fl\<rparr>))
     | None \<Rightarrow> (\<exists>why. e = Inl (STEP_FAULT, set_fault m why)))"

lemma agrees_put_result [simp]:
  "agrees_alu rd m (Some (v, fl)) (put_result rd v' c o' m)
     \<longleftrightarrow> set_reg rd v (m\<lparr>flags := fl\<rparr>)
         = (set_reg rd v' m)\<lparr>flags := flags_after v' c o'\<rparr>"
  by (auto simp: agrees_alu_def put_result_def)

lemma sint_fits: "sint (word_of_int i :: u32) = i \<longleftrightarrow> - (2 ^ 31) \<le> i \<and> i < 2 ^ 31"
proof
  assume "sint (word_of_int i :: u32) = i"
  then show "- (2 ^ 31) \<le> i \<and> i < 2 ^ 31" using sint_range32 [of "word_of_int i"] by metis
next
  assume "- (2 ^ 31) \<le> i \<and> i < 2 ^ 31"
  then show "sint (word_of_int i :: u32) = i"
    unfolding sint_of_int32 by (subst mod_pos_pos_trivial) simp_all
qed

lemma uint_fits: "uint (word_of_int i :: u32) = i \<longleftrightarrow> 0 \<le> i \<and> i < 2 ^ 32"
  by (simp add: uint_word_of_int_eq take_bit_int_eq_self_iff)

lemma bit_and_1: "(drop_bit n w AND 1 \<noteq> 0) = bit w n" for w :: u32
  by (simp add: and_one_eq bit_iff_odd_drop_bit odd_iff_mod_2_eq_one)

lemma and_31: "unat (w AND 31) = unat w mod 32" for w :: u32
proof -
  have "(31 :: u32) = mask 5" by (simp add: mask_eq_exp_minus_1)
  then show ?thesis by (simp only: take_bit_eq_mask [symmetric] unsigned_take_bit_eq)
      (simp add: take_bit_eq_mod)
qed

lemma shift_left_int: "push_bit n a = word_of_int (uint a * 2 ^ n)" for a :: u32
  by (simp add: push_bit_eq_mult)

lemma shift_right_int: "drop_bit n a = word_of_int (uint a div 2 ^ n)" for a :: u32
proof -
  have "uint (drop_bit n a) = uint a div 2 ^ n"
    using take_bit_int_eq_self [of "uint a" 32] uint_lt2p [of a]
    by (simp add: unsigned_drop_bit_eq drop_bit_eq_div [where 'a = int])
  from arg_cong [OF this, of "word_of_int :: int \<Rightarrow> u32"] show ?thesis by simp
qed

lemma shift_arith_int: "signed_drop_bit n a = word_of_int (sint a div 2 ^ n)" for a :: u32
proof -
  have "sint (signed_drop_bit n a) = sint a div 2 ^ n"
    by (simp add: sint_signed_drop_bit_eq drop_bit_eq_div)
  from arg_cong [OF this, of "word_of_int :: int \<Rightarrow> u32"] show ?thesis by simp
qed

lemma sint_eq_uint_add: "word_of_int (sint a + sint b) = a + b" "word_of_int (sint a - sint b) = a - b"
  for a b :: u32
  by simp_all

lemma agrees_add: "agrees_alu rd m (alu_reference OP_ADD (registers m ! ra) (registers m ! rb))
    (exec_ADD rd ra rb m)"
proof -
  have "2 ^ 32 \<le> uint a + uint b \<longleftrightarrow> 2 ^ 32 \<le> unat a + unat b" for a b :: u32
    unfolding uint_nat using of_nat_le_iff [where 'a = int, of "2 ^ 32" "unat a + unat b"] by simp
  then show ?thesis
    by (simp add: agrees_alu_def exec_ADD_def alu_add_int Let_def)
qed

lemma agrees_sub: "agrees_alu rd m (alu_reference OP_SUB (registers m ! ra) (registers m ! rb))
    (exec_SUB rd ra rb m)"
  by (simp add: agrees_alu_def exec_SUB_def alu_sub_int Let_def word_le_def word_le_nat_alt [symmetric])

lemma agrees_mul: "agrees_alu rd m (alu_reference OP_MUL (registers m ! ra) (registers m ! rb))
    (exec_MUL rd ra rb m)"
proof -
  have "sint (word_of_int i :: u32) \<noteq> i \<longleftrightarrow> i > 2 ^ 31 - 1 \<or> i < - (2 ^ 31)" for i
    unfolding sint_fits by auto
  then show ?thesis by (simp add: exec_MUL_def Let_def)
qed

lemma agrees_mulu: "agrees_alu rd m (alu_reference OP_MULU (registers m ! ra) (registers m ! rb))
    (exec_MULU rd ra rb m)"
proof -
  define a b where "a = registers m ! ra" and "b = registers m ! rb"
  let ?p = "(ucast a :: u64) * ucast b"
  have bound: "uint a * uint b < 2 ^ 64"
    using mult_strict_mono [of "uint a" "2 ^ 32" "uint b" "2 ^ 32"] uint_lt2p [of a] uint_lt2p [of b]
    by simp
  have w: "uint (ucast w :: u64) = uint w" for w :: u32
    unfolding uint_nat by simp
  have p: "uint ?p = uint a * uint b"
    unfolding uint_word_ariths w using bound by simp
  have r: "ucast ?p = (word_of_int (uint a * uint b) :: u32)"
    unfolding p [symmetric] by (simp add: unsigned_of_int)
  have "uint (drop_bit 32 ?p) = uint a * uint b div 2 ^ 32"
    using p bound take_bit_int_eq_self [of "uint a * uint b" 64]
    by (simp add: unsigned_drop_bit_eq drop_bit_eq_div [where 'a = int])
  then have c: "drop_bit 32 ?p \<noteq> 0 \<longleftrightarrow> uint (word_of_int (uint a * uint b) :: u32) \<noteq> uint a * uint b"
    unfolding uint_fits using unsigned_eq_0_iff [of "drop_bit 32 ?p"] by (auto simp: div_eq_0_iff)
  show ?thesis
    using r c by (simp add: exec_MULU_def Let_def a_def [symmetric] b_def [symmetric])
qed

lemma sdiv_fits:
  assumes "- (2 ^ 31) \<le> (a :: int)" "a < 2 ^ 31" "b \<noteq> 0"
  shows "\<not> (- (2 ^ 31) \<le> a sdiv b \<and> a sdiv b < 2 ^ 31) \<longleftrightarrow> a = - (2 ^ 31) \<and> b = - 1"
proof -
  consider "b = 1" | "b = - 1" | "2 \<le> \<bar>b\<bar>" using assms(3) by linarith
  then show ?thesis
  proof cases
    case 3
    have "\<bar>a\<bar> div \<bar>b\<bar> \<le> \<bar>a\<bar> div 2" "0 \<le> \<bar>a\<bar> div \<bar>b\<bar>"
      using 3 by (auto intro: zdiv_mono2 simp: pos_imp_zdiv_nonneg_iff)
    then have "\<bar>a\<bar> div \<bar>b\<bar> \<le> 2 ^ 30" "0 \<le> \<bar>a\<bar> div \<bar>b\<bar>" using assms by auto
    then have "\<bar>a sdiv b\<bar> \<le> 2 ^ 30"
      by (simp add: signed_divide_int_def abs_mult abs_sgn_eq)
    then show ?thesis using 3 by auto
  qed (use assms in auto)
qed

lemma agrees_div: "agrees_alu rd m (alu_reference OP_DIV (registers m ! ra) (registers m ! rb))
    (exec_DIV rd ra rb m)"
proof -
  define a b where "a = sint (registers m ! ra)" and "b = sint (registers m ! rb)"
  have a: "- (2 ^ 31) \<le> a" "a < 2 ^ 31" unfolding a_def by (rule sint_range32)+
  have "b \<noteq> 0 \<Longrightarrow> \<not> (- (2 ^ 31) \<le> a sdiv b \<and> a sdiv b < 2 ^ 31) \<longleftrightarrow> a = - (2 ^ 31) \<and> b = - 1"
    using a by (rule sdiv_fits)
  then have "b \<noteq> 0 \<Longrightarrow> sint (word_of_int (a sdiv b) :: u32) \<noteq> a sdiv b \<longleftrightarrow> a = - (2 ^ 31) \<and> b = - 1"
    unfolding sint_fits by simp
  then show ?thesis
    unfolding exec_DIV_def Let_def a_def [symmetric] b_def [symmetric]
    by (auto simp: agrees_alu_def Let_def put_result_def a_def [symmetric] b_def [symmetric])
qed

lemma agrees_divu: "agrees_alu rd m (alu_reference OP_DIVU (registers m ! ra) (registers m ! rb))
    (exec_DIVU rd ra rb m)"
proof -
  have "word_of_int (uint a div uint b) = a div b" for a b :: u32
    by (simp add: word_div_def)
  then show ?thesis
    by (auto simp: agrees_alu_def exec_DIVU_def Let_def put_result_def unsigned_eq_0_iff)
qed

lemma agrees_shift:
  "agrees_alu rd m (alu_reference OP_SHL (registers m ! ra) (registers m ! rb)) (exec_SHL rd ra rb m)"
  "agrees_alu rd m (alu_reference OP_SHR (registers m ! ra) (registers m ! rb)) (exec_SHR rd ra rb m)"
  "agrees_alu rd m (alu_reference OP_SAR (registers m ! ra) (registers m ! rb)) (exec_SAR rd ra rb m)"
  unfolding exec_SHL_def exec_SHR_def exec_SAR_def Let_def and_31 bit_and_1
  by (simp_all add: Let_def shift_left_int shift_right_int shift_arith_int)

lemma agrees_logic:
  "agrees_alu rd m (alu_reference OP_AND (registers m ! ra) (registers m ! rb)) (exec_AND rd ra rb m)"
  "agrees_alu rd m (alu_reference OP_OR (registers m ! ra) (registers m ! rb)) (exec_OR rd ra rb m)"
  "agrees_alu rd m (alu_reference OP_XOR (registers m ! ra) (registers m ! rb)) (exec_XOR rd ra rb m)"
  "agrees_alu rd m (alu_reference OP_NOT (registers m ! ra) (registers m ! rb)) (exec_NOT rd ra m)"
  by (simp_all add: exec_AND_def exec_OR_def exec_XOR_def exec_NOT_def Let_def not_eq_complement)

lemmas agrees = agrees_add agrees_sub agrees_mul agrees_mulu agrees_div agrees_divu agrees_shift
  agrees_logic

lemma execute_agrees:
  "op \<in> set alu_opcodes \<Longrightarrow>
   agrees_alu rd m (alu_reference op (registers m ! ra) (registers m ! rb)) (execute op rd ra rb m)"
  using agrees [of rd m ra rb] by (auto simp del: alu_reference.simps)

end
