(* ===== verification/T32_Step.thy ===== *)
theory T32_Step
  imports T32_Cpu_Arith
begin

text \<open>
  Properties of whole instructions, of \<open>t32_step\<close> and of \<open>t32_run\<close>: the run state that
  a step leaves, the bytes of RAM that an instruction may write, calls and returns on the stack, what a
  badly encoded word does, and the run loop as an iteration of steps.
\<close>

section \<open>The run state after a step\<close>

definition result_state :: "t32_step_result \<Rightarrow> t32_state" where
  "result_state r = (case r of STEP_OK \<Rightarrow> STATE_STOPPED | STEP_HALTED \<Rightarrow> STATE_HALTED
     | STEP_FAULT \<Rightarrow> STATE_ERROR)"

text \<open>An instruction that leaves \<open>t32_step\<close> early has stopped the machine.\<close>

definition exit_ok :: "exec \<Rightarrow> bool" where
  "exit_ok e = (case e of Inl (r, m) \<Rightarrow> r \<noteq> STEP_OK \<and> state m = result_state r | Inr m \<Rightarrow> True)"

lemma exit_ok_simps [simp]:
  "exit_ok (Inr m)"
  "exit_ok (Inl (STEP_FAULT, set_fault m why))"
  "exit_ok (Inl (memory_fault m s a))"
  "exit_ok (put_result rd v c o' m)"
  by (simp_all add: exit_ok_def result_state_def set_fault_def memory_fault_def put_result_def)

lemma exit_ok_extension:
  assumes "\<And>x m1. exit_ok (k x m1)"
  shows "exit_ok (with_extension m s k)"
proof (cases "fetch_extension m s")
  case (Pair r m1)
  then have "r = None \<Longrightarrow> state m1 = STATE_ERROR"
    by (auto simp: fetch_extension_def set_fault_def case_prod_beta split: option.splits)
  with Pair assms show ?thesis
    by (cases r) (simp_all add: with_extension_def exit_ok_def result_state_def)
qed

lemma execute_exit_ok: "exit_ok (execute op rd ra rb m)"
proof (cases op)
  case OP_TRAP
  show ?thesis unfolding OP_TRAP execute.simps exec_TRAP_def
    by (rule exit_ok_extension) (simp add: exit_ok_def result_state_def)
next
  case OP_HALT
  then show ?thesis by (simp add: exec_HALT_def exit_ok_def result_state_def)
qed (simp_all add: exec_defs Let_def case_prod_beta exit_ok_extension split: option.split)

lemma step_result_state:
  "state (snd (t32_step m)) = result_state (fst (t32_step m))"
proof -
  have e: "state (snd p) = result_state (fst p)" if "execute op rd ra rb m' = Inl p"
    for op rd ra rb m' p
    using execute_exit_ok [of op rd ra rb m'] that by (cases p) (simp add: exit_ok_def)
  show ?thesis
    by (auto simp: t32_step_def Let_def case_prod_beta result_state_def set_fault_def
        dest!: e split: option.split sum.split)
qed

section \<open>What an instruction may write\<close>

text \<open>The bytes of the address space that an instruction stores to: start and length.\<close>

fun store_range :: "opcode \<Rightarrow> nat \<Rightarrow> t32_machine \<Rightarrow> nat \<times> nat" where
  "store_range OP_STB ra m = (unat (registers m ! ra), 1)"
| "store_range OP_STH ra m = (unat (registers m ! ra), 2)"
| "store_range OP_STW ra m = (unat (registers m ! ra), 4)"
| "store_range OP_PUSH ra m = (unat (registers m ! T32_STACK_POINTER - 4), 4)"
| "store_range OP_CALL ra m = (unat (registers m ! T32_STACK_POINTER - 4), 4)"
| "store_range op ra m = (0, 0)"

abbreviation outside :: "nat \<Rightarrow> nat \<times> nat \<Rightarrow> bool" where
  "outside i r \<equiv> i < fst r \<or> fst r + snd r \<le> i"

lemma fetch_memory [simp]:
  "memory (snd (fetch_u8 m a)) = memory m" "memory (snd (fetch_u16 m a)) = memory m"
  "memory (snd (fetch_u32 m a)) = memory m"
  "registers (snd (fetch_u32 m a)) = registers m"
  "memory_size (snd (fetch_u32 m a)) = memory_size m"
  by (simp_all add: fetch_u8_def fetch_u16_def fetch_u32_def case_prod_beta)

lemma fetch_extension_core [simp]:
  "memory (snd (fetch_extension m s)) = memory m"
  "registers (snd (fetch_extension m s)) = registers m"
  "memory_size (snd (fetch_extension m s)) = memory_size m"
  by (simp_all add: fetch_extension_def set_fault_def case_prod_beta split: option.split)

lemma memory_fault_memory [simp]: "memory (snd (memory_fault m s a)) = memory m"
  by (simp add: memory_fault_def set_fault_def)

lemma stack_pop_memory [simp]:
  "(\<And>v m. memory (dest v m) = memory m) \<Longrightarrow> memory (snd (stack_pop dest m)) = memory m"
  by (simp add: stack_pop_def Let_def case_prod_beta split: option.split)

lemma with_extension_memory:
  assumes "\<And>x m1. memory m1 = memory m \<Longrightarrow> registers m1 = registers m \<Longrightarrow>
      memory (exec_machine (k x m1)) ! i = memory m ! i"
  shows "memory (exec_machine (with_extension m s k)) ! i = memory m ! i"
proof (cases "fetch_extension m s")
  case (Pair r m1)
  with assms [of m1] fetch_extension_core [of m s] show ?thesis
    by (cases r) (simp_all add: with_extension_def)
qed

lemma store_frame:
  assumes "machine_wf m" "i < memory_size m"
  shows "outside i (unat a, 1) \<Longrightarrow> memory (snd (store_u8 m a b)) ! i = memory m ! i"
    "outside i (unat a, 2) \<Longrightarrow> memory (snd (store_u16 m a h)) ! i = memory m ! i"
    "outside i (unat a, 4) \<Longrightarrow> memory (snd (store_u32 m a v)) ! i = memory m ! i"
  using write_memory_frame [OF assms, of a "[b]"]
    write_memory_frame [OF assms, of a "[ucast h, ucast (drop_bit 8 h)]"]
    write_memory_frame [OF assms, of a "[ucast v, ucast (drop_bit 8 v), ucast (drop_bit 16 v),
      ucast (drop_bit 24 v)]"]
  by (auto simp: store_u8_def store_u16_def store_u32_def)

lemma stack_push_frame:
  assumes "machine_wf m" "i < memory_size m"
    and "outside i (unat (registers m ! T32_STACK_POINTER - 4), 4)"
  shows "memory (snd (stack_push m v)) ! i = memory m ! i"
  using store_frame(3) [OF assms] by (simp add: stack_push_def Let_def case_prod_beta)

lemma exec_call_frame:
  assumes "machine_wf m" "i < memory_size m"
    and "outside i (unat (registers m ! T32_STACK_POINTER - 4), 4)"
  shows "memory (exec_machine (exec_CALL m)) ! i = memory m ! i"
proof -
  obtain r m1 where f: "fetch_extension m ''CALL'' = (r, m1)" by force
  have m1: "machine_wf m1" "memory_size m1 = memory_size m" "registers m1 = registers m"
    "memory m1 = memory m"
    using wf_inv.inv_extension [OF assms(1), of "''CALL''"] fetch_extension_core [of m "''CALL''"] f
    by simp_all
  with assms stack_push_frame [of m1 i "pc m1"] f show ?thesis
    by (cases r) (simp_all add: exec_CALL_def with_extension_def case_prod_beta)
qed

lemma execute_frame:
  assumes "machine_wf m" "i < memory_size m" "outside i (store_range op ra m)"
  shows "memory (exec_machine (execute op rd ra rb m)) ! i = memory m ! i"
proof (cases op)
  case OP_CALL
  with exec_call_frame assms show ?thesis by simp
qed (use assms in \<open>auto simp: exec_defs alu_add_def alu_sub_def put_result_def set_zn_def set_co_def set_fault_def
      Let_def case_prod_beta store_frame stack_push_frame
      intro!: with_extension_memory split: option.split\<close>)

text \<open>The bytes that a step may write, by the instruction word that it fetches.\<close>

definition step_store :: "t32_machine \<Rightarrow> nat \<times> nat" where
  "step_store m =
     (case fst (fetch_u32 (m\<lparr>state := STATE_RUNNING\<rparr>) (pc m)) of
        None \<Rightarrow> (0, 0)
      | Some w \<Rightarrow> (case opcode_of_byte (insn_opcode w) of
          None \<Rightarrow> (0, 0)
        | Some op \<Rightarrow> store_range op (insn_ra w) m))"

lemma store_range_registers:
  "registers m' = registers m \<Longrightarrow> store_range op ra m' = store_range op ra m"
  by (cases op) simp_all

text \<open>A step, after the fetch of a well-formed instruction word.\<close>

lemma t32_step_decoded:
  assumes "state m = STATE_STOPPED \<or> state m = STATE_RUNNING"
    and "fetch_u32 (m\<lparr>state := STATE_RUNNING\<rparr>) (pc m) = (Some w, m1)"
    and "\<not> bad_encoding (insn_opcode w) w" "opcode_of_byte (insn_opcode w) = Some op"
  shows "t32_step m =
    (case execute op (insn_rd w) (insn_ra w) (insn_rb w)
        (m1\<lparr>pc := pc m1 + 4, instruction_count := instruction_count m1 + 1\<rparr>) of
      Inl p \<Rightarrow> p | Inr m3 \<Rightarrow> (STEP_OK, m3\<lparr>state := STATE_STOPPED\<rparr>))"
  using assms by (auto simp: t32_step_def Let_def)

lemma t32_step_cases:
  obtains (early) m' where "snd (t32_step m) = m'" "memory m' = memory m"
      "registers m' = registers m" "memory_size m' = memory_size m"
    | (decoded) w m1 op where
      "state m = STATE_STOPPED \<or> state m = STATE_RUNNING"
      "fetch_u32 (m\<lparr>state := STATE_RUNNING\<rparr>) (pc m) = (Some w, m1)"
      "\<not> bad_encoding (insn_opcode w) w" "opcode_of_byte (insn_opcode w) = Some op"
proof -
  obtain r m1 where f: "fetch_u32 (m\<lparr>state := STATE_RUNNING\<rparr>) (pc m) = (r, m1)" by force
  have m1: "memory m1 = memory m" "registers m1 = registers m" "memory_size m1 = memory_size m"
    using fetch_memory(3-5) [of "m\<lparr>state := STATE_RUNNING\<rparr>" "pc m"] f by simp_all
  show thesis
  proof (cases "(state m = STATE_STOPPED \<or> state m = STATE_RUNNING)
      \<and> (\<exists>w op. r = Some w \<and> \<not> bad_encoding (insn_opcode w) w
        \<and> opcode_of_byte (insn_opcode w) = Some op)")
    case True
    with f decoded show thesis by blast
  next
    case False
    then show thesis using f m1
      by (intro early [of "snd (t32_step m)"]; cases "state m"; cases r)
        (auto simp: t32_step_def Let_def set_fault_def split: option.split)
  qed
qed

lemma step_memory_frame:
  assumes wf: "machine_wf m" and i: "i < memory_size m" "outside i (step_store m)"
  shows "memory (snd (t32_step m)) ! i = memory m ! i"
proof (cases m rule: t32_step_cases)
  case (decoded w m1 op)
  let ?m2 = "m1\<lparr>pc := pc m1 + 4, instruction_count := instruction_count m1 + 1\<rparr>"
  have m1: "machine_wf m1" "memory m1 = memory m" "registers m1 = registers m"
    "memory_size m1 = memory_size m"
    using machine_wf_fetch(3) [of "m\<lparr>state := STATE_RUNNING\<rparr>" "pc m"] wf
      fetch_memory(3-5) [of "m\<lparr>state := STATE_RUNNING\<rparr>" "pc m"] decoded(2) by simp_all
  have "memory (exec_machine (execute op (insn_rd w) (insn_ra w) (insn_rb w) ?m2)) ! i
      = memory m ! i"
    using execute_frame [of ?m2 i op "insn_ra w" "insn_rd w" "insn_rb w"] m1 i decoded(2,4)
      store_range_registers [of ?m2 m op "insn_ra w"]
    by (simp add: step_store_def)
  then show ?thesis unfolding t32_step_decoded [OF decoded] exec_machine_def
    by (auto split: sum.splits)
qed simp

section \<open>Assembled instructions\<close>

text \<open>The fields that an instruction has survive the encoding mask, and the instruction ignores
  the others.\<close>

lemma masked_fields:
  "insn_rd (w AND k) = unat ((drop_bit 20 w AND 0x0f) AND (drop_bit 20 k AND 0x0f))"
  "insn_ra (w AND k) = unat ((drop_bit 16 w AND 0x0f) AND (drop_bit 16 k AND 0x0f))"
  "insn_rb (w AND k) = unat ((drop_bit 12 w AND 0x0f) AND (drop_bit 12 k AND 0x0f))"
  "insn_opcode (w AND k) = insn_opcode w AND insn_opcode k"
  unfolding insn_rd_def insn_ra_def insn_rb_def insn_opcode_def nibble_mask
  by (rule arg_cong [of _ _ unat] bit_word_eqI; auto simp: bit_simps)+

lemma insn_opcode_mask [simp]: "insn_opcode (opcode_mask op) = 0xff"
  by (cases op) (simp_all add: insn_opcode_def)

lemma execute_masked:
  "execute op (insn_rd (w AND opcode_mask op)) (insn_ra (w AND opcode_mask op))
     (insn_rb (w AND opcode_mask op)) m
   = execute op (insn_rd w) (insn_ra w) (insn_rb w) m"
  by (cases op) (simp_all add: masked_fields insn_rd_def insn_ra_def insn_rb_def and.assoc)

text \<open>An instruction word without reserved bits, as an assembler emits it.\<close>

definition assembled :: "opcode \<Rightarrow> u32 \<Rightarrow> u32 \<Rightarrow> u32 \<Rightarrow> u32" where
  "assembled op rd ra rb = insn_word op rd ra rb AND opcode_mask op"

lemma assembled_opcode [simp]: "insn_opcode (assembled op rd ra rb) = opcode_byte op"
proof -
  have "(0xff :: u8) = - 1" by simp
  then have "w AND 0xff = w" for w :: u8 by (simp only: and.right_neutral)
  then show ?thesis by (simp add: assembled_def masked_fields insn_word_fields)
qed

lemma assembled_good [simp]: "\<not> bad_encoding (opcode_byte op) (assembled op rd ra rb)"
  by (simp add: bad_encoding_def instruction_encoding_mask_def assembled_def and.assoc)

lemma execute_assembled:
  "execute op (insn_rd (assembled op rd ra rb)) (insn_ra (assembled op rd ra rb))
     (insn_rb (assembled op rd ra rb)) m
   = execute op (unat (rd AND 15)) (unat (ra AND 15)) (unat (rb AND 15)) m"
  using execute_masked [of op "insn_word op rd ra rb" m]
  by (simp add: assembled_def insn_word_fields)

text \<open>The state in which an instruction executes.\<close>

definition fetched :: "t32_machine \<Rightarrow> t32_machine" where
  "fetched m = m\<lparr>state := STATE_RUNNING, pc := pc m + 4,
     instruction_count := instruction_count m + 1\<rparr>"

lemma fetch_ram_word:
  assumes "ram_access m (pc m) 4" "slice (unat (pc m)) 4 (memory m) = le32 w"
  shows "fetch_u32 (m\<lparr>state := STATE_RUNNING\<rparr>) (pc m) = (Some w, m\<lparr>state := STATE_RUNNING\<rparr>)"
  using assms fetch_u32_ram [of "m\<lparr>state := STATE_RUNNING\<rparr>" "pc m"] by (simp add: ram_access_def)

lemma step_assembled:
  assumes "state m = STATE_STOPPED" "ram_access m (pc m) 4"
    and "slice (unat (pc m)) 4 (memory m) = le32 (assembled op rd ra rb)"
  shows "t32_step m =
    (case execute op (unat (rd AND 15)) (unat (ra AND 15)) (unat (rb AND 15)) (fetched m) of
      Inl p \<Rightarrow> p | Inr m3 \<Rightarrow> (STEP_OK, m3\<lparr>state := STATE_STOPPED\<rparr>))"
  using t32_step_decoded [of m "assembled op rd ra rb" "m\<lparr>state := STATE_RUNNING\<rparr>" op]
    fetch_ram_word [OF assms(2,3)] assms(1)
  by (simp add: execute_assembled fetched_def)

text \<open>A word with a reserved bit or an unknown opcode stops the machine before it does anything
  but count.\<close>

lemma step_rejects:
  assumes "state m = STATE_STOPPED" "ram_access m (pc m) 4"
    and "slice (unat (pc m)) 4 (memory m) = le32 w"
    and "opcode_of_byte (insn_opcode w) = None \<or> bad_encoding (insn_opcode w) w"
  shows "\<exists>why. t32_step m = (STEP_FAULT, set_fault (fetched m) why)"
  using fetch_ram_word [OF assms(2,3)] assms(1,4)
  by (auto simp: t32_step_def Let_def fetched_def)

section \<open>The stack\<close>

text \<open>The next stack slot is in RAM.\<close>

definition stack_room :: "t32_machine \<Rightarrow> bool" where
  "stack_room m \<longleftrightarrow> 4 \<le> registers m ! T32_STACK_POINTER
     \<and> ram_access m (registers m ! T32_STACK_POINTER - 4) 4"

lemma stack_push_room:
  assumes "machine_wf m" "stack_room m"
  shows "stack_push m v = (True, set_reg T32_STACK_POINTER (registers m ! T32_STACK_POINTER - 4)
     (m\<lparr>memory := patch (unat (registers m ! T32_STACK_POINTER - 4)) (le32 v) (memory m)\<rparr>))"
  using assms store_u32_ram [of m "registers m ! T32_STACK_POINTER - 4" v]
  by (simp add: stack_push_def stack_room_def Let_def not_less)

lemma stack_pop_ram:
  assumes "ram_access m (registers m ! T32_STACK_POINTER) 4"
  shows "stack_pop dest m =
    (True, set_reg T32_STACK_POINTER (registers m ! T32_STACK_POINTER + 4)
      (dest (of_le32 (slice (unat (registers m ! T32_STACK_POINTER)) 4 (memory m))) m))"
proof -
  let ?sp = "registers m ! T32_STACK_POINTER"
  have "\<not> ?sp > 0xFFFFFFFF - 4"
    using assms by (simp add: ram_access_def word_less_nat_alt)
  then show ?thesis using fetch_u32_ram [OF assms] by (simp add: stack_pop_def Let_def)
qed

text \<open>A pop after a push, with anything in between that keeps the slot and the pointer, brings
  the value back.\<close>

lemma pop_after_push:
  assumes wf: "machine_wf m" and room: "stack_room m" and push: "stack_push m v = (True, m1)"
    and regs: "registers m2 ! T32_STACK_POINTER = registers m1 ! T32_STACK_POINTER"
    and size: "memory_size m2 = memory_size m1"
    and slot: "slice (unat (registers m1 ! T32_STACK_POINTER)) 4 (memory m2)
      = slice (unat (registers m1 ! T32_STACK_POINTER)) 4 (memory m1)"
  shows "stack_pop dest m2 =
    (True, set_reg T32_STACK_POINTER (registers m ! T32_STACK_POINTER) (dest v m2))"
proof -
  let ?sp = "registers m ! T32_STACK_POINTER - 4"
  have m1: "m1 = set_reg T32_STACK_POINTER ?sp (m\<lparr>memory := patch (unat ?sp) (le32 v) (memory m)\<rparr>)"
    using push stack_push_room [OF wf room, of v] by simp
  have len: "length (registers m) = 16" "unat ?sp + 4 \<le> length (memory m)"
    using wf room by (simp_all add: machine_wf_def stack_room_def ram_access_def)
  have "slice (unat ?sp) 4 (patch (unat ?sp) (le32 v) (memory m)) = le32 v"
    using slice_patch [of "unat ?sp" "le32 v" "memory m"] len by simp
  moreover have "ram_access m2 ?sp 4"
    using room size by (simp add: m1 stack_room_def ram_access_def)
  ultimately show ?thesis
    using stack_pop_ram [of m2 dest] regs slot len by (simp add: m1)
qed

text \<open>\<open>PUSH ra\<close> and then \<open>POP rd\<close>: the register has the value, the pointer is back, and
  RAM differs in the slot only.\<close>

lemma push_pop:
  assumes "machine_wf m" "stack_room m" "rd \<noteq> T32_STACK_POINTER"
  shows "\<exists>m1. execute OP_PUSH d ra b m = Inr m1
    \<and> execute OP_POP rd a b m1 = Inr (set_reg rd (registers m ! ra) (m\<lparr>memory := memory m1\<rparr>))
    \<and> memory m1 = patch (unat (registers m ! T32_STACK_POINTER - 4))
        (le32 (registers m ! ra)) (memory m)"
proof -
  obtain m1 where p: "stack_push m (registers m ! ra) = (True, m1)"
    using stack_push_room [OF assms(1,2)] by simp
  have m1: "m1 = set_reg T32_STACK_POINTER (registers m ! T32_STACK_POINTER - 4)
     (m\<lparr>memory := patch (unat (registers m ! T32_STACK_POINTER - 4)) (le32 (registers m ! ra))
        (memory m)\<rparr>)"
    using p stack_push_room [OF assms(1,2), of "registers m ! ra"] by simp
  have wf16: "length (registers m) = 16" using assms(1) by (simp add: machine_wf_def)
  have "(registers m)[15 := x, rd := v, 15 := registers m ! 15] = (registers m)[rd := v]" for x v
    using assms(3) wf16
    by (intro nth_equalityI; cases "rd < 16") (auto simp: nth_list_update list_update_beyond)
  with wf16 show ?thesis
    using pop_after_push [OF assms(1,2) p, of m1 "set_reg rd"] assms(3)
    by (simp add: exec_PUSH_def exec_POP_def p) (simp add: m1)
qed

text \<open>\<open>CALL\<close> stacks the address of the next instruction; a \<open>RET\<close> that finds the stack
  pointer and the slot as the call left them continues there.\<close>

lemma exec_call:
  assumes wf: "machine_wf m" and room: "stack_room m" and ext: "ram_access m (pc m) 4"
    and target: "slice (unat (pc m)) 4 (memory m) = le32 target"
  shows "exec_CALL m = Inr (set_reg T32_STACK_POINTER (registers m ! T32_STACK_POINTER - 4)
     (m\<lparr>memory := patch (unat (registers m ! T32_STACK_POINTER - 4)) (le32 (pc m + 4)) (memory m),
        pc := target\<rparr>))"
proof -
  have "fetch_extension m s = (Some target, m\<lparr>pc := pc m + 4\<rparr>)" for s
    using fetch_u32_ram [OF ext] target by (simp add: fetch_extension_def)
  moreover have "stack_room (m\<lparr>pc := pc m + 4\<rparr>)"
    using room by (simp add: stack_room_def ram_access_def)
  ultimately show ?thesis
    using stack_push_room [of "m\<lparr>pc := pc m + 4\<rparr>" "pc m + 4"] wf
    by (simp add: exec_CALL_def with_extension_def)
qed

lemma call_return:
  assumes wf: "machine_wf m" and room: "stack_room m" and ext: "ram_access m (pc m) 4"
    and call: "exec_CALL m = Inr m1"
    and sp: "registers m2 ! T32_STACK_POINTER = registers m1 ! T32_STACK_POINTER"
    and size: "memory_size m2 = memory_size m1"
    and slot: "slice (unat (registers m1 ! T32_STACK_POINTER)) 4 (memory m2)
      = slice (unat (registers m1 ! T32_STACK_POINTER)) 4 (memory m1)"
  shows "exec_RET m2 = Inr (set_reg T32_STACK_POINTER (registers m ! T32_STACK_POINTER)
    (m2\<lparr>pc := pc m + 4\<rparr>))"
proof -
  let ?p = "m\<lparr>pc := pc m + 4\<rparr>"
  obtain target where t: "slice (unat (pc m)) 4 (memory m) = le32 target"
    using le32_of_le32 [of "slice (unat (pc m)) 4 (memory m)"] ext wf
    by (metis (no_types, lifting) length_slice machine_wf_def ram_access_def)
  have fe: "fetch_extension m s = (Some target, ?p)" for s
    using fetch_u32_ram [OF ext] t by (simp add: fetch_extension_def)
  have p: "machine_wf ?p" "stack_room ?p"
    using wf room by (simp_all add: stack_room_def ram_access_def)
  obtain m1' where push: "stack_push ?p (pc m + 4) = (True, m1')"
    using stack_push_room [OF p, of "pc m + 4"] by simp
  then have "m1 = m1'\<lparr>pc := target\<rparr>"
    using call fe by (simp add: exec_CALL_def with_extension_def)
  then show ?thesis
    using pop_after_push [OF p push, of m2 "\<lambda>v m. m\<lparr>pc := v\<rparr>"] sp size slot
    by (simp add: exec_RET_def)
qed

section \<open>Runs\<close>

text \<open>At most \<open>n\<close> steps; the limit is noted when none of them stopped the machine.\<close>

fun run_steps :: "nat \<Rightarrow> t32_machine \<Rightarrow> t32_step_result \<times> t32_machine" where
  "run_steps 0 m = (STEP_OK, m\<lparr>state := STATE_STOPPED,
     halt_reason := snprintf 128 ''instruction limit reached''\<rparr>)"
| "run_steps (Suc n) m =
     (if fst (t32_step m) = STEP_OK then run_steps n (snd (t32_step m)) else t32_step m)"

lemma run_loop_steps:
  assumes "limit \<noteq> 0" "executed \<le> limit"
  shows "t32_run_loop limit executed m = Some (run_steps (unat limit - unat executed) m)"
  using assms(2)
proof (induction "unat limit - unat executed" arbitrary: executed m)
  case 0
  then have "executed = limit" by (simp add: word_le_nat_alt word_unat_eq_iff)
  with assms(1) show ?case by (subst t32_run_loop.simps) simp
next
  case (Suc n)
  then have less: "executed < limit" by (simp add: word_less_nat_alt)
  have "unat (executed + 1) = unat executed + 1"
    using less unsigned_less [of limit, where ?'a = nat]
    by (simp add: unat_word_ariths word_less_nat_alt)
  then have nn: "n = unat limit - unat (executed + 1)" "executed + 1 \<le> limit"
    using Suc.hyps(2) less by (simp_all add: word_le_nat_alt word_less_nat_alt)
  note IH = Suc.hyps(1) [OF nn]
  have nle: "\<not> limit \<le> executed" using less by simp
  have "t32_run_loop limit executed m = Some (run_steps (Suc n) m)"
    by (subst t32_run_loop.simps) (simp add: Let_def nle IH nn(1) [symmetric])
  then show ?case unfolding Suc.hyps(2) .
qed

end
