(* ===== verification/T32_Guest.thy ===== *)
theory T32_Guest
  imports T32_Bus
begin

text \<open>
  The devices as a guest program sees them, through accesses to their registers: the keyboard
  DATA port is the end of the keyboard queue, and the LBA, DATA and COMMAND windows of the disk
  controller move sectors between the medium and the buffer. \<open>disk_put\<close> and \<open>disk_get\<close> are
  the access sequences of a guest's sector driver.
\<close>

section \<open>Device registers on the bus\<close>

lemma keyboard_data_port:
  "fetch_u32 m 0x90002008 = (Some (fst (keyboard_pop m)), snd (keyboard_pop m))"
proof -
  have "video_range_valid 0x90002008 4 = None" "disk_range_valid 0x90002008 4 = None"
    "keyboard_range_valid 0x90002008 4 = Some 8"
    by (simp_all add: range_valid_defs Let_def)
  then show ?thesis
    by (simp add: fetch_u32_le t32_read_memory_def keyboard_read_def case_prod_beta codec_eq)
qed

lemma disk_windows:
  "video_range_valid 0x90001008 4 = None" "disk_range_valid 0x90001008 4 = Some 8"
  "video_range_valid 0x9000100c 4 = None" "disk_range_valid 0x9000100c 4 = Some 12"
  "video_range_valid 0x90001010 4 = None" "disk_range_valid 0x90001010 4 = Some 16"
  "video_range_valid 0x90001100 512 = None" "disk_range_valid 0x90001100 512 = Some 256"
  by (simp_all add: range_valid_defs Let_def)

lemma disk_lba_port:
  "store_u32 m 0x9000100c n = (True, m\<lparr>disk_lba := n, disk_error := T32_DISK_ERROR_NONE\<rparr>)"
  by (simp add: store_u32_le t32_write_memory_def disk_mmio_write_def codec_eq disk_windows)

lemma disk_command_port: "store_u32 m 0x90001008 c = disk_execute m c"
  by (simp add: store_u32_le t32_write_memory_def disk_mmio_write_def codec_eq disk_windows)

lemma disk_error_port: "fetch_u32 m 0x90001010 = (Some (disk_error m), m)"
  by (simp add: fetch_u32_le t32_read_memory_def disk_mmio_read_def disk_register_def codec_eq
      disk_windows)

lemma disk_data_write:
  "length bs = 512 \<Longrightarrow> t32_write_memory m 0x90001100 bs
     = (True, m\<lparr>disk_buffer := patch 0 bs (disk_buffer m)\<rparr>)"
  by (simp add: t32_write_memory_def disk_mmio_write_def disk_windows)

lemma disk_data_read: "t32_read_memory m 0x90001100 512 = (Some (slice 0 512 (disk_buffer m)), m)"
  by (simp add: t32_read_memory_def disk_mmio_read_def disk_windows)

section \<open>Typing\<close>

text \<open>The host pushes characters; the guest reads the DATA port \<open>n\<close> times.\<close>

definition data_port_reads :: "nat \<Rightarrow> t32_machine \<Rightarrow> u32 option list \<times> t32_machine" where
  "data_port_reads = pop_all (\<lambda>m. fetch_u32 m 0x90002008)"

lemma pop_all_map:
  "pop_all (\<lambda>q. (g (fst (p q)), snd (p q))) n q = (map g (fst (pop_all p n q)), snd (pop_all p n q))"
  by (induction n arbitrary: q) (simp_all add: case_prod_beta)

lemma data_port_reads_eq:
  "data_port_reads n m = (map Some (fst (pop_all keyboard_pop n m)), snd (pop_all keyboard_pop n m))"
  unfolding data_port_reads_def keyboard_data_port by (rule pop_all_map)

lemma typed_text:
  assumes "keyboard_ok m" "length (keyboard_contents m) + length cs \<le> 64"
  shows "fst (push_all t32_keyboard_push cs m) = replicate (length cs) True"
    and "fst (data_port_reads (length (keyboard_contents m) + length cs)
           (snd (push_all t32_keyboard_push cs m)))
         = map (\<lambda>c. Some (ucast c)) (keyboard_contents m @ cs)"
  using keyboard_fifo.push_all_fit [of m cs]
    keyboard_fifo.pop_all_contents [of "snd (push_all t32_keyboard_push cs m)"
      "length (keyboard_contents m) + length cs"] assms
  by (simp_all add: data_port_reads_eq del: length_keyboard_contents)

section \<open>The sector driver\<close>

definition disk_put :: "u32 \<Rightarrow> bytes \<Rightarrow> t32_machine \<Rightarrow> t32_machine" where
  "disk_put lba bs m =
     snd (store_u32 (snd (t32_write_memory (snd (store_u32 m 0x9000100c lba)) 0x90001100 bs))
       0x90001008 T32_DISK_COMMAND_WRITE)"

definition disk_get :: "u32 \<Rightarrow> t32_machine \<Rightarrow> bytes option \<times> t32_machine" where
  "disk_get lba m =
     t32_read_memory (snd (store_u32 (snd (store_u32 m 0x9000100c lba)) 0x90001008
       T32_DISK_COMMAND_READ)) 0x90001100 512"

abbreviation disk_fine :: "t32_machine \<Rightarrow> bool" where
  "disk_fine m \<equiv> fst (fetch_u32 m 0x90001010) = Some T32_DISK_ERROR_NONE"

lemma disk_put_eq:
  assumes "machine_wf m" "length bs = 512"
  shows "disk_put lba bs m = snd (disk_execute (m\<lparr>disk_lba := lba, disk_error := 0, disk_buffer := bs\<rparr>)
    T32_DISK_COMMAND_WRITE)"
proof -
  have "patch 0 bs (disk_buffer m) = bs"
    using assms by (simp add: patch_def machine_wf_defs)
  then show ?thesis
    using assms by (simp add: disk_put_def disk_lba_port disk_command_port disk_data_write)
qed

lemma machine_wf_loaded:
  "machine_wf m \<Longrightarrow> length bs = 512 \<Longrightarrow>
   machine_wf (m\<lparr>disk_lba := lba, disk_error := e, disk_buffer := bs\<rparr>)"
  by (simp add: machine_wf_defs)

lemma disk_put_effect:
  assumes wf: "machine_wf m" and bs: "length bs = 512" and ok: "disk_fine (disk_put lba bs m)"
  shows "machine_wf (disk_put lba bs m)"
    and "lba < disk_sector_count m"
    and "disk_bytes (disk_put lba bs m) = patch (unat lba * 512) bs (disk_bytes m)"
    and "disk_sector_count (disk_put lba bs m) = disk_sector_count m"
proof -
  let ?m = "m\<lparr>disk_lba := lba, disk_error := 0, disk_buffer := bs\<rparr>"
  have wf': "machine_wf ?m" using wf bs by (rule machine_wf_loaded)
  have put: "disk_put lba bs m = snd (disk_execute ?m 2)" using disk_put_eq [OF wf bs] by simp
  have e: "disk_error (snd (disk_execute ?m 2)) = 0" using ok by (simp add: put disk_error_port)
  obtain f where f: "disk_file ?m = Some f"
    using e by (cases "disk_file ?m") (simp_all add: disk_execute_no_media)
  have lba: "disk_lba ?m < disk_sector_count ?m"
    using e disk_execute_range [OF f, of 2] by (cases "disk_lba ?m < disk_sector_count ?m") auto
  obtain p where p: "disk_bytes (snd (disk_execute ?m 2))
      = patch (unat (disk_lba ?m) * 512) p (disk_bytes ?m)" "p = disk_buffer ?m"
    using disk_write_media [OF wf' f lba] e by metis
  have "disk_bytes ?m = disk_bytes m" by (simp add: disk_bytes_def)
  with p show "disk_bytes (disk_put lba bs m) = patch (unat lba * 512) bs (disk_bytes m)"
    by (simp add: put)
  show "lba < disk_sector_count m" using lba by simp
  show "machine_wf (disk_put lba bs m)" using machine_wf_disk_execute [OF wf'] by (simp add: put)
  show "disk_sector_count (disk_put lba bs m) = disk_sector_count m" by (simp add: put)
qed

lemma disk_get_effect:
  assumes wf: "machine_wf m" and ok: "disk_fine (snd (disk_get lba m))"
  shows "fst (disk_get lba m) = Some (disk_sector m (unat lba))"
    and "unat lba * 512 + 512 \<le> length (disk_bytes m)"
proof -
  let ?m = "m\<lparr>disk_lba := lba, disk_error := 0\<rparr>"
  let ?r = "snd (disk_execute ?m 1)"
  have get: "disk_get lba m = (Some (slice 0 512 (disk_buffer ?r)), ?r)"
    by (simp add: disk_get_def disk_lba_port disk_command_port disk_data_read)
  have e: "disk_error ?r = 0" using ok by (simp add: get disk_error_port)
  have wf': "machine_wf ?m" using wf by simp
  have "disk_bytes ?m = disk_bytes m" by (simp add: disk_bytes_def)
  then have "disk_buffer ?r = disk_sector m (unat lba)"
    using disk_read_sector(1) [OF wf'] e by (simp add: disk_sector_def)
  moreover have "length (disk_buffer ?r) = 512"
    using machine_wf_disk_execute [OF wf', of 1] by (simp add: machine_wf_defs)
  ultimately show "fst (disk_get lba m) = Some (disk_sector m (unat lba))"
    by (simp add: get slice_def)
  obtain f where f: "disk_file ?m = Some f"
    using e by (cases "disk_file ?m") (simp_all add: disk_execute_no_media)
  have "disk_lba ?m < disk_sector_count ?m"
    using e disk_execute_range [OF f, of 1] by (cases "disk_lba ?m < disk_sector_count ?m") auto
  from lba_in_media [OF wf' this] show "unat lba * 512 + 512 \<le> length (disk_bytes m)"
    by (simp add: disk_bytes_def)
qed

text \<open>What the driver wrote to a sector without an error, it reads back from there, and every
  other sector is as it was.\<close>

lemma disk_put_get:
  assumes wf: "machine_wf m" and bs: "length bs = 512" and put: "disk_fine (disk_put lba bs m)"
    and get: "disk_fine (snd (disk_get n (disk_put lba bs m)))"
  shows "fst (disk_get n (disk_put lba bs m)) = Some (if n = lba then bs else disk_sector m (unat n))"
proof -
  note p = disk_put_effect [OF wf bs put]
  have len: "unat lba * 512 + 512 \<le> length (disk_bytes m)"
    using lba_in_media [of "m\<lparr>disk_lba := lba\<rparr>"] wf p(2) by (simp add: disk_bytes_def)
  have "disk_sector (disk_put lba bs m) (unat n) = (if n = lba then bs else disk_sector m (unat n))"
  proof (cases "n = lba")
    case True
    then show ?thesis using slice_patch [of "unat lba * 512" bs "disk_bytes m"] len bs
      by (simp add: disk_sector_def p(3))
  next
    case False
    then have "unat n < unat lba \<or> unat lba < unat n" by (metis linorder_neqE_nat word_unat_eq_iff)
    then have "unat n * 512 + 512 \<le> unat lba * 512 \<or> unat lba * 512 + 512 \<le> unat n * 512" by linarith
    moreover have "unat n * 512 + 512 \<le> length (disk_bytes m)"
      using disk_get_effect(2) [OF p(1) get] len bs by (simp add: p(3))
    ultimately show ?thesis using False bs len
      by (simp add: disk_sector_def p(3) slice_patch_other)
  qed
  then show ?thesis using disk_get_effect(1) [OF p(1) get] by simp
qed

end
