(* ===== verification/T32_Vm.thy ===== *)
theory T32_Vm
  imports T32_Step T32_Guest
begin

text \<open>
  The properties of the virtual machine, each with a witness on a concrete machine. The calls of
  the library's interface form a state machine: \<open>vm_call\<close> relates the machine before and after
  any call of \<open>t32.h\<close> that changes it, \<open>vm_reachable\<close> holds of what a client can get from
  \<open>t32_create\<close> with them.
\<close>

section \<open>Reachable machines\<close>

inductive vm_call :: "t32_machine \<Rightarrow> t32_machine \<Rightarrow> bool" where
  call_reset: "vm_call m (t32_reset m)"
| call_attach: "vm_call m (snd (t32_disk_attach m opened))"
| call_detach: "vm_call m (t32_disk_detach m)"
| call_load: "vm_call m (snd (t32_load_file malloc_ok m (Some (open_file bs faults)) a))"
    if "length bs < 2 ^ 63"
| call_read: "vm_call m (snd (t32_read_memory m a n))"
| call_write: "vm_call m (snd (t32_write_memory m a bs))" if "length bs < 2 ^ 64"
| call_push: "vm_call m (snd (t32_keyboard_push m c))"
| call_clear_requests: "vm_call m (t32_clear_platform_requests m)"
| call_clear_dirty: "vm_call m (t32_video_clear_dirty m)"
| call_set_register: "vm_call m (snd (t32_set_register m r v))"
| call_set_pc: "vm_call m (t32_set_pc m a)"
| call_clear_halt: "vm_call m (t32_clear_halt m)"
| call_step: "vm_call m (snd (t32_step m))"

inductive_cases vm_callE: "vm_call m m'"


lemma load_file_cases:
  "t32_load_file malloc_ok m (Some (open_file bs faults)) a = (False, m) \<or>
   t32_load_file malloc_ok m (Some (open_file bs faults)) a = t32_write_memory m a bs"
proof -
  define f where "f = open_file bs faults"
  have f: "hf_bytes f = bs" by (simp add: f_def open_file_def)
  obtain ok1 f1 where 1: "fseek_end f = (ok1, f1)" by force
  obtain sz f2 where 2: "ftell f1 = (sz, f2)" by force
  obtain ok2 f3 where 3: "fseek_set f2 0 = (ok2, f3)" by force
  obtain buf f4 where 4: "fread f3 (nat sz) = (buf, f4)" by force
  have "buf = bs" if "ok1" "0 \<le> sz" "ok2" "length buf = nat sz"
  proof -
    have "sz = int (length bs)" "hf_bytes f3 = bs" "hf_pos f3 = 0"
      using ftell_value [of f1] fseek_end_pos [of f] fseek_end_bytes [of f] ftell_file [of f1]
        fseek_set_bytes [of f2 0] fseek_set_pos [of f2 0] 1 2 3 that f by simp_all
    then show ?thesis using fread_full [of f3 "length bs"] that 4
      by (cases "bs = []") (auto simp: slice_def)
  qed
  then show ?thesis using 1 2 3 4
    by (auto simp: t32_load_file_def f_def [symmetric])
qed



section \<open>Machines for the witnesses\<close>

text \<open>A new machine whose memory is the given bytes.\<close>

definition booted :: "bytes \<Rightarrow> t32_machine" where
  "booted prog = (t32_reset (zeroed_machine []))\<lparr>memory := prog, memory_size := length prog\<rparr>"

lemma booted_simps [simp]:
  "registers (booted prog) = replicate 16 0" "memory (booted prog) = prog"
  "memory_size (booted prog) = length prog" "pc (booted prog) = 0"
  "state (booted prog) = STATE_STOPPED" "instruction_count (booted prog) = 0"
  "keyboard_count (booted prog) = 0" "keyboard_contents (booted prog) = []"
  "flags (booted prog) = no_flags"
  by (simp_all add: booted_def t32_reset_def keyboard_contents_def)

lemma booted_wf [simp]: "machine_wf (booted prog)" "keyboard_ok (booted prog)"
  by (simp_all add: booted_def t32_reset_def zeroed_machine_def machine_wf_defs)

lemma booted_access [simp]:
  "ram_access (booted prog) a n \<longleftrightarrow> 0 < n \<and> unat a + n \<le> length prog \<and> unat a + n \<le> T32_VIDEO_BASE"
  by (auto simp: ram_access_def)

section \<open>Unlimited runs\<close>

lemma run_unlimited_stops:
  "t32_run_loop 0 n m = Some p \<Longrightarrow> fst p \<noteq> STEP_OK \<and> (\<exists>k. run_steps k m = p)"
proof -
  have "l = 0 \<longrightarrow> fst p \<noteq> STEP_OK \<and> (\<exists>k. run_steps k m = p)" if "t32_run_loop l n m = Some p" for l
  proof (rule t32_run_loop.raw_induct
      [where P = "\<lambda>l n m p. l = 0 \<longrightarrow> fst p \<noteq> STEP_OK \<and> (\<exists>k. run_steps k m = p)", OF _ that])
    fix f l n m p
    assume IH: "\<And>l n m p. f l n m = Some p \<Longrightarrow> l = 0 \<longrightarrow>
        fst p \<noteq> STEP_OK \<and> (\<exists>k. run_steps k m = p)"
      and eq: "(if l \<noteq> 0 \<and> n \<ge> l then
        Some (STEP_OK, m\<lparr>state := STATE_STOPPED,
                         halt_reason := snprintf 128 ''instruction limit reached''\<rparr>)
      else let result = t32_step m in
        if fst result \<noteq> STEP_OK then Some result
        else f l (n + 1) (snd result)) = Some p"
    show "l = 0 \<longrightarrow> fst p \<noteq> STEP_OK \<and> (\<exists>k. run_steps k m = p)"
    proof
      assume l: "l = 0"
      show "fst p \<noteq> STEP_OK \<and> (\<exists>k. run_steps k m = p)"
      proof (cases "fst (t32_step m) = STEP_OK")
        case True
        with eq l IH [of l "n + 1" "snd (t32_step m)" p]
        obtain k where "fst p \<noteq> STEP_OK" "run_steps k (snd (t32_step m)) = p"
          by (auto simp: Let_def)
        with True show ?thesis by (intro conjI exI [of _ "Suc k"]) simp_all
      next
        case False
        with eq l show ?thesis by (intro conjI exI [of _ "Suc 0"]) (simp_all add: Let_def)
      qed
    qed
  qed
  then show "t32_run_loop 0 n m = Some p \<Longrightarrow> fst p \<noteq> STEP_OK \<and> (\<exists>k. run_steps k m = p)" by simp
qed

lemma run_unlimited_complete:
  "run_steps k m = p \<Longrightarrow> fst p \<noteq> STEP_OK \<Longrightarrow> t32_run_loop 0 n m = Some p"
proof (induction k arbitrary: m n)
  case (Suc k)
  then show ?case by (subst t32_run_loop.simps) (auto simp: Let_def split: if_splits)
qed auto

section \<open>The properties\<close>



text \<open>C12: With a limit, \<open>t32_run\<close> returns, and what it returns is the machine after at most that many
  steps: the first step that does not answer OK ends the run with its result, and otherwise the
  machine is stopped with the limit as the reason.\<close>

theorem vm_run_limited:
  "limit \<noteq> 0 \<Longrightarrow> t32_run m limit = Some (run_steps (unat limit) m)"
  using run_loop_steps [of limit 0 m] by (simp add: t32_run_def)

lemma vm_run_limited_witness:
  "t32_run (booted (le32 (assembled OP_HALT 0 0 0))) 5
     = Some (run_steps 5 (booted (le32 (assembled OP_HALT 0 0 0))))"
  using vm_run_limited [of 5 "booted (le32 (assembled OP_HALT 0 0 0))"] by simp

text \<open>C13: Without a limit, \<open>t32_run\<close> returns \<open>p\<close> exactly when some number of steps ends in
  \<open>p\<close> with a halt or a fault; a program that never stops makes the call never return.\<close>

theorem vm_run_unlimited:
  "t32_run m 0 = Some p \<longleftrightarrow> fst p \<noteq> STEP_OK \<and> (\<exists>k. run_steps k m = p)"
  using run_unlimited_stops [of 0 m p] run_unlimited_complete [of _ m p 0]
  by (auto simp: t32_run_def)

text \<open>C16: The run state that a step leaves is the one its result announces: stopped after OK, halted
  after HALTED, error after FAULT. A machine that has halted or faulted stays as it is: another step
  changes nothing and gives the same answer.\<close>

theorem vm_step_state:
  "state (snd (t32_step m)) = result_state (fst (t32_step m))
   \<and> (fst (t32_step m) = STEP_OK \<or> t32_step (snd (t32_step m)) = t32_step m)"
proof -
  have "t32_step m' = (r, m')" if "state m' = result_state r" "r \<noteq> STEP_OK" for r m'
    using that by (cases r) (simp_all add: t32_step_def result_state_def)
  then show ?thesis using step_result_state [of m] by (cases "t32_step m") auto
qed

text \<open>C2: The thirteen register-to-register arithmetic instructions compute the value and the four
  flags of the integer reference: wrapped sums and products with carry and signed overflow as
  the true result demands, shifts as multiplication and floor division by powers of two with
  the last bit shifted out as carry, truncating division; and DIV and DIVU fault, with no register
  written, exactly when the quotient does not exist or does not fit.\<close>

theorem vm_arithmetic:
  "op \<in> set alu_opcodes \<Longrightarrow>
   agrees_alu rd m (alu_reference op (registers m ! ra) (registers m ! rb)) (execute op rd ra rb m)"
  by (rule execute_agrees)

lemma vm_arithmetic_witness:
  "agrees_alu 3 (set_reg 2 2 (set_reg 1 (- 7) (booted [])))
     (Some (- 3, \<lparr>carry = False, zero = False, negative = True, overflow = False\<rparr>))
     (execute OP_DIV 3 1 2 (set_reg 2 2 (set_reg 1 (- 7) (booted []))))"
proof -
  have "alu_reference OP_DIV (- 7) 2
    = Some (- 3, \<lparr>carry = False, zero = False, negative = True, overflow = False\<rparr>)"
    by (simp add: Let_def flags_after_def)
  then show ?thesis
    using vm_arithmetic [of OP_DIV 3 "set_reg 2 2 (set_reg 1 (- 7) (booted []))" 1 2] by simp
qed

text \<open>After \<open>CMP ra, rb\<close> the flags order the operands: zero for equality, carry clear for an
  unsigned less-than, negative different from overflow for a signed less-than. No other part of
  the machine changes.\<close>

theorem vm_compare:
  "\<exists>fl. execute OP_CMP rd ra rb m = Inr (m\<lparr>flags := fl\<rparr>)
     \<and> (zero fl \<longleftrightarrow> registers m ! ra = registers m ! rb)
     \<and> (\<not> carry fl \<longleftrightarrow> registers m ! ra < registers m ! rb)
     \<and> (negative fl \<noteq> overflow fl \<longleftrightarrow> sint (registers m ! ra) < sint (registers m ! rb))"
proof -
  define a b where "a = registers m ! ra" and "b = registers m ! rb"
  define fl where "fl = flags_after (a - b) (unat b \<le> unat a) (sint (a - b) \<noteq> sint a - sint b)"
  have "execute OP_CMP rd ra rb m = Inr (m\<lparr>flags := fl\<rparr>)"
    by (simp add: exec_CMP_def alu_sub_int a_def b_def fl_def)
  moreover have "zero fl \<longleftrightarrow> a = b" "\<not> carry fl \<longleftrightarrow> a < b"
    by (auto simp: fl_def flags_after_def word_less_nat_alt)
  ultimately show ?thesis using signed_less_flags [OF fl_def]
    unfolding a_def b_def by blast
qed

text \<open>C11: A step changes RAM only in the bytes that the instruction word at the program counter
  stores: one, two or four bytes at \<open>ra\<close> for STB, STH and STW, the four below the stack
  pointer for PUSH and CALL, and none for any other word, whatever the devices do.\<close>

theorem vm_step_frame:
  "machine_wf m \<Longrightarrow> i < memory_size m \<Longrightarrow> outside i (step_store m) \<Longrightarrow>
   memory (snd (t32_step m)) ! i = memory m ! i"
  by (rule step_memory_frame)

text \<open>\<open>NOP\<close> in memory, stepped.\<close>

lemma nop_store: "step_store (booted (le32 (assembled OP_NOP 0 0 0))) = (0, 0)"
proof -
  have "step_store (booted (le32 w)) = (0, 0)" if "opcode_of_byte (insn_opcode w) = Some OP_NOP" for w
    using fetch_ram_word [of "booted (le32 w)" w] that
    by (simp add: step_store_def slice_def)
  then show ?thesis by (simp only: assembled_opcode opcode_of_opcode_byte)
qed

lemma vm_step_frame_witness:
  "memory (snd (t32_step (booted (le32 (assembled OP_NOP 0 0 0))))) ! 2
     = memory (booted (le32 (assembled OP_NOP 0 0 0))) ! 2"
  by (rule vm_step_frame) (simp_all add: nop_store)

text \<open>C17: Decoding inverts assembling. When the word at the program counter is an opcode with its
  register fields and no reserved bit, a step executes that instruction on those registers, with
  the program counter past the word and the count increased.\<close>

theorem vm_decodes:
  "state m = STATE_STOPPED \<Longrightarrow> ram_access m (pc m) 4 \<Longrightarrow>
   slice (unat (pc m)) 4 (memory m) = le32 (assembled op rd ra rb) \<Longrightarrow>
   t32_step m =
    (case execute op (unat (rd AND 15)) (unat (ra AND 15)) (unat (rb AND 15)) (fetched m) of
      Inl p \<Rightarrow> p | Inr m3 \<Rightarrow> (STEP_OK, m3\<lparr>state := STATE_STOPPED\<rparr>))"
  by (rule step_assembled)

lemma vm_decodes_witness:
  "t32_step (booted (le32 (assembled OP_CPUID 5 0 0)))
     = (STEP_OK, (set_reg 5 T32_CPUID_VALUE (fetched (booted (le32 (assembled OP_CPUID 5 0 0)))))
         \<lparr>state := STATE_STOPPED\<rparr>)"
proof -
  have "unat ((5 :: u32) AND 15) = 5" by simp
  with vm_decodes [of "booted (le32 (assembled OP_CPUID 5 0 0))" OP_CPUID 5 0 0]
  show ?thesis by (simp add: exec_CPUID_def slice_def)
qed

text \<open>C18: A word with an unknown opcode, or with a bit set in a field that its opcode does not have,
  makes the step fault; nothing but the program counter, the instruction count and the run state
  with its reason changes.\<close>

theorem vm_rejects:
  "state m = STATE_STOPPED \<Longrightarrow> ram_access m (pc m) 4 \<Longrightarrow>
   slice (unat (pc m)) 4 (memory m) = le32 w \<Longrightarrow>
   opcode_of_byte (insn_opcode w) = None \<or> bad_encoding (insn_opcode w) w \<Longrightarrow>
   \<exists>why. t32_step m = (STEP_FAULT, set_fault (fetched m) why)"
  by (rule step_rejects)

text \<open>\<open>HALT\<close> with a stray low bit.\<close>

lemma vm_rejects_witness:
  "\<exists>why. t32_step (booted (le32 1)) = (STEP_FAULT, set_fault (fetched (booted (le32 1))) why)"
proof (rule vm_rejects)
  show "opcode_of_byte (insn_opcode 1) = None \<or> bad_encoding (insn_opcode 1) 1" by code_simp
qed (simp_all add: slice_def)

text \<open>C19: A return continues after its call. When \<open>CALL\<close> has executed and the code that it called
  ends with the stack pointer and the word there as the call left them, \<open>RET\<close> sets the program
  counter to the word after the call's target and the stack pointer to its old value, and
  changes no other register.\<close>

theorem vm_call_return:
  "machine_wf m \<Longrightarrow> stack_room m \<Longrightarrow> ram_access m (pc m) 4 \<Longrightarrow>
   execute OP_CALL d a b m = Inr m1 \<Longrightarrow>
   registers m2 ! T32_STACK_POINTER = registers m1 ! T32_STACK_POINTER \<Longrightarrow>
   memory_size m2 = memory_size m1 \<Longrightarrow>
   slice (unat (registers m1 ! T32_STACK_POINTER)) 4 (memory m2)
     = slice (unat (registers m1 ! T32_STACK_POINTER)) 4 (memory m1) \<Longrightarrow>
   execute OP_RET d' a' b' m2 = Inr (set_reg T32_STACK_POINTER (registers m ! T32_STACK_POINTER)
     (m2\<lparr>pc := pc m + 4\<rparr>))"
  unfolding execute.simps by (rule call_return)

text \<open>A machine about to take the target of a call to address 12, its stack pointer at 16.\<close>

definition calling :: t32_machine where
  "calling = set_reg T32_STACK_POINTER 16 (booted (le32 12 @ replicate 12 0))"

lemma calling_simps:
  "machine_wf calling" "stack_room calling" "ram_access calling (pc calling) 4" "pc calling = 0"
  "slice (unat (pc calling)) 4 (memory calling) = le32 12" "registers calling ! T32_STACK_POINTER = 16"
  unfolding calling_def machine_wf_set_reg
  by (simp_all add: stack_room_def ram_access_def slice_def)

lemma vm_call_return_witness:
  "\<exists>m1. execute OP_CALL 0 0 0 calling = Inr m1 \<and> pc m1 = 12
     \<and> (\<exists>m3. execute OP_RET 0 0 0 m1 = Inr m3 \<and> pc m3 = 4)"
proof -
  obtain m1 where c: "execute OP_CALL 0 0 0 calling = Inr m1" "pc m1 = 12"
    using exec_call [OF calling_simps(1,2,3,5)] by simp
  from vm_call_return [OF calling_simps(1,2,3) c(1) refl refl refl, of 0 0 0] c
  show ?thesis by (simp add: calling_simps)
qed

text \<open>\<open>POP\<close> undoes \<open>PUSH\<close>: the popped register, any but the stack pointer, has the pushed
  value, the stack pointer is back where it was, and of RAM only the four bytes below it have
  changed.\<close>

theorem vm_push_pop:
  "machine_wf m \<Longrightarrow> stack_room m \<Longrightarrow> rd \<noteq> T32_STACK_POINTER \<Longrightarrow>
   \<exists>m1. execute OP_PUSH d ra b m = Inr m1
    \<and> execute OP_POP rd a b m1 = Inr (set_reg rd (registers m ! ra) (m\<lparr>memory := memory m1\<rparr>))
    \<and> memory m1 = patch (unat (registers m ! T32_STACK_POINTER - 4))
        (le32 (registers m ! ra)) (memory m)"
  by (rule push_pop)

lemma vm_push_pop_witness:
  "\<exists>m1. execute OP_PUSH 0 15 0 calling = Inr m1
    \<and> execute OP_POP 1 0 0 m1 = Inr (set_reg 1 16 (calling\<lparr>memory := memory m1\<rparr>))"
  using vm_push_pop [OF calling_simps(1,2), of 1 0 15 0 0]
  by (auto simp: calling_simps)



text \<open>C14: The disk is an array of sectors, as far as the ERROR register says so. When the driver's
  write of a sector and its later read of a sector both leave no error, on any host with any
  faults, the read delivers the written bytes for the same sector and the medium's old bytes for
  every other one.\<close>

theorem vm_disk_sectors:
  "machine_wf m \<Longrightarrow> length bs = 512 \<Longrightarrow> disk_fine (disk_put lba bs m) \<Longrightarrow>
   disk_fine (snd (disk_get n (disk_put lba bs m))) \<Longrightarrow>
   fst (disk_get n (disk_put lba bs m)) = Some (if n = lba then bs else disk_sector m (unat n))"
  by (rule disk_put_get)

text \<open>A machine with a medium of one sector of zeroes.\<close>

definition with_medium :: t32_machine where
  "with_medium = (booted [])\<lparr>disk_file := Some (open_file (replicate 512 0) []),
     disk_sector_count := 1\<rparr>"

lemma with_medium_wf: "machine_wf with_medium"
  by (simp add: with_medium_def machine_wf_defs booted_def t32_reset_def zeroed_machine_def
      open_file_def)

lemma with_medium_put:
  "disk_fine (disk_put 0 (replicate 512 7) with_medium)"
  "disk_fine (snd (disk_get 0 (disk_put 0 (replicate 512 7) with_medium)))"
proof -
  let ?m = "with_medium\<lparr>disk_lba := 0, disk_error := 0, disk_buffer := replicate 512 7\<rparr>"
  define f where "f = open_file (replicate 512 (0::u8)) []"
  have f: "hf_faults f = []" "length (hf_bytes f) = 512" by (simp_all add: f_def open_file_def)
  have m: "disk_file ?m = Some f" "disk_lba ?m < disk_sector_count ?m"
    by (simp_all add: with_medium_def f_def)
  define m1 where "m1 = disk_put 0 (replicate 512 7) with_medium"
  note f0 = fault_free [OF f(1)]
  define g where "g = f\<lparr>hf_bytes := write_at 0 (replicate 512 7) (hf_bytes f), hf_pos := 512\<rparr>"
  have g: "hf_faults g = []" "length (hf_bytes g) = 512" by (simp_all add: g_def f length_write_at)
  have "m1 = ?m\<lparr>disk_file := Some g\<rparr>"
    unfolding m1_def disk_put_eq [OF with_medium_wf length_replicate] disk_execute_in_range [OF m]
    using fault_free [of "f\<lparr>hf_pos := 0\<rparr>"] fault_free [of g] g(1) f
    by (simp add: Let_def f0 g_def)
  then have m1: "disk_error m1 = 0" "disk_file m1 = Some g" "disk_lba m1 = 0" "disk_sector_count m1 = 1"
    by (simp_all add: with_medium_def)
  then show "disk_fine (disk_put 0 (replicate 512 7) with_medium)"
    unfolding m1_def by (simp add: disk_error_port)
  have r: "disk_file (m1\<lparr>disk_lba := 0, disk_error := 0\<rparr>) = Some g"
    "disk_lba (m1\<lparr>disk_lba := 0, disk_error := 0\<rparr>) < disk_sector_count (m1\<lparr>disk_lba := 0, disk_error := 0\<rparr>)"
    using m1 by simp_all
  have "disk_error (snd (disk_execute (m1\<lparr>disk_lba := 0, disk_error := 0\<rparr>) 1)) = 0"
    unfolding disk_execute_in_range [OF r]
    using fault_free(1) [OF g(1)] fault_free(4) [of "g\<lparr>hf_pos := 0\<rparr>"] g
    by (simp add: Let_def)
  then show "disk_fine (snd (disk_get 0 (disk_put 0 (replicate 512 7) with_medium)))"
    unfolding m1_def [symmetric]
    by (simp add: disk_get_def disk_lba_port disk_command_port disk_data_read disk_error_port)
qed

lemma vm_disk_sectors_witness:
  "fst (disk_get 0 (disk_put 0 (replicate 512 7) with_medium)) = Some (replicate 512 7)"
  using vm_disk_sectors [OF with_medium_wf length_replicate with_medium_put] by simp

text \<open>The device windows do not overlap, and each accepts exactly the accesses that lie inside
  it, for every 32-bit address and every length that a \<open>size_t\<close> holds: the end of the range is
  computed without wrapping past it.\<close>

theorem vm_windows:
  "0 < n \<Longrightarrow> n < 2 ^ 64 \<Longrightarrow>
   (video_range_valid a n \<noteq> None \<longleftrightarrow> 0x90000000 \<le> unat a \<and> unat a + n \<le> 0x900007D0)
   \<and> (disk_range_valid a n \<noteq> None \<longleftrightarrow> 0x90001000 \<le> unat a \<and> unat a + n \<le> 0x90001300)
   \<and> (keyboard_range_valid a n \<noteq> None \<longleftrightarrow> 0x90002000 \<le> unat a \<and> unat a + n \<le> 0x9000200C)
   \<and> (rtc_range_valid a n \<noteq> None \<longleftrightarrow> 0x90003000 \<le> unat a \<and> unat a + n \<le> 0x9000300C)
   \<and> (platform_range_valid a n \<noteq> None \<longleftrightarrow> 0x90004000 \<le> unat a \<and> unat a + n \<le> 0x90004010)
   \<and> length (filter (\<lambda>v. v a n \<noteq> None) [video_range_valid, disk_range_valid,
        keyboard_range_valid, rtc_range_valid, platform_range_valid]) \<le> 1"
proof -
  assume n: "0 < n" "n < 2 ^ 64"
  note w = video.range_in [OF n(2), of a] disk.range_in [OF n(2), of a]
    keyboard.range_in [OF n(2), of a] rtc.range_in [OF n(2), of a] platform.range_in [OF n(2), of a]
  show ?thesis unfolding list.map filter.simps w using n(1) by auto
qed

lemma vm_windows_witness:
  "video_range_valid 0x90000000 4 \<noteq> None \<and> disk_range_valid 0x90000000 4 = None"
  using vm_windows [of 4 "0x90000000"] by simp

text \<open>A file that \<open>t32_load_file\<close> reports as loaded into RAM is there, byte for byte, and the
  rest of RAM is as it was; when it reports a failure to place a file in RAM, nothing has
  changed.\<close>

theorem vm_load_file:
  "machine_wf m \<Longrightarrow> ram_access m a (length bs) \<Longrightarrow>
   t32_load_file malloc_ok m (Some (open_file bs faults)) a = (ok, m') \<Longrightarrow>
   m' = (if ok then m\<lparr>memory := patch (unat a) bs (memory m)\<rparr> else m)
   \<and> (ok \<longrightarrow> t32_read_memory m' a (length bs) = (Some bs, m'))"
proof -
  assume a: "machine_wf m" "ram_access m a (length bs)"
    "t32_load_file malloc_ok m (Some (open_file bs faults)) a = (ok, m')"
  let ?w = "m\<lparr>memory := patch (unat a) bs (memory m)\<rparr>"
  have "(ok, m') = (False, m) \<or> (ok, m') = t32_write_memory m a bs"
    using load_file_cases [of malloc_ok m bs faults a] a(3) by simp
  then have r: "(ok, m') = (False, m) \<or> (ok, m') = (True, ?w)"
    using write_ram [OF a(2)] by simp
  have "t32_read_memory ?w a (length bs) = (Some bs, ?w)"
    using read_ram [of ?w a "length bs"] a(1,2) slice_patch [of "unat a" bs "memory m"]
    by (simp add: ram_access_def machine_wf_def)
  with r show ?thesis by auto
qed

lemma vm_load_file_witness:
  "\<exists>m'. t32_load_file True (booted [0, 0, 0]) (Some (open_file [5, 6] [])) 1 = (True, m')
     \<and> memory m' = [0, 5, 6]"
proof -
  have "fst (t32_load_file True (booted [0, 0, 0]) (Some (open_file [5, 6] [])) 1)"
    by (simp add: t32_load_file_def open_file_def fault_free write_ram slice_def)
  then obtain m' where m': "t32_load_file True (booted [0, 0, 0]) (Some (open_file [5, 6] [])) 1 = (True, m')"
    by (metis prod.collapse)
  from vm_load_file [OF booted_wf(1) _ this] m' show ?thesis by (simp add: patch_def)
qed

end
