(* ===== verification/T32_Format.thy ===== *)
theory T32_Format
  imports T32_Prelude
begin

text \<open>
  What the tools use of \<open>printf\<close> beyond the prelude: decimal numbers, upper-case hexadecimal,
  field widths; and bounds-checked reads of a file image, whose \<open>Wild\<close> result is a read
  outside the buffer.
\<close>

section \<open>Conversions\<close>

definition dec_digit :: "nat \<Rightarrow> char" where
  "dec_digit n = ''0123456789'' ! (n mod 10)"

fun dec_string :: "nat \<Rightarrow> string" where
  "dec_string n = (if n < 10 then [dec_digit n] else dec_string (n div 10) @ [dec_digit n])"

declare dec_string.simps [simp del]

definition fmt_d :: "int \<Rightarrow> string" where
  "fmt_d i = (if i < 0 then ''-'' @ dec_string (nat (- i)) else dec_string (nat i))"

definition fmt_u :: "u32 \<Rightarrow> string" where
  "fmt_u v = dec_string (unat v)"

definition HEX_digit :: "nat \<Rightarrow> char" where
  "HEX_digit n = ''0123456789ABCDEF'' ! (n mod 16)"

fun HEX_pad :: "nat \<Rightarrow> nat \<Rightarrow> string" where
  "HEX_pad 0 n = []"
| "HEX_pad (Suc k) n = HEX_pad k (n div 16) @ [HEX_digit n]"

text \<open>\<open>%08X\<close>, and the widths \<open>%3u\<close> (right) and \<open>%-16s\<close> (left).\<close>

definition fmt_08X :: "u32 \<Rightarrow> string" where
  "fmt_08X v = HEX_pad 8 (unat v)"

definition pad_left :: "nat \<Rightarrow> string \<Rightarrow> string" where
  "pad_left n s = replicate (n - length s) (CHR '' '') @ s"

definition pad_right :: "nat \<Rightarrow> string \<Rightarrow> string" where
  "pad_right n s = s @ replicate (n - length s) (CHR '' '')"

text \<open>The characters that a byte string prints as.\<close>

definition chars :: "bytes \<Rightarrow> string" where
  "chars bs = map (\<lambda>b. char_of (unat b)) bs"

definition newline :: string where
  "newline = [CHR 0x0A]"

text \<open>The bytes of a character string.\<close>

definition char_bytes :: "string \<Rightarrow> bytes" where
  "char_bytes s = map (\<lambda>c. of_nat (of_char c)) s"

lemma chars_char_bytes [simp]: "chars (char_bytes s) = s"
  by (induction s) (simp_all add: chars_def char_bytes_def unat_of_nat take_bit_eq_mod)

lemma length_char_bytes [simp]: "length (char_bytes s) = length s"
  by (simp add: char_bytes_def)

section \<open>Checked reads\<close>

definition get8 :: "bytes \<Rightarrow> nat \<Rightarrow> u8 res" where
  "get8 data off = (if off < length data then Inr (data ! off) else Inl Wild)"

definition get_block :: "bytes \<Rightarrow> nat \<Rightarrow> nat \<Rightarrow> bytes res" where
  "get_block data off n = (if off + n \<le> length data then Inr (slice off n data) else Inl Wild)"

lemma get8_in [simp]: "off < length data \<Longrightarrow> get8 data off = Inr (data ! off)"
  by (simp add: get8_def)

lemma get_block_in [simp]: "off + n \<le> length data \<Longrightarrow> get_block data off n = Inr (slice off n data)"
  by (simp add: get_block_def)

text \<open>\<open>memchr(s, 0, n)\<close> on a buffer reads up to the first NUL or \<open>n\<close> bytes.\<close>

definition find_nul :: "bytes \<Rightarrow> nat \<Rightarrow> nat \<Rightarrow> bool res" where
  "find_nul data off n =
     (if 0 \<in> set (slice off n data) then Inr True
      else if off + n \<le> length data then Inr False
      else Inl Wild)"

lemma find_nul_in: "off + n \<le> length data \<Longrightarrow> find_nul data off n = Inr (0 \<in> set (slice off n data))"
  by (simp add: find_nul_def)

section \<open>Fields and tables\<close>

text \<open>The 32-bit and 16-bit field at an offset.\<close>

definition u32_at :: "bytes \<Rightarrow> nat \<Rightarrow> u32" where
  "u32_at data p = of_le32 (slice p 4 data)"

definition u16_at :: "bytes \<Rightarrow> nat \<Rightarrow> u16" where
  "u16_at data p = of_le16 (slice p 2 data)"

lemma slice_slice: "j + n \<le> k \<Longrightarrow> slice j n (slice p k data) = slice (p + j) n data"
  by (simp add: slice_def drop_take min_def add.commute)

lemma u32_at_field: "j + 4 \<le> k \<Longrightarrow> u32_at data (p + j) = u32_at (slice p k data) j"
  by (simp add: u32_at_def slice_slice)

lemma of_le32_exact [simp]: "of_le32 (le32 v) = v"
  using of_le32_le32 [of v "[]"] by simp

lemma u32_at_le32 [simp]: "u32_at (le32 v @ rest) 0 = v"
  by (simp add: u32_at_def slice_def)

lemma slice_cong_append: "slice (length xs) n (xs @ ys) = slice 0 n ys"
  by (simp add: slice_def)

text \<open>The offsets of consecutive blocks, and of consecutive NUL-terminated strings.\<close>

fun block_offsets :: "nat \<Rightarrow> 'a list list \<Rightarrow> nat list" where
  "block_offsets k [] = []"
| "block_offsets k (b # bs) = k # block_offsets (k + length b) bs"

lemma length_block_offsets [simp]: "length (block_offsets k bs) = length bs"
  by (induction bs arbitrary: k) auto

lemma block_at:
  "i < length bs \<Longrightarrow>
   slice (block_offsets (length pre) bs ! i) (length (bs ! i)) (pre @ concat bs @ post) = bs ! i
   \<and> block_offsets (length pre) bs ! i + length (bs ! i) \<le> length pre + length (concat bs)"
proof (induction bs arbitrary: i pre)
  case (Cons b bs)
  show ?case
  proof (cases i)
    case 0
    then show ?thesis using slice_middle [of pre b "concat bs @ post"] by simp
  next
    case (Suc j)
    with Cons.IH [of j "pre @ b"] Cons.prems show ?thesis by simp
  qed
qed simp

lemma block_offsets_width:
  "(\<And>b. b \<in> set bs \<Longrightarrow> length b = w) \<Longrightarrow> i < length bs \<Longrightarrow> block_offsets k bs ! i = k + i * w"
  by (induction bs arbitrary: k i) (auto simp: nth_Cons split: nat.split)

text \<open>A table of entries of one width.\<close>

lemma entry_at_slice:
  assumes "\<And>b. b \<in> set es \<Longrightarrow> length b = w" "i < length es"
  shows "slice (length pre + i * w) w (pre @ concat es @ post) = es ! i"
proof -
  have "length (es ! i) = w" using assms by simp
  then show ?thesis
    using block_at [OF assms(2), of pre post] block_offsets_width [of es w i "length pre"] assms
    by simp
qed

lemma length_concat_width: "(\<And>b. b \<in> set es \<Longrightarrow> length b = w) \<Longrightarrow> length (concat es) = length es * w"
  by (induction es) auto

definition c_string :: "bytes \<Rightarrow> bytes" where
  "c_string s = s @ [0]"

lemma length_c_string [simp]: "length (c_string s) = length s + 1"
  by (simp add: c_string_def)

lemma c_string_at:
  fixes pre post :: bytes
  assumes "i < length ss" "0 \<notin> set (ss ! i)"
  defines "off \<equiv> block_offsets (length pre) (map c_string ss) ! i"
  shows "cstring_at (pre @ concat (map c_string ss) @ post) off = ss ! i"
    and "off + length (ss ! i) + 1 \<le> length pre + length (concat (map c_string ss))"
    and "(pre @ concat (map c_string ss) @ post) ! (off + length (ss ! i)) = 0"
proof -
  let ?all = "pre @ concat (map c_string ss) @ post"
  have b: "slice off (length (ss ! i) + 1) ?all = c_string (ss ! i)"
    "off + length (ss ! i) + 1 \<le> length pre + length (concat (map c_string ss))"
    using block_at [of i "map c_string ss" pre post] assms by simp_all
  show "off + length (ss ! i) + 1 \<le> length pre + length (concat (map c_string ss))" by (rule b(2))
  have len: "off + (length (ss ! i) + 1) \<le> length ?all" using b(2) by simp
  have "?all ! (off + length (ss ! i)) = slice off (length (ss ! i) + 1) ?all ! length (ss ! i)"
    by (rule nth_slice [OF len, symmetric]) simp
  then show "?all ! (off + length (ss ! i)) = 0" unfolding b(1) by (simp add: c_string_def)
  have "drop off ?all = c_string (ss ! i) @ drop (length (ss ! i) + 1) (drop off ?all)"
    using b(1) by (metis append_take_drop_id slice_def)
  then have "cstring_at ?all off
      = takeWhile (\<lambda>b. b \<noteq> 0) (ss ! i @ 0 # drop (length (ss ! i) + 1) (drop off ?all))"
    by (simp only: cstring_at_def c_string_def append.assoc append_Cons append_Nil)
  also have "\<dots> = ss ! i" using assms(2) by (subst takeWhile_append2) auto
  finally show "cstring_at ?all off = ss ! i" .
qed

end
