(* ===== verification/T32_Object.thy ===== *)
theory T32_Object
  imports T32_Format T32_Host
begin

text \<open>
  The object-file inspector \<open>toolchain/t32-nm/src/t32-nm.c\<close>: the T32OBJ version 1 records,
  \<open>string_at\<close>, \<open>parse_object\<close> with every check in the order of the source, the printers, and
  the option parser. The file is its bytes; every read of it is checked, and a read outside it is
  the failure \<open>Wild\<close>. \<open>exit(1)\<close> after a message is the failure \<open>Die\<close>, with the message and
  the file name.
\<close>

section \<open>Constants and records\<close>

abbreviation (input) "T32OBJ_HEADER_SIZE \<equiv> 48 :: nat"
abbreviation (input) "T32OBJ_SECTION_SIZE \<equiv> 32 :: nat"
abbreviation (input) "T32OBJ_SYMBOL_SIZE \<equiv> 24 :: nat"
abbreviation (input) "T32OBJ_RELOC_SIZE \<equiv> 20 :: nat"
abbreviation (input) "T32OBJ_SECTION_NULL \<equiv> 0 :: u32"
abbreviation (input) "T32OBJ_SECTION_PROGBITS \<equiv> 1 :: u32"
abbreviation (input) "T32OBJ_SECTION_NOBITS \<equiv> 2 :: u32"
abbreviation (input) "T32OBJ_SHF_ALLOC \<equiv> 1 :: u32"
abbreviation (input) "T32OBJ_SHF_EXEC \<equiv> 2 :: u32"
abbreviation (input) "T32OBJ_SHF_WRITE \<equiv> 4 :: u32"
abbreviation (input) "T32OBJ_BIND_LOCAL \<equiv> 0 :: u8"
abbreviation (input) "T32OBJ_BIND_GLOBAL \<equiv> 1 :: u8"
abbreviation (input) "T32OBJ_SHN_UNDEF \<equiv> 0 :: u32"
abbreviation (input) "T32OBJ_SHN_ABS \<equiv> 0xffffffff :: u32"
abbreviation (input) "R_T32_ABS32 \<equiv> 1 :: u32"
abbreviation (input) "R_T32_TARGET32 \<equiv> 2 :: u32"
abbreviation (input) "R_T32_ADDR32 \<equiv> 3 :: u32"

record header_t =
  major :: u16
  minor :: u16
  h_flags :: u32
  section_count :: u32
  symbol_count :: u32
  relocation_count :: u32
  section_off :: u32
  symbol_off :: u32
  relocation_off :: u32
  string_off :: u32
  string_size :: u32

record section_t =
  s_name_off :: u32
  s_type :: u32
  s_flags :: u32
  s_alignment :: u32
  s_size :: u32
  s_data_off :: u32

record symbol_t =
  y_name_off :: u32
  y_section_index :: u32
  y_value :: u32
  y_size :: u32
  y_binding :: u8
  y_type :: u8

record relocation_t =
  r_section_index :: u32
  r_offset :: u32
  r_symbol_index :: u32
  r_type :: u32
  r_addend :: int

record object_t =
  o_data :: bytes
  o_header :: header_t
  o_sections :: "section_t list"
  o_symbols :: "symbol_t list"
  o_relocations :: "relocation_t list"

section \<open>Reading\<close>

definition rd16 :: "bytes \<Rightarrow> nat \<Rightarrow> u16 res" where
  "rd16 data p =
     rbind (get8 data p) (\<lambda>b0. rbind (get8 data (p + 1)) (\<lambda>b1.
       Inr (ucast b0 OR push_bit 8 (ucast b1))))"

definition rd32 :: "bytes \<Rightarrow> nat \<Rightarrow> u32 res" where
  "rd32 data p =
     rbind (get8 data p) (\<lambda>b0. rbind (get8 data (p + 1)) (\<lambda>b1.
     rbind (get8 data (p + 2)) (\<lambda>b2. rbind (get8 data (p + 3)) (\<lambda>b3.
       Inr (ucast b0 OR push_bit 8 (ucast b1) OR push_bit 16 (ucast b2)
         OR push_bit 24 (ucast b3))))))"

text \<open>\<open>off\<close> is 32 bits wide and \<open>amount\<close> a product of 32-bit values that the source computes
  in 64 bits, so the 64-bit sum cannot wrap.\<close>

definition range_ok :: "nat \<Rightarrow> u32 \<Rightarrow> nat \<Rightarrow> bool" where
  "range_ok size' off amount \<longleftrightarrow> unat off + amount \<le> size'"

text \<open>The offset of an entry: \<open>base + i * width\<close>, the product in 32 bits.\<close>

definition entry_at :: "u32 \<Rightarrow> nat \<Rightarrow> nat \<Rightarrow> nat" where
  "entry_at base i width = unat base + unat (of_nat i * of_nat width :: u32)"

definition string_at :: "object_t \<Rightarrow> u32 \<Rightarrow> bytes res" where
  "string_at ob off =
     (let h = o_header ob; start = unat (string_off h) + unat off;
          remaining = unat (string_size h - off)
      in if off \<ge> string_size h then Inl (Die ''string-table offset is outside the table'' [])
         else rbind (find_nul (o_data ob) start remaining) (\<lambda>found.
           if \<not> found then Inl (Die ''unterminated string-table entry'' [])
           else Inr (cstring_at (o_data ob) start)))"

text \<open>\<open>read_file\<close> on an open file; \<open>malloc_ok\<close> is the host's answer to the allocation.\<close>

definition nm_read_file :: "bool \<Rightarrow> string \<Rightarrow> host_file \<Rightarrow> bytes res" where
  "nm_read_file malloc_ok name f0 =
     (let bad = Inl (Die ''cannot determine file size'' (char_bytes name)) in
      case fseek_end f0 of (ok1, f1) \<Rightarrow> if \<not> ok1 then bad else
      case ftell f1 of (n, f2) \<Rightarrow> if n < 0 then bad else
      case fseek_set f2 0 of (ok2, f3) \<Rightarrow> if \<not> ok2 then bad
      else if \<not> malloc_ok then Inl (Die ''out of memory'' (char_bytes name))
      else if n = 0 then Inr []
      else case fread f3 (nat n) of (data, f4) \<Rightarrow>
        if length data \<noteq> nat n then Inl (Die ''cannot read file'' (char_bytes name))
        else Inr data)"

section \<open>Parsing\<close>

definition OBJ_MAGIC :: bytes where
  "OBJ_MAGIC = [0x54, 0x33, 0x32, 0x4F, 0x42, 0x4A, 0x00, 0x00]"

definition parse_header :: "bytes \<Rightarrow> bytes \<Rightarrow> header_t res" where
  "parse_header filename data =
     rbind (check (\<not> length data < T32OBJ_HEADER_SIZE)
       (Die ''file is smaller than T32OBJ header'' filename)) (\<lambda>_.
     rbind (get_block data 0 8) (\<lambda>magic.
     rbind (check (magic = OBJ_MAGIC) (Die ''invalid T32OBJ magic'' filename)) (\<lambda>_.
     rbind (rd16 data 8) (\<lambda>mj. rbind (rd16 data 10) (\<lambda>mn.
     rbind (rd32 data 12) (\<lambda>fl. rbind (rd32 data 16) (\<lambda>nsec. rbind (rd32 data 20) (\<lambda>nsym.
     rbind (rd32 data 24) (\<lambda>nrel. rbind (rd32 data 28) (\<lambda>osec. rbind (rd32 data 32) (\<lambda>osym.
     rbind (rd32 data 36) (\<lambda>orel. rbind (rd32 data 40) (\<lambda>ostr. rbind (rd32 data 44) (\<lambda>nstr.
       Inr \<lparr>major = mj, minor = mn, h_flags = fl, section_count = nsec, symbol_count = nsym,
            relocation_count = nrel, section_off = osec, symbol_off = osym, relocation_off = orel,
            string_off = ostr, string_size = nstr\<rparr>))))))))))))))"

definition check_header :: "bytes \<Rightarrow> bytes \<Rightarrow> header_t \<Rightarrow> failure + unit" where
  "check_header filename data h =
     rbind (check (major h = 1) (Die ''unsupported T32OBJ major version'' filename)) (\<lambda>_.
     rbind (check (h_flags h = 1) (Die ''unsupported T32OBJ flags'' filename)) (\<lambda>_.
     rbind (check (section_count h \<noteq> 0 \<and> symbol_count h \<noteq> 0)
       (Die ''missing null section or null symbol'' filename)) (\<lambda>_.
     rbind (check (range_ok (length data) (section_off h) (unat (section_count h) * T32OBJ_SECTION_SIZE))
       (Die ''section table extends beyond file'' filename)) (\<lambda>_.
     rbind (check (range_ok (length data) (symbol_off h) (unat (symbol_count h) * T32OBJ_SYMBOL_SIZE))
       (Die ''symbol table extends beyond file'' filename)) (\<lambda>_.
     rbind (check (range_ok (length data) (relocation_off h)
         (unat (relocation_count h) * T32OBJ_RELOC_SIZE))
       (Die ''relocation table extends beyond file'' filename)) (\<lambda>_.
     check (range_ok (length data) (string_off h) (unat (string_size h)))
       (Die ''string table extends beyond file'' filename)))))))"

definition parse_section :: "bytes \<Rightarrow> object_t \<Rightarrow> nat \<Rightarrow> section_t res" where
  "parse_section filename ob i =
     (let data = o_data ob; h = o_header ob;
          p = entry_at (section_off h) i T32OBJ_SECTION_SIZE in
      rbind (rd32 data p) (\<lambda>nm. rbind (rd32 data (p + 4)) (\<lambda>ty. rbind (rd32 data (p + 8)) (\<lambda>fl.
      rbind (rd32 data (p + 12)) (\<lambda>al. rbind (rd32 data (p + 16)) (\<lambda>sz.
      rbind (rd32 data (p + 20)) (\<lambda>dof. rbind (rd32 data (p + 24)) (\<lambda>res0.
      rbind (rd32 data (p + 28)) (\<lambda>res1.
      rbind (check (res0 = 0 \<and> res1 = 0) (Die ''nonzero reserved section field'' filename)) (\<lambda>_.
      rbind (string_at ob nm) (\<lambda>_.
      let s = \<lparr>s_name_off = nm, s_type = ty, s_flags = fl, s_alignment = al, s_size = sz,
               s_data_off = dof\<rparr> in
      if i = 0 then
        rbind (check (nm = 0 \<and> ty = 0 \<and> fl = 0 \<and> al = 0 \<and> sz = 0 \<and> dof = 0)
          (Die ''section zero is not null'' filename)) (\<lambda>_. Inr s)
      else
        rbind (check (al \<noteq> 0 \<and> al AND (al - 1) = 0) (Die ''invalid section alignment'' filename)) (\<lambda>_.
        rbind (check (ty = T32OBJ_SECTION_PROGBITS \<or> ty = T32OBJ_SECTION_NOBITS)
          (Die ''unknown section type'' filename)) (\<lambda>_.
        rbind (check (ty = T32OBJ_SECTION_PROGBITS \<longrightarrow> range_ok (length data) dof (unat sz))
          (Die ''section data extends beyond file'' filename)) (\<lambda>_.
        rbind (check (ty = T32OBJ_SECTION_NOBITS \<longrightarrow> dof = 0)
          (Die ''NOBITS section has file data offset'' filename)) (\<lambda>_. Inr s)))))))))))))))"

definition parse_symbol :: "bytes \<Rightarrow> object_t \<Rightarrow> nat \<Rightarrow> symbol_t res" where
  "parse_symbol filename ob i =
     (let data = o_data ob; h = o_header ob;
          p = entry_at (symbol_off h) i T32OBJ_SYMBOL_SIZE in
      rbind (rd32 data p) (\<lambda>nm. rbind (rd32 data (p + 4)) (\<lambda>si. rbind (rd32 data (p + 8)) (\<lambda>v.
      rbind (rd32 data (p + 12)) (\<lambda>sz. rbind (get8 data (p + 16)) (\<lambda>bi.
      rbind (get8 data (p + 17)) (\<lambda>ty. rbind (rd16 data (p + 18)) (\<lambda>res0.
      rbind (rd32 data (p + 20)) (\<lambda>res1.
      rbind (check (res0 = 0 \<and> res1 = 0) (Die ''nonzero reserved symbol field'' filename)) (\<lambda>_.
      rbind (string_at ob nm) (\<lambda>_.
      rbind (check (\<not> bi > T32OBJ_BIND_GLOBAL) (Die ''unknown symbol binding'' filename)) (\<lambda>_.
      rbind (check (si = T32OBJ_SHN_UNDEF \<or> si = T32OBJ_SHN_ABS \<or> \<not> si \<ge> section_count h)
        (Die ''symbol section index is invalid'' filename)) (\<lambda>_.
      Inr \<lparr>y_name_off = nm, y_section_index = si, y_value = v, y_size = sz, y_binding = bi,
           y_type = ty\<rparr>)))))))))))))"

text \<open>The relocation loop indexes the sections that the first loop filled in; an index outside
  them would be \<open>Wild\<close>.\<close>

definition section_at :: "object_t \<Rightarrow> u32 \<Rightarrow> section_t res" where
  "section_at ob i =
     (if unat i < length (o_sections ob) then Inr (o_sections ob ! unat i) else Inl Wild)"

definition symbol_at :: "object_t \<Rightarrow> u32 \<Rightarrow> symbol_t res" where
  "symbol_at ob i =
     (if unat i < length (o_symbols ob) then Inr (o_symbols ob ! unat i) else Inl Wild)"

definition parse_relocation :: "bytes \<Rightarrow> object_t \<Rightarrow> nat \<Rightarrow> relocation_t res" where
  "parse_relocation filename ob i =
     (let data = o_data ob; h = o_header ob;
          p = entry_at (relocation_off h) i T32OBJ_RELOC_SIZE in
      rbind (rd32 data p) (\<lambda>sec. rbind (rd32 data (p + 4)) (\<lambda>off. rbind (rd32 data (p + 8)) (\<lambda>sym.
      rbind (rd32 data (p + 12)) (\<lambda>ty. rbind (rd32 data (p + 16)) (\<lambda>ad.
      rbind (check (sec \<noteq> 0 \<and> \<not> sec \<ge> section_count h)
        (Die ''relocation section index is invalid'' filename)) (\<lambda>_.
      rbind (check (\<not> sym \<ge> symbol_count h)
        (Die ''relocation symbol index is invalid'' filename)) (\<lambda>_.
      rbind (section_at ob sec) (\<lambda>s.
      rbind (check (\<not> (off > s_size s \<or> s_size s - off < 4))
        (Die ''relocation patch lies outside section'' filename)) (\<lambda>_.
      rbind (check (\<not> (ty < R_T32_ABS32 \<or> ty > R_T32_ADDR32))
        (Die ''unknown relocation type'' filename)) (\<lambda>_.
      Inr \<lparr>r_section_index = sec, r_offset = off, r_symbol_index = sym, r_type = ty,
           r_addend = sint ad\<rparr>)))))))))))"

definition parse_object :: "bool \<Rightarrow> bytes \<Rightarrow> bytes \<Rightarrow> object_t res" where
  "parse_object calloc_ok filename data =
     rbind (parse_header filename data) (\<lambda>h.
     rbind (check_header filename data h) (\<lambda>_.
     rbind (check calloc_ok (Die ''out of memory'' filename)) (\<lambda>_.
     rbind (if string_size h = 0 then Inr 1 else get8 data (unat (string_off h))) (\<lambda>first.
     rbind (check (string_size h \<noteq> 0 \<and> first = 0) (Die ''invalid string table'' filename)) (\<lambda>_.
     let o0 = \<lparr>o_data = data, o_header = h, o_sections = [], o_symbols = [], o_relocations = []\<rparr> in
     rbind (mapM_res (parse_section filename o0) [0..<unat (section_count h)]) (\<lambda>secs.
     let o1 = o0\<lparr>o_sections := secs\<rparr> in
     rbind (mapM_res (parse_symbol filename o1) [0..<unat (symbol_count h)]) (\<lambda>syms.
     let o2 = o1\<lparr>o_symbols := syms\<rparr> in
     rbind (mapM_res (parse_relocation filename o2) [0..<unat (relocation_count h)]) (\<lambda>rels.
     Inr (o2\<lparr>o_relocations := rels\<rparr>)))))))))"

section \<open>Printing\<close>

definition section_type_name :: "u32 \<Rightarrow> string" where
  "section_type_name ty =
     (if ty = T32OBJ_SECTION_PROGBITS then ''PROGBITS''
      else if ty = T32OBJ_SECTION_NOBITS then ''NOBITS'' else ''NULL'')"

definition section_flags :: "u32 \<Rightarrow> string" where
  "section_flags fl =
     [if fl AND T32OBJ_SHF_ALLOC \<noteq> 0 then CHR ''A'' else CHR ''-'',
      if fl AND T32OBJ_SHF_EXEC \<noteq> 0 then CHR ''X'' else CHR ''-'',
      if fl AND T32OBJ_SHF_WRITE \<noteq> 0 then CHR ''W'' else CHR ''-'']"

text \<open>A letter is a character code; \<open>c - 'A' + 'a'\<close> adds 32.\<close>

definition symbol_letter :: "object_t \<Rightarrow> symbol_t \<Rightarrow> char res" where
  "symbol_letter ob y =
     (if y_section_index y = T32OBJ_SHN_UNDEF then Inr (CHR ''U'')
      else
        rbind (if y_section_index y = T32OBJ_SHN_ABS then Inr (CHR ''A'')
               else if y_section_index y < section_count (o_header ob) then
                 rbind (section_at ob (y_section_index y)) (\<lambda>sec.
                   Inr (if s_type sec = T32OBJ_SECTION_NOBITS then CHR ''B''
                        else if s_flags sec AND T32OBJ_SHF_EXEC \<noteq> 0 then CHR ''T''
                        else if s_flags sec AND T32OBJ_SHF_WRITE \<noteq> 0 then CHR ''D''
                        else CHR ''R''))
               else Inr (CHR ''?'')) (\<lambda>c.
        Inr (if y_binding y = T32OBJ_BIND_LOCAL
                \<and> of_char (CHR ''A'') \<le> (of_char c :: nat) \<and> (of_char c :: nat) \<le> of_char (CHR ''Z'')
             then char_of (of_char c - of_char (CHR ''A'') + of_char (CHR ''a'') :: nat) else c)))"

definition reloc_name :: "u32 \<Rightarrow> string" where
  "reloc_name ty =
     (if ty = R_T32_ABS32 then ''R_T32_ABS32''
      else if ty = R_T32_TARGET32 then ''R_T32_TARGET32''
      else if ty = R_T32_ADDR32 then ''R_T32_ADDR32''
      else ''R_T32_UNKNOWN'')"

definition print_section :: "object_t \<Rightarrow> nat \<Rightarrow> string res" where
  "print_section ob i =
     rbind (section_at ob (of_nat i)) (\<lambda>s.
     rbind (string_at ob (s_name_off s)) (\<lambda>name.
     Inr (pad_left 3 (dec_string i) @ '' '' @ pad_right 16 (chars name) @ '' ''
       @ pad_right 9 (section_type_name (s_type s)) @ '' '' @ pad_right 5 (section_flags (s_flags s))
       @ '' '' @ pad_left 5 (fmt_u (s_alignment s)) @ '' 0x'' @ fmt_08X (s_size s)
       @ '' 0x'' @ fmt_08X (s_data_off s) @ newline)))"

definition print_sections :: "object_t \<Rightarrow> string res" where
  "print_sections ob =
     rbind (mapM_res (print_section ob) [0..<unat (section_count (o_header ob))]) (\<lambda>ls.
     Inr (''Sections'' @ newline @ ''--------'' @ newline
       @ ''Idx Name             Type      Flags Align       Size   FileOff'' @ newline @ concat ls))"

definition print_symbol :: "object_t \<Rightarrow> nat \<Rightarrow> string res" where
  "print_symbol ob i =
     rbind (symbol_at ob (of_nat i)) (\<lambda>y.
     rbind (string_at ob (y_name_off y)) (\<lambda>name.
     rbind (symbol_letter ob y) (\<lambda>letter.
     Inr (if letter = CHR ''U'' then ''         '' @ [letter] @ '' '' @ chars name @ newline
          else fmt_08X (y_value y) @ '' '' @ [letter] @ '' '' @ chars name @ newline))))"

definition print_symbols :: "object_t \<Rightarrow> string res" where
  "print_symbols ob =
     rbind (mapM_res (print_symbol ob) [1..<unat (symbol_count (o_header ob))]) (\<lambda>ls.
     Inr (''Symbols'' @ newline @ ''-------'' @ newline @ concat ls
       @ (if symbol_count (o_header ob) = 1 then ''(none)'' @ newline else [])))"

definition print_relocation :: "object_t \<Rightarrow> nat \<Rightarrow> string res" where
  "print_relocation ob i =
     rbind (if i < length (o_relocations ob) then Inr (o_relocations ob ! i) else Inl Wild) (\<lambda>r.
     rbind (section_at ob (r_section_index r)) (\<lambda>s.
     rbind (string_at ob (s_name_off s)) (\<lambda>sec.
     rbind (symbol_at ob (r_symbol_index r)) (\<lambda>y.
     rbind (string_at ob (y_name_off y)) (\<lambda>sym.
     Inr (pad_right 10 (chars sec) @ ''+0x'' @ fmt_08X (r_offset r) @ '' ''
       @ pad_right 16 (reloc_name (r_type r)) @ '' '' @ pad_right 20 (chars sym)
       @ '' addend='' @ fmt_d (r_addend r) @ newline))))))"

definition print_relocations :: "object_t \<Rightarrow> string res" where
  "print_relocations ob =
     rbind (mapM_res (print_relocation ob) [0..<unat (relocation_count (o_header ob))]) (\<lambda>ls.
     Inr (''Relocations'' @ newline @ ''-----------'' @ newline @ concat ls
       @ (if relocation_count (o_header ob) = 0 then ''(none)'' @ newline else [])))"

section \<open>Command line\<close>

record options_t =
  show_sections :: bool
  show_symbols :: bool
  show_relocations :: bool
  filename :: "string option"

text \<open>A call of \<open>exit\<close>: the code, what was written to standard output and to standard error.\<close>

datatype stop = Stop int string string

definition nm_usage :: string where
  "nm_usage = ''Usage: t32-nm [options] FILE.o'' @ newline @ newline
     @ ''Inspect a T32OBJ v1 relocatable object file.'' @ newline @ newline
     @ ''Options:'' @ newline
     @ ''  --sections       show section table only'' @ newline
     @ ''  --symbols        show symbol table only'' @ newline
     @ ''  --relocs         show relocation table only'' @ newline
     @ ''  -h, --help       show this help'' @ newline
     @ ''  --version        show version'' @ newline"

text \<open>\<open>die(NULL, message)\<close> after the usage text.\<close>

definition nm_die_usage :: "string \<Rightarrow> stop" where
  "nm_die_usage message = Stop 1 [] (nm_usage @ ''t32-nm: '' @ message @ newline)"

fun parse_args :: "string list \<Rightarrow> options_t \<Rightarrow> bool \<Rightarrow> stop + (options_t \<times> bool)" where
  "parse_args [] opt explicit_view = Inr (opt, explicit_view)"
| "parse_args (a # args) opt explicit_view =
     (if a = ''-h'' \<or> a = ''--help'' then Inl (Stop 0 nm_usage [])
      else if a = ''--version'' then Inl (Stop 0 (''t32-nm 0.0.1'' @ newline) [])
      else if a = ''--sections'' then parse_args args (opt\<lparr>show_sections := True\<rparr>) True
      else if a = ''--symbols'' then parse_args args (opt\<lparr>show_symbols := True\<rparr>) True
      else if a = ''--relocs'' then parse_args args (opt\<lparr>show_relocations := True\<rparr>) True
      else if a \<noteq> [] \<and> hd a = CHR ''-'' then Inl (nm_die_usage ''unknown option'')
      else if filename opt \<noteq> None
      then Inl (nm_die_usage ''exactly one object file is required'')
      else parse_args args (opt\<lparr>filename := Some a\<rparr>) explicit_view)"

definition parse_options :: "string list \<Rightarrow> stop + options_t" where
  "parse_options args =
     rbind (parse_args args \<lparr>show_sections = False, show_symbols = False,
         show_relocations = False, filename = None\<rparr> False) (\<lambda>(opt, explicit_view).
       if filename opt = None then Inl (nm_die_usage ''missing object file'')
       else if \<not> explicit_view then
         Inr (opt\<lparr>show_sections := True, show_symbols := True, show_relocations := True\<rparr>)
       else Inr opt)"

text \<open>\<open>die(file, message)\<close>; an empty argument stands for \<open>NULL\<close>, a file name is taken to be
  non-empty.\<close>

fun nm_die :: "string \<Rightarrow> failure \<Rightarrow> stop option" where
  "nm_die out (Die message arg) =
     Some (Stop 1 out (if arg = [] then ''t32-nm: '' @ message @ newline
       else ''t32-nm: '' @ chars arg @ '': '' @ message @ newline))"
| "nm_die out Wild = None"

text \<open>What \<open>main\<close> prints for an object that it could parse. Text printed before a failure
  is lost in this model, and the theorems show that there is no such failure.\<close>

definition nm_report :: "options_t \<Rightarrow> object_t \<Rightarrow> string res" where
  "nm_report opt ob =
     rbind (if show_sections opt then print_sections ob else Inr []) (\<lambda>s1.
     let first1 = \<not> show_sections opt in
     rbind (if show_symbols opt
            then rbind (print_symbols ob) (\<lambda>t. Inr ((if first1 then [] else newline) @ t))
            else Inr []) (\<lambda>s2.
     let first2 = (first1 \<and> \<not> show_symbols opt) in
     rbind (if show_relocations opt
            then rbind (print_relocations ob) (\<lambda>t. Inr ((if first2 then [] else newline) @ t))
            else Inr []) (\<lambda>s3.
     Inr (''T32OBJ '' @ dec_string (unat (major (o_header ob))) @ ''.''
       @ dec_string (unat (minor (o_header ob))) @ ''  '' @ the (filename opt) @ newline @ newline
       @ s1 @ s2 @ s3))))"

text \<open>\<open>main\<close>: \<open>opened\<close> is what \<open>fopen\<close> returned for the file name, with \<open>strerror(errno)\<close>
  when it failed. The result is the process's exit, or \<open>None\<close> for undefined behaviour.\<close>

definition nm_main ::
  "(string \<Rightarrow> string + host_file) \<Rightarrow> bool \<Rightarrow> bool \<Rightarrow> string list \<Rightarrow> stop option" where
  "nm_main fopen_rb malloc_ok calloc_ok args =
     (case parse_options args of
        Inl e \<Rightarrow> Some e
      | Inr opt \<Rightarrow>
        let name = the (filename opt) in
        case fopen_rb name of
          Inl err \<Rightarrow> Some (Stop 1 [] (''t32-nm: '' @ name @ '': '' @ err @ newline))
        | Inr f \<Rightarrow>
          (case rbind (nm_read_file malloc_ok name f) (parse_object calloc_ok (char_bytes name)) of
             Inl e \<Rightarrow> nm_die [] e
           | Inr ob \<Rightarrow>
             (case nm_report opt ob of Inl e \<Rightarrow> nm_die [] e | Inr out \<Rightarrow> Some (Stop 0 out []))))"

end
