(* ===== verification/T32_Object_Laws.thy ===== *)
theory T32_Object_Laws
  imports T32_Object
begin

text \<open>
  What \<open>t32-nm\<close> accepts. \<open>valid_object\<close> states the validity of a T32OBJ image on the bytes,
  without order of evaluation or failure; \<open>object_of\<close> is the object it stands for. The parser
  accepts exactly the valid images, returns that object, and reads no byte outside the image;
  the printers never fail on an accepted object.
\<close>

section \<open>Validity on the bytes\<close>

definition header_of :: "bytes \<Rightarrow> header_t" where
  "header_of data = \<lparr>major = u16_at data 8, minor = u16_at data 10, h_flags = u32_at data 12,
     section_count = u32_at data 16, symbol_count = u32_at data 20,
     relocation_count = u32_at data 24, section_off = u32_at data 28, symbol_off = u32_at data 32,
     relocation_off = u32_at data 36, string_off = u32_at data 40, string_size = u32_at data 44\<rparr>"

abbreviation table_in :: "bytes \<Rightarrow> u32 \<Rightarrow> u32 \<Rightarrow> nat \<Rightarrow> bool" where
  "table_in data off n width \<equiv> unat off + unat n * width \<le> length data"

definition header_ok :: "bytes \<Rightarrow> header_t \<Rightarrow> bool" where
  "header_ok data h \<longleftrightarrow>
     major h = 1 \<and> h_flags h = 1 \<and> section_count h \<noteq> 0 \<and> symbol_count h \<noteq> 0
     \<and> table_in data (section_off h) (section_count h) 32
     \<and> table_in data (symbol_off h) (symbol_count h) 24
     \<and> table_in data (relocation_off h) (relocation_count h) 20
     \<and> table_in data (string_off h) (string_size h) 1"

text \<open>A name: inside the string table, with its terminator there.\<close>

definition name_ok :: "bytes \<Rightarrow> header_t \<Rightarrow> u32 \<Rightarrow> bool" where
  "name_ok data h off \<longleftrightarrow> off < string_size h
     \<and> 0 \<in> set (slice (unat (string_off h) + unat off) (unat (string_size h - off)) data)"

definition name_of :: "bytes \<Rightarrow> header_t \<Rightarrow> u32 \<Rightarrow> bytes" where
  "name_of data h off = cstring_at data (unat (string_off h) + unat off)"

definition section_of :: "bytes \<Rightarrow> header_t \<Rightarrow> nat \<Rightarrow> section_t" where
  "section_of data h i =
     (let p = entry_at (section_off h) i 32 in
      \<lparr>s_name_off = u32_at data p, s_type = u32_at data (p + 4), s_flags = u32_at data (p + 8),
       s_alignment = u32_at data (p + 12), s_size = u32_at data (p + 16),
       s_data_off = u32_at data (p + 20)\<rparr>)"

definition section_ok :: "bytes \<Rightarrow> header_t \<Rightarrow> nat \<Rightarrow> bool" where
  "section_ok data h i \<longleftrightarrow>
     (let p = entry_at (section_off h) i 32; s = section_of data h i in
      u32_at data (p + 24) = 0 \<and> u32_at data (p + 28) = 0 \<and> name_ok data h (s_name_off s)
      \<and> (if i = 0 then s = \<lparr>s_name_off = 0, s_type = 0, s_flags = 0, s_alignment = 0, s_size = 0,
                            s_data_off = 0\<rparr>
         else s_alignment s \<noteq> 0 \<and> s_alignment s AND (s_alignment s - 1) = 0
           \<and> (s_type s = 1 \<and> unat (s_data_off s) + unat (s_size s) \<le> length data
              \<or> s_type s = 2 \<and> s_data_off s = 0)))"

definition symbol_of :: "bytes \<Rightarrow> header_t \<Rightarrow> nat \<Rightarrow> symbol_t" where
  "symbol_of data h i =
     (let p = entry_at (symbol_off h) i 24 in
      \<lparr>y_name_off = u32_at data p, y_section_index = u32_at data (p + 4),
       y_value = u32_at data (p + 8), y_size = u32_at data (p + 12),
       y_binding = data ! (p + 16), y_type = data ! (p + 17)\<rparr>)"

definition symbol_ok :: "bytes \<Rightarrow> header_t \<Rightarrow> nat \<Rightarrow> bool" where
  "symbol_ok data h i \<longleftrightarrow>
     (let p = entry_at (symbol_off h) i 24; y = symbol_of data h i in
      u16_at data (p + 18) = 0 \<and> u32_at data (p + 20) = 0 \<and> name_ok data h (y_name_off y)
      \<and> y_binding y \<le> 1
      \<and> (y_section_index y = 0xffffffff \<or> y_section_index y < section_count h))"

definition relocation_of :: "bytes \<Rightarrow> header_t \<Rightarrow> nat \<Rightarrow> relocation_t" where
  "relocation_of data h i =
     (let p = entry_at (relocation_off h) i 20 in
      \<lparr>r_section_index = u32_at data p, r_offset = u32_at data (p + 4),
       r_symbol_index = u32_at data (p + 8), r_type = u32_at data (p + 12),
       r_addend = sint (u32_at data (p + 16))\<rparr>)"

definition relocation_ok :: "bytes \<Rightarrow> header_t \<Rightarrow> nat \<Rightarrow> bool" where
  "relocation_ok data h i \<longleftrightarrow>
     (let r = relocation_of data h i in
      r_section_index r \<noteq> 0 \<and> r_section_index r < section_count h
      \<and> r_symbol_index r < symbol_count h
      \<and> unat (r_offset r) + 4 \<le> unat (s_size (section_of data h (unat (r_section_index r))))
      \<and> r_type r \<noteq> 0 \<and> r_type r \<le> 3)"

definition valid_object :: "bytes \<Rightarrow> bool" where
  "valid_object data \<longleftrightarrow>
     48 \<le> length data \<and> slice 0 8 data = OBJ_MAGIC
     \<and> (let h = header_of data in
        header_ok data h
        \<and> string_size h \<noteq> 0 \<and> data ! unat (string_off h) = 0
        \<and> (\<forall>i \<in> {0..<unat (section_count h)}. section_ok data h i)
        \<and> (\<forall>i \<in> {0..<unat (symbol_count h)}. symbol_ok data h i)
        \<and> (\<forall>i \<in> {0..<unat (relocation_count h)}. relocation_ok data h i))"

definition object_of :: "bytes \<Rightarrow> object_t" where
  "object_of data =
     (let h = header_of data in
      \<lparr>o_data = data, o_header = h,
       o_sections = map (section_of data h) [0..<unat (section_count h)],
       o_symbols = map (symbol_of data h) [0..<unat (symbol_count h)],
       o_relocations = map (relocation_of data h) [0..<unat (relocation_count h)]\<rparr>)"

section \<open>Reads\<close>

lemma rd32_eq: "rd32 data p = (if p + 4 \<le> length data then Inr (u32_at data p) else Inl Wild)"
  by (auto simp: rd32_def get8_def u32_at_def of_le32_def nth_slice)

lemma rd16_eq: "rd16 data p = (if p + 2 \<le> length data then Inr (u16_at data p) else Inl Wild)"
  by (auto simp: rd16_def get8_def u16_at_def of_le16_def nth_slice)

lemma entry_in:
  assumes "i < unat n" "table_in data base n w"
  shows "entry_at base i w + w \<le> length data"
proof -
  have "unat (of_nat i * of_nat w :: u32) \<le> i * w"
    by (metis of_nat_mult unat_of_nat mod_less_eq_dividend take_bit_eq_mod)
  moreover have "i * w + w \<le> unat n * w"
    using mult_le_mono1 [of "Suc i" "unat n" w] assms(1) by simp
  ultimately show ?thesis using assms(2) by (simp add: entry_at_def)
qed

lemma entry_plain:
  assumes "i < unat n" "table_in data base n w" "0 < w" "w < 2 ^ 32" "length data \<le> 2 ^ 32"
  shows "entry_at base i w = unat base + i * w"
proof -
  have "i * w + w \<le> unat n * w"
    using mult_le_mono1 [of "Suc i" "unat n" w] assms(1) by simp
  then have "i * w < 2 ^ 32" using assms(2,3,5) by linarith
  then have "unat (of_nat (i * w) :: u32) = i * w" by (rule unat_of_nat32)
  then show ?thesis by (simp add: entry_at_def)
qed

lemma string_at_eq:
  assumes "table_in data (string_off h) (string_size h) 1" "o_data ob = data" "o_header ob = h"
  shows "string_at ob off =
    (if string_size h \<le> off then Inl (Die ''string-table offset is outside the table'' [])
     else if name_ok data h off then Inr (name_of data h off)
     else Inl (Die ''unterminated string-table entry'' []))"
proof -
  have "unat (string_off h) + unat off + unat (string_size h - off) \<le> length data"
    if "\<not> string_size h \<le> off"
    using assms(1) that by (simp add: unat_sub word_le_nat_alt)
  then show ?thesis using assms(2,3)
    by (auto simp: string_at_def Let_def find_nul_in name_ok_def name_of_def)
qed

section \<open>The parser accepts exactly the valid images\<close>

lemma parse_header_eq:
  "parse_header fn data =
    (if length data < 48 then Inl (Die ''file is smaller than T32OBJ header'' fn)
     else if slice 0 8 data = OBJ_MAGIC then Inr (header_of data)
     else Inl (Die ''invalid T32OBJ magic'' fn))"
  by (simp add: parse_header_def check_def rd32_eq rd16_eq header_of_def)

lemma check_header_Inr: "check_header fn data h = Inr u \<longleftrightarrow> header_ok data h"
  by (auto simp: check_header_def rbind_check_Inr header_ok_def range_ok_def)

text \<open>An object under construction, whose tables and strings lie in the file.\<close>

definition loading :: "object_t \<Rightarrow> bool" where
  "loading ob \<longleftrightarrow> header_ok (o_data ob) (o_header ob)"

lemma loading_string:
  "loading ob \<Longrightarrow> string_at ob off =
    (if string_size (o_header ob) \<le> off
     then Inl (Die ''string-table offset is outside the table'' [])
     else if name_ok (o_data ob) (o_header ob) off then Inr (name_of (o_data ob) (o_header ob) off)
     else Inl (Die ''unterminated string-table entry'' []))"
  by (rule string_at_eq) (simp_all add: loading_def header_ok_def)

lemma loading_string_Inr:
  "loading ob \<Longrightarrow> string_at ob off = Inr s \<longleftrightarrow>
    name_ok (o_data ob) (o_header ob) off \<and> s = name_of (o_data ob) (o_header ob) off"
  by (auto simp: loading_string name_ok_def)

lemma loading_string_Wild: "loading ob \<Longrightarrow> string_at ob off \<noteq> Inl Wild"
  by (simp add: loading_string)

lemma loading_entries:
  assumes "loading ob"
  shows "i < unat (section_count (o_header ob)) \<Longrightarrow>
      entry_at (section_off (o_header ob)) i 32 + 32 \<le> length (o_data ob)"
    and "i < unat (symbol_count (o_header ob)) \<Longrightarrow>
      entry_at (symbol_off (o_header ob)) i 24 + 24 \<le> length (o_data ob)"
    and "i < unat (relocation_count (o_header ob)) \<Longrightarrow>
      entry_at (relocation_off (o_header ob)) i 20 + 20 \<le> length (o_data ob)"
  using assms by (auto simp: loading_def header_ok_def intro: entry_in)

lemma parse_section_Inr:
  assumes "loading ob" "i < unat (section_count (o_header ob))"
  shows "parse_section fn ob i = Inr s \<longleftrightarrow>
    section_ok (o_data ob) (o_header ob) i \<and> s = section_of (o_data ob) (o_header ob) i"
  using loading_entries(1) [OF assms]
  by (auto simp: parse_section_def Let_def rd32_eq rbind_check_Inr rbind_Inr loading_string_Inr [OF assms(1)]
      section_ok_def section_of_def range_ok_def)

lemma parse_section_Wild:
  assumes "loading ob" "i < unat (section_count (o_header ob))"
  shows "parse_section fn ob i \<noteq> Inl Wild"
  using loading_entries(1) [OF assms]
  by (auto simp: parse_section_def Let_def rd32_eq rbind_check_Inl rbind_Inl check_Inl
      loading_string_Wild [OF assms(1)])

lemma parse_symbol_Inr:
  assumes "loading ob" "i < unat (symbol_count (o_header ob))"
  shows "parse_symbol fn ob i = Inr s \<longleftrightarrow>
    symbol_ok (o_data ob) (o_header ob) i \<and> s = symbol_of (o_data ob) (o_header ob) i"
proof -
  have "section_count (o_header ob) \<noteq> 0" using assms(1) by (simp add: loading_def header_ok_def)
  then have "0 < section_count (o_header ob)" by (simp add: word_neq_0_conv)
  then show ?thesis using loading_entries(2) [OF assms]
    by (auto simp: parse_symbol_def Let_def rd32_eq rd16_eq get8_def rbind_check_Inr rbind_Inr
        loading_string_Inr [OF assms(1)] symbol_ok_def symbol_of_def not_less not_le)
qed

lemma parse_symbol_Wild:
  assumes "loading ob" "i < unat (symbol_count (o_header ob))"
  shows "parse_symbol fn ob i \<noteq> Inl Wild"
  using loading_entries(2) [OF assms]
  by (auto simp: parse_symbol_def Let_def rd32_eq rd16_eq get8_def rbind_check_Inl rbind_Inl check_Inl
      loading_string_Wild [OF assms(1)])

text \<open>The relocation loop runs when the sections are there.\<close>

definition sections_loaded :: "object_t \<Rightarrow> bool" where
  "sections_loaded ob \<longleftrightarrow> o_sections ob =
     map (section_of (o_data ob) (o_header ob)) [0..<unat (section_count (o_header ob))]"

lemma section_at_loaded:
  "sections_loaded ob \<Longrightarrow> section_at ob i =
    (if i < section_count (o_header ob)
     then Inr (section_of (o_data ob) (o_header ob) (unat i)) else Inl Wild)"
  by (simp add: section_at_def sections_loaded_def word_less_nat_alt)

lemma patch_inside: "\<not> (off > n \<or> n - off < 4) \<longleftrightarrow> unat off + 4 \<le> unat n" for off n :: u32
  by (auto simp: word_less_nat_alt unat_sub word_le_nat_alt)

lemma parse_relocation_Inr:
  assumes "loading ob" "sections_loaded ob" "i < unat (relocation_count (o_header ob))"
  shows "parse_relocation fn ob i = Inr s \<longleftrightarrow>
    relocation_ok (o_data ob) (o_header ob) i \<and> s = relocation_of (o_data ob) (o_header ob) i"
  using loading_entries(3) [OF assms(1,3)]
  unfolding parse_relocation_def patch_inside
  by (auto simp: Let_def rd32_eq rbind_check_Inr rbind_Inr
      section_at_loaded [OF assms(2)] relocation_ok_def relocation_of_def not_less not_le)

lemma parse_relocation_Wild:
  assumes "loading ob" "sections_loaded ob" "i < unat (relocation_count (o_header ob))"
  shows "parse_relocation fn ob i \<noteq> Inl Wild"
  using loading_entries(3) [OF assms(1,3)]
  by (auto simp: parse_relocation_def Let_def rd32_eq rbind_check_Inl rbind_Inl check_Inl
      section_at_loaded [OF assms(2)])

text \<open>A loop whose body decides \<open>P\<close> and then returns \<open>g\<close> collects \<open>g\<close> exactly when \<open>P\<close>
  holds throughout.\<close>

lemma mapM_res_decides:
  assumes "\<And>i y. i < n \<Longrightarrow> f i = Inr y \<longleftrightarrow> P i \<and> y = g i"
  shows "mapM_res f [0..<n] = Inr ys \<longleftrightarrow> (\<forall>i \<in> {0..<n}. P i) \<and> ys = map g [0..<n]"
  using assms by (auto simp: mapM_res_Inr intro!: nth_equalityI)

lemma mapM_res_Wild:
  assumes "\<And>i. i < n \<Longrightarrow> f i \<noteq> Inl e"
  shows "mapM_res f [k..<n] \<noteq> Inl e"
  using mapM_res_Inl [of f "[k..<n]" e] assms by auto

text \<open>The three stages of an accepted image.\<close>

definition stage :: "bytes \<Rightarrow> section_t list \<Rightarrow> symbol_t list \<Rightarrow> object_t" where
  "stage data secs syms = \<lparr>o_data = data, o_header = header_of data, o_sections = secs,
     o_symbols = syms, o_relocations = []\<rparr>"

lemma stage_simps [simp]:
  "o_data (stage d s y) = d" "o_header (stage d s y) = header_of d" "o_sections (stage d s y) = s"
  "o_symbols (stage d s y) = y" "loading (stage d s y) = header_ok d (header_of d)"
  by (simp_all add: stage_def loading_def)

text \<open>The parser, after its header: the rest of \<open>parse_object\<close> on stages.\<close>

lemma parse_object_stages:
  "parse_object calloc_ok fn data =
    rbind (parse_header fn data) (\<lambda>h.
    rbind (check_header fn data h) (\<lambda>_.
    rbind (check calloc_ok (Die ''out of memory'' fn)) (\<lambda>_.
    rbind (if string_size h = 0 then Inr 1 else get8 data (unat (string_off h))) (\<lambda>first.
    rbind (check (string_size h \<noteq> 0 \<and> first = 0) (Die ''invalid string table'' fn)) (\<lambda>_.
    rbind (mapM_res (parse_section fn (stage data [] [])) [0..<unat (section_count h)]) (\<lambda>secs.
    rbind (mapM_res (parse_symbol fn (stage data secs [])) [0..<unat (symbol_count h)]) (\<lambda>syms.
    rbind (mapM_res (parse_relocation fn (stage data secs syms)) [0..<unat (relocation_count h)]) (\<lambda>rels.
    Inr ((stage data secs syms)\<lparr>o_relocations := rels\<rparr>)))))))))"
proof (cases "parse_header fn data")
  case (Inr h)
  then have "h = header_of data" by (auto simp: parse_header_eq split: if_splits)
  with Inr show ?thesis by (simp add: parse_object_def Let_def stage_def)
qed (simp add: parse_object_def)

lemma first_string_byte:
  assumes "header_ok data h"
  shows "(if string_size h = 0 then Inr 1 else get8 data (unat (string_off h)))
    = Inr (if string_size h = 0 then 1 else data ! unat (string_off h))"
proof -
  have "unat (string_off h) < length data" if "string_size h \<noteq> 0"
  proof -
    have "unat (string_size h) \<noteq> 0" using that by (simp add: unsigned_eq_0_iff)
    with assms show ?thesis by (simp add: header_ok_def)
  qed
  then show ?thesis by auto
qed

lemma parse_object_Inr:
  "parse_object calloc_ok fn data = Inr ob \<longleftrightarrow> calloc_ok \<and> valid_object data \<and> ob = object_of data"
proof -
  define h where "h = header_of data"
  note [simp] = h_def [symmetric]
  define secs where "secs = map (section_of data h) [0..<unat (section_count h)]"
  define syms where "syms = map (symbol_of data h) [0..<unat (symbol_count h)]"
  have 1: "mapM_res (parse_section fn (stage data [] [])) [0..<unat (section_count h)] = Inr xs
      \<longleftrightarrow> (\<forall>i \<in> {0..<unat (section_count h)}. section_ok data h i) \<and> xs = secs"
    if "header_ok data h" for xs
    unfolding secs_def using that parse_section_Inr [of "stage data [] []" _ fn]
    by (intro mapM_res_decides) simp
  have 2: "mapM_res (parse_symbol fn (stage data secs [])) [0..<unat (symbol_count h)] = Inr xs
      \<longleftrightarrow> (\<forall>i \<in> {0..<unat (symbol_count h)}. symbol_ok data h i) \<and> xs = syms"
    if "header_ok data h" for xs
    unfolding syms_def using that parse_symbol_Inr [of "stage data secs []" _ fn]
    by (intro mapM_res_decides) simp
  have 3: "mapM_res (parse_relocation fn (stage data secs syms)) [0..<unat (relocation_count h)] = Inr xs
      \<longleftrightarrow> (\<forall>i \<in> {0..<unat (relocation_count h)}. relocation_ok data h i)
        \<and> xs = map (relocation_of data h) [0..<unat (relocation_count h)]"
    if "header_ok data h" for xs
    using that parse_relocation_Inr [of "stage data secs syms" _ fn]
    by (intro mapM_res_decides) (simp add: sections_loaded_def secs_def)
  have ob: "object_of data = (stage data secs syms)\<lparr>o_relocations :=
      map (relocation_of data h) [0..<unat (relocation_count h)]\<rparr>"
    by (simp add: object_of_def Let_def stage_def secs_def syms_def)
  show ?thesis
    unfolding parse_object_stages valid_object_def ob parse_header_eq
    by (cases "header_ok data h")
      (auto simp: Let_def rbind_check_Inr rbind_Inr check_header_Inr first_string_byte 1 2 3)
qed

lemma parse_object_Wild: "parse_object calloc_ok fn data \<noteq> Inl Wild"
proof
  assume w: "parse_object calloc_ok fn data = Inl Wild"
  define h where "h = header_of data"
  note [simp] = h_def [symmetric]
  have 0: "parse_header fn data \<noteq> Inl Wild" "check_header fn data h \<noteq> Inl Wild"
    by (auto simp: parse_header_eq check_header_def rbind_check_Inl check_Inl)
  have 1: "mapM_res (parse_section fn (stage data [] [])) [0..<unat (section_count h)] \<noteq> Inl Wild"
    if "header_ok data h"
    using that parse_section_Wild [of "stage data [] []" _ fn] by (intro mapM_res_Wild) simp
  have 2: "mapM_res (parse_symbol fn (stage data secs [])) [0..<unat (symbol_count h)] \<noteq> Inl Wild"
    if "header_ok data h" for secs
    using that parse_symbol_Wild [of "stage data secs []" _ fn] by (intro mapM_res_Wild) simp
  have 3: "mapM_res (parse_relocation fn (stage data secs syms)) [0..<unat (relocation_count h)]
      \<noteq> Inl Wild"
    if "header_ok data h"
      "mapM_res (parse_section fn (stage data [] [])) [0..<unat (section_count h)] = Inr secs"
    for secs syms
  proof -
    have "secs = map (section_of data h) [0..<unat (section_count h)]"
      using that parse_section_Inr [of "stage data [] []" _ fn]
      by (subst (asm) mapM_res_decides) auto
    then show ?thesis
      using that(1) parse_relocation_Wild [of "stage data secs syms" _ fn]
      by (intro mapM_res_Wild) (simp add: sections_loaded_def)
  qed
  show False using w 0
    unfolding parse_object_stages
    by (cases "header_ok data h")
      (auto simp: rbind_check_Inl rbind_Inl check_Inl check_header_Inr parse_header_eq first_string_byte
        1 2 3 split: if_splits)
qed

section \<open>Printing an accepted object\<close>

lemma object_of_simps [simp]:
  "o_data (object_of data) = data" "o_header (object_of data) = header_of data"
  "o_sections (object_of data) = map (section_of data (header_of data)) [0..<unat (section_count (header_of data))]"
  "o_symbols (object_of data) = map (symbol_of data (header_of data)) [0..<unat (symbol_count (header_of data))]"
  "o_relocations (object_of data) = map (relocation_of data (header_of data)) [0..<unat (relocation_count (header_of data))]"
  by (simp_all add: object_of_def Let_def)

lemma valid_loading: "valid_object data \<Longrightarrow> loading (object_of data)"
  by (simp add: valid_object_def loading_def Let_def)

lemma valid_sections:
  assumes "valid_object data" "i < section_count (header_of data)"
  shows "section_at (object_of data) i = Inr (section_of data (header_of data) (unat i))"
    and "name_ok data (header_of data) (s_name_off (section_of data (header_of data) (unat i)))"
  using assms
  by (simp_all add: section_at_def word_less_nat_alt valid_object_def Let_def section_ok_def)

lemma valid_symbols:
  assumes "valid_object data" "i < symbol_count (header_of data)"
  shows "symbol_at (object_of data) i = Inr (symbol_of data (header_of data) (unat i))"
    and "symbol_ok data (header_of data) (unat i)"
  using assms
  by (simp_all add: symbol_at_def word_less_nat_alt valid_object_def Let_def)

lemma valid_name:
  "valid_object data \<Longrightarrow> name_ok data (header_of data) off \<Longrightarrow>
   string_at (object_of data) off = Inr (name_of data (header_of data) off)"
  using loading_string_Inr [OF valid_loading, of data off] by simp

text \<open>The letter of a symbol, from its section index, its binding and its section.\<close>

definition letter_spec :: "section_t list \<Rightarrow> symbol_t \<Rightarrow> char" where
  "letter_spec secs y =
     (let local = (y_binding y = 0); i = y_section_index y in
      if i = 0 then CHR ''U''
      else if i = 0xffffffff then (if local then CHR ''a'' else CHR ''A'')
      else let s = secs ! unat i in
        if s_type s = 2 then (if local then CHR ''b'' else CHR ''B'')
        else if s_flags s AND 2 \<noteq> 0 then (if local then CHR ''t'' else CHR ''T'')
        else if s_flags s AND 4 \<noteq> 0 then (if local then CHR ''d'' else CHR ''D'')
        else (if local then CHR ''r'' else CHR ''R''))"

lemma lower_case:
  "c \<in> {CHR ''A'', CHR ''B'', CHR ''T'', CHR ''D'', CHR ''R''} \<Longrightarrow>
   of_char (CHR ''A'') \<le> (of_char c :: nat) \<and> (of_char c :: nat) \<le> of_char (CHR ''Z'')"
  "char_of (of_char (CHR ''A'') - of_char (CHR ''A'') + of_char (CHR ''a'') :: nat) = CHR ''a''"
  "char_of (of_char (CHR ''B'') - of_char (CHR ''A'') + of_char (CHR ''a'') :: nat) = CHR ''b''"
  "char_of (of_char (CHR ''T'') - of_char (CHR ''A'') + of_char (CHR ''a'') :: nat) = CHR ''t''"
  "char_of (of_char (CHR ''D'') - of_char (CHR ''A'') + of_char (CHR ''a'') :: nat) = CHR ''d''"
  "char_of (of_char (CHR ''R'') - of_char (CHR ''A'') + of_char (CHR ''a'') :: nat) = CHR ''r''"
  by (auto; code_simp)+

lemma symbol_letter_valid:
  assumes "valid_object data" "i < symbol_count (header_of data)"
  defines "y \<equiv> symbol_of data (header_of data) (unat i)"
  shows "symbol_letter (object_of data) y = Inr (letter_spec (o_sections (object_of data)) y)"
proof -
  have ok: "y_section_index y = 0xffffffff \<or> y_section_index y < section_count (header_of data)"
    using valid_symbols(2) [OF assms(1,2)] by (simp add: symbol_ok_def Let_def y_def)
  let ?i = "y_section_index y"
  have sec: "section_at (object_of data) ?i = Inr (o_sections (object_of data) ! unat ?i)"
    if "?i < section_count (header_of data)"
    using that by (simp add: section_at_def word_less_nat_alt)
  show ?thesis using ok sec lower_case
    unfolding symbol_letter_def letter_spec_def Let_def
    by (auto simp del: object_of_simps(3))
qed

lemma index_word:
  assumes "i < unat (n :: u32)"
  shows "unat (of_nat i :: u32) = i" "(of_nat i :: u32) < n"
proof -
  have "i < 2 ^ 32" using assms unat_u32_bound [of n] by linarith
  then show "unat (of_nat i :: u32) = i" by (rule unat_of_nat32)
  then show "(of_nat i :: u32) < n" using assms by (simp add: word_less_nat_alt)
qed

lemma mapM_res_total:
  "(\<And>i. i \<in> set xs \<Longrightarrow> \<exists>y. f i = Inr y) \<Longrightarrow> \<exists>ys. mapM_res f xs = Inr ys"
proof (induction xs)
  case (Cons x xs)
  then show ?case by (fastforce simp: rbind_Inr)
qed simp

lemma print_section_total:
  "valid_object data \<Longrightarrow> i < unat (section_count (header_of data)) \<Longrightarrow>
   \<exists>t. print_section (object_of data) i = Inr t"
  using valid_sections [of data "of_nat i"] index_word [of i "section_count (header_of data)"]
  by (simp add: print_section_def valid_name)

lemma print_symbol_valid:
  assumes v: "valid_object data" and i: "i < unat (symbol_count (header_of data))"
  defines "y \<equiv> symbol_of data (header_of data) i"
  defines "c \<equiv> letter_spec (o_sections (object_of data)) y"
  shows "print_symbol (object_of data) i = Inr
    ((if c = CHR ''U'' then ''         '' else fmt_08X (y_value y) @ '' '') @ [c] @ '' ''
      @ chars (name_of data (header_of data) (y_name_off y)) @ newline)"
proof -
  note w = index_word [OF i]
  have "symbol_at (object_of data) (of_nat i) = Inr y"
    "name_ok data (header_of data) (y_name_off y)"
    using valid_symbols [OF v w(2)] w(1) by (simp_all add: y_def symbol_ok_def Let_def)
  moreover have "symbol_letter (object_of data) y = Inr c"
    using symbol_letter_valid [OF v w(2)] w(1) by (simp add: y_def c_def)
  ultimately show ?thesis using valid_name [OF v]
    by (simp add: print_symbol_def del: object_of_simps)
qed

lemma print_relocation_total:
  assumes v: "valid_object data" and i: "i < unat (relocation_count (header_of data))"
  shows "\<exists>t. print_relocation (object_of data) i = Inr t"
proof -
  define r where "r = relocation_of data (header_of data) i"
  have "relocation_ok data (header_of data) i" using v i by (simp add: valid_object_def Let_def)
  then have r: "r_section_index r < section_count (header_of data)"
    "r_symbol_index r < symbol_count (header_of data)"
    by (simp_all add: relocation_ok_def Let_def r_def)
  have "name_ok data (header_of data)
      (y_name_off (symbol_of data (header_of data) (unat (r_symbol_index r))))"
    using valid_symbols(2) [OF v r(2)] by (simp add: symbol_ok_def Let_def)
  then show ?thesis
    using valid_sections [OF v r(1)] valid_symbols(1) [OF v r(2)] valid_name [OF v] i
    by (simp add: print_relocation_def r_def [symmetric])
qed

lemma nm_report_total: "valid_object data \<Longrightarrow> \<exists>out. nm_report opt (object_of data) = Inr out"
proof -
  assume v: "valid_object data"
  have "\<exists>t. print_sections (object_of data) = Inr t"
    using mapM_res_total [of "[0..<unat (section_count (header_of data))]" "print_section (object_of data)"]
      print_section_total [OF v] by (auto simp: print_sections_def)
  moreover have "\<exists>t. print_symbols (object_of data) = Inr t"
    using mapM_res_total [of "[1..<unat (symbol_count (header_of data))]" "print_symbol (object_of data)"]
      print_symbol_valid [OF v] by (auto simp: print_symbols_def)
  moreover have "\<exists>t. print_relocations (object_of data) = Inr t"
    using mapM_res_total [of "[0..<unat (relocation_count (header_of data))]" "print_relocation (object_of data)"]
      print_relocation_total [OF v] by (auto simp: print_relocations_def)
  ultimately show ?thesis by (auto simp: nm_report_def Let_def)
qed

section \<open>The file and the command line\<close>

lemma nm_read_file_bytes:
  assumes "nm_read_file malloc_ok name f = Inr data"
  shows "data = hf_bytes f"
proof -
  obtain ok1 f1 where 1: "fseek_end f = (ok1, f1)" by force
  obtain n f2 where 2: "ftell f1 = (n, f2)" by force
  obtain ok2 f3 where 3: "fseek_set f2 0 = (ok2, f3)" by force
  obtain buf f4 where 4: "fread f3 (nat n) = (buf, f4)" by force
  have ok: "ok1" "0 \<le> n" "ok2"
    using assms 1 2 3 by (auto simp: nm_read_file_def Let_def split: if_splits)
  have f: "n = int (length (hf_bytes f))" "hf_bytes f3 = hf_bytes f" "hf_pos f3 = 0"
    using ftell_value [of f1] fseek_end_pos [of f] fseek_end_bytes [of f] ftell_file [of f1]
      fseek_set_bytes [of f2 0] fseek_set_pos [of f2 0] 1 2 3 ok by simp_all
  show ?thesis
  proof (cases "n = 0")
    case True
    with assms 1 2 3 ok f show ?thesis by (auto simp: nm_read_file_def Let_def split: if_splits)
  next
    case False
    with assms 1 2 3 4 ok have "data = buf" "length buf = nat n"
      by (auto simp: nm_read_file_def Let_def split: if_splits)
    then show ?thesis using fread_full [of f3 "nat n"] 4 f False by (simp add: slice_def)
  qed
qed

lemma nm_read_file_Wild: "nm_read_file malloc_ok name f \<noteq> Inl Wild"
  by (auto simp: nm_read_file_def Let_def case_prod_beta)

lemma nm_main_defined: "nm_main fopen_rb malloc_ok calloc_ok args \<noteq> None"
proof -
  have die: "nm_die out e \<noteq> None" if "e \<noteq> Wild" for out e
    using that by (cases e) simp_all
  have "nm_main fopen_rb malloc_ok calloc_ok args \<noteq> None"
    if "parse_options args = Inr opt" "fopen_rb (the (filename opt)) = Inr f" for opt f
  proof (cases "rbind (nm_read_file malloc_ok (the (filename opt)) f)
      (parse_object calloc_ok (char_bytes (the (filename opt))))")
    case (Inl e)
    then have "e \<noteq> Wild"
      using nm_read_file_Wild parse_object_Wild by (auto simp: rbind_Inl)
    with that Inl die [of e] show ?thesis by (simp add: nm_main_def Let_def)
  next
    case (Inr ob)
    then obtain data where "valid_object data" "ob = object_of data"
      by (auto simp: rbind_Inr parse_object_Inr)
    with nm_report_total [of data opt] obtain out where "nm_report opt ob = Inr out" by auto
    with that Inr show ?thesis by (simp add: nm_main_def Let_def)
  qed
  then show ?thesis
    by (cases "parse_options args"; cases "fopen_rb (the (filename (projr (parse_options args))))")
      (auto simp: nm_main_def Let_def)
qed

end
