(* ===== verification/T32_Nm.thy ===== *)
theory T32_Nm
  imports T32_Object_Laws
begin

text \<open>
  The properties of \<open>t32-nm\<close>, with their witnesses on a small object file: a \<open>.text\<close> section
  of one word, a global symbol \<open>main\<close> in it, and a relocation of that word against \<open>main\<close>.
\<close>

section \<open>An object file\<close>

definition sample_header :: bytes where
  "sample_header = OBJ_MAGIC @ [1, 0, 0, 0] @ le32 1 @ le32 2 @ le32 2 @ le32 1 @ le32 48 @ le32 112
     @ le32 160 @ le32 180 @ le32 12"

definition sample_object :: bytes where
  "sample_object = sample_header
     @ le32 0 @ le32 0 @ le32 0 @ le32 0 @ le32 0 @ le32 0 @ le32 0 @ le32 0
     @ le32 1 @ le32 1 @ le32 3 @ le32 4 @ le32 4 @ le32 192 @ le32 0 @ le32 0
     @ le32 0 @ le32 0 @ le32 0 @ le32 0 @ le32 0 @ le32 0
     @ le32 7 @ le32 1 @ le32 0 @ le32 4 @ [1, 1, 0, 0] @ le32 0
     @ le32 1 @ le32 0 @ le32 1 @ le32 1 @ le32 0
     @ 0 # char_bytes ''.text'' @ 0 # char_bytes ''main'' @ [0]
     @ [0, 0, 0, 0]"

lemma sample_length: "length sample_object = 196"
  by (simp add: sample_object_def sample_header_def OBJ_MAGIC_def)

lemmas sample_bytes = sample_object_def sample_header_def OBJ_MAGIC_def le32_def char_bytes_def

lemmas sample_reads = u32_at_def u16_at_def slice_def of_le32_def of_le16_def sample_bytes

lemma sample_header_of:
  "header_of sample_object = \<lparr>major = 1, minor = 0, h_flags = 1, section_count = 2, symbol_count = 2,
     relocation_count = 1, section_off = 48, symbol_off = 112, relocation_off = 160,
     string_off = 180, string_size = 12\<rparr>"
  by (simp add: header_of_def sample_reads)

lemma sample_sections:
  "section_of sample_object (header_of sample_object) 0 = \<lparr>s_name_off = 0, s_type = 0, s_flags = 0,
     s_alignment = 0, s_size = 0, s_data_off = 0\<rparr>"
  "section_of sample_object (header_of sample_object) 1 = \<lparr>s_name_off = 1, s_type = 1, s_flags = 3,
     s_alignment = 4, s_size = 4, s_data_off = 192\<rparr>"
  unfolding sample_header_of by (simp_all add: section_of_def entry_at_def sample_reads)

lemma sample_symbols:
  "symbol_of sample_object (header_of sample_object) 0 = \<lparr>y_name_off = 0, y_section_index = 0,
     y_value = 0, y_size = 0, y_binding = 0, y_type = 0\<rparr>"
  "symbol_of sample_object (header_of sample_object) 1 = \<lparr>y_name_off = 7, y_section_index = 1,
     y_value = 0, y_size = 4, y_binding = 1, y_type = 1\<rparr>"
  unfolding sample_header_of by (simp_all add: symbol_of_def entry_at_def sample_reads)

lemma sample_relocation:
  "relocation_of sample_object (header_of sample_object) 0 = \<lparr>r_section_index = 1, r_offset = 0,
     r_symbol_index = 1, r_type = 1, r_addend = 0\<rparr>"
  unfolding sample_header_of by (simp add: relocation_of_def entry_at_def sample_reads)

lemma sample_names:
  "name_ok sample_object (header_of sample_object) 0" "name_ok sample_object (header_of sample_object) 1"
  "name_ok sample_object (header_of sample_object) 7"
  "name_of sample_object (header_of sample_object) 7 = char_bytes ''main''"
  unfolding sample_header_of by (simp_all add: name_ok_def name_of_def cstring_at_def sample_reads)

lemma sample_reserved:
  "u32_at sample_object 72 = 0" "u32_at sample_object 76 = 0" "u32_at sample_object 104 = 0"
  "u32_at sample_object 108 = 0" "u16_at sample_object 130 = 0" "u32_at sample_object 132 = 0"
  "u16_at sample_object 154 = 0" "u32_at sample_object 156 = 0" "sample_object ! 180 = 0"
  "slice 0 8 sample_object = OBJ_MAGIC"
  by (simp_all add: sample_reads)

lemma upto_2: "{0..<2} = {0, 1 :: nat}" "{0..<1} = {0 :: nat}" "[0..<2] = [0, 1]" "[0..<1] = [0 :: nat]"
  by (auto simp: eval_nat_numeral)

lemma sample_valid: "valid_object sample_object"
proof -
  let ?h = "header_of sample_object"
  have n: "unat (section_count ?h) = 2" "unat (symbol_count ?h) = 2" "unat (relocation_count ?h) = 1"
    by (simp_all add: sample_header_of)
  have e: "entry_at (section_off ?h) 0 32 = 48" "entry_at (section_off ?h) 1 32 = 80"
    "entry_at (symbol_off ?h) 0 24 = 112" "entry_at (symbol_off ?h) 1 24 = 136"
    by (simp_all add: sample_header_of entry_at_def)
  have "section_ok sample_object ?h 0" "section_ok sample_object ?h 1"
    unfolding section_ok_def e Let_def sample_sections
    by (simp_all add: sample_names sample_reserved sample_length)
  moreover have "symbol_ok sample_object ?h 0" "symbol_ok sample_object ?h 1"
    unfolding symbol_ok_def e Let_def sample_symbols
    by (simp_all add: sample_names sample_reserved) (simp_all add: sample_header_of)
  moreover have "relocation_ok sample_object ?h 0"
    unfolding relocation_ok_def Let_def sample_relocation
    using sample_sections(2) by (simp add: sample_header_of)
  moreover have "header_ok sample_object ?h"
    by (simp add: header_ok_def sample_header_of sample_length)
  ultimately show ?thesis
    unfolding valid_object_def Let_def n upto_2
    by (simp add: sample_reserved sample_length) (simp add: sample_header_of sample_reserved)
qed

lemma sample_object_of:
  "o_sections (object_of sample_object) = [\<lparr>s_name_off = 0, s_type = 0, s_flags = 0,
     s_alignment = 0, s_size = 0, s_data_off = 0\<rparr>, \<lparr>s_name_off = 1, s_type = 1, s_flags = 3,
     s_alignment = 4, s_size = 4, s_data_off = 192\<rparr>]"
proof -
  have "unat (section_count (header_of sample_object)) = 2" by (simp add: sample_header_of)
  then show ?thesis using sample_sections by (simp add: upto_2)
qed

text \<open>An object file whose symbol zero is not null: its value is seven.\<close>

definition odd_object :: bytes where
  "odd_object = OBJ_MAGIC @ [1, 0, 0, 0] @ le32 1 @ le32 1 @ le32 1 @ le32 0 @ le32 48 @ le32 80
     @ le32 0 @ le32 104 @ le32 1
     @ le32 0 @ le32 0 @ le32 0 @ le32 0 @ le32 0 @ le32 0 @ le32 0 @ le32 0
     @ le32 0 @ le32 0 @ le32 7 @ le32 0 @ le32 0 @ le32 0
     @ [0]"

lemmas odd_reads = odd_object_def OBJ_MAGIC_def le32_def u32_at_def u16_at_def slice_def of_le32_def
  of_le16_def

lemma odd_header_of:
  "header_of odd_object = \<lparr>major = 1, minor = 0, h_flags = 1, section_count = 1, symbol_count = 1,
     relocation_count = 0, section_off = 48, symbol_off = 80, relocation_off = 0,
     string_off = 104, string_size = 1\<rparr>"
  by (simp add: header_of_def odd_reads)

lemma odd_valid: "valid_object odd_object"
proof -
  have "section_ok odd_object (header_of odd_object) 0"
    unfolding section_ok_def odd_header_of
    by (simp add: section_of_def entry_at_def name_ok_def Let_def odd_reads)
  moreover have "symbol_ok odd_object (header_of odd_object) 0"
    unfolding symbol_ok_def odd_header_of
    by (simp add: symbol_of_def entry_at_def name_ok_def Let_def odd_reads)
  ultimately show ?thesis
    unfolding valid_object_def Let_def odd_header_of header_ok_def
    by (simp add: upto_2(2)) (simp add: odd_reads)
qed

lemma odd_symbol_zero: "y_value (symbol_of odd_object (header_of odd_object) 0) = 7"
  unfolding odd_header_of by (simp add: symbol_of_def entry_at_def odd_reads)

text \<open>The object format document says that symbol zero contains zeroes; the parser accepts a file
  whose symbol zero does not.\<close>

lemma nm_accepts_nonzero_symbol_zero:
  "\<exists>ob. parse_object True [] odd_object = Inr ob \<and> y_value (o_symbols ob ! 0) = 7"
proof -
  have "parse_object True [] odd_object = Inr (object_of odd_object)"
    using odd_valid parse_object_Inr by blast
  moreover have "o_symbols (object_of odd_object) ! 0 = symbol_of odd_object (header_of odd_object) 0"
    by (simp add: odd_header_of)
  ultimately show ?thesis using odd_symbol_zero by auto
qed

section \<open>The properties\<close>


text \<open>C21: No input makes the program read outside a buffer. For every command line, every file with
  any bytes, and every pattern of host errors, the run ends in a defined exit: success, a message
  with code 1, or the usage text.\<close>

theorem nm_no_wild_reads: "nm_main fopen_rb malloc_ok calloc_ok args \<noteq> None"
  by (rule nm_main_defined)

definition symbol_line :: "object_t \<Rightarrow> symbol_t \<Rightarrow> string" where
  "symbol_line ob y =
     (let c = letter_spec (o_sections ob) y in
      (if c = CHR ''U'' then ''         '' else fmt_08X (y_value y) @ '' '') @ [c] @ '' ''
        @ chars (name_of (o_data ob) (o_header ob) (y_name_off y)) @ newline)"

text \<open>C22: The symbol listing of an accepted object is one line for every symbol but the null one, in
  table order: the value, unless the symbol is undefined, the letter of its section and
  binding (U, A, B, T, D, R, lower case for a local one, never a question mark), its name.\<close>

theorem nm_symbol_listing:
  "valid_object data \<Longrightarrow>
   print_symbols (object_of data) = Inr (''Symbols'' @ newline @ ''-------'' @ newline
     @ concat (map (symbol_line (object_of data)) (tl (o_symbols (object_of data))))
     @ (if symbol_count (header_of data) = 1 then ''(none)'' @ newline else []))"
proof -
  assume v: "valid_object data"
  let ?h = "header_of data" let ?n = "unat (symbol_count (header_of data))"
  have line: "print_symbol (object_of data) i = Inr (symbol_line (object_of data) (symbol_of data ?h i))"
    if "i < ?n" for i
    unfolding print_symbol_valid [OF v that] symbol_line_def Let_def object_of_simps(1,2) ..
  have "mapM_res (print_symbol (object_of data)) (map id [1..<?n])
      = Inr (map (\<lambda>i. symbol_line (object_of data) (symbol_of data ?h i)) [1..<?n])"
    by (rule mapM_res_map) (simp add: line del: object_of_simps)
  moreover have "tl (map f [0..<n]) = map f [1..<n]" for f :: "nat \<Rightarrow> symbol_t" and n
    by (cases n) (simp_all add: upt_conv_Cons del: upt_Suc)
  ultimately show ?thesis
    unfolding print_symbols_def object_of_simps(2,4) by (simp add: comp_def del: object_of_simps)
qed

lemma fmt_zero: "fmt_08X 0 = ''00000000''"
  by code_simp

lemma nm_symbol_listing_witness:
  "print_symbols (object_of sample_object) = Inr (''Symbols'' @ newline @ ''-------'' @ newline
     @ ''00000000 T main'' @ newline)"
proof -
  let ?h = "header_of sample_object"
  have y: "tl (o_symbols (object_of sample_object)) = [symbol_of sample_object ?h 1]"
  proof -
    have "unat (symbol_count ?h) = 2" by (simp add: sample_header_of)
    then show ?thesis by (simp add: upto_2)
  qed
  have "symbol_line (object_of sample_object) (symbol_of sample_object ?h 1)
    = ''00000000 T main'' @ newline"
    unfolding symbol_line_def letter_spec_def Let_def sample_object_of sample_symbols
    using sample_names(4) by (simp add: fmt_zero)
  moreover have "symbol_count ?h \<noteq> 1" by (simp add: sample_header_of)
  ultimately show ?thesis
    using nm_symbol_listing [OF sample_valid] unfolding y by simp
qed

abbreviation view_option :: "string \<Rightarrow> bool" where
  "view_option a \<equiv> a = ''--sections'' \<or> a = ''--symbols'' \<or> a = ''--relocs''"

definition options_spec :: "string list \<Rightarrow> options_t \<Rightarrow> bool" where
  "options_spec args opt \<longleftrightarrow>
     (\<forall>a \<in> set args. view_option a \<or> a = [] \<or> hd a \<noteq> CHR ''-'')
     \<and> (\<exists>name. filter (\<lambda>a. \<not> view_option a) args = [name]
        \<and> (let none = (\<forall>a \<in> set args. \<not> view_option a) in
           opt = \<lparr>show_sections = (none \<or> ''--sections'' \<in> set args),
                  show_symbols = (none \<or> ''--symbols'' \<in> set args),
                  show_relocations = (none \<or> ''--relocs'' \<in> set args),
                  filename = Some name\<rparr>))"

abbreviation file_names :: "string list \<Rightarrow> string list" where
  "file_names args \<equiv> filter (\<lambda>a. \<not> view_option a) args"

definition merged :: "string list \<Rightarrow> options_t \<Rightarrow> options_t" where
  "merged args opt = opt\<lparr>
     show_sections := (show_sections opt \<or> ''--sections'' \<in> set args),
     show_symbols := (show_symbols opt \<or> ''--symbols'' \<in> set args),
     show_relocations := (show_relocations opt \<or> ''--relocs'' \<in> set args),
     filename := (if file_names args = [] then filename opt else Some (hd (file_names args)))\<rparr>"

lemma merged_Cons:
  "merged (''--sections'' # args) opt = merged args (opt\<lparr>show_sections := True\<rparr>)"
  "merged (''--symbols'' # args) opt = merged args (opt\<lparr>show_symbols := True\<rparr>)"
  "merged (''--relocs'' # args) opt = merged args (opt\<lparr>show_relocations := True\<rparr>)"
  "\<not> view_option a \<Longrightarrow> file_names args = [] \<Longrightarrow>
   merged (a # args) opt = merged args (opt\<lparr>filename := Some a\<rparr>)"
  by (auto simp: merged_def)

text \<open>The arguments that the loop accepts with \<open>fn\<close> as the file name so far.\<close>

definition accepted_args :: "string list \<Rightarrow> string option \<Rightarrow> bool" where
  "accepted_args args fn \<longleftrightarrow> (\<forall>a \<in> set args. view_option a \<or> a = [] \<or> hd a \<noteq> CHR ''-'')
     \<and> (file_names args = [] \<or> fn = None \<and> length (file_names args) = 1)"

lemma accepted_args_Cons:
  "view_option a \<Longrightarrow> accepted_args (a # args) fn = accepted_args args fn"
  "\<not> view_option a \<Longrightarrow> a \<noteq> [] \<Longrightarrow> hd a = CHR ''-'' \<Longrightarrow> \<not> accepted_args (a # args) fn"
  "\<not> view_option a \<Longrightarrow> a = [] \<or> hd a \<noteq> CHR ''-'' \<Longrightarrow>
   accepted_args (a # args) fn \<longleftrightarrow> fn = None \<and> accepted_args args (Some a)"
  "accepted_args args (Some b) \<Longrightarrow> file_names args = []"
  by (auto simp: accepted_args_def)

lemma parse_args_Inr:
  "parse_args args opt e = Inr r \<longleftrightarrow>
    accepted_args args (filename opt) \<and> r = (merged args opt, e \<or> (\<exists>a \<in> set args. view_option a))"
proof (induction args arbitrary: opt e)
  case Nil
  show ?case by (auto simp: accepted_args_def merged_def)
next
  case (Cons a args)
  consider (view) "view_option a" | (bad) "\<not> view_option a" "a \<noteq> []" "hd a = CHR ''-''"
    | (name) "\<not> view_option a" "a = [] \<or> hd a \<noteq> CHR ''-''" by blast
  then show ?case
  proof cases
    case view
    then have "parse_args (a # args) opt e = Inr r \<longleftrightarrow> accepted_args args (filename opt)
        \<and> r = (merged (a # args) opt, True)"
      by (elim disjE) (simp_all add: Cons.IH merged_Cons)
    with view show ?thesis by (simp add: accepted_args_Cons)
  next
    case bad
    then have "\<exists>x. parse_args (a # args) opt e = Inl x" by auto
    then obtain x where "parse_args (a # args) opt e = Inl x" by blast
    with accepted_args_Cons(2) [OF bad, of args "filename opt"] show ?thesis by simp
  next
    case name
    have a: "a \<noteq> ''-h''" "a \<noteq> ''--help''" "a \<noteq> ''--version''"
      using name(2) by (metis list.discI list.sel(1))+
    show ?thesis
    proof (cases "filename opt")
      case None
      with name a have "parse_args (a # args) opt e = parse_args args (opt\<lparr>filename := Some a\<rparr>) e"
        by auto
      then show ?thesis using name(1) None accepted_args_Cons(4) [of args a]
        by (auto simp: Cons.IH accepted_args_Cons(3) [OF name] merged_Cons(4))
    next
      case (Some b)
      with name a have "\<exists>x. parse_args (a # args) opt e = Inl x" by auto
      then obtain x where "parse_args (a # args) opt e = Inl x" by blast
      with Some accepted_args_Cons(3) [OF name, of args "filename opt"] show ?thesis by simp
    qed
  qed
qed

text \<open>The command line is accepted exactly when every argument is one of the three view options or
  does not begin with a dash, and exactly one is a file name. The views shown are then the ones
  asked for, in any order and number, and all three when none is.\<close>

theorem nm_options: "parse_options args = Inr opt \<longleftrightarrow> options_spec args opt"
proof -
  let ?o = "\<lparr>show_sections = False, show_symbols = False, show_relocations = False, filename = None\<rparr>"
  define none where "none \<longleftrightarrow> (\<forall>a \<in> set args. \<not> view_option a)"
  have "parse_options args = Inr opt \<longleftrightarrow> accepted_args args None \<and> filename (merged args ?o) \<noteq> None
      \<and> opt = (if none
          then (merged args ?o)\<lparr>show_sections := True, show_symbols := True, show_relocations := True\<rparr>
          else merged args ?o)"
    unfolding parse_options_def rbind_Inr parse_args_Inr none_def by auto
  moreover have "accepted_args args None \<and> filename (merged args ?o) \<noteq> None \<longleftrightarrow>
      (\<forall>a \<in> set args. view_option a \<or> a = [] \<or> hd a \<noteq> CHR ''-'') \<and> (\<exists>name. file_names args = [name])"
    by (cases "file_names args") (simp_all add: accepted_args_def merged_def)
  moreover have "merged args ?o = \<lparr>show_sections = (''--sections'' \<in> set args),
      show_symbols = (''--symbols'' \<in> set args), show_relocations = (''--relocs'' \<in> set args),
      filename = Some name\<rparr>" if "file_names args = [name]" for name
    using that by (simp add: merged_def)
  ultimately show ?thesis
    unfolding options_spec_def Let_def none_def [symmetric]
    by (cases none; cases "file_names args"; cases "tl (file_names args)") simp_all
qed



end
