(* ===== verification/T32_World.thy ===== *)
theory T32_World
  imports T32_Format T32_Host
begin

text \<open>
  The file system that the command-line tools work on: files by path, which paths cannot be
  created, and a schedule of stream faults, one list for each stream that the program opens, in
  order. A stream opened for writing truncates its file at once; its bytes are the file's from
  then on.
\<close>

record world =
  w_files :: "bytes \<Rightarrow> bytes option"
  w_denied :: "bytes \<Rightarrow> bool"
  w_faults :: "nat option list list"

definition next_stream :: "world \<Rightarrow> nat option list \<times> world" where
  "next_stream w = (case w_faults w of [] \<Rightarrow> ([], w) | fs # rest \<Rightarrow> (fs, w\<lparr>w_faults := rest\<rparr>))"

text \<open>\<open>fopen(path, "rb")\<close> and \<open>fopen(path, "wb")\<close>.\<close>

definition fopen_rb :: "bytes \<Rightarrow> world \<Rightarrow> host_file option \<times> world" where
  "fopen_rb path w =
     (case w_files w path of
        None \<Rightarrow> (None, w)
      | Some bs \<Rightarrow> (case next_stream w of (fs, w1) \<Rightarrow> (Some (open_file bs fs), w1)))"

definition fopen_wb :: "bytes \<Rightarrow> world \<Rightarrow> host_file option \<times> world" where
  "fopen_wb path w =
     (if w_denied w path then (None, w)
      else case next_stream w of (fs, w1) \<Rightarrow>
        (Some (open_file [] fs), w1\<lparr>w_files := (w_files w1)(path := Some [])\<rparr>))"

text \<open>The file gets what was written to the stream.\<close>

definition save_stream :: "bytes \<Rightarrow> host_file \<Rightarrow> world \<Rightarrow> world" where
  "save_stream path f w = w\<lparr>w_files := (w_files w)(path := Some (hf_bytes f))\<rparr>"

text \<open>One call of \<open>fwrite\<close> or \<open>fputc\<close> whose result the source drops.\<close>

definition put :: "bytes \<Rightarrow> host_file \<Rightarrow> host_file" where
  "put bs f = snd (fwrite f bs)"

lemma next_stream_files [simp]: "w_files (snd (next_stream w)) = w_files w"
  by (simp add: next_stream_def split: list.split)

lemma next_stream_denied [simp]: "w_denied (snd (next_stream w)) = w_denied w"
  by (simp add: next_stream_def split: list.split)

lemma next_stream_clean: "w_faults w = [] \<Longrightarrow> next_stream w = ([], w)"
  by (simp add: next_stream_def)

text \<open>Writes at the end of a file on a host without faults append.\<close>

definition appending :: "host_file \<Rightarrow> bool" where
  "appending f \<longleftrightarrow> hf_faults f = [] \<and> hf_pos f = length (hf_bytes f)"

lemma put_appending:
  assumes "appending f"
  shows "appending (put bs f)" "hf_bytes (put bs f) = hf_bytes f @ bs"
  using assms
  by (simp_all add: appending_def put_def fault_free write_at_def patch_def)

lemma foldl_put:
  "appending f \<Longrightarrow> appending (fold put bss f) \<and> hf_bytes (fold put bss f) = hf_bytes f @ concat bss"
  by (induction bss arbitrary: f) (simp_all add: put_appending)

section \<open>Loops that accumulate\<close>

fun foldM_res :: "('a \<Rightarrow> 's \<Rightarrow> 'e + 's) \<Rightarrow> 'a list \<Rightarrow> 's \<Rightarrow> 'e + 's" where
  "foldM_res f [] s = Inr s"
| "foldM_res f (x # xs) s = rbind (f x s) (foldM_res f xs)"

lemma foldM_res_append:
  "foldM_res f (xs @ ys) s = rbind (foldM_res f xs s) (foldM_res f ys)"
proof (induction xs arbitrary: s)
  case (Cons x xs)
  show ?case by (cases "f x s") (simp_all add: Cons.IH)
qed simp

lemma foldM_res_Inl:
  "foldM_res f xs s = Inl e \<Longrightarrow> \<exists>x \<in> set xs. \<exists>s'. f x s' = Inl e"
  by (induction xs arbitrary: s) (auto simp: rbind_Inl)

end
