(* ===== verification/T32_Archive.thy ===== *)
theory T32_Archive
  imports T32_World
begin

text \<open>
  The archiver \<open>toolchain/t32-ar/src/t32-ar.c\<close>: reading and checking an archive, the index of
  exported symbols, writing an archive, and the operations replace, delete, extract and list. A
  member is its name and bytes (\<open>size\<close> is their number), \<open>die2(a, b)\<close> is \<open>Die a b\<close>, and a
  read outside a buffer is \<open>Wild\<close>. Memory allocation is taken to succeed.
\<close>

section \<open>Constants and state\<close>

definition AR_MAGIC :: bytes where
  "AR_MAGIC = [0x54, 0x33, 0x32, 0x41, 0x52, 0x00, 0x00, 0x00]"

abbreviation (input) "AR_VERSION_MAJOR \<equiv> 1 :: u16"
abbreviation (input) "AR_VERSION_MINOR \<equiv> 0 :: u16"

definition AR_OBJ_MAGIC :: bytes where
  "AR_OBJ_MAGIC = [0x54, 0x33, 0x32, 0x4F, 0x42, 0x4A, 0x00, 0x00]"

abbreviation (input) "MAX_MEMBERS \<equiv> 4096 :: nat"
abbreviation (input) "MAX_SYMBOLS \<equiv> 65536 :: nat"

record member_t =
  m_name :: bytes
  m_data :: bytes

record symbol_ref_t =
  ref_name :: bytes
  ref_member_index :: nat

record archive_t =
  members :: "member_t list"
  symbols :: "symbol_ref_t list"

section \<open>Reading\<close>

definition ar_rd16 :: "bytes \<Rightarrow> nat \<Rightarrow> u16 res" where
  "ar_rd16 data p =
     rbind (get8 data p) (\<lambda>b0. rbind (get8 data (p + 1)) (\<lambda>b1.
       Inr (ucast b0 OR push_bit 8 (ucast b1))))"

definition ar_rd32 :: "bytes \<Rightarrow> nat \<Rightarrow> u32 res" where
  "ar_rd32 data p =
     rbind (get8 data p) (\<lambda>b0. rbind (get8 data (p + 1)) (\<lambda>b1.
     rbind (get8 data (p + 2)) (\<lambda>b2. rbind (get8 data (p + 3)) (\<lambda>b3.
       Inr (ucast b0 OR push_bit 8 (ucast b1) OR push_bit 16 (ucast b2)
         OR push_bit 24 (ucast b3))))))"

definition ar_read_file :: "bytes \<Rightarrow> world \<Rightarrow> bytes res \<times> world" where
  "ar_read_file path w =
     (case fopen_rb path w of
        (None, w1) \<Rightarrow> (Inl (Die ''cannot open '' path), w1)
      | (Some f0, w1) \<Rightarrow>
        (case fseek_end f0 of (ok1, f1) \<Rightarrow>
         if \<not> ok1 then (Inl (Die ''cannot seek '' path), w1) else
         case ftell f1 of (sz, f2) \<Rightarrow>
         if sz < 0 \<or> sz > 0xffffffff then (Inl (Die ''invalid size for '' path), w1) else
         case fseek_set f2 0 of (ok2, f3) \<Rightarrow>
         if \<not> ok2 then (Inl (Die ''cannot seek '' path), w1)
         else if sz = 0 then (Inr [], w1)
         else case fread f3 (nat sz) of (buf, f4) \<Rightarrow>
           if length buf \<noteq> nat sz then (Inl (Die ''cannot read '' path), w1)
           else (Inr buf, w1)))"

text \<open>\<open>strrchr\<close>, as the index of the last occurrence.\<close>

definition strrchr :: "bytes \<Rightarrow> u8 \<Rightarrow> nat option" where
  "strrchr s c = (if c \<in> set s then Some (length s - 1 - length (takeWhile (\<lambda>x. x \<noteq> c) (rev s)))
                  else None)"

definition basename_portable :: "bytes \<Rightarrow> bytes" where
  "basename_portable path =
     (let a = strrchr path 0x2F; b = strrchr path 0x5C;
          p = (if a = None \<or> (b \<noteq> None \<and> the b > the a) then b else a)
      in case p of None \<Rightarrow> path | Some i \<Rightarrow> drop (i + 1) path)"

definition obj_string :: "bytes \<Rightarrow> u32 \<Rightarrow> u32 \<Rightarrow> u32 \<Rightarrow> u32 \<Rightarrow> bytes option res" where
  "obj_string obj size' str_off str_size name_off =
     (if name_off \<ge> str_size then Inr None
      else if str_off > size' \<or> str_size > size' - str_off then Inr None
      else let start = unat str_off + unat name_off in
        rbind (find_nul obj start (unat str_size - unat name_off)) (\<lambda>found.
          Inr (if found then Some (cstring_at obj start) else None)))"

text \<open>The body of the symbol loop; \<open>syms\<close> is the index so far.\<close>

definition collect_symbol ::
  "member_t \<Rightarrow> nat \<Rightarrow> u32 \<Rightarrow> u32 \<Rightarrow> u32 \<Rightarrow> nat \<Rightarrow> symbol_ref_t list \<Rightarrow> symbol_ref_t list res" where
  "collect_symbol m member_index sym_off str_off str_size i syms =
     (let obj = m_data m; s = unat sym_off + i * 24 in
      rbind (ar_rd32 obj s) (\<lambda>name_off.
      rbind (ar_rd32 obj (s + 4)) (\<lambda>section_index.
      rbind (get8 obj (s + 16)) (\<lambda>binding.
      if binding \<noteq> 1 \<or> section_index = 0 then Inr syms
      else
        rbind (obj_string obj (of_nat (length obj)) str_off str_size name_off) (\<lambda>name.
        if name = None \<or> name = Some [] then Inl (Die ''invalid symbol name in '' (m_name m))
        else
          let syms' = syms @ [\<lparr>ref_name = the name, ref_member_index = member_index\<rparr>] in
          if length syms' > MAX_SYMBOLS then Inl (Die ''too many archive symbols'' [])
          else Inr syms')))))"

definition collect_symbols_from_object ::
  "member_t \<Rightarrow> nat \<Rightarrow> symbol_ref_t list \<Rightarrow> symbol_ref_t list res" where
  "collect_symbols_from_object m member_index syms =
     (let obj = m_data m; sz = of_nat (length obj) :: u32 in
      rbind (if length obj < 48 then Inr [] else get_block obj 0 8) (\<lambda>magic.
      rbind (check (\<not> length obj < 48 \<and> magic = AR_OBJ_MAGIC)
        (Die ''archive member is not T32OBJ: '' (m_name m))) (\<lambda>_.
      rbind (ar_rd16 obj 8) (\<lambda>version.
      rbind (check (version = 1) (Die ''unsupported T32OBJ version in '' (m_name m))) (\<lambda>_.
      rbind (ar_rd32 obj 20) (\<lambda>sym_count.
      rbind (ar_rd32 obj 32) (\<lambda>sym_off.
      rbind (ar_rd32 obj 40) (\<lambda>str_off.
      rbind (ar_rd32 obj 44) (\<lambda>str_size.
      rbind (check (\<not> (sym_off > sz \<or> sym_count > (sz - sym_off) div 24))
        (Die ''invalid symbol table in '' (m_name m))) (\<lambda>_.
      foldM_res (collect_symbol m member_index sym_off str_off str_size)
        [1..<unat sym_count] syms))))))))))"

definition rebuild_symbol_index :: "archive_t \<Rightarrow> archive_t res" where
  "rebuild_symbol_index ar =
     rbind (foldM_res (\<lambda>i syms. collect_symbols_from_object (members ar ! i) i syms)
       [0..<length (members ar)] [])
       (\<lambda>syms. Inr (ar\<lparr>symbols := syms\<rparr>))"

text \<open>The body of the member loop of \<open>load_archive\<close>.\<close>

definition load_member :: "bytes \<Rightarrow> u32 \<Rightarrow> u32 \<Rightarrow> u32 \<Rightarrow> nat \<Rightarrow> member_t res" where
  "load_member buf member_table_off strings_off strings_size i =
     (let sz = of_nat (length buf) :: u32; m = unat member_table_off + i * 16 in
      rbind (ar_rd32 buf m) (\<lambda>name_off.
      rbind (ar_rd32 buf (m + 4)) (\<lambda>off.
      rbind (ar_rd32 buf (m + 8)) (\<lambda>msize.
      rbind (obj_string buf sz strings_off strings_size name_off) (\<lambda>name.
      rbind (check (name \<noteq> None \<and> name \<noteq> Some []) (Die ''invalid archive member name'' [])) (\<lambda>_.
      rbind (check (\<not> (off > sz \<or> msize > sz - off)) (Die ''invalid archive member bounds'' [])) (\<lambda>_.
      rbind (get_block buf (unat off) (unat msize)) (\<lambda>bs.
      Inr \<lparr>m_name = the name, m_data = bs\<rparr>))))))))"

text \<open>\<open>load_archive\<close> on the bytes of the file.\<close>

definition load_image :: "bytes \<Rightarrow> bool \<Rightarrow> bytes \<Rightarrow> archive_t res" where
  "load_image path allow_missing buf =
     (if length buf < 40 then
        if allow_missing then Inr \<lparr>members = [], symbols = []\<rparr>
        else Inl (Die ''invalid archive: '' path)
      else
      let sz = of_nat (length buf) :: u32 in
      rbind (get_block buf 0 8) (\<lambda>magic.
      rbind (check (magic = AR_MAGIC) (Die ''invalid archive magic: '' path)) (\<lambda>_.
      rbind (ar_rd16 buf 8) (\<lambda>version.
      rbind (check (version = AR_VERSION_MAJOR) (Die ''unsupported archive version: '' path)) (\<lambda>_.
      rbind (ar_rd32 buf 16) (\<lambda>member_count.
      rbind (ar_rd32 buf 20) (\<lambda>symbol_count.
      rbind (ar_rd32 buf 24) (\<lambda>member_table_off.
      rbind (ar_rd32 buf 28) (\<lambda>symbol_table_off.
      rbind (ar_rd32 buf 32) (\<lambda>strings_off.
      rbind (ar_rd32 buf 36) (\<lambda>strings_size.
      rbind (ar_rd32 buf 12) (\<lambda>data_off.
      rbind (check (\<not> (unat member_count > MAX_MEMBERS \<or> unat symbol_count > MAX_SYMBOLS))
        (Die ''archive count too large'' [])) (\<lambda>_.
      rbind (check (\<not> (member_table_off > sz \<or> member_count > (sz - member_table_off) div 16))
        (Die ''invalid archive member table'' [])) (\<lambda>_.
      rbind (check (\<not> (symbol_table_off > sz \<or> symbol_count > (sz - symbol_table_off) div 8))
        (Die ''invalid archive symbol table'' [])) (\<lambda>_.
      rbind (check (\<not> (strings_off > sz \<or> strings_size > sz - strings_off))
        (Die ''invalid archive string table'' [])) (\<lambda>_.
      rbind (check (\<not> data_off > sz) (Die ''invalid archive data offset'' [])) (\<lambda>_.
      rbind (mapM_res (load_member buf member_table_off strings_off strings_size)
        [0..<unat member_count]) (\<lambda>ms.
      rebuild_symbol_index \<lparr>members = ms, symbols = []\<rparr>))))))))))))))))))"

definition load_archive :: "bytes \<Rightarrow> bool \<Rightarrow> world \<Rightarrow> archive_t res \<times> world" where
  "load_archive path allow_missing w =
     (case ar_read_file path w of
        (Inl e, w1) \<Rightarrow> (Inl e, w1)
      | (Inr buf, w1) \<Rightarrow> (load_image path allow_missing buf, w1))"

section \<open>Writing\<close>

definition wr16 :: "u16 \<Rightarrow> host_file \<Rightarrow> host_file" where
  "wr16 v f = put [ucast (drop_bit 8 v AND 0xff)] (put [ucast (v AND 0xff)] f)"

definition wr32 :: "u32 \<Rightarrow> host_file \<Rightarrow> host_file" where
  "wr32 v f =
     put [ucast (drop_bit 24 v AND 0xff)] (put [ucast (drop_bit 16 v AND 0xff)]
       (put [ucast (drop_bit 8 v AND 0xff)] (put [ucast (v AND 0xff)] f)))"

text \<open>\<open>add_string\<close> returns the offset of the string and the extended table; the table's size
  is a 32-bit counter.\<close>

definition add_string :: "bytes \<Rightarrow> u32 \<times> bytes \<times> u32 \<Rightarrow> u32 \<times> bytes \<times> u32" where
  "add_string s t = (case t of (_, table, sz) \<Rightarrow>
     (sz, table @ s @ [0], sz + of_nat (length s + 1)))"

text \<open>The offsets of a list of strings, and the table and size after them.\<close>

fun add_strings :: "bytes list \<Rightarrow> bytes \<Rightarrow> u32 \<Rightarrow> u32 list \<times> bytes \<times> u32" where
  "add_strings [] table sz = ([], table, sz)"
| "add_strings (s # ss) table sz =
     (case add_string s (0, table, sz) of (off, table1, sz1) \<Rightarrow>
      case add_strings ss table1 sz1 of (offs, table2, sz2) \<Rightarrow> (off # offs, table2, sz2))"

fun write_members :: "(u32 \<times> member_t) list \<Rightarrow> u32 \<Rightarrow> host_file \<Rightarrow> host_file" where
  "write_members [] running f = f"
| "write_members ((name_off, m) # ms) running f =
     write_members ms (running + of_nat (length (m_data m)))
       (wr32 0 (wr32 (of_nat (length (m_data m))) (wr32 running (wr32 name_off f))))"

fun write_symbols :: "(u32 \<times> symbol_ref_t) list \<Rightarrow> host_file \<Rightarrow> host_file" where
  "write_symbols [] f = f"
| "write_symbols ((name_off, y) # ys) f =
     write_symbols ys (wr32 (of_nat (ref_member_index y)) (wr32 name_off f))"

text \<open>Everything that is written to the stream, for an archive with its index.\<close>

definition write_stream :: "archive_t \<Rightarrow> host_file \<Rightarrow> host_file" where
  "write_stream ar f0 =
     (case add_string [] (0, [], 0) of (_, t0, n0) \<Rightarrow>
      case add_strings (map m_name (members ar)) t0 n0 of (member_name_offs, t1, n1) \<Rightarrow>
      case add_strings (map ref_name (symbols ar)) t1 n1 of (symbol_name_offs, strings, strings_size) \<Rightarrow>
      let member_table_off = 40;
          symbol_table_off = member_table_off + of_nat (length (members ar)) * 16;
          strings_off = symbol_table_off + of_nat (length (symbols ar)) * 8;
          data_off = strings_off + strings_size;
          f1 = put AR_MAGIC f0;
          f2 = wr16 AR_VERSION_MINOR (wr16 AR_VERSION_MAJOR f1);
          f3 = wr32 (of_nat (length (symbols ar))) (wr32 (of_nat (length (members ar))) (wr32 data_off f2));
          f4 = wr32 strings_size (wr32 strings_off (wr32 symbol_table_off (wr32 member_table_off f3)));
          f5 = write_members (zip member_name_offs (members ar)) data_off f4;
          f6 = write_symbols (zip symbol_name_offs (symbols ar)) f5;
          f7 = put (take (unat strings_size) strings) f6
      in fold (\<lambda>m. put (m_data m)) (members ar) f7)"

definition write_archive :: "bytes \<Rightarrow> archive_t \<Rightarrow> world \<Rightarrow> archive_t res \<times> world" where
  "write_archive path ar0 w =
     (case rebuild_symbol_index ar0 of
        Inl e \<Rightarrow> (Inl e, w)
      | Inr ar \<Rightarrow>
        (case fopen_wb path w of
           (None, w1) \<Rightarrow> (Inl (Die ''cannot create '' path), w1)
         | (Some f0, w1) \<Rightarrow>
           (case fflush (write_stream ar f0) of (closed, f) \<Rightarrow>
              if \<not> closed then (Inl (Die ''cannot finalize '' path), save_stream path f w1)
              else (Inr ar, save_stream path f w1))))"

section \<open>Operations\<close>

text \<open>\<open>find_member\<close>: \<open>None\<close> for the source's -1.\<close>

fun find_from :: "nat \<Rightarrow> member_t list \<Rightarrow> bytes \<Rightarrow> nat option" where
  "find_from i [] name = None"
| "find_from i (m # ms) name = (if m_name m = name then Some i else find_from (i + 1) ms name)"

definition find_member :: "archive_t \<Rightarrow> bytes \<Rightarrow> nat option" where
  "find_member ar name = find_from 0 (members ar) name"

text \<open>\<open>replace_member\<close> after \<open>read_file\<close> delivered \<open>data\<close>.\<close>

definition replace_data :: "bytes \<Rightarrow> bytes \<Rightarrow> archive_t \<Rightarrow> archive_t res" where
  "replace_data path data ar =
     (let base = basename_portable path in
      rbind (if length data < 8 then Inr [] else get_block data 0 8) (\<lambda>magic.
      rbind (check (\<not> length data < 8 \<and> magic = AR_OBJ_MAGIC)
        (Die ''member is not a T32OBJ file: '' path)) (\<lambda>_.
      case find_member ar base of
        Some idx \<Rightarrow>
          Inr (ar\<lparr>members := (members ar)[idx := (members ar ! idx)\<lparr>m_data := data\<rparr>]\<rparr>)
      | None \<Rightarrow>
          let ms = members ar @ [\<lparr>m_name = base, m_data = data\<rparr>] in
          if length ms > MAX_MEMBERS then Inl (Die ''too many archive members'' [])
          else Inr (ar\<lparr>members := ms\<rparr>))))"

definition replace_member :: "bytes \<Rightarrow> archive_t \<times> world \<Rightarrow> archive_t res \<times> world" where
  "replace_member path s = (case s of (ar, w) \<Rightarrow>
     (case ar_read_file path w of
        (Inl e, w1) \<Rightarrow> (Inl e, w1)
      | (Inr data, w1) \<Rightarrow> (replace_data path data ar, w1)))"

definition delete_member :: "bytes \<Rightarrow> archive_t \<Rightarrow> archive_t res" where
  "delete_member name ar =
     (case find_member ar name of
        None \<Rightarrow> Inl (Die ''member not found: '' name)
      | Some idx \<Rightarrow> Inr (ar\<lparr>members := take idx (members ar) @ drop (idx + 1) (members ar)\<rparr>))"

definition extract_member :: "member_t \<Rightarrow> world \<Rightarrow> unit res \<times> world" where
  "extract_member m w =
     (case fopen_wb (m_name m) w of
        (None, w1) \<Rightarrow> (Inl (Die ''cannot create '' (m_name m)), w1)
      | (Some f0, w1) \<Rightarrow>
        if m_data m = [] then (Inr (), save_stream (m_name m) f0 w1)
        else case fwrite f0 (m_data m) of (n, f) \<Rightarrow>
          if n \<noteq> length (m_data m)
          then (Inl (Die ''cannot write '' (m_name m)), save_stream (m_name m) f w1)
          else (Inr (), save_stream (m_name m) f w1))"

section \<open>The program\<close>

fun replace_members :: "bytes list \<Rightarrow> archive_t \<times> world \<Rightarrow> archive_t res \<times> world" where
  "replace_members [] (ar, w) = (Inr ar, w)"
| "replace_members (p # ps) (ar, w) =
     (case replace_member p (ar, w) of
        (Inl e, w1) \<Rightarrow> (Inl e, w1)
      | (Inr ar1, w1) \<Rightarrow> replace_members ps (ar1, w1))"

fun extract_members :: "member_t list \<Rightarrow> world \<Rightarrow> unit res \<times> world" where
  "extract_members [] w = (Inr (), w)"
| "extract_members (m # ms) w =
     (case extract_member m w of
        (Inl e, w1) \<Rightarrow> (Inl e, w1)
      | (Inr _, w1) \<Rightarrow> extract_members ms w1)"

fun extract_named :: "archive_t \<Rightarrow> bytes list \<Rightarrow> world \<Rightarrow> unit res \<times> world" where
  "extract_named ar [] w = (Inr (), w)"
| "extract_named ar (name # names) w =
     (case find_member ar name of
        None \<Rightarrow> (Inl (Die ''member not found: '' name), w)
      | Some idx \<Rightarrow>
        (case extract_member (members ar ! idx) w of
           (Inl e, w1) \<Rightarrow> (Inl e, w1)
         | (Inr _, w1) \<Rightarrow> extract_named ar names w1))"

definition ar_usage :: string where
  "ar_usage = ''Usage:'' @ newline
     @ ''  t32-ar rcs ARCHIVE FILE...'' @ newline
     @ ''  t32-ar t ARCHIVE'' @ newline
     @ ''  t32-ar x ARCHIVE [MEMBER...]'' @ newline
     @ ''  t32-ar d ARCHIVE MEMBER...'' @ newline
     @ ''  t32-ar --version'' @ newline
     @ ''  t32-ar --help'' @ newline"

text \<open>How the process ends: an exit code with what was printed, or a message and code 1.\<close>

datatype ar_end = Ended int string | Failed failure

definition ar_rcs :: "bytes \<Rightarrow> bytes list \<Rightarrow> world \<Rightarrow> ar_end \<times> world" where
  "ar_rcs archive_path paths w =
     (case fopen_rb archive_path w of (probe, w1) \<Rightarrow>
      case (if probe \<noteq> None then load_archive archive_path False w1
            else (Inr \<lparr>members = [], symbols = []\<rparr>, w1)) of
        (Inl e, w2) \<Rightarrow> (Failed e, w2)
      | (Inr ar, w2) \<Rightarrow>
        if paths = [] then (Failed (Die ''no object members supplied'' []), w2)
        else case replace_members paths (ar, w2) of
          (Inl e, w3) \<Rightarrow> (Failed e, w3)
        | (Inr ar1, w3) \<Rightarrow>
          (case write_archive archive_path ar1 w3 of
             (Inl e, w4) \<Rightarrow> (Failed e, w4)
           | (Inr _, w4) \<Rightarrow> (Ended 0 [], w4)))"

definition ar_other :: "bytes \<Rightarrow> bytes \<Rightarrow> bytes list \<Rightarrow> world \<Rightarrow> ar_end \<times> world" where
  "ar_other op archive_path names w =
     (case load_archive archive_path False w of
        (Inl e, w1) \<Rightarrow> (Failed e, w1)
      | (Inr ar, w1) \<Rightarrow>
        if op = char_bytes ''t'' then
          (Ended 0 (concat (map (\<lambda>m. chars (m_name m) @ newline) (members ar))), w1)
        else if op = char_bytes ''x'' then
          (case (if names = [] then extract_members (members ar) w1
                 else extract_named ar names w1) of
             (Inl e, w2) \<Rightarrow> (Failed e, w2)
           | (Inr _, w2) \<Rightarrow> (Ended 0 [], w2))
        else if op = char_bytes ''d'' then
          if names = [] then (Failed (Die ''no members supplied for deletion'' []), w1)
          else (case foldM_res delete_member names ar of
             Inl e \<Rightarrow> (Failed e, w1)
           | Inr ar1 \<Rightarrow>
             (case write_archive archive_path ar1 w1 of
                (Inl e, w2) \<Rightarrow> (Failed e, w2)
              | (Inr _, w2) \<Rightarrow> (Ended 0 [], w2)))
        else (Failed (Die ''unknown operation: '' op), w1))"

definition ar_main :: "bytes list \<Rightarrow> world \<Rightarrow> ar_end \<times> world" where
  "ar_main args w =
     (if args = [char_bytes ''--version''] then (Ended 0 (''t32-ar 0.0.1'' @ newline), w)
      else if args = [char_bytes ''--help''] then (Ended 0 ar_usage, w)
      else case args of
        op # archive_path # rest \<Rightarrow>
          if op = char_bytes ''rcs'' \<or> op = char_bytes ''r'' then ar_rcs archive_path rest w
          else ar_other op archive_path rest w
      | _ \<Rightarrow> (Ended 2 ar_usage, w))"

end
