(* ===== verification/T32_Archive_Laws.thy ===== *)
theory T32_Archive_Laws
  imports T32_Archive
begin

text \<open>
  What \<open>t32-ar\<close> promises. \<open>exports\<close> is the list of defined global symbols of an object, by the
  format document; the index of an archive is the exports of its members in order. \<open>image\<close> is the
  archive file as one byte list: the writer produces it, and the loader inverts it. No
  archive and no member makes the program read outside a buffer.
\<close>

section \<open>Reads\<close>

lemma ar_rd32_eq: "ar_rd32 data p = (if p + 4 \<le> length data then Inr (u32_at data p) else Inl Wild)"
  by (auto simp: ar_rd32_def get8_def u32_at_def of_le32_def nth_slice)

lemma ar_rd16_eq: "ar_rd16 data p = (if p + 2 \<le> length data then Inr (u16_at data p) else Inl Wild)"
  by (auto simp: ar_rd16_def get8_def u16_at_def of_le16_def nth_slice)

text \<open>A string of the table at \<open>str_off\<close>, when there is one.\<close>

definition table_string :: "bytes \<Rightarrow> u32 \<Rightarrow> u32 \<Rightarrow> u32 \<Rightarrow> bytes option" where
  "table_string data str_off str_size name_off =
     (if name_off < str_size \<and> unat str_off + unat str_size \<le> length data
         \<and> 0 \<in> set (slice (unat str_off + unat name_off) (unat str_size - unat name_off) data)
      then Some (cstring_at data (unat str_off + unat name_off)) else None)"

abbreviation fits32 :: "bytes \<Rightarrow> bool" where
  "fits32 data \<equiv> length data < 2 ^ 32"

lemma range_words:
  fixes a b :: u32
  assumes "n < 2 ^ 32"
  shows "\<not> (a > of_nat n \<or> b > of_nat n - a) \<longleftrightarrow> unat a + unat b \<le> n"
  using unat_of_nat32 [OF assms]
  by (auto simp: word_less_nat_alt word_le_nat_alt unat_sub not_less)

lemma table_words:
  fixes a b :: u32
  assumes "n < 2 ^ 32" "0 < w" "w < 2 ^ 32"
  shows "\<not> (a > of_nat n \<or> b > (of_nat n - a) div of_nat w) \<longleftrightarrow> unat a + unat b * w \<le> n"
proof -
  note n = unat_of_nat32 [OF assms(1)] and w = unat_of_nat32 [OF assms(3)]
  have "unat b \<le> (n - unat a) div w \<longleftrightarrow> unat b * w \<le> n - unat a"
    using assms(2) by (simp add: less_eq_div_iff_mult_less_eq)
  moreover have "unat ((of_nat n - a) div of_nat w) = (n - unat a) div w" if "a \<le> of_nat n"
    using that n w by (simp add: unat_div unat_sub)
  ultimately show ?thesis using n
    by (auto simp: word_less_nat_alt word_le_nat_alt not_less)
qed

lemma obj_string_eq:
  assumes "fits32 data"
  shows "obj_string data (of_nat (length data)) str_off str_size name_off
    = Inr (table_string data str_off str_size name_off)"
proof -
  have "unat str_off + unat name_off + (unat str_size - unat name_off) \<le> length data"
    if "name_off < str_size" "unat str_off + unat str_size \<le> length data"
    using that by (simp add: word_less_nat_alt)
  then show ?thesis
    using range_words [OF assms, of str_off str_size]
    by (auto simp: obj_string_def table_string_def Let_def find_nul_in not_less)
qed

section \<open>The exports of an object\<close>

definition entry_name :: "bytes \<Rightarrow> nat \<Rightarrow> bytes option" where
  "entry_name obj i =
     table_string obj (u32_at obj 40) (u32_at obj 44) (u32_at obj (unat (u32_at obj 32) + i * 24))"

definition entry_exported :: "bytes \<Rightarrow> nat \<Rightarrow> bool" where
  "entry_exported obj i \<longleftrightarrow>
     (let p = unat (u32_at obj 32) + i * 24 in obj ! (p + 16) = 1 \<and> u32_at obj (p + 4) \<noteq> 0)"

definition exported_entries :: "bytes \<Rightarrow> nat list" where
  "exported_entries obj = filter (entry_exported obj) [1..<unat (u32_at obj 20)]"

definition exports :: "bytes \<Rightarrow> bytes list" where
  "exports obj = map (\<lambda>i. the (entry_name obj i)) (exported_entries obj)"

text \<open>What an object needs for its exports to be indexed.\<close>

definition indexable :: "bytes \<Rightarrow> bool" where
  "indexable obj \<longleftrightarrow> 48 \<le> length obj \<and> slice 0 8 obj = AR_OBJ_MAGIC \<and> u16_at obj 8 = 1
     \<and> unat (u32_at obj 32) + unat (u32_at obj 20) * 24 \<le> length obj
     \<and> (\<forall>i \<in> set (exported_entries obj). entry_name obj i \<noteq> None \<and> entry_name obj i \<noteq> Some [])"

definition refs :: "nat \<Rightarrow> bytes list \<Rightarrow> symbol_ref_t list" where
  "refs idx names = map (\<lambda>n. \<lparr>ref_name = n, ref_member_index = idx\<rparr>) names"

lemma length_refs [simp]: "length (refs idx names) = length names"
  by (simp add: refs_def)

lemma collect_symbol_eq:
  assumes "fits32 (m_data m)" "1 \<le> i" "i < unat (u32_at (m_data m) 20)"
    and "unat (u32_at (m_data m) 32) + unat (u32_at (m_data m) 20) * 24 \<le> length (m_data m)"
  shows "collect_symbol m idx (u32_at (m_data m) 32) (u32_at (m_data m) 40) (u32_at (m_data m) 44) i syms =
    (if \<not> entry_exported (m_data m) i then Inr syms
     else case entry_name (m_data m) i of
       None \<Rightarrow> Inl (Die ''invalid symbol name in '' (m_name m))
     | Some n \<Rightarrow> if n = [] then Inl (Die ''invalid symbol name in '' (m_name m))
         else if length syms + 1 > MAX_SYMBOLS then Inl (Die ''too many archive symbols'' [])
         else Inr (syms @ refs idx [n]))"
proof -
  let ?p = "unat (u32_at (m_data m) 32) + i * 24"
  have "Suc i * 24 \<le> unat (u32_at (m_data m) 20) * 24" using assms(3) by (intro mult_le_mono1) simp
  then have "?p + 24 \<le> length (m_data m)" using assms(4) by simp
  then show ?thesis
    by (auto simp: collect_symbol_def Let_def ar_rd32_eq get8_def entry_exported_def entry_name_def
        obj_string_eq [OF assms(1)] refs_def split: option.split)
qed

lemma collect_loop:
  assumes "fits32 (m_data m)"
    and "unat (u32_at (m_data m) 32) + unat (u32_at (m_data m) 20) * 24 \<le> length (m_data m)"
    and "\<And>i. i \<in> set is \<Longrightarrow> 1 \<le> i \<and> i < unat (u32_at (m_data m) 20)"
  defines "es \<equiv> filter (entry_exported (m_data m)) is"
  shows "foldM_res (collect_symbol m idx (u32_at (m_data m) 32) (u32_at (m_data m) 40)
      (u32_at (m_data m) 44)) is syms = Inr syms'
    \<longleftrightarrow> (\<forall>i \<in> set es. entry_name (m_data m) i \<noteq> None \<and> entry_name (m_data m) i \<noteq> Some [])
      \<and> (es = [] \<or> length syms + length es \<le> MAX_SYMBOLS)
      \<and> syms' = syms @ refs idx (map (\<lambda>i. the (entry_name (m_data m) i)) es)"
  using assms(3) unfolding es_def
proof (induction "is" arbitrary: syms)
  case Nil
  then show ?case by (auto simp: refs_def)
next
  case (Cons i "is")
  have i: "1 \<le> i" "i < unat (u32_at (m_data m) 20)" using Cons.prems by simp_all
  note eq = collect_symbol_eq [OF assms(1) i assms(2)]
  have IH: "foldM_res (collect_symbol m idx (u32_at (m_data m) 32) (u32_at (m_data m) 40)
      (u32_at (m_data m) 44)) is s = Inr syms'
    \<longleftrightarrow> (\<forall>i \<in> set (filter (entry_exported (m_data m)) is).
          entry_name (m_data m) i \<noteq> None \<and> entry_name (m_data m) i \<noteq> Some [])
      \<and> (filter (entry_exported (m_data m)) is = [] \<or>
         length s + length (filter (entry_exported (m_data m)) is) \<le> MAX_SYMBOLS)
      \<and> syms' = s @ refs idx (map (\<lambda>i. the (entry_name (m_data m) i))
          (filter (entry_exported (m_data m)) is))" for s
    by (rule Cons.IH) (use Cons.prems in simp)
  show ?case
  proof (cases "entry_exported (m_data m) i")
    case False
    then show ?thesis using IH by (simp add: eq)
  next
    case True
    then show ?thesis
      by (cases "entry_name (m_data m) i")
        (auto simp: eq IH refs_def)
  qed
qed

lemma collect_object:
  assumes "fits32 (m_data m)"
  shows "collect_symbols_from_object m idx syms = Inr syms'
    \<longleftrightarrow> indexable (m_data m)
      \<and> (exports (m_data m) = [] \<or> length syms + length (exports (m_data m)) \<le> MAX_SYMBOLS)
      \<and> syms' = syms @ refs idx (exports (m_data m))"
proof -
  define obj where "obj = m_data m"
  note [simp] = obj_def [symmetric]
  have "\<not> (u32_at obj 32 > of_nat (length obj)
        \<or> u32_at obj 20 > (of_nat (length obj) - u32_at obj 32) div 24)
      \<longleftrightarrow> unat (u32_at obj 32) + unat (u32_at obj 20) * 24 \<le> length obj"
    using table_words [of "length obj" 24 "u32_at obj 32" "u32_at obj 20"] assms by simp
  then show ?thesis
    using collect_loop [OF assms, of "[1..<unat (u32_at obj 20)]" idx syms syms']
    by (auto simp: collect_symbols_from_object_def Let_def rbind_check_Inr ar_rd32_eq ar_rd16_eq
        indexable_def exports_def exported_entries_def)
qed

lemma collect_symbol_Wild:
  assumes "fits32 (m_data m)" "1 \<le> i" "i < unat (u32_at (m_data m) 20)"
    and "unat (u32_at (m_data m) 32) + unat (u32_at (m_data m) 20) * 24 \<le> length (m_data m)"
  shows "collect_symbol m idx (u32_at (m_data m) 32) (u32_at (m_data m) 40) (u32_at (m_data m) 44) i syms
    \<noteq> Inl Wild"
  unfolding collect_symbol_eq [OF assms] by (simp split: option.split)

lemma collect_object_Wild:
  assumes "fits32 (m_data m)"
  shows "collect_symbols_from_object m idx syms \<noteq> Inl Wild"
proof -
  define obj where "obj = m_data m"
  note [simp] = obj_def [symmetric]
  have t: "\<not> (u32_at obj 32 > of_nat (length obj)
        \<or> u32_at obj 20 > (of_nat (length obj) - u32_at obj 32) div 24)
      \<longleftrightarrow> unat (u32_at obj 32) + unat (u32_at obj 20) * 24 \<le> length obj"
    using table_words [of "length obj" 24 "u32_at obj 32" "u32_at obj 20"] assms by simp
  have "foldM_res (collect_symbol m idx (u32_at obj 32) (u32_at obj 40) (u32_at obj 44))
      [1..<unat (u32_at obj 20)] syms \<noteq> Inl Wild"
    if "unat (u32_at obj 32) + unat (u32_at obj 20) * 24 \<le> length obj"
    using that collect_symbol_Wild [OF assms] by (force dest: foldM_res_Inl)
  with t show ?thesis
    by (auto simp: collect_symbols_from_object_def Let_def rbind_check_Inl rbind_Inl
        check_Inl ar_rd32_eq ar_rd16_eq split: if_splits)
qed

section \<open>The index of an archive\<close>

fun index_from :: "nat \<Rightarrow> bytes list \<Rightarrow> symbol_ref_t list" where
  "index_from i [] = []"
| "index_from i (obj # objs) = refs i (exports obj) @ index_from (i + 1) objs"

text \<open>An archive whose index is the exports of its members, in order.\<close>

definition index_of :: "archive_t \<Rightarrow> symbol_ref_t list" where
  "index_of ar = index_from 0 (map m_data (members ar))"

definition rebuildable :: "archive_t \<Rightarrow> bool" where
  "rebuildable ar \<longleftrightarrow> (\<forall>m \<in> set (members ar). indexable (m_data m))
     \<and> length (index_of ar) \<le> MAX_SYMBOLS"

lemma rebuild_loop:
  assumes "\<And>m. m \<in> set ms \<Longrightarrow> fits32 (m_data m)" "length syms \<le> MAX_SYMBOLS"
  shows "foldM_res (\<lambda>i s. collect_symbols_from_object ((pre @ ms) ! i) i s)
      [length pre..<length pre + length ms] syms = Inr syms'
    \<longleftrightarrow> (\<forall>m \<in> set ms. indexable (m_data m))
      \<and> length syms + length (index_from (length pre) (map m_data ms)) \<le> MAX_SYMBOLS
      \<and> syms' = syms @ index_from (length pre) (map m_data ms)"
  using assms
proof (induction ms arbitrary: pre syms)
  case Nil
  then show ?case by auto
next
  case (Cons m ms)
  have m: "fits32 (m_data m)" using Cons.prems(1) by simp
  have up: "[length pre..<length pre + length (m # ms)]
      = length pre # [length (pre @ [m])..<length (pre @ [m]) + length ms]"
    by (simp add: upt_conv_Cons del: upt_Suc)
  have IH: "foldM_res (\<lambda>i s. collect_symbols_from_object ((pre @ m # ms) ! i) i s)
      [length (pre @ [m])..<length (pre @ [m]) + length ms] s = Inr syms'
    \<longleftrightarrow> (\<forall>m \<in> set ms. indexable (m_data m))
      \<and> length s + length (index_from (length pre + 1) (map m_data ms)) \<le> MAX_SYMBOLS
      \<and> syms' = s @ index_from (length pre + 1) (map m_data ms)" if "length s \<le> MAX_SYMBOLS" for s
    using Cons.IH [of s "pre @ [m]"] Cons.prems(1) that by simp
  show ?case
  proof (cases "indexable (m_data m) \<and> length syms + length (exports (m_data m)) \<le> MAX_SYMBOLS")
    case True
    then have "collect_symbols_from_object m (length pre) syms
        = Inr (syms @ refs (length pre) (exports (m_data m)))"
      by (simp add: collect_object [OF m])
    then show ?thesis using True IH [of "syms @ refs (length pre) (exports (m_data m))"]
      unfolding up by (auto simp: add.assoc simp del: upt_Suc)
  next
    case False
    then have "collect_symbols_from_object m (length pre) syms \<noteq> Inr s" for s
      using Cons.prems(2) by (auto simp: collect_object [OF m])
    then have "foldM_res (\<lambda>i s. collect_symbols_from_object ((pre @ m # ms) ! i) i s)
        [length pre..<length pre + length (m # ms)] syms \<noteq> Inr syms'"
      unfolding up by (auto simp: rbind_Inr simp del: upt_Suc)
    with False show ?thesis by auto
  qed
qed

text \<open>Members whose sizes are 32-bit values, as every member of an archive is.\<close>

definition sized :: "archive_t \<Rightarrow> bool" where
  "sized ar \<longleftrightarrow> (\<forall>m \<in> set (members ar). fits32 (m_data m))"

lemma rebuild_Inr:
  "sized ar \<Longrightarrow> rebuild_symbol_index ar = Inr ar' \<longleftrightarrow>
    rebuildable ar \<and> ar' = ar\<lparr>symbols := index_of ar\<rparr>"
  using rebuild_loop [of "members ar" "[]" "[]"]
  by (auto simp: rebuild_symbol_index_def rbind_Inr rebuildable_def index_of_def sized_def)

lemma rebuild_Wild:
  assumes "sized ar"
  shows "rebuild_symbol_index ar \<noteq> Inl Wild"
proof -
  have "foldM_res (\<lambda>i s. collect_symbols_from_object (members ar ! i) i s)
      [0..<length (members ar)] [] \<noteq> Inl Wild"
    using assms collect_object_Wild by (force simp: sized_def dest: foldM_res_Inl)
  then show ?thesis by (auto simp: rebuild_symbol_index_def rbind_Inl)
qed

section \<open>Loading reads only the file\<close>

lemma table_in_words:
  fixes off count :: u32
  assumes "fits32 buf"
  shows "\<not> (off > of_nat (length buf) \<or> count > (of_nat (length buf) - off) div 16)
      \<longleftrightarrow> unat off + unat count * 16 \<le> length buf"
    and "\<not> (off > of_nat (length buf) \<or> count > (of_nat (length buf) - off) div 8)
      \<longleftrightarrow> unat off + unat count * 8 \<le> length buf"
    and "\<not> (off > of_nat (length buf) \<or> count > of_nat (length buf) - off)
      \<longleftrightarrow> unat off + unat count \<le> length buf"
  using table_words [OF assms, of 16 off count] table_words [OF assms, of 8 off count]
    range_words [OF assms, of off count] by simp_all

lemma load_member_eq:
  assumes "fits32 buf" "unat mto + unat n * 16 \<le> length buf" "i < unat n"
  defines "p \<equiv> unat mto + i * 16"
  shows "load_member buf mto str_off str_size i =
    (case table_string buf str_off str_size (u32_at buf p) of
       None \<Rightarrow> Inl (Die ''invalid archive member name'' [])
     | Some name \<Rightarrow>
         if name = [] then Inl (Die ''invalid archive member name'' [])
         else if unat (u32_at buf (p + 4)) + unat (u32_at buf (p + 8)) \<le> length buf then
           Inr \<lparr>m_name = name,
             m_data = slice (unat (u32_at buf (p + 4))) (unat (u32_at buf (p + 8))) buf\<rparr>
         else Inl (Die ''invalid archive member bounds'' []))"
proof -
  have "Suc i * 16 \<le> unat n * 16" using assms(3) by (intro mult_le_mono1) simp
  then have "p + 16 \<le> length buf" using assms(2) by (simp add: p_def)
  then show ?thesis
    using table_in_words(3) [OF assms(1), of "u32_at buf (p + 4)" "u32_at buf (p + 8)"]
    by (auto simp: load_member_def p_def [symmetric] Let_def ar_rd32_eq obj_string_eq [OF assms(1)]
        check_def split: option.split)
qed

lemma load_member_Wild:
  assumes "fits32 buf" "unat mto + unat n * 16 \<le> length buf" "i < unat n"
  shows "load_member buf mto str_off str_size i \<noteq> Inl Wild"
  unfolding load_member_eq [OF assms] by (simp split: option.split)

lemma load_member_sized:
  assumes "fits32 buf" "load_member buf mto str_off str_size i = Inr m"
  shows "fits32 (m_data m) \<and> m_name m \<noteq> [] \<and> 0 \<notin> set (m_name m)"
proof -
  obtain name off sz where m: "m = \<lparr>m_name = the name, m_data = slice off sz buf\<rparr>"
    "name \<noteq> None" "name \<noteq> Some []" "off + sz \<le> length buf"
    and t: "\<exists>name_off. name = table_string buf str_off str_size name_off"
    using assms by (auto simp: load_member_def Let_def rbind_Inr rbind_check_Inr get_block_def
        obj_string_eq split: if_splits)
  from m(2) obtain y where y: "name = Some y" by blast
  then have "0 \<notin> set y"
    using t by (auto simp: table_string_def cstring_at_no_nul split: if_splits)
  then show ?thesis using m y assms(1) by simp
qed

lemma load_image_Wild:
  assumes "fits32 buf"
  shows "load_image path allow buf \<noteq> Inl Wild"
proof
  assume w: "load_image path allow buf = Inl Wild"
  note t = table_in_words [OF assms]
  have ms: "mapM_res (load_member buf (u32_at buf 24) a b) [0..<unat (u32_at buf 16)] \<noteq> Inl Wild"
    if "unat (u32_at buf 24) + unat (u32_at buf 16) * 16 \<le> length buf" for a b
  proof
    assume "mapM_res (load_member buf (u32_at buf 24) a b) [0..<unat (u32_at buf 16)] = Inl Wild"
    from mapM_res_Inl [OF this] obtain i where "i < unat (u32_at buf 16)"
      "load_member buf (u32_at buf 24) a b i = Inl Wild" by auto
    with load_member_Wild [OF assms that, of i a b] show False by simp
  qed
  have rb: "rebuild_symbol_index \<lparr>members = xs, symbols = []\<rparr> \<noteq> Inl Wild"
    if "mapM_res (load_member buf c a b) [0..<k] = Inr xs" for xs a b c k
  proof (rule rebuild_Wild)
    show "sized \<lparr>members = xs, symbols = []\<rparr>"
      using that load_member_sized [OF assms]
      by (fastforce simp: sized_def mapM_res_Inr in_set_conv_nth)
  qed
  show False using w t(1) [of "u32_at buf 24" "u32_at buf 16"] ms rb
    by (auto simp: load_image_def Let_def rbind_check_Inl rbind_Inl check_Inl
        ar_rd32_eq ar_rd16_eq split: if_splits)
qed

text \<open>What a loaded archive is like.\<close>

definition archive_ok :: "archive_t \<Rightarrow> bool" where
  "archive_ok ar \<longleftrightarrow> sized ar \<and> rebuildable ar \<and> symbols ar = index_of ar
     \<and> length (members ar) \<le> MAX_MEMBERS
     \<and> (\<forall>m \<in> set (members ar). m_name m \<noteq> [] \<and> 0 \<notin> set (m_name m))"

lemma load_image_ok:
  assumes "fits32 buf" "load_image path False buf = Inr ar"
  shows "archive_ok ar"
proof -
  obtain ms n a b c where ms: "mapM_res (load_member buf a b c) [0..<n] = Inr ms" "n \<le> MAX_MEMBERS"
    and r: "rebuild_symbol_index \<lparr>members = ms, symbols = []\<rparr> = Inr ar"
    using assms(2) by (auto simp: load_image_def Let_def rbind_Inr rbind_check_Inr split: if_splits)
  have m: "length ms \<le> MAX_MEMBERS"
    "\<forall>m \<in> set ms. fits32 (m_data m) \<and> m_name m \<noteq> [] \<and> 0 \<notin> set (m_name m)"
    using ms load_member_sized [OF assms(1)] by (fastforce simp: mapM_res_Inr in_set_conv_nth)+
  then have "sized \<lparr>members = ms, symbols = []\<rparr>" by (simp add: sized_def)
  from r [unfolded rebuild_Inr [OF this]] m show ?thesis
    by (auto simp: archive_ok_def sized_def rebuildable_def index_of_def)
qed

end
