(* ===== verification/T32_Archive_Image.thy ===== *)
theory T32_Archive_Image
  imports T32_Archive_Laws
begin

text \<open>
  The archive file as one byte list, \<open>image\<close>, from the layout that the format document
  leaves to the implementation: header, member table, symbol table, strings, data. On a host
  without faults \<open>write_stream\<close> writes exactly the image, and loading an image gives back the
  archive.
\<close>

section \<open>The layout\<close>

definition string_list :: "archive_t \<Rightarrow> bytes list" where
  "string_list ar = map m_name (members ar) @ map ref_name (symbols ar)"

definition strings_of :: "archive_t \<Rightarrow> bytes" where
  "strings_of ar = c_string [] @ concat (map c_string (string_list ar))"

definition string_offsets :: "archive_t \<Rightarrow> nat list" where
  "string_offsets ar = block_offsets 1 (map c_string (string_list ar))"

abbreviation symbol_start :: "archive_t \<Rightarrow> nat" where
  "symbol_start ar \<equiv> 40 + length (members ar) * 16"

abbreviation string_start :: "archive_t \<Rightarrow> nat" where
  "string_start ar \<equiv> symbol_start ar + length (symbols ar) * 8"

abbreviation data_start :: "archive_t \<Rightarrow> nat" where
  "data_start ar \<equiv> string_start ar + length (strings_of ar)"

definition data_offsets :: "archive_t \<Rightarrow> nat list" where
  "data_offsets ar = block_offsets (data_start ar) (map m_data (members ar))"

definition member_entry :: "nat \<Rightarrow> nat \<Rightarrow> nat \<Rightarrow> bytes" where
  "member_entry name_off off size' =
     le32 (of_nat name_off) @ le32 (of_nat off) @ le32 (of_nat size') @ le32 0"

definition symbol_entry :: "nat \<Rightarrow> nat \<Rightarrow> bytes" where
  "symbol_entry name_off idx = le32 (of_nat name_off) @ le32 (of_nat idx)"

definition member_entries :: "archive_t \<Rightarrow> bytes list" where
  "member_entries ar =
     map (\<lambda>i. member_entry (string_offsets ar ! i) (data_offsets ar ! i)
       (length (m_data (members ar ! i)))) [0..<length (members ar)]"

definition symbol_entries :: "archive_t \<Rightarrow> bytes list" where
  "symbol_entries ar =
     map (\<lambda>i. symbol_entry (string_offsets ar ! (length (members ar) + i))
       (ref_member_index (symbols ar ! i))) [0..<length (symbols ar)]"

definition archive_header :: "archive_t \<Rightarrow> bytes" where
  "archive_header ar =
     AR_MAGIC @ [1, 0, 0, 0] @ concat (map (\<lambda>n. le32 (of_nat n))
       [data_start ar, length (members ar), length (symbols ar), 40, symbol_start ar,
        string_start ar, length (strings_of ar)])"

definition image :: "archive_t \<Rightarrow> bytes" where
  "image ar = archive_header ar @ concat (member_entries ar) @ concat (symbol_entries ar)
     @ strings_of ar @ concat (map m_data (members ar))"

lemma length_archive_header [simp]: "length (archive_header ar) = 40"
  by (simp add: archive_header_def AR_MAGIC_def)

lemma length_member_entry [simp]: "length (member_entry a b c) = 16"
  by (simp add: member_entry_def)

lemma length_symbol_entry [simp]: "length (symbol_entry a b) = 8"
  by (simp add: symbol_entry_def)

lemma entries_width:
  "b \<in> set (member_entries ar) \<Longrightarrow> length b = 16" "c \<in> set (symbol_entries ar) \<Longrightarrow> length c = 8"
  by (auto simp: member_entries_def symbol_entries_def)

lemma length_entries [simp]:
  "length (member_entries ar) = length (members ar)"
  "length (symbol_entries ar) = length (symbols ar)"
  by (simp_all add: member_entries_def symbol_entries_def)

lemma length_concat_entries [simp]:
  "length (concat (member_entries ar)) = length (members ar) * 16"
  "length (concat (symbol_entries ar)) = length (symbols ar) * 8"
  using length_concat_width [of "member_entries ar" 16, OF entries_width(1)]
    length_concat_width [of "symbol_entries ar" 8, OF entries_width(2)]
  by simp_all

lemma length_image: "length (image ar) = data_start ar + length (concat (map m_data (members ar)))"
  by (simp add: image_def)

section \<open>The writer produces the image\<close>

lemma low_byte:
  "ucast (v AND 0xff) = (ucast v :: u8)" "ucast (w AND 0xff) = (ucast w :: u8)"
  for v :: u16 and w :: u32
proof -
  have m: "(0xff :: u16) = mask 8" "(0xff :: u32) = mask 8" by (simp_all add: mask_eq_exp_minus_1)
  show "ucast (v AND 0xff) = (ucast v :: u8)" unfolding m
    by (rule bit_word_eqI) (auto simp: bit_simps)
  show "ucast (w AND 0xff) = (ucast w :: u8)" unfolding m
    by (rule bit_word_eqI) (auto simp: bit_simps)
qed

lemma wr_appending:
  assumes "appending f"
  shows "appending (wr16 v f)" "hf_bytes (wr16 v f) = hf_bytes f @ le16 v"
    and "appending (wr32 w f)" "hf_bytes (wr32 w f) = hf_bytes f @ le32 w"
  using assms by (simp_all add: wr16_def wr32_def put_appending le16_def le32_def low_byte)

lemma add_strings_eq:
  "add_strings ss table (of_nat n) =
    (map of_nat (block_offsets n (map c_string ss)), table @ concat (map c_string ss),
     of_nat (n + length (concat (map c_string ss))))"
proof (induction ss arbitrary: table n)
  case (Cons s ss)
  have "(of_nat n + of_nat (length s + 1) :: u32) = of_nat (n + (length s + 1))" by simp
  then show ?case
    using Cons.IH [of "table @ s @ [0]" "n + (length s + 1)"]
    by (simp add: add_string_def c_string_def add.assoc del: of_nat_add of_nat_Suc)
qed simp

lemma write_members_eq:
  assumes "appending f"
  shows "appending (write_members (zip (map of_nat offs) ms) (of_nat k) f)
    \<and> (length offs = length ms \<longrightarrow>
       hf_bytes (write_members (zip (map of_nat offs) ms) (of_nat k) f) = hf_bytes f
       @ concat (map (\<lambda>i. member_entry (offs ! i) (block_offsets k (map m_data ms) ! i)
           (length (m_data (ms ! i)))) [0..<length ms]))"
  using assms
proof (induction ms arbitrary: f k offs)
  case (Cons m ms)
  show ?case
  proof (cases offs)
    case (Cons o' offs')
    let ?f = "wr32 0 (wr32 (of_nat (length (m_data m))) (wr32 (of_nat k) (wr32 (of_nat o') f)))"
    have f: "appending ?f" using Cons.prems by (simp add: wr_appending)
    have fb: "hf_bytes ?f = hf_bytes f @ member_entry o' k (length (m_data m))"
      using Cons.prems by (simp add: wr_appending member_entry_def)
    have up: "[0..<length (m # ms)] = 0 # map Suc [0..<length ms]"
      by (simp add: upt_conv_Cons map_Suc_upt del: upt_Suc)
    show ?thesis
      using Cons.IH [OF f, of offs' "k + length (m_data m)"] fb f
      unfolding up by (simp add: Cons comp_def)
  qed (use Cons.prems in simp)
qed simp

lemma write_symbols_eq:
  assumes "appending f"
  shows "appending (write_symbols (zip (map of_nat offs) ys) f)
    \<and> (length offs = length ys \<longrightarrow>
       hf_bytes (write_symbols (zip (map of_nat offs) ys) f) = hf_bytes f
       @ concat (map (\<lambda>i. symbol_entry (offs ! i) (ref_member_index (ys ! i))) [0..<length ys]))"
  using assms
proof (induction ys arbitrary: f offs)
  case (Cons y ys)
  show ?case
  proof (cases offs)
    case (Cons o' offs')
    let ?f = "wr32 (of_nat (ref_member_index y)) (wr32 (of_nat o') f)"
    have f: "appending ?f" using Cons.prems by (simp add: wr_appending)
    have fb: "hf_bytes ?f = hf_bytes f @ symbol_entry o' (ref_member_index y)"
      using Cons.prems by (simp add: wr_appending symbol_entry_def)
    have up: "[0..<length (y # ys)] = 0 # map Suc [0..<length ys]"
      by (simp add: upt_conv_Cons map_Suc_upt del: upt_Suc)
    show ?thesis
      using Cons.IH [OF f, of offs'] fb f
      unfolding up by (simp add: Cons comp_def)
  qed (use Cons.prems in simp)
qed simp

lemma block_offsets_append:
  "block_offsets k (xs @ ys) = block_offsets k xs @ block_offsets (k + length (concat xs)) ys"
  by (induction xs arbitrary: k) (simp_all add: add.assoc)

lemma string_offsets_split:
  "string_offsets ar = block_offsets 1 (map c_string (map m_name (members ar)))
     @ block_offsets (1 + length (concat (map c_string (map m_name (members ar)))))
         (map c_string (map ref_name (symbols ar)))"
  by (simp add: string_offsets_def string_list_def block_offsets_append)

lemma string_offsets_nth:
  "i < length (members ar) \<Longrightarrow>
   string_offsets ar ! i = block_offsets 1 (map c_string (map m_name (members ar))) ! i"
  "string_offsets ar ! (length (members ar) + i)
   = block_offsets (1 + length (concat (map c_string (map m_name (members ar)))))
       (map c_string (map ref_name (symbols ar))) ! i"
  unfolding string_offsets_split by (simp_all add: nth_append)

lemma length_fit: "fits32 bs \<Longrightarrow> unat (of_nat (length bs) :: u32) = length bs"
  by (rule unat_of_nat32)

lemma write_stream_image:
  assumes f0: "appending f0" "hf_bytes f0 = []" and fit: "fits32 (strings_of ar)"
  shows "appending (write_stream ar f0) \<and> hf_bytes (write_stream ar f0) = image ar"
proof -
  define ns where "ns = map m_name (members ar)"
  define rs where "rs = map ref_name (symbols ar)"
  define n1 where "n1 = 1 + length (concat (map c_string ns))"
  have strings: "[0] @ concat (map c_string ns) @ concat (map c_string rs) = strings_of ar"
    by (simp add: strings_of_def string_list_def ns_def rs_def c_string_def)
  then have n: "n1 + length (concat (map c_string rs)) = length (strings_of ar)"
    by (simp add: n1_def flip: strings)
  have t0: "add_string [] (0, [], 0) = (0, [0], of_nat 1)" by (simp add: add_string_def)
  have t1: "add_strings ns [0] (of_nat 1)
      = (map of_nat (block_offsets 1 (map c_string ns)), [0] @ concat (map c_string ns), of_nat n1)"
    unfolding n1_def by (rule add_strings_eq)
  have t2: "add_strings rs ([0] @ concat (map c_string ns)) (of_nat n1)
      = (map of_nat (block_offsets n1 (map c_string rs)), strings_of ar, of_nat (length (strings_of ar)))"
    using add_strings_eq [of rs "[0] @ concat (map c_string ns)" n1] strings n by simp
  define f4 where "f4 = wr32 (of_nat (length (strings_of ar))) (wr32 (of_nat (string_start ar))
    (wr32 (of_nat (symbol_start ar)) (wr32 (of_nat 40)
    (wr32 (of_nat (length (symbols ar))) (wr32 (of_nat (length (members ar)))
    (wr32 (of_nat (data_start ar)) (wr16 0 (wr16 1 (put AR_MAGIC f0)))))))))"
  have f4: "appending f4" "hf_bytes f4 = archive_header ar"
    using f0 by (simp_all add: f4_def wr_appending put_appending archive_header_def le16_def
        del: of_nat_add of_nat_mult of_nat_numeral)
  define f5 where "f5 = write_members (zip (map of_nat (block_offsets 1 (map c_string ns))) (members ar))
    (of_nat (data_start ar)) f4"
  have f5: "appending f5" "hf_bytes f5 = archive_header ar @ concat (member_entries ar)"
    using write_members_eq [OF f4(1), of "block_offsets 1 (map c_string ns)" "members ar" "data_start ar"] f4(2)
    by (auto simp: f5_def ns_def member_entries_def data_offsets_def string_offsets_nth(1)
        intro!: arg_cong [of _ _ concat])
  define f6 where "f6 = write_symbols (zip (map of_nat (block_offsets n1 (map c_string rs))) (symbols ar)) f5"
  have f6: "appending f6"
    "hf_bytes f6 = archive_header ar @ concat (member_entries ar) @ concat (symbol_entries ar)"
    using write_symbols_eq [OF f5(1), of "block_offsets n1 (map c_string rs)" "symbols ar"] f5(2)
    by (simp_all add: f6_def rs_def symbol_entries_def string_offsets_nth(2) n1_def ns_def comp_def)
  have d: "fold (\<lambda>m. put (m_data m)) ms f = fold put (map m_data ms) f" for ms f
    by (simp add: fold_map comp_def)
  have "write_stream ar f0 = fold (\<lambda>m. put (m_data m)) (members ar) (put (strings_of ar) f6)"
    unfolding write_stream_def t0 ns_def [symmetric] rs_def [symmetric] prod.case t1 t2 Let_def
      f6_def f5_def f4_def
    using length_fit [OF fit] by (simp add: add_ac)
  then show ?thesis
    using foldl_put [OF put_appending(1) [OF f6(1)], of "map m_data (members ar)" "strings_of ar"]
      put_appending(2) [OF f6(1)] f6(2)
    by (simp add: d image_def)
qed

section \<open>Loading inverts writing\<close>

lemma block_offsets_shift:
  "i < length bs \<Longrightarrow> block_offsets (k + d) bs ! i = d + block_offsets k bs ! i"
proof (induction bs arbitrary: k i)
  case (Cons b bs)
  from Cons.prems Cons.IH [of _ "k + length b"] show ?case
    by (cases i) (simp_all add: ac_simps)
qed simp

abbreviation header_fields :: "archive_t \<Rightarrow> nat list" where
  "header_fields ar \<equiv> [data_start ar, length (members ar), length (symbols ar), 40, symbol_start ar,
     string_start ar, length (strings_of ar)]"

lemma image_field:
  assumes "j < 7"
  shows "u32_at (image ar) (12 + j * 4) = of_nat (header_fields ar ! j)"
proof -
  define fs where "fs = header_fields ar"
  define post where "post = concat (member_entries ar) @ concat (symbol_entries ar) @ strings_of ar
    @ concat (map m_data (members ar))"
  let ?pre = "AR_MAGIC @ [1, 0, 0, 0]"
  have len: "length fs = 7" "length ?pre = 12" by (simp_all add: fs_def AR_MAGIC_def)
  have im: "image ar = ?pre @ concat (map (\<lambda>n. le32 (of_nat n)) fs) @ post"
    unfolding image_def archive_header_def fs_def post_def by (simp only: append.assoc)
  have "b \<in> set (map (\<lambda>n. le32 (of_nat n)) fs) \<Longrightarrow> length b = 4" for b by auto
  then have "slice (12 + j * 4) 4 (image ar) = map (\<lambda>n. le32 (of_nat n)) fs ! j"
    using entry_at_slice [of "map (\<lambda>n. le32 (of_nat n)) fs" 4 j ?pre post] assms len
    unfolding im by simp
  then show ?thesis using assms len unfolding fs_def [symmetric] by (simp add: u32_at_def)
qed

lemma image_fields:
  "u32_at (image ar) 12 = of_nat (data_start ar)" "u32_at (image ar) 16 = of_nat (length (members ar))"
  "u32_at (image ar) 20 = of_nat (length (symbols ar))" "u32_at (image ar) 24 = 40"
  "u32_at (image ar) 28 = of_nat (symbol_start ar)" "u32_at (image ar) 32 = of_nat (string_start ar)"
  "u32_at (image ar) 36 = of_nat (length (strings_of ar))"
  using image_field [of 0 ar] image_field [of 1 ar] image_field [of 2 ar] image_field [of 3 ar]
    image_field [of 4 ar] image_field [of 5 ar] image_field [of 6 ar]
  by simp_all

lemma image_start:
  "slice 0 8 (image ar) = AR_MAGIC" "u16_at (image ar) 8 = 1" "40 \<le> length (image ar)"
  by (simp_all add: image_def archive_header_def AR_MAGIC_def slice_def u16_at_def of_le16_def)

lemma image_member_entry:
  assumes "i < length (members ar)"
  shows "slice (40 + i * 16) 16 (image ar)
    = member_entry (string_offsets ar ! i) (data_offsets ar ! i) (length (m_data (members ar ! i)))"
proof -
  have "slice (40 + i * 16) 16 (image ar) = member_entries ar ! i"
    using entry_at_slice [of "member_entries ar" 16 i "archive_header ar"
        "concat (symbol_entries ar) @ strings_of ar @ concat (map m_data (members ar))",
        OF entries_width(1)] assms
    by (simp add: image_def)
  then show ?thesis using assms by (simp add: member_entries_def)
qed

lemma image_member_fields:
  assumes "i < length (members ar)"
  shows "u32_at (image ar) (40 + i * 16) = of_nat (string_offsets ar ! i)"
    and "u32_at (image ar) (40 + i * 16 + 4) = of_nat (data_offsets ar ! i)"
    and "u32_at (image ar) (40 + i * 16 + 8) = of_nat (length (m_data (members ar ! i)))"
  using u32_at_field [of 0 16 "image ar" "40 + i * 16"] u32_at_field [of 4 16 "image ar" "40 + i * 16"]
    u32_at_field [of 8 16 "image ar" "40 + i * 16"]
  unfolding image_member_entry [OF assms]
  by (simp_all add: member_entry_def u32_at_def slice_def)

lemma image_string:
  assumes "i < length (string_list ar)" "0 \<notin> set (string_list ar ! i)"
  shows "cstring_at (image ar) (string_start ar + string_offsets ar ! i) = string_list ar ! i"
    and "string_offsets ar ! i + length (string_list ar ! i) < length (strings_of ar)"
    and "image ar ! (string_start ar + string_offsets ar ! i + length (string_list ar ! i)) = 0"
proof -
  define pre where "pre = archive_header ar @ concat (member_entries ar) @ concat (symbol_entries ar) @ c_string []"
  have im: "image ar = pre @ concat (map c_string (string_list ar)) @ concat (map m_data (members ar))"
    by (simp add: image_def pre_def strings_of_def)
  have len: "length pre = string_start ar + 1" by (simp add: pre_def)
  have off: "block_offsets (length pre) (map c_string (string_list ar)) ! i
      = string_start ar + string_offsets ar ! i"
    using block_offsets_shift [of i "map c_string (string_list ar)" 1 "string_start ar"] assms(1)
    by (simp add: len string_offsets_def)
  note c1 = c_string_at(1) [OF assms, of pre "concat (map m_data (members ar))", unfolded off, folded im]
  note c2 = c_string_at(2) [OF assms, of pre, unfolded off]
  note c3 = c_string_at(3) [OF assms, of pre "concat (map m_data (members ar))", unfolded off, folded im]
  show "cstring_at (image ar) (string_start ar + string_offsets ar ! i) = string_list ar ! i" by (rule c1)
  show "string_offsets ar ! i + length (string_list ar ! i) < length (strings_of ar)"
    using c2 by (simp add: len strings_of_def)
  show "image ar ! (string_start ar + string_offsets ar ! i + length (string_list ar ! i)) = 0"
    by (rule c3)
qed

lemma image_data:
  assumes "i < length (members ar)"
  shows "slice (data_offsets ar ! i) (length (m_data (members ar ! i))) (image ar) = m_data (members ar ! i)"
    and "data_offsets ar ! i + length (m_data (members ar ! i)) \<le> length (image ar)"
proof -
  define pre where "pre = archive_header ar @ concat (member_entries ar) @ concat (symbol_entries ar)
    @ strings_of ar"
  have im: "image ar = pre @ concat (map m_data (members ar)) @ []"
    by (simp add: image_def pre_def)
  have "length pre = data_start ar" by (simp add: pre_def)
  then show "slice (data_offsets ar ! i) (length (m_data (members ar ! i))) (image ar) = m_data (members ar ! i)"
    and "data_offsets ar ! i + length (m_data (members ar ! i)) \<le> length (image ar)"
    using block_at [of i "map m_data (members ar)" pre "[]"] assms
    by (simp_all add: im data_offsets_def length_image)
qed

lemma image_table_string:
  assumes fit: "fits32 (image ar)" and i: "i < length (string_list ar)" "0 \<notin> set (string_list ar ! i)"
  shows "table_string (image ar) (of_nat (string_start ar)) (of_nat (length (strings_of ar)))
    (of_nat (string_offsets ar ! i)) = Some (string_list ar ! i)"
proof -
  note s = image_string [OF i]
  have bounds: "string_start ar < 2 ^ 32" "length (strings_of ar) < 2 ^ 32" "string_offsets ar ! i < 2 ^ 32"
    using fit s(2) by (simp_all add: length_image)
  note u = bounds [THEN unat_of_nat32]
  have lt: "(of_nat (string_offsets ar ! i) :: u32) < of_nat (length (strings_of ar))"
    unfolding word_less_nat_alt u using s(2) by simp
  have le: "string_start ar + length (strings_of ar) \<le> length (image ar)"
    by (simp add: length_image)
  let ?sl = "slice (string_start ar + string_offsets ar ! i)
    (length (strings_of ar) - string_offsets ar ! i) (image ar)"
  have "?sl ! length (string_list ar ! i) = 0"
    using s(2,3) le by (subst nth_slice) (simp_all add: add.assoc)
  moreover have "length (string_list ar ! i) < length ?sl" using s(2) le by simp
  ultimately have "0 \<in> set ?sl" by (metis nth_mem)
  then show ?thesis using lt le s(1) unfolding table_string_def u by simp
qed

lemma load_image_image:
  assumes ok: "archive_ok ar" and fit: "fits32 (image ar)"
  shows "load_image path allow (image ar) = Inr ar"
proof -
  let ?buf = "image ar"
  have n: "length (members ar) < 2 ^ 32" "length (symbols ar) < 2 ^ 32" "data_start ar < 2 ^ 32"
    "symbol_start ar < 2 ^ 32" "string_start ar < 2 ^ 32" "length (strings_of ar) < 2 ^ 32"
    using fit by (simp_all add: length_image)
  note u = n [THEN unat_of_nat32]
  have counts: "length (members ar) \<le> MAX_MEMBERS" "length (symbols ar) \<le> MAX_SYMBOLS"
    using ok by (simp_all add: archive_ok_def rebuildable_def)
  note t = table_in_words [OF fit]
  have tables: "unat (40 :: u32) + unat (of_nat (length (members ar)) :: u32) * 16 \<le> length ?buf"
    "unat (of_nat (symbol_start ar) :: u32) + unat (of_nat (length (symbols ar)) :: u32) * 8 \<le> length ?buf"
    "unat (of_nat (string_start ar) :: u32) + unat (of_nat (length (strings_of ar)) :: u32) \<le> length ?buf"
    unfolding u by (simp_all add: length_image)
  have dat: "\<not> (of_nat (data_start ar) :: u32) > of_nat (length ?buf)"
    unfolding word_less_nat_alt u unat_of_nat32 [OF fit] by (simp add: length_image)
  have mem: "load_member ?buf 40 (of_nat (string_start ar)) (of_nat (length (strings_of ar))) i
      = Inr (members ar ! i)" if i: "i < length (members ar)" for i
  proof -
    have nm: "m_name (members ar ! i) \<noteq> []" "0 \<notin> set (m_name (members ar ! i))"
      using ok i by (simp_all add: archive_ok_def)
    have sl: "string_list ar ! i = m_name (members ar ! i)" "i < length (string_list ar)"
      using i by (simp_all add: string_list_def nth_append)
    note d = image_data [OF i]
    have du: "unat (of_nat (data_offsets ar ! i) :: u32) = data_offsets ar ! i"
      "unat (of_nat (length (m_data (members ar ! i))) :: u32) = length (m_data (members ar ! i))"
      using d(2) fit by (simp_all add: unat_of_nat32)
    have "unat (of_nat (length (members ar)) :: u32) = length (members ar)" by (rule u(1))
    then show ?thesis
      using load_member_eq [OF fit tables(1), of i] i image_member_fields [OF i] d nm
        image_table_string [OF fit sl(2)] sl(1) du
      by simp
  qed
  have "mapM_res (load_member ?buf 40 (of_nat (string_start ar)) (of_nat (length (strings_of ar))))
      [0..<length (members ar)] = Inr (members ar)"
    using mem by (simp add: mapM_res_Inr)
  moreover have "sized \<lparr>members = members ar, symbols = []\<rparr>" using ok by (simp add: archive_ok_def sized_def)
  then have "rebuild_symbol_index \<lparr>members = members ar, symbols = []\<rparr> = Inr ar"
    using ok by (simp add: rebuild_Inr) (simp add: archive_ok_def rebuildable_def index_of_def)
  ultimately show ?thesis
    using image_start [of ar] image_fields [of ar] counts tables dat u t(1) [of 40 "of_nat (length (members ar))"]
      t(2) [of "of_nat (symbol_start ar)" "of_nat (length (symbols ar))"]
      t(3) [of "of_nat (string_start ar)" "of_nat (length (strings_of ar))"]
    by (simp add: load_image_def Let_def check_def ar_rd32_eq ar_rd16_eq del: of_nat_add of_nat_mult)
qed

end
