(* ===== verification/T32_Ar.thy ===== *)
theory T32_Ar
  imports T32_Archive_Image
begin

text \<open>
  The operations of \<open>t32-ar\<close> on the members as a store of data by name, the program as a whole,
  and the properties with their witnesses.
\<close>

section \<open>A store by key\<close>

text \<open>What the \<open>r\<close> command relies on: inserting under a key is visible under that key only.\<close>

locale keyed_store =
  fixes look :: "'s \<Rightarrow> 'k \<Rightarrow> 'v option" and ins :: "'k \<Rightarrow> 'v \<Rightarrow> 's \<Rightarrow> 's"
  assumes look_ins: "look (ins k v s) n = (if n = k then Some v else look s n)"
begin

text \<open>After a sequence of insertions the last one for each key counts.\<close>

lemma look_fold:
  "look (fold (\<lambda>(k, v). ins k v) kvs s) n
     = (case map_of (rev kvs) n of Some v \<Rightarrow> Some v | None \<Rightarrow> look s n)"
  by (induction kvs arbitrary: s)
    (auto simp: look_ins map_add_def split: option.split)

end

definition lookup_member :: "archive_t \<Rightarrow> bytes \<Rightarrow> bytes option" where
  "lookup_member ar name = map_option (\<lambda>i. m_data (members ar ! i)) (find_member ar name)"

definition set_member :: "bytes \<Rightarrow> bytes \<Rightarrow> archive_t \<Rightarrow> archive_t" where
  "set_member name data ar =
     (case find_member ar name of
        Some idx \<Rightarrow> ar\<lparr>members := (members ar)[idx := (members ar ! idx)\<lparr>m_data := data\<rparr>]\<rparr>
      | None \<Rightarrow> ar\<lparr>members := members ar @ [\<lparr>m_name = name, m_data = data\<rparr>]\<rparr>)"

text \<open>The first position of a name.\<close>

abbreviation first_index :: "bytes \<Rightarrow> member_t list \<Rightarrow> nat" where
  "first_index name ms \<equiv> length (takeWhile (\<lambda>m. m_name m \<noteq> name) ms)"

lemma find_from_eq:
  "find_from k ms name = (if name \<in> m_name ` set ms then Some (k + first_index name ms) else None)"
  by (induction ms arbitrary: k) auto

lemma find_member_eq:
  "find_member ar name = (if name \<in> m_name ` set (members ar)
     then Some (first_index name (members ar)) else None)"
  by (simp add: find_member_def find_from_eq)

lemma first_index_bound: "name \<in> m_name ` set ms \<Longrightarrow> first_index name ms < length ms"
  by (induction ms) auto

lemma first_index_name: "name \<in> m_name ` set ms \<Longrightarrow> m_name (ms ! first_index name ms) = name"
  by (induction ms) auto

abbreviation contents_map :: "member_t list \<Rightarrow> bytes \<Rightarrow> bytes option" where
  "contents_map ms \<equiv> map_of (map (\<lambda>m. (m_name m, m_data m)) ms)"

lemma contents_first:
  "contents_map ms name = (if name \<in> m_name ` set ms then Some (m_data (ms ! first_index name ms)) else None)"
  by (induction ms) auto

lemma lookup_member_map: "lookup_member ar name = contents_map (members ar) name"
  by (simp add: lookup_member_def find_member_eq contents_first)

lemma contents_update:
  "name \<in> m_name ` set ms \<Longrightarrow>
   contents_map (ms[first_index name ms := (ms ! first_index name ms)\<lparr>m_data := v\<rparr>]) n
     = (if n = name then Some v else contents_map ms n)"
  by (induction ms) auto

lemma lookup_set:
  "lookup_member (set_member k v ar) n = (if n = k then Some v else lookup_member ar n)"
proof (cases "k \<in> m_name ` set (members ar)")
  case True
  then show ?thesis
    by (simp add: lookup_member_map set_member_def find_member_eq contents_update)
next
  case False
  then have "map_of (map (\<lambda>m. (m_name m, m_data m)) (members ar)) k = None"
    by (auto simp: map_of_eq_None_iff)
  with False show ?thesis
    by (auto simp: lookup_member_map set_member_def find_member_eq map_add_def split: option.split)
qed

interpretation member_store: keyed_store lookup_member set_member
  by unfold_locales (rule lookup_set)

section \<open>Replace and delete\<close>

lemma replace_data_Inr:
  "replace_data path data ar = Inr ar' \<longleftrightarrow>
    8 \<le> length data \<and> slice 0 8 data = AR_OBJ_MAGIC
    \<and> (basename_portable path \<in> m_name ` set (members ar) \<or> length (members ar) < MAX_MEMBERS)
    \<and> ar' = set_member (basename_portable path) data ar"
  by (auto simp: replace_data_def Let_def rbind_check_Inr set_member_def find_member_eq)

lemma replace_data_Wild: "replace_data path data ar \<noteq> Inl Wild"
  by (auto simp: replace_data_def Let_def rbind_check_Inl check_Inl split: option.split)

lemma set_member_members:
  "m \<in> set (members (set_member k v ar)) \<Longrightarrow>
   m \<in> set (members ar) \<or> (m_data m = v \<and> m_name m = k)"
  using first_index_bound [of k "members ar"] first_index_name [of k "members ar"]
  by (auto simp: set_member_def find_member_eq in_set_conv_nth nth_list_update nth_append split: if_splits)

lemma delete_member_Inr:
  "delete_member name ar = Inr ar' \<longleftrightarrow> name \<in> m_name ` set (members ar)
    \<and> ar' = ar\<lparr>members := take (first_index name (members ar)) (members ar)
                @ drop (first_index name (members ar) + 1) (members ar)\<rparr>"
  by (auto simp: delete_member_def find_member_eq)

lemma names_deleted:
  "name \<in> m_name ` set ms \<Longrightarrow>
   map m_name (take (first_index name ms) ms @ drop (first_index name ms + 1) ms)
     = remove1 name (map m_name ms)"
  by (induction ms) auto

lemma contents_deleted:
  "name \<in> m_name ` set ms \<Longrightarrow> n \<noteq> name \<Longrightarrow>
   contents_map (take (first_index name ms) ms @ drop (first_index name ms + 1) ms) n = contents_map ms n"
  by (induction ms) auto

lemma delete_lookup:
  assumes "delete_member name ar = Inr ar'" "distinct (map m_name (members ar))"
  shows "lookup_member ar' n = (if n = name then None else lookup_member ar n)"
    and "distinct (map m_name (members ar'))"
proof -
  have d: "name \<in> m_name ` set (members ar)"
    "map m_name (members ar') = remove1 name (map m_name (members ar))"
    using assms(1) names_deleted [of name "members ar"] by (simp_all add: delete_member_Inr)
  show "distinct (map m_name (members ar'))" unfolding d(2) using assms(2) by (rule distinct_remove1)
  show "lookup_member ar' n = (if n = name then None else lookup_member ar n)"
  proof (cases "n = name")
    case True
    have "name \<notin> set (map m_name (members ar'))" unfolding d(2) using assms(2) by simp
    then have "name \<notin> m_name ` set (members ar')" by simp
    with True show ?thesis by (simp add: lookup_member_def find_member_eq)
  next
    case False
    then show ?thesis using assms(1) contents_deleted [OF d(1) False]
      by (simp add: lookup_member_map delete_member_Inr)
  qed
qed

section \<open>The program does not read outside a buffer\<close>

lemma ar_read_file_facts:
  "fst (ar_read_file path w) \<noteq> Inl Wild" "w_files (snd (ar_read_file path w)) = w_files w"
  "fst (ar_read_file path w) = Inr data \<Longrightarrow> fits32 data"
  by (auto simp: ar_read_file_def fopen_rb_def case_prod_beta split: option.splits if_splits)

lemma load_archive_facts:
  "fst (load_archive path False w) \<noteq> Inl Wild" "w_files (snd (load_archive path False w)) = w_files w"
  "fst (load_archive path False w) = Inr ar \<Longrightarrow> archive_ok ar"
proof -
  obtain r w1 where r: "ar_read_file path w = (r, w1)" by force
  note f = ar_read_file_facts [of path w] 
  show "fst (load_archive path False w) \<noteq> Inl Wild"
    using f(1) f(3) r load_image_Wild by (cases r) (auto simp: load_archive_def)
  show "w_files (snd (load_archive path False w)) = w_files w"
    using f(2) r by (cases r) (simp_all add: load_archive_def)
  show "fst (load_archive path False w) = Inr ar \<Longrightarrow> archive_ok ar"
    using f(3) r load_image_ok by (cases r) (auto simp: load_archive_def)
qed

lemma replace_member_facts:
  "fst (replace_member path (ar, w)) \<noteq> Inl Wild"
  "w_files (snd (replace_member path (ar, w))) = w_files w"
  "sized ar \<Longrightarrow> fst (replace_member path (ar, w)) = Inr ar' \<Longrightarrow> sized ar'"
proof -
  obtain r w1 where r: "ar_read_file path w = (r, w1)" by force
  note f = ar_read_file_facts [of path w]
  show "fst (replace_member path (ar, w)) \<noteq> Inl Wild"
    using f(1) r replace_data_Wild by (cases r) (auto simp: replace_member_def)
  show "w_files (snd (replace_member path (ar, w))) = w_files w"
    using f(2) r by (cases r) (simp_all add: replace_member_def)
  show "sized ar \<Longrightarrow> fst (replace_member path (ar, w)) = Inr ar' \<Longrightarrow> sized ar'"
    using f(3) r by (cases r)
      (auto simp: replace_member_def sized_def replace_data_Inr dest!: set_member_members)
qed

lemma replace_members_facts:
  "fst (replace_members paths (ar, w)) \<noteq> Inl Wild
   \<and> w_files (snd (replace_members paths (ar, w))) = w_files w
   \<and> (sized ar \<longrightarrow> fst (replace_members paths (ar, w)) = Inr ar' \<longrightarrow> sized ar')"
proof (induction paths arbitrary: ar w)
  case (Cons p ps)
  obtain r w1 where r: "replace_member p (ar, w) = (r, w1)" by force
  show ?case using replace_member_facts(1,2) [of p ar w] replace_member_facts(3) [of ar p w]
      Cons.IH [of _ w1] r by (cases r) auto
qed auto

lemma write_archive_facts:
  assumes "sized ar"
  shows "fst (write_archive path ar w) \<noteq> Inl Wild"
    and "fst (write_archive path ar w) = Inl e \<Longrightarrow> e \<noteq> Die ''cannot finalize '' path \<Longrightarrow>
      w_files (snd (write_archive path ar w)) = w_files w"
  using rebuild_Wild [OF assms]
  by (auto simp: write_archive_def fopen_wb_def case_prod_beta split: sum.splits option.splits if_splits)

lemma extract_member_Wild: "fst (extract_member m w) \<noteq> Inl Wild"
  by (auto simp: extract_member_def fopen_wb_def case_prod_beta split: if_splits option.splits)

lemma extract_members_Wild: "fst (extract_members ms w) \<noteq> Inl Wild"
proof (induction ms arbitrary: w)
  case (Cons m ms)
  obtain r w1 where "extract_member m w = (r, w1)" by force
  with extract_member_Wild [of m w] Cons.IH [of w1] show ?case by (cases r) auto
qed simp

lemma extract_named_Wild: "fst (extract_named ar names w) \<noteq> Inl Wild"
proof (induction names arbitrary: w)
  case (Cons name names)
  show ?case
  proof (cases "find_member ar name")
    case (Some i)
    obtain r w1 where "extract_member (members ar ! i) w = (r, w1)" by force
    with extract_member_Wild [of "members ar ! i" w] Cons.IH [of w1] Some show ?thesis by (cases r) auto
  qed simp
qed simp

lemma delete_sized: "sized ar \<Longrightarrow> delete_member name ar = Inr ar' \<Longrightarrow> sized ar'"
  by (auto simp: delete_member_Inr sized_def dest: in_set_takeD in_set_dropD)

lemma deletes_facts:
  "foldM_res delete_member names ar \<noteq> Inl Wild
   \<and> (sized ar \<longrightarrow> foldM_res delete_member names ar = Inr ar' \<longrightarrow> sized ar')"
proof (induction names arbitrary: ar)
  case (Cons name names)
  show ?case
  proof (cases "delete_member name ar")
    case (Inl e)
    then have "e \<noteq> Wild" by (auto simp: delete_member_def split: option.splits)
    with Inl show ?thesis by simp
  next
    case (Inr ar1)
    then show ?thesis using Cons.IH [of ar1] delete_sized [of ar name ar1] by auto
  qed
qed auto

lemma ar_rcs_facts:
  "fst (ar_rcs path paths w) \<noteq> Failed Wild
   \<and> (fst (ar_rcs path paths w) = Failed e \<longrightarrow> e \<noteq> Die ''cannot finalize '' path \<longrightarrow>
      w_files (snd (ar_rcs path paths w)) = w_files w)"
proof -
  obtain probe w1 where p: "fopen_rb path w = (probe, w1)" by force
  have w1: "w_files w1 = w_files w"
    using p by (auto simp: fopen_rb_def case_prod_beta split: option.splits)
  define start where "start = (if probe \<noteq> None then load_archive path False w1
    else (Inr \<lparr>members = [], symbols = []\<rparr>, w1))"
  obtain r w2 where st: "start = (r, w2)" by force
  have rcs: "ar_rcs path paths w = (case start of
      (Inl e, w2) \<Rightarrow> (Failed e, w2)
    | (Inr ar, w2) \<Rightarrow>
      if paths = [] then (Failed (Die ''no object members supplied'' []), w2)
      else case replace_members paths (ar, w2) of
        (Inl e, w3) \<Rightarrow> (Failed e, w3)
      | (Inr ar1, w3) \<Rightarrow>
        (case write_archive path ar1 w3 of
           (Inl e, w4) \<Rightarrow> (Failed e, w4)
         | (Inr _, w4) \<Rightarrow> (Ended 0 [], w4)))"
    unfolding ar_rcs_def p start_def by simp
  have r: "r \<noteq> Inl Wild" "w_files w2 = w_files w" "\<And>ar. r = Inr ar \<Longrightarrow> sized ar"
    using load_archive_facts [of path w1] st w1
    by (auto simp: start_def archive_ok_def sized_def split: if_splits)
  show ?thesis
  proof (cases r)
    case (Inl e')
    then show ?thesis using r by (auto simp: rcs st)
  next
    case (Inr ar)
    obtain r3 w3 where rm: "replace_members paths (ar, w2) = (r3, w3)" by force
    note f = replace_members_facts [of paths ar w2]
    show ?thesis
    proof (cases r3)
      case (Inl e')
      then show ?thesis using r Inr rm f by (auto simp: rcs st)
    next
      case Inr3: (Inr ar3)
      have "sized ar3" using r(3) [OF Inr] f Inr3 rm by auto
      from write_archive_facts [OF this, of path w3] show ?thesis
        using r Inr rm f Inr3
        by (cases "write_archive path ar3 w3"; cases "fst (write_archive path ar3 w3)")
          (auto simp: rcs st)
    qed
  qed
qed

lemma ar_other_Wild: "fst (ar_other op path names w) \<noteq> Failed Wild"
proof -
  obtain r w1 where l: "load_archive path False w = (r, w1)" by force
  note f = load_archive_facts [of path w]
  show ?thesis
  proof (cases r)
    case (Inl e)
    then show ?thesis using f(1) l by (simp add: ar_other_def)
  next
    case (Inr ar)
    have ok: "sized ar" using f(3) l Inr by (simp add: archive_ok_def)
    have x: "fst (extract_members (members ar) w1) \<noteq> Inl Wild" "fst (extract_named ar names w1) \<noteq> Inl Wild"
      by (rule extract_members_Wild, rule extract_named_Wild)
    have d: "foldM_res delete_member names ar \<noteq> Inl Wild"
      "\<And>ar1. foldM_res delete_member names ar = Inr ar1 \<Longrightarrow> sized ar1"
      using deletes_facts [of names ar] ok by auto
    have wr: "fst (write_archive path ar1 w1) \<noteq> Inl Wild"
      if "foldM_res delete_member names ar = Inr ar1" for ar1
      by (rule write_archive_facts(1) [OF d(2) [OF that]])
    show ?thesis using Inr x d(1) wr
      by (auto simp: ar_other_def l case_prod_beta split: sum.split)
  qed
qed

lemma ar_main_Wild: "fst (ar_main args w) \<noteq> Failed Wild"
  using ar_rcs_facts ar_other_Wild by (auto simp: ar_main_def split: list.split)

section \<open>A host without faults\<close>

lemma ar_read_file_clean:
  "w_faults w = [] \<Longrightarrow> ar_read_file path w =
    (case w_files w path of
       None \<Rightarrow> (Inl (Die ''cannot open '' path), w)
     | Some bs \<Rightarrow> if fits32 bs then (Inr bs, w) else (Inl (Die ''invalid size for '' path), w))"
  by (auto simp: ar_read_file_def fopen_rb_def next_stream_clean open_file_def fault_free slice_def
      split: option.split)

lemma load_archive_clean:
  "w_faults w = [] \<Longrightarrow> w_files w path = Some bs \<Longrightarrow> fits32 bs \<Longrightarrow>
   load_archive path allow w = (load_image path allow bs, w)"
  by (simp add: load_archive_def ar_read_file_clean)

lemma write_archive_clean:
  assumes "rebuild_symbol_index ar0 = Inr ar" "w_faults w = []" "\<not> w_denied w path" "fits32 (strings_of ar)"
  shows "write_archive path ar0 w = (Inr ar, w\<lparr>w_files := (w_files w)(path \<mapsto> image ar)\<rparr>)"
proof -
  have "appending (open_file [] [])" "hf_bytes (open_file [] []) = []"
    by (simp_all add: appending_def open_file_def)
  from write_stream_image [OF this assms(4)] show ?thesis using assms(1-3)
    by (simp add: write_archive_def fopen_wb_def next_stream_clean save_stream_def appending_def fault_free)
qed

lemma replace_members_clean:
  "w_faults w = [] \<Longrightarrow> replace_members paths (ar, w) = (Inr ar', w') \<Longrightarrow>
   w' = w \<and> ar' = fold (\<lambda>(k, v). set_member k v)
     (map (\<lambda>p. (basename_portable p, the (w_files w p))) paths) ar
   \<and> (length (members ar) \<le> MAX_MEMBERS \<longrightarrow> length (members ar') \<le> MAX_MEMBERS)
   \<and> (\<forall>p \<in> set paths. w_files w p \<noteq> None)"
proof (induction paths arbitrary: ar)
  case (Cons p ps)
  from Cons.prems obtain bs ar1 where bs: "w_files w p = Some bs" and r: "replace_data p bs ar = Inr ar1"
    and rest: "replace_members ps (ar1, w) = (Inr ar', w')"
    by (auto simp: replace_member_def ar_read_file_clean split: option.splits if_splits sum.splits)
  have "length (members ar) \<le> MAX_MEMBERS \<longrightarrow> length (members ar1) \<le> MAX_MEMBERS"
    using r by (auto simp: replace_data_Inr set_member_def find_member_eq)
  with Cons.IH [OF Cons.prems(1) rest] bs r show ?case by (auto simp: replace_data_Inr)
qed simp

text \<open>Member names as a command line gives them: no NUL, and a last path component.\<close>

definition named :: "archive_t \<Rightarrow> bool" where
  "named ar \<longleftrightarrow> (\<forall>m \<in> set (members ar). m_name m \<noteq> [] \<and> 0 \<notin> set (m_name m))"

lemma set_members_named:
  "named ar \<Longrightarrow> \<forall>k \<in> fst ` set kvs. k \<noteq> [] \<and> 0 \<notin> set k \<Longrightarrow>
   named (fold (\<lambda>(k, v). set_member k v) kvs ar)"
proof (induction kvs arbitrary: ar)
  case (Cons kv kvs)
  have "named (case kv of (k, v) \<Rightarrow> set_member k v ar)"
    using Cons.prems by (cases kv) (auto simp: named_def dest!: set_member_members)
  then show ?case using Cons.IH Cons.prems(2) by (cases kv) simp
qed simp

lemma archive_ok_members:
  "archive_ok (ar\<lparr>symbols := index_of ar\<rparr>) \<longleftrightarrow>
     sized ar \<and> rebuildable ar \<and> length (members ar) \<le> MAX_MEMBERS \<and> named ar"
  by (auto simp: archive_ok_def sized_def rebuildable_def index_of_def named_def)

lemma lookup_symbols [simp]: "lookup_member (ar\<lparr>symbols := x\<rparr>) n = lookup_member ar n"
  by (simp add: lookup_member_map)

section \<open>The operations end to end\<close>

text \<open>The members that a command line supplies, and the archive that \<open>rcs\<close> makes of them.\<close>

definition supplied :: "bytes list \<Rightarrow> world \<Rightarrow> (bytes \<times> bytes) list" where
  "supplied paths w = map (\<lambda>p. (basename_portable p, the (w_files w p))) paths"

definition indexed :: "archive_t \<Rightarrow> archive_t" where
  "indexed ar = ar\<lparr>symbols := index_of ar\<rparr>"

definition stored :: "bytes list \<Rightarrow> world \<Rightarrow> archive_t \<Rightarrow> archive_t" where
  "stored paths w ar = indexed (fold (\<lambda>(k, v). set_member k v) (supplied paths w) ar)"

text \<open>The archive that a command starts from: an empty one when there is no file.\<close>

definition opened :: "bytes \<Rightarrow> world \<Rightarrow> archive_t res" where
  "opened path w = (if w_files w path = None then Inr \<lparr>members = [], symbols = []\<rparr>
     else fst (load_archive path False w))"

lemma load_clean_same: "w_faults w = [] \<Longrightarrow> snd (load_archive path False w) = w"
  by (auto simp: load_archive_def ar_read_file_clean split: option.split sum.split)

lemma opened_named: "opened path w = Inr ar \<Longrightarrow> sized ar \<and> named ar \<and> length (members ar) \<le> MAX_MEMBERS"
  using load_archive_facts(3) [of path w ar]
  by (auto simp: opened_def archive_ok_def named_def sized_def split: if_splits)

lemma ar_rcs_clean:
  assumes "w_faults w = []" "opened path w = Inr ar"
  shows "ar_rcs path paths w = (if paths = [] then (Failed (Die ''no object members supplied'' []), w)
    else case replace_members paths (ar, w) of
      (Inl e, w3) \<Rightarrow> (Failed e, w3)
    | (Inr ar1, w3) \<Rightarrow>
      (case write_archive path ar1 w3 of
         (Inl e, w4) \<Rightarrow> (Failed e, w4)
       | (Inr _, w4) \<Rightarrow> (Ended 0 [], w4)))"
proof (cases "w_files w path")
  case None
  then show ?thesis using assms by (simp add: ar_rcs_def opened_def fopen_rb_def)
next
  case (Some bs)
  then have "load_archive path False w = (Inr ar, w)"
    using assms load_clean_same [OF assms(1), of path]
    by (simp add: opened_def) (metis prod.collapse)
  with Some assms(1) show ?thesis
    by (simp add: ar_rcs_def fopen_rb_def next_stream_clean)
qed

lemma write_archive_denied: "w_denied w path \<Longrightarrow> fst (write_archive path ar w) \<noteq> Inr ar'"
  by (auto simp: write_archive_def fopen_wb_def split: sum.split)

lemma write_archive_Inr: "write_archive path ar w = (Inr ar', w') \<Longrightarrow> rebuild_symbol_index ar = Inr ar'"
  by (auto simp: write_archive_def fopen_wb_def case_prod_beta split: sum.splits option.splits if_splits)

text \<open>A successful write on a host without faults: what the file holds and how it loads again.\<close>

lemma written_archive:
  assumes "w_faults w = []" "write_archive path ar w = (Inr ar', w')" "sized ar" "named ar"
    "length (members ar) \<le> MAX_MEMBERS" "fits32 (image (indexed ar))"
  shows "ar' = indexed ar \<and> w_files w' = (w_files w)(path \<mapsto> image (indexed ar))
    \<and> load_archive path False w' = (Inr (indexed ar), w')"
proof -
  have rb: "rebuild_symbol_index ar = Inr ar'" by (rule write_archive_Inr [OF assms(2)])
  then have ok: "rebuildable ar" "ar' = indexed ar"
    unfolding rebuild_Inr [OF assms(3)] indexed_def by auto
  have d: "\<not> w_denied w path" using write_archive_denied [of w path ar ar'] assms(2) by auto
  have "fits32 (strings_of ar')" using assms(6) ok(2) by (simp add: length_image)
  from write_archive_clean [OF rb assms(1) d this] assms(2) ok(2)
  have w': "w' = w\<lparr>w_files := (w_files w)(path \<mapsto> image (indexed ar))\<rparr>" by simp
  have "archive_ok (indexed ar)" unfolding indexed_def archive_ok_members using assms ok by simp
  from load_image_image [OF this assms(6)] show ?thesis
    using load_archive_clean [of w' path "image (indexed ar)" False] assms(1,6) ok(2) by (simp add: w')
qed

lemma basename_in: "set (basename_portable p) \<subseteq> set p"
  by (auto simp: basename_portable_def Let_def dest: in_set_dropD split: option.split)

text \<open>C24: On a host without faults, a run of \<open>rcs\<close> that ends with code 0 leaves an archive that
  loads again as the old members with the supplied files inserted under the last component of their
  paths, the last file of a name winning, and every other member unchanged. Its symbol index is the
  list of its members' exports. Nothing else in the file system changes. The archive has to
  be smaller than 4 GiB.\<close>

theorem ar_rcs_contents:
  "w_faults w = [] \<Longrightarrow> \<forall>p \<in> set paths. basename_portable p \<noteq> [] \<and> 0 \<notin> set p \<Longrightarrow>
   opened path w = Inr ar \<Longrightarrow> ar_rcs path paths w = (Ended 0 [], w') \<Longrightarrow>
   fits32 (image (stored paths w ar)) \<Longrightarrow>
   load_archive path False w' = (Inr (stored paths w ar), w')
   \<and> w_files w' = (w_files w)(path \<mapsto> image (stored paths w ar))
   \<and> symbols (stored paths w ar) = index_of (stored paths w ar)
   \<and> lookup_member (stored paths w ar) n
      = (case map_of (rev (supplied paths w)) n of Some v \<Rightarrow> Some v | None \<Rightarrow> lookup_member ar n)"
proof -
  assume w: "w_faults w = []" and p: "\<forall>p \<in> set paths. basename_portable p \<noteq> [] \<and> 0 \<notin> set p"
    and o: "opened path w = Inr ar" and r: "ar_rcs path paths w = (Ended 0 [], w')"
    and fit: "fits32 (image (stored paths w ar))"
  define ar1 where "ar1 = fold (\<lambda>(k, v). set_member k v) (supplied paths w) ar"
  obtain ar2 w3 ar3 where m: "replace_members paths (ar, w) = (Inr ar2, w3)"
    and wr: "write_archive path ar2 w3 = (Inr ar3, w')"
    using r unfolding ar_rcs_clean [OF w o] by (auto split: if_splits prod.splits sum.splits)
  from replace_members_clean [OF w m] opened_named [OF o]
  have 1: "w3 = w" "ar2 = ar1" "length (members ar1) \<le> MAX_MEMBERS" by (auto simp: ar1_def supplied_def)
  have "sized ar1" using replace_members_facts [of paths ar w ar1] opened_named [OF o] m 1 by simp
  moreover have "named ar1" unfolding ar1_def using opened_named [OF o] p basename_in
    by (intro set_members_named) (fastforce simp: supplied_def)+
  ultimately show ?thesis
    using written_archive [OF w, of path ar1 ar3 w'] wr 1 fit member_store.look_fold [where kvs = "supplied paths w" and s = ar and n = n]
    by (simp add: stored_def ar1_def [symmetric]) (simp add: indexed_def index_of_def)
qed

text \<open>A small object: a T32OBJ header that counts no symbols.\<close>

definition empty_object :: bytes where
  "empty_object = AR_OBJ_MAGIC @ [1, 0, 0, 0] @ replicate 36 0"

lemma empty_object_reads:
  "length empty_object = 48" "slice 0 8 empty_object = AR_OBJ_MAGIC" "u16_at empty_object 8 = 1"
  "u32_at empty_object 20 = 0" "u32_at empty_object 32 = 0"
  by (simp_all add: empty_object_def AR_OBJ_MAGIC_def slice_def u16_at_def u32_at_def of_le16_def
      of_le32_def eval_nat_numeral)

lemma empty_object_exports [simp]: "indexable empty_object" "exports empty_object = []"
  by (simp_all add: indexable_def exports_def exported_entries_def empty_object_reads)

definition sample_world :: world where
  "sample_world = \<lparr>w_files = [[0x2F, 0x78] \<mapsto> empty_object], w_denied = (\<lambda>_. False), w_faults = []\<rparr>"

definition sample_archive :: archive_t where
  "sample_archive = \<lparr>members = [\<lparr>m_name = [0x78], m_data = empty_object\<rparr>], symbols = []\<rparr>"

lemma sample_basename: "basename_portable [0x2F, 0x78] = [0x78]"
  by (simp add: basename_portable_def strrchr_def)

lemma sample_supplied: "supplied [[0x2F, 0x78]] sample_world = [([0x78], empty_object)]"
  by (simp add: supplied_def sample_world_def sample_basename)

lemma sample_stored: "stored [[0x2F, 0x78]] sample_world \<lparr>members = [], symbols = []\<rparr> = sample_archive"
  by (simp add: stored_def sample_supplied set_member_def find_member_def indexed_def index_of_def
      sample_archive_def refs_def)

lemma sample_fits: "fits32 (image sample_archive)"
  by (simp add: length_image sample_archive_def strings_of_def string_list_def empty_object_reads)

lemma sample_written:
  "\<exists>w'. ar_rcs [0x61] [[0x2F, 0x78]] sample_world = (Ended 0 [], w')"
proof -
  let ?ar = "\<lparr>members = [\<lparr>m_name = [0x78], m_data = empty_object\<rparr>], symbols = []\<rparr>"
  have c: "w_faults sample_world = []" "opened [0x61] sample_world = Inr \<lparr>members = [], symbols = []\<rparr>"
    by (simp_all add: sample_world_def opened_def)
  have m: "replace_members [[0x2F, 0x78]] (\<lparr>members = [], symbols = []\<rparr>, sample_world) = (Inr ?ar, sample_world)"
    by (simp add: replace_member_def ar_read_file_clean c replace_data_def sample_basename check_def
        empty_object_reads find_member_def Let_def) (simp add: sample_world_def empty_object_reads
        sample_basename replace_data_def check_def find_member_def Let_def)
  have "rebuild_symbol_index ?ar = Inr sample_archive"
    using rebuild_Inr [of ?ar sample_archive]
    by (simp add: sized_def empty_object_reads rebuildable_def index_of_def sample_archive_def refs_def)
  then have "\<exists>w'. write_archive [0x61] ?ar sample_world = (Inr sample_archive, w')"
    using write_archive_clean [of ?ar sample_archive sample_world "[0x61]"] sample_fits c
    by (simp add: sample_world_def length_image)
  then show ?thesis unfolding ar_rcs_clean [OF c] using m by auto
qed

lemma ar_rcs_contents_witness:
  "\<exists>w'. ar_rcs [0x61] [[0x2F, 0x78]] sample_world = (Ended 0 [], w')
    \<and> load_archive [0x61] False w' = (Inr sample_archive, w')
    \<and> lookup_member sample_archive [0x78] = Some empty_object"
proof -
  obtain w' where r: "ar_rcs [0x61] [[0x2F, 0x78]] sample_world = (Ended 0 [], w')"
    using sample_written by blast
  have "w_faults sample_world = []" "opened [0x61] sample_world = Inr \<lparr>members = [], symbols = []\<rparr>"
    "\<forall>p \<in> set [[0x2F, 0x78 :: u8]]. basename_portable p \<noteq> [] \<and> 0 \<notin> set p"
    by (simp_all add: sample_world_def opened_def sample_basename)
  from ar_rcs_contents [OF this(1,3,2) r, of "[0x78]"] sample_fits r show ?thesis
    by (simp add: sample_stored sample_supplied)
qed

text \<open>C25: No archive, object or command line makes \<open>t32-ar\<close> read outside a buffer, whatever
  the bytes of the files and the errors of the host are.\<close>

theorem ar_no_wild_reads: "fst (ar_main args w) \<noteq> Failed Wild"
  by (rule ar_main_Wild)

text \<open>C26: An archive that loads has an index that lists the exports of every member, member by
  member in table order, each with the index of the member that defines it, and every member is an
  object whose symbol table lies inside its data; names are not empty and hold no NUL. The index
  stored in the file is not used.\<close>

theorem ar_load_index:
  "fst (load_archive path False w) = Inr ar \<Longrightarrow>
   symbols ar = index_from 0 (map m_data (members ar))
   \<and> (\<forall>m \<in> set (members ar). indexable (m_data m) \<and> m_name m \<noteq> [] \<and> 0 \<notin> set (m_name m))
   \<and> length (members ar) \<le> MAX_MEMBERS \<and> length (symbols ar) \<le> MAX_SYMBOLS"
  using load_archive_facts(3) [of path w ar]
  by (auto simp: archive_ok_def rebuildable_def index_of_def)

lemma sample_loads:
  "load_archive [0x61] False (sample_world\<lparr>w_files := [[0x61] \<mapsto> image sample_archive]\<rparr>)
    = (Inr sample_archive, sample_world\<lparr>w_files := [[0x61] \<mapsto> image sample_archive]\<rparr>)"
proof -
  have "archive_ok sample_archive"
    by (simp add: archive_ok_def sized_def rebuildable_def index_of_def sample_archive_def
        empty_object_reads refs_def)
  then show ?thesis
    using load_archive_clean [of "sample_world\<lparr>w_files := [[0x61] \<mapsto> image sample_archive]\<rparr>"
        "[0x61]" "image sample_archive" False] load_image_image [OF _ sample_fits] sample_fits
    by (simp add: sample_world_def)
qed

lemma ar_load_index_witness:
  "\<exists>w ar. fst (load_archive [0x61] False w) = Inr ar \<and> members ar \<noteq> []
     \<and> symbols ar = index_from 0 (map m_data (members ar))"
proof -
  let ?w = "sample_world\<lparr>w_files := [[0x61] \<mapsto> image sample_archive]\<rparr>"
  have l: "fst (load_archive [0x61] False ?w) = Inr sample_archive" by (simp add: sample_loads)
  have "members sample_archive \<noteq> []" by (simp add: sample_archive_def)
  with l ar_load_index [OF l] show ?thesis by blast
qed

text \<open>The deletions in a row, on an archive without duplicate names.\<close>

lemma deletes_contents:
  "foldM_res delete_member names ar = Inr ar' \<Longrightarrow> distinct (map m_name (members ar)) \<Longrightarrow>
   lookup_member ar' n = (if n \<in> set names then None else lookup_member ar n)
   \<and> set names \<subseteq> m_name ` set (members ar) \<and> set (members ar') \<subseteq> set (members ar)
   \<and> length (members ar') \<le> length (members ar)"
proof (induction names arbitrary: ar)
  case (Cons name names)
  from Cons.prems(1) obtain ar1 where d: "delete_member name ar = Inr ar1"
    and rest: "foldM_res delete_member names ar1 = Inr ar'" by (auto simp: rbind_Inr)
  note l = delete_lookup [OF d Cons.prems(2)]
  have sub: "set (members ar1) \<subseteq> set (members ar)" "length (members ar1) \<le> length (members ar)"
    and nm: "name \<in> m_name ` set (members ar)"
    using d by (auto simp: delete_member_Inr dest: in_set_takeD in_set_dropD)
  from sub(1) have "m_name ` set (members ar1) \<subseteq> m_name ` set (members ar)" by (rule image_mono)
  moreover note IH = Cons.IH [OF rest l(2)]
  ultimately have "set (name # names) \<subseteq> m_name ` set (members ar)" using nm by (metis insert_subset list.simps(15) subset_trans)
  moreover have "set (members ar') \<subseteq> set (members ar)" using IH sub(1) by (metis subset_trans)
  moreover have "length (members ar') \<le> length (members ar)" using IH sub(2) by linarith
  moreover have "lookup_member ar' n = (if n \<in> set (name # names) then None else lookup_member ar n)"
    unfolding IH [THEN conjunct1] l(1) by simp
  ultimately show ?case by blast
qed simp

text \<open>C27: A run of \<open>d\<close> that ends with code 0 removes exactly the named members, each of which was
  there: the archive that loads afterwards has no such member and all others as they were.\<close>

theorem ar_delete_contents:
  "w_faults w = [] \<Longrightarrow> load_archive path False w = (Inr ar, w) \<Longrightarrow>
   distinct (map m_name (members ar)) \<Longrightarrow> foldM_res delete_member names ar = Inr ar1 \<Longrightarrow>
   fits32 (image (indexed ar1)) \<Longrightarrow> ar_main (char_bytes ''d'' # path # names) w = (Ended 0 [], w') \<Longrightarrow>
   \<exists>ar'. load_archive path False w' = (Inr ar', w') \<and> set names \<subseteq> m_name ` set (members ar)
   \<and> (\<forall>n. lookup_member ar' n = (if n \<in> set names then None else lookup_member ar n))"
proof -
  assume w: "w_faults w = []" and l: "load_archive path False w = (Inr ar, w)"
    and d: "distinct (map m_name (members ar))" and del: "foldM_res delete_member names ar = Inr ar1"
    and fit: "fits32 (image (indexed ar1))"
    and run: "ar_main (char_bytes ''d'' # path # names) w = (Ended 0 [], w')"
  have op: "char_bytes ''d'' \<noteq> char_bytes s" if "s \<noteq> ''d''" for s
    using chars_char_bytes [of "''d''"] chars_char_bytes [of s] that by metis
  have "ar_main (char_bytes ''d'' # path # names) w = ar_other (char_bytes ''d'') path names w"
    by (simp add: ar_main_def op)
  then obtain ar2 where wr: "write_archive path ar1 w = (Inr ar2, w')"
    using run by (auto simp: ar_other_def l del op split: if_splits prod.splits sum.splits)
  have ok: "archive_ok ar" using load_archive_facts(3) [of path w ar] l by simp
  note c = deletes_contents [OF del d]
  from c have sub: "set (members ar1) \<subseteq> set (members ar)" "length (members ar1) \<le> length (members ar)"
    by auto
  have "sized ar1" "named ar1" "length (members ar1) \<le> MAX_MEMBERS"
    using ok sub by (auto simp: archive_ok_def sized_def named_def)
  from written_archive [OF w wr this fit] c show ?thesis
    by (auto simp: indexed_def)
qed

lemma ar_delete_contents_witness:
  "\<exists>w w' ar'. ar_main [char_bytes ''d'', [0x61], [0x78]] w = (Ended 0 [], w')
     \<and> load_archive [0x61] False w' = (Inr ar', w') \<and> lookup_member ar' [0x78] = None"
proof -
  let ?w = "sample_world\<lparr>w_files := [[0x61] \<mapsto> image sample_archive]\<rparr>"
  let ?e = "\<lparr>members = [], symbols = []\<rparr>"
  have del: "foldM_res delete_member [[0x78]] sample_archive = Inr ?e"
    by (simp add: sample_archive_def delete_member_def find_member_def)
  have fit: "fits32 (image (indexed ?e))"
    by (simp add: length_image indexed_def index_of_def strings_of_def string_list_def)
  have op: "char_bytes ''d'' \<noteq> char_bytes s" if "s \<noteq> ''d''" for s
    using chars_char_bytes [of "''d''"] chars_char_bytes [of s] that by metis
  have "rebuild_symbol_index ?e = Inr ?e"
    using rebuild_Inr [of ?e ?e] by (simp add: sized_def rebuildable_def index_of_def)
  then have "\<exists>w'. write_archive [0x61] ?e ?w = (Inr ?e, w')"
    using write_archive_clean [of ?e ?e ?w "[0x61]"]
    by (simp add: sample_world_def strings_of_def string_list_def)
  then obtain w' where run: "ar_main [char_bytes ''d'', [0x61], [0x78]] ?w = (Ended 0 [], w')"
    using del by (auto simp: ar_main_def ar_other_def sample_loads op)
  have "w_faults ?w = []" "distinct (map m_name (members sample_archive))"
    by (simp_all add: sample_world_def sample_archive_def)
  from ar_delete_contents [OF this(1) sample_loads this(2) del fit run]
  obtain ar' where "load_archive [0x61] False w' = (Inr ar', w')" "lookup_member ar' [0x78] = None"
    by auto
  with run show ?thesis by blast
qed

lemma extract_members_clean:
  "w_faults w = [] \<Longrightarrow> \<forall>m \<in> set ms. \<not> w_denied w (m_name m) \<Longrightarrow>
   extract_members ms w
     = (Inr (), w\<lparr>w_files := fold (\<lambda>m fs. fs(m_name m \<mapsto> m_data m)) ms (w_files w)\<rparr>)"
proof (induction ms arbitrary: w)
  case (Cons m ms)
  let ?w = "w\<lparr>w_files := (w_files w)(m_name m \<mapsto> m_data m)\<rparr>"
  have "extract_member m w = (Inr (), ?w)" using Cons.prems
    by (simp add: extract_member_def fopen_wb_def next_stream_clean save_stream_def open_file_def
        fault_free write_at_def patch_def)
  then show ?case using Cons.IH [of ?w] Cons.prems by simp
qed simp

lemma fold_contents:
  "distinct (map m_name ms) \<Longrightarrow>
   fold (\<lambda>m fs. fs(m_name m \<mapsto> m_data m)) ms fs n
     = (case contents_map ms n of Some v \<Rightarrow> Some v | None \<Rightarrow> fs n)"
proof (induction ms arbitrary: fs)
  case (Cons m ms)
  then have "contents_map ms (m_name m) = None" by (auto simp: map_of_eq_None_iff)
  with Cons show ?case by (auto split: option.split)
qed simp

text \<open>C28: Extracting without member names writes every member to the file of its name and no
  other file: after a run on a host without faults the file system is the old one overridden by
  the archive's contents.\<close>

theorem ar_extract_contents:
  "w_faults w = [] \<Longrightarrow> load_archive path False w = (Inr ar, w) \<Longrightarrow>
   distinct (map m_name (members ar)) \<Longrightarrow> \<forall>m \<in> set (members ar). \<not> w_denied w (m_name m) \<Longrightarrow>
   \<exists>w'. ar_main [char_bytes ''x'', path] w = (Ended 0 [], w')
     \<and> (\<forall>n. w_files w' n = (case lookup_member ar n of Some v \<Rightarrow> Some v | None \<Rightarrow> w_files w n))"
proof -
  assume w: "w_faults w = []" and l: "load_archive path False w = (Inr ar, w)"
    and d: "distinct (map m_name (members ar))"
    and ok: "\<forall>m \<in> set (members ar). \<not> w_denied w (m_name m)"
  have op: "char_bytes ''x'' \<noteq> char_bytes s" if "s \<noteq> ''x''" for s
    using chars_char_bytes [of "''x''"] chars_char_bytes [of s] that by metis
  show ?thesis
    using extract_members_clean [OF w ok] fold_contents [OF d]
    by (simp add: ar_main_def ar_other_def l op lookup_member_map)
qed

lemma ar_extract_contents_witness:
  "\<exists>w w'. ar_main [char_bytes ''x'', [0x61]] w = (Ended 0 [], w')
     \<and> w_files w [0x78] = None \<and> w_files w' [0x78] = Some empty_object"
proof -
  let ?w = "sample_world\<lparr>w_files := [[0x61] \<mapsto> image sample_archive]\<rparr>"
  have "w_faults ?w = []" "distinct (map m_name (members sample_archive))"
    "\<forall>m \<in> set (members sample_archive). \<not> w_denied ?w (m_name m)"
    "lookup_member sample_archive [0x78] = Some empty_object" "w_files ?w [0x78] = None"
    by (simp_all add: sample_world_def sample_archive_def lookup_member_map)
  with ar_extract_contents [OF this(1) sample_loads this(2,3)] show ?thesis by fastforce
qed

text \<open>C29: A run of \<open>rcs\<close> that fails before the archive is written leaves every file as it was: an
  unreadable or malformed archive, a missing or invalid object, an invalid symbol table, a limit
  exceeded, a file that cannot be created. The only other failure is the one of the
  final close.\<close>

theorem ar_failure_keeps_files:
  "fst (ar_rcs path paths w) = Failed e \<Longrightarrow> e \<noteq> Die ''cannot finalize '' path \<Longrightarrow>
   w_files (snd (ar_rcs path paths w)) = w_files w"
  using ar_rcs_facts [of path paths w e] by blast

lemma ar_failure_keeps_files_witness:
  "w_files (snd (ar_rcs [0x61] [] sample_world)) = w_files sample_world"
proof -
  have "w_faults sample_world = []" "opened [0x61] sample_world = Inr \<lparr>members = [], symbols = []\<rparr>"
    by (simp_all add: sample_world_def opened_def)
  from ar_rcs_clean [OF this, of "[]"]
  have "fst (ar_rcs [0x61] [] sample_world) = Failed (Die ''no object members supplied'' [])" by simp
  from ar_failure_keeps_files [OF this] show ?thesis by simp
qed

section \<open>Two weaknesses of the writer\<close>

text \<open>The results of the single writes are dropped, so a write that fails while the final close
  works is reported as success although the file is not the archive.\<close>

lemma ar_write_error_unnoticed:
  "\<exists>w w'. write_archive [0x61] \<lparr>members = [], symbols = []\<rparr> w = (Inr \<lparr>members = [], symbols = []\<rparr>, w')
     \<and> w_files w' [0x61] \<noteq> Some (image \<lparr>members = [], symbols = []\<rparr>)"
proof -
  let ?e = "\<lparr>members = [], symbols = []\<rparr>"
  let ?w = "\<lparr>w_files = (\<lambda>_. None), w_denied = (\<lambda>_. False), w_faults = [[Some 0]]\<rparr>"
  let ?f = "write_stream ?e (open_file [] [Some 0])"
  have f: "length (hf_bytes ?f) = 33 \<and> hf_faults ?f = []" by code_simp
  have "rebuild_symbol_index ?e = Inr ?e"
    using rebuild_Inr [of ?e ?e] by (simp add: sized_def rebuildable_def index_of_def)
  moreover have "length (image ?e) = 41"
    by (simp add: length_image strings_of_def string_list_def)
  with f have "hf_bytes ?f \<noteq> image ?e" by force
  ultimately show ?thesis using f
    by - (rule exI [of _ ?w], auto simp: write_archive_def fopen_wb_def next_stream_def fault_free save_stream_def)
qed

text \<open>A member whose path ends in a separator is stored under the empty name, which the loader
  rejects.\<close>

lemma ar_empty_name_stored:
  "replace_data [0x78, 0x5C] empty_object \<lparr>members = [], symbols = []\<rparr>
     = Inr \<lparr>members = [\<lparr>m_name = [], m_data = empty_object\<rparr>], symbols = []\<rparr>"
  by (simp add: replace_data_def basename_portable_def strrchr_def empty_object_reads check_def
      find_member_def Let_def)

end
