(* ===== verification/T32_Ctype.thy ===== *)
theory T32_Ctype
  imports T32_Prelude
begin

text \<open>
  What the tools use of \<open>ctype.h\<close>, in the C locale, on an \<open>unsigned char\<close>, and of
  \<open>strtoull\<close>, which is \<open>strtoul\<close> on an LP64 host.
\<close>

definition isspace :: "u8 \<Rightarrow> bool" where
  "isspace c \<longleftrightarrow> (9 \<le> c \<and> c \<le> 13) \<or> c = 32"

definition isdigit :: "u8 \<Rightarrow> bool" where
  "isdigit c \<longleftrightarrow> 48 \<le> c \<and> c \<le> 57"

definition isalnum :: "u8 \<Rightarrow> bool" where
  "isalnum c \<longleftrightarrow> isdigit c \<or> (65 \<le> c \<and> c \<le> 90) \<or> (97 \<le> c \<and> c \<le> 122)"

definition toupper :: "u8 \<Rightarrow> u8" where
  "toupper c = (if 97 \<le> c \<and> c \<le> 122 then c - 32 else c)"

definition isalpha :: "u8 \<Rightarrow> bool" where
  "isalpha c \<longleftrightarrow> (65 \<le> c \<and> c \<le> 90) \<or> (97 \<le> c \<and> c \<le> 122)"

lemma isalnum_alt: "isalnum c \<longleftrightarrow> isalpha c \<or> isdigit c"
  by (auto simp: isalnum_def isalpha_def)

section \<open>Numbers\<close>

definition digit_value :: "u8 \<Rightarrow> nat option" where
  "digit_value c =
     (if isdigit c then Some (unat c - 48)
      else if 65 \<le> toupper c \<and> toupper c \<le> 90 then Some (unat (toupper c) - 55) else None)"

fun scan_digits :: "nat \<Rightarrow> bytes \<Rightarrow> nat \<Rightarrow> nat \<times> bytes" where
  "scan_digits base [] acc = (acc, [])"
| "scan_digits base (c # cs) acc =
     (case digit_value c of
        Some d \<Rightarrow> if d < base then scan_digits base cs (acc * base + d) else (acc, c # cs)
      | None \<Rightarrow> (acc, c # cs))"

text \<open>\<open>strtoull(text, &end, 0)\<close>: the value, whether \<open>errno\<close> is set (to \<open>ERANGE\<close>), and \<open>end\<close>.
  Without a digit nothing is converted and \<open>end\<close> is \<open>text\<close>.\<close>

definition strtoull :: "bytes \<Rightarrow> u64 \<times> bool \<times> bytes" where
  "strtoull text =
     (let s = dropWhile isspace text;
          neg = (s \<noteq> [] \<and> hd s = 0x2D);
          s1 = (if s \<noteq> [] \<and> (hd s = 0x2D \<or> hd s = 0x2B) then tl s else s);
          hex = (2 < length s1 \<and> hd s1 = 0x30 \<and> toupper (s1 ! 1) = 0x58
            \<and> (case digit_value (s1 ! 2) of Some d \<Rightarrow> d < 16 | None \<Rightarrow> False));
          base = (if hex then 16 else if s1 \<noteq> [] \<and> hd s1 = 0x30 then 8 else 10);
          s2 = (if hex then drop 2 s1 else s1)
      in case scan_digits base s2 0 of (v, rest) \<Rightarrow>
        if rest = s2 then (0, False, text)
        else if v \<ge> 2 ^ 64 then (2 ^ 64 - 1, True, rest)
        else (if neg then - of_nat v else of_nat v, False, rest))"

end
