(* ===== verification/T32_Disk_Format.thy ===== *)
theory T32_Disk_Format
  imports T32_World T32_Ctype
begin

text \<open>
  The on-disk side of \<open>tools/t32-disk/src/t32-disk.c\<close>: header and directory of a T32D image, the
  reads and writes of single sectors and entries, the searches in the directory, and the parsers of
  sizes and names. An open image is a \<open>host_file\<close>, so every function covers every pattern of host
  errors. A \<open>char\<close> array is its bytes; its string is what precedes the first NUL.
\<close>

section \<open>Constants and records\<close>

abbreviation (input) "T32D_SECTOR_SIZE \<equiv> 512 :: nat"
abbreviation (input) "T32D_HEADER_LBA \<equiv> 0 :: u32"
abbreviation (input) "T32D_DIRECTORY_LBA \<equiv> 1 :: u32"
abbreviation (input) "T32D_DIRECTORY_ENTRIES \<equiv> 32 :: nat"
abbreviation (input) "T32D_DIR_ENTRY_SIZE \<equiv> 64 :: nat"
abbreviation (input) "T32D_DIRECTORY_SECTORS \<equiv> 4 :: nat"
abbreviation (input) "T32D_DATA_START_LBA \<equiv> 8 :: u32"
abbreviation (input) "T32D_VERSION_MAJOR \<equiv> 0 :: u8"
abbreviation (input) "T32D_VERSION_MINOR \<equiv> 1 :: u8"
abbreviation (input) "T32D_FILE_FLAG_BOOT \<equiv> 1 :: u32"
abbreviation (input) "T32D_NAME_BYTES \<equiv> 32 :: nat"
abbreviation (input) "MAX_LINE \<equiv> 2048 :: nat"
abbreviation (input) "MAX_ARGS \<equiv> 32 :: nat"
abbreviation (input) "MAX_SCRIPT_DEPTH \<equiv> 8 :: nat"

definition T32D_MAGIC :: bytes where
  "T32D_MAGIC = [0x54, 0x33, 0x32, 0x44]"

record t32d_dirent_t =
  d_name :: bytes
  start_lba :: u32
  byte_length :: u32
  d_flags :: u32
  d_reserved :: bytes

record t32d_info_t =
  sector_size :: u32
  total_sectors :: u32
  directory_lba :: u32
  directory_entries :: u32
  directory_entry_size :: u32
  data_start_lba :: u32
  boot_name :: bytes

section \<open>Integers in a buffer\<close>

definition load_le32 :: "bytes \<Rightarrow> u32" where
  "load_le32 p = ucast (p ! 0) OR push_bit 8 (ucast (p ! 1)) OR push_bit 16 (ucast (p ! 2))
     OR push_bit 24 (ucast (p ! 3))"

text \<open>\<open>store_le32(buf + off, value)\<close>.\<close>

definition store_le32 :: "nat \<Rightarrow> u32 \<Rightarrow> bytes \<Rightarrow> bytes" where
  "store_le32 off value buf =
     patch off [ucast value, ucast (drop_bit 8 value), ucast (drop_bit 16 value), ucast (drop_bit 24 value)] buf"

section \<open>Positions\<close>

definition seek_lba :: "host_file \<Rightarrow> u32 \<Rightarrow> bool \<times> host_file" where
  "seek_lba fp lba =
     (let offset = ucast lba * of_nat T32D_SECTOR_SIZE :: u64 in
      if uint offset > LONG_MAX then (False, fp) else fseek_set fp (unat offset))"

definition file_size :: "host_file \<Rightarrow> u64 option \<times> host_file" where
  "file_size fp =
     (case ftell fp of (here, f1) \<Rightarrow>
      if here < 0 then (None, f1) else
      case fseek_end f1 of (ok1, f2) \<Rightarrow>
      if \<not> ok1 then (None, f2) else
      case ftell f2 of (end', f3) \<Rightarrow>
      if end' < 0 then (None, f3) else
      case fseek_set f3 (nat here) of (ok2, f4) \<Rightarrow>
      if \<not> ok2 then (None, f4) else (Some (of_int end'), f4))"

section \<open>Sizes and names\<close>

definition parse_size :: "bytes \<Rightarrow> u64 option" where
  "parse_size text =
     (case strtoull text of (value, erange, rest) \<Rightarrow>
        if erange \<or> rest = text then None
        else
          let multiplier =
            (if rest = [] then Some 1
             else if length rest \<noteq> 1 then None
             else if toupper (hd rest) = 0x4B then Some 1024
             else if toupper (hd rest) = 0x4D then Some (1024 * 1024)
             else if toupper (hd rest) = 0x47 then Some (1024 * 1024 * 1024)
             else None)
          in case multiplier of
               None \<Rightarrow> None
             | Some m \<Rightarrow> if value = 0 \<or> value > (2 ^ 64 - 1) div m then None else Some (value * m))"

definition valid_guest_name :: "bytes \<Rightarrow> bool" where
  "valid_guest_name name =
     (\<not> (length name = 0 \<or> length name \<ge> T32D_NAME_BYTES)
      \<and> list_all (\<lambda>c. isalnum c \<or> c = 0x2E \<or> c = 0x5F \<or> c = 0x2D) name)"

text \<open>The string that \<open>uppercase_name\<close> leaves in \<open>dst\<close>.\<close>

definition uppercase_name :: "nat \<Rightarrow> bytes \<Rightarrow> bytes" where
  "uppercase_name dst_size src = map toupper (take (dst_size - 1) src)"

section \<open>Header\<close>

definition header_info :: "bytes \<Rightarrow> t32d_info_t option" where
  "header_info sector =
     (if slice 0 4 sector \<noteq> T32D_MAGIC then None
      else if sector ! 4 \<noteq> T32D_VERSION_MAJOR then None
      else
        let info = \<lparr>sector_size = load_le32 (drop 8 sector), total_sectors = load_le32 (drop 12 sector),
              directory_lba = load_le32 (drop 16 sector), directory_entries = load_le32 (drop 20 sector),
              directory_entry_size = load_le32 (drop 24 sector), data_start_lba = load_le32 (drop 28 sector),
              boot_name = (slice 32 T32D_NAME_BYTES sector)[T32D_NAME_BYTES - 1 := 0]\<rparr>
        in if sector_size info \<noteq> of_nat T32D_SECTOR_SIZE
              \<or> directory_entry_size info \<noteq> of_nat T32D_DIR_ENTRY_SIZE
              \<or> directory_entries info \<noteq> of_nat T32D_DIRECTORY_ENTRIES
           then None else Some info)"

definition read_header :: "host_file \<Rightarrow> t32d_info_t option \<times> host_file" where
  "read_header fp =
     (case seek_lba fp T32D_HEADER_LBA of (ok, f1) \<Rightarrow>
      if \<not> ok then (None, f1) else
      case fread f1 T32D_SECTOR_SIZE of (sector, f2) \<Rightarrow>
      if length sector \<noteq> T32D_SECTOR_SIZE then (None, f2) else (header_info sector, f2))"

text \<open>The header that \<open>format_image\<close> composes.\<close>

definition new_header :: "u32 \<Rightarrow> bytes" where
  "new_header sectors =
     (let h0 = replicate T32D_SECTOR_SIZE 0;
          h1 = patch 0 (T32D_MAGIC @ [T32D_VERSION_MAJOR, T32D_VERSION_MINOR]) h0;
          h2 = store_le32 12 sectors (store_le32 8 (of_nat T32D_SECTOR_SIZE) h1);
          h3 = store_le32 20 (of_nat T32D_DIRECTORY_ENTRIES) (store_le32 16 T32D_DIRECTORY_LBA h2);
          h4 = store_le32 28 T32D_DATA_START_LBA (store_le32 24 (of_nat T32D_DIR_ENTRY_SIZE) h3)
      in patch 32 (char_bytes ''BOOT.BIN'') h4)"

section \<open>Directory entries\<close>

definition read_dirent :: "host_file \<Rightarrow> nat \<Rightarrow> t32d_dirent_t option \<times> host_file" where
  "read_dirent fp index =
     (let byte_offset = unat T32D_DIRECTORY_LBA * T32D_SECTOR_SIZE + index * T32D_DIR_ENTRY_SIZE in
      if int byte_offset > LONG_MAX then (None, fp) else
      case fseek_set fp byte_offset of (ok, f1) \<Rightarrow>
      if \<not> ok then (None, f1) else
      case fread f1 T32D_DIR_ENTRY_SIZE of (raw, f2) \<Rightarrow>
      if length raw \<noteq> T32D_DIR_ENTRY_SIZE then (None, f2)
      else (Some \<lparr>d_name = (slice 0 T32D_NAME_BYTES raw)[T32D_NAME_BYTES - 1 := 0],
              start_lba = load_le32 (drop 32 raw), byte_length = load_le32 (drop 36 raw),
              d_flags = load_le32 (drop 40 raw), d_reserved = replicate 20 0\<rparr>, f2))"

definition write_dirent :: "host_file \<Rightarrow> nat \<Rightarrow> t32d_dirent_t \<Rightarrow> bool \<times> host_file" where
  "write_dirent fp index entry =
     (let byte_offset = unat T32D_DIRECTORY_LBA * T32D_SECTOR_SIZE + index * T32D_DIR_ENTRY_SIZE;
          raw0 = patch 0 (d_name entry) (replicate T32D_DIR_ENTRY_SIZE 0);
          raw = store_le32 40 (d_flags entry) (store_le32 36 (byte_length entry)
            (store_le32 32 (start_lba entry) raw0)) in
      if int byte_offset > LONG_MAX then (False, fp) else
      case fseek_set fp byte_offset of (ok, f1) \<Rightarrow>
      if \<not> ok then (False, f1) else
      case fwrite f1 raw of (n, f2) \<Rightarrow> (n = length raw, f2))"

abbreviation dirent_used :: "t32d_dirent_t \<Rightarrow> bool" where
  "dirent_used entry \<equiv> d_name entry ! 0 \<noteq> 0"

abbreviation dirent_name :: "t32d_dirent_t \<Rightarrow> bytes" where
  "dirent_name entry \<equiv> cstring_at (d_name entry) 0"

text \<open>The loops over the directory, on the list of the indices that remain.\<close>

fun find_entry_in :: "host_file \<Rightarrow> bytes \<Rightarrow> nat list \<Rightarrow> (t32d_dirent_t \<times> nat) option \<times> host_file" where
  "find_entry_in fp wanted [] = (None, fp)"
| "find_entry_in fp wanted (i # is) =
     (case read_dirent fp i of
        (None, f1) \<Rightarrow> (None, f1)
      | (Some entry, f1) \<Rightarrow>
        if dirent_used entry \<and> dirent_name entry = wanted then (Some (entry, i), f1)
        else find_entry_in f1 wanted is)"

definition find_entry :: "host_file \<Rightarrow> bytes \<Rightarrow> (t32d_dirent_t \<times> nat) option \<times> host_file" where
  "find_entry fp name =
     find_entry_in fp (uppercase_name T32D_NAME_BYTES name) [0..<T32D_DIRECTORY_ENTRIES]"

text \<open>The sectors of a file, in the 32-bit arithmetic of the source.\<close>

definition sectors_needed :: "u32 \<Rightarrow> u32" where
  "sectors_needed n = (n + of_nat T32D_SECTOR_SIZE - 1) div of_nat T32D_SECTOR_SIZE"

fun next_free_in :: "host_file \<Rightarrow> u32 \<Rightarrow> nat list \<Rightarrow> u32 \<times> host_file" where
  "next_free_in fp next' [] = (next', fp)"
| "next_free_in fp next' (i # is) =
     (case read_dirent fp i of
        (None, f1) \<Rightarrow> (0, f1)
      | (Some entry, f1) \<Rightarrow>
        if \<not> dirent_used entry then next_free_in f1 next' is
        else let end' = start_lba entry + sectors_needed (byte_length entry) in
          next_free_in f1 (if end' > next' then end' else next') is)"

definition next_free_lba :: "host_file \<Rightarrow> u32 \<times> host_file" where
  "next_free_lba fp = next_free_in fp T32D_DATA_START_LBA [0..<T32D_DIRECTORY_ENTRIES]"

fun first_free_in :: "host_file \<Rightarrow> nat list \<Rightarrow> nat option \<times> host_file" where
  "first_free_in fp [] = (None, fp)"
| "first_free_in fp (i # is) =
     (case read_dirent fp i of
        (None, f1) \<Rightarrow> (None, f1)
      | (Some entry, f1) \<Rightarrow> if \<not> dirent_used entry then (Some i, f1) else first_free_in f1 is)"

definition first_free_dirent :: "host_file \<Rightarrow> nat option \<times> host_file" where
  "first_free_dirent fp = first_free_in fp [0..<T32D_DIRECTORY_ENTRIES]"

end
