(* ===== verification/T32_Disk.thy ===== *)
theory T32_Disk
  imports T32_Disk_Format
begin

text \<open>
  The commands of \<open>tools/t32-disk/src/t32-disk.c\<close>, its tokenizer, the scripts and \<open>main\<close>. The
  state of the tool is the file system and the text on its two output streams. A file has one path:
  two streams are on the same file exactly when their paths are equal.
\<close>

section \<open>State\<close>

text \<open>\<open>t_strerror\<close> is the text of \<open>strerror(errno)\<close>.\<close>

record tool =
  t_world :: world
  t_out :: string
  t_err :: string
  t_strerror :: string

definition say :: "string \<Rightarrow> tool \<Rightarrow> tool" where
  "say s t = t\<lparr>t_out := t_out t @ s @ newline\<rparr>"

definition complain :: "string \<Rightarrow> tool \<Rightarrow> tool" where
  "complain s t = t\<lparr>t_err := t_err t @ s @ newline\<rparr>"

text \<open>\<open>fopen\<close> with modes \<open>rb\<close> (and \<open>r\<close>), \<open>wb\<close> and \<open>r+b\<close>.\<close>

definition open_rb :: "bytes \<Rightarrow> tool \<Rightarrow> host_file option \<times> tool" where
  "open_rb path t = (case fopen_rb path (t_world t) of (f, w) \<Rightarrow> (f, t\<lparr>t_world := w\<rparr>))"

definition open_wb :: "bytes \<Rightarrow> tool \<Rightarrow> host_file option \<times> tool" where
  "open_wb path t = (case fopen_wb path (t_world t) of (f, w) \<Rightarrow> (f, t\<lparr>t_world := w\<rparr>))"

definition open_update :: "bytes \<Rightarrow> tool \<Rightarrow> host_file option \<times> tool" where
  "open_update path t = (if w_denied (t_world t) path then (None, t) else open_rb path t)"

text \<open>What was written to a stream is in the file when the stream is closed.\<close>

definition close_to :: "bytes \<Rightarrow> host_file \<Rightarrow> tool \<Rightarrow> tool" where
  "close_to path f t = t\<lparr>t_world := save_stream path f (t_world t)\<rparr>"

text \<open>A second stream on the same file sees what was written to the first.\<close>

definition see :: "bool \<Rightarrow> host_file \<Rightarrow> host_file \<Rightarrow> host_file" where
  "see same written f = (if same then f\<lparr>hf_bytes := hf_bytes written\<rparr> else f)"

section \<open>Images\<close>

definition create_raw_image :: "bytes \<Rightarrow> u64 \<Rightarrow> tool \<Rightarrow> bool \<times> tool" where
  "create_raw_image path requested_bytes t =
     (let bytes = (requested_bytes + 512 - 1) div 512 * 512 in
      if bytes < ucast (T32D_DATA_START_LBA + 1) * 512
      then (False, complain ''error: image is too small for T32D metadata'' t)
      else
        case open_wb path t of
          (None, t1) \<Rightarrow> (False, complain (''error: cannot create '' @ chars path @ '': '' @ t_strerror t1) t1)
        | (Some fp, t1) \<Rightarrow>
          if uint (bytes - 1) > LONG_MAX
          then (False, close_to path fp (complain (''error: cannot size '' @ chars path) t1))
          else case fseek_set fp (unat (bytes - 1)) of (ok, f1) \<Rightarrow>
          if \<not> ok then (False, close_to path f1 (complain (''error: cannot size '' @ chars path) t1))
          else case fwrite f1 [0] of (n, f2) \<Rightarrow>
          if n \<noteq> 1 then (False, close_to path f2 (complain (''error: cannot finish '' @ chars path) t1))
          else (True, close_to path f2 (say (''created '' @ chars path @ '' ('' @ dec_string (unat bytes)
            @ '' bytes, '' @ dec_string (unat (bytes div 512)) @ '' sectors)'') t1)))"

text \<open>The loop that clears the directory sectors.\<close>

fun clear_directory :: "host_file \<Rightarrow> nat list \<Rightarrow> bool \<times> host_file" where
  "clear_directory fp [] = (True, fp)"
| "clear_directory fp (i # is) =
     (case seek_lba fp (T32D_DIRECTORY_LBA + of_nat i) of (ok, f1) \<Rightarrow>
      if \<not> ok then (False, f1)
      else case fwrite f1 (replicate T32D_SECTOR_SIZE 0) of (n, f2) \<Rightarrow>
        if n \<noteq> T32D_SECTOR_SIZE then (False, f2) else clear_directory f2 is)"

definition format_image :: "bytes \<Rightarrow> tool \<Rightarrow> bool \<times> tool" where
  "format_image path t =
     (case open_update path t of
        (None, t1) \<Rightarrow> (False, complain (''error: cannot open '' @ chars path @ '': '' @ t_strerror t1) t1)
      | (Some fp, t1) \<Rightarrow>
        (case file_size fp of (size', f1) \<Rightarrow>
         if size' = None \<or> the size' mod 512 \<noteq> 0
         then (False, complain ''error: image size must be a multiple of 512 bytes'' t1)
         else
         let sectors64 = the size' div 512 in
         if sectors64 \<le> ucast T32D_DATA_START_LBA \<or> sectors64 > 0xffffffff
         then (False, complain ''error: unsupported image size'' t1)
         else
         case seek_lba f1 0 of (ok, f2) \<Rightarrow>
         case (if ok then fwrite f2 (new_header (ucast sectors64)) else (0, f2)) of (n, f3) \<Rightarrow>
         if \<not> ok \<or> n \<noteq> T32D_SECTOR_SIZE
         then (False, close_to path f3 (complain ''error: cannot write T32D header'' t1))
         else
         case clear_directory f3 [0..<T32D_DIRECTORY_SECTORS] of (cleared, f4) \<Rightarrow>
         if \<not> cleared then (False, close_to path f4 (complain ''error: cannot clear T32D directory'' t1))
         else (True, close_to path (snd (fflush f4))
           (say (''formatted '' @ chars path @ '' as T32D v0.1'') t1))))"

definition info_image :: "bytes \<Rightarrow> tool \<Rightarrow> bool \<times> tool" where
  "info_image path t =
     (case open_rb path t of
        (None, t1) \<Rightarrow> (False, complain (''error: cannot open '' @ chars path) t1)
      | (Some fp, t1) \<Rightarrow>
        (case read_header fp of
           (None, _) \<Rightarrow> (False, complain (''error: '' @ chars path @ '' is not a recognized T32D v0.x image'') t1)
         | (Some info, _) \<Rightarrow>
           (True, say (''T32D image: '' @ chars path @ newline
              @ ''  format            T32D v0.1'' @ newline
              @ ''  sector size       '' @ fmt_u (sector_size info) @ newline
              @ ''  sectors           '' @ fmt_u (total_sectors info) @ newline
              @ ''  directory LBA     '' @ fmt_u (directory_lba info) @ newline
              @ ''  directory entries '' @ fmt_u (directory_entries info) @ newline
              @ ''  data start LBA    '' @ fmt_u (data_start_lba info) @ newline
              @ ''  boot file         '' @ chars (cstring_at (boot_name info) 0)) t1)))"

definition list_line :: "t32d_dirent_t \<Rightarrow> string" where
  "list_line entry = pad_right 32 (chars (dirent_name entry)) @ '' ''
     @ pad_right 11 (fmt_u (start_lba entry)) @ '' '' @ pad_right 10 (fmt_u (byte_length entry))
     @ '' 0x'' @ fmt_08X (d_flags entry)"

text \<open>The loop of \<open>list_image\<close>: the lines, and whether every entry could be read.\<close>

fun list_entries :: "host_file \<Rightarrow> nat list \<Rightarrow> bool \<times> string list" where
  "list_entries fp [] = (True, [])"
| "list_entries fp (i # is) =
     (case read_dirent fp i of
        (None, _) \<Rightarrow> (False, [])
      | (Some entry, f1) \<Rightarrow>
        (case list_entries f1 is of (ok, ls) \<Rightarrow>
           (ok, if \<not> dirent_used entry then ls else list_line entry # ls)))"

definition list_image :: "bytes \<Rightarrow> tool \<Rightarrow> bool \<times> tool" where
  "list_image path t =
     (case open_rb path t of
        (None, t1) \<Rightarrow> (False, complain (''error: cannot open '' @ chars path) t1)
      | (Some fp, t1) \<Rightarrow>
        (case read_header fp of
           (None, _) \<Rightarrow> (False, complain (''error: '' @ chars path @ '' is not a recognized T32D image'') t1)
         | (Some _, f1) \<Rightarrow>
           (case list_entries f1 [0..<T32D_DIRECTORY_ENTRIES] of (ok, ls) \<Rightarrow>
              let t2 = fold say ls (say ''NAME                             START-LBA   BYTES      FLAGS'' t1) in
              (ok, if ok \<and> ls = [] then say ''(empty)'' t2 else t2))))"

section \<open>Files\<close>

text \<open>The copying loop of \<open>put_file\<close>: \<open>remaining\<close> bytes from \<open>input\<close> into whole sectors of
  \<open>image\<close>. It returns the image stream.\<close>

function copy_in :: "bool \<Rightarrow> host_file \<Rightarrow> host_file \<Rightarrow> nat \<Rightarrow> bool \<times> host_file" where
  "copy_in same input image' remaining =
     (if remaining = 0 then (True, image')
      else
        let want = min remaining T32D_SECTOR_SIZE in
        case fread (see same image' input) want of (got, input1) \<Rightarrow>
        if length got \<noteq> want then (False, image')
        else case fwrite image' (got @ replicate (T32D_SECTOR_SIZE - want) 0) of (n, image1) \<Rightarrow>
          if n \<noteq> T32D_SECTOR_SIZE then (False, image1)
          else copy_in same input1 image1 (remaining - want))"
  by pat_completeness auto
termination
  by (relation "measure (\<lambda>(same, input, image', remaining). remaining)") auto

declare copy_in.simps [simp del]

text \<open>\<open>put_file\<close> after the image is open for update as \<open>image0\<close>: the part that reads the directory
  and picks the slot.\<close>

definition put_file :: "bytes \<Rightarrow> bytes \<Rightarrow> bytes \<Rightarrow> tool \<Rightarrow> bool \<times> tool" where
  "put_file image_path host_path guest_name t =
     (if \<not> valid_guest_name guest_name
      then (False, complain (''error: invalid T32D filename: '' @ chars guest_name) t)
      else
      let normalized = uppercase_name T32D_NAME_BYTES guest_name in
      case open_update image_path t of
        (None, t1) \<Rightarrow> (False, complain (''error: cannot open image '' @ chars image_path) t1)
      | (Some image0, t1) \<Rightarrow>
      (case read_header image0 of
        (None, _) \<Rightarrow> (False, complain ''error: image is not formatted T32D'' t1)
      | (Some info, image1) \<Rightarrow>
      (case find_entry image1 normalized of (found, image2) \<Rightarrow>
       if found \<noteq> None
       then (False, complain (''error: '' @ chars normalized @ '' already exists in image'') t1)
       else
      (case first_free_dirent image2 of
        (None, _) \<Rightarrow> (False, complain ''error: T32D directory is full'' t1)
      | (Some index, image3) \<Rightarrow>
      (case open_rb host_path t1 of
        (None, t2) \<Rightarrow> (False, complain (''error: cannot open input '' @ chars host_path) t2)
      | (Some input0, t2) \<Rightarrow>
      (case file_size input0 of (host_size, input1) \<Rightarrow>
       if host_size = None \<or> the host_size > 0xffffffff
       then (False, complain ''error: input file too large'' t2)
       else
       case next_free_lba image3 of (start, image4) \<Rightarrow>
       let sectors = sectors_needed (ucast (the host_size)) in
       if (ucast start :: u64) + ucast sectors > ucast (total_sectors info)
       then (False, complain ''error: not enough free space in image'' t2)
       else
       case seek_lba image4 start of (ok, image5) \<Rightarrow>
       if \<not> ok then (False, close_to image_path image5 t2)
       else
       case copy_in (image_path = host_path) input1 image5 (unat (the host_size)) of (copied, image6) \<Rightarrow>
       if \<not> copied
       then (False, close_to image_path image6 (complain ''error: I/O while copying file into image'' t2))
       else
       let entry = \<lparr>d_name = patch 0 normalized (replicate T32D_NAME_BYTES 0), start_lba = start,
             byte_length = ucast (the host_size),
             d_flags = (if normalized = char_bytes ''BOOT.BIN'' then T32D_FILE_FLAG_BOOT else 0),
             d_reserved = replicate 20 0\<rparr> in
       case write_dirent image6 index entry of (written, image7) \<Rightarrow>
       if \<not> written
       then (False, close_to image_path image7 (complain ''error: cannot write directory entry'' t2))
       else (True, close_to image_path (snd (fflush image7))
         (say (''put '' @ chars host_path @ '' -> '' @ chars image_path @ '':'' @ chars normalized
           @ '' ('' @ fmt_u (byte_length entry) @ '' bytes at LBA '' @ fmt_u (start_lba entry) @ '')'') t2))))))))"

text \<open>The copying loop of \<open>get_file\<close>. It returns the output stream.\<close>

function copy_out :: "bool \<Rightarrow> host_file \<Rightarrow> host_file \<Rightarrow> nat \<Rightarrow> bool \<times> host_file" where
  "copy_out same image' output remaining =
     (if remaining = 0 then (True, output)
      else
        let count = min remaining T32D_SECTOR_SIZE in
        case fread (see same output image') T32D_SECTOR_SIZE of (buffer, image1) \<Rightarrow>
        if length buffer \<noteq> T32D_SECTOR_SIZE then (False, output)
        else case fwrite output (take count buffer) of (n, output1) \<Rightarrow>
          if n \<noteq> count then (False, output1)
          else copy_out same image1 output1 (remaining - count))"
  by pat_completeness auto
termination
  by (relation "measure (\<lambda>(same, image', output, remaining). remaining)") auto

declare copy_out.simps [simp del]

definition get_file :: "bytes \<Rightarrow> bytes \<Rightarrow> bytes \<Rightarrow> tool \<Rightarrow> bool \<times> tool" where
  "get_file image_path guest_name host_path t =
     (case open_rb image_path t of
        (None, t1) \<Rightarrow> (False, complain (''error: cannot open image '' @ chars image_path) t1)
      | (Some image0, t1) \<Rightarrow>
      (case read_header image0 of
        (None, _) \<Rightarrow> (False, complain ''error: image is not formatted T32D'' t1)
      | (Some info, image1) \<Rightarrow>
      (case find_entry image1 guest_name of
        (None, _) \<Rightarrow> (False, complain (''error: '' @ chars guest_name @ '' not found'') t1)
      | (Some (entry, _), image2) \<Rightarrow>
      (case open_wb host_path t1 of
        (None, t2) \<Rightarrow> (False, complain (''error: cannot create '' @ chars host_path) t2)
      | (Some output, t2) \<Rightarrow>
      (case seek_lba image2 (start_lba entry) of (ok, image3) \<Rightarrow>
       if \<not> ok then (False, t2)
       else
       case copy_out (image_path = host_path) image3 output (unat (byte_length entry)) of (copied, output1) \<Rightarrow>
       if \<not> copied then (False, close_to host_path output1 (complain ''error: I/O while extracting file'' t2))
       else (True, close_to host_path output1
         (say (''get '' @ chars image_path @ '':'' @ chars guest_name @ '' -> '' @ chars host_path) t2)))))))"

section \<open>Command lines\<close>

text \<open>\<open>tokenize\<close>: the arguments, or what was printed before -1 was returned.\<close>

function tokenize :: "bytes \<Rightarrow> bytes list \<Rightarrow> nat \<Rightarrow> string + bytes list" where
  "tokenize p argv max_args =
     (let p1 = dropWhile isspace p in
      if p1 = [] \<or> hd p1 = 0x23 then Inr argv
      else if length argv \<ge> max_args then Inl []
      else if hd p1 = 0x22 \<or> hd p1 = 0x27 then
        let start = takeWhile (\<lambda>c. c \<noteq> hd p1) (tl p1); rest = dropWhile (\<lambda>c. c \<noteq> hd p1) (tl p1) in
        if rest = [] then Inl (''error: unterminated quoted argument'' @ newline)
        else tokenize (tl rest) (argv @ [start]) max_args
      else
        let start = takeWhile (\<lambda>c. \<not> isspace c \<and> c \<noteq> 0x23) p1;
            rest = dropWhile (\<lambda>c. \<not> isspace c \<and> c \<noteq> 0x23) p1 in
        if rest \<noteq> [] \<and> hd rest = 0x23 then Inr (argv @ [start])
        else tokenize (tl rest) (argv @ [start]) max_args)"
  by pat_completeness auto
termination
proof (relation "measure (\<lambda>(p, argv, max_args). length p)", goal_cases)
  case (2 p argv max_args p1 start rest)
  have "length rest \<le> length (tl p1)" "length p1 \<le> length p" "p1 \<noteq> []"
    using 2 length_dropWhile_le by (metis, metis, blast)
  then have "length (tl rest) < length p" by (cases p1; cases rest) auto
  then show ?case by simp
next
  case (3 p argv max_args p1 start rest)
  have "length rest \<le> length p1" "length p1 \<le> length p" "p1 \<noteq> []"
    using 3 length_dropWhile_le by (metis, metis, blast)
  then have "length (tl rest) < length p" by (cases p1; cases rest) auto
  then show ?case by simp
qed simp

declare tokenize.simps [simp del]

definition print_help :: "tool \<Rightarrow> tool" where
  "print_help = say (''t32-disk commands:'' @ newline
     @ ''  create <image> <size>             create raw image (e.g. 16M)'' @ newline
     @ ''  format <image>                    write T32D v0.1 metadata'' @ newline
     @ ''  info <image>                      display T32D header'' @ newline
     @ ''  list <image>                      list files'' @ newline
     @ ''  put <image> <hostfile> <name>     copy host file into image'' @ newline
     @ ''  get <image> <name> <hostfile>     extract file from image'' @ newline
     @ ''  do <script>                       execute commands from script'' @ newline
     @ ''  help                              show this help'' @ newline
     @ ''  quit | exit                       leave interactive mode'')"

section \<open>Scripts\<close>

text \<open>The lines that \<open>fgets(line, MAX_LINE, fp)\<close> delivers until it returns \<open>NULL\<close>, at the end of
  the file or on a read error. A longer line comes in pieces.\<close>

definition next_line :: "bytes \<Rightarrow> bytes" where
  "next_line rest = take (min (MAX_LINE - 1) (length (takeWhile (\<lambda>c. c \<noteq> 0x0A) rest) + 1)) rest"

function fgets_all :: "host_file \<Rightarrow> bytes list" where
  "fgets_all fp =
     (case next_fault fp of (fault, f1) \<Rightarrow>
      let rest = drop (hf_pos f1) (hf_bytes f1); line = next_line rest in
      if fault \<noteq> None \<or> line = [] then []
      else line # fgets_all (f1\<lparr>hf_pos := hf_pos f1 + length line\<rparr>))"
  by pat_completeness auto
termination
proof (relation "measure (\<lambda>f. length (hf_bytes f) - hf_pos f)", goal_cases)
  case (2 fp fault f1 rest line)
  then have "0 < length line" "hf_bytes f1 = hf_bytes fp" "hf_pos f1 = hf_pos fp"
    "hf_pos fp < length (hf_bytes fp)"
    using next_fault_cases [of fp fault f1] by (auto simp: next_line_def)
  then have "length (hf_bytes f1) - (hf_pos f1 + length line) < length (hf_bytes fp) - hf_pos fp"
    by arith
  then show ?case by simp
qed simp

declare fgets_all.simps [simp del]

text \<open>\<open>execute_line\<close> also returns whether it set \<open>*quit_requested\<close>. \<open>run_lines\<close> is the loop of
  \<open>execute_script\<close> over the lines of the script, which is read as it was when it was opened.\<close>

function execute_script :: "bytes \<Rightarrow> nat \<Rightarrow> tool \<Rightarrow> bool \<times> tool"
  and run_lines :: "bytes \<Rightarrow> bytes list \<Rightarrow> nat \<Rightarrow> nat \<Rightarrow> tool \<Rightarrow> bool \<times> tool"
  and execute_line :: "bytes \<Rightarrow> nat \<Rightarrow> tool \<Rightarrow> bool \<times> bool \<times> tool" where
  "execute_script path depth t =
     (if depth \<ge> MAX_SCRIPT_DEPTH then (False, complain ''error: script nesting too deep'' t)
      else case open_rb path t of
        (None, t1) \<Rightarrow> (False, complain (''error: cannot open script '' @ chars path) t1)
      | (Some fp, t1) \<Rightarrow> run_lines path (fgets_all fp) 1 depth t1)"
| "run_lines path [] line_no depth t = (True, t)"
| "run_lines path (line # lines) line_no depth t =
     (case execute_line line (depth + 1) t of (ok, quit, t1) \<Rightarrow>
        if \<not> ok then
          (False, complain (''error: '' @ chars path @ '':'' @ dec_string line_no @ '' failed'') t1)
        else if quit then (True, t1)
        else run_lines path lines (line_no + 1) depth t1)"
| "execute_line line depth t =
     (case tokenize (takeWhile (\<lambda>c. c \<noteq> 0) line) [] MAX_ARGS of
        Inl msg \<Rightarrow> (False, False, complain ''error: too many command arguments'' (t\<lparr>t_err := t_err t @ msg\<rparr>))
      | Inr argv \<Rightarrow>
        let argc = length argv in
        if argc = 0 then (True, False, t)
        else if argv ! 0 = char_bytes ''create'' then
          (case (if argc \<noteq> 3 then None else parse_size (argv ! 2)) of
             None \<Rightarrow> (False, False, complain ''usage: create <image> <size>'' t)
           | Some bytes \<Rightarrow> (case create_raw_image (argv ! 1) bytes t of (ok, t1) \<Rightarrow> (ok, False, t1)))
        else if argv ! 0 = char_bytes ''format'' then
          if argc \<noteq> 2 then (False, False, complain ''usage: format <image>'' t)
          else (case format_image (argv ! 1) t of (ok, t1) \<Rightarrow> (ok, False, t1))
        else if argv ! 0 = char_bytes ''info'' then
          if argc \<noteq> 2 then (False, False, complain ''usage: info <image>'' t)
          else (case info_image (argv ! 1) t of (ok, t1) \<Rightarrow> (ok, False, t1))
        else if argv ! 0 = char_bytes ''list'' then
          if argc \<noteq> 2 then (False, False, complain ''usage: list <image>'' t)
          else (case list_image (argv ! 1) t of (ok, t1) \<Rightarrow> (ok, False, t1))
        else if argv ! 0 = char_bytes ''put'' then
          if argc \<noteq> 4 then (False, False, complain ''usage: put <image> <hostfile> <name>'' t)
          else (case put_file (argv ! 1) (argv ! 2) (argv ! 3) t of (ok, t1) \<Rightarrow> (ok, False, t1))
        else if argv ! 0 = char_bytes ''get'' then
          if argc \<noteq> 4 then (False, False, complain ''usage: get <image> <name> <hostfile>'' t)
          else (case get_file (argv ! 1) (argv ! 2) (argv ! 3) t of (ok, t1) \<Rightarrow> (ok, False, t1))
        else if argv ! 0 = char_bytes ''do'' then
          if argc \<noteq> 2 then (False, False, complain ''usage: do <script>'' t)
          else (case execute_script (argv ! 1) depth t of (ok, t1) \<Rightarrow> (ok, False, t1))
        else if argv ! 0 = char_bytes ''help'' \<or> argv ! 0 = char_bytes ''?'' then (True, False, print_help t)
        else if argv ! 0 = char_bytes ''quit'' \<or> argv ! 0 = char_bytes ''exit'' then (True, True, t)
        else (False, False, complain (''error: unknown command: '' @ chars (argv ! 0)) t))"
  by pat_completeness auto
termination
  by (relation "measures
      [\<lambda>x. case x of Inl (path, depth, t) \<Rightarrow> 9 - depth
         | Inr (Inl (path, lines, line_no, depth, t)) \<Rightarrow> 8 - depth
         | Inr (Inr (line, depth, t)) \<Rightarrow> 9 - depth,
       \<lambda>x. case x of Inl (path, depth, t) \<Rightarrow> 1
         | Inr (Inl (path, lines, line_no, depth, t)) \<Rightarrow> 2 + length lines
         | Inr (Inr (line, depth, t)) \<Rightarrow> 2]") auto

declare execute_script.simps [simp del] execute_line.simps [simp del]

section \<open>The program\<close>

text \<open>The loop of \<open>main\<close> over the lines of the standard input.\<close>

fun main_loop :: "bool \<Rightarrow> bytes list \<Rightarrow> bool \<Rightarrow> tool \<Rightarrow> bool \<times> tool" where
  "main_loop interactive lines overall_ok t =
     (let t1 = (if interactive then t\<lparr>t_out := t_out t @ ''t32-disk> ''\<rparr> else t) in
      case lines of
        [] \<Rightarrow> (overall_ok, t1)
      | line # rest \<Rightarrow>
        (case execute_line line 0 t1 of (ok, quit, t2) \<Rightarrow>
           if \<not> ok then if \<not> interactive then (False, t2) else main_loop interactive rest False t2
           else if quit then (overall_ok, t2)
           else main_loop interactive rest overall_ok t2))"

declare main_loop.simps [simp del]

definition disk_main :: "bool \<Rightarrow> bytes list \<Rightarrow> host_file \<Rightarrow> tool \<Rightarrow> int \<times> tool" where
  "disk_main interactive args stdin t =
     (if length args = 1 \<and> (args ! 0 = char_bytes ''--version'' \<or> args ! 0 = char_bytes ''-v'')
      then (0, say ''t32-disk 0.0.1'' t)
      else if length args = 2 \<and> args ! 0 = char_bytes ''do''
      then (case execute_script (args ! 1) 0 t of (ok, t1) \<Rightarrow> (if ok then 0 else 1, t1))
      else if args \<noteq> [] then (2, complain ''usage: t32-disk [do script]'' t)
      else
        let t1 = (if interactive then say ''type 'help' for commands'' (say ''t32-disk 0.0.1'' t) else t) in
        case main_loop interactive (fgets_all stdin) True t1 of (ok, t2) \<Rightarrow> (if ok then 0 else 1, t2))"

end
