(* ===== verification/T32_Disk_Laws.thy ===== *)
theory T32_Disk_Laws
  imports T32_Disk
begin

text \<open>
  What the commands do to an image on a host without faults, on the bytes of the image. \<open>dirent_of\<close>
  is the entry at an index, \<open>extent\<close> the sectors of a file. \<open>image_wf\<close> is the invariant of a T32D
  image: the header fits the file, used entries have distinct names, their extents lie in the data
  area and do not overlap. \<open>contents\<close> is the image as a map from names to file contents.
\<close>

section \<open>Integers\<close>

lemma load_le32_of: "load_le32 p = of_le32 p"
  by (simp add: load_le32_def of_le32_def)

lemma store_le32_patch: "store_le32 off v buf = patch off (le32 v) buf"
  by (simp add: store_le32_def le32_def)

interpretation disk_le32: le32_codec le32 load_le32
proof unfold_locales
  show "load_le32 (le32 v @ rest) = v" for v rest by (simp add: load_le32_of)
  show "le32 (load_le32 bs) = bs" if "length bs = 4" for bs
    using that by (simp add: load_le32_of le32_of_le32)
  show "load_le32 p = load_le32 (take 4 p)" if "4 \<le> length p" for p
    by (simp add: load_le32_def)
qed simp

section \<open>Reads of an image\<close>

abbreviation entry_offset :: "nat \<Rightarrow> nat" where
  "entry_offset i \<equiv> 512 + i * 64"

definition raw_entry :: "bytes \<Rightarrow> nat \<Rightarrow> bytes" where
  "raw_entry img i = slice (entry_offset i) 64 img"

definition dirent_of :: "bytes \<Rightarrow> nat \<Rightarrow> t32d_dirent_t" where
  "dirent_of img i = (let raw = raw_entry img i in
     \<lparr>d_name = (slice 0 32 raw)[31 := 0], start_lba = load_le32 (drop 32 raw),
      byte_length = load_le32 (drop 36 raw), d_flags = load_le32 (drop 40 raw),
      d_reserved = replicate 20 0\<rparr>)"

definition info_of :: "bytes \<Rightarrow> t32d_info_t option" where
  "info_of img = header_info (slice 0 512 img)"

text \<open>The directory is inside the file, and the host has no faults.\<close>

abbreviation clean :: "host_file \<Rightarrow> bool" where
  "clean f \<equiv> hf_faults f = [] \<and> entry_offset 32 \<le> length (hf_bytes f)"

lemma seek_lba_clean:
  "hf_faults f = [] \<Longrightarrow> seek_lba f lba = (True, f\<lparr>hf_pos := unat lba * 512\<rparr>)"
proof -
  assume f: "hf_faults f = []"
  have b: "unat lba < 2 ^ 32" by (rule unat_u32_bound)
  then have u: "unat (ucast lba * 512 :: u64) = unat lba * 512" by (simp add: unat_word_ariths)
  have "uint (ucast lba * 512 :: u64) = int (unat lba * 512)" unfolding u [symmetric] by (rule uint_nat)
  moreover have "uint lba < 2 ^ 32" using unsigned_less [of lba, where 'a = int] by simp
  ultimately have "\<not> uint (ucast lba * 512 :: u64) > LONG_MAX" by (simp add: LONG_MAX_def)
  with f u show ?thesis by (simp add: seek_lba_def fault_free)
qed

lemma read_header_clean:
  "clean f \<Longrightarrow> read_header f = (info_of (hf_bytes f), f\<lparr>hf_pos := 512\<rparr>)"
  by (simp add: read_header_def seek_lba_clean fault_free info_of_def)

lemma entry_inside: "i < 32 \<Longrightarrow> entry_offset 32 \<le> n \<Longrightarrow> entry_offset i + 64 \<le> n"
  by simp

lemma read_dirent_clean:
  assumes "clean f" "i < 32"
  shows "read_dirent f i = (Some (dirent_of (hf_bytes f) i), f\<lparr>hf_pos := entry_offset i + 64\<rparr>)"
  using assms entry_inside [OF assms(2), of "length (hf_bytes f)"]
  by (simp add: read_dirent_def Let_def fault_free LONG_MAX_def dirent_of_def raw_entry_def)

text \<open>The searches, as list functions on the indices.\<close>

definition matches :: "bytes \<Rightarrow> bytes \<Rightarrow> nat \<Rightarrow> bool" where
  "matches img wanted i \<longleftrightarrow> dirent_used (dirent_of img i) \<and> dirent_name (dirent_of img i) = wanted"

lemma find_entry_in_clean:
  "clean f \<Longrightarrow> \<forall>i \<in> set is. i < 32 \<Longrightarrow>
   \<exists>p. find_entry_in f wanted is
     = (map_option (\<lambda>i. (dirent_of (hf_bytes f) i, i)) (find (matches (hf_bytes f) wanted) is), f\<lparr>hf_pos := p\<rparr>)"
proof (induction "is" arbitrary: f)
  case Nil
  show ?case by (intro exI [of _ "hf_pos f"]) simp
next
  case (Cons i "is")
  let ?f = "f\<lparr>hf_pos := entry_offset i + 64\<rparr>"
  have "read_dirent f i = (Some (dirent_of (hf_bytes f) i), ?f)"
    using Cons.prems by (intro read_dirent_clean) auto
  then show ?case using Cons.IH [of ?f] Cons.prems by (auto simp: matches_def)
qed

lemma find_entry_clean:
  "clean f \<Longrightarrow> \<exists>p. find_entry f name
     = (map_option (\<lambda>i. (dirent_of (hf_bytes f) i, i))
          (find (matches (hf_bytes f) (uppercase_name 32 name)) [0..<32]), f\<lparr>hf_pos := p\<rparr>)"
  unfolding find_entry_def by (rule find_entry_in_clean) simp_all

definition unused :: "bytes \<Rightarrow> nat \<Rightarrow> bool" where
  "unused img i \<longleftrightarrow> \<not> dirent_used (dirent_of img i)"

lemma first_free_in_clean:
  "clean f \<Longrightarrow> \<forall>i \<in> set is. i < 32 \<Longrightarrow>
   \<exists>p. first_free_in f is = (find (unused (hf_bytes f)) is, f\<lparr>hf_pos := p\<rparr>)"
proof (induction "is" arbitrary: f)
  case Nil
  show ?case by (intro exI [of _ "hf_pos f"]) simp
next
  case (Cons i "is")
  let ?f = "f\<lparr>hf_pos := entry_offset i + 64\<rparr>"
  have "read_dirent f i = (Some (dirent_of (hf_bytes f) i), ?f)"
    using Cons.prems by (intro read_dirent_clean) auto
  then show ?case using Cons.IH [of ?f] Cons.prems by (auto simp: unused_def)
qed

lemma first_free_clean:
  "clean f \<Longrightarrow> \<exists>p. first_free_dirent f = (find (unused (hf_bytes f)) [0..<32], f\<lparr>hf_pos := p\<rparr>)"
  unfolding first_free_dirent_def by (rule first_free_in_clean) simp_all

text \<open>The sector after the last one of a file, in the arithmetic of the source.\<close>

definition end_lba :: "t32d_dirent_t \<Rightarrow> u32" where
  "end_lba e = start_lba e + sectors_needed (byte_length e)"

definition used_entries :: "bytes \<Rightarrow> nat list" where
  "used_entries img = filter (\<lambda>i. \<not> unused img i) [0..<32]"

definition next_lba :: "bytes \<Rightarrow> u32" where
  "next_lba img = fold (\<lambda>i n. max n (end_lba (dirent_of img i))) (used_entries img) 8"

lemma next_free_in_clean:
  "clean f \<Longrightarrow> \<forall>i \<in> set is. i < 32 \<Longrightarrow>
   \<exists>p. next_free_in f n is
     = (fold (\<lambda>i n. max n (end_lba (dirent_of (hf_bytes f) i))) (filter (\<lambda>i. \<not> unused (hf_bytes f) i) is) n,
        f\<lparr>hf_pos := p\<rparr>)"
proof (induction "is" arbitrary: f n)
  case Nil
  show ?case by (intro exI [of _ "hf_pos f"]) simp
next
  case (Cons i "is")
  let ?f = "f\<lparr>hf_pos := entry_offset i + 64\<rparr>"
  have "read_dirent f i = (Some (dirent_of (hf_bytes f) i), ?f)"
    using Cons.prems by (intro read_dirent_clean) auto
  then show ?case using Cons.IH [of ?f] Cons.prems
    by (auto simp: unused_def end_lba_def Let_def max_def not_less)
qed

lemma next_free_clean:
  "clean f \<Longrightarrow> \<exists>p. next_free_lba f = (next_lba (hf_bytes f), f\<lparr>hf_pos := p\<rparr>)"
  unfolding next_free_lba_def next_lba_def used_entries_def by (rule next_free_in_clean) simp_all

section \<open>Copying\<close>

abbreviation sectors :: "nat \<Rightarrow> nat" where
  "sectors n \<equiv> (n + 511) div 512"

text \<open>A file in whole sectors.\<close>

definition padded :: "bytes \<Rightarrow> bytes" where
  "padded d = d @ replicate (sectors (length d) * 512 - length d) 0"

lemma sectors_room: "n \<le> sectors n * 512"
  using div_mult_mod_eq [of "n + 511" 512] mod_less_divisor [of 512 "n + 511"] by linarith

lemma length_padded [simp]: "length (padded d) = sectors (length d) * 512"
  using sectors_room [of "length d"] by (simp add: padded_def)

lemma padded_Nil [simp]: "padded [] = []"
  by (simp add: padded_def)

lemma sectors_step: "0 < n \<Longrightarrow> sectors n = 1 + sectors (n - 512)"
  by (cases "n \<le> 512") (simp_all add: div_if)

lemma padded_step:
  assumes "d \<noteq> []"
  shows "padded d = (take 512 d @ replicate (512 - min (length d) 512) 0) @ padded (drop 512 d)"
proof (cases "length d \<le> 512")
  case True
  then show ?thesis using assms sectors_step [of "length d"] by (simp add: padded_def min_def)
next
  case False
  then have "sectors (length d) * 512 - length d = sectors (length d - 512) * 512 - (length d - 512)"
    using assms sectors_step [of "length d"] by simp
  with False show ?thesis by (simp add: padded_def)
qed

lemma slice_padded: "slice 0 (length d) (padded d) = d"
  by (simp add: slice_def padded_def)

lemma patch_append:
  "off + length a + length b \<le> length xs \<Longrightarrow>
   patch (off + length a) b (patch off a xs) = patch off (a @ b) xs"
  by (cases a) (auto simp: patch_def min_def ac_simps)

lemma slice_take: "k \<le> n \<Longrightarrow> take k (slice p n xs) = slice p k xs"
  by (simp add: slice_def min_def)

lemma slice_drop: "drop k (slice p n xs) = slice (p + k) (n - k) xs"
  by (simp add: slice_def drop_take add.commute)

lemma copy_in_clean:
  "hf_faults input = [] \<Longrightarrow> hf_faults im = [] \<Longrightarrow> hf_pos input + n \<le> length (hf_bytes input) \<Longrightarrow>
   hf_pos im + sectors n * 512 \<le> length (hf_bytes im) \<Longrightarrow>
   copy_in False input im n = (True, im\<lparr>
     hf_bytes := patch (hf_pos im) (padded (slice (hf_pos input) n (hf_bytes input))) (hf_bytes im),
     hf_pos := hf_pos im + sectors n * 512\<rparr>)"
proof (induction n arbitrary: input im rule: less_induct)
  case (less n)
  show ?case
  proof (cases "n = 0")
    case True
    then show ?thesis by (subst copy_in.simps) simp
  next
    case False
    define w where "w = min n 512"
    let ?d = "slice (hf_pos input) n (hf_bytes input)"
    let ?i1 = "input\<lparr>hf_pos := hf_pos input + w\<rparr>"
    define b where "b = slice (hf_pos input) w (hf_bytes input) @ replicate (512 - w) 0"
    let ?m1 = "im\<lparr>hf_bytes := patch (hf_pos im) b (hf_bytes im), hf_pos := hf_pos im + 512\<rparr>"
    have s: "sectors n = 1 + sectors (n - w)" using False sectors_step [of n] by (simp add: w_def min_def)
    have w: "w \<le> n" "w \<le> 512" "0 < w" using False by (simp_all add: w_def)
    have lb: "length b = 512" using w less.prems(3) by (simp add: b_def)
    have room: "hf_pos im + 512 \<le> length (hf_bytes im)" using less.prems(4) s by simp
    have rec: "copy_in False input im n = copy_in False ?i1 ?m1 (n - w)"
      using False less.prems(1-3) w room lb
      by (subst copy_in.simps)
        (simp add: w_def [symmetric] see_def fault_free write_at_inside b_def [symmetric])
    have ld: "length ?d = n" using less.prems(3) by simp
    then have "?d \<noteq> []" using False by auto
    moreover have "take 512 ?d = slice (hf_pos input) w (hf_bytes input)"
      by (simp add: slice_def w_def min.commute)
    moreover have "drop 512 ?d = slice (hf_pos input + w) (n - w) (hf_bytes input)"
      by (cases "n \<le> 512") (simp_all add: slice_drop w_def)
    ultimately have d: "padded ?d = b @ padded (slice (hf_pos input + w) (n - w) (hf_bytes input))"
      using padded_step [of ?d] by (simp add: b_def ld w_def)
    have "copy_in False ?i1 ?m1 (n - w) = (True, ?m1\<lparr>
        hf_bytes := patch (hf_pos im + 512) (padded (slice (hf_pos input + w) (n - w) (hf_bytes input)))
          (patch (hf_pos im) b (hf_bytes im)),
        hf_pos := hf_pos im + 512 + sectors (n - w) * 512\<rparr>)"
      using less.IH [of "n - w" ?i1 ?m1] less.prems w s lb room False by simp
    then show ?thesis
      using patch_append [of "hf_pos im" b "padded (slice (hf_pos input + w) (n - w) (hf_bytes input))" "hf_bytes im"]
        less.prems w s lb unfolding rec d by simp
  qed
qed

lemma copy_out_clean:
  "hf_faults im = [] \<Longrightarrow> appending out \<Longrightarrow> hf_pos im + sectors n * 512 \<le> length (hf_bytes im) \<Longrightarrow>
   \<exists>f. copy_out False im out n = (True, f) \<and> hf_bytes f = hf_bytes out @ slice (hf_pos im) n (hf_bytes im)"
proof (induction n arbitrary: im out rule: less_induct)
  case (less n)
  show ?case
  proof (cases "n = 0")
    case True
    then show ?thesis by (subst copy_out.simps) simp
  next
    case False
    define c where "c = min n 512"
    let ?i1 = "im\<lparr>hf_pos := hf_pos im + 512\<rparr>"
    let ?b = "slice (hf_pos im) c (hf_bytes im)"
    have s: "sectors n = 1 + sectors (n - c)" using False sectors_step [of n] by (simp add: c_def min_def)
    have c: "c \<le> n" "c \<le> 512" "0 < c" using False by (simp_all add: c_def)
    have room: "hf_pos im + 512 \<le> length (hf_bytes im)" using less.prems(3) s by simp
    obtain o1 where o1: "fwrite out ?b = (c, o1)" "appending o1" "hf_bytes o1 = hf_bytes out @ ?b"
      using put_appending [OF less.prems(2), of ?b] less.prems(2) c room
      by (auto simp: put_def appending_def fault_free)
    have rec: "copy_out False im out n = copy_out False ?i1 o1 (n - c)"
      using False less.prems(1) c room o1(1)
      by (subst copy_out.simps) (simp add: c_def [symmetric] see_def fault_free slice_take)
    obtain f where f: "copy_out False ?i1 o1 (n - c) = (True, f)"
      "hf_bytes f = hf_bytes o1 @ slice (hf_pos im + 512) (n - c) (hf_bytes im)"
      using less.IH [of "n - c" ?i1 o1] less.prems c s o1 False by auto
    have "?b @ slice (hf_pos im + 512) (n - c) (hf_bytes im) = slice (hf_pos im) n (hf_bytes im)"
    proof (cases "n \<le> 512")
      case True
      then show ?thesis by (simp add: c_def min_def)
    next
      case False
      then show ?thesis using append_take_drop_id [of 512 "slice (hf_pos im) n (hf_bytes im)"]
        by (simp add: c_def slice_take slice_drop)
    qed
    then show ?thesis using f o1(3) unfolding rec by simp
  qed
qed

section \<open>Writing an entry\<close>

definition entry_bytes :: "t32d_dirent_t \<Rightarrow> bytes" where
  "entry_bytes e = d_name e @ le32 (start_lba e) @ le32 (byte_length e) @ le32 (d_flags e) @ replicate 20 0"

lemma length_entry_bytes [simp]: "length (d_name e) = 32 \<Longrightarrow> length (entry_bytes e) = 64"
  by (simp add: entry_bytes_def)

lemma write_dirent_clean:
  assumes "clean f" "i < 32" "length (d_name e) = 32"
  shows "write_dirent f i e = (True, f\<lparr>hf_bytes := patch (entry_offset i) (entry_bytes e) (hf_bytes f),
    hf_pos := entry_offset i + 64\<rparr>)"
proof -
  have raw: "store_le32 40 (d_flags e) (store_le32 36 (byte_length e) (store_le32 32 (start_lba e)
      (patch 0 (d_name e) (replicate 64 0)))) = entry_bytes e"
    using assms(3) by (simp add: store_le32_patch patch_def entry_bytes_def min_def)
  have "entry_offset i + 64 \<le> length (hf_bytes f)" using assms entry_inside by blast
  then show ?thesis using assms
    by (simp add: write_dirent_def Let_def raw fault_free LONG_MAX_def write_at_inside)
qed

lemma raw_entry_patch:
  assumes "entry_offset 32 \<le> length img" "i < 32" "j < 32" "length bs = 64"
  shows "raw_entry (patch (entry_offset i) bs img) j = (if i = j then bs else raw_entry img j)"
proof (cases "i = j")
  case True
  then show ?thesis using assms slice_patch [of "entry_offset i" bs img] by (simp add: raw_entry_def)
next
  case False
  then have "j < i \<or> i < j" by auto
  then have "entry_offset j + 64 \<le> entry_offset i \<or> entry_offset i + 64 \<le> entry_offset j" by auto
  then show ?thesis using assms False unfolding raw_entry_def
    by (subst slice_patch_other) auto
qed

lemma raw_entry_data:
  "entry_offset 32 \<le> off \<Longrightarrow> off + length bs \<le> length img \<Longrightarrow> i < 32 \<Longrightarrow>
   raw_entry (patch off bs img) i = raw_entry img i"
  unfolding raw_entry_def by (rule slice_patch_other) auto

lemma dirent_raw: "raw_entry img i = raw_entry img' j \<Longrightarrow> dirent_of img i = dirent_of img' j"
  by (simp add: dirent_of_def)

lemma dirent_entry_bytes:
  assumes "raw_entry img i = entry_bytes e" "length (d_name e) = 32" "d_name e ! 31 = 0"
    "d_reserved e = replicate 20 0"
  shows "dirent_of img i = e"
proof -
  have "(d_name e)[31 := 0] = d_name e" using assms(3) by (metis list_update_id)
  then show ?thesis using assms
    by (simp add: dirent_of_def entry_bytes_def slice_def load_le32_of)
qed

lemma info_patch: "512 \<le> off \<Longrightarrow> off + length bs \<le> length img \<Longrightarrow> info_of (patch off bs img) = info_of img"
  unfolding info_of_def by (subst slice_patch_other) auto

end
