(* ===== verification/T32_Disk_Files.thy ===== *)
theory T32_Disk_Files
  imports T32_Disk_Laws
begin

text \<open>
  A T32D image as a map from names to files: the invariant of an image, what \<open>put\<close> and \<open>format\<close>
  make of it, and what \<open>get\<close> reads from it.
\<close>

section \<open>The invariant\<close>

text \<open>A file's sectors, as a range of numbers.\<close>

abbreviation lo :: "t32d_dirent_t \<Rightarrow> nat" where
  "lo e \<equiv> unat (start_lba e)"

abbreviation hi :: "t32d_dirent_t \<Rightarrow> nat" where
  "hi e \<equiv> lo e + sectors (unat (byte_length e))"

definition in_use :: "bytes \<Rightarrow> nat \<Rightarrow> bool" where
  "in_use img i \<longleftrightarrow> i < 32 \<and> \<not> unused img i"

text \<open>The largest length whose sector count does not wrap in 32 bits.\<close>

abbreviation max_length :: nat where
  "max_length \<equiv> 2 ^ 32 - 512"

definition image_wf :: "bytes \<Rightarrow> bool" where
  "image_wf img \<longleftrightarrow>
     (\<exists>info. info_of img = Some info \<and> length img = unat (total_sectors info) * 512
        \<and> 8 < unat (total_sectors info)
        \<and> (\<forall>i. in_use img i \<longrightarrow> 8 \<le> lo (dirent_of img i)
             \<and> hi (dirent_of img i) \<le> unat (total_sectors info)
             \<and> unat (byte_length (dirent_of img i)) \<le> max_length))
     \<and> (\<forall>i j. in_use img i \<longrightarrow> in_use img j \<longrightarrow> i \<noteq> j \<longrightarrow>
          dirent_name (dirent_of img i) \<noteq> dirent_name (dirent_of img j)
          \<and> (hi (dirent_of img i) \<le> lo (dirent_of img j) \<or> hi (dirent_of img j) \<le> lo (dirent_of img i)))"

text \<open>The contents of a file, and the image as a map.\<close>

definition file_data :: "bytes \<Rightarrow> t32d_dirent_t \<Rightarrow> bytes" where
  "file_data img e = slice (lo e * 512) (unat (byte_length e)) img"

definition contents :: "bytes \<Rightarrow> bytes \<Rightarrow> bytes option" where
  "contents img name = map_option (\<lambda>i. file_data img (dirent_of img i)) (find (matches img name) [0..<32])"

lemma matches_in_use: "matches img name i \<Longrightarrow> i < 32 \<Longrightarrow> in_use img i"
  by (simp add: matches_def in_use_def unused_def)

lemma image_wf_dir: "image_wf img \<Longrightarrow> entry_offset 32 \<le> length img"
  by (auto simp: image_wf_def)

lemma sectors_word:
  "unat n \<le> max_length \<Longrightarrow> unat (sectors_needed n) = sectors (unat n)"
proof -
  assume n: "unat n \<le> max_length"
  then have "unat (n + 512 - 1) = unat n + 511"
    using unat_plus_simple [of n 511] by (simp add: word_le_nat_alt unat_word_ariths)
  then show ?thesis by (simp add: sectors_needed_def unat_div)
qed

lemma end_lba_hi:
  assumes "unat (byte_length e) \<le> max_length" "hi e < 2 ^ 32"
  shows "unat (end_lba e) = hi e"
  using assms(2) by (simp add: end_lba_def unat_word_ariths sectors_word [OF assms(1)])

lemma next_lba_fold:
  assumes "\<And>i. i \<in> set is \<Longrightarrow> unat (end_lba (dirent_of img i)) = hi (dirent_of img i)"
    "\<And>i. i \<in> set is \<Longrightarrow> hi (dirent_of img i) \<le> k"
  shows "unat n \<le> k \<Longrightarrow> r = fold (\<lambda>i n. max n (end_lba (dirent_of img i))) is n \<Longrightarrow>
    n \<le> r \<and> (\<forall>i \<in> set is. hi (dirent_of img i) \<le> unat r) \<and> unat r \<le> k"
  using assms
proof (induction "is" arbitrary: n)
  case (Cons j "is")
  define n1 where "n1 = max n (end_lba (dirent_of img j))"
  have n1: "unat n1 \<le> k" "n \<le> n1" "hi (dirent_of img j) \<le> unat n1"
    using Cons.prems(3) [of j] Cons.prems(4) [of j] Cons.prems(1)
    by (simp_all add: n1_def max_def word_le_nat_alt)
  have "n1 \<le> r \<and> (\<forall>i \<in> set is. hi (dirent_of img i) \<le> unat r) \<and> unat r \<le> k"
    using Cons.IH [of n1] Cons.prems n1(1) by (simp add: n1_def)
  with n1(2,3) show ?case by (auto simp: word_le_nat_alt)
qed simp

text \<open>The sector that \<open>put\<close> allocates lies after every file and inside the image.\<close>

lemma next_lba_bounds:
  assumes "image_wf img" "info_of img = Some info"
  shows "8 \<le> unat (next_lba img)" "in_use img i \<Longrightarrow> hi (dirent_of img i) \<le> unat (next_lba img)"
    and "unat (next_lba img) \<le> unat (total_sectors info)"
proof -
  have used: "i \<in> set (used_entries img) \<longleftrightarrow> in_use img i" for i
    by (auto simp: used_entries_def in_use_def)
  have wf: "8 < unat (total_sectors info)"
    "\<And>i. in_use img i \<Longrightarrow> hi (dirent_of img i) \<le> unat (total_sectors info)
       \<and> unat (byte_length (dirent_of img i)) \<le> max_length"
    using assms by (auto simp: image_wf_def)
  have "unat (end_lba (dirent_of img i)) = hi (dirent_of img i)" if "in_use img i" for i
    using wf(2) [OF that] unat_u32_bound [of "total_sectors info"] by (intro end_lba_hi) auto
  with next_lba_fold [of "used_entries img" img "unat (total_sectors info)" 8 "next_lba img"] wf
  have "8 \<le> next_lba img \<and> (\<forall>i. in_use img i \<longrightarrow> hi (dirent_of img i) \<le> unat (next_lba img))
      \<and> unat (next_lba img) \<le> unat (total_sectors info)"
    by (simp add: used next_lba_def)
  then show "8 \<le> unat (next_lba img)" "in_use img i \<Longrightarrow> hi (dirent_of img i) \<le> unat (next_lba img)"
    "unat (next_lba img) \<le> unat (total_sectors info)"
    by (simp_all add: word_le_nat_alt)
qed

section \<open>Putting a file\<close>

text \<open>The image after a file has been put at index \<open>idx\<close>.\<close>

definition new_entry :: "bytes \<Rightarrow> bytes \<Rightarrow> bytes \<Rightarrow> t32d_dirent_t" where
  "new_entry img name data = \<lparr>d_name = patch 0 name (replicate 32 0), start_lba = next_lba img,
     byte_length = of_nat (length data), d_flags = (if name = char_bytes ''BOOT.BIN'' then 1 else 0),
     d_reserved = replicate 20 0\<rparr>"

definition put_image :: "bytes \<Rightarrow> nat \<Rightarrow> bytes \<Rightarrow> bytes \<Rightarrow> bytes" where
  "put_image img idx name data = patch (entry_offset idx) (entry_bytes (new_entry img name data))
     (patch (unat (next_lba img) * 512) (padded data) img)"

definition name_ok :: "bytes \<Rightarrow> bool" where
  "name_ok name \<longleftrightarrow> 0 < length name \<and> length name < 32 \<and> 0 \<notin> set name"

lemma toupper_not_zero: "c \<noteq> 0 \<Longrightarrow> toupper c \<noteq> 0"
proof
  assume "c \<noteq> 0" "toupper c = 0"
  then have "97 \<le> c" "c = 32" by (auto simp: toupper_def split: if_splits)
  then show False by simp
qed

lemma valid_name_ok:
  assumes "valid_guest_name name"
  shows "name_ok (uppercase_name 32 name)"
proof -
  have c: "isalnum c \<or> c = 0x2E \<or> c = 0x5F \<or> c = 0x2D" if "c \<in> set name" for c
    using that assms by (simp add: valid_guest_name_def list_all_iff)
  have "toupper c \<noteq> 0" if "c \<in> set name" for c
    using c [OF that] by (intro toupper_not_zero) (auto simp: isalnum_def isdigit_def)
  moreover have "take 31 name = name" using assms by (simp add: valid_guest_name_def)
  ultimately show ?thesis using assms
    by (auto simp: valid_guest_name_def name_ok_def uppercase_name_def)
qed

lemma toupper_idem: "toupper (toupper c) = toupper c"
proof (cases "97 \<le> c \<and> c \<le> 122")
  case True
  then have "32 \<le> c" by (simp add: word_le_nat_alt)
  then have "unat (c - 32) = unat c - unat (32 :: u8)" by (rule unat_sub)
  moreover have "unat c \<le> 122" using True by (simp add: word_le_nat_alt)
  ultimately have "\<not> 97 \<le> c - 32" unfolding word_le_nat_alt by simp
  with True show ?thesis by (simp add: toupper_def)
qed (auto simp: toupper_def)

lemma uppercase_idem: "uppercase_name n (uppercase_name n s) = uppercase_name n s"
  by (simp add: uppercase_name_def take_map toupper_idem comp_def)

lemma name_field_eq:
  "name_ok name \<Longrightarrow> patch 0 name (replicate 32 0) = name @ 0 # replicate (31 - length name) 0"
  by (simp add: patch_def name_ok_def Suc_diff_le [symmetric] flip: replicate_Suc)

lemma name_field:
  assumes "name_ok name"
  shows "length (patch 0 name (replicate 32 0)) = 32" "patch 0 name (replicate 32 0) ! 31 = 0"
    "patch 0 name (replicate 32 0) ! 0 \<noteq> 0" "cstring_at (patch 0 name (replicate 32 0)) 0 = name"
proof -
  show "length (patch 0 name (replicate 32 0)) = 32" "patch 0 name (replicate 32 0) ! 31 = 0"
    "patch 0 name (replicate 32 0) ! 0 \<noteq> 0"
    using assms unfolding name_field_eq [OF assms]
    by (auto simp: name_ok_def nth_append nth_Cons' in_set_conv_nth)
  show "cstring_at (patch 0 name (replicate 32 0)) 0 = name"
    using cstring_at_append [of name "[]" "replicate (31 - length name) 0"] assms
    unfolding name_field_eq [OF assms] by (simp add: name_ok_def)
qed

text \<open>When \<open>data\<close> can be put into \<open>img\<close> as \<open>name\<close> at index \<open>idx\<close>.\<close>

definition put_ok :: "bytes \<Rightarrow> t32d_info_t \<Rightarrow> nat \<Rightarrow> bytes \<Rightarrow> bytes \<Rightarrow> bool" where
  "put_ok img info idx name data \<longleftrightarrow> image_wf img \<and> info_of img = Some info
     \<and> idx < 32 \<and> unused img idx \<and> name_ok name \<and> (\<forall>i < 32. \<not> matches img name i)
     \<and> length data \<le> max_length
     \<and> unat (next_lba img) + sectors (length data) \<le> unat (total_sectors info)"

abbreviation data_patch :: "bytes \<Rightarrow> bytes \<Rightarrow> bytes" where
  "data_patch img data \<equiv> patch (unat (next_lba img) * 512) (padded data) img"

lemma put_ok_facts:
  assumes "put_ok img info idx name data"
  shows "length img = unat (total_sectors info) * 512" "8 < unat (total_sectors info)"
    "8 \<le> unat (next_lba img)" "unat (next_lba img) * 512 + length (padded data) \<le> length img"
    "length (data_patch img data) = length img" "entry_offset 32 \<le> length img" "idx < 32"
proof -
  have wf: "image_wf img" and info: "info_of img = Some info"
    and room: "unat (next_lba img) + sectors (length data) \<le> unat (total_sectors info)"
    using assms by (simp_all add: put_ok_def)
  show t: "length img = unat (total_sectors info) * 512" "8 < unat (total_sectors info)"
    using wf info by (auto simp: image_wf_def)
  show "8 \<le> unat (next_lba img)" by (rule next_lba_bounds(1) [OF wf info])
  show i: "unat (next_lba img) * 512 + length (padded data) \<le> length img"
    using mult_le_mono1 [OF room, of 512] t(1) unfolding length_padded add_mult_distrib by linarith
  show "length (data_patch img data) = length img" by (rule length_patch [OF i])
  show "entry_offset 32 \<le> length img" by (rule image_wf_dir [OF wf])
  show "idx < 32" using assms by (simp add: put_ok_def)
qed

lemma new_entry_facts:
  assumes "name_ok name" "length data \<le> max_length"
  shows "unat (byte_length (new_entry img name data)) = length data"
    "lo (new_entry img name data) = unat (next_lba img)"
    "length (d_name (new_entry img name data)) = 32" "d_name (new_entry img name data) ! 31 = 0"
    "d_name (new_entry img name data) ! 0 \<noteq> 0" "dirent_name (new_entry img name data) = name"
  using name_field [OF assms(1)] assms(2) by (simp_all add: new_entry_def unat_of_nat32)

lemma put_entry:
  "put_ok img info idx name data \<Longrightarrow> length (d_name (new_entry img name data)) = 32"
  "put_ok img info idx name data \<Longrightarrow> unat (byte_length (new_entry img name data)) = length data"
  "put_ok img info idx name data \<Longrightarrow> dirent_used (new_entry img name data)"
  "put_ok img info idx name data \<Longrightarrow> dirent_name (new_entry img name data) = name"
  using new_entry_facts by (auto simp: put_ok_def)

lemma length_new: "put_ok img info idx name data \<Longrightarrow> length (put_image img idx name data) = length img"
  using put_ok_facts [of img info idx name data] put_entry(1) [of img info idx name data]
  by (simp add: put_image_def)

lemma dirent_new:
  assumes p: "put_ok img info idx name data" and i: "i < 32"
  shows "dirent_of (put_image img idx name data) i
    = (if i = idx then new_entry img name data else dirent_of img i)"
proof -
  let ?img = "put_image img idx name data" and ?e = "new_entry img name data"
  note f = put_ok_facts [OF p] and l = put_entry(1) [OF p]
  have "raw_entry ?img i = (if idx = i then entry_bytes ?e else raw_entry (data_patch img data) i)"
    unfolding put_image_def by (rule raw_entry_patch) (use f l i in simp_all)
  moreover have "raw_entry (data_patch img data) i = raw_entry img i"
    by (rule raw_entry_data [OF _ f(4) i]) (use f(3) in simp)
  moreover have "d_name ?e ! 31 = 0" "d_reserved ?e = replicate 20 0"
    using p new_entry_facts(4) by (auto simp: put_ok_def new_entry_def)
  ultimately show ?thesis
    using dirent_entry_bytes [OF _ l, of ?img i] dirent_raw [of ?img i img i]
    by (cases "i = idx") simp_all
qed

lemma in_use_new:
  "put_ok img info idx name data \<Longrightarrow> in_use (put_image img idx name data) i \<longleftrightarrow> i = idx \<or> in_use img i"
  using dirent_new [of img info idx name data i] put_ok_facts(7) [of img info idx name data]
    put_entry(3) [of img info idx name data]
  by (cases "i = idx"; cases "i < 32") (simp_all add: in_use_def unused_def)

lemma info_new:
  assumes p: "put_ok img info idx name data"
  shows "info_of (put_image img idx name data) = Some info"
proof -
  note f = put_ok_facts [OF p]
  have "info_of (put_image img idx name data) = info_of (data_patch img data)"
    unfolding put_image_def by (rule info_patch) (use f put_entry(1) [OF p] in simp_all)
  also have "\<dots> = info_of img" by (rule info_patch [OF _ f(4)]) (use f(3) in simp)
  finally show ?thesis using p by (simp add: put_ok_def)
qed

text \<open>An entry of the old image: where it is, and that it stays.\<close>

lemma old_entry:
  assumes p: "put_ok img info idx name data" and u: "in_use img i"
  defines "e \<equiv> dirent_of img i"
  shows "dirent_of (put_image img idx name data) i = e" "dirent_name e \<noteq> name"
    "hi e \<le> unat (next_lba img)" "8 \<le> lo e" "hi e \<le> unat (total_sectors info)"
    "unat (byte_length e) \<le> max_length" "i \<noteq> idx"
proof -
  have wf: "image_wf img" and info: "info_of img = Some info" and i: "i < 32"
    using p u by (simp_all add: put_ok_def in_use_def)
  show n: "i \<noteq> idx" using p u by (auto simp: put_ok_def in_use_def)
  show "dirent_of (put_image img idx name data) i = e" using dirent_new [OF p i] n by (simp add: e_def)
  have "\<not> matches img name i" using p i by (simp add: put_ok_def)
  then show "dirent_name e \<noteq> name" using u by (simp add: matches_def in_use_def unused_def e_def)
  show "hi e \<le> unat (next_lba img)" unfolding e_def by (rule next_lba_bounds(2) [OF wf info u])
  have "8 \<le> lo e \<and> hi e \<le> unat (total_sectors info) \<and> unat (byte_length e) \<le> max_length"
    using wf info u unfolding image_wf_def e_def by auto
  then show "8 \<le> lo e" "hi e \<le> unat (total_sectors info)" "unat (byte_length e) \<le> max_length" by auto
qed

lemma image_wf_put:
  assumes p: "put_ok img info idx name data"
  shows "image_wf (put_image img idx name data)"
proof -
  let ?img = "put_image img idx name data" and ?e = "new_entry img name data"
  note f = put_ok_facts [OF p] and n = put_entry(2-4) [OF p] and use = in_use_new [OF p]
  have e: "dirent_of ?img idx = ?e" using dirent_new [OF p f(7)] by simp
  have lo: "lo ?e = unat (next_lba img)" by (simp add: new_entry_def)
  have room: "unat (next_lba img) + sectors (length data) \<le> unat (total_sectors info)"
    "length data \<le> max_length" using p by (simp_all add: put_ok_def)
  have bound: "8 \<le> lo (dirent_of ?img i) \<and> hi (dirent_of ?img i) \<le> unat (total_sectors info)
      \<and> unat (byte_length (dirent_of ?img i)) \<le> max_length" if "in_use ?img i" for i
  proof (cases "i = idx")
    case True
    then show ?thesis using e lo f(3) room n(1) by simp
  next
    case False
    with that have "in_use img i" by (simp add: use)
    note o = old_entry [OF p this]
    show ?thesis unfolding o(1) using o(4-6) by blast
  qed
  have apart: "dirent_name (dirent_of ?img i) \<noteq> dirent_name (dirent_of ?img j)
      \<and> (hi (dirent_of ?img i) \<le> lo (dirent_of ?img j) \<or> hi (dirent_of ?img j) \<le> lo (dirent_of ?img i))"
    if "in_use ?img i" "in_use ?img j" "i \<noteq> j" for i j
  proof -
    have new: "dirent_name (dirent_of img k) \<noteq> name \<and> hi (dirent_of img k) \<le> lo ?e" if "in_use img k" for k
      using old_entry(2,3) [OF p that] lo by simp
    have "i = idx \<or> in_use img i" "j = idx \<or> in_use img j" using that by (simp_all add: use)
    with that(3) consider "in_use img i" "in_use img j" | "i = idx" "in_use img j" | "j = idx" "in_use img i"
      by metis
    then show ?thesis
    proof cases
      case 1
      have "image_wf img" using p by (simp add: put_ok_def)
      then show ?thesis unfolding old_entry(1) [OF p 1(1)] old_entry(1) [OF p 1(2)]
        using 1 that(3) unfolding image_wf_def by blast
    next
      case 2
      show ?thesis unfolding 2(1) e old_entry(1) [OF p 2(2)] using new [OF 2(2)] n(3) by metis
    next
      case 3
      show ?thesis unfolding 3(1) e old_entry(1) [OF p 3(2)] using new [OF 3(2)] n(3) by metis
    qed
  qed
  have "length ?img = unat (total_sectors info) * 512" using f(1) length_new [OF p] by simp
  then show ?thesis unfolding image_wf_def using info_new [OF p] f(2) bound apart by blast
qed

lemma data_new:
  assumes p: "put_ok img info idx name data"
  shows "file_data (put_image img idx name data) (new_entry img name data) = data"
proof -
  let ?off = "unat (next_lba img) * 512"
  note f = put_ok_facts [OF p]
  have a: "?off + length data \<le> length img" "entry_offset idx + 64 \<le> ?off"
    using f(3,4,7) sectors_room [of "length data"] by auto
  have "slice ?off (length data) (put_image img idx name data) = slice ?off (length data) (data_patch img data)"
    unfolding put_image_def
    by (rule slice_patch_other) (use a f put_entry(1) [OF p] in simp_all)
  also have "\<dots> = slice 0 (length data) (slice ?off (length (padded data)) (data_patch img data))"
    using sectors_room [of "length data"] by (simp add: slice_slice)
  also have "\<dots> = data" unfolding slice_patch [OF f(4)] by (rule slice_padded)
  finally show ?thesis using put_entry(2) [OF p] by (simp add: file_data_def new_entry_def)
qed

lemma data_old:
  assumes p: "put_ok img info idx name data" and u: "in_use img i"
  shows "file_data (put_image img idx name data) (dirent_of img i) = file_data img (dirent_of img i)"
proof -
  let ?e = "dirent_of img i" and ?off = "unat (next_lba img) * 512"
  note f = put_ok_facts [OF p] and o = old_entry [OF p u]
  have "unat (byte_length ?e) \<le> sectors (unat (byte_length ?e)) * 512" by (rule sectors_room)
  moreover have "hi ?e * 512 \<le> ?off" using o(3) by (rule mult_le_mono1)
  ultimately have below: "lo ?e * 512 + unat (byte_length ?e) \<le> ?off"
    unfolding add_mult_distrib by linarith
  have above: "entry_offset idx + 64 \<le> lo ?e * 512" using o(4) f(7) by simp
  have "file_data (put_image img idx name data) ?e = file_data (data_patch img data) ?e"
    unfolding file_data_def put_image_def
    by (rule slice_patch_other) (use above below f put_entry(1) [OF p] in simp_all)
  also have "\<dots> = file_data img ?e"
    unfolding file_data_def by (rule slice_patch_other [OF f(4)]) (use below f(4) in simp_all)
  finally show ?thesis .
qed

lemma find_upt: "find P [0..<n] = None \<longleftrightarrow> (\<forall>i < n. \<not> P i)" "find P [0..<n] = Some i \<Longrightarrow> P i \<and> i < n"
  by (auto simp: find_None_iff find_Some_iff)

lemma contents_put:
  assumes p: "put_ok img info idx name data"
  shows "contents (put_image img idx name data) n = (if n = name then Some data else contents img n)"
proof -
  let ?img = "put_image img idx name data"
  have idx: "idx < 32" "unused img idx" "\<forall>i < 32. \<not> matches img name i" using p by (simp_all add: put_ok_def)
  note e = dirent_new [OF p] and n = put_entry(3,4) [OF p]
  show ?thesis
  proof (cases "n = name")
    case True
    have m: "matches ?img name i \<longleftrightarrow> i = idx" if "i < 32" for i
      using that e [OF that] n idx(3) by (auto simp: matches_def)
    then have "find (matches ?img name) [0..<32] \<noteq> None" using idx(1) by (auto simp: find_upt)
    then obtain i where i: "find (matches ?img name) [0..<32] = Some i" by blast
    have "i = idx" using m [of i] find_upt(2) [OF i] by simp
    then show ?thesis using True i e [OF idx(1)] data_new [OF p] by (simp add: contents_def)
  next
    case False
    have m: "matches ?img n i \<longleftrightarrow> matches img n i" if "i < 32" for i
      using e [OF that] n idx(2) False by (auto simp: matches_def unused_def)
    then have f: "find (matches ?img n) [0..<32] = find (matches img n) [0..<32]"
      by (intro find_cong) auto
    show ?thesis
    proof (cases "find (matches img n) [0..<32]")
      case None
      then show ?thesis using False f by (simp add: contents_def)
    next
      case (Some i)
      then have u: "in_use img i" using find_upt(2) matches_in_use by blast
      then show ?thesis using False f Some old_entry(1) [OF p u] data_old [OF p u]
        by (simp add: contents_def)
    qed
  qed
qed

section \<open>The command put\<close>

abbreviation file_of :: "tool \<Rightarrow> bytes \<Rightarrow> bytes option" where
  "file_of t path \<equiv> w_files (t_world t) path"

abbreviation faultless :: "tool \<Rightarrow> bool" where
  "faultless t \<equiv> w_faults (t_world t) = []"

lemma open_rb_clean:
  "faultless t \<Longrightarrow> open_rb path t = (map_option (\<lambda>bs. open_file bs []) (file_of t path), t)"
  by (auto simp: open_rb_def fopen_rb_def next_stream_clean split: option.split)

lemma open_update_clean:
  "faultless t \<Longrightarrow> open_update path t = (if w_denied (t_world t) path then (None, t) else
     (map_option (\<lambda>bs. open_file bs []) (file_of t path), t))"
  by (simp add: open_update_def open_rb_clean)

lemma open_wb_clean:
  "faultless t \<Longrightarrow> open_wb path t = (if w_denied (t_world t) path then (None, t) else
     (Some (open_file [] []), t\<lparr>t_world := (t_world t)\<lparr>w_files := (w_files (t_world t))(path \<mapsto> [])\<rparr>\<rparr>))"
  by (simp add: open_wb_def fopen_wb_def next_stream_clean)

lemma file_size_clean:
  "hf_faults f = [] \<Longrightarrow> length (hf_bytes f) < 2 ^ 63 \<Longrightarrow>
   file_size f = (Some (of_nat (length (hf_bytes f))), f)"
  by (simp add: file_size_def fault_free)

lemma complain_world [simp]: "t_world (complain s t) = t_world t" "t_world (say s t) = t_world t"
  by (simp_all add: complain_def say_def)

lemma close_to_world [simp]:
  "w_files (t_world (close_to path f t)) = (w_files (t_world t))(path \<mapsto> hf_bytes f)"
  "w_faults (t_world (close_to path f t)) = w_faults (t_world t)"
  "w_denied (t_world (close_to path f t)) = w_denied (t_world t)"
  by (simp_all add: close_to_def save_stream_def)

lemma seek_open:
  "snd (seek_lba (open_file img []) lba) = \<lparr>hf_bytes = img, hf_pos = unat lba * 512, hf_faults = []\<rparr>"
  by (simp add: seek_lba_clean open_file_def)

lemma copied_image:
  assumes "put_ok img info idx name data"
  shows "copy_in False (open_file data []) (snd (seek_lba (open_file img []) (next_lba img))) (length data)
    = (True, \<lparr>hf_bytes = data_patch img data,
        hf_pos = unat (next_lba img) * 512 + sectors (length data) * 512, hf_faults = []\<rparr>)"
  using put_ok_facts(4) [OF assms] unfolding seek_open
  by (subst copy_in_clean) (simp_all add: open_file_def slice_def)

text \<open>A put on a host without faults, after all its checks have passed, and why it fails otherwise.\<close>

definition put_message :: "bytes \<Rightarrow> bytes \<Rightarrow> bytes \<Rightarrow> t32d_dirent_t \<Rightarrow> string" where
  "put_message ip hp name e = ''put '' @ chars hp @ '' -> '' @ chars ip @ '':'' @ chars name
     @ '' ('' @ fmt_u (byte_length e) @ '' bytes at LBA '' @ fmt_u (start_lba e) @ '')''"

lemma put_file_run:
  assumes t: "faultless t" "\<not> w_denied (t_world t) ip" "file_of t ip = Some img" "ip \<noteq> hp"
    and wf: "image_wf img" "info_of img = Some info"
    and host: "file_of t hp = Some data" "length data \<le> max_length"
    and valid: "valid_guest_name gname"
    and slot: "\<forall>i < 32. \<not> matches img (uppercase_name 32 gname) i"
      "find (unused img) [0..<32] = Some idx"
  shows "put_file ip hp gname t =
    (let name = uppercase_name 32 gname in
     if unat (next_lba img) + sectors (length data) \<le> unat (total_sectors info)
     then (True, close_to ip (snd (fflush (snd (write_dirent
            (snd (copy_in False (open_file data []) (snd (seek_lba (open_file img []) (next_lba img))) (length data)))
            idx (new_entry img name data)))))
          (say (put_message ip hp name (new_entry img name data)) t))
     else (False, complain ''error: not enough free space in image'' t))"
proof -
  define name where "name = uppercase_name 32 gname"
  let ?f = "open_file img []"
  have c: "clean (?f\<lparr>hf_pos := p\<rparr>)" for p using image_wf_dir [OF wf(1)] by (simp add: open_file_def)
  have bytes: "hf_bytes (?f\<lparr>hf_pos := p\<rparr>) = img" "hf_bytes ?f = img" for p by (simp_all add: open_file_def)
  have f0: "clean ?f" using c [of 0] by (simp add: open_file_def)
  have h: "read_header ?f = (Some info, ?f\<lparr>hf_pos := 512\<rparr>)"
    using read_header_clean [OF f0] wf(2) by (simp add: bytes)
  have none: "find (matches img name) [0..<32] = None" using slot(1) by (simp add: find_upt name_def)
  obtain p1 where p1: "find_entry (?f\<lparr>hf_pos := 512\<rparr>) name = (None, ?f\<lparr>hf_pos := p1\<rparr>)"
    using find_entry_clean [OF c [of 512], of name] none by (auto simp: bytes name_def uppercase_idem)
  obtain p2 where p2: "first_free_dirent (?f\<lparr>hf_pos := p1\<rparr>) = (Some idx, ?f\<lparr>hf_pos := p2\<rparr>)"
    using first_free_clean [OF c [of p1]] slot(2) by (auto simp: bytes)
  obtain p3 where p3: "next_free_lba (?f\<lparr>hf_pos := p2\<rparr>) = (next_lba img, ?f\<lparr>hf_pos := p3\<rparr>)"
    using next_free_clean [OF c [of p2]] by (auto simp: bytes)
  have sz: "file_size (open_file data []) = (Some (of_nat (length data)), open_file data [])"
    using host(2) by (subst file_size_clean) (simp_all add: open_file_def)
  have n: "unat (of_nat (length data) :: u64) = length data"
    using host(2) by (simp add: unat_of_nat take_bit_nat_eq_self)
  have "ucast (of_nat (length data) :: u64) = (of_nat (unat (of_nat (length data) :: u64)) :: u32)"
    by (simp only: of_nat_unat)
  then have u: "ucast (of_nat (length data) :: u64) = (of_nat (length data) :: u32)" unfolding n .
  have small: "\<not> (of_nat (length data) :: u64) > 0xffffffff"
    using host(2) by (simp add: word_less_nat_alt n)
  have need: "unat (sectors_needed (of_nat (length data))) = sectors (length data)"
    using sectors_word [of "of_nat (length data)"] host(2) by (simp add: unat_of_nat32)
  have sum: "(ucast (next_lba img) + ucast (sectors_needed (of_nat (length data))) :: u64) > ucast (total_sectors info)
      \<longleftrightarrow> \<not> unat (next_lba img) + sectors (length data) \<le> unat (total_sectors info)"
  proof -
    have "unat (next_lba img) < 2 ^ 32" "sectors (length data) < 2 ^ 32"
      using unat_u32_bound [of "next_lba img"] unat_u32_bound [of "sectors_needed (of_nat (length data))"] need
      by simp_all
    then have "unat (ucast (next_lba img) + ucast (sectors_needed (of_nat (length data))) :: u64)
        = unat (next_lba img) + sectors (length data)"
      by (simp add: unat_word_ariths need)
    then show ?thesis by (simp add: word_less_nat_alt not_le)
  qed
  have seek: "seek_lba (?f\<lparr>hf_pos := p3\<rparr>) (next_lba img) = (True, snd (seek_lba ?f (next_lba img)))"
    by (simp add: seek_lba_clean open_file_def)
  have s0: "hf_faults (snd (seek_lba ?f (next_lba img))) = []" "hf_bytes (snd (seek_lba ?f (next_lba img))) = img"
    "hf_pos (snd (seek_lba ?f (next_lba img))) = unat (next_lba img) * 512"
    by (simp_all add: seek_lba_clean open_file_def)
  have entry: "\<lparr>d_name = patch 0 name (replicate 32 0), start_lba = next_lba img,
      byte_length = of_nat (length data), d_flags = (if name = char_bytes ''BOOT.BIN'' then 1 else 0),
      d_reserved = replicate 20 0\<rparr> = new_entry img name data" by (simp add: new_entry_def)
  show ?thesis
  proof (cases "unat (next_lba img) + sectors (length data) \<le> unat (total_sectors info)")
    case False
    then show ?thesis using t host valid
      by (simp add: put_file_def name_def [symmetric] open_update_clean open_rb_clean h p1 p2 p3 sz small u sum)
  next
    case True
    have p: "put_ok img info idx name data"
      using True wf host(2) slot valid_name_ok [OF valid] find_upt(2) [OF slot(2)]
      by (simp add: put_ok_def name_def)
    note f = put_ok_facts [OF p]
    define g where "g = \<lparr>hf_bytes = data_patch img data,
      hf_pos = unat (next_lba img) * 512 + sectors (length data) * 512, hf_faults = []\<rparr>"
    have g: "copy_in False (open_file data []) (snd (seek_lba ?f (next_lba img))) (length data) = (True, g)"
      unfolding g_def by (rule copied_image [OF p])
    have "clean g" using f by (simp add: g_def)
    then obtain k where wr: "write_dirent g idx (new_entry img name data) = (True, k)"
      by (simp add: write_dirent_clean [OF _ f(7) put_entry(1) [OF p]])
    show ?thesis using t host valid True
      by (simp add: put_file_def name_def [symmetric] open_update_clean open_rb_clean h p1 p2 p3 sz small u sum
          seek n g entry wr put_message_def) (simp add: new_entry_def)
  qed
qed

text \<open>The first sector after all files, as a number.\<close>

definition data_end :: "bytes \<Rightarrow> nat" where
  "data_end img = Max (insert 8 ((\<lambda>i. hi (dirent_of img i)) ` {i. in_use img i}))"

lemma fold_max_in:
  "fold (\<lambda>i n. max n (f i)) is (n :: 'a :: linorder) = n \<or> fold (\<lambda>i n. max n (f i)) is n \<in> f ` set is"
proof (induction "is" arbitrary: n)
  case (Cons i "is")
  from Cons.IH [of "max n (f i)"] show ?case by (auto simp: max_def split: if_splits)
qed simp

lemma data_end_next:
  assumes wf: "image_wf img" and info: "info_of img = Some info"
  shows "unat (next_lba img) = data_end img"
proof -
  have hi: "unat (end_lba (dirent_of img i)) = hi (dirent_of img i)" if "in_use img i" for i
    using wf info that unat_u32_bound [of "total_sectors info"]
    by (intro end_lba_hi) (auto simp: image_wf_def intro: le_less_trans)
  have "next_lba img = 8 \<or> next_lba img \<in> (\<lambda>i. end_lba (dirent_of img i)) ` set (used_entries img)"
    unfolding next_lba_def by (rule fold_max_in)
  moreover have "set (used_entries img) = {i. in_use img i}" by (auto simp: used_entries_def in_use_def)
  ultimately have "unat (next_lba img) \<in> insert 8 ((\<lambda>i. hi (dirent_of img i)) ` {i. in_use img i})"
    using hi by auto
  moreover have "finite {i. in_use img i}" by (rule finite_subset [of _ "{..<32}"]) (auto simp: in_use_def)
  moreover have "y \<le> unat (next_lba img)"
    if "y \<in> insert 8 ((\<lambda>i. hi (dirent_of img i)) ` {i. in_use img i})" for y
    using that next_lba_bounds(1,2) [OF wf info] by auto
  ultimately show ?thesis unfolding data_end_def by (intro Max_eqI [symmetric]) auto
qed

lemma contents_None: "contents img name = None \<longleftrightarrow> (\<forall>i < 32. \<not> matches img name i)"
  by (simp add: contents_def find_upt)

text \<open>The checks of \<open>put\<close> before the free space, one equation for each that fails.\<close>

lemma put_file_rejects:
  fixes gname :: bytes
  assumes t: "faultless t" "file_of t ip = Some img" and wf: "image_wf img"
  defines "name \<equiv> uppercase_name 32 gname"
  assumes bad: "\<not> valid_guest_name gname \<or> w_denied (t_world t) ip \<or> contents img name \<noteq> None
    \<or> (\<forall>i < 32. \<not> unused img i) \<or> file_of t hp = None"
  shows "\<exists>msg. put_file ip hp gname t = (False, complain msg t)"
proof (cases "valid_guest_name gname \<and> \<not> w_denied (t_world t) ip")
  case False
  then show ?thesis using t by (auto simp: put_file_def open_update_clean)
next
  case open_ok: True
  let ?f = "open_file img []"
  have c: "clean (?f\<lparr>hf_pos := p\<rparr>)" for p using image_wf_dir [OF wf] by (simp add: open_file_def)
  have bytes: "hf_bytes (?f\<lparr>hf_pos := p\<rparr>) = img" "hf_bytes ?f = img" for p by (simp_all add: open_file_def)
  obtain info where info: "info_of img = Some info" using wf by (auto simp: image_wf_def)
  have f0: "clean ?f" using c [of 0] by (simp add: open_file_def)
  have h: "read_header ?f = (Some info, ?f\<lparr>hf_pos := 512\<rparr>)"
    using read_header_clean [OF f0] info by (simp add: bytes)
  obtain p1 where p1: "find_entry (?f\<lparr>hf_pos := 512\<rparr>) name
      = (map_option (\<lambda>i. (dirent_of img i, i)) (find (matches img name) [0..<32]), ?f\<lparr>hf_pos := p1\<rparr>)"
    using find_entry_clean [OF c [of 512], of name] by (auto simp: bytes name_def uppercase_idem)
  obtain p2 where p2: "first_free_dirent (?f\<lparr>hf_pos := p1\<rparr>) = (find (unused img) [0..<32], ?f\<lparr>hf_pos := p2\<rparr>)"
    using first_free_clean [OF c [of p1]] by (auto simp: bytes)
  show ?thesis
  proof (cases "find (matches img name) [0..<32]")
    case (Some i)
    then show ?thesis using t open_ok
      by (simp add: put_file_def name_def [symmetric] open_update_clean h p1) blast
  next
    case None
    then have "contents img name = None" by (simp add: contents_def)
    then have slot: "find (unused img) [0..<32] = None \<or> file_of t hp = None"
      using bad open_ok by (auto simp: find_upt)
    show ?thesis
    proof (cases "find (unused img) [0..<32]")
      case full: None
      then show ?thesis using t open_ok None
        by (simp add: put_file_def name_def [symmetric] open_update_clean h p1 p2) blast
    next
      case (Some idx)
      then show ?thesis using t open_ok None slot
        by (simp add: put_file_def name_def [symmetric] open_update_clean open_rb_clean h p1 p2) blast
    qed
  qed
qed

text \<open>When \<open>put\<close> succeeds and what it does, on a host without faults.\<close>

definition can_put :: "tool \<Rightarrow> bytes \<Rightarrow> t32d_info_t \<Rightarrow> bytes \<Rightarrow> bytes \<Rightarrow> bytes \<Rightarrow> bool" where
  "can_put t img info ip hp gname \<longleftrightarrow> valid_guest_name gname \<and> \<not> w_denied (t_world t) ip
     \<and> contents img (uppercase_name 32 gname) = None \<and> (\<exists>i < 32. unused img i)
     \<and> (\<exists>data. file_of t hp = Some data \<and> data_end img + sectors (length data) \<le> unat (total_sectors info))"

lemma put_file_effect:
  fixes gname :: bytes
  assumes t: "faultless t" "file_of t ip = Some img" "ip \<noteq> hp" and wf: "image_wf img" "info_of img = Some info"
    and small: "\<And>data. file_of t hp = Some data \<Longrightarrow> length data \<le> max_length"
  defines "name \<equiv> uppercase_name 32 gname"
  shows "if can_put t img info ip hp gname
    then \<exists>img' t' msg. put_file ip hp gname t = (True, t') \<and> t_world t' = (t_world t)\<lparr>w_files := (file_of t)(ip \<mapsto> img')\<rparr>
      \<and> t_out t' = t_out t @ msg @ newline \<and> t_err t' = t_err t
      \<and> image_wf img' \<and> info_of img' = Some info \<and> contents img' = (contents img)(name := file_of t hp)
    else \<exists>msg. put_file ip hp gname t = (False, complain msg t)"
proof -
  consider (bad) "\<not> valid_guest_name gname \<or> w_denied (t_world t) ip \<or> contents img name \<noteq> None
      \<or> (\<forall>i < 32. \<not> unused img i) \<or> file_of t hp = None"
    | (good) "valid_guest_name gname" "\<not> w_denied (t_world t) ip" "contents img name = None"
      "\<exists>i < 32. unused img i" "\<exists>data. file_of t hp = Some data" by blast
  then show ?thesis
  proof cases
    case bad
    then have "\<not> can_put t img info ip hp gname" by (auto simp: can_put_def name_def)
    then show ?thesis using put_file_rejects [OF t(1,2) wf(1)] bad by (simp add: name_def)
  next
    case good
    obtain data where data: "file_of t hp = Some data" using good(5) by blast
    obtain idx where idx: "find (unused img) [0..<32] = Some idx" using good(4) find_upt(1) by blast
    have m: "\<forall>i < 32. \<not> matches img (uppercase_name 32 gname) i"
      using good(3) by (simp add: contents_None name_def)
    note run = put_file_run [OF t(1) good(2) t(2,3) wf data small [OF data] good(1) m idx]
    have can: "can_put t img info ip hp gname \<longleftrightarrow> unat (next_lba img) + sectors (length data) \<le> unat (total_sectors info)"
      using good data by (auto simp: can_put_def name_def data_end_next [OF wf])
    show ?thesis
    proof (cases "can_put t img info ip hp gname")
      case False
      then show ?thesis unfolding run Let_def using can by auto
    next
      case True
      have p: "put_ok img info idx name data"
        using True can wf small [OF data] m valid_name_ok [OF good(1)] find_upt(2) [OF idx]
        by (simp add: put_ok_def name_def)
      note f = put_ok_facts [OF p]
      let ?g = "snd (copy_in False (open_file data []) (snd (seek_lba (open_file img []) (next_lba img))) (length data))"
      have g: "hf_bytes ?g = data_patch img data \<and> hf_faults ?g = []"
        unfolding copied_image [OF p] by simp
      then have "clean ?g" using f by simp
      define k where "k = snd (fflush (snd (write_dirent ?g idx (new_entry img name data))))"
      have k: "hf_bytes k = put_image img idx name data"
        using write_dirent_clean [OF \<open>clean ?g\<close> f(7) put_entry(1) [OF p]] g
        by (simp add: put_image_def k_def)
      have r: "put_file ip hp gname t
          = (True, close_to ip k (say (put_message ip hp name (new_entry img name data)) t))"
        unfolding run Let_def k_def name_def using True can by simp
      have "contents (put_image img idx name data) = (contents img)(name := file_of t hp)"
        using contents_put [OF p] by (simp add: fun_eq_iff data)
      then show ?thesis unfolding if_P [OF True] using r k image_wf_put [OF p] info_new [OF p]
        by (intro exI conjI) (assumption, simp_all add: close_to_def save_stream_def say_def)
    qed
  qed
qed

end
