(* ===== verification/T32_Disk_Media.thy ===== *)
theory T32_Disk_Media
  imports T32_Disk_Files
begin

text \<open>
  The commands \<open>get\<close>, \<open>format\<close> and \<open>create\<close> on a host without faults, and the interface of a store
  of named files, which an image is an instance of.
\<close>

section \<open>The command get\<close>

lemma file_in_image:
  assumes "image_wf img" "in_use img i"
  shows "lo (dirent_of img i) * 512 + sectors (unat (byte_length (dirent_of img i))) * 512 \<le> length img"
proof -
  obtain info where "info_of img = Some info" using assms(1) by (auto simp: image_wf_def)
  with assms have "length img = unat (total_sectors info) * 512"
    "hi (dirent_of img i) \<le> unat (total_sectors info)"
    by (simp_all add: image_wf_def)
  then show ?thesis using mult_le_mono1 [of "hi (dirent_of img i)" "unat (total_sectors info)" 512]
    by (simp add: add_mult_distrib)
qed

lemma get_file_effect:
  fixes gname :: bytes
  assumes t: "faultless t" "file_of t ip = Some img" "ip \<noteq> hp" and wf: "image_wf img"
    and ok: "\<not> w_denied (t_world t) hp"
  shows "case contents img (uppercase_name 32 gname) of
      None \<Rightarrow> get_file ip gname hp t = (False, complain (''error: '' @ chars gname @ '' not found'') t)
    | Some data \<Rightarrow> \<exists>t'. get_file ip gname hp t = (True, t')
        \<and> t_world t' = (t_world t)\<lparr>w_files := (file_of t)(hp \<mapsto> data)\<rparr>"
proof -
  let ?f = "open_file img []" and ?name = "uppercase_name 32 gname"
  have c: "clean (?f\<lparr>hf_pos := p\<rparr>)" for p using image_wf_dir [OF wf] by (simp add: open_file_def)
  have bytes: "hf_bytes (?f\<lparr>hf_pos := p\<rparr>) = img" "hf_bytes ?f = img" for p by (simp_all add: open_file_def)
  obtain info where info: "info_of img = Some info" using wf by (auto simp: image_wf_def)
  have f0: "clean ?f" using c [of 0] by (simp add: open_file_def)
  have h: "read_header ?f = (Some info, ?f\<lparr>hf_pos := 512\<rparr>)"
    using read_header_clean [OF f0] info by (simp add: bytes)
  obtain p1 where p1: "find_entry (?f\<lparr>hf_pos := 512\<rparr>) gname
      = (map_option (\<lambda>i. (dirent_of img i, i)) (find (matches img ?name) [0..<32]), ?f\<lparr>hf_pos := p1\<rparr>)"
    using find_entry_clean [OF c [of 512], of gname] by (auto simp: bytes)
  show ?thesis
  proof (cases "find (matches img ?name) [0..<32]")
    case None
    then show ?thesis using t by (simp add: get_file_def open_rb_clean h p1 contents_def)
  next
    case (Some i)
    let ?e = "dirent_of img i"
    have u: "in_use img i" using find_upt(2) [OF Some] matches_in_use by blast
    let ?g = "\<lparr>hf_bytes = img, hf_pos = lo ?e * 512, hf_faults = []\<rparr>"
    have seek: "seek_lba (?f\<lparr>hf_pos := p1\<rparr>) (start_lba ?e) = (True, ?g)"
      by (simp add: seek_lba_clean open_file_def)
    have "appending (open_file [] [])" by (simp add: appending_def open_file_def)
    with copy_out_clean [of ?g "open_file [] []" "unat (byte_length ?e)"] file_in_image [OF wf u]
    obtain out where out: "copy_out False ?g (open_file [] []) (unat (byte_length ?e)) = (True, out)"
      "hf_bytes out = file_data img ?e" by (auto simp: file_data_def open_file_def)
    show ?thesis using t Some ok
      by (simp add: get_file_def open_rb_clean open_wb_clean h p1 seek out contents_def close_to_def
          save_stream_def say_def)
  qed
qed

section \<open>The command format\<close>

lemma patch_zeros:
  "length ys \<le> k \<Longrightarrow> patch (length p) ys (p @ replicate k 0) = p @ ys @ replicate (k - length ys) (0 :: u8)"
  by (simp add: patch_def)

definition header_start :: "u32 \<Rightarrow> bytes" where
  "header_start n = T32D_MAGIC @ [0, 1, 0, 0] @ le32 512 @ le32 n @ le32 1 @ le32 32 @ le32 64 @ le32 8"

lemma new_header_eq: "new_header n = header_start n @ char_bytes ''BOOT.BIN'' @ replicate 472 0"
proof -
  let ?p1 = "T32D_MAGIC @ [0, 1]" let ?p2 = "?p1 @ [0, 0]"
  let ?p3 = "?p2 @ le32 512" let ?p4 = "?p3 @ le32 n" let ?p5 = "?p4 @ le32 1"
  let ?p6 = "?p5 @ le32 32" let ?p7 = "?p6 @ le32 64" let ?p8 = "?p7 @ le32 8"
  have l: "length T32D_MAGIC = 4" by (simp add: T32D_MAGIC_def)
  have two: "replicate 506 0 = [0, 0] @ replicate 504 (0 :: u8)"
    by (simp add: replicate_add [of 2 504, simplified] eval_nat_numeral)
  have "patch 0 (T32D_MAGIC @ [0, 1]) (replicate 512 0) = ?p2 @ replicate 504 0"
    using patch_zeros [of "T32D_MAGIC @ [0, 1]" 512 "[]"] two by (simp add: l)
  moreover have "patch 8 (le32 512) (?p2 @ replicate 504 0) = ?p3 @ replicate 500 0"
    using patch_zeros [of "le32 512" 504 ?p2] by (simp add: l)
  moreover have "patch 12 (le32 n) (?p3 @ replicate 500 0) = ?p4 @ replicate 496 0"
    using patch_zeros [of "le32 n" 500 ?p3] by (simp add: l)
  moreover have "patch 16 (le32 1) (?p4 @ replicate 496 0) = ?p5 @ replicate 492 0"
    using patch_zeros [of "le32 1" 496 ?p4] by (simp add: l)
  moreover have "patch 20 (le32 32) (?p5 @ replicate 492 0) = ?p6 @ replicate 488 0"
    using patch_zeros [of "le32 32" 492 ?p5] by (simp add: l)
  moreover have "patch 24 (le32 64) (?p6 @ replicate 488 0) = ?p7 @ replicate 484 0"
    using patch_zeros [of "le32 64" 488 ?p6] by (simp add: l)
  moreover have "patch 28 (le32 8) (?p7 @ replicate 484 0) = ?p8 @ replicate 480 0"
    using patch_zeros [of "le32 8" 484 ?p7] by (simp add: l)
  moreover have "patch 32 (char_bytes ''BOOT.BIN'') (?p8 @ replicate 480 0)
      = ?p8 @ char_bytes ''BOOT.BIN'' @ replicate 472 0"
    using patch_zeros [of "char_bytes ''BOOT.BIN''" 480 ?p8] by (simp add: l)
  ultimately show ?thesis by (simp add: new_header_def store_le32_patch Let_def header_start_def)
qed

lemma length_new_header [simp]: "length (new_header n) = 512"
  by (simp add: new_header_eq header_start_def T32D_MAGIC_def)

lemma header_info_new:
  "\<exists>info. header_info (new_header n) = Some info \<and> total_sectors info = n"
  unfolding new_header_eq header_start_def
  by (simp add: header_info_def T32D_MAGIC_def slice_def load_le32_of)

lemma clear_step:
  assumes "hf_faults f = []" "(i + 1) * 512 + 512 \<le> length (hf_bytes f)" "i < 4"
  shows "clear_directory f (i # is) = clear_directory (f\<lparr>
    hf_bytes := patch ((i + 1) * 512) (replicate 512 0) (hf_bytes f), hf_pos := (i + 1) * 512 + 512\<rparr>) is"
proof -
  have "unat (1 + of_nat i :: u32) = i + 1" using assms(3) by (simp add: unat_word_ariths unat_of_nat32)
  with assms(1,2) show ?thesis
    by (simp add: seek_lba_clean fault_free write_at_inside)
qed

lemma clear_directory_clean:
  assumes "hf_faults f = []" "2560 \<le> length (hf_bytes f)"
  shows "\<exists>p. clear_directory f [0..<4]
    = (True, f\<lparr>hf_bytes := patch 512 (replicate 2048 0) (hf_bytes f), hf_pos := p\<rparr>)"
proof -
  have upt: "[0..<4] = [0, 1, 2, 3 :: nat]" by (simp add: upt_rec)
  have "patch 2048 (replicate 512 0) (patch 1536 (replicate 512 0) (patch 1024 (replicate 512 0)
      (patch 512 (replicate 512 0) (hf_bytes f)))) = patch 512 (replicate 2048 0) (hf_bytes f)"
    using patch_append [of 512 "replicate 512 0" "replicate 512 0" "hf_bytes f"]
      patch_append [of 512 "replicate 1024 0" "replicate 512 0" "hf_bytes f"]
      patch_append [of 512 "replicate 1536 0" "replicate 512 0" "hf_bytes f"] assms(2)
    by (simp flip: replicate_add)
  then show ?thesis unfolding upt using assms
    by (simp add: clear_step del: clear_directory.simps(2)) auto
qed

text \<open>A formatted image.\<close>

definition formatted :: "bytes \<Rightarrow> bytes" where
  "formatted img = patch 512 (replicate 2048 0) (patch 0 (new_header (of_nat (length img div 512))) img)"

lemma formatted_facts:
  assumes "length img = n * 512" "8 < n" "n < 2 ^ 32"
  shows "image_wf (formatted img)" "contents (formatted img) = (\<lambda>_. None)" "length (formatted img) = length img"
proof -
  let ?h = "patch 0 (new_header (of_nat n)) img"
  have f: "formatted img = patch 512 (replicate 2048 0) ?h" using assms(1) by (simp add: formatted_def)
  have l: "length ?h = n * 512" using assms by simp
  show len: "length (formatted img) = length img" unfolding f using l assms by simp
  have "raw_entry (formatted img) i = replicate 64 0" if "i < 32" for i
  proof -
    have "raw_entry (formatted img) i = slice (i * 64) 64 (slice 512 2048 (formatted img))"
      using that by (simp add: raw_entry_def slice_slice)
    also have "slice 512 2048 (formatted img) = replicate 2048 0"
      unfolding f using slice_patch [of 512 "replicate 2048 0" ?h] l assms by simp
    finally show ?thesis using that by (simp add: slice_def)
  qed
  then have unused: "unused (formatted img) i" if "i < 32" for i
    using that by (simp add: unused_def dirent_of_def slice_def)
  then show "contents (formatted img) = (\<lambda>_. None)"
    by (auto simp: fun_eq_iff contents_None matches_def unused_def)
  have "info_of (formatted img) = info_of ?h" unfolding f by (rule info_patch) (use l assms in simp_all)
  also have "\<dots> = header_info (new_header (of_nat n))"
    using slice_patch [of 0 "new_header (of_nat n)" img] assms by (simp add: info_of_def)
  finally obtain info where "info_of (formatted img) = Some info" "total_sectors info = of_nat n"
    using header_info_new by auto
  moreover have "\<not> in_use (formatted img) i" for i using unused by (auto simp: in_use_def)
  ultimately show "image_wf (formatted img)"
    using len assms unat_of_nat32 [OF assms(3)] by (simp add: image_wf_def)
qed

lemma format_image_effect:
  assumes t: "faultless t" "file_of t path = Some img" "\<not> w_denied (t_world t) path"
    and len: "length img = n * 512" "8 < n" "n < 2 ^ 32"
  shows "\<exists>t'. format_image path t = (True, t')
    \<and> t_world t' = (t_world t)\<lparr>w_files := (file_of t)(path \<mapsto> formatted img)\<rparr>"
proof -
  let ?f = "open_file img []"
  have b: "length img < 2 ^ 63" using len by simp
  have sz: "file_size ?f = (Some (of_nat (length img)), ?f)"
    using b by (subst file_size_clean) (simp_all add: open_file_def)
  have "unat (of_nat (length img) :: u64) = length img"
    using b by (simp add: unat_of_nat take_bit_nat_eq_self)
  from trans [OF this len(1)] have n: "unat (of_nat (length img) :: u64) = n * 512" .
  have m: "(of_nat (length img) :: u64) mod 512 = 0" by (simp add: word_arith_nat_mod n)
  have d: "unat ((of_nat (length img) :: u64) div 512) = n" by (simp add: unat_div n)
  have rng: "\<not> (of_nat (length img) :: u64) div 512 \<le> 8" "\<not> (of_nat (length img) :: u64) div 512 > 0xffffffff"
    unfolding word_le_nat_alt word_less_nat_alt d using len(2,3) by simp_all
  have "ucast ((of_nat (length img) :: u64) div 512) = (of_nat (unat ((of_nat (length img) :: u64) div 512)) :: u32)"
    by (simp only: of_nat_unat)
  then have u: "ucast ((of_nat (length img) :: u64) div 512) = (of_nat n :: u32)" unfolding d .
  let ?g = "\<lparr>hf_bytes = patch 0 (new_header (of_nat n)) img, hf_pos = 512, hf_faults = []\<rparr>"
  have w: "fwrite \<lparr>hf_bytes = img, hf_pos = 0, hf_faults = []\<rparr> (new_header (of_nat n)) = (512, ?g)"
    using len by (simp add: fault_free write_at_inside)
  obtain p where p: "clear_directory ?g [0..<4]
      = (True, ?g\<lparr>hf_bytes := patch 512 (replicate 2048 0) (hf_bytes ?g), hf_pos := p\<rparr>)"
    using clear_directory_clean [of ?g] len by auto
  have seek: "seek_lba ?f 0 = (True, \<lparr>hf_bytes = img, hf_pos = 0, hf_faults = []\<rparr>)"
    by (simp add: seek_lba_clean open_file_def)
  have "formatted img = patch 512 (replicate 2048 0) (patch 0 (new_header (of_nat n)) img)"
    by (simp add: formatted_def len(1))
  then show ?thesis using t
    by (simp add: format_image_def open_update_clean sz m rng u seek w p Let_def close_to_def
        save_stream_def say_def)
qed

section \<open>The command create\<close>

lemma create_raw_image_effect:
  assumes t: "faultless t" "\<not> w_denied (t_world t) path"
    and n: "4608 \<le> unat size'" "unat size' < 2 ^ 62"
  shows "\<exists>t'. create_raw_image path size' t = (True, t')
    \<and> t_world t' = (t_world t)\<lparr>w_files := (file_of t)(path \<mapsto> replicate (sectors (unat size') * 512) 0)\<rparr>"
proof -
  let ?b = "(size' + 512 - 1) div 512 * 512" and ?k = "sectors (unat size') * 512"
  have 1: "unat (size' + 512 - 1) = unat size' + 511"
    using unat_plus_simple [of size' 511] n by (simp add: word_le_nat_alt unat_word_ariths)
  have k: "?k \<le> unat size' + 511" by simp
  then have 2: "unat ?b = ?k" using n by (simp add: unat_word_ariths unat_div 1)
  have k1: "4608 \<le> ?k" using n sectors_room [of "unat size'"] by linarith
  then have 3: "\<not> ?b < ucast (8 + 1 :: u32) * 512" unfolding word_less_nat_alt 2 by simp
  have "1 \<le> ?b" using k1 unfolding word_le_nat_alt 2 by simp
  then have 4: "unat (?b - 1) = ?k - 1" using unat_sub [of 1 ?b] unfolding 2 by simp
  have "uint (?b - 1) = int (?k - 1)" unfolding 4 [symmetric] by (rule uint_nat)
  then have 5: "\<not> uint (?b - 1) > LONG_MAX" using k n by (simp add: LONG_MAX_def)
  obtain j where j: "?k = Suc j" using k1 by (cases ?k) auto
  have "write_at (?k - 1) [0] [] = replicate ?k 0"
    unfolding j by (simp add: write_at_def patch_def min_def del: replicate_Suc)
      (simp add: replicate_append_same)
  then show ?thesis using t 3 5 4
    by (simp add: create_raw_image_def Let_def open_wb_clean open_file_def fault_free close_to_def
        save_stream_def say_def)
qed

end
