(* ===== verification/T32_Numerals.thy ===== *)
theory T32_Numerals
  imports T32_Format T32_Ctype
begin

text \<open>
  Decimal numbers, printed by \<open>printf\<close> and read back by \<open>strtoul\<close> and \<open>strtoull\<close>: the digits of
  \<open>dec_string\<close> as bytes, and what scanning them gives. The size parser of \<open>t32-disk\<close> and the lexer
  of the compiler both rest on these lemmas.
\<close>

lemma dec_digit_byte:
  assumes "d < 10"
  shows "char_bytes [dec_digit d] = [of_nat (48 + d)]" "digit_value (of_nat (48 + d)) = Some d"
    "\<not> isspace (of_nat (48 + d))" "of_nat (48 + d) \<noteq> (0x2D :: u8)" "of_nat (48 + d) \<noteq> (0x2B :: u8)"
    "of_nat (48 + d) = (0x30 :: u8) \<longleftrightarrow> d = 0"
proof -
  have "d \<in> {0, 1, 2, 3, 4, 5, 6, 7, 8, 9}" using assms by auto
  then show "char_bytes [dec_digit d] = [of_nat (48 + d)]" "digit_value (of_nat (48 + d)) = Some d"
    "\<not> isspace (of_nat (48 + d))" "of_nat (48 + d) \<noteq> (0x2D :: u8)" "of_nat (48 + d) \<noteq> (0x2B :: u8)"
    "of_nat (48 + d) = (0x30 :: u8) \<longleftrightarrow> d = 0"
    by (auto simp: char_bytes_def dec_digit_def digit_value_def isdigit_def isspace_def)
qed

lemma char_bytes_append [simp]: "char_bytes (s @ s') = char_bytes s @ char_bytes s'"
  by (simp add: char_bytes_def)

lemma dec_string_nonempty: "dec_string n \<noteq> []"
  by (subst dec_string.simps) simp

lemma dec_string_digits:
  "char_bytes (dec_string n) = (if n < 10 then [of_nat (48 + n)]
     else char_bytes (dec_string (n div 10)) @ [of_nat (48 + n mod 10)])"
proof -
  have d: "dec_digit n = dec_digit (n mod 10)" by (simp add: dec_digit_def)
  have "char_bytes [dec_digit n] = [of_nat (48 + n mod 10)]"
    unfolding d by (rule dec_digit_byte(1)) simp
  then show ?thesis by (subst dec_string.simps) simp
qed

text \<open>Scanning a decimal number.\<close>

lemma scan_digits_append:
  "scan_digits 10 s acc = (v, []) \<Longrightarrow> scan_digits 10 (s @ rest) acc = scan_digits 10 rest v"
  by (induction s arbitrary: acc) (auto split: option.splits if_splits)

lemma scan_dec: "scan_digits 10 (char_bytes (dec_string n)) 0 = (n, [])"
proof (induction n rule: dec_string.induct)
  case (1 n)
  show ?case
  proof (cases "n < 10")
    case True
    then show ?thesis using dec_digit_byte(2) [of n] by (subst dec_string_digits) simp
  next
    case False
    have "n mod 10 < 10" by simp
    note d = dec_digit_byte(2) [OF this]
    show ?thesis using False scan_digits_append [OF "1" [OF False]] d
      by (subst dec_string_digits) simp
  qed
qed

lemma dec_string_first:
  "\<exists>d s. char_bytes (dec_string n) = of_nat (48 + d) # s \<and> d < 10 \<and> (d = 0 \<longrightarrow> n = 0 \<and> s = [])"
proof (induction n rule: dec_string.induct)
  case (1 n)
  show ?case
  proof (cases "n < 10")
    case True
    then show ?thesis by (subst dec_string_digits) auto
  next
    case False
    with "1" [OF False] show ?thesis by (subst dec_string_digits) auto
  qed
qed

lemma strtoull_dec:
  assumes n: "0 < n" and rest: "scan_digits 10 rest n = (n, rest)"
  shows "strtoull (char_bytes (dec_string n) @ rest)
    = (if n \<ge> 2 ^ 64 then (2 ^ 64 - 1, True, rest) else (of_nat n, False, rest))"
proof -
  obtain d s where ds: "char_bytes (dec_string n) = of_nat (48 + d) # s" "d < 10" "d \<noteq> 0"
    using dec_string_first [of n] n by auto
  note b = dec_digit_byte(3-6) [OF ds(2)]
  have "scan_digits 10 (of_nat (48 + d) # s @ rest) 0 = (n, rest)"
    using scan_digits_append [OF scan_dec [of n], of rest] rest by (simp add: ds(1))
  then show ?thesis using b ds(3)
    by (simp add: strtoull_def ds(1) Let_def del: of_nat_add)
qed

end
