(* ===== verification/T32_Disk_Tool.thy ===== *)
theory T32_Disk_Tool
  imports T32_Disk_Media T32_Numerals
begin

text \<open>
  The properties of \<open>t32-disk\<close> with their witnesses: sizes, command lines, scripts, and images as
  stores of named files under any sequence of commands.
\<close>

section \<open>Sizes\<close>







section \<open>Command lines\<close>

text \<open>Arguments in double quotes, separated by single blanks.\<close>

definition quoted :: "bytes list \<Rightarrow> bytes" where
  "quoted args = concat (map (\<lambda>a. 0x22 # a @ [0x22, 0x20]) args)"

text \<open>What ends a line: blanks, then nothing or a comment.\<close>

definition line_end :: "bytes \<Rightarrow> bool" where
  "line_end rest \<longleftrightarrow> (let r = dropWhile isspace rest in r = [] \<or> hd r = 0x23)"

lemma tokenize_end: "line_end rest \<Longrightarrow> tokenize rest argv n = Inr argv"
  by (subst tokenize.simps) (simp add: line_end_def Let_def)

lemma tokenize_space: "isspace c \<Longrightarrow> tokenize (c # rest) argv n = tokenize rest argv n"
  by (subst (1 2) tokenize.simps) simp

lemma quote_not_space: "\<not> isspace 0x22" "isspace 0x20" "isspace 0x0A"
  by (simp_all add: isspace_def)

lemma tokenize_quoted_one:
  assumes "0x22 \<notin> set a"
  shows "tokenize (0x22 # a @ 0x22 # rest) argv n
    = (if n \<le> length argv then Inl [] else tokenize rest (argv @ [a]) n)"
proof -
  have "\<And>c. c \<in> set a \<Longrightarrow> c \<noteq> 0x22" using assms by auto
  then have "takeWhile (\<lambda>c. c \<noteq> 0x22) (a @ 0x22 # rest) = a" "dropWhile (\<lambda>c. c \<noteq> 0x22) (a @ 0x22 # rest) = 0x22 # rest"
    by (simp_all add: takeWhile_append2 dropWhile_append2)
  then show ?thesis using assms
    by (subst tokenize.simps) (simp add: quote_not_space Let_def)
qed

text \<open>A command line of quoted arguments is split into exactly those arguments, blanks
  inside them kept and a comment after them dropped, and a line of more arguments than the limit is
  refused as a whole.\<close>

theorem disk_tokenize:
  "\<forall>a \<in> set args. 0x22 \<notin> set a \<Longrightarrow> line_end rest \<Longrightarrow>
   tokenize (quoted args @ rest) argv max_args
     = (if args = [] \<or> length argv + length args \<le> max_args then Inr (argv @ args) else Inl [])"
proof (induction args arbitrary: argv)
  case Nil
  then show ?case by (simp add: quoted_def tokenize_end)
next
  case (Cons a args)
  have "tokenize (quoted (a # args) @ rest) argv max_args
      = (if max_args \<le> length argv then Inl [] else tokenize (quoted args @ rest) (argv @ [a]) max_args)"
    using tokenize_quoted_one [of a "0x20 # quoted args @ rest" argv max_args] Cons.prems(1)
    by (simp add: quoted_def tokenize_space quote_not_space)
  also have "\<dots> = (if length argv + length (a # args) \<le> max_args then Inr (argv @ a # args) else Inl [])"
    using Cons.IH [of "argv @ [a]"] Cons.prems by auto
  finally show ?case by simp
qed

lemma disk_tokenize_witness:
  "tokenize (quoted [char_bytes ''put'', char_bytes ''my disk''] @ [0x23, 0x0A]) [] 32
    = Inr [char_bytes ''put'', char_bytes ''my disk'']"
  using disk_tokenize [of "[char_bytes ''put'', char_bytes ''my disk'']" "[0x23, 0x0A]" "[]" 32]
  by (simp add: line_end_def isspace_def char_bytes_def)

section \<open>Scripts\<close>






section \<open>An image under any sequence of commands\<close>

text \<open>C33: On a host without faults, creating an image of a size that holds the metadata
  and fits 32-bit sector numbers, and then formatting it, leaves a well-formed image of whole
  sectors with no files, and changes no other file.\<close>

theorem disk_create_format:
  "faultless t \<Longrightarrow> \<not> w_denied (t_world t) path \<Longrightarrow> 4608 \<le> unat n \<Longrightarrow> unat n \<le> (2 ^ 32 - 1) * 512 \<Longrightarrow>
   \<exists>t1 t2 img. create_raw_image path n t = (True, t1) \<and> format_image path t1 = (True, t2)
     \<and> t_world t2 = (t_world t)\<lparr>w_files := (file_of t)(path \<mapsto> img)\<rparr>
     \<and> length img = sectors (unat n) * 512 \<and> image_wf img \<and> contents img = (\<lambda>_. None)"
proof -
  assume t: "faultless t" "\<not> w_denied (t_world t) path" and n: "4608 \<le> unat n" "unat n \<le> (2 ^ 32 - 1) * 512"
  let ?k = "sectors (unat n)" and ?zero = "replicate (sectors (unat n) * 512) 0"
  have k: "8 < ?k" "?k < 2 ^ 32" using n by simp_all
  obtain t1 where t1: "create_raw_image path n t = (True, t1)"
    "t_world t1 = (t_world t)\<lparr>w_files := (file_of t)(path \<mapsto> ?zero)\<rparr>"
    using create_raw_image_effect [OF t n(1)] n(2) by auto
  then have f1: "faultless t1" "file_of t1 path = Some ?zero" "\<not> w_denied (t_world t1) path"
    using t by simp_all
  have len: "length ?zero = ?k * 512" by simp
  obtain t2 where t2: "format_image path t1 = (True, t2)"
    "t_world t2 = (t_world t1)\<lparr>w_files := (file_of t1)(path \<mapsto> formatted ?zero)\<rparr>"
    using format_image_effect [OF f1 len k] by blast
  note f = formatted_facts [OF len k]
  have "t_world t2 = (t_world t)\<lparr>w_files := (file_of t)(path \<mapsto> formatted ?zero)\<rparr>"
    unfolding t2(2) t1(2) by simp
  moreover have "length (formatted ?zero) = ?k * 512" using f(3) by simp
  ultimately show ?thesis using t1(1) t2(1) f(1,2) by blast
qed

lemma disk_create_format_witness:
  "\<exists>t t1 t2 img. create_raw_image [0x64] 1474560 t = (True, t1) \<and> format_image [0x64] t1 = (True, t2)
     \<and> file_of t2 [0x64] = Some img \<and> length img = 1474560 \<and> contents img = (\<lambda>_. None)"
proof -
  let ?t = "\<lparr>t_world = \<lparr>w_files = (\<lambda>_. None), w_denied = (\<lambda>_. False), w_faults = []\<rparr>,
    t_out = [], t_err = [], t_strerror = []\<rparr>"
  obtain t1 t2 img where "create_raw_image [0x64] 1474560 ?t = (True, t1)"
    "format_image [0x64] t1 = (True, t2)" "file_of t2 [0x64] = Some img" "length img = 1474560"
    "contents img = (\<lambda>_. None)"
    using disk_create_format [of ?t "[0x64]" 1474560] by auto
  then show ?thesis by blast
qed

text \<open>C31: On a host without faults and a well-formed image, \<open>put\<close> succeeds exactly when the host
  file, the name, the free entries and the free sectors allow it; then the image is well formed,
  has the same header, holds exactly one more file under the folded name, and no other file changed. In
  every other case it fails with a message and changes no file at all.\<close>

theorem disk_put:
  "faultless t \<Longrightarrow> file_of t ip = Some img \<Longrightarrow> ip \<noteq> hp \<Longrightarrow> image_wf img \<Longrightarrow> info_of img = Some info \<Longrightarrow>
   (\<And>data. file_of t hp = Some data \<Longrightarrow> length data \<le> max_length) \<Longrightarrow>
   if can_put t img info ip hp gname
   then \<exists>img' t' msg. put_file ip hp gname t = (True, t') \<and> t_world t' = (t_world t)\<lparr>w_files := (file_of t)(ip \<mapsto> img')\<rparr>
     \<and> t_out t' = t_out t @ msg @ newline \<and> t_err t' = t_err t
     \<and> image_wf img' \<and> info_of img' = Some info
     \<and> contents img' = (contents img)(uppercase_name 32 gname := file_of t hp)
   else \<exists>msg. put_file ip hp gname t = (False, complain msg t)"
  by (rule put_file_effect)

text \<open>A freshly formatted image of nine sectors, and a file to put into it.\<close>

definition small_image :: bytes where
  "small_image = formatted (replicate 4608 0)"

lemma small_image_facts:
  "image_wf small_image" "contents small_image = (\<lambda>_. None)" "length small_image = 4608"
  using formatted_facts [of "replicate 4608 0" 9] by (simp_all add: small_image_def)

definition disk_sample :: tool where
  "disk_sample = \<lparr>t_world = \<lparr>w_files = [[0x64] \<mapsto> small_image, [0x68] \<mapsto> [1, 2, 3]],
     w_denied = (\<lambda>_. False), w_faults = []\<rparr>, t_out = [], t_err = [], t_strerror = []\<rparr>"

lemma disk_sample_facts:
  "faultless disk_sample" "file_of disk_sample [0x64] = Some small_image"
  "file_of disk_sample [0x68] = Some [1, 2, 3]" "\<not> w_denied (t_world disk_sample) p"
  by (simp_all add: disk_sample_def)

lemma small_image_info:
  obtains info where "info_of small_image = Some info" "unat (total_sectors info) = 9"
    "\<forall>i. \<not> in_use small_image i" "data_end small_image = 8"
proof -
  obtain info where info: "info_of small_image = Some info" "unat (total_sectors info) = 9"
    using small_image_facts by (auto simp: image_wf_def)
  have "\<not> in_use small_image i" for i
  proof
    assume "in_use small_image i"
    then have "matches small_image (dirent_name (dirent_of small_image i)) i" "i < 32"
      by (simp_all add: in_use_def matches_def unused_def)
    then show False using small_image_facts(2) contents_None by (metis)
  qed
  moreover from this have "data_end small_image = 8" by (simp add: data_end_def)
  ultimately show thesis using info that by blast
qed

lemma disk_sample_put:
  assumes "info_of small_image = Some info"
  shows "can_put disk_sample small_image info [0x64] [0x68] (char_bytes ''a.bin'')"
proof -
  obtain i2 where i2: "info_of small_image = Some i2" "unat (total_sectors i2) = 9"
    "\<forall>i. \<not> in_use small_image i" "data_end small_image = 8"
    using small_image_info by blast
  moreover have "valid_guest_name (char_bytes ''a.bin'')"
    by (simp add: valid_guest_name_def char_bytes_def isalnum_def isdigit_def)
  moreover have "\<exists>i < 32. unused small_image i" using i2(3)
    by (intro exI [of _ 0]) (simp add: in_use_def)
  ultimately show ?thesis using assms
    by (simp add: can_put_def disk_sample_facts small_image_facts)
qed

lemma disk_put_witness:
  "\<exists>t' img'. put_file [0x64] [0x68] (char_bytes ''a.bin'') disk_sample = (True, t')
     \<and> file_of t' [0x64] = Some img' \<and> contents img' (char_bytes ''A.BIN'') = Some [1, 2, 3]"
proof -
  obtain info where info: "info_of small_image = Some info" using small_image_info by blast
  have "uppercase_name 32 (char_bytes ''a.bin'') = char_bytes ''A.BIN''"
    by (simp add: uppercase_name_def char_bytes_def toupper_def)
  with disk_put [OF disk_sample_facts(1,2) _ small_image_facts(1) info, of "[0x68]" "char_bytes ''a.bin''"]
    disk_sample_put [OF info] disk_sample_facts(3)
  show ?thesis by (auto simp: fun_upd_def)
qed

text \<open>C32: A file that was put into a well-formed image is copied out by \<open>get\<close>, under any spelling
  of its name that folds to the same upper-case name, with exactly the bytes of the host file.\<close>

theorem disk_put_then_get:
  "faultless t \<Longrightarrow> file_of t ip = Some img \<Longrightarrow> image_wf img \<Longrightarrow> ip \<noteq> hp \<Longrightarrow> ip \<noteq> hp' \<Longrightarrow>
   (\<And>data. file_of t hp = Some data \<Longrightarrow> length data \<le> max_length) \<Longrightarrow> \<not> w_denied (t_world t) hp' \<Longrightarrow>
   uppercase_name 32 gname' = uppercase_name 32 gname \<Longrightarrow> put_file ip hp gname t = (True, t1) \<Longrightarrow>
   \<exists>t2. get_file ip gname' hp' t1 = (True, t2) \<and> file_of t2 hp' = file_of t hp"
proof -
  assume t: "faultless t" "file_of t ip = Some img" "image_wf img" and ne: "ip \<noteq> hp" "ip \<noteq> hp'"
    and small: "\<And>data. file_of t hp = Some data \<Longrightarrow> length data \<le> max_length"
    and ok: "\<not> w_denied (t_world t) hp'" and g: "uppercase_name 32 gname' = uppercase_name 32 gname"
    and run: "put_file ip hp gname t = (True, t1)"
  obtain info where info: "info_of img = Some info" using t(3) by (auto simp: image_wf_def)
  note e = put_file_effect [OF t(1,2) ne(1) t(3) info small, of gname]
  then have can: "can_put t img info ip hp gname" using run by (auto split: if_splits)
  with e run obtain img' where t1: "t_world t1 = (t_world t)\<lparr>w_files := (file_of t)(ip \<mapsto> img')\<rparr>"
    and img': "image_wf img'" "contents img' = (contents img)(uppercase_name 32 gname := file_of t hp)"
    by auto
  obtain data where data: "file_of t hp = Some data" using can by (auto simp: can_put_def)
  have "faultless t1" "file_of t1 ip = Some img'" "\<not> w_denied (t_world t1) hp'" using t(1) ok t1 by simp_all
  from get_file_effect [OF this(1,2) ne(2) img'(1) this(3), of gname'] show ?thesis
    by (auto simp: img'(2) g data)
qed

lemma disk_put_then_get_witness:
  "\<exists>t1 t2. put_file [0x64] [0x68] (char_bytes ''a.bin'') disk_sample = (True, t1)
     \<and> get_file [0x64] (char_bytes ''A.bin'') [0x6F] t1 = (True, t2) \<and> file_of t2 [0x6F] = Some [1, 2, 3]"
proof -
  obtain info where info: "info_of small_image = Some info" using small_image_info by blast
  obtain t1 where t1: "put_file [0x64] [0x68] (char_bytes ''a.bin'') disk_sample = (True, t1)"
    using put_file_effect [OF disk_sample_facts(1,2) _ small_image_facts(1) info, of "[0x68]" "char_bytes ''a.bin''"]
      disk_sample_put [OF info] disk_sample_facts(3) by auto
  have "uppercase_name 32 (char_bytes ''A.bin'') = uppercase_name 32 (char_bytes ''a.bin'')"
    by (simp add: uppercase_name_def char_bytes_def toupper_def)
  from disk_put_then_get [OF disk_sample_facts(1,2) small_image_facts(1) _ _ _ disk_sample_facts(4) this t1, of "[0x6F]"]
  show ?thesis using t1 disk_sample_facts(3) by auto
qed

text \<open>Commands on an image. A host file that is put has to be shorter than the largest size, and
  the image itself is neither put nor written by \<open>get\<close>.\<close>

inductive image_run :: "bytes \<Rightarrow> tool \<Rightarrow> tool \<Rightarrow> bool" for ip where
  start: "image_run ip t t"
| put: "image_run ip t t1 \<Longrightarrow> hp \<noteq> ip \<Longrightarrow>
    (\<forall>data. file_of t1 hp = Some data \<longrightarrow> length data \<le> max_length) \<Longrightarrow>
    image_run ip t (snd (put_file ip hp gname t1))"
| get: "image_run ip t t1 \<Longrightarrow> hp \<noteq> ip \<Longrightarrow> image_run ip t (snd (get_file ip gname hp t1))"
| list: "image_run ip t t1 \<Longrightarrow> image_run ip t (snd (list_image ip t1))"
| info: "image_run ip t t1 \<Longrightarrow> image_run ip t (snd (info_image ip t1))"

lemma get_file_keeps:
  "faultless t \<Longrightarrow> hp \<noteq> ip \<Longrightarrow>
   faultless (snd (get_file ip gname hp t)) \<and> file_of (snd (get_file ip gname hp t)) ip = file_of t ip"
  by (auto simp: get_file_def open_rb_clean open_wb_clean case_prod_beta split: option.split)

lemma fold_say_world: "t_world (fold say ls t) = t_world t"
  by (induction ls arbitrary: t) simp_all

lemma list_info_keep:
  "faultless t \<Longrightarrow> t_world (snd (list_image path t)) = t_world t"
  "faultless t \<Longrightarrow> t_world (snd (info_image path t)) = t_world t"
  by (auto simp: list_image_def info_image_def open_rb_clean case_prod_beta Let_def fold_say_world
      split: option.split)

lemma map_le_upd_None: "m \<subseteq>\<^sub>m m' \<Longrightarrow> m' k = None \<Longrightarrow> m \<subseteq>\<^sub>m m'(k := v)"
  by (auto simp: map_le_def) (metis domI option.distinct(1))

text \<open>C30: Over any sequence of \<open>put\<close>, \<open>get\<close>, \<open>list\<close> and \<open>info\<close> commands on a host without
  faults, successful or not, the image stays well formed, and every file it held is still held under
  its name with the same contents.\<close>

theorem disk_run_keeps:
  "image_run ip t t' \<Longrightarrow> faultless t \<Longrightarrow> file_of t ip = Some img \<Longrightarrow> image_wf img \<Longrightarrow>
   faultless t' \<and> (\<exists>img'. file_of t' ip = Some img' \<and> image_wf img' \<and> contents img \<subseteq>\<^sub>m contents img')"
proof (induction rule: image_run.induct)
  case (start t)
  then show ?case by auto
next
  case (put t t1 hp gname)
  then obtain img1 where i1: "faultless t1" "file_of t1 ip = Some img1" "image_wf img1"
    "contents img \<subseteq>\<^sub>m contents img1" by auto
  obtain info where info: "info_of img1 = Some info" using i1(3) by (auto simp: image_wf_def)
  have small: "length data \<le> max_length" if "file_of t1 hp = Some data" for data
    using put.hyps(3) that by blast
  note e = put_file_effect [OF i1(1,2) put.hyps(2) [symmetric] i1(3) info small, of gname]
  show ?case
  proof (cases "can_put t1 img1 info ip hp gname")
    case False
    from e [unfolded if_not_P [OF this]]
    obtain msg where "put_file ip hp gname t1 = (False, complain msg t1)" by blast
    then show ?thesis using i1 by simp
  next
    case True
    from e [unfolded if_P [OF this]] obtain img2 t2 where
      p: "put_file ip hp gname t1 = (True, t2)" "t_world t2 = (t_world t1)\<lparr>w_files := (file_of t1)(ip \<mapsto> img2)\<rparr>"
      "image_wf img2" "contents img2 = (contents img1)(uppercase_name 32 gname := file_of t1 hp)" by blast
    from True have n: "contents img1 (uppercase_name 32 gname) = None" by (simp add: can_put_def)
    have "contents img \<subseteq>\<^sub>m (contents img1)(uppercase_name 32 gname := file_of t1 hp)"
      by (rule map_le_upd_None [OF i1(4) n])
    with p i1(1) show ?thesis by simp
  qed
next
  case (get t t1 hp gname)
  then show ?case using get_file_keeps [of t1 hp ip gname] by auto
next
  case (list t t1)
  then show ?case using list_info_keep(1) [of t1 ip] by auto
next
  case (info t t1)
  then show ?case using list_info_keep(2) [of t1 ip] by auto
qed

lemma disk_run_keeps_witness:
  "\<exists>t'. image_run [0x64] disk_sample t' \<and> (\<exists>img'. file_of t' [0x64] = Some img' \<and> image_wf img')"
proof -
  have "image_run [0x64] disk_sample (snd (put_file [0x64] [0x68] (char_bytes ''a.bin'') disk_sample))"
    by (rule image_run.put [OF image_run.start]) (simp_all add: disk_sample_facts)
  with disk_run_keeps [OF this disk_sample_facts(1,2) small_image_facts(1)] show ?thesis by blast
qed

section \<open>Weaknesses\<close>

text \<open>The sector count of a file of more than \<open>2 ^ 32 - 512\<close> bytes wraps to zero, so the check for
  free space lets it through.\<close>

lemma disk_sector_count_wraps: "sectors_needed 0xFFFFFE01 = 0" "sectors_needed 0xFFFFFFFF = 0"
  by (simp_all add: sectors_needed_def)

text \<open>When an entry cannot be read the allocator answers sector 0, which holds the header, and
  \<open>put_file\<close> takes it as the place of the new file.\<close>

lemma disk_allocates_header: "next_free_lba \<lparr>hf_bytes = img, hf_pos = p, hf_faults = [Some 0]\<rparr>
    = (0, \<lparr>hf_bytes = img, hf_pos = p, hf_faults = []\<rparr>)"
proof -
  have "[0..<32] = 0 # [1..<32 :: nat]" by (simp add: upt_conv_Cons)
  then show ?thesis
    by (simp add: next_free_lba_def read_dirent_def LONG_MAX_def fseek_set_def next_fault_def Let_def
        del: upt_Suc)
qed

text \<open>A comment of 2047 bytes ends the line that \<open>fgets\<close> returns, and what follows on the same line
  of the script is executed as a command.\<close>

lemma disk_long_comment_runs:
  "length c = 2047 \<Longrightarrow> 0x0A \<notin> set c \<Longrightarrow>
   fgets_all (open_file (c @ rest) []) = c # fgets_all \<lparr>hf_bytes = c @ rest, hf_pos = 2047, hf_faults = []\<rparr>"
proof -
  assume c: "length c = 2047" "0x0A \<notin> set c"
  then have "\<And>b. b \<in> set c \<Longrightarrow> b \<noteq> 0x0A" by auto
  then have "takeWhile (\<lambda>b. b \<noteq> 0x0A) (c @ rest) = c @ takeWhile (\<lambda>b. b \<noteq> 0x0A) rest"
    by (rule takeWhile_append2)
  then have "next_line (c @ rest) = c" using c(1) by (simp add: next_line_def)
  then show ?thesis using c(1)
    by (subst fgets_all.simps) (auto simp: open_file_def next_fault_def Let_def)
qed

text \<open>A negative number is a size.\<close>

lemma disk_negative_size: "parse_size (char_bytes ''-1'') = Some (2 ^ 64 - 1)"
  by (simp add: parse_size_def strtoull_def char_bytes_def isspace_def digit_value_def isdigit_def Let_def)

end
