(* ===== verification/T32_Lexer.thy ===== *)
theory T32_Lexer
  imports T32_Format T32_Host T32_Ctype
begin

text \<open>
  The front of the compiler \<open>toolchain/t32-cc/src/t32-cc.c\<close>: the command line, reading the source
  file, the lexer, and the parser's access to the current token. The source buffer is its bytes
  without the NUL that \<open>read_entire_file\<close> puts after them; a token's \<open>start\<close> is an offset in it,
  \<open>None\<close> for \<open>NULL\<close>. Line and column numbers are taken not to exceed \<open>INT_MAX\<close>.
\<close>

section \<open>Types\<close>

datatype token_kind_t =
    TOK_EOF | TOK_IDENTIFIER | TOK_INTEGER | TOK_STRING | TOK_LPAREN | TOK_RPAREN | TOK_LBRACE
  | TOK_RBRACE | TOK_LBRACKET | TOK_RBRACKET | TOK_SEMICOLON | TOK_COMMA | TOK_DOT | TOK_ARROW
  | TOK_MINUS | TOK_PLUS | TOK_STAR | TOK_AMPERSAND | TOK_SLASH | TOK_PERCENT | TOK_ASSIGN | TOK_EQ
  | TOK_NE | TOK_LT | TOK_LE | TOK_GT | TOK_GE | TOK_INVALID

record token_t =
  tk_kind :: token_kind_t
  tk_start :: "nat option"
  tk_length :: nat
  tk_integer_value :: u32
  tk_line :: nat
  tk_column :: nat

record lexer_t =
  lx_path :: bytes
  lx_source :: bytes
  lx_offset :: nat
  lx_line :: nat
  lx_column :: nat

abbreviation lx_length :: "lexer_t \<Rightarrow> nat" where
  "lx_length l \<equiv> length (lx_source l)"

text \<open>The parser; \<open>ps_err\<close> is what it has printed to the error stream.\<close>

record parser_t =
  ps_lexer :: lexer_t
  ps_current :: token_t
  ps_failed :: bool
  ps_loop_depth :: nat
  ps_err :: string

datatype output_mode_t = MODE_LINK | MODE_ASSEMBLY | MODE_OBJECT

record cc_options_t =
  cc_input_path :: "bytes option"
  cc_output_path :: "bytes option"
  cc_mode :: output_mode_t
  cc_verbose :: bool

section \<open>Command line\<close>

definition cc_print_usage :: "bytes \<Rightarrow> string" where
  "cc_print_usage program_name =
     ''Usage: '' @ chars program_name @ '' [options] <input.c>'' @ newline @ newline
     @ ''T32 C compiler driver - Stage 24'' @ newline @ newline
     @ ''Supported source form:'' @ newline
     @ ''  int main(void) { return <integer>; }'' @ newline
     @ ''  int main(void) { int <name> = <integer>; return <name>; }'' @ newline
     @ ''  int main(void) { int <name> = <integer>; <name> = <expr>; return <expr>; }'' @ newline @ newline
     @ ''Expressions support chained arithmetic, parentheses, and comparisons.'' @ newline
     @ ''Comparison operators are ==, !=, <, <=, >, and >= and produce integer 0 or 1.'' @ newline
     @ ''Stage 24 adds named structs, local struct objects, and member access.'' @ newline @ newline
     @ ''Options:'' @ newline
     @ ''  -S                 Compile to assembly and stop'' @ newline
     @ ''  -c                 Compile to relocatable object and stop'' @ newline
     @ ''  -o FILE            Write output to FILE'' @ newline
     @ ''  -v, --verbose      Show compiler phases and invoked tools'' @ newline
     @ ''      --version      Show version'' @ newline
     @ ''  -h, --help         Show this help'' @ newline"

text \<open>The index of the last occurrence of a byte, \<open>strrchr\<close>.\<close>

definition last_index :: "u8 \<Rightarrow> bytes \<Rightarrow> nat option" where
  "last_index c s = (if c \<in> set s then Some (length s - 1 - length (takeWhile (\<lambda>x. x \<noteq> c) (rev s)))
                     else None)"

text \<open>\<open>None\<close> when the path does not fit in \<open>output_size\<close> bytes.\<close>

definition make_default_output_path :: "bytes \<Rightarrow> bytes \<Rightarrow> nat \<Rightarrow> bytes option" where
  "make_default_output_path input suffix output_size =
     (let slash = last_index 0x2F input; backslash = last_index 0x5C input;
          base = (if slash \<noteq> None \<and> (backslash = None \<or> the slash > the backslash) then the slash + 1
                  else if backslash \<noteq> None then the backslash + 1 else 0);
          dot = (case last_index 0x2E (drop base input) of
                   None \<Rightarrow> length input
                 | Some d \<Rightarrow> if d = 0 then length input else base + d)
      in if dot + length suffix + 1 > output_size then None else Some (take dot input @ suffix))"

text \<open>How \<open>parse_options\<close> ends without options: an \<open>exit\<close> with what was printed, or a return of 0
  with a message.\<close>

datatype cc_stop = Cc_Exit string | Cc_Bad string

definition cc_bad :: "string \<Rightarrow> cc_stop" where
  "cc_bad s = Cc_Bad (''t32-cc: '' @ s @ newline)"

fun cc_parse_args :: "bytes \<Rightarrow> bytes list \<Rightarrow> bool \<Rightarrow> bool \<Rightarrow> cc_options_t
    \<Rightarrow> cc_stop + (bool \<times> bool \<times> cc_options_t)" where
  "cc_parse_args program_name [] saw_S saw_c opt = Inr (saw_S, saw_c, opt)"
| "cc_parse_args program_name (arg # args) saw_S saw_c opt =
     (if arg = char_bytes ''-h'' \<or> arg = char_bytes ''--help''
      then Inl (Cc_Exit (cc_print_usage program_name))
      else if arg = char_bytes ''--version'' then Inl (Cc_Exit (''t32-cc 0.9.0'' @ newline))
      else if arg = char_bytes ''-v'' \<or> arg = char_bytes ''--verbose''
      then cc_parse_args program_name args saw_S saw_c (opt\<lparr>cc_verbose := True\<rparr>)
      else if arg = char_bytes ''-S''
      then cc_parse_args program_name args True saw_c (opt\<lparr>cc_mode := MODE_ASSEMBLY\<rparr>)
      else if arg = char_bytes ''-c''
      then cc_parse_args program_name args saw_S True (opt\<lparr>cc_mode := MODE_OBJECT\<rparr>)
      else if arg = char_bytes ''-o'' \<or> arg = char_bytes ''--output''
      then (case args of
              [] \<Rightarrow> Inl (cc_bad (''missing argument for '' @ chars arg))
            | out # rest \<Rightarrow> cc_parse_args program_name rest saw_S saw_c (opt\<lparr>cc_output_path := Some out\<rparr>))
      else if arg \<noteq> [] \<and> hd arg = 0x2D then Inl (cc_bad (''unknown option: '' @ chars arg))
      else if cc_input_path opt \<noteq> None then Inl (cc_bad ''too many input files'')
      else cc_parse_args program_name args saw_S saw_c (opt\<lparr>cc_input_path := Some arg\<rparr>))"

definition cc_parse_options :: "bytes \<Rightarrow> bytes list \<Rightarrow> nat \<Rightarrow> cc_stop + cc_options_t" where
  "cc_parse_options program_name args default_output_size =
     rbind (cc_parse_args program_name args False False \<lparr>cc_input_path = None, cc_output_path = None,
       cc_mode = MODE_LINK, cc_verbose = False\<rparr>) (\<lambda>(saw_S, saw_c, opt).
     if saw_S \<and> saw_c then Inl (cc_bad ''-S and -c cannot be used together'')
     else case cc_input_path opt of
       None \<Rightarrow> Inl (cc_bad ''an input C file is required'')
     | Some input \<Rightarrow>
       let suffix = (case cc_mode opt of MODE_ASSEMBLY \<Rightarrow> char_bytes ''.s''
                     | MODE_OBJECT \<Rightarrow> char_bytes ''.o'' | MODE_LINK \<Rightarrow> char_bytes ''.bin'') in
       if cc_output_path opt \<noteq> None then Inr opt
       else (case make_default_output_path input suffix default_output_size of
               None \<Rightarrow> Inl (cc_bad ''output path is too long'')
             | Some out \<Rightarrow> Inr (opt\<lparr>cc_output_path := Some out\<rparr>)))"

text \<open>\<open>read_entire_file\<close>: \<open>input\<close> is what \<open>fopen\<close> returned, or the text of \<open>strerror(errno)\<close>.\<close>

definition read_entire_file :: "bytes \<Rightarrow> string + host_file \<Rightarrow> bool \<Rightarrow> string + bytes" where
  "read_entire_file path input malloc_ok =
     (case input of
        Inl err \<Rightarrow> Inl (''t32-cc: cannot open '' @ chars path @ '': '' @ err @ newline)
      | Inr f0 \<Rightarrow>
        (case fseek_end f0 of (ok1, f1) \<Rightarrow>
         if \<not> ok1 then Inl (''t32-cc: cannot seek '' @ chars path @ newline) else
         case ftell f1 of (file_size, f2) \<Rightarrow>
         if file_size < 0 then Inl (''t32-cc: cannot determine size of '' @ chars path @ newline) else
         case fseek_set f2 0 of (ok2, f3) \<Rightarrow>
         if \<not> ok2 then Inl (''t32-cc: cannot rewind '' @ chars path @ newline)
         else if \<not> malloc_ok then Inl (''t32-cc: out of memory reading '' @ chars path @ newline)
         else case fread f3 (nat file_size) of (buffer, f4) \<Rightarrow>
           if length buffer \<noteq> nat file_size then Inl (''t32-cc: error reading '' @ chars path @ newline)
           else Inr buffer))"

section \<open>Characters\<close>

definition lexer_at_end :: "lexer_t \<Rightarrow> bool" where
  "lexer_at_end l \<longleftrightarrow> lx_offset l \<ge> lx_length l"

definition lexer_peek :: "lexer_t \<Rightarrow> u8" where
  "lexer_peek l = (if lexer_at_end l then 0 else lx_source l ! lx_offset l)"

definition lexer_peek_next :: "lexer_t \<Rightarrow> u8" where
  "lexer_peek_next l = (if lx_offset l + 1 \<ge> lx_length l then 0 else lx_source l ! (lx_offset l + 1))"

definition lexer_advance :: "lexer_t \<Rightarrow> u8 \<times> lexer_t" where
  "lexer_advance l =
     (if lexer_at_end l then (0, l)
      else let character = lx_source l ! lx_offset l; l1 = l\<lparr>lx_offset := lx_offset l + 1\<rparr> in
        if character = 0x0A then (character, l1\<lparr>lx_line := lx_line l1 + 1, lx_column := 1\<rparr>)
        else (character, l1\<lparr>lx_column := lx_column l1 + 1\<rparr>))"

text \<open>The statement \<open>lexer_advance(lexer);\<close>.\<close>

abbreviation step_char :: "lexer_t \<Rightarrow> lexer_t" where
  "step_char l \<equiv> snd (lexer_advance l)"

lemma step_char_facts [simp]:
  "lx_source (step_char l) = lx_source l" "lx_path (step_char l) = lx_path l"
  "lx_offset (step_char l) = (if lexer_at_end l then lx_offset l else lx_offset l + 1)"
  by (simp_all add: lexer_advance_def Let_def)

text \<open>The source that is left.\<close>

abbreviation remaining :: "lexer_t \<Rightarrow> nat" where
  "remaining l \<equiv> lx_length l - lx_offset l"

lemma step_char_remaining: "\<not> lexer_at_end l \<Longrightarrow> remaining (step_char l) < remaining l"
  by (simp add: lexer_at_end_def)

text \<open>\<open>while (P(lexer_peek(lexer))) lexer_advance(lexer);\<close> with the test for the end.\<close>

function advance_while :: "(u8 \<Rightarrow> bool) \<Rightarrow> lexer_t \<Rightarrow> lexer_t" where
  "advance_while P l = (if \<not> lexer_at_end l \<and> P (lexer_peek l) then advance_while P (step_char l) else l)"
  by pat_completeness auto
termination
  by (relation "measure (\<lambda>(P, l). remaining l)") (auto simp: lexer_at_end_def)

declare advance_while.simps [simp del]

section \<open>Layout\<close>

text \<open>The loop inside a block comment.\<close>

function skip_block :: "lexer_t \<Rightarrow> lexer_t" where
  "skip_block l =
     (if lexer_at_end l then l
      else if lexer_peek l = 0x2A \<and> lexer_peek_next l = 0x2F then step_char (step_char l)
      else skip_block (step_char l))"
  by pat_completeness auto
termination
  by (relation "measure remaining") (auto simp: lexer_at_end_def)

declare skip_block.simps [simp del]

lemma advance_while_source [simp]:
  "lx_source (advance_while P l) = lx_source l" "lx_path (advance_while P l) = lx_path l"
  by (induction P l rule: advance_while.induct; subst advance_while.simps; simp)+

lemma advance_while_offset: "lx_offset l \<le> lx_offset (advance_while P l)"
proof (induction P l rule: advance_while.induct)
  case (1 P l)
  then show ?case by (cases "lexer_at_end l"; subst advance_while.simps) (auto split: if_splits)
qed

lemma skip_block_source [simp]: "lx_source (skip_block l) = lx_source l" "lx_path (skip_block l) = lx_path l"
  by (induction l rule: skip_block.induct; subst skip_block.simps; simp)+

lemma skip_block_offset: "lx_offset l \<le> lx_offset (skip_block l)"
proof (induction l rule: skip_block.induct)
  case (1 l)
  then show ?case by (subst skip_block.simps) (auto split: if_splits)
qed

text \<open>\<open>lexer_skip_layout\<close> returns whether it succeeded and what it printed.\<close>

function lexer_skip_layout :: "lexer_t \<Rightarrow> bool \<times> lexer_t \<times> string" where
  "lexer_skip_layout l =
     (let current = lexer_peek l; next' = lexer_peek_next l in
      if isspace current then lexer_skip_layout (step_char l)
      else if current = 0x2F \<and> next' = 0x2F then lexer_skip_layout (advance_while (\<lambda>c. c \<noteq> 0x0A) l)
      else if current = 0x2F \<and> next' = 0x2A then
        let l1 = skip_block (step_char (step_char l)) in
        if lexer_at_end l1 \<and> \<not> (lx_offset l1 \<ge> 2 \<and> lx_source l1 ! (lx_offset l1 - 2) = 0x2A
            \<and> lx_source l1 ! (lx_offset l1 - 1) = 0x2F)
        then (False, l1, chars (lx_path l1) @ '':'' @ dec_string (lx_line l) @ '':''
          @ dec_string (lx_column l) @ '': error: unterminated block comment'' @ newline)
        else lexer_skip_layout l1
      else (True, l, []))"
  by pat_completeness auto
termination
proof (relation "measure remaining", goal_cases)
  case (2 l)
  then have "\<not> lexer_at_end l" by (auto simp: lexer_peek_def isspace_def)
  then show ?case using step_char_remaining by simp
next
  case (3 l)
  then have "\<not> lexer_at_end l" by (auto simp: lexer_peek_def)
  moreover from this 3 have "lx_offset (step_char l) \<le> lx_offset (advance_while (\<lambda>c. c \<noteq> 0x0A) l)"
    using advance_while_offset [of "step_char l" "\<lambda>c. c \<noteq> 0x0A"]
    by (subst advance_while.simps) simp
  ultimately show ?case by (simp add: lexer_at_end_def)
next
  case (4 l)
  then have "\<not> lexer_at_end l" by (auto simp: lexer_peek_def)
  moreover have "lx_offset (step_char l) \<le> lx_offset (step_char (step_char l))" by simp
  ultimately show ?case
    using skip_block_offset [of "step_char (step_char l)"] 4 by (simp add: lexer_at_end_def split: if_splits)
qed simp

declare lexer_skip_layout.simps [simp del]

section \<open>Tokens\<close>

definition make_token :: "token_kind_t \<Rightarrow> nat option \<Rightarrow> nat \<Rightarrow> nat \<Rightarrow> nat \<Rightarrow> token_t" where
  "make_token kind start len line column = \<lparr>tk_kind = kind, tk_start = start, tk_length = len,
     tk_integer_value = 0, tk_line = line, tk_column = column\<rparr>"

definition is_word_char :: "u8 \<Rightarrow> bool" where
  "is_word_char c \<longleftrightarrow> isalnum c \<or> c = 0x5F"

definition isxdigit :: "u8 \<Rightarrow> bool" where
  "isxdigit c \<longleftrightarrow> isdigit c \<or> (65 \<le> c \<and> c \<le> 70) \<or> (97 \<le> c \<and> c \<le> 102)"

text \<open>The string loop: the lexer after it, and whether a closing quote was found.\<close>

function skip_string :: "bool \<Rightarrow> lexer_t \<Rightarrow> bool \<times> lexer_t" where
  "skip_string escaped l =
     (if lexer_at_end l then (False, l)
      else case lexer_advance l of (c, l1) \<Rightarrow>
        if \<not> escaped \<and> c = 0x22 then (True, l1)
        else skip_string (\<not> escaped \<and> c = 0x5C) l1)"
  by pat_completeness auto
termination
proof (relation "measure (\<lambda>(e, l). remaining l)", goal_cases)
  case (2 escaped l c l1)
  then have "l1 = step_char l" by (metis snd_conv)
  with 2 show ?case using step_char_remaining by simp
qed simp

declare skip_string.simps [simp del]

text \<open>The token for a number: \<open>l\<close> is the lexer after its first digit \<open>character\<close>.\<close>

definition lex_number :: "u8 \<Rightarrow> nat \<Rightarrow> nat \<Rightarrow> nat \<Rightarrow> lexer_t \<Rightarrow> token_t \<times> lexer_t" where
  "lex_number character start_offset start_line start_column l =
     (let l1 = (if character = 0x30 \<and> (lexer_peek l = 0x78 \<or> lexer_peek l = 0x58)
                then advance_while isxdigit (step_char l) else advance_while isdigit l);
          len = lx_offset l1 - start_offset;
          token = make_token TOK_INTEGER (Some start_offset) len start_line start_column in
      if len \<ge> 64 then (token\<lparr>tk_kind := TOK_INVALID\<rparr>, l1)
      else case strtoull (slice start_offset len (lx_source l)) of (value, erange, rest) \<Rightarrow>
        if erange \<or> rest \<noteq> [] \<or> value > 0xffffffff then (token\<lparr>tk_kind := TOK_INVALID\<rparr>, l1)
        else (token\<lparr>tk_integer_value := ucast value\<rparr>, l1))"

text \<open>The operators of two characters: \<open>second\<close> after the first makes \<open>two\<close>, else it is \<open>one\<close>.\<close>

definition lex_pair :: "u8 \<Rightarrow> token_kind_t \<Rightarrow> token_kind_t \<Rightarrow> nat \<Rightarrow> nat \<Rightarrow> nat \<Rightarrow> lexer_t \<Rightarrow> token_t \<times> lexer_t" where
  "lex_pair second two one start_offset start_line start_column l =
     (if lexer_peek l = second
      then (make_token two (Some start_offset) 2 start_line start_column, step_char l)
      else (make_token one (Some start_offset) 1 start_line start_column, l))"

definition single_token :: "u8 \<Rightarrow> token_kind_t option" where
  "single_token c =
     (if c = 0x28 then Some TOK_LPAREN else if c = 0x29 then Some TOK_RPAREN
      else if c = 0x7B then Some TOK_LBRACE else if c = 0x7D then Some TOK_RBRACE
      else if c = 0x5B then Some TOK_LBRACKET else if c = 0x5D then Some TOK_RBRACKET
      else if c = 0x3B then Some TOK_SEMICOLON else if c = 0x2C then Some TOK_COMMA
      else if c = 0x2E then Some TOK_DOT else if c = 0x2B then Some TOK_PLUS
      else if c = 0x2A then Some TOK_STAR else if c = 0x26 then Some TOK_AMPERSAND
      else if c = 0x2F then Some TOK_SLASH else if c = 0x25 then Some TOK_PERCENT
      else None)"

text \<open>\<open>lexer_next_token\<close> after the layout: the token at the current character. The lexer is not at
  the end.\<close>

definition lex_token :: "lexer_t \<Rightarrow> token_t \<times> lexer_t" where
  "lex_token l =
     (let start_offset = lx_offset l; start_line = lx_line l; start_column = lx_column l in
      case lexer_advance l of (character, l1) \<Rightarrow>
      if isalpha character \<or> character = 0x5F then
        let l2 = advance_while is_word_char l1 in
        (make_token TOK_IDENTIFIER (Some start_offset) (lx_offset l2 - start_offset) start_line start_column, l2)
      else if isdigit character then lex_number character start_offset start_line start_column l1
      else if character = 0x22 then
        case skip_string False l1 of (closed, l2) \<Rightarrow>
          if closed then (make_token TOK_STRING (Some (start_offset + 1))
            (lx_offset l2 - start_offset - 2) start_line start_column, l2)
          else (make_token TOK_INVALID (Some start_offset) (lx_offset l2 - start_offset)
            start_line start_column, l2)
      else case single_token character of
        Some kind \<Rightarrow> (make_token kind (Some start_offset) 1 start_line start_column, l1)
      | None \<Rightarrow>
        if character = 0x2D then lex_pair 0x3E TOK_ARROW TOK_MINUS start_offset start_line start_column l1
        else if character = 0x3D then lex_pair 0x3D TOK_EQ TOK_ASSIGN start_offset start_line start_column l1
        else if character = 0x21 then lex_pair 0x3D TOK_NE TOK_INVALID start_offset start_line start_column l1
        else if character = 0x3C then lex_pair 0x3D TOK_LE TOK_LT start_offset start_line start_column l1
        else if character = 0x3E then lex_pair 0x3D TOK_GE TOK_GT start_offset start_line start_column l1
        else (make_token TOK_INVALID (Some start_offset) 1 start_line start_column, l1))"

text \<open>The token, the lexer after it, and what was printed.\<close>

definition lexer_next_token :: "lexer_t \<Rightarrow> token_t \<times> lexer_t \<times> string" where
  "lexer_next_token l =
     (case lexer_skip_layout l of (ok, l1, msg) \<Rightarrow>
      if \<not> ok then (make_token TOK_INVALID None 0 (lx_line l1) (lx_column l1), l1, msg)
      else if lexer_at_end l1
      then (make_token TOK_EOF (Some (lx_offset l1)) 0 (lx_line l1) (lx_column l1), l1, msg)
      else case lex_token l1 of (token, l2) \<Rightarrow> (token, l2, msg))"

fun token_kind_name :: "token_kind_t \<Rightarrow> string" where
  "token_kind_name TOK_EOF = ''end of file''"
| "token_kind_name TOK_IDENTIFIER = ''identifier''"
| "token_kind_name TOK_INTEGER = ''integer literal''"
| "token_kind_name TOK_STRING = ''string literal''"
| "token_kind_name TOK_LPAREN = [CHR 0x27] @ ''('' @ [CHR 0x27]"
| "token_kind_name TOK_RPAREN = [CHR 0x27] @ '')'' @ [CHR 0x27]"
| "token_kind_name TOK_LBRACE = [CHR 0x27] @ ''{'' @ [CHR 0x27]"
| "token_kind_name TOK_RBRACE = [CHR 0x27] @ ''}'' @ [CHR 0x27]"
| "token_kind_name TOK_SEMICOLON = [CHR 0x27] @ '';'' @ [CHR 0x27]"
| "token_kind_name TOK_DOT = [CHR 0x27] @ ''.'' @ [CHR 0x27]"
| "token_kind_name TOK_ARROW = [CHR 0x27] @ ''->'' @ [CHR 0x27]"
| "token_kind_name TOK_MINUS = [CHR 0x27] @ ''-'' @ [CHR 0x27]"
| "token_kind_name TOK_PLUS = [CHR 0x27] @ ''+'' @ [CHR 0x27]"
| "token_kind_name TOK_STAR = [CHR 0x27] @ ''*'' @ [CHR 0x27]"
| "token_kind_name TOK_AMPERSAND = [CHR 0x27] @ ''&'' @ [CHR 0x27]"
| "token_kind_name TOK_SLASH = [CHR 0x27] @ ''/'' @ [CHR 0x27]"
| "token_kind_name TOK_PERCENT = [CHR 0x27] @ ''%'' @ [CHR 0x27]"
| "token_kind_name TOK_ASSIGN = [CHR 0x27] @ ''='' @ [CHR 0x27]"
| "token_kind_name TOK_EQ = [CHR 0x27] @ ''=='' @ [CHR 0x27]"
| "token_kind_name TOK_NE = [CHR 0x27] @ ''!='' @ [CHR 0x27]"
| "token_kind_name TOK_LT = [CHR 0x27] @ ''<'' @ [CHR 0x27]"
| "token_kind_name TOK_LE = [CHR 0x27] @ ''<='' @ [CHR 0x27]"
| "token_kind_name TOK_GT = [CHR 0x27] @ ''>'' @ [CHR 0x27]"
| "token_kind_name TOK_GE = [CHR 0x27] @ ''>='' @ [CHR 0x27]"
| "token_kind_name _ = ''invalid token''"

section \<open>The parser's window on the tokens\<close>

text \<open>The characters of a token.\<close>

definition token_text :: "bytes \<Rightarrow> token_t \<Rightarrow> bytes" where
  "token_text source token = (case tk_start token of None \<Rightarrow> [] | Some p \<Rightarrow> slice p (tk_length token) source)"

definition token_is_identifier :: "bytes \<Rightarrow> token_t \<Rightarrow> bytes \<Rightarrow> bool" where
  "token_is_identifier source token text' \<longleftrightarrow>
     tk_kind token = TOK_IDENTIFIER \<and> tk_length token = length text' \<and> token_text source token = text'"

text \<open>\<open>%.*s\<close> stops at a NUL.\<close>

definition parser_error :: "parser_t \<Rightarrow> string \<Rightarrow> parser_t" where
  "parser_error p message =
     (let token = ps_current p; l = ps_lexer p in
      if ps_failed p then p
      else p\<lparr>ps_failed := True, ps_err := ps_err p @ chars (lx_path l) @ '':'' @ dec_string (tk_line token)
        @ '':'' @ dec_string (tk_column token) @ '': error: '' @ message
        @ (if tk_kind token = TOK_EOF then '' at end of file'' @ newline
           else if tk_start token \<noteq> None \<and> tk_length token > 0
           then '' near '' @ [CHR 0x27] @ chars (takeWhile (\<lambda>c. c \<noteq> 0) (token_text (lx_source l) token))
             @ [CHR 0x27] @ newline
           else newline)\<rparr>)"

definition parser_advance :: "parser_t \<Rightarrow> parser_t" where
  "parser_advance p =
     (if ps_failed p then p
      else case lexer_next_token (ps_lexer p) of (token, l, msg) \<Rightarrow>
        let p1 = p\<lparr>ps_lexer := l, ps_current := token, ps_err := ps_err p @ msg\<rparr> in
        if tk_kind token = TOK_INVALID then parser_error p1 ''invalid token'' else p1)"

definition parser_expect_kind :: "parser_t \<Rightarrow> token_kind_t \<Rightarrow> string \<Rightarrow> bool \<times> parser_t" where
  "parser_expect_kind p kind description =
     (if tk_kind (ps_current p) \<noteq> kind
      then (False, parser_error p (snprintf 160 (''expected '' @ description @ '', found ''
        @ token_kind_name (tk_kind (ps_current p)))))
      else let p1 = parser_advance p in (\<not> ps_failed p1, p1))"

definition parser_expect_word :: "parser_t \<Rightarrow> bytes \<Rightarrow> bool \<times> parser_t" where
  "parser_expect_word p word =
     (if \<not> token_is_identifier (lx_source (ps_lexer p)) (ps_current p) word
      then (False, parser_error p (snprintf 160 (''expected '' @ [CHR 0x27] @ chars word @ [CHR 0x27])))
      else let p1 = parser_advance p in (\<not> ps_failed p1, p1))"

end
