(* ===== verification/T32_Lexer_Laws.thy ===== *)
theory T32_Lexer_Laws
  imports T32_Lexer T32_Numerals
begin

text \<open>
  The laws of the lexer. Every function of it only moves the lexer forward by single
  \<open>lexer_advance\<close> calls, so whatever one such call keeps, all of them keep: that is the locale
  \<open>lexer_invariant\<close>, used for the span of the tokens and for their line and column. What the
  functions read is described on \<open>ahead\<close>, the source from the current offset on.
\<close>

section \<open>Invariants of the scanning functions\<close>

locale lexer_invariant =
  fixes Inv :: "lexer_t \<Rightarrow> bool"
  assumes step: "Inv l \<Longrightarrow> Inv (step_char l)"
begin

lemma advance_while: "Inv l \<Longrightarrow> Inv (advance_while Q l)"
proof (induction Q l rule: advance_while.induct)
  case (1 Q l)
  then show ?case by (subst advance_while.simps) (simp add: step)
qed

lemma skip_block: "Inv l \<Longrightarrow> Inv (skip_block l)"
proof (induction l rule: skip_block.induct)
  case (1 l)
  then show ?case by (subst skip_block.simps) (simp add: step)
qed

lemma skip_layout: "Inv l \<Longrightarrow> Inv (fst (snd (lexer_skip_layout l)))"
proof (induction l rule: lexer_skip_layout.induct)
  case (1 l)
  then show ?case
    by (subst lexer_skip_layout.simps) (simp add: step advance_while skip_block Let_def)
qed

lemma skip_string: "Inv l \<Longrightarrow> Inv (snd (skip_string e l))"
proof (induction e l rule: skip_string.induct)
  case (1 e l)
  have "Inv (step_char l)" using 1(2) by (rule step)
  with 1 show ?case by (subst skip_string.simps) (auto split: prod.split)
qed

lemma number: "Inv l \<Longrightarrow> Inv (snd (lex_number c p n k l))"
  by (simp add: lex_number_def Let_def case_prod_beta step advance_while)

lemma pair: "Inv l \<Longrightarrow> Inv (snd (lex_pair c two one p n k l))"
  by (simp add: lex_pair_def step)

lemma token: "Inv l \<Longrightarrow> Inv (snd (lex_token l))"
  using step [of l]
  by (simp add: lex_token_def Let_def case_prod_beta advance_while number pair skip_string
      split: option.split)

lemma next_token: "Inv l \<Longrightarrow> Inv (fst (snd (lexer_next_token l)))"
  using skip_layout [of l] by (simp add: lexer_next_token_def case_prod_beta token)

end

text \<open>The lexer stays in its source and never goes back.\<close>

definition within :: "bytes \<Rightarrow> nat \<Rightarrow> lexer_t \<Rightarrow> bool" where
  "within source from l \<longleftrightarrow> lx_source l = source \<and> from \<le> lx_offset l \<and> lx_offset l \<le> length source"

interpretation lexer_within: lexer_invariant "within source from" for source "from"
  by unfold_locales (auto simp: within_def lexer_at_end_def)

text \<open>The line and column of an offset: newlines before it, and characters since the last one.\<close>

definition line_of :: "bytes \<Rightarrow> nat \<Rightarrow> nat" where
  "line_of source n = 1 + count_list (take n source) 0x0A"

definition column_of :: "bytes \<Rightarrow> nat \<Rightarrow> nat" where
  "column_of source n = 1 + length (takeWhile (\<lambda>c. c \<noteq> 0x0A) (rev (take n source)))"

definition positioned :: "lexer_t \<Rightarrow> bool" where
  "positioned l \<longleftrightarrow> lx_line l = line_of (lx_source l) (lx_offset l)
     \<and> lx_column l = column_of (lx_source l) (lx_offset l)"

lemma positioned_step: "positioned l \<Longrightarrow> positioned (step_char l)"
  by (simp add: positioned_def line_of_def column_of_def lexer_advance_def lexer_at_end_def Let_def
      take_Suc_conv_app_nth)

interpretation lexer_position: lexer_invariant positioned
  by unfold_locales (rule positioned_step)

lemma start_positioned: "positioned \<lparr>lx_path = path, lx_source = source, lx_offset = 0, lx_line = 1, lx_column = 1\<rparr>"
  by (simp add: positioned_def line_of_def column_of_def)

section \<open>What is read\<close>

definition ahead :: "lexer_t \<Rightarrow> bytes" where
  "ahead l = drop (lx_offset l) (lx_source l)"

lemma at_end_ahead: "lexer_at_end l \<longleftrightarrow> ahead l = []"
  by (simp add: lexer_at_end_def ahead_def)

lemma ahead_step [simp]: "ahead (step_char l) = tl (ahead l)"
  by (auto simp: ahead_def lexer_at_end_def drop_Suc tl_drop)

lemma peek_next_ahead: "lexer_peek_next l = (case tl (ahead l) of [] \<Rightarrow> 0 | c # _ \<Rightarrow> c)"
proof -
  have "tl (ahead l) = drop (lx_offset l + 1) (lx_source l)" by (simp add: ahead_def drop_Suc tl_drop)
  then show ?thesis by (auto simp: lexer_peek_next_def split: list.split dest: nth_via_drop)
qed

lemma peek_ahead: "lexer_peek l = (case ahead l of [] \<Rightarrow> 0 | c # _ \<Rightarrow> c)"
  by (auto simp: lexer_peek_def lexer_at_end_def ahead_def split: list.split dest: nth_via_drop)

lemma ahead_Cons:
  assumes "ahead l = c # s"
  shows "\<not> lexer_at_end l" "lexer_peek l = c" "fst (lexer_advance l) = c" "lx_offset l < lx_length l"
proof -
  show e: "\<not> lexer_at_end l" using assms by (simp add: at_end_ahead)
  then show "lx_offset l < lx_length l" by (simp add: lexer_at_end_def)
  show p: "lexer_peek l = c" by (simp add: peek_ahead assms)
  then show "fst (lexer_advance l) = c"
    using e by (simp add: lexer_peek_def lexer_advance_def Let_def)
qed

lemma length_ahead: "length (ahead l) = lx_length l - lx_offset l"
  by (simp add: ahead_def)

lemma advance_while_ahead [simp]: "ahead (advance_while Q l) = dropWhile Q (ahead l)"
proof (induction Q l rule: advance_while.induct)
  case (1 Q l)
  then show ?case
    by (cases "ahead l"; subst advance_while.simps) (auto simp: at_end_ahead ahead_Cons)
qed

lemma advance_while_length:
  "lx_offset l \<le> lx_length l \<Longrightarrow> lx_offset (advance_while Q l) = lx_offset l + length (takeWhile Q (ahead l))"
proof -
  assume l: "lx_offset l \<le> lx_length l"
  have "within (lx_source l) 0 (advance_while Q l)"
    by (rule lexer_within.advance_while) (simp add: within_def l)
  then have "lx_offset (advance_while Q l) \<le> lx_length l" by (simp add: within_def)
  moreover have "lx_length l - lx_offset (advance_while Q l) = length (dropWhile Q (ahead l))"
    using length_ahead [of "advance_while Q l"] by simp
  moreover have "length (takeWhile Q (ahead l)) + length (dropWhile Q (ahead l)) = lx_length l - lx_offset l"
    by (metis length_append length_ahead takeWhile_dropWhile_id)
  ultimately show ?thesis using l by linarith
qed

section \<open>Lexemes\<close>

text \<open>The inside of a string literal: no quote that is not escaped, and no escape left open. The
  flag says that the character before was a backslash.\<close>

fun string_body :: "bool \<Rightarrow> bytes \<Rightarrow> bool" where
  "string_body escaped [] \<longleftrightarrow> \<not> escaped"
| "string_body escaped (c # w) \<longleftrightarrow> (escaped \<or> c \<noteq> 0x22) \<and> string_body (\<not> escaped \<and> c = 0x5C) w"

definition punctuators :: "(bytes \<times> token_kind_t) list" where
  "punctuators = [
     ([0x28], TOK_LPAREN), ([0x29], TOK_RPAREN), ([0x7B], TOK_LBRACE), ([0x7D], TOK_RBRACE),
     ([0x5B], TOK_LBRACKET), ([0x5D], TOK_RBRACKET), ([0x3B], TOK_SEMICOLON), ([0x2C], TOK_COMMA),
     ([0x2E], TOK_DOT), ([0x2D, 0x3E], TOK_ARROW), ([0x2D], TOK_MINUS), ([0x2B], TOK_PLUS),
     ([0x2A], TOK_STAR), ([0x26], TOK_AMPERSAND), ([0x2F], TOK_SLASH), ([0x25], TOK_PERCENT),
     ([0x3D], TOK_ASSIGN), ([0x3D, 0x3D], TOK_EQ), ([0x21, 0x3D], TOK_NE), ([0x3C], TOK_LT),
     ([0x3C, 0x3D], TOK_LE), ([0x3E], TOK_GT), ([0x3E, 0x3D], TOK_GE)]"

definition word_start :: "u8 \<Rightarrow> bool" where
  "word_start c \<longleftrightarrow> isalpha c \<or> c = 0x5F"

text \<open>The lexical grammar: the words of each kind of token.\<close>

definition hex_tail :: "bytes \<Rightarrow> bool" where
  "hex_tail u \<longleftrightarrow> 2 \<le> length u \<and> (hd u = 0x78 \<or> hd u = 0x58) \<and> list_all isxdigit (tl u)"

definition lexeme :: "token_kind_t \<Rightarrow> bytes \<Rightarrow> bool" where
  "lexeme kind w \<longleftrightarrow> w \<noteq> [] \<and>
     (if word_start (hd w) then kind = TOK_IDENTIFIER \<and> list_all is_word_char w
      else if isdigit (hd w) then kind = TOK_INTEGER \<and> (list_all isdigit w \<or> (hd w = 0x30 \<and> hex_tail (tl w)))
      else if hd w = 0x22 then kind = TOK_STRING \<and> (\<exists>b. w = 0x22 # b @ [0x22] \<and> string_body False b)
      else map_of punctuators w = Some kind)"

text \<open>\<open>w\<close> is the longest lexeme that \<open>w @ rest\<close> starts with.\<close>

definition longest :: "bytes \<Rightarrow> bytes \<Rightarrow> bool" where
  "longest w rest \<longleftrightarrow> (\<forall>kind v u. rest = v @ u \<and> v \<noteq> [] \<longrightarrow> \<not> lexeme kind (w @ v))"

lemma punctuators_one:
  "map_of punctuators [c] = (case single_token c of Some k \<Rightarrow> Some k
     | None \<Rightarrow> if c = 0x2D then Some TOK_MINUS else if c = 0x3D then Some TOK_ASSIGN
       else if c = 0x3C then Some TOK_LT else if c = 0x3E then Some TOK_GT else None)"
  by (simp add: punctuators_def single_token_def)

lemma punctuators_more:
  "map_of punctuators (c # d # u) = (if u \<noteq> [] then None
     else if c = 0x2D \<and> d = 0x3E then Some TOK_ARROW else if d \<noteq> 0x3D then None
     else if c = 0x3D then Some TOK_EQ else if c = 0x21 then Some TOK_NE
     else if c = 0x3C then Some TOK_LE else if c = 0x3E then Some TOK_GE else None)"
  by (simp add: punctuators_def)

lemma lexeme_word: "word_start c \<Longrightarrow> lexeme k (c # u) \<longleftrightarrow> k = TOK_IDENTIFIER \<and> list_all is_word_char u"
  by (auto simp: lexeme_def word_start_def is_word_char_def isalnum_alt)

lemma digit_not_word: "isdigit c \<Longrightarrow> \<not> word_start c \<and> c \<noteq> 0x22"
  by (auto simp: word_start_def isdigit_def isalpha_def word_le_nat_alt)

lemma lexeme_digit: "isdigit c \<Longrightarrow>
   lexeme k (c # u) \<longleftrightarrow> k = TOK_INTEGER \<and> (list_all isdigit u \<or> (c = 0x30 \<and> hex_tail u))"
  by (simp add: lexeme_def digit_not_word)

lemma lexeme_quote: "lexeme k (0x22 # u) \<longleftrightarrow> k = TOK_STRING \<and> (\<exists>b. u = b @ [0x22] \<and> string_body False b)"
  by (simp add: lexeme_def word_start_def isalpha_def isdigit_def)

lemma lexeme_punctuator:
  "\<not> word_start c \<Longrightarrow> \<not> isdigit c \<Longrightarrow> c \<noteq> 0x22 \<Longrightarrow> lexeme k (c # u) \<longleftrightarrow> map_of punctuators (c # u) = Some k"
  by (simp add: lexeme_def)

section \<open>The token at the current character\<close>

lemma skip_string_Nil: "ahead l = [] \<Longrightarrow> skip_string e l = (False, l)"
  by (subst skip_string.simps) (simp add: at_end_ahead)

lemma skip_string_Cons:
  assumes "ahead l = c # s"
  shows "skip_string e l = (if \<not> e \<and> c = 0x22 then (True, step_char l)
    else skip_string (\<not> e \<and> c = 0x5C) (step_char l))"
  using ahead_Cons(1,3) [OF assms] by (subst skip_string.simps) (simp add: case_prod_beta)

lemma skip_string_ahead:
  "ahead l = s \<Longrightarrow> skip_string e l = (True, l') \<Longrightarrow> lx_offset l \<le> lx_length l \<Longrightarrow>
   \<exists>b. s = b @ 0x22 # ahead l' \<and> string_body e b \<and> lx_offset l' = lx_offset l + length b + 1"
proof (induction s arbitrary: e l)
  case Nil
  then show ?case by (simp add: skip_string_Nil)
next
  case (Cons c s)
  note f = ahead_Cons [OF Cons.prems(1)] and run = Cons.prems(2) [unfolded skip_string_Cons [OF Cons.prems(1)]]
  have s: "ahead (step_char l) = s" "lx_offset (step_char l) \<le> lx_length (step_char l)"
    "lx_offset (step_char l) = lx_offset l + 1"
    using f(1,4) Cons.prems(1) by auto
  show ?case
  proof (cases "\<not> e \<and> c = 0x22")
    case True
    with run s show ?thesis by (intro exI [of _ "[]"]) auto
  next
    case False
    with run have "skip_string (\<not> e \<and> c = 0x5C) (step_char l) = (True, l')" by (simp only: if_False)
    from Cons.IH [OF s(1) this s(2)] obtain b where "s = b @ 0x22 # ahead l'"
      "string_body (\<not> e \<and> c = 0x5C) b" "lx_offset l' = lx_offset l + 1 + length b + 1"
      unfolding s(3) by blast
    with False show ?thesis by (intro exI [of _ "c # b"]) auto
  qed
qed

text \<open>A string body ends at its first unescaped quote.\<close>

lemma string_body_unique: "string_body e b \<Longrightarrow> b @ 0x22 # u = b' @ [0x22] \<Longrightarrow> string_body e b' \<Longrightarrow> u = []"
proof (induction b arbitrary: e b')
  case Nil
  then show ?case by (cases b') auto
next
  case (Cons c b)
  then show ?case by (cases b') auto
qed

section \<open>Numbers\<close>

text \<open>The characters of the number that starts with \<open>c\<close>, and what \<open>strtoul\<close> makes of them.\<close>

definition number_word :: "u8 \<Rightarrow> bytes \<Rightarrow> bytes" where
  "number_word c s =
     (if c = 0x30 \<and> s \<noteq> [] \<and> (hd s = 0x78 \<or> hd s = 0x58) then c # hd s # takeWhile isxdigit (tl s)
      else c # takeWhile isdigit s)"

definition number_value :: "bytes \<Rightarrow> u32 option" where
  "number_value w =
     (if length w \<ge> 64 then None
      else case strtoull w of (value, erange, rest) \<Rightarrow>
        if erange \<or> rest \<noteq> [] \<or> value > 0xffffffff then None else Some (ucast value))"

lemma lex_number_eq:
  assumes a: "ahead l = c # s" and d: "isdigit c" and o: "lx_offset l \<le> lx_length l"
  defines "w \<equiv> number_word c s"
  shows "\<exists>l'. lex_number c (lx_offset l) line column (step_char l) =
      ((make_token (if number_value w = None then TOK_INVALID else TOK_INTEGER) (Some (lx_offset l))
          (length w) line column)\<lparr>tk_integer_value := (case number_value w of None \<Rightarrow> 0 | Some v \<Rightarrow> v)\<rparr>, l')
    \<and> ahead l = w @ ahead l' \<and> lx_offset l' = lx_offset l + length w \<and> lx_source l' = lx_source l"
proof -
  define l1 where "l1 = (if c = 0x30 \<and> (lexer_peek (step_char l) = 0x78 \<or> lexer_peek (step_char l) = 0x58)
    then advance_while isxdigit (step_char (step_char l)) else advance_while isdigit (step_char l))"
  note f = ahead_Cons [OF a]
  have s: "ahead (step_char l) = s" "lx_offset (step_char l) = lx_offset l + 1" using a f by auto
  have p: "lexer_peek (step_char l) = (case s of [] \<Rightarrow> 0 | x # _ \<Rightarrow> x)" by (simp add: peek_ahead a)
  have len: "lx_length l - lx_offset l = length s + 1" using length_ahead [of l] a by simp
  have l1: "ahead l = w @ ahead l1 \<and> lx_offset l1 = lx_offset l + length w \<and> lx_source l1 = lx_source l"
  proof (cases s)
    case Nil
    then show ?thesis using a s p f
      by (simp add: l1_def w_def number_word_def advance_while_length len)
  next
    case (Cons x u)
    have x: "lx_offset (step_char (step_char l)) = lx_offset l + 2"
      "lx_offset l + 2 \<le> lx_length l" using s Cons len by (auto simp: at_end_ahead)
    show ?thesis using a s p Cons x len
      by (auto simp: l1_def w_def number_word_def advance_while_length simp del: step_char_facts(3))
  qed
  then have w: "slice (lx_offset l) (length w) (lx_source l) = w" by (simp add: slice_def ahead_def)
  have "lex_number c (lx_offset l) line column (step_char l) =
      ((make_token (if number_value w = None then TOK_INVALID else TOK_INTEGER) (Some (lx_offset l))
          (length w) line column)\<lparr>tk_integer_value := (case number_value w of None \<Rightarrow> 0 | Some v \<Rightarrow> v)\<rparr>, l1)"
    using l1 w unfolding lex_number_def Let_def l1_def [symmetric] number_value_def
    by (simp add: make_token_def split: prod.split)
  with l1 show ?thesis by blast
qed

text \<open>No longer lexeme starts where a number was read, unless what was read is only \<open>0x\<close>.\<close>

lemma x_not_digit: "x = 0x78 \<or> x = 0x58 \<Longrightarrow> \<not> isdigit x \<and> toupper x = 0x58"
  by (elim disjE) (simp_all add: isdigit_def toupper_def)

lemma strtoull_zero_x: "x = 0x78 \<or> x = 0x58 \<Longrightarrow> strtoull [0x30, x] = (0, False, [x])"
proof -
  assume "x = 0x78 \<or> x = 0x58"
  note x = x_not_digit [OF this]
  have "scan_digits 8 [0x30, x] 0 = (0, [x])"
    using x by (simp add: digit_value_def isdigit_def)
  moreover have "\<not> isspace 0x30" by (simp add: isspace_def)
  ultimately show ?thesis by (simp add: strtoull_def Let_def del: scan_digits.simps)
qed

lemma scan_zero_x: "x = 0x78 \<or> x = 0x58 \<Longrightarrow> number_value [0x30, x] = None"
  by (simp only: number_value_def strtoull_zero_x) simp

lemma takeWhile_longer:
  assumes "v @ u = dropWhile Q s" "v \<noteq> []"
  shows "\<not> list_all Q v"
proof -
  obtain z zs where v: "v = z # zs" using assms(2) by (cases v) simp
  have "hd (dropWhile Q s) = z" "dropWhile Q s \<noteq> []" unfolding assms(1) [symmetric] v by simp_all
  then have "\<not> Q z" using hd_dropWhile [of Q s] by simp
  then show ?thesis by (simp add: v)
qed

lemma isdigit_isxdigit: "isdigit c \<Longrightarrow> isxdigit c"
  by (simp add: isxdigit_def)

lemma number_word_lexeme:
  assumes d: "isdigit c" and a: "c # s = number_word c s @ rest" and v: "number_value (number_word c s) \<noteq> None"
  shows "lexeme TOK_INTEGER (number_word c s)" "longest (number_word c s) rest"
proof -
  show "lexeme TOK_INTEGER (number_word c s)"
  proof (cases "c = 0x30 \<and> s \<noteq> [] \<and> (hd s = 0x78 \<or> hd s = 0x58)")
    case True
    have "takeWhile isxdigit (tl s) \<noteq> []"
      using v True scan_zero_x [of "hd s"] by (auto simp: number_word_def)
    moreover have w: "number_word c s = c # hd s # takeWhile isxdigit (tl s)"
      using True by (auto simp: number_word_def)
    ultimately show ?thesis unfolding w lexeme_digit [OF d] using True
      by (auto simp: hex_tail_def list_all_iff Suc_le_eq dest: set_takeWhileD)
  next
    case False
    then have "number_word c s = c # takeWhile isdigit s" by (auto simp: number_word_def)
    then show ?thesis by (auto simp: lexeme_digit d list_all_iff dest: set_takeWhileD)
  qed
  show "longest (number_word c s) rest"
    unfolding longest_def
  proof (intro allI impI notI)
    fix kind y u assume r: "rest = y @ u \<and> y \<noteq> []" and x: "lexeme kind (number_word c s @ y)"
    show False
    proof (cases "c = 0x30 \<and> s \<noteq> [] \<and> (hd s = 0x78 \<or> hd s = 0x58)")
      case True
      then have w: "number_word c s = c # hd s # takeWhile isxdigit (tl s)" by (auto simp: number_word_def)
      have "rest = dropWhile isxdigit (tl s)"
        using a True unfolding w by (metis append_Cons append_same_eq list.sel(3) list.collapse takeWhile_dropWhile_id same_append_eq)
      then have "\<not> list_all isxdigit y" using takeWhile_longer r by metis
      with x [unfolded w append_Cons lexeme_digit [OF d]] True x_not_digit [of "hd s"]
      show False by (auto simp: hex_tail_def)
    next
      case False
      then have w: "number_word c s = c # takeWhile isdigit s" by (auto simp: number_word_def)
      have rest: "rest = dropWhile isdigit s"
        using a unfolding w by (metis append_Cons list.sel(3) takeWhile_dropWhile_id same_append_eq)
      then have nd: "\<not> list_all isdigit y" using takeWhile_longer r by metis
      then have h: "c = 0x30" "hex_tail (takeWhile isdigit s @ y)" using x [unfolded w append_Cons lexeme_digit [OF d]] by auto
      show False
      proof (cases "takeWhile isdigit s")
        case Nil
        then have "s = y @ u" using rest r by (metis takeWhile_dropWhile_id append_Nil)
        with h Nil False r show False by (auto simp: hex_tail_def)
      next
        case (Cons z zs)
        then have "isdigit z" by (metis list.set_intros(1) set_takeWhileD)
        with h Cons x_not_digit [of z] show False by (auto simp: hex_tail_def)
      qed
    qed
  qed
qed

section \<open>The token at the current character\<close>

text \<open>Where a token says it is, when the lexer at its first character is \<open>l\<close> and its text is \<open>w\<close>. A
  string token leaves out its quotes.\<close>

definition token_at :: "lexer_t \<Rightarrow> bytes \<Rightarrow> token_t \<Rightarrow> bool" where
  "token_at l w token \<longleftrightarrow> tk_line token = lx_line l \<and> tk_column token = lx_column l
     \<and> (if tk_kind token = TOK_STRING then tk_start token = Some (lx_offset l + 1) \<and> tk_length token + 2 = length w
        else tk_start token = Some (lx_offset l) \<and> tk_length token = length w)"

lemma make_token_simps [simp]:
  "tk_kind (make_token k p n line column) = k" "tk_start (make_token k p n line column) = p"
  "tk_length (make_token k p n line column) = n" "tk_line (make_token k p n line column) = line"
  "tk_column (make_token k p n line column) = column" "tk_integer_value (make_token k p n line column) = 0"
  by (simp_all add: make_token_def)

text \<open>What \<open>lex_token\<close> has read: the text \<open>w\<close> of the token, which is a longest lexeme unless the token
  is invalid.\<close>

definition token_read :: "lexer_t \<Rightarrow> token_t \<times> lexer_t \<Rightarrow> bool" where
  "token_read l r \<longleftrightarrow> (case r of (token, l') \<Rightarrow> \<exists>w. w \<noteq> [] \<and> ahead l = w @ ahead l'
     \<and> lx_offset l' = lx_offset l + length w \<and> token_at l w token \<and> tk_kind token \<noteq> TOK_EOF
     \<and> (tk_kind token \<noteq> TOK_INVALID \<longrightarrow> lexeme (tk_kind token) w \<and> longest w (ahead l')))"

lemma single_token_kind: "single_token c = Some k \<Longrightarrow> k \<noteq> TOK_EOF \<and> k \<noteq> TOK_INVALID \<and> k \<noteq> TOK_STRING"
  by (auto simp: single_token_def split: if_splits)

lemma single_token_first:
  "single_token c = Some k \<Longrightarrow> \<not> word_start c \<and> \<not> isdigit c \<and> c \<notin> {0x22, 0x2D, 0x3D, 0x21, 0x3C, 0x3E}"
  by (auto simp: single_token_def word_start_def isalpha_def isdigit_def split: if_splits)

lemma token_read_word:
  assumes a: "ahead l = c # s" and o: "lx_offset l \<le> lx_length l" and c: "word_start c"
  shows "token_read l (lex_token l)"
proof -
  let ?w = "c # takeWhile is_word_char s" and ?l' = "advance_while is_word_char (step_char l)"
  note f = ahead_Cons [OF a]
  have off: "lx_offset ?l' = lx_offset l + length ?w" "ahead ?l' = dropWhile is_word_char s"
    using advance_while_length [of "step_char l" is_word_char] f a by simp_all
  have run: "lex_token l = (make_token TOK_IDENTIFIER (Some (lx_offset l)) (length ?w) (lx_line l) (lx_column l), ?l')"
    using c f(3) off(1) by (simp add: lex_token_def Let_def word_start_def case_prod_beta)
  have "longest ?w (dropWhile is_word_char s)"
    unfolding longest_def
  proof (intro allI impI notI)
    fix k v u assume r: "dropWhile is_word_char s = v @ u \<and> v \<noteq> []" and x: "lexeme k (?w @ v)"
    then have "\<not> list_all is_word_char v" using takeWhile_longer by metis
    with x c show False by (simp add: lexeme_word)
  qed
  moreover have "lexeme TOK_IDENTIFIER ?w"
    using c by (auto simp: lexeme_word list_all_iff dest: set_takeWhileD)
  ultimately show ?thesis unfolding token_read_def run using a off
    by (auto simp: token_at_def intro!: exI [of _ ?w])
qed

lemma token_read_number:
  assumes a: "ahead l = c # s" and o: "lx_offset l \<le> lx_length l" and c: "isdigit c"
  shows "token_read l (lex_token l)"
proof -
  let ?w = "number_word c s"
  have w: "?w \<noteq> []" by (simp add: number_word_def)
  have "lex_token l = lex_number c (lx_offset l) (lx_line l) (lx_column l) (step_char l)"
    using digit_not_word [OF c] c ahead_Cons(3) [OF a]
    by (simp add: lex_token_def Let_def word_start_def case_prod_beta)
  moreover obtain l' where "lex_number c (lx_offset l) (lx_line l) (lx_column l) (step_char l) =
      ((make_token (if number_value ?w = None then TOK_INVALID else TOK_INTEGER) (Some (lx_offset l))
          (length ?w) (lx_line l) (lx_column l))\<lparr>tk_integer_value := (case number_value ?w of None \<Rightarrow> 0 | Some v \<Rightarrow> v)\<rparr>, l')"
    "ahead l = ?w @ ahead l'" "lx_offset l' = lx_offset l + length ?w"
    using lex_number_eq [OF a c o, of "lx_line l" "lx_column l"] by blast
  moreover note number_word_lexeme [OF c, of s "ahead l'"]
  ultimately show ?thesis using w a
    unfolding token_read_def by (auto simp: token_at_def intro!: exI [of _ ?w])
qed

lemma step_ahead:
  "ahead l = c # s \<Longrightarrow> ahead (step_char l) = s \<and> lx_offset (step_char l) = lx_offset l + 1"
  by (simp add: ahead_Cons)

lemma token_read_string:
  assumes a: "ahead l = 0x22 # s" and o: "lx_offset l \<le> lx_length l"
  shows "token_read l (lex_token l)"
proof -
  note f = ahead_Cons [OF a] and st = step_ahead [OF a]
  have q: "\<not> isalpha 0x22" "\<not> isdigit 0x22" by (simp_all add: isalpha_def isdigit_def)
  obtain closed l2 where run: "skip_string False (step_char l) = (closed, l2)" by (metis surj_pair)
  have in2: "within (lx_source l) (lx_offset l + 1) l2"
    using lexer_within.skip_string [of "lx_source l" "lx_offset l + 1" "step_char l" False] f st
    by (simp add: run within_def)
  show ?thesis
  proof (cases closed)
    case True
    obtain b where b: "s = b @ 0x22 # ahead l2" "string_body False b" "lx_offset l2 = lx_offset l + 1 + length b + 1"
      using skip_string_ahead [of "step_char l" s False l2] run True f st by auto
    let ?w = "0x22 # b @ [0x22]"
    have tok: "lex_token l = (make_token TOK_STRING (Some (lx_offset l + 1)) (length b) (lx_line l) (lx_column l), l2)"
      using q f(3) run True b(3) by (simp add: lex_token_def Let_def case_prod_beta)
    have "longest ?w (ahead l2)"
      unfolding longest_def
    proof (intro allI impI notI)
      fix k v u assume r: "ahead l2 = v @ u \<and> v \<noteq> []" and x: "lexeme k (?w @ v)"
      then obtain b' where "b @ 0x22 # v = b' @ [0x22]" "string_body False b'" by (auto simp: lexeme_quote)
      then show False using string_body_unique [OF b(2)] r by blast
    qed
    moreover have "lexeme TOK_STRING ?w" using b(2) by (simp add: lexeme_quote)
    ultimately show ?thesis unfolding token_read_def tok using a b
      by (auto simp: token_at_def intro!: exI [of _ ?w])
  next
    case False
    let ?n = "lx_offset l2 - lx_offset l"
    have tok: "lex_token l = (make_token TOK_INVALID (Some (lx_offset l)) ?n (lx_line l) (lx_column l), l2)"
      using q f(3) run False by (simp add: lex_token_def Let_def case_prod_beta)
    let ?w = "take ?n (ahead l)"
    have "ahead l2 = drop ?n (ahead l)" using in2 by (simp add: ahead_def within_def)
    then have "ahead l = ?w @ ahead l2" by simp
    moreover have "length ?w = ?n" "0 < ?n" using in2 o by (auto simp: length_ahead within_def)
    ultimately show ?thesis unfolding token_read_def tok using in2
      by (auto simp: token_at_def within_def intro!: exI [of _ ?w])
  qed
qed

lemma single_token_none [simp]:
  "single_token 0x2D = None" "single_token 0x3D = None" "single_token 0x21 = None"
  "single_token 0x3C = None" "single_token 0x3E = None"
  by (simp_all add: single_token_def)

text \<open>Operators and punctuation, on what is ahead.\<close>

definition punctuator_token :: "lexer_t \<Rightarrow> u8 \<Rightarrow> bytes \<Rightarrow> token_t \<times> lexer_t" where
  "punctuator_token l c s =
     (let t = (\<lambda>k n. make_token k (Some (lx_offset l)) n (lx_line l) (lx_column l)) in
      case map_of punctuators (take 2 (c # s)) of
        Some k \<Rightarrow> (t k (length (take 2 (c # s))), if s = [] then step_char l else step_char (step_char l))
      | None \<Rightarrow> (case map_of punctuators [c] of
          Some k \<Rightarrow> (t k 1, step_char l) | None \<Rightarrow> (t TOK_INVALID 1, step_char l)))"

lemma lex_token_other:
  assumes a: "ahead l = c # s" and c: "\<not> word_start c" "\<not> isdigit c" "c \<noteq> 0x22"
  shows "lex_token l = punctuator_token l c s"
proof -
  have p: "lexer_peek (step_char l) = (case s of [] \<Rightarrow> 0 | d # _ \<Rightarrow> d)"
    using a by (simp add: peek_ahead)
  have run: "lex_token l = (case single_token c of
        Some kind \<Rightarrow> (make_token kind (Some (lx_offset l)) 1 (lx_line l) (lx_column l), step_char l)
      | None \<Rightarrow>
        if c = 0x2D then lex_pair 0x3E TOK_ARROW TOK_MINUS (lx_offset l) (lx_line l) (lx_column l) (step_char l)
        else if c = 0x3D then lex_pair 0x3D TOK_EQ TOK_ASSIGN (lx_offset l) (lx_line l) (lx_column l) (step_char l)
        else if c = 0x21 then lex_pair 0x3D TOK_NE TOK_INVALID (lx_offset l) (lx_line l) (lx_column l) (step_char l)
        else if c = 0x3C then lex_pair 0x3D TOK_LE TOK_LT (lx_offset l) (lx_line l) (lx_column l) (step_char l)
        else if c = 0x3E then lex_pair 0x3D TOK_GE TOK_GT (lx_offset l) (lx_line l) (lx_column l) (step_char l)
        else (make_token TOK_INVALID (Some (lx_offset l)) 1 (lx_line l) (lx_column l), step_char l))"
    using ahead_Cons(3) [OF a] c by (simp only: lex_token_def Let_def case_prod_beta word_start_def if_False)
  show ?thesis
  proof (cases "single_token c")
    case (Some k)
    with single_token_first [OF Some] show ?thesis unfolding run
      by (cases s) (simp_all add: punctuator_token_def punctuators_one punctuators_more)
  next
    case None
    then show ?thesis unfolding run
      by (cases s) (simp_all add: punctuator_token_def punctuators_one punctuators_more lex_pair_def p)
  qed
qed

lemma punctuators_kind: "map_of punctuators w = Some k \<Longrightarrow> k \<notin> {TOK_EOF, TOK_INVALID, TOK_STRING, TOK_INTEGER, TOK_IDENTIFIER} \<and> w \<noteq> [] \<and> length w \<le> 2"
  by (drule map_of_SomeD) (auto simp: punctuators_def)

lemma token_read_punctuator:
  assumes a: "ahead l = c # s" and c: "\<not> word_start c" "\<not> isdigit c" "c \<noteq> 0x22"
  shows "token_read l (lex_token l)"
proof -
  note st = step_ahead [OF a]
  have lex: "lexeme k (c # u) \<longleftrightarrow> map_of punctuators (c # u) = Some k" for k u
    using lexeme_punctuator [OF c] .
  show ?thesis
  proof (cases "map_of punctuators (take 2 (c # s))")
    case (Some k)
    let ?w = "take 2 (c # s)" and ?l' = "if s = [] then step_char l else step_char (step_char l)"
    have l': "ahead l = ?w @ ahead ?l' \<and> lx_offset ?l' = lx_offset l + length ?w"
      using a st ahead_Cons(1) [of "step_char l"] by (cases s) auto
    have "longest ?w (ahead ?l')"
    proof (cases s)
      case Nil
      then show ?thesis using st by (auto simp: longest_def)
    next
      case (Cons d u)
      then show ?thesis unfolding longest_def using lex
        by (auto simp: neq_Nil_conv punctuators_more)
    qed
    moreover have "lexeme k ?w" using Some lex [of k "take 1 s"] by (simp add: numeral_2_eq_2)
    ultimately show ?thesis using l' punctuators_kind [OF Some]
      unfolding token_read_def lex_token_other [OF a c] punctuator_token_def Some Let_def prod.case option.case
      by (auto simp: token_at_def intro!: exI [of _ ?w])
  next
    case None
    then have short: "map_of punctuators (c # v) = None" if "s = v @ u" "v \<noteq> []" for v u
      using that by (cases v) (auto simp: punctuators_more split: if_splits)
    have l: "longest [c] s" unfolding longest_def using lex short by auto
    show ?thesis
    proof (cases "map_of punctuators [c]")
      case (Some k)
      then show ?thesis using None l a st punctuators_kind [OF Some] lex [of k "[]"]
        unfolding token_read_def lex_token_other [OF a c] punctuator_token_def Let_def
        by (auto simp: token_at_def intro!: exI [of _ "[c]"])
    next
      case none: None
      then show ?thesis using None a st
        unfolding token_read_def lex_token_other [OF a c] punctuator_token_def Let_def
        by (auto simp: token_at_def intro!: exI [of _ "[c]"])
    qed
  qed
qed

lemma lex_token_read:
  assumes "\<not> lexer_at_end l"
  shows "token_read l (lex_token l)"
proof -
  obtain c s where a: "ahead l = c # s" using assms by (auto simp: at_end_ahead neq_Nil_conv)
  have o: "lx_offset l \<le> lx_length l" using assms by (simp add: lexer_at_end_def)
  show ?thesis using token_read_word [OF a o] token_read_number [OF a o] token_read_string [OF _ o]
      token_read_punctuator [OF a] a by metis
qed

section \<open>Layout\<close>

text \<open>No \<open>*/\<close> in a text.\<close>

fun no_close :: "bytes \<Rightarrow> bool" where
  "no_close (c # d # w) \<longleftrightarrow> \<not> (c = 0x2A \<and> d = 0x2F) \<and> no_close (d # w)"
| "no_close _ \<longleftrightarrow> True"

text \<open>The layout in front of a token, when \<open>rest\<close> comes after it: blanks, comments to the end of
  the line, and block comments. The last rule is what the check for unterminated comments lets
  through: \<open>/*/\<close> at the end of the source.\<close>

inductive layout :: "bytes \<Rightarrow> bytes \<Rightarrow> bool" for rest where
  empty: "layout rest []"
| blank: "isspace c \<Longrightarrow> layout rest w \<Longrightarrow> layout rest (c # w)"
| line: "list_all (\<lambda>c. c \<noteq> 0x0A) v \<Longrightarrow> w @ rest = [] \<or> hd (w @ rest) = 0x0A \<Longrightarrow> layout rest w
    \<Longrightarrow> layout rest (0x2F # 0x2F # v @ w)"
| block: "no_close (v @ [0x2A]) \<Longrightarrow> layout rest w \<Longrightarrow> layout rest (0x2F # 0x2A # v @ 0x2A # 0x2F # w)"
| overlap: "rest = [] \<Longrightarrow> layout rest [0x2F, 0x2A, 0x2F]"

lemma skip_block_Nil: "ahead l = [] \<Longrightarrow> skip_block l = l"
  by (subst skip_block.simps) (simp add: at_end_ahead)

lemma skip_block_Cons:
  assumes "ahead l = c # s"
  shows "skip_block l = (if c = 0x2A \<and> s \<noteq> [] \<and> hd s = 0x2F then step_char (step_char l) else skip_block (step_char l))"
  using ahead_Cons(1,2) [OF assms] assms
  by (subst skip_block.simps) (auto simp: peek_next_ahead split: list.split)

lemma skip_block_ahead:
  "ahead l = s \<Longrightarrow> (no_close s \<and> ahead (skip_block l) = []) \<or>
    (\<exists>v. s = v @ 0x2A # 0x2F # ahead (skip_block l) \<and> no_close (v @ [0x2A]))"
proof (induction s arbitrary: l)
  case Nil
  then show ?case by (simp add: skip_block_Nil)
next
  case (Cons c s)
  note st = step_ahead [OF Cons.prems]
  show ?case
  proof (cases "c = 0x2A \<and> s \<noteq> [] \<and> hd s = 0x2F")
    case True
    then show ?thesis using st skip_block_Cons [OF Cons.prems] by (cases s) auto
  next
    case False
    then have run: "skip_block l = skip_block (step_char l)" using skip_block_Cons [OF Cons.prems] by (simp only: if_False)
    from Cons.IH [of "step_char l"] st consider
      (none) "no_close s" "ahead (skip_block l) = []"
      | (some) v where "s = v @ 0x2A # 0x2F # ahead (skip_block l)" "no_close (v @ [0x2A])"
      unfolding run by blast
    then show ?thesis
    proof cases
      case none
      then show ?thesis using False by (cases s) auto
    next
      case some
      then have "no_close ((c # v) @ [0x2A])" using False by (cases v) auto
      then show ?thesis using some(1) by (metis append_Cons)
    qed
  qed
qed

text \<open>The end of the source before the token, in terms of what is ahead.\<close>

lemma skip_layout_stop:
  assumes "lexer_skip_layout l = (ok, l1, msg)"
  shows "\<not> isspace (lexer_peek l) \<Longrightarrow> \<not> (lexer_peek l = 0x2F \<and> lexer_peek_next l \<in> {0x2F, 0x2A})
    \<Longrightarrow> ok \<and> l1 = l \<and> msg = []"
  using assms by (subst (asm) lexer_skip_layout.simps) (auto simp: Let_def split: if_splits)

text \<open>The check after a block comment: the last two characters read.\<close>

lemma tail_of_source:
  assumes "ahead l' = []" "lx_source l' = pre @ s" "lx_offset l' \<le> lx_length l'" "2 \<le> length s"
  shows "lx_offset l' \<ge> 2 \<and> lx_source l' ! (lx_offset l' - 2) = s ! (length s - 2)
    \<and> lx_source l' ! (lx_offset l' - 1) = s ! (length s - 1)"
proof -
  have "lx_offset l' = length pre + length s"
    using length_ahead [of l'] assms(1-3) by simp
  moreover have e: "length pre + length s - 2 = length pre + (length s - 2)"
    "length pre + length s - 1 = length pre + (length s - 1)" using assms(4) by linarith+
  moreover have "(pre @ s) ! (length pre + length s - 2) = s ! (length s - 2)"
    "(pre @ s) ! (length pre + length s - 1) = s ! (length s - 1)"
    unfolding e by (rule nth_append_length_plus)+
  ultimately show ?thesis using assms(2,4) by simp
qed

lemma no_close_end:
  "no_close s \<Longrightarrow> s \<noteq> [] \<Longrightarrow> last s = 0x2F \<Longrightarrow> length s = 1 \<or> (2 \<le> length s \<and> s ! (length s - 2) \<noteq> 0x2A)"
proof (induction s rule: no_close.induct)
  case (1 c d w)
  then show ?case by (cases w) (auto simp: numeral_2_eq_2 nth_Cons')
qed auto

lemma close_at_end:
  assumes a: "ahead l = 0x2F # 0x2A # u" and l: "lx_offset l \<le> lx_length l"
    and n: "no_close u" "ahead l' = []" "lx_source l' = lx_source l" "lx_offset l' \<le> lx_length l'"
    and c: "lx_source l' ! (lx_offset l' - 2) = 0x2A" "lx_source l' ! (lx_offset l' - 1) = 0x2F"
  shows "u = [0x2F]"
proof -
  let ?s = "0x2F # 0x2A # u"
  have "lx_source l' = take (lx_offset l) (lx_source l) @ ?s"
    unfolding n(3) a [symmetric] ahead_def by simp
  then have t: "?s ! (length ?s - 2) = 0x2A" "?s ! (length ?s - 1) = 0x2F"
    using tail_of_source [OF n(2) _ n(4), of "take (lx_offset l) (lx_source l)" ?s] c by auto
  then have "u \<noteq> []" by auto
  moreover have "length u - Suc 0 - 1 = length u - 2" by arith
  moreover from calculation t have "last u = 0x2F" "length u \<le> 1 \<or> u ! (length u - 2) = 0x2A"
    by (auto simp: last_conv_nth nth_Cons' Suc_le_eq split: if_splits)
  ultimately show ?thesis using no_close_end [OF n(1)] by (cases u) auto
qed

lemma skip_layout_ahead:
  "lexer_skip_layout l = (True, l1, msg) \<Longrightarrow> lx_offset l \<le> lx_length l \<Longrightarrow>
   \<exists>g. ahead l = g @ ahead l1 \<and> layout (ahead l1) g"
proof (induction l arbitrary: l1 msg rule: lexer_skip_layout.induct)
  case (1 l)
  note run = "1.prems"(1) and o = "1.prems"(2)
  note eq = run [unfolded lexer_skip_layout.simps [of l] Let_def]
  consider (blank) c s where "ahead l = c # s" "isspace c"
    | (line) u where "ahead l = 0x2F # 0x2F # u" | (block) u where "ahead l = 0x2F # 0x2A # u"
    | (stop) "\<not> isspace (lexer_peek l)" "\<not> (lexer_peek l = 0x2F \<and> lexer_peek_next l \<in> {0x2F, 0x2A})"
    by (cases "ahead l"; cases "tl (ahead l)") (auto simp: peek_ahead peek_next_ahead isspace_def)
  then show ?case
  proof cases
    case blank
    note f = ahead_Cons [OF blank(1)] and st = step_ahead [OF blank(1)]
    have "lexer_skip_layout (step_char l) = (True, l1, msg)" using eq f(2) blank(2) by simp
    from "1.IH"(1) [OF refl refl _ this] f st blank(2) obtain g where "s = g @ ahead l1" "layout (ahead l1) g"
      by auto
    with blank show ?thesis by (intro exI [of _ "c # g"]) (auto intro: layout.blank)
  next
    case line
    note f = ahead_Cons [OF line]
    let ?Q = "\<lambda>c :: u8. c \<noteq> 0x0A" and ?l = "advance_while (\<lambda>c. c \<noteq> 0x0A) l"
    have p: "\<not> isspace (lexer_peek l)" "lexer_peek l = 0x2F" "lexer_peek_next l = 0x2F"
      using f(2) line by (simp_all add: isspace_def peek_next_ahead)
    have "lexer_skip_layout ?l = (True, l1, msg)" using eq p by simp
    moreover have "within (lx_source l) 0 ?l" by (rule lexer_within.advance_while) (simp add: within_def o)
    ultimately obtain g where g: "dropWhile ?Q u = g @ ahead l1" "layout (ahead l1) g"
      using "1.IH"(2) [OF refl refl] p line by (auto simp: within_def)
    have "list_all ?Q (takeWhile ?Q u)" by (auto simp: list_all_iff dest: set_takeWhileD)
    moreover have "g @ ahead l1 = [] \<or> hd (g @ ahead l1) = 0x0A"
      using g(1) hd_dropWhile [of ?Q u] by fastforce
    ultimately have "layout (ahead l1) (0x2F # 0x2F # takeWhile ?Q u @ g)" using g(2) by (rule layout.line)
    moreover have "ahead l = (0x2F # 0x2F # takeWhile ?Q u @ g) @ ahead l1"
      using line g(1) by (simp flip: g(1))
    ultimately show ?thesis by blast
  next
    case block
    note f = ahead_Cons [OF block]
    let ?l2 = "step_char (step_char l)" and ?l = "skip_block (step_char (step_char l))"
    have p: "\<not> isspace (lexer_peek l)" "lexer_peek l = 0x2F" "lexer_peek_next l = 0x2A"
      using f(2) block by (simp_all add: isspace_def peek_next_ahead)
    let ?bad = "lexer_at_end ?l \<and> \<not> (lx_offset ?l \<ge> 2 \<and> lx_source ?l ! (lx_offset ?l - 2) = 0x2A
      \<and> lx_source ?l ! (lx_offset ?l - 1) = 0x2F)"
    have nb: "\<not> ?bad" and next': "lexer_skip_layout ?l = (True, l1, msg)"
      using eq p by (simp_all split: if_splits)
    have w: "within (lx_source l) 0 ?l"
      by (intro lexer_within.skip_block lexer_within.step) (simp add: within_def o)
    have u: "ahead ?l2 = u" using block by simp
    have "\<exists>g. ahead ?l = g @ ahead l1 \<and> layout (ahead l1) g"
      using "1.IH"(3) [OF refl refl _ _ _ refl nb next'] p w by (simp add: within_def)
    then obtain g where g: "ahead ?l = g @ ahead l1" "layout (ahead l1) g" by blast
    from skip_block_ahead [OF u] show ?thesis
    proof (elim disjE exE conjE)
      assume n: "no_close u" "ahead ?l = []"
      then have "u = [0x2F]" using nb close_at_end [OF block o n] w by (auto simp: at_end_ahead within_def)
      with block n(2) g(1) show ?thesis
        by (intro exI [of _ "[0x2F, 0x2A, 0x2F]"]) (auto intro: layout.overlap)
    next
      fix v assume v: "u = v @ 0x2A # 0x2F # ahead ?l" "no_close (v @ [0x2A])"
      from layout.block [OF v(2) g(2)] block v(1) g(1) show ?thesis
        by (intro exI [of _ "0x2F # 0x2A # v @ 0x2A # 0x2F # g"]) simp
    qed
  next
    case stop
    with skip_layout_stop [OF run] show ?thesis by (intro exI [of _ "[]"]) (auto intro: layout.empty)
  qed
qed

end
