(* ===== verification/T32_Cc.thy ===== *)
theory T32_Cc
  imports T32_Lexer_Laws
begin

text \<open>
  The properties of the compiler's front end with their witnesses: what the lexer reads, where its
  tokens are, the value of numbers, reading back a printed token list, the first error of the
  parser, and the command line.
\<close>

section \<open>One call of the lexer\<close>

definition start_lexer :: "bytes \<Rightarrow> bytes \<Rightarrow> lexer_t" where
  "start_lexer path source = \<lparr>lx_path = path, lx_source = source, lx_offset = 0, lx_line = 1, lx_column = 1\<rparr>"

lemma next_token_cases:
  assumes n: "lexer_next_token l = (token, l', msg)" and o: "lx_offset l \<le> lx_length l"
  obtains (comment) "lexer_skip_layout l = (False, l', msg)" "token = make_token TOK_INVALID None 0 (lx_line l') (lx_column l')"
  | (eof) g where "lexer_skip_layout l = (True, l', msg)" "lexer_at_end l'" "ahead l = g @ ahead l'" "layout (ahead l') g"
      "token = make_token TOK_EOF (Some (lx_offset l')) 0 (lx_line l') (lx_column l')"
  | (token) g l1 where "lexer_skip_layout l = (True, l1, msg)" "\<not> lexer_at_end l1" "ahead l = g @ ahead l1"
      "layout (ahead l1) g" "lex_token l1 = (token, l')" "token_read l1 (token, l')"
proof -
  obtain ok l1 m where s: "lexer_skip_layout l = (ok, l1, m)" by (metis surj_pair)
  show ?thesis
  proof (cases ok)
    case False
    then show ?thesis using n s by (auto simp: lexer_next_token_def intro: comment)
  next
    case True
    then obtain g where g: "ahead l = g @ ahead l1" "layout (ahead l1) g" using skip_layout_ahead [of l l1 m] s o by auto
    show ?thesis
    proof (cases "lexer_at_end l1")
      case True
      then show ?thesis using n s \<open>ok\<close> eof g by (auto simp: lexer_next_token_def)
    next
      case False
      then show ?thesis using n s \<open>ok\<close> g lex_token_read [OF False] token [of l1 g]
        by (auto simp: lexer_next_token_def case_prod_beta)
    qed
  qed
qed

lemma skip_layout_within:
  "lexer_skip_layout l = (ok, l1, msg) \<Longrightarrow> lx_offset l \<le> lx_length l \<Longrightarrow>
   lx_source l1 = lx_source l \<and> lx_offset l \<le> lx_offset l1 \<and> lx_offset l1 \<le> lx_length l"
  using lexer_within.skip_layout [of "lx_source l" "lx_offset l" l] by (simp add: within_def)

lemma skip_layout_end: "lexer_at_end l \<Longrightarrow> lexer_skip_layout l = (True, l, [])"
  by (subst lexer_skip_layout.simps) (simp add: lexer_peek_def isspace_def Let_def)

lemma skip_layout_message:
  "lexer_skip_layout l = (ok, l1, msg) \<Longrightarrow> if ok then msg = [] else lexer_at_end l1 \<and> msg \<noteq> []"
proof (induction l arbitrary: ok l1 msg rule: lexer_skip_layout.induct)
  case (1 l)
  note run = "1.prems" [unfolded lexer_skip_layout.simps [of l] Let_def] and IH = "1.IH" [OF refl refl]
  let ?c = "lexer_peek l" and ?d = "lexer_peek_next l"
  consider (blank) "isspace ?c" | (line) "\<not> isspace ?c" "?c = 0x2F \<and> ?d = 0x2F"
    | (block) "\<not> isspace ?c" "\<not> (?c = 0x2F \<and> ?d = 0x2F)" "?c = 0x2F \<and> ?d = 0x2A"
    | (stop) "\<not> isspace ?c" "\<not> (?c = 0x2F \<and> ?d = 0x2F)" "\<not> (?c = 0x2F \<and> ?d = 0x2A)" by blast
  then show ?case
  proof cases
    case blank
    show ?thesis by (rule IH(1) [OF blank run [unfolded if_P [OF blank]]])
  next
    case line
    show ?thesis by (rule IH(2) [OF line run [unfolded if_not_P [OF line(1)] if_P [OF line(2)]]])
  next
    case block
    note run' = run [unfolded if_not_P [OF block(1)] if_not_P [OF block(2)] if_P [OF block(3)]]
    show ?thesis
    proof (cases "lexer_skip_layout (skip_block (step_char (step_char l))) = (ok, l1, msg)
        \<and> \<not> (lexer_at_end (skip_block (step_char (step_char l)))
        \<and> \<not> (lx_offset (skip_block (step_char (step_char l))) \<ge> 2
          \<and> lx_source (skip_block (step_char (step_char l))) ! (lx_offset (skip_block (step_char (step_char l))) - 2) = 0x2A
          \<and> lx_source (skip_block (step_char (step_char l))) ! (lx_offset (skip_block (step_char (step_char l))) - 1) = 0x2F))")
      case True
      then show ?thesis using IH(3) [OF block refl] by blast
    next
      case False
      with run' show ?thesis by (auto simp: newline_def split: if_splits)
    qed
  next
    case stop
    show ?thesis using run [unfolded if_not_P [OF stop(1)] if_not_P [OF stop(2)] if_not_P [OF stop(3)]] by auto
  qed
qed

lemma token_read_moves: "token_read l (token, l') \<Longrightarrow> lx_offset l < lx_offset l'"
  by (auto simp: token_read_def)

text \<open>A token of \<open>lex_token\<close> and its text.\<close>

lemma token_read_text:
  assumes "token_read l (token, l')" "tk_kind token \<noteq> TOK_INVALID"
  obtains w where "w \<noteq> []" "ahead l = w @ ahead l'" "lx_offset l' = lx_offset l + length w"
    "lexeme (tk_kind token) w" "longest w (ahead l')"
    "token_text (lx_source l) token = (if tk_kind token = TOK_STRING then butlast (tl w) else w)"
proof -
  from assms obtain w where w: "w \<noteq> []" "ahead l = w @ ahead l'" "lx_offset l' = lx_offset l + length w"
    "token_at l w token" "lexeme (tk_kind token) w" "longest w (ahead l')"
    by (auto simp: token_read_def)
  have "token_text (lx_source l) token = (if tk_kind token = TOK_STRING then butlast (tl w) else w)"
  proof (cases "tk_kind token = TOK_STRING")
    case True
    then have "tk_start token = Some (lx_offset l + 1)" "tk_length token = length (butlast (tl w))"
      "2 \<le> length w" using w(4) by (auto simp: token_at_def)
    moreover from this have "drop (lx_offset l + 1) (lx_source l) = tl w @ ahead l'"
      using w(2) unfolding ahead_def by (metis drop_Suc tl_drop Suc_eq_plus1 tl_append2 w(1))
    ultimately show ?thesis using True
      by (cases w rule: rev_cases) (auto simp: token_text_def slice_def tl_append split: list.split)
  next
    case False
    then have "tk_start token = Some (lx_offset l)" "tk_length token = length w"
      using w(4) by (simp_all add: token_at_def)
    then show ?thesis using False w(2) by (simp add: token_text_def slice_def ahead_def)
  qed
  with w that show ?thesis by blast
qed

text \<open>C36: The lexer reads the layout in front of the next token, then the longest word that is a
  lexeme of the language; the token has the kind of that word and its text, a string without its
  quotes.\<close>

theorem lexer_reads:
  "lexer_next_token l = (token, l', msg) \<Longrightarrow> lx_offset l \<le> lx_length l \<Longrightarrow> tk_kind token \<notin> {TOK_EOF, TOK_INVALID} \<Longrightarrow>
   \<exists>gap w. ahead l = gap @ w @ ahead l' \<and> layout (w @ ahead l') gap \<and> lexeme (tk_kind token) w
     \<and> longest w (ahead l') \<and> token_text (lx_source l) token = (if tk_kind token = TOK_STRING then butlast (tl w) else w)"
proof -
  assume n: "lexer_next_token l = (token, l', msg)" and o: "lx_offset l \<le> lx_length l"
    and k: "tk_kind token \<notin> {TOK_EOF, TOK_INVALID}"
  from n o show ?thesis
  proof (cases rule: next_token_cases)
    case (token g l1)
    have src: "lx_source l1 = lx_source l" using skip_layout_within [OF token(1) o] by simp
    from token_read_text [OF token(6)] k obtain w where "ahead l1 = w @ ahead l'" "lexeme (tk_kind token) w"
      "longest w (ahead l')"
      "token_text (lx_source l1) token = (if tk_kind token = TOK_STRING then butlast (tl w) else w)" by auto
    with token(3,4) src show ?thesis by (intro exI [of _ g] exI [of _ w]) simp
  qed (use k in auto)
qed

text \<open>The lexer never leaves its source and never goes back: a token's text lies between the
  offsets before and after it, every call but the one at the end of the file consumes something, and
  a token without a place is one for which an error was printed.\<close>

theorem lexer_span:
  "lexer_next_token l = (token, l', msg) \<Longrightarrow> lx_offset l \<le> lx_length l \<Longrightarrow>
   lx_source l' = lx_source l \<and> lx_offset l \<le> lx_offset l' \<and> lx_offset l' \<le> lx_length l
   \<and> (case tk_start token of None \<Rightarrow> tk_kind token = TOK_INVALID \<and> msg \<noteq> []
      | Some p \<Rightarrow> lx_offset l \<le> p \<and> p + tk_length token \<le> lx_offset l' \<and> msg = [])
   \<and> (if tk_kind token = TOK_EOF then lx_offset l' = lx_length l else lx_offset l < lx_offset l')"
proof -
  assume n: "lexer_next_token l = (token, l', msg)" and o: "lx_offset l \<le> lx_length l"
  have in': "within (lx_source l) (lx_offset l) l'"
    using lexer_within.next_token [of "lx_source l" "lx_offset l" l] n o by (simp add: within_def)
  from n o show ?thesis
  proof (cases rule: next_token_cases)
    case comment
    have "\<not> lexer_at_end l" using comment(1) skip_layout_end [of l] by auto
    with comment in' skip_layout_message [OF comment(1)] show ?thesis
      by (auto simp: within_def lexer_at_end_def)
  next
    case (eof g)
    with in' skip_layout_message [OF eof(1)] show ?thesis by (auto simp: within_def lexer_at_end_def)
  next
    case (token g l1)
    from token(6) obtain w where w: "lx_offset l' = lx_offset l1 + length w" "token_at l1 w token"
      "tk_kind token \<noteq> TOK_EOF" by (auto simp: token_read_def)
    have "lx_offset l < lx_offset l'"
      using skip_layout_within [OF token(1) o] token_read_moves [OF token(6)] by linarith
    with w token skip_layout_within [OF token(1) o] in' skip_layout_message [OF token(1)] show ?thesis
      by (auto simp: within_def token_at_def split: if_splits)
  qed
qed

section \<open>The token stream\<close>

lemma next_token_progress:
  "lexer_next_token l = (token, l', msg) \<Longrightarrow> tk_kind token \<noteq> TOK_EOF \<Longrightarrow> remaining l' < remaining l"
proof -
  assume n: "lexer_next_token l = (token, l', msg)" and k: "tk_kind token \<noteq> TOK_EOF"
  have e: "\<not> lexer_at_end l"
  proof
    assume "lexer_at_end l"
    with n k show False by (auto simp: lexer_next_token_def skip_layout_end)
  qed
  then have "within (lx_source l) (lx_offset l) l'"
    using lexer_within.next_token [of "lx_source l" "lx_offset l" l] n by (simp add: within_def lexer_at_end_def)
  moreover have "lx_offset l' \<noteq> lx_offset l"
  proof -
    from e have "lx_offset l \<le> lx_length l" by (simp add: lexer_at_end_def)
    from n this show ?thesis
    proof (cases rule: next_token_cases)
      case comment
      then show ?thesis using skip_layout_message [OF comment(1)] e
          skip_layout_within [OF comment(1)] by (auto simp: lexer_at_end_def)
    next
      case (token g l1)
      then show ?thesis using skip_layout_within [OF token(1)] token_read_moves [OF token(6)] e
        by (simp add: lexer_at_end_def)
    qed (use k in auto)
  qed
  ultimately show ?thesis using e by (simp add: within_def lexer_at_end_def) linarith
qed

text \<open>The tokens that a parser which only advances gets, up to the first one it cannot go past.\<close>

function tokens :: "lexer_t \<Rightarrow> token_t list" where
  "tokens l = (case lexer_next_token l of (token, l', msg) \<Rightarrow>
     if tk_kind token = TOK_EOF \<or> tk_kind token = TOK_INVALID then [token] else token # tokens l')"
  by pat_completeness auto
termination
  by (relation "measure remaining") (auto dest: next_token_progress [OF sym])

declare tokens.simps [simp del]

lemma tokens_ends:
  "\<exists>ts t. tokens l = ts @ [t] \<and> tk_kind t \<in> {TOK_EOF, TOK_INVALID}
     \<and> (\<forall>u \<in> set ts. tk_kind u \<notin> {TOK_EOF, TOK_INVALID}) \<and> length ts \<le> remaining l"
proof (induction l rule: tokens.induct)
  case (1 l)
  obtain t l' msg where n: "lexer_next_token l = (t, l', msg)" by (metis surj_pair)
  show ?case
  proof (cases "tk_kind t \<in> {TOK_EOF, TOK_INVALID}")
    case True
    then show ?thesis using n by (intro exI [of _ "[]"] exI [of _ t]) (auto simp: tokens.simps [of l])
  next
    case False
    then obtain ts u where "tokens l' = ts @ [u]" "tk_kind u \<in> {TOK_EOF, TOK_INVALID}"
      "\<forall>v \<in> set ts. tk_kind v \<notin> {TOK_EOF, TOK_INVALID}" "length ts \<le> remaining l'"
      using "1.IH" [OF n [symmetric] refl] by auto
    then show ?thesis using n False next_token_progress [OF n]
      by (intro exI [of _ "t # ts"] exI [of _ u]) (auto simp: tokens.simps [of l])
  qed
qed

text \<open>The offset of the first character of a token.\<close>

definition token_offset :: "token_t \<Rightarrow> nat option" where
  "token_offset t = map_option (\<lambda>p. if tk_kind t = TOK_STRING then p - 1 else p) (tk_start t)"

lemma next_token_position:
  assumes "lexer_next_token l = (t, l', msg)" "positioned l" "lx_offset l \<le> lx_length l" "token_offset t = Some p"
  shows "tk_line t = line_of (lx_source l) p \<and> tk_column t = column_of (lx_source l) p"
  using assms(1,3)
proof (cases rule: next_token_cases)
  case comment
  then show ?thesis using assms(4) by (simp add: token_offset_def)
next
  case (eof g)
  have "positioned l'" using lexer_position.skip_layout [OF assms(2)] eof(1) by simp
  with eof assms(4) skip_layout_within [OF eof(1) assms(3)] show ?thesis
    by (auto simp: token_offset_def positioned_def)
next
  case (token g l1)
  have "positioned l1" using lexer_position.skip_layout [OF assms(2)] token(1) by simp
  moreover obtain w where "token_at l1 w t" using token(6) by (auto simp: token_read_def)
  ultimately show ?thesis using assms(4) skip_layout_within [OF token(1) assms(3)]
    by (auto simp: token_offset_def positioned_def token_at_def split: if_splits)
qed

lemma tokens_positions:
  "positioned l \<Longrightarrow> lx_offset l \<le> lx_length l \<Longrightarrow> t \<in> set (tokens l) \<Longrightarrow> token_offset t = Some p \<Longrightarrow>
   tk_line t = line_of (lx_source l) p \<and> tk_column t = column_of (lx_source l) p"
proof (induction l rule: tokens.induct)
  case (1 l)
  obtain u l' msg where n: "lexer_next_token l = (u, l', msg)" by (metis surj_pair)
  have l': "positioned l'" "lx_source l' = lx_source l" "lx_offset l' \<le> lx_length l'"
    using lexer_position.next_token [OF "1.prems"(1)] lexer_within.next_token [of "lx_source l" 0 l]
      "1.prems"(2) n by (auto simp: within_def)
  consider "t = u" | "\<not> (tk_kind u = TOK_EOF \<or> tk_kind u = TOK_INVALID)" "t \<in> set (tokens l')"
    using "1.prems"(3) n by (subst (asm) tokens.simps) (auto split: if_splits)
  then show ?case
  proof cases
    case 1
    then show ?thesis using next_token_position [OF n "1.prems"(1,2)] "1.prems"(4) by simp
  next
    case 2
    then show ?thesis using "1.IH" [OF n [symmetric] refl] l' "1.prems"(4) by simp
  qed
qed

text \<open>C38: The token stream of every source ends, with the end of the file or the first invalid
  token, after at most as many tokens as the source has characters, and every token that has a place
  carries the line and column of its first character.\<close>

theorem lexer_tokens:
  "\<exists>ts t. tokens (start_lexer path source) = ts @ [t] \<and> tk_kind t \<in> {TOK_EOF, TOK_INVALID}
     \<and> (\<forall>u \<in> set ts. tk_kind u \<notin> {TOK_EOF, TOK_INVALID}) \<and> length ts \<le> length source
     \<and> (\<forall>u \<in> set (ts @ [t]). \<forall>p. token_offset u = Some p \<longrightarrow>
          tk_line u = line_of source p \<and> tk_column u = column_of source p)"
proof -
  let ?l = "start_lexer path source"
  have l: "positioned ?l" "lx_offset ?l \<le> lx_length ?l" "lx_source ?l = source" "lx_offset ?l = 0"
    by (simp_all add: start_lexer_def start_positioned [simplified])
  from tokens_ends [of ?l] obtain ts t where ts: "tokens ?l = ts @ [t]" "tk_kind t \<in> {TOK_EOF, TOK_INVALID}"
    "\<forall>u \<in> set ts. tk_kind u \<notin> {TOK_EOF, TOK_INVALID}" "length ts \<le> length source"
    using l(3,4) by auto
  have "\<forall>u \<in> set (ts @ [t]). \<forall>p. token_offset u = Some p \<longrightarrow>
      tk_line u = line_of source p \<and> tk_column u = column_of source p"
    using tokens_positions [OF l(1,2)] l(3) ts(1) by metis
  with ts show ?thesis by blast
qed

section \<open>Numbers\<close>

text \<open>The value of a number in the C notation that the lexer reads: hexadecimal after \<open>0x\<close>, octal
  after \<open>0\<close>, else decimal. An octal number with the digit 8 or 9 has none.\<close>

definition digits_value :: "nat \<Rightarrow> nat \<Rightarrow> bytes \<Rightarrow> nat" where
  "digits_value base = foldl (\<lambda>v c. v * base + the (digit_value c))"

definition literal_value :: "bytes \<Rightarrow> nat option" where
  "literal_value w =
     (if hd w = 0x30 \<and> hex_tail (tl w) then Some (digits_value 16 0 (drop 2 w))
      else if hd w = 0x30 then if list_all (\<lambda>c. c \<le> 0x37) w then Some (digits_value 8 0 w) else None
      else Some (digits_value 10 0 w))"

abbreviation digit_below :: "nat \<Rightarrow> u8 \<Rightarrow> bool" where
  "digit_below base c \<equiv> (\<exists>d < base. digit_value c = Some d)"

lemma scan_digits_all:
  "list_all (digit_below base) s \<Longrightarrow> scan_digits base s acc = (digits_value base acc s, [])"
  by (induction s arbitrary: acc) (auto simp: digits_value_def)

lemma scan_digits_some: "\<not> list_all (digit_below base) s \<Longrightarrow> snd (scan_digits base s acc) \<noteq> []"
  by (induction s arbitrary: acc) (auto split: option.split)

lemma scan_digits_moves: "s = c # u \<Longrightarrow> digit_below base c \<Longrightarrow> length (snd (scan_digits base s acc)) < length s"
proof -
  have "length (snd (scan_digits base t a)) \<le> length t" for t a
    by (induction t arbitrary: a) (auto split: option.split intro: le_SucI)
  then show "s = c # u \<Longrightarrow> digit_below base c \<Longrightarrow> ?thesis" by (auto simp: less_Suc_eq_le)
qed

lemma digit_facts:
  "isdigit c \<Longrightarrow> digit_below 10 c" "isdigit c \<Longrightarrow> digit_below 8 c \<longleftrightarrow> c \<le> 0x37" "isxdigit c \<Longrightarrow> digit_below 16 c"
  "isdigit c \<Longrightarrow> \<not> isspace c \<and> c \<noteq> 0x2D \<and> c \<noteq> 0x2B"
proof -
  show "isdigit c \<Longrightarrow> digit_below 10 c" "isdigit c \<Longrightarrow> digit_below 8 c \<longleftrightarrow> c \<le> 0x37"
    "isdigit c \<Longrightarrow> \<not> isspace c \<and> c \<noteq> 0x2D \<and> c \<noteq> 0x2B"
    by (auto simp: digit_value_def isdigit_def isspace_def word_le_nat_alt)
  show "isxdigit c \<Longrightarrow> digit_below 16 c"
    unfolding isxdigit_def
  proof (elim disjE conjE)
    assume "65 \<le> c" "c \<le> 70"
    then show ?thesis by (auto simp: digit_value_def isdigit_def toupper_def word_le_nat_alt)
  next
    assume c: "97 \<le> c" "c \<le> 102"
    then have "unat (c - 32) = unat c - 32" by (simp add: unat_sub word_le_nat_alt)
    with c show ?thesis by (auto simp: digit_value_def isdigit_def toupper_def word_le_nat_alt)
  qed (auto simp: digit_value_def isdigit_def word_le_nat_alt)
qed

lemma value_in_32_bits:
  "(if v \<ge> 2 ^ 64 then None else if (of_nat v :: u64) > 0xffffffff then None else Some (ucast (of_nat v :: u64) :: u32))
    = (if v < 2 ^ 32 then Some (of_nat v) else None)"
proof (cases "v < 2 ^ 64")
  case True
  then have u: "unat (of_nat v :: u64) = v" by (simp add: unat_of_nat take_bit_nat_eq_self)
  then have "(of_nat v :: u64) > 0xffffffff \<longleftrightarrow> \<not> v < 2 ^ 32" unfolding word_less_nat_alt by auto
  moreover have "(ucast (of_nat v :: u64) :: u32) = of_nat v" by (metis of_nat_unat u)
  ultimately show ?thesis using True by simp
qed simp

lemma strtoull_literal:
  assumes w: "lexeme TOK_INTEGER w" "isdigit (hd w)"
  shows "case literal_value w of
      Some v \<Rightarrow> strtoull w = (if v \<ge> 2 ^ 64 then (2 ^ 64 - 1, True, []) else (of_nat v, False, []))
    | None \<Rightarrow> snd (snd (strtoull w)) \<noteq> []"
proof -
  obtain c u where cu: "w = c # u" using w(1) by (cases w) (auto simp: lexeme_def)
  have c: "isdigit c" using w(2) cu by simp
  note start = digit_facts(4) [OF c]
  consider (hex) x h where "c = 0x30" "u = x # h" "x = 0x78 \<or> x = 0x58" "h \<noteq> []" "list_all isxdigit h"
    | (oct) "c = 0x30" "list_all isdigit w" "\<not> hex_tail u" | (dec) "c \<noteq> 0x30" "list_all isdigit w"
    using w(1) c x_not_digit unfolding cu lexeme_digit [OF c]
    by (cases u) (auto simp: hex_tail_def Suc_le_eq)
  then show ?thesis
  proof cases
    case hex
    then obtain d h' where h: "h = d # h'" by (cases h) auto
    have b: "list_all (digit_below 16) h" using hex(5) digit_facts(3) by (auto simp: list_all_iff)
    then obtain e where e: "digit_value d = Some e" "e < 16" by (auto simp: h)
    have t: "toupper x = 0x58" using x_not_digit [OF hex(3)] by simp
    have v: "literal_value w = Some (digits_value 16 0 h)"
      using hex by (simp add: literal_value_def cu hex_tail_def h Suc_le_eq)
    have "\<not> isspace 0x30" by (simp add: isspace_def)
    then have "strtoull w = (if digits_value 16 0 h \<ge> 2 ^ 64 then (2 ^ 64 - 1, True, []) else (of_nat (digits_value 16 0 h), False, []))"
      using scan_digits_all [OF b, of 0] hex t e by (simp add: strtoull_def cu h Let_def)
    with v show ?thesis by simp
  next
    case oct
    have nx: "\<not> (2 < length w \<and> toupper (w ! 1) = 0x58)"
    proof
      assume a: "2 < length w \<and> toupper (w ! 1) = 0x58"
      then have "isdigit (w ! 1)" using oct(2) by (simp add: list_all_length)
      with a show False by (auto simp: toupper_def isdigit_def split: if_splits)
    qed
    have "digit_below 8 c" using oct(1) digit_facts(2) [OF c] by simp
    from scan_digits_moves [OF cu this, of 0] have "snd (scan_digits 8 w 0) \<noteq> w" by auto
    then have r: "strtoull w = (case scan_digits 8 w 0 of (v, rest) \<Rightarrow>
        if v \<ge> 2 ^ 64 then (2 ^ 64 - 1, True, rest) else (of_nat v, False, rest))"
      using nx start oct(1) by (auto simp: strtoull_def cu Let_def split: prod.split)
    have l: "list_all (digit_below 8) w \<longleftrightarrow> list_all (\<lambda>c. c \<le> 0x37) w"
      using oct(2) digit_facts(2) by (auto simp: list_all_iff)
    show ?thesis
    proof (cases "list_all (digit_below 8) w")
      case True
      then show ?thesis using r oct l scan_digits_all [OF True, of 0] by (simp add: literal_value_def cu)
    next
      case False
      then show ?thesis using r oct l scan_digits_some [OF False, of 0]
        by (auto simp: literal_value_def cu split: prod.split)
    qed
  next
    case dec
    have b: "list_all (digit_below 10) w" using dec(2) digit_facts(1) by (auto simp: list_all_iff)
    have v: "literal_value w = Some (digits_value 10 0 w)" using dec by (simp add: literal_value_def cu)
    have "strtoull w = (if digits_value 10 0 w \<ge> 2 ^ 64 then (2 ^ 64 - 1, True, []) else (of_nat (digits_value 10 0 w), False, []))"
      using scan_digits_all [OF b, of 0] start dec(1) by (simp add: strtoull_def cu Let_def)
    with v show ?thesis by simp
  qed
qed

lemma number_value_literal:
  "lexeme TOK_INTEGER w \<Longrightarrow> isdigit (hd w) \<Longrightarrow>
   number_value w = (case literal_value w of
     Some v \<Rightarrow> if length w < 64 \<and> v < 2 ^ 32 then Some (of_nat v) else None | None \<Rightarrow> None)"
proof -
  assume w: "lexeme TOK_INTEGER w" "isdigit (hd w)"
  show ?thesis
  proof (cases "literal_value w")
    case None
    then show ?thesis using strtoull_literal [OF w] by (auto simp: number_value_def split: prod.split)
  next
    case (Some v)
    then have s: "strtoull w = (if v \<ge> 2 ^ 64 then (2 ^ 64 - 1, True, []) else (of_nat v, False, []))"
      using strtoull_literal [OF w] by simp
    have "number_value w = (if length w \<ge> 64 then None
        else if v \<ge> 2 ^ 64 then None else if (of_nat v :: u64) > 0xffffffff then None else Some (ucast (of_nat v :: u64)))"
      by (simp add: number_value_def s)
    then show ?thesis unfolding value_in_32_bits Some by simp
  qed
qed

lemma integer_first: "lexeme TOK_INTEGER w \<Longrightarrow> isdigit (hd w)"
  using punctuators_kind [of w TOK_INTEGER] by (auto simp: lexeme_def split: if_splits)

text \<open>A word of the language at the front of what is ahead, and followed by something that cannot
  continue it.\<close>

lemma number_word_eq:
  assumes "lexeme TOK_INTEGER (c # u)" "isdigit c" "rest = [] \<or> \<not> is_word_char (hd rest)"
  shows "number_word c (u @ rest) = c # u"
proof -
  have stop: "takeWhile P (v @ rest) = v" if "list_all P v" "\<And>x. P x \<Longrightarrow> is_word_char x" for P v
  proof -
    have "takeWhile P (v @ rest) = v @ takeWhile P rest" using that(1) by (auto simp: list_all_iff intro: takeWhile_append2)
    moreover have "takeWhile P rest = []" using that(2) assms(3) by (cases rest) auto
    ultimately show ?thesis by simp
  qed
  have word: "isdigit x \<Longrightarrow> is_word_char x" "isxdigit x \<Longrightarrow> is_word_char x" "x = 0x78 \<or> x = 0x58 \<Longrightarrow> is_word_char x" for x
    by (auto simp: is_word_char_def isalnum_def isxdigit_def word_le_nat_alt)
  from assms(1) consider "list_all isdigit u" | "c = 0x30" "hex_tail u" by (auto simp: lexeme_digit [OF assms(2)])
  then show ?thesis
  proof cases
    case 1
    then have "\<not> (u @ rest \<noteq> [] \<and> (hd (u @ rest) = 0x78 \<or> hd (u @ rest) = 0x58))"
      using assms(3) word(3) x_not_digit by (cases u) auto
    then show ?thesis using stop [OF 1 word(1)] by (auto simp: number_word_def)
  next
    case 2
    then obtain x h where "u = x # h" "x = 0x78 \<or> x = 0x58" "list_all isxdigit h" by (cases u) (auto simp: hex_tail_def)
    then show ?thesis using stop [of isxdigit h] word(2) 2(1) by (auto simp: number_word_def)
  qed
qed

lemma skip_layout_none:
  "ahead l = c # s \<Longrightarrow> \<not> isspace c \<Longrightarrow> \<not> (c = 0x2F \<and> s \<noteq> [] \<and> hd s \<in> {0x2F, 0x2A}) \<Longrightarrow>
   lexer_skip_layout l = (True, l, [])"
proof -
  assume a: "ahead l = c # s" and c: "\<not> isspace c" "\<not> (c = 0x2F \<and> s \<noteq> [] \<and> hd s \<in> {0x2F, 0x2A})"
  obtain ok l1 m where r: "lexer_skip_layout l = (ok, l1, m)" by (metis surj_pair)
  have "\<not> (lexer_peek l = 0x2F \<and> lexer_peek_next l \<in> {0x2F, 0x2A})"
    using a c(2) by (cases s) (auto simp: peek_ahead peek_next_ahead)
  with skip_layout_stop [OF r] c(1) a show ?thesis by (simp add: peek_ahead r)
qed

text \<open>C39: A number that is not glued to a word is read as one token, with the value C gives it.
  It is an invalid token exactly when it does not fit 32 bits, has 64 characters or more, or is an
  octal number with a digit 8 or 9.\<close>

theorem lexer_integer:
  "ahead l = w @ rest \<Longrightarrow> lexeme TOK_INTEGER w \<Longrightarrow> rest = [] \<or> \<not> is_word_char (hd rest) \<Longrightarrow>
   \<exists>token l'. lexer_next_token l = (token, l', []) \<and> ahead l' = rest \<and> token_text (lx_source l) token = w
     \<and> (case literal_value w of
          Some v \<Rightarrow> if length w < 64 \<and> v < 2 ^ 32 then tk_kind token = TOK_INTEGER \<and> unat (tk_integer_value token) = v
            else tk_kind token = TOK_INVALID
        | None \<Rightarrow> tk_kind token = TOK_INVALID)"
proof -
  assume a: "ahead l = w @ rest" and w: "lexeme TOK_INTEGER w"
    and rest: "rest = [] \<or> \<not> is_word_char (hd rest)"
  note d = integer_first [OF w]
  obtain c u where cu: "w = c # u" using w by (cases w) (auto simp: lexeme_def)
  have c: "isdigit c" and al: "ahead l = c # u @ rest" using d a cu by simp_all
  have nw: "number_word c (u @ rest) = w" using number_word_eq [of c u rest] w c rest cu by simp
  have e: "\<not> lexer_at_end l" "lx_offset l \<le> lx_length l" using ahead_Cons [OF al] by (simp_all add: lexer_at_end_def)
  have "lexer_skip_layout l = (True, l, [])"
    using skip_layout_none [OF al] digit_facts(4) [OF c] c by (cases "c = 0x2F") (auto simp: isdigit_def)
  moreover have "lex_token l = lex_number c (lx_offset l) (lx_line l) (lx_column l) (step_char l)"
    using digit_not_word [OF c] c ahead_Cons(3) [OF al]
    by (simp add: lex_token_def Let_def word_start_def case_prod_beta)
  moreover obtain l' where "lex_number c (lx_offset l) (lx_line l) (lx_column l) (step_char l) =
      ((make_token (if number_value w = None then TOK_INVALID else TOK_INTEGER) (Some (lx_offset l))
          (length w) (lx_line l) (lx_column l))\<lparr>tk_integer_value := (case number_value w of None \<Rightarrow> 0 | Some v \<Rightarrow> v)\<rparr>, l')"
    "ahead l = w @ ahead l'"
    using lex_number_eq [OF al c e(2), of "lx_line l" "lx_column l"] unfolding nw by blast
  moreover have "slice (lx_offset l) (length w) (lx_source l) = w" using a by (simp add: slice_def ahead_def)
  moreover have "unat (of_nat v :: u32) = v" if "v < 2 ^ 32" for v
    using that by (simp add: unat_of_nat take_bit_nat_eq_self)
  ultimately show ?thesis using e(1) a number_value_literal [OF w d]
    by (auto simp: lexer_next_token_def token_text_def split: option.split)
qed

section \<open>Reading back a list of tokens\<close>

lemma lexeme_kind: "lexeme k w \<Longrightarrow> lexeme k' w \<Longrightarrow> k = k'"
  by (auto simp: lexeme_def split: if_splits)

lemma blank_facts:
  "isspace c \<Longrightarrow> \<not> is_word_char c \<and> \<not> isdigit c \<and> \<not> isxdigit c \<and> c \<notin> {0x78, 0x58, 0x3E, 0x3D, 0x2F, 0x2A, 0x22}"
  by (auto simp: isspace_def is_word_char_def isalnum_def isdigit_def isxdigit_def word_le_nat_alt)

text \<open>A lexeme does not go on over a blank, except inside a string.\<close>

lemma lexeme_blank:
  assumes w: "lexeme k w" and v: "lexeme k' (w @ c # v)" and c: "isspace c"
  shows False
proof -
  note b = blank_facts [OF c]
  obtain d u where w': "w = d # u" using w by (cases w) (auto simp: lexeme_def)
  consider (word) "word_start d" | (digit) "isdigit d" | (quote) "d = 0x22"
    | (other) "\<not> word_start d" "\<not> isdigit d" "d \<noteq> 0x22" by blast
  then show False
  proof cases
    case word
    then show False using v b by (simp add: w' lexeme_word)
  next
    case digit
    have "list_all isdigit u \<or> hex_tail u" using w lexeme_digit [OF digit] by (auto simp: w')
    moreover have "hex_tail (u @ c # v)" using v b lexeme_digit [OF digit] by (auto simp: w')
    ultimately show False using b x_not_digit by (cases u) (auto simp: hex_tail_def)
  next
    case quote
    obtain b1 where "u = b1 @ [0x22]" "string_body False b1" using w by (auto simp: w' quote lexeme_quote)
    moreover from this obtain b2 where "b1 @ 0x22 # c # v = b2 @ [0x22]" "string_body False b2"
      using v by (auto simp: w' quote lexeme_quote)
    ultimately show False using string_body_unique by blast
  next
    case other
    then show False using v b
      by (cases u; cases "tl u") (auto simp: w' lexeme_punctuator punctuators_more split: if_splits)
  qed
qed

lemma skip_string_body: "ahead l = b @ 0x22 # r \<Longrightarrow> string_body e b \<Longrightarrow> fst (skip_string e l)"
proof (induction b arbitrary: e l)
  case Nil
  then show ?case using skip_string_Cons [of l "0x22" r] by simp
next
  case (Cons c b)
  from Cons.prems have a: "ahead l = c # b @ 0x22 # r" by simp
  have "fst (skip_string (\<not> e \<and> c = 0x5C) (step_char l))"
    using Cons.IH [of "step_char l" "\<not> e \<and> c = 0x5C"] Cons.prems by simp
  then show ?case using skip_string_Cons [OF a, of e] Cons.prems(2) by auto
qed

text \<open>A token that reads back is one whose value fits, if it is a number.\<close>

definition printable :: "token_kind_t \<times> bytes \<Rightarrow> bool" where
  "printable kw \<longleftrightarrow> lexeme (fst kw) (snd kw) \<and> (fst kw = TOK_INTEGER \<longrightarrow>
     length (snd kw) < 64 \<and> (\<exists>v < 2 ^ 32. literal_value (snd kw) = Some v))"

lemma printable_valid:
  assumes a: "ahead l = w @ c # rest" and p: "printable (k, w)" and c: "isspace c"
  shows "tk_kind (fst (lex_token l)) \<noteq> TOK_INVALID"
proof -
  have w: "lexeme k w" using p by (simp add: printable_def)
  obtain d u where w': "w = d # u" using w by (cases w) (auto simp: lexeme_def)
  have al: "ahead l = d # u @ c # rest" using a w' by simp
  have o: "lx_offset l \<le> lx_length l" using ahead_Cons(4) [OF al] by simp
  note f = ahead_Cons [OF al] and b = blank_facts [OF c]
  consider (word) "word_start d" | (digit) "isdigit d" | (quote) "d = 0x22"
    | (other) "\<not> word_start d" "\<not> isdigit d" "d \<noteq> 0x22" by blast
  then show ?thesis
  proof cases
    case word
    then show ?thesis using f(3) by (simp add: lex_token_def Let_def word_start_def case_prod_beta)
  next
    case digit
    then have k: "k = TOK_INTEGER" using w by (simp add: w' lexeme_digit)
    have "number_word d (u @ c # rest) = w"
      using number_word_eq [of d u "c # rest"] w digit b by (simp add: w' k)
    moreover have "number_value w \<noteq> None"
      using number_value_literal [of w] w digit p by (auto simp: k w' printable_def)
    ultimately show ?thesis
      using lex_number_eq [OF al digit o, of "lx_line l" "lx_column l"] f(3) digit_not_word [OF digit] digit
      by (auto simp: lex_token_def Let_def word_start_def case_prod_beta)
  next
    case quote
    obtain b1 where "u = b1 @ [0x22]" "string_body False b1" using w by (auto simp: w' quote lexeme_quote)
    then have "fst (skip_string False (step_char l))" using skip_string_body [of "step_char l" b1 "c # rest"] al by simp
    then show ?thesis using f(3) quote by (simp add: lex_token_def Let_def case_prod_beta isalpha_def isdigit_def)
  next
    case other
    then have m: "map_of punctuators w = Some k" using w by (simp add: w' lexeme_punctuator)
    note short = punctuators_kind [OF m]
    show ?thesis
    proof (cases u)
      case Nil
      then show ?thesis using m short b unfolding lex_token_other [OF al other] punctuator_token_def
        by (simp add: w' punctuators_more Let_def)
    next
      case (Cons e u')
      then have "take 2 (d # u @ c # rest) = w" using short by (simp add: w')
      then show ?thesis using m short unfolding lex_token_other [OF al other] punctuator_token_def
        by (simp add: Let_def)
    qed
  qed
qed

lemma lex_printed:
  assumes a: "ahead l = w @ c # rest" and p: "printable (k, w)" and c: "isspace c"
  obtains t l' where "lexer_next_token l = (t, l', [])" "tk_kind t = k" "ahead l' = c # rest" "lx_source l' = lx_source l"
    "token_text (lx_source l) t = (if k = TOK_STRING then butlast (tl w) else w)"
proof -
  have w: "lexeme k w" using p by (simp add: printable_def)
  obtain d u where w': "w = d # u" using w by (cases w) (auto simp: lexeme_def)
  have al: "ahead l = d # u @ c # rest" using a w' by simp
  note f = ahead_Cons [OF al] and b = blank_facts [OF c]
  have nospace: "\<not> isspace d"
  proof
    assume "isspace d"
    from blank_facts [OF this] have "\<not> word_start d" "\<not> isdigit d" "d \<noteq> 0x22" "d \<notin> {0x78, 0x58, 0x3E, 0x3D, 0x2F, 0x2A}"
      by (auto simp: word_start_def is_word_char_def isalnum_alt)
    with w \<open>isspace d\<close> show False
      by (cases u) (auto simp: w' lexeme_punctuator punctuators_one punctuators_more single_token_def isspace_def
          split: if_splits option.splits)
  qed
  have nocomment: "\<not> (d = 0x2F \<and> u @ c # rest \<noteq> [] \<and> hd (u @ c # rest) \<in> {0x2F, 0x2A})"
  proof
    assume d: "d = 0x2F \<and> u @ c # rest \<noteq> [] \<and> hd (u @ c # rest) \<in> {0x2F, 0x2A}"
    then have "u \<noteq> []" using b by auto
    moreover have "map_of punctuators (d # u) = Some k"
      using w d lexeme_punctuator [of d k u] by (simp add: w' word_start_def isalpha_def isdigit_def)
    ultimately show False using d by (cases u) (auto simp: punctuators_more split: if_splits)
  qed
  obtain t l' where r: "lex_token l = (t, l')" by (metis surj_pair)
  have n: "lexer_next_token l = (t, l', [])"
    using skip_layout_none [OF al nospace nocomment] f(1) r by (simp add: lexer_next_token_def)
  have read: "token_read l (t, l')" using lex_token_read [OF f(1)] r by simp
  have "tk_kind t \<noteq> TOK_INVALID" using printable_valid [OF a p c] r by simp
  from token_read_text [OF read this] obtain v where v: "ahead l = v @ ahead l'" "lexeme (tk_kind t) v"
    "longest v (ahead l')" "token_text (lx_source l) t = (if tk_kind t = TOK_STRING then butlast (tl v) else v)"
    by metis
  have "w = v"
  proof -
    from a v(1) have "w @ c # rest = v @ ahead l'" by simp
    then consider x where "w = v @ x" "ahead l' = x @ c # rest" | ys where "v = w @ c # ys"
      by (auto simp: append_eq_append_conv2 Cons_eq_append_conv)
    then show ?thesis
    proof cases
      case 1
      then show ?thesis using v(3) w unfolding longest_def by (metis append_Nil2)
    next
      case 2
      then show ?thesis using lexeme_blank [OF w _ c] v(2) by blast
    qed
  qed
  moreover from this have "tk_kind t = k" using lexeme_kind v(2) w by blast
  moreover have "lx_source l' = lx_source l"
    using lexer_within.next_token [of "lx_source l" 0 l] n f(4) by (simp add: within_def)
  ultimately show ?thesis using that [OF n] v a by simp
qed

definition printed :: "u8 \<Rightarrow> (token_kind_t \<times> bytes) list \<Rightarrow> bytes" where
  "printed sep items = concat (map (\<lambda>kw. snd kw @ [sep]) items)"

definition read_back :: "bytes \<Rightarrow> token_t list \<Rightarrow> (token_kind_t \<times> bytes) list" where
  "read_back source = map (\<lambda>t. (tk_kind t, token_text source t))"

lemma tokens_blank:
  assumes "ahead l = c # s" "isspace c"
  shows "tokens l = tokens (step_char l)"
proof -
  have "lexer_skip_layout l = lexer_skip_layout (step_char l)"
    using assms by (subst lexer_skip_layout.simps) (simp add: peek_ahead)
  then have "lexer_next_token l = lexer_next_token (step_char l)" by (simp add: lexer_next_token_def)
  then show ?thesis by (subst (1 2) tokens.simps) simp
qed

lemma tokens_printed:
  "isspace sep \<Longrightarrow> list_all printable items \<Longrightarrow> ahead l = printed sep items \<Longrightarrow>
   read_back (lx_source l) (tokens l)
     = map (\<lambda>(k, w). (k, if k = TOK_STRING then butlast (tl w) else w)) items @ [(TOK_EOF, [])]"
proof (induction items arbitrary: l)
  case Nil
  then have "lexer_at_end l" by (simp add: at_end_ahead printed_def)
  then show ?case
    by (subst tokens.simps) (simp add: lexer_next_token_def skip_layout_end read_back_def token_text_def slice_def)
next
  case (Cons kw items)
  obtain k w where kw: "kw = (k, w)" by (cases kw)
  have p: "printable (k, w)" "ahead l = w @ sep # printed sep items" "k \<notin> {TOK_EOF, TOK_INVALID}"
    using Cons.prems punctuators_kind [of w k]
    by (auto simp: kw printed_def printable_def lexeme_def split: if_splits)
  from lex_printed [OF p(2,1) Cons.prems(1)] obtain t l' where t: "lexer_next_token l = (t, l', [])"
    "tk_kind t = k" "ahead l' = sep # printed sep items" "lx_source l' = lx_source l"
    "token_text (lx_source l) t = (if k = TOK_STRING then butlast (tl w) else w)" by metis
  have "tokens l = t # tokens (step_char l')"
    using t p(3) tokens_blank [OF t(3) Cons.prems(1)] by (subst tokens.simps) simp
  moreover have "ahead (step_char l') = printed sep items" using t(3) by simp
  ultimately show ?case using Cons.IH [OF Cons.prems(1), of "step_char l'"] Cons.prems(2) t
    by (simp add: kw read_back_def)
qed

text \<open>C37: Printing words of the language, each followed by a blank, and reading the result gives back
  exactly those words with their kinds, and then the end of the file.\<close>

theorem lexer_reads_back:
  "isspace sep \<Longrightarrow> list_all printable items \<Longrightarrow>
   read_back (printed sep items) (tokens (start_lexer path (printed sep items)))
     = map (\<lambda>(k, w). (k, if k = TOK_STRING then butlast (tl w) else w)) items @ [(TOK_EOF, [])]"
  using tokens_printed [of sep items "start_lexer path (printed sep items)"]
  by (simp add: start_lexer_def ahead_def)

section \<open>The first error\<close>

lemma next_token_valid: "lexer_next_token l = (t, l', msg) \<Longrightarrow> tk_kind t \<noteq> TOK_INVALID \<Longrightarrow> msg = []"
  using skip_layout_message [of l]
  by (cases "lexer_skip_layout l") (auto simp: lexer_next_token_def case_prod_beta split: if_splits)

text \<open>A failed parser.\<close>

definition stuck :: "parser_t \<Rightarrow> bool" where
  "stuck p \<longleftrightarrow> (\<forall>m. parser_error p m = p) \<and> parser_advance p = p
     \<and> (\<forall>kind d. parser_expect_kind p kind d = (False, p)) \<and> (\<forall>w. parser_expect_word p w = (False, p))"

lemma failed_stuck: "ps_failed p \<Longrightarrow> stuck p"
  by (simp add: stuck_def parser_error_def parser_advance_def parser_expect_kind_def parser_expect_word_def)

text \<open>The start of every message of the parser: the file, the line and the column.\<close>

definition error_at :: "parser_t \<Rightarrow> token_t \<Rightarrow> string" where
  "error_at p t = chars (lx_path (ps_lexer p)) @ '':'' @ dec_string (tk_line t) @ '':'' @ dec_string (tk_column t) @ '': error: ''"

lemma parser_error_message:
  "\<not> ps_failed p \<Longrightarrow> \<exists>text. ps_err (parser_error p m) = ps_err p @ error_at p (ps_current p) @ m @ text
     \<and> ps_failed (parser_error p m)"
  by (simp add: parser_error_def error_at_def Let_def)

interpretation lexer_path: lexer_invariant "\<lambda>l. lx_path l = path" for path
  by unfold_locales simp

text \<open>C40: Expecting a token succeeds exactly when the current token has that kind and the next one is
  valid; then the parser has moved on without a message. Otherwise it has failed with the position of
  the offending token, and nothing it is asked later changes it or adds a second message.\<close>

theorem parser_expects:
  "\<not> ps_failed p \<Longrightarrow> lexer_next_token (ps_lexer p) = (t, l, msg) \<Longrightarrow> parser_expect_kind p kind d = (ok, p') \<Longrightarrow>
   (ok \<longleftrightarrow> tk_kind (ps_current p) = kind \<and> tk_kind t \<noteq> TOK_INVALID) \<and> (ps_failed p' \<longleftrightarrow> \<not> ok)
   \<and> (if ok then ps_current p' = t \<and> ps_lexer p' = l \<and> ps_err p' = ps_err p
      else (\<exists>text. ps_err p' = ps_err p @ (if tk_kind (ps_current p) = kind then msg @ error_at p t
          else error_at p (ps_current p)) @ text) \<and> stuck p')"
proof -
  assume p: "\<not> ps_failed p" and n: "lexer_next_token (ps_lexer p) = (t, l, msg)" and r: "parser_expect_kind p kind d = (ok, p')"
  show ?thesis
  proof (cases "tk_kind (ps_current p) = kind")
    case False
    then have "\<not> ok" "p' = parser_error p (snprintf 160 (''expected '' @ d @ '', found '' @ token_kind_name (tk_kind (ps_current p))))"
      using r by (auto simp: parser_expect_kind_def)
    then show ?thesis
      using parser_error_message [OF p, of "snprintf 160 (''expected '' @ d @ '', found '' @ token_kind_name (tk_kind (ps_current p)))"]
        failed_stuck [of p'] False by auto
  next
    case kind: True
    let ?q = "p\<lparr>ps_lexer := l, ps_current := t, ps_err := ps_err p @ msg\<rparr>"
    have path: "lx_path l = lx_path (ps_lexer p)"
      using lexer_path.next_token [of "ps_lexer p"] n by simp
    have adv: "parser_advance p = (if tk_kind t = TOK_INVALID then parser_error ?q ''invalid token'' else ?q)"
      using p n by (simp add: parser_advance_def Let_def)
    have p': "p' = parser_advance p" "ok \<longleftrightarrow> \<not> ps_failed p'" using r kind by (auto simp: parser_expect_kind_def Let_def)
    show ?thesis
    proof (cases "tk_kind t = TOK_INVALID")
      case True
      obtain text' where "ps_err p' = ps_err ?q @ error_at ?q (ps_current ?q) @ ''invalid token'' @ text'" "ps_failed p'"
        using parser_error_message [of ?q "''invalid token''"] p True p'(1) adv by auto
      then show ?thesis using True kind p' failed_stuck [of p'] path by (auto simp: error_at_def)
    next
      case False
      then show ?thesis using p p' adv kind next_token_valid [OF n] by simp
    qed
  qed
qed

section \<open>Command line\<close>

lemma last_index_append: "c \<notin> set b \<Longrightarrow> last_index c (a @ b) = last_index c a"
  by (auto simp: last_index_def) (subst takeWhile_append2; auto)

lemma last_index_snoc: "last_index c (a @ [c]) = Some (length a)"
  by (simp add: last_index_def)

lemma last_index_none: "c \<notin> set a \<Longrightarrow> last_index c a = None"
  by (simp add: last_index_def)

lemma last_index_less: "last_index c a = Some i \<Longrightarrow> i < length a"
  by (cases a) (auto simp: last_index_def split: if_splits)

text \<open>A path in its parts: the directory with its separator, the stem, and the extension.\<close>

definition plain_path :: "bytes \<Rightarrow> bytes \<Rightarrow> bytes \<Rightarrow> bool" where
  "plain_path dir stem ext \<longleftrightarrow> (dir = [] \<or> last dir \<in> {0x2F, 0x5C}) \<and> stem \<noteq> [] \<and> hd (dir @ stem) \<noteq> 0x2D
     \<and> set stem \<inter> {0x2F, 0x5C} = {} \<and> set ext \<inter> {0x2E, 0x2F, 0x5C} = {}"

lemma default_output_path:
  assumes p: "plain_path dir stem ext"
  shows "make_default_output_path (dir @ stem @ 0x2E # ext) suffix n
    = (if length dir + length stem + length suffix + 1 > n then None else Some (dir @ stem @ suffix))"
proof -
  let ?file = "stem @ 0x2E # ext"
  have sep: "last_index c (dir @ ?file) = last_index c dir" if "c = 0x2F \<or> c = 0x5C" for c
    using that p by (intro last_index_append) (auto simp: plain_path_def)
  have base: "(if last_index 0x2F dir \<noteq> None \<and> (last_index 0x5C dir = None \<or> the (last_index 0x2F dir) > the (last_index 0x5C dir))
      then the (last_index 0x2F dir) + 1
      else if last_index 0x5C dir \<noteq> None then the (last_index 0x5C dir) + 1 else 0) = length dir"
  proof (cases dir rule: rev_cases)
    case Nil
    then show ?thesis by (simp add: last_index_none)
  next
    case (snoc d c)
    then consider "c = 0x2F" | "c = 0x5C" using p by (auto simp: plain_path_def)
    then show ?thesis
    proof cases
      case 1
      then have "last_index 0x5C dir = last_index 0x5C d" using snoc by (simp add: last_index_append)
      then show ?thesis using 1 snoc last_index_less [of "0x5C" d] by (cases "last_index 0x5C d") (auto simp: last_index_snoc)
    next
      case 2
      then have "last_index 0x2F dir = last_index 0x2F d" using snoc by (simp add: last_index_append)
      then show ?thesis using 2 snoc last_index_less [of "0x2F" d] by (cases "last_index 0x2F d") (auto simp: last_index_snoc)
    qed
  qed
  have "last_index 0x2E ((stem @ [0x2E]) @ ext) = last_index 0x2E (stem @ [0x2E])"
    using p by (intro last_index_append) (auto simp: plain_path_def)
  then have dot: "last_index 0x2E (drop (length dir) (dir @ ?file)) = Some (length stem)"
    by (simp add: last_index_snoc)
  have "length stem \<noteq> 0" using p by (simp add: plain_path_def)
  then show ?thesis unfolding make_default_output_path_def Let_def
    by (simp only: sep simp_thms base dot option.case if_False) simp
qed

definition mode_suffix :: "output_mode_t \<Rightarrow> bytes" where
  "mode_suffix mode = (case mode of MODE_ASSEMBLY \<Rightarrow> char_bytes ''.s'' | MODE_OBJECT \<Rightarrow> char_bytes ''.o''
     | MODE_LINK \<Rightarrow> char_bytes ''.bin'')"

text \<open>The arguments that ask for a mode.\<close>

definition mode_args :: "bool \<Rightarrow> output_mode_t \<Rightarrow> bytes list" where
  "mode_args verbose mode = (if verbose then [char_bytes ''-v''] else [])
     @ (case mode of MODE_LINK \<Rightarrow> [] | MODE_ASSEMBLY \<Rightarrow> [char_bytes ''-S''] | MODE_OBJECT \<Rightarrow> [char_bytes ''-c''])"

lemma parse_plain_arg:
  assumes "arg \<noteq> []" "hd arg \<noteq> 0x2D" "cc_input_path opt = None"
  shows "cc_parse_args prog [arg] S c opt = Inr (S, c, opt\<lparr>cc_input_path := Some arg\<rparr>)"
proof -
  have "arg \<noteq> char_bytes (CHR ''-'' # s)" for s using assms(2) by (auto simp: char_bytes_def)
  then show ?thesis using assms by simp
qed

lemma parse_flags:
  "cc_parse_args prog (char_bytes ''-v'' # args) S c opt = cc_parse_args prog args S c (opt\<lparr>cc_verbose := True\<rparr>)"
  "cc_parse_args prog (char_bytes ''-S'' # args) S c opt = cc_parse_args prog args True c (opt\<lparr>cc_mode := MODE_ASSEMBLY\<rparr>)"
  "cc_parse_args prog (char_bytes ''-c'' # args) S c opt = cc_parse_args prog args S True (opt\<lparr>cc_mode := MODE_OBJECT\<rparr>)"
  by (simp_all add: char_bytes_def)

lemma parse_mode_args:
  assumes "arg \<noteq> []" "hd arg \<noteq> 0x2D"
  shows "cc_parse_args prog (mode_args verbose mode @ [arg]) False False \<lparr>cc_input_path = None, cc_output_path = None,
      cc_mode = MODE_LINK, cc_verbose = False\<rparr>
    = Inr (mode = MODE_ASSEMBLY, mode = MODE_OBJECT, \<lparr>cc_input_path = Some arg, cc_output_path = None,
        cc_mode = mode, cc_verbose = verbose\<rparr>)"
  using parse_plain_arg [OF assms]
  by (cases verbose; cases mode) (simp_all add: mode_args_def parse_flags del: cc_parse_args.simps)

text \<open>A command line of the mode flags and one source file is accepted with that mode, and the
  output goes next to the source, with the suffix of the mode in place of the source's extension; the
  only failure is an output path that does not fit its buffer.\<close>

theorem cc_default_output:
  "plain_path dir stem ext \<Longrightarrow>
   cc_parse_options prog (mode_args verbose mode @ [dir @ stem @ 0x2E # ext]) n
     = (if length (dir @ stem @ mode_suffix mode) + 1 > n then Inl (cc_bad ''output path is too long'')
        else Inr \<lparr>cc_input_path = Some (dir @ stem @ 0x2E # ext), cc_output_path = Some (dir @ stem @ mode_suffix mode),
          cc_mode = mode, cc_verbose = verbose\<rparr>)"
proof -
  assume p: "plain_path dir stem ext"
  have "hd (dir @ stem @ 0x2E # ext) = hd (dir @ stem)" using p by (cases dir) (auto simp: plain_path_def hd_append)
  then have "dir @ stem @ 0x2E # ext \<noteq> []" "hd (dir @ stem @ 0x2E # ext) \<noteq> 0x2D" using p by (auto simp: plain_path_def)
  note args = parse_mode_args [OF this, of prog verbose mode]
  note out = default_output_path [OF p, of "mode_suffix mode" n]
  show ?thesis unfolding cc_parse_options_def args
    by (cases mode) (use out in \<open>simp_all add: mode_suffix_def\<close>)
qed

section \<open>Witnesses\<close>

text \<open>Two tokens of a small source.\<close>

definition small_source :: bytes where
  "small_source = printed 0x20 [(TOK_INTEGER, char_bytes ''42''), (TOK_LE, char_bytes ''<='')]"

lemma small_printable:
  "list_all printable [(TOK_INTEGER, char_bytes ''42''), (TOK_LE, char_bytes ''<='')]"
  by (simp add: printable_def lexeme_def literal_value_def digits_value_def char_bytes_def word_start_def
      isalpha_def isdigit_def hex_tail_def digit_value_def punctuators_def)

lemma blank_space: "isspace 0x20"
  by (simp add: isspace_def)

lemma lexer_reads_back_witness:
  "read_back small_source (tokens (start_lexer [0x61] small_source))
     = [(TOK_INTEGER, char_bytes ''42''), (TOK_LE, char_bytes ''<=''), (TOK_EOF, [])]"
  using lexer_reads_back [OF blank_space small_printable, of "[0x61]"] by (simp add: small_source_def)

lemma small_first:
  "\<exists>t l'. lexer_next_token (start_lexer [0x61] small_source) = (t, l', []) \<and> tk_kind t = TOK_INTEGER"
proof -
  have "ahead (start_lexer [0x61] small_source) = char_bytes ''42'' @ 0x20 # printed 0x20 [(TOK_LE, char_bytes ''<='')]"
    by (simp add: start_lexer_def ahead_def small_source_def printed_def)
  moreover have "printable (TOK_INTEGER, char_bytes ''42'')" using small_printable by simp
  ultimately show ?thesis using blank_space lex_printed by metis
qed

lemma start_inside: "lx_offset (start_lexer path source) \<le> lx_length (start_lexer path source)"
  by (simp add: start_lexer_def)

lemma lexer_reads_witness:
  "\<exists>t l' gap w. lexer_next_token (start_lexer [0x61] small_source) = (t, l', []) \<and> lexeme TOK_INTEGER w
     \<and> small_source = gap @ w @ ahead l' \<and> longest w (ahead l')"
proof -
  obtain t l' where n: "lexer_next_token (start_lexer [0x61] small_source) = (t, l', [])" "tk_kind t = TOK_INTEGER"
    using small_first by blast
  have "ahead (start_lexer [0x61] small_source) = small_source" by (simp add: start_lexer_def ahead_def)
  moreover obtain gap w where "ahead (start_lexer [0x61] small_source) = gap @ w @ ahead l'"
    "lexeme TOK_INTEGER w" "longest w (ahead l')"
    using lexer_reads [OF n(1) start_inside] unfolding n(2) by blast
  ultimately show ?thesis using n(1) by metis
qed

lemma lexer_span_witness:
  "\<exists>t l'. lexer_next_token (start_lexer [0x61] small_source) = (t, l', []) \<and> 0 < lx_offset l'
     \<and> lx_offset l' \<le> length small_source"
proof -
  obtain t l' where n: "lexer_next_token (start_lexer [0x61] small_source) = (t, l', [])" "tk_kind t = TOK_INTEGER"
    using small_first by blast
  from lexer_span [OF n(1) start_inside] n(2) have "lx_offset (start_lexer [0x61] small_source) < lx_offset l'"
    "lx_offset l' \<le> lx_length (start_lexer [0x61] small_source)" by simp_all
  then have "0 < lx_offset l'" "lx_offset l' \<le> length small_source" by (simp_all add: start_lexer_def)
  with n show ?thesis by blast
qed

lemma lexer_tokens_witness:
  "\<exists>ts t. tokens (start_lexer [0x61] small_source) = ts @ [t] \<and> tk_kind t \<in> {TOK_EOF, TOK_INVALID}
     \<and> length ts \<le> length small_source"
  using lexer_tokens [of "[0x61]" small_source] by metis

lemma lexer_integer_witness:
  "\<exists>token l'. lexer_next_token (start_lexer [0x61] (char_bytes ''0x1F;'')) = (token, l', [])
     \<and> tk_kind token = TOK_INTEGER \<and> unat (tk_integer_value token) = 31"
proof -
  let ?w = "char_bytes ''0x1F''"
  have w: "lexeme TOK_INTEGER ?w" "literal_value ?w = Some 31" "length ?w = 4"
    by (simp_all add: lexeme_def literal_value_def digits_value_def char_bytes_def word_start_def
        isalpha_def isdigit_def hex_tail_def digit_value_def isxdigit_def toupper_def)
  have "ahead (start_lexer [0x61] (char_bytes ''0x1F;'')) = ?w @ [0x3B]"
    by (simp add: start_lexer_def ahead_def char_bytes_def)
  from lexer_integer [OF this w(1)] w(2,3) show ?thesis
    by (auto simp: is_word_char_def isalnum_def isdigit_def)
qed

lemma parser_expects_witness:
  "\<exists>p p'. ps_lexer p = start_lexer [0x61] small_source \<and> parser_expect_kind p TOK_LPAREN ''('' = (True, p')
     \<and> tk_kind (ps_current p') = TOK_INTEGER \<and> \<not> ps_failed p'"
proof -
  let ?p = "\<lparr>ps_lexer = start_lexer [0x61] small_source, ps_current = make_token TOK_LPAREN None 0 1 1,
    ps_failed = False, ps_loop_depth = 0, ps_err = []\<rparr>"
  obtain t l' where n: "lexer_next_token (ps_lexer ?p) = (t, l', [])" "tk_kind t = TOK_INTEGER"
    using small_first by auto
  obtain ok p' where r: "parser_expect_kind ?p TOK_LPAREN ''('' = (ok, p')" by (metis surj_pair)
  from parser_expects [OF _ n(1) r] n(2) have "ok" "ps_current p' = t" "\<not> ps_failed p'" by auto
  with r n(2) show ?thesis by - (rule exI [of _ ?p], rule exI [of _ p'], simp)
qed

lemma cc_default_output_witness:
  "cc_parse_options [] (mode_args True MODE_OBJECT @ [char_bytes ''lib/'' @ char_bytes ''crc'' @ 0x2E # char_bytes ''c'']) 1024
     = Inr \<lparr>cc_input_path = Some (char_bytes ''lib/'' @ char_bytes ''crc'' @ 0x2E # char_bytes ''c''),
         cc_output_path = Some (char_bytes ''lib/'' @ char_bytes ''crc'' @ char_bytes ''.o''),
         cc_mode = MODE_OBJECT, cc_verbose = True\<rparr>"
  using cc_default_output [of "char_bytes ''lib/''" "char_bytes ''crc''" "char_bytes ''c''" "[]" True MODE_OBJECT 1024]
  by (simp add: plain_path_def char_bytes_def mode_suffix_def)

section \<open>A weakness\<close>

text \<open>The source \<open>/*/\<close> is taken for a whole comment: the check for the end looks at the last two
  characters, and the star may be the one that opened the comment.\<close>

lemma lexer_accepts_open_comment:
  "tk_kind (fst (lexer_next_token (start_lexer path [0x2F, 0x2A, 0x2F]))) = TOK_EOF"
proof -
  let ?l = "start_lexer path [0x2F, 0x2A, 0x2F]"
  have a: "ahead ?l = [0x2F, 0x2A, 0x2F]" by (simp add: start_lexer_def ahead_def)
  have s: "skip_block (step_char (step_char ?l)) = step_char (step_char (step_char ?l))"
    using a by (subst skip_block_Cons [of _ "0x2F" "[]"]) (simp_all add: skip_block_Nil)
  have e: "lexer_at_end (step_char (step_char (step_char ?l)))" using a by (simp add: at_end_ahead)
  have n: "\<not> lexer_at_end ?l" "\<not> lexer_at_end (step_char ?l)" "\<not> lexer_at_end (step_char (step_char ?l))"
    using a by (simp_all add: at_end_ahead)
  have "lexer_skip_layout ?l = (True, step_char (step_char (step_char ?l)), [])"
    using a s e n skip_layout_end [OF e]
    by (subst lexer_skip_layout.simps)
      (simp add: peek_ahead peek_next_ahead isspace_def Let_def start_lexer_def)
  then show ?thesis using e by (simp add: lexer_next_token_def)
qed

end
