(* ===== verification/T32_Ast.thy ===== *)
theory T32_Ast
  imports T32_Lexer
begin

text \<open>
  The data of the compiler \<open>toolchain/t32-cc/src/t32-cc.c\<close>: expressions as tables of nodes,
  statements, local variables, struct types, functions. An array with its counter is a list; the
  index of a node is its place in the table. A name is its bytes without the NUL. The index -1 of
  the source is \<open>None\<close>.
\<close>

section \<open>Expressions\<close>

datatype operand_kind_t = OPERAND_INTEGER | OPERAND_LOCAL

record operand_t =
  op_kind :: operand_kind_t
  op_value :: u32

datatype expression_kind_t =
    EXPR_OPERAND | EXPR_BINARY | EXPR_CALL | EXPR_STRING | EXPR_ADDRESS_OF | EXPR_DEREF
  | EXPR_ARRAY_SUBSCRIPT | EXPR_STRUCT_MEMBER

abbreviation (input) "MAX_EXPRESSION_NODES \<equiv> 64 :: nat"

record expression_node_t =
  nd_kind :: expression_kind_t
  nd_operand :: operand_t
  nd_operator_kind :: token_kind_t
  nd_left :: nat
  nd_right :: nat
  nd_call_name :: bytes
  nd_call_args :: "nat list"
  nd_string_id :: u32
  nd_string_value :: bytes
  nd_local_index :: nat
  nd_child :: nat
  nd_byte_access :: bool
  nd_pointer_scale :: u32
  nd_array_local :: nat
  nd_member_offset :: u32

text \<open>The node after \<open>memset\<close>.\<close>

definition zero_node :: expression_node_t where
  "zero_node = \<lparr>nd_kind = EXPR_OPERAND, nd_operand = \<lparr>op_kind = OPERAND_INTEGER, op_value = 0\<rparr>,
     nd_operator_kind = TOK_EOF, nd_left = 0, nd_right = 0, nd_call_name = [], nd_call_args = [],
     nd_string_id = 0, nd_string_value = [], nd_local_index = 0, nd_child = 0, nd_byte_access = False,
     nd_pointer_scale = 0, nd_array_local = 0, nd_member_offset = 0\<rparr>"

record expression_t =
  ex_nodes :: "expression_node_t list"
  ex_root :: "nat option"

definition zero_expression :: expression_t where
  "zero_expression = \<lparr>ex_nodes = [], ex_root = Some 0\<rparr>"

section \<open>Functions\<close>

abbreviation (input) "MAX_LOCALS \<equiv> 16 :: nat"

record local_t =
  lc_name :: bytes
  lc_has_initializer :: bool
  lc_is_parameter :: bool
  lc_parameter_index :: nat
  lc_is_pointer :: bool
  lc_is_char :: bool
  lc_is_array :: bool
  lc_array_length :: u32
  lc_offset :: u32
  lc_storage_size :: u32
  lc_is_struct :: bool
  lc_struct_index :: "nat option"
  lc_initializer :: expression_t

abbreviation (input) "MAX_STRUCTS \<equiv> 16 :: nat"
abbreviation (input) "MAX_STRUCT_MEMBERS \<equiv> 32 :: nat"

record struct_member_t =
  sm_name :: bytes
  sm_is_char :: bool
  sm_offset :: u32
  sm_size :: u32

record struct_def_t =
  sd_name :: bytes
  sd_members :: "struct_member_t list"
  sd_size :: u32

section \<open>Statements and programs\<close>

abbreviation (input) "MAX_STATEMENTS \<equiv> 64 :: nat"

datatype statement_kind_t =
    STMT_ASSIGN | STMT_IF | STMT_WHILE | STMT_FOR | STMT_BREAK | STMT_CONTINUE | STMT_RETURN
  | STMT_EXPR | STMT_STORE_INDIRECT | STMT_STORE_ARRAY | STMT_STORE_MEMBER

record statement_t =
  st_kind :: statement_kind_t
  st_expression :: expression_t
  st_for_init :: expression_t
  st_for_update :: expression_t
  st_target_local :: "nat option"
  st_pointer_local :: "nat option"
  st_array_local :: "nat option"
  st_array_index :: expression_t
  st_member_local :: "nat option"
  st_member_offset :: u32
  st_member_is_char :: bool
  st_member_through_pointer :: bool
  st_for_init_local :: "nat option"
  st_for_update_local :: "nat option"
  st_then_first :: "nat option"
  st_else_first :: "nat option"
  st_next :: "nat option"

record program_t =
  pr_function_name :: bytes
  pr_is_main :: bool
  pr_parameter_count :: nat
  pr_locals :: "local_t list"
  pr_statements :: "statement_t list"
  pr_first_statement :: "nat option"
  pr_has_explicit_return :: bool
  pr_return_expression :: expression_t
  pr_frame_bytes :: u32

end
