(* ===== verification/T32_Asm.thy ===== *)
theory T32_Asm
  imports T32_Format
begin

text \<open>
  The assembly language that \<open>toolchain/t32-cc/src/t32-cc.c\<close> writes: one constructor for each form of
  line, and \<open>render\<close>, its text as the \<open>fprintf\<close> calls of the source write it. What the lines mean is
  in \<open>T32_Asm_Exec\<close>.
\<close>

section \<open>Assembly lines\<close>

datatype alu = AL_add | AL_sub | AL_mul | AL_div | AL_xor | AL_and | AL_or | AL_shr

text \<open>The flag of a load or store says that it is of a byte. The last two constructors are a comment
  line and any other text: directives, data and blank lines.\<close>

datatype asm_line =
    Alu alu nat nat nat
  | Invert nat nat
  | Move nat nat
  | Movi nat u32
  | Movi_string nat u32
  | Load bool nat nat
  | Store bool nat nat
  | Call string
  | Addi nat nat u32
  | Subi nat nat u32
  | Jump string
  | Jump_zero nat string
  | Ret
  | Label string
  | Comment string
  | Verbatim string

fun alu_name :: "alu \<Rightarrow> string" where
  "alu_name AL_add = ''add ''" | "alu_name AL_sub = ''sub ''" | "alu_name AL_mul = ''mul ''"
| "alu_name AL_div = ''div ''" | "alu_name AL_xor = ''xor ''" | "alu_name AL_and = ''and ''"
| "alu_name AL_or = ''or  ''" | "alu_name AL_shr = ''shr ''"

definition reg_name :: "nat \<Rightarrow> string" where
  "reg_name r = ''r'' @ dec_string r"

fun render :: "asm_line \<Rightarrow> string" where
  "render (Alu op d a b) = ''    '' @ alu_name op @ '' '' @ reg_name d @ '', '' @ reg_name a @ '', '' @ reg_name b @ newline"
| "render (Invert d a) = ''    not  '' @ reg_name d @ '', '' @ reg_name a @ newline"
| "render (Move d a) = ''    mov  '' @ reg_name d @ '', '' @ reg_name a @ newline"
| "render (Movi d v) = ''    movi '' @ reg_name d @ '', 0x'' @ fmt_08X v @ newline"
| "render (Movi_string d n) = ''    movi '' @ reg_name d @ '', .Lstr_'' @ fmt_u n @ newline"
| "render (Load byte d a) = ''    '' @ (if byte then ''ldb'' else ''ldw'') @ ''  '' @ reg_name d @ '', ['' @ reg_name a @ '']'' @ newline"
| "render (Store byte d a) = ''    '' @ (if byte then ''stb'' else ''stw'') @ ''  '' @ reg_name d @ '', ['' @ reg_name a @ '']'' @ newline"
| "render (Call name) = ''    call '' @ name @ newline"
| "render (Addi d a v) = ''    addi '' @ reg_name d @ '', '' @ reg_name a @ '', '' @ fmt_u v @ newline"
| "render (Subi d a v) = ''    subi '' @ reg_name d @ '', '' @ reg_name a @ '', '' @ fmt_u v @ newline"
| "render (Jump l) = ''    jmp  '' @ l @ newline"
| "render (Jump_zero a l) = ''    jz   '' @ reg_name a @ '', '' @ l @ newline"
| "render Ret = ''    ret'' @ newline"
| "render (Label l) = l @ '':'' @ newline"
| "render (Comment c) = ''    ; '' @ c @ newline"
| "render (Verbatim t) = t"

definition render_all :: "asm_line list \<Rightarrow> string" where
  "render_all ls = concat (map render ls)"

end
