(* ===== verification/T32_Emit.thy ===== *)
theory T32_Emit
  imports T32_Ast T32_Asm "HOL-Library.Monad_Syntax"
begin

text \<open>
  The code generator of \<open>toolchain/t32-cc/src/t32-cc.c\<close> for expressions. The output is a list of
  assembly lines (\<open>T32_Asm\<close>). The recursive functions of the source follow the indices of the node table, which could run in
  circles; they take a fuel here, \<open>None\<close> is a table on which they run out of it, and
  \<open>T32_Emit_Laws\<close> shows how much is enough for a table that the parser builds.
\<close>

section \<open>The emitter\<close>

text \<open>The state of the emitter: what it has written, the global variables \<open>expression_scratch_base\<close>
  and \<open>expression_scratch_depth\<close>, the label counter, and what it has printed to the error stream.\<close>

record emitter =
  em_lines :: "asm_line list"
  em_base :: u32
  em_depth :: nat
  em_label :: u32
  em_err :: string

definition emit :: "asm_line list \<Rightarrow> emitter \<Rightarrow> emitter" where
  "emit ls em = em\<lparr>em_lines := em_lines em @ ls\<rparr>"

section \<open>Local variables\<close>

definition local_offset :: "program_t \<Rightarrow> nat \<Rightarrow> u32" where
  "local_offset prog i = (if i < length (pr_locals prog) then lc_offset (pr_locals prog ! i) else of_nat i * 4)"

definition emit_local_address :: "program_t \<Rightarrow> nat \<Rightarrow> asm_line list" where
  "emit_local_address prog i =
     (let offset = local_offset prog i in
      if offset = 0 then [] else [Movi 10 offset, Alu AL_add 10 15 10])"

definition emit_local_address_to :: "program_t \<Rightarrow> nat \<Rightarrow> nat \<Rightarrow> asm_line list" where
  "emit_local_address_to prog i reg =
     (let offset = local_offset prog i in
      if offset = 0 then [Move reg 15] else [Movi 10 offset, Alu AL_add reg 15 10])"

definition emit_load_local :: "program_t \<Rightarrow> nat \<Rightarrow> nat \<Rightarrow> asm_line list" where
  "emit_load_local prog i reg =
     (if i = 0 then [Load False reg 15] else emit_local_address prog i @ [Load False reg 10])"

definition emit_store_local :: "program_t \<Rightarrow> nat \<Rightarrow> nat \<Rightarrow> asm_line list" where
  "emit_store_local prog i reg =
     (if i = 0 then [Store False reg 15] else emit_local_address prog i @ [Store False reg 10])"

definition byte_value :: "program_t \<Rightarrow> nat \<Rightarrow> bool" where
  "byte_value prog i \<longleftrightarrow> i < length (pr_locals prog) \<and> lc_is_char (pr_locals prog ! i)
     \<and> \<not> lc_is_pointer (pr_locals prog ! i)"

definition emit_load_local_value :: "program_t \<Rightarrow> nat \<Rightarrow> nat \<Rightarrow> asm_line list" where
  "emit_load_local_value prog i reg =
     (if \<not> byte_value prog i then emit_load_local prog i reg
      else if i = 0 then [Load True reg 15] else emit_local_address prog i @ [Load True reg 10])"

definition emit_store_local_value :: "program_t \<Rightarrow> nat \<Rightarrow> nat \<Rightarrow> asm_line list" where
  "emit_store_local_value prog i reg =
     (if \<not> byte_value prog i then emit_store_local prog i reg
      else if i = 0 then [Store True reg 15] else emit_local_address prog i @ [Store True reg 10])"

definition emit_truncate_char :: "nat \<Rightarrow> asm_line list" where
  "emit_truncate_char reg = [Movi 10 0xFF, Alu AL_and reg reg 10]"

definition emit_operand :: "program_t \<Rightarrow> operand_t \<Rightarrow> nat \<Rightarrow> asm_line list" where
  "emit_operand prog operand reg =
     (if op_kind operand = OPERAND_LOCAL
      then let i = unat (op_value operand) in
        if i < length (pr_locals prog) \<and> lc_is_array (pr_locals prog ! i)
        then emit_local_address_to prog i reg else emit_load_local_value prog i reg
      else [Movi reg (op_value operand)])"

section \<open>Truth values\<close>

definition emit_bool_nonzero :: "nat \<Rightarrow> asm_line list" where
  "emit_bool_nonzero reg = [Movi 10 0, Alu AL_sub 10 10 reg, Alu AL_or reg reg 10, Movi 10 0x1F, Alu AL_shr reg reg 10]"

definition emit_bool_invert :: "nat \<Rightarrow> asm_line list" where
  "emit_bool_invert reg = [Movi 10 1, Alu AL_xor reg reg 10]"

definition emit_signed_less_than :: "nat \<Rightarrow> nat \<Rightarrow> nat \<Rightarrow> asm_line list" where
  "emit_signed_less_than destination left_reg right_reg =
     [Alu AL_sub 10 left_reg right_reg, Alu AL_xor 11 left_reg right_reg, Alu AL_and 12 11 left_reg,
      Invert 11 11, Alu AL_and 11 11 10, Alu AL_or 10 12 11, Movi 11 0x1F, Alu AL_shr destination 10 11]"

section \<open>Scratch slots\<close>

abbreviation (input) "MAX_CALL_SCRATCH_SLOTS \<equiv> 16 :: nat"

fun expression_node_contains_call :: "nat \<Rightarrow> expression_t \<Rightarrow> nat \<Rightarrow> bool option"
  and any_contains_call :: "nat \<Rightarrow> expression_t \<Rightarrow> nat list \<Rightarrow> bool option" where
  "expression_node_contains_call 0 e i = None"
| "expression_node_contains_call (Suc k) e i =
     (if i \<ge> length (ex_nodes e) then Some False
      else let node = ex_nodes e ! i in
        if nd_kind node = EXPR_CALL then Some True
        else if nd_kind node = EXPR_BINARY then
          do { l \<leftarrow> expression_node_contains_call k e (nd_left node);
               if l then Some True else expression_node_contains_call k e (nd_right node) }
        else if nd_kind node = EXPR_DEREF \<or> nd_kind node = EXPR_ARRAY_SUBSCRIPT
        then expression_node_contains_call k e (nd_child node)
        else any_contains_call k e (nd_call_args node))"
| "any_contains_call k e [] = Some False"
| "any_contains_call 0 e (i # is) = None"
| "any_contains_call (Suc k) e (i # is) =
     do { b \<leftarrow> expression_node_contains_call k e i; if b then Some True else any_contains_call k e is }"

text \<open>\<open>scratch_store\<close>: the slot, unless there is none left.\<close>

definition scratch_store :: "nat \<Rightarrow> emitter \<Rightarrow> nat option \<times> emitter" where
  "scratch_store reg em =
     (if em_depth em \<ge> MAX_CALL_SCRATCH_SLOTS
      then (None, em\<lparr>em_err := em_err em @ ''t32-cc: Stage 17 expression call nesting exceeds scratch capacity'' @ newline\<rparr>)
      else let slot = em_depth em; offset = em_base em + of_nat slot * 4 in
        (Some slot, emit (if offset = 0 then [Store False reg 15]
           else [Movi 10 offset, Alu AL_add 10 15 10, Store False reg 10]) (em\<lparr>em_depth := slot + 1\<rparr>)))"

definition scratch_load_slot :: "nat \<Rightarrow> nat \<Rightarrow> emitter \<Rightarrow> emitter" where
  "scratch_load_slot slot reg em =
     (let offset = em_base em + of_nat slot * 4 in
      emit (if offset = 0 then [Load False reg 15]
        else [Movi 10 offset, Alu AL_add 10 15 10, Load False reg 10]) em)"

definition scratch_release_to :: "nat \<Rightarrow> emitter \<Rightarrow> emitter" where
  "scratch_release_to depth em = em\<lparr>em_depth := depth\<rparr>"

text \<open>The loop that loads the arguments of a call into \<open>r0\<close>, \<open>r1\<close>, ...\<close>

fun load_args :: "nat \<Rightarrow> nat list \<Rightarrow> emitter \<Rightarrow> emitter" where
  "load_args i [] em = em"
| "load_args i (slot # slots) em = load_args (i + 1) slots (scratch_load_slot slot i em)"

section \<open>Expressions\<close>

text \<open>The lines of an operator, after its operands; \<open>None\<close> for a token that is no operator.\<close>

definition emit_operator :: "token_kind_t \<Rightarrow> nat \<Rightarrow> nat \<Rightarrow> asm_line list option" where
  "emit_operator operator_kind d n =
     (if operator_kind = TOK_PLUS then Some [Alu AL_add d d n]
      else if operator_kind = TOK_MINUS then Some [Alu AL_sub d d n]
      else if operator_kind = TOK_STAR then Some [Alu AL_mul d d n]
      else if operator_kind = TOK_SLASH then Some [Alu AL_div d d n]
      else if operator_kind = TOK_PERCENT then Some [Alu AL_div 13 d n, Alu AL_mul 13 13 n, Alu AL_sub d d 13]
      else if operator_kind = TOK_EQ \<or> operator_kind = TOK_NE then
        Some ([Alu AL_xor d d n] @ emit_bool_nonzero d @ (if operator_kind = TOK_EQ then emit_bool_invert d else []))
      else if operator_kind = TOK_LT then Some (emit_signed_less_than d d n)
      else if operator_kind = TOK_GT then Some (emit_signed_less_than d n d)
      else if operator_kind = TOK_LE then Some (emit_signed_less_than d n d @ emit_bool_invert d)
      else if operator_kind = TOK_GE then Some (emit_signed_less_than d d n @ emit_bool_invert d)
      else None)"

definition emit_member :: "program_t \<Rightarrow> expression_node_t \<Rightarrow> nat \<Rightarrow> asm_line list" where
  "emit_member prog node d =
     (if nd_array_local node \<noteq> 0 then
        emit_operand prog \<lparr>op_kind = OPERAND_LOCAL, op_value = of_nat (nd_local_index node)\<rparr> d
        @ (if nd_member_offset node \<noteq> 0 then [Movi 10 (nd_member_offset node), Alu AL_add d d 10] else [])
        @ [Load (nd_byte_access node) d d]
      else
        let offset = lc_offset (pr_locals prog ! nd_local_index node) + nd_member_offset node in
        if offset = 0 then [Load (nd_byte_access node) d 15]
        else [Movi 10 offset, Alu AL_add 10 15 10, Load (nd_byte_access node) d 10])"

fun emit_expression_node :: "nat \<Rightarrow> program_t \<Rightarrow> expression_t \<Rightarrow> nat \<Rightarrow> nat \<Rightarrow> nat \<Rightarrow> emitter \<Rightarrow> (bool \<times> emitter) option"
  and emit_args :: "nat \<Rightarrow> program_t \<Rightarrow> expression_t \<Rightarrow> nat list \<Rightarrow> nat list \<Rightarrow> emitter \<Rightarrow> (nat list option \<times> emitter) option" where
  "emit_expression_node 0 prog e i d n em = None"
| "emit_expression_node (Suc k) prog e i d n em =
     (if i \<ge> length (ex_nodes e) then Some (False, em)
      else let node = ex_nodes e ! i in
      case nd_kind node of
        EXPR_OPERAND \<Rightarrow> Some (True, emit (emit_operand prog (nd_operand node) d) em)
      | EXPR_STRING \<Rightarrow> Some (True, emit [Movi_string d (nd_string_id node)] em)
      | EXPR_ADDRESS_OF \<Rightarrow> Some (True, emit (emit_local_address_to prog (nd_local_index node) d) em)
      | EXPR_DEREF \<Rightarrow>
          do { (ok, em1) \<leftarrow> emit_expression_node k prog e (nd_child node) d n em;
               if \<not> ok then Some (False, em1)
               else Some (True, emit [Load (nd_byte_access node) d d] em1) }
      | EXPR_ARRAY_SUBSCRIPT \<Rightarrow>
          do { (ok, em1) \<leftarrow> emit_expression_node k prog e (nd_child node) n (n + 1)
                 (emit (emit_local_address_to prog (nd_array_local node) d) em);
               if \<not> ok then Some (False, em1)
               else Some (True, emit ((if \<not> nd_byte_access node then [Movi 10 4, Alu AL_mul n n 10] else [])
                 @ [Alu AL_add d d n, Load (nd_byte_access node) d d]) em1) }
      | EXPR_STRUCT_MEMBER \<Rightarrow> Some (True, emit (emit_member prog node d) em)
      | EXPR_CALL \<Rightarrow>
          do { (slots, em1) \<leftarrow> emit_args k prog e (nd_call_args node) [] em;
               case slots of None \<Rightarrow> Some (False, em1)
               | Some ss \<Rightarrow> Some (True, emit (Call (chars (nd_call_name node)) # (if d \<noteq> 0 then [Move d 0] else []))
                   (scratch_release_to (em_depth em) (load_args 0 ss em1))) }
      | EXPR_BINARY \<Rightarrow>
          if n \<ge> 10 then Some (False, em\<lparr>em_err := em_err em
            @ ''t32-cc: expression requires more temporary registers than Stage 17 provides'' @ newline\<rparr>)
          else do { (ok1, em1) \<leftarrow> emit_expression_node k prog e (nd_left node) d n em;
               if \<not> ok1 then Some (False, em1) else
               do { calls \<leftarrow> expression_node_contains_call k e (nd_right node);
               (ok2, em2) \<leftarrow>
                 (if calls then
                    case scratch_store d em1 of
                      (None, em3) \<Rightarrow> Some (False, em3)
                    | (Some slot, em3) \<Rightarrow>
                      do { (ok, em4) \<leftarrow> emit_expression_node k prog e (nd_right node) n (n + 1) em3;
                           if \<not> ok then Some (False, em4)
                           else Some (True, scratch_release_to (em_depth em1) (scratch_load_slot slot d em4)) }
                  else emit_expression_node k prog e (nd_right node) n (n + 1) em1);
               if \<not> ok2 then Some (False, em2)
               else let em5 = (if (nd_operator_kind node = TOK_PLUS \<or> nd_operator_kind node = TOK_MINUS)
                       \<and> nd_pointer_scale node = 4 then emit [Movi 10 4, Alu AL_mul n n 10] em2 else em2) in
                 case emit_operator (nd_operator_kind node) d n of
                   None \<Rightarrow> Some (False, em5) | Some ls \<Rightarrow> Some (True, emit ls em5) } })"
| "emit_args k prog e [] slots em = Some (Some slots, em)"
| "emit_args 0 prog e (i # is) slots em = None"
| "emit_args (Suc k) prog e (i # is) slots em =
     do { (ok, em1) \<leftarrow> emit_expression_node k prog e i 0 1 em;
          if \<not> ok then Some (None, em1)
          else case scratch_store 0 em1 of
            (None, em2) \<Rightarrow> Some (None, em2)
          | (Some slot, em2) \<Rightarrow> emit_args k prog e is (slots @ [slot]) em2 }"

text \<open>\<open>emit_expression\<close>; a root of -1 is no node.\<close>

definition emit_expression :: "nat \<Rightarrow> program_t \<Rightarrow> expression_t \<Rightarrow> nat \<Rightarrow> nat \<Rightarrow> emitter \<Rightarrow> (bool \<times> emitter) option" where
  "emit_expression k prog e destination temporary em =
     (case ex_root e of
        None \<Rightarrow> Some (False, em\<lparr>em_depth := 0\<rparr>)
      | Some i \<Rightarrow> emit_expression_node k prog e i destination temporary (em\<lparr>em_depth := 0\<rparr>))"

end
