(* ===== verification/T32_Parse.thy ===== *)
theory T32_Parse
  imports T32_Ast
begin

text \<open>
  The expression parser of \<open>toolchain/t32-cc/src/t32-cc.c\<close>, from the symbol tables to
  \<open>parse_expression\<close>. A function that returns an index or -1, or a success flag with results behind
  pointers, returns an option here, always with the state after it. The functions call each other
  to the depth of the nesting, and would recur without end on a parser that has failed with an
  opening parenthesis as its current token, which never happens; they take a fuel, running out of
  which is recorded in the state, and \<open>T32_Parse_Laws\<close> shows that the fuel that \<open>parse_expression\<close> starts with
  is enough.
\<close>

section \<open>State\<close>

text \<open>The parser, the global variables \<open>struct_defs\<close> and \<open>next_string_id\<close>, the function and the
  expression that are being built.\<close>

record pstate =
  cp_parser :: parser_t
  cp_structs :: "struct_def_t list"
  cp_next_string :: u32
  cp_program :: program_t
  cp_expr :: expression_t
  cp_fuel_out :: bool

definition current_token :: "pstate \<Rightarrow> token_t" where
  "current_token s = ps_current (cp_parser s)"

definition current_kind :: "pstate \<Rightarrow> token_kind_t" where
  "current_kind s = tk_kind (current_token s)"

definition source_of :: "pstate \<Rightarrow> bytes" where
  "source_of s = lx_source (ps_lexer (cp_parser s))"

definition current_text :: "pstate \<Rightarrow> bytes" where
  "current_text s = token_text (source_of s) (current_token s)"

definition current_is :: "bytes \<Rightarrow> pstate \<Rightarrow> bool" where
  "current_is word s = token_is_identifier (source_of s) (current_token s) word"

definition advance :: "pstate \<Rightarrow> pstate" where
  "advance s = s\<lparr>cp_parser := parser_advance (cp_parser s)\<rparr>"

definition fail :: "string \<Rightarrow> pstate \<Rightarrow> 'a option \<times> pstate" where
  "fail message s = (None, s\<lparr>cp_parser := parser_error (cp_parser s) message\<rparr>)"

definition no_fuel :: "pstate \<Rightarrow> 'a option \<times> pstate" where
  "no_fuel s = (None, s\<lparr>cp_fuel_out := True\<rparr>)"

definition expect :: "token_kind_t \<Rightarrow> string \<Rightarrow> pstate \<Rightarrow> unit option \<times> pstate" where
  "expect kind description s =
     (case parser_expect_kind (cp_parser s) kind description of (ok, p) \<Rightarrow>
       (if ok then Some () else None, s\<lparr>cp_parser := p\<rparr>))"

definition expect_word :: "bytes \<Rightarrow> pstate \<Rightarrow> unit option \<times> pstate" where
  "expect_word word s =
     (case parser_expect_word (cp_parser s) word of (ok, p) \<Rightarrow>
       (if ok then Some () else None, s\<lparr>cp_parser := p\<rparr>))"

text \<open>Go on with the result of a call, or return where the call has failed.\<close>

definition and_then :: "'a option \<times> pstate \<Rightarrow> ('a \<Rightarrow> pstate \<Rightarrow> 'b option \<times> pstate) \<Rightarrow> 'b option \<times> pstate" where
  "and_then r f = (case r of (None, s) \<Rightarrow> (None, s) | (Some x, s) \<Rightarrow> f x s)"

lemma and_then_simps [simp]:
  "and_then (None, s) f = (None, s)" "and_then (Some x, s) f = f x s"
  by (simp_all add: and_then_def)

lemma and_then_cong [fundef_cong]:
  "r = r' \<Longrightarrow> (\<And>x s. r' = (Some x, s) \<Longrightarrow> f x s = f' x s) \<Longrightarrow> and_then r f = and_then r' f'"
  by (auto simp: and_then_def split: prod.split option.split)

text \<open>A quoted token in a message.\<close>

definition in_quotes :: "string \<Rightarrow> string" where
  "in_quotes t = [CHR 0x27] @ t @ [CHR 0x27]"

section \<open>Names\<close>

text \<open>The index of the first element that satisfies a test.\<close>

fun find_index :: "('a \<Rightarrow> bool) \<Rightarrow> 'a list \<Rightarrow> nat option" where
  "find_index P [] = None"
| "find_index P (x # xs) = (if P x then Some 0 else map_option Suc (find_index P xs))"

definition token_matches_name :: "bytes \<Rightarrow> token_t \<Rightarrow> bytes \<Rightarrow> bool" where
  "token_matches_name source token name \<longleftrightarrow>
     tk_kind token = TOK_IDENTIFIER \<and> tk_length token = length name \<and> token_text source token = name"

definition find_struct_by_name :: "pstate \<Rightarrow> token_t \<Rightarrow> nat option" where
  "find_struct_by_name s token = find_index (\<lambda>d. token_matches_name (source_of s) token (sd_name d)) (cp_structs s)"

definition find_struct_member :: "pstate \<Rightarrow> nat option \<Rightarrow> token_t \<Rightarrow> nat option" where
  "find_struct_member s struct_index token =
     (case struct_index of None \<Rightarrow> None
      | Some i \<Rightarrow> if i \<ge> length (cp_structs s) then None
          else find_index (\<lambda>m. token_matches_name (source_of s) token (sm_name m)) (sd_members (cp_structs s ! i)))"

definition find_local :: "pstate \<Rightarrow> token_t \<Rightarrow> nat option" where
  "find_local s token =
     find_index (\<lambda>l. token_matches_name (source_of s) token (lc_name l)) (pr_locals (cp_program s))"

text \<open>\<open>None\<close> where the name does not fit the buffer.\<close>

definition copy_identifier :: "bytes \<Rightarrow> token_t \<Rightarrow> nat \<Rightarrow> bytes option" where
  "copy_identifier source token size' =
     (if tk_kind token \<noteq> TOK_IDENTIFIER \<or> tk_length token + 1 > size' then None
      else Some (token_text source token))"

definition local_at :: "pstate \<Rightarrow> nat \<Rightarrow> local_t" where
  "local_at s i = pr_locals (cp_program s) ! i"

text \<open>\<open>parser_peek_token\<close> behind the test that the current token is an identifier; a peek prints what
  the lexer prints.\<close>

definition next_is :: "token_kind_t \<Rightarrow> pstate \<Rightarrow> bool \<times> pstate" where
  "next_is kind s =
     (if current_kind s \<noteq> TOK_IDENTIFIER then (False, s)
      else case lexer_next_token (ps_lexer (cp_parser s)) of (token, _, msg) \<Rightarrow>
        (tk_kind token = kind, s\<lparr>cp_parser := (cp_parser s)\<lparr>ps_err := ps_err (cp_parser s) @ msg\<rparr>\<rparr>))"

section \<open>Operands\<close>

definition parse_integer_literal :: "pstate \<Rightarrow> u32 option \<times> pstate" where
  "parse_integer_literal s0 =
     (let negative' = current_kind s0 = TOK_MINUS; s = (if negative' then advance s0 else s0) in
      if current_kind s \<noteq> TOK_INTEGER then fail ''expected integer literal'' s
      else let magnitude = tk_integer_value (current_token s); s1 = advance s in
        if negative' then
          if magnitude > 2147483648 then fail ''negative integer literal is out of range'' s1
          else (Some (0 - magnitude), s1)
        else (Some magnitude, s1))"

definition parse_operand :: "pstate \<Rightarrow> operand_t option \<times> pstate" where
  "parse_operand s =
     (if current_kind s = TOK_INTEGER \<or> current_kind s = TOK_MINUS then
        and_then (parse_integer_literal s) (\<lambda>v s1. (Some \<lparr>op_kind = OPERAND_INTEGER, op_value = v\<rparr>, s1))
      else if current_kind s = TOK_IDENTIFIER then
        case find_local s (current_token s) of
          None \<Rightarrow> fail ''use of undeclared local variable'' s
        | Some i \<Rightarrow>
            if lc_is_struct (local_at s i) \<and> \<not> lc_is_pointer (local_at s i)
            then fail ''struct object requires member access'' s
            else let s1 = advance s in
              (if ps_failed (cp_parser s1) then None else Some \<lparr>op_kind = OPERAND_LOCAL, op_value = of_nat i\<rparr>, s1)
      else fail ''expected integer literal or local variable'' s)"

definition expression_add_node :: "expression_node_t \<Rightarrow> pstate \<Rightarrow> nat option \<times> pstate" where
  "expression_add_node node s =
     (let n = length (ex_nodes (cp_expr s)) in
      if n \<ge> MAX_EXPRESSION_NODES then fail ''expression is too complex'' s
      else (Some n, s\<lparr>cp_expr := (cp_expr s)\<lparr>ex_nodes := ex_nodes (cp_expr s) @ [node]\<rparr>\<rparr>))"

text \<open>The escapes of a string literal, into a buffer of 160 characters.\<close>

definition escape_value :: "u8 \<Rightarrow> u8 option" where
  "escape_value e =
     (if e = 0x6E then Some 0x0A else if e = 0x72 then Some 0x0D else if e = 0x74 then Some 0x09
      else if e = 0x5C then Some 0x5C else if e = 0x22 then Some 0x22 else None)"

fun decode_string :: "bytes \<Rightarrow> bytes \<Rightarrow> string + bytes" where
  "decode_string [] out = Inr out"
| "decode_string (c # e # text') out =
     (if c = 0x5C then
        case escape_value e of None \<Rightarrow> Inl ''unsupported string escape''
        | Some v \<Rightarrow> if length out + 1 \<ge> 160 then Inl ''string literal is too long''
            else decode_string text' (out @ [v])
      else if length out + 1 \<ge> 160 then Inl ''string literal is too long''
      else decode_string (e # text') (out @ [c]))"
| "decode_string [c] out =
     (if length out + 1 \<ge> 160 then Inl ''string literal is too long'' else Inr (out @ [c]))"

definition parse_string :: "pstate \<Rightarrow> nat option \<times> pstate" where
  "parse_string s =
     (let string_id = cp_next_string s; s1 = s\<lparr>cp_next_string := string_id + 1\<rparr> in
      case decode_string (current_text s) [] of
        Inl message \<Rightarrow> fail message s1
      | Inr v \<Rightarrow> expression_add_node
          (zero_node\<lparr>nd_kind := EXPR_STRING, nd_string_id := string_id, nd_string_value := v\<rparr>) (advance s1))"

text \<open>\<open>object.member\<close> and \<open>pointer->member\<close>.\<close>

definition parse_member :: "bool \<Rightarrow> pstate \<Rightarrow> nat option \<times> pstate" where
  "parse_member through_pointer s =
     (case find_local s (current_token s) of
        Some i \<Rightarrow>
          if \<not> lc_is_struct (local_at s i) \<or> lc_is_pointer (local_at s i) \<noteq> through_pointer
          then fail (if through_pointer then ''arrow requires a struct pointer local''
                     else ''dot member access requires a struct object'') s
          else let s1 = advance (advance s) in
            if current_kind s1 \<noteq> TOK_IDENTIFIER then fail ''expected struct member name'' s1
            else (case find_struct_member s1 (lc_struct_index (local_at s1 i)) (current_token s1) of
                None \<Rightarrow> fail ''unknown struct member'' s1
              | Some j \<Rightarrow>
                  let member = sd_members (cp_structs s1 ! the (lc_struct_index (local_at s1 i))) ! j in
                  expression_add_node (zero_node\<lparr>nd_kind := EXPR_STRUCT_MEMBER, nd_local_index := i,
                    nd_member_offset := sm_offset member, nd_byte_access := sm_is_char member,
                    nd_array_local := (if through_pointer then 1 else 0)\<rparr>) (advance s1))
      | None \<Rightarrow> fail (if through_pointer then ''arrow requires a struct pointer local''
                     else ''dot member access requires a struct object'') s)"

section \<open>Types of expressions\<close>

datatype expression_type_t = EXPR_TYPE_INT | EXPR_TYPE_CHAR | EXPR_TYPE_INT_PTR | EXPR_TYPE_CHAR_PTR

definition expression_type_is_pointer :: "expression_type_t \<Rightarrow> bool" where
  "expression_type_is_pointer t \<longleftrightarrow> t = EXPR_TYPE_INT_PTR \<or> t = EXPR_TYPE_CHAR_PTR"

fun expression_node_type :: "nat \<Rightarrow> program_t \<Rightarrow> expression_t \<Rightarrow> nat \<Rightarrow> expression_type_t option" where
  "expression_node_type 0 prog e i = None"
| "expression_node_type (Suc k) prog e i =
     (if i \<ge> length (ex_nodes e) then Some EXPR_TYPE_INT
      else let node = ex_nodes e ! i in
        if nd_kind node = EXPR_STRING then Some EXPR_TYPE_CHAR_PTR
        else if nd_kind node = EXPR_ADDRESS_OF then
          Some (if lc_is_char (pr_locals prog ! nd_local_index node) then EXPR_TYPE_CHAR_PTR else EXPR_TYPE_INT_PTR)
        else if nd_kind node = EXPR_DEREF \<or> nd_kind node = EXPR_ARRAY_SUBSCRIPT \<or> nd_kind node = EXPR_STRUCT_MEMBER
        then Some (if nd_byte_access node then EXPR_TYPE_CHAR else EXPR_TYPE_INT)
        else if nd_kind node = EXPR_OPERAND then
          if op_kind (nd_operand node) = OPERAND_LOCAL then
            let local = pr_locals prog ! unat (op_value (nd_operand node)) in
            if lc_is_pointer local \<or> lc_is_array local
            then Some (if lc_is_char local then EXPR_TYPE_CHAR_PTR else EXPR_TYPE_INT_PTR)
            else Some (if lc_is_char local then EXPR_TYPE_CHAR else EXPR_TYPE_INT)
          else Some EXPR_TYPE_INT
        else if nd_kind node = EXPR_BINARY \<and> nd_pointer_scale node \<noteq> 0
        then expression_node_type k prog e (nd_left node)
        else Some EXPR_TYPE_INT)"

section \<open>Expressions\<close>

definition binary_node :: "token_kind_t \<Rightarrow> nat \<Rightarrow> nat \<Rightarrow> expression_node_t" where
  "binary_node operator_kind left right =
     zero_node\<lparr>nd_kind := EXPR_BINARY, nd_operator_kind := operator_kind, nd_left := left, nd_right := right\<rparr>"

definition plain_binary :: "token_kind_t \<Rightarrow> nat \<Rightarrow> nat \<Rightarrow> pstate \<Rightarrow> expression_node_t option \<times> pstate" where
  "plain_binary operator_kind left right s = (Some (binary_node operator_kind left right), s)"

text \<open>Addition and subtraction scale the right operand of a pointer.\<close>

definition type_of :: "pstate \<Rightarrow> nat \<Rightarrow> expression_type_t option" where
  "type_of s i = expression_node_type (Suc MAX_EXPRESSION_NODES) (cp_program s) (cp_expr s) i"

definition additive_node :: "token_kind_t \<Rightarrow> nat \<Rightarrow> nat \<Rightarrow> pstate \<Rightarrow> expression_node_t option \<times> pstate" where
  "additive_node operator_kind left right s =
     (case (type_of s left, type_of s right) of
        (Some left_type, Some right_type) \<Rightarrow>
          let node = binary_node operator_kind left right in
          if expression_type_is_pointer left_type then
            if expression_type_is_pointer right_type
            then fail ''Stage 24 does not yet support pointer-to-pointer arithmetic'' s
            else (Some (node\<lparr>nd_pointer_scale := (if left_type = EXPR_TYPE_INT_PTR then 4 else 1)\<rparr>), s)
          else if expression_type_is_pointer right_type
          then fail ''Stage 24 pointer arithmetic requires the pointer on the left'' s
          else (Some node, s)
      | _ \<Rightarrow> no_fuel s)"

text \<open>The loop of the left-associative levels.\<close>

fun binary_loop :: "nat \<Rightarrow> token_kind_t list \<Rightarrow> (pstate \<Rightarrow> nat option \<times> pstate)
    \<Rightarrow> (token_kind_t \<Rightarrow> nat \<Rightarrow> nat \<Rightarrow> pstate \<Rightarrow> expression_node_t option \<times> pstate)
    \<Rightarrow> nat \<Rightarrow> pstate \<Rightarrow> nat option \<times> pstate" where
  "binary_loop 0 ops operand build left s = no_fuel s"
| "binary_loop (Suc k) ops operand build left s =
     (if current_kind s \<notin> set ops then (Some left, s)
      else and_then (operand (advance s)) (\<lambda>right s1.
        and_then (build (current_kind s) left right s1) (\<lambda>node s2.
          and_then (expression_add_node node s2) (\<lambda>left' s3.
            binary_loop k ops operand build left' s3))))"

fun parse_primary :: "nat \<Rightarrow> pstate \<Rightarrow> nat option \<times> pstate"
  and parse_unary :: "nat \<Rightarrow> pstate \<Rightarrow> nat option \<times> pstate"
  and parse_multiplicative :: "nat \<Rightarrow> pstate \<Rightarrow> nat option \<times> pstate"
  and parse_additive :: "nat \<Rightarrow> pstate \<Rightarrow> nat option \<times> pstate"
  and parse_relational :: "nat \<Rightarrow> pstate \<Rightarrow> nat option \<times> pstate"
  and parse_equality :: "nat \<Rightarrow> pstate \<Rightarrow> nat option \<times> pstate"
  and parse_arguments :: "nat \<Rightarrow> nat list \<Rightarrow> pstate \<Rightarrow> nat list option \<times> pstate" where
  "parse_primary 0 s = no_fuel s"
| "parse_primary (Suc k) s =
     (if current_kind s = TOK_LPAREN then
        and_then (parse_equality k (advance s)) (\<lambda>root s1.
          and_then (expect TOK_RPAREN (in_quotes '')'') s1) (\<lambda>_ s2. (Some root, s2)))
      else if current_kind s = TOK_STRING then parse_string s
      else case next_is TOK_ARROW s of (arrow, s1) \<Rightarrow>
        if arrow then parse_member True s1
        else case next_is TOK_DOT s1 of (dot, s2) \<Rightarrow>
        if dot then parse_member False s2
        else case next_is TOK_LBRACKET s2 of (bracket, s3) \<Rightarrow>
        if bracket then
          (case find_local s3 (current_token s3) of
             Some i \<Rightarrow>
               if \<not> lc_is_array (local_at s3 i) then fail ''subscript requires an array local'' s3
               else and_then (parse_equality k (advance (advance s3))) (\<lambda>index_root s4.
                 and_then (expect TOK_RBRACKET (in_quotes '']'') s4) (\<lambda>_ s5.
                   expression_add_node (zero_node\<lparr>nd_kind := EXPR_ARRAY_SUBSCRIPT, nd_array_local := i,
                     nd_child := index_root, nd_byte_access := lc_is_char (local_at s5 i)\<rparr>) s5))
           | None \<Rightarrow> fail ''subscript requires an array local'' s3)
        else case next_is TOK_LPAREN s3 of (paren, s4) \<Rightarrow>
        if paren then
          (case copy_identifier (source_of s4) (current_token s4) 64 of
             None \<Rightarrow> fail ''function name is too long'' s4
           | Some name \<Rightarrow>
               and_then (expect TOK_LPAREN (in_quotes ''('') (advance s4)) (\<lambda>_ s5.
                 and_then (if current_kind s5 \<noteq> TOK_RPAREN then parse_arguments k [] s5 else (Some [], s5)) (\<lambda>args s6.
                   and_then (expect TOK_RPAREN (in_quotes '')'') s6) (\<lambda>_ s7.
                     expression_add_node (zero_node\<lparr>nd_kind := EXPR_CALL, nd_call_name := name,
                       nd_call_args := args\<rparr>) s7))))
        else and_then (parse_operand s4) (\<lambda>operand s5.
          expression_add_node (zero_node\<lparr>nd_kind := EXPR_OPERAND, nd_operand := operand\<rparr>) s5))"
| "parse_unary 0 s = no_fuel s"
| "parse_unary (Suc k) s =
     (if current_kind s = TOK_AMPERSAND then
        let s1 = advance s in
        if current_kind s1 \<noteq> TOK_IDENTIFIER then fail ''address-of currently requires a local variable'' s1
        else case find_local s1 (current_token s1) of
          None \<Rightarrow> fail ''address-of undeclared local variable'' s1
        | Some i \<Rightarrow> expression_add_node (zero_node\<lparr>nd_kind := EXPR_ADDRESS_OF, nd_local_index := i\<rparr>) (advance s1)
      else if current_kind s = TOK_STAR then
        let s1 = advance s in
        if current_kind s1 \<noteq> TOK_IDENTIFIER then fail ''dereference currently requires a pointer local'' s1
        else case find_local s1 (current_token s1) of
          None \<Rightarrow> fail ''dereference requires a pointer local'' s1
        | Some i \<Rightarrow>
            if \<not> lc_is_pointer (local_at s1 i) then fail ''dereference requires a pointer local'' s1
            else and_then (parse_primary k s1) (\<lambda>child s2.
              expression_add_node (zero_node\<lparr>nd_kind := EXPR_DEREF, nd_child := child,
                nd_byte_access := lc_is_char (local_at s2 i)\<rparr>) s2)
      else parse_primary k s)"
| "parse_multiplicative 0 s = no_fuel s"
| "parse_multiplicative (Suc k) s =
     and_then (parse_unary k s) (\<lambda>left s1.
       binary_loop k [TOK_STAR, TOK_SLASH, TOK_PERCENT] (parse_unary k) plain_binary left s1)"
| "parse_additive 0 s = no_fuel s"
| "parse_additive (Suc k) s =
     and_then (parse_multiplicative k s) (\<lambda>left s1.
       binary_loop k [TOK_PLUS, TOK_MINUS] (parse_multiplicative k) additive_node left s1)"
| "parse_relational 0 s = no_fuel s"
| "parse_relational (Suc k) s =
     and_then (parse_additive k s) (\<lambda>left s1.
       binary_loop k [TOK_LT, TOK_LE, TOK_GT, TOK_GE] (parse_additive k) plain_binary left s1)"
| "parse_equality 0 s = no_fuel s"
| "parse_equality (Suc k) s =
     and_then (parse_relational k s) (\<lambda>left s1.
       binary_loop k [TOK_EQ, TOK_NE] (parse_relational k) plain_binary left s1)"
| "parse_arguments 0 args s = no_fuel s"
| "parse_arguments (Suc k) args s =
     (if length args \<ge> 4 then fail ''Stage 17 supports at most four function arguments'' s
      else and_then (parse_equality k s) (\<lambda>arg_root s1.
        if current_kind s1 \<noteq> TOK_COMMA then (Some (args @ [arg_root]), s1)
        else parse_arguments k (args @ [arg_root]) (advance s1)))"

text \<open>A fuel for the source that is left.\<close>

definition parse_fuel :: "pstate \<Rightarrow> nat" where
  "parse_fuel s = 8 * (length (source_of s) + 2)"

definition parse_expression :: "pstate \<Rightarrow> expression_t option \<times> pstate" where
  "parse_expression s =
     (case parse_equality (parse_fuel s) (s\<lparr>cp_expr := zero_expression\<rparr>) of
        (None, s1) \<Rightarrow> (None, s1\<lparr>cp_expr := (cp_expr s1)\<lparr>ex_root := None\<rparr>\<rparr>)
      | (Some root, s1) \<Rightarrow>
          let e = (cp_expr s1)\<lparr>ex_root := Some root\<rparr>; s2 = s1\<lparr>cp_expr := e\<rparr> in
          (if ps_failed (cp_parser s2) then None else Some e, s2))"

end
