(* ===== verification/T32_Parse_Stmt.thy ===== *)
theory T32_Parse_Stmt
  imports T32_Parse
begin

text \<open>
  The statement parser of \<open>toolchain/t32-cc/src/t32-cc.c\<close>. A statement goes into the table of the
  function when it has been read, but the statements of a body come after the statement that they
  belong to, so its \<open>then_first\<close> and \<open>else_first\<close> are filled in later. As for expressions, the
  functions take a fuel.
\<close>

section \<open>The table of statements\<close>

definition zero_statement :: statement_t where
  "zero_statement = \<lparr>st_kind = STMT_ASSIGN, st_expression = zero_expression, st_for_init = zero_expression,
     st_for_update = zero_expression, st_target_local = None, st_pointer_local = None, st_array_local = None,
     st_array_index = zero_expression, st_member_local = None, st_member_offset = 0, st_member_is_char = False,
     st_member_through_pointer = False, st_for_init_local = None, st_for_update_local = None,
     st_then_first = None, st_else_first = None, st_next = None\<rparr>"

definition set_program :: "(program_t \<Rightarrow> program_t) \<Rightarrow> pstate \<Rightarrow> pstate" where
  "set_program f s = s\<lparr>cp_program := f (cp_program s)\<rparr>"

definition statement_add :: "statement_t \<Rightarrow> pstate \<Rightarrow> nat option \<times> pstate" where
  "statement_add statement s =
     (let n = length (pr_statements (cp_program s)) in
      if n \<ge> MAX_STATEMENTS then fail ''too many statements'' s
      else (Some n, set_program (\<lambda>p. p\<lparr>pr_statements := pr_statements p @ [statement]\<rparr>) s))"

definition set_statement :: "nat \<Rightarrow> (statement_t \<Rightarrow> statement_t) \<Rightarrow> pstate \<Rightarrow> pstate" where
  "set_statement i f = set_program (\<lambda>p. p\<lparr>pr_statements := (pr_statements p)[i := f (pr_statements p ! i)]\<rparr>)"

definition set_loop_depth :: "(nat \<Rightarrow> nat) \<Rightarrow> pstate \<Rightarrow> pstate" where
  "set_loop_depth f s = s\<lparr>cp_parser := (cp_parser s)\<lparr>ps_loop_depth := f (ps_loop_depth (cp_parser s))\<rparr>\<rparr>"

text \<open>The words of the language.\<close>

abbreviation (input) "w_break \<equiv> char_bytes ''break''"
abbreviation (input) "w_continue \<equiv> char_bytes ''continue''"
abbreviation (input) "w_for \<equiv> char_bytes ''for''"
abbreviation (input) "w_while \<equiv> char_bytes ''while''"
abbreviation (input) "w_if \<equiv> char_bytes ''if''"
abbreviation (input) "w_else \<equiv> char_bytes ''else''"
abbreviation (input) "w_int \<equiv> char_bytes ''int''"
abbreviation (input) "w_char \<equiv> char_bytes ''char''"
abbreviation (input) "w_struct \<equiv> char_bytes ''struct''"
abbreviation (input) "w_return \<equiv> char_bytes ''return''"
abbreviation (input) "w_void \<equiv> char_bytes ''void''"
abbreviation (input) "w_extern \<equiv> char_bytes ''extern''"

section \<open>Simple statements\<close>

text \<open>The semicolon, and the statement into the table.\<close>

definition finish_statement :: "statement_t \<Rightarrow> pstate \<Rightarrow> nat option \<times> pstate" where
  "finish_statement statement s =
     and_then (expect TOK_SEMICOLON (in_quotes '';'') s) (\<lambda>_ s1. statement_add statement s1)"

text \<open>An expression up to the semicolon.\<close>

definition finish_expression :: "(expression_t \<Rightarrow> statement_t) \<Rightarrow> pstate \<Rightarrow> nat option \<times> pstate" where
  "finish_expression stmt s = and_then (parse_expression s) (\<lambda>e s1. finish_statement (stmt e) s1)"

definition parse_jump :: "string \<Rightarrow> statement_kind_t \<Rightarrow> pstate \<Rightarrow> nat option \<times> pstate" where
  "parse_jump word kind s =
     (if ps_loop_depth (cp_parser s) = 0 then fail (word @ '' statement is not inside a loop'') s
      else finish_statement (zero_statement\<lparr>st_kind := kind\<rparr>) (advance s))"

definition parse_assignment_clause :: "pstate \<Rightarrow> (nat \<times> expression_t) option \<times> pstate" where
  "parse_assignment_clause s =
     (if current_kind s \<noteq> TOK_IDENTIFIER then fail ''expected local variable assignment'' s
      else case find_local s (current_token s) of
        None \<Rightarrow> fail ''assignment to undeclared local variable'' s
      | Some i \<Rightarrow>
          and_then (expect TOK_ASSIGN (in_quotes ''='') (advance s)) (\<lambda>_ s1.
            and_then (parse_expression s1) (\<lambda>e s2. (Some (i, e), s2))))"

text \<open>\<open>*p = expression;\<close>\<close>

definition parse_store_indirect :: "pstate \<Rightarrow> nat option \<times> pstate" where
  "parse_store_indirect s =
     (let s1 = advance s in
      if current_kind s1 \<noteq> TOK_IDENTIFIER then fail ''indirect assignment requires a pointer local'' s1
      else case find_local s1 (current_token s1) of
        None \<Rightarrow> fail ''indirect assignment requires a pointer local'' s1
      | Some i \<Rightarrow>
          if \<not> lc_is_pointer (local_at s1 i) then fail ''indirect assignment requires a pointer local'' s1
          else and_then (expect TOK_ASSIGN (in_quotes ''='') (advance s1)) (\<lambda>_ s2.
            finish_expression (\<lambda>e. zero_statement\<lparr>st_kind := STMT_STORE_INDIRECT, st_pointer_local := Some i,
              st_expression := e\<rparr>) s2))"

text \<open>\<open>pointer->member = expression;\<close> and \<open>object.member = expression;\<close>\<close>

definition parse_store_member :: "bool \<Rightarrow> pstate \<Rightarrow> nat option \<times> pstate" where
  "parse_store_member through_pointer s =
     (let refused = fail (if through_pointer then ''arrow assignment requires a struct pointer local''
         else ''dot member assignment requires a struct object'') s in
      case find_local s (current_token s) of
        None \<Rightarrow> refused
      | Some i \<Rightarrow>
          if \<not> lc_is_struct (local_at s i) \<or> lc_is_pointer (local_at s i) \<noteq> through_pointer then refused
          else let s1 = advance (advance s) in
            if current_kind s1 \<noteq> TOK_IDENTIFIER then fail ''expected struct member name'' s1
            else (case find_struct_member s1 (lc_struct_index (local_at s1 i)) (current_token s1) of
                None \<Rightarrow> fail ''unknown struct member'' s1
              | Some j \<Rightarrow>
                  let member = sd_members (cp_structs s1 ! the (lc_struct_index (local_at s1 i))) ! j in
                  and_then (expect TOK_ASSIGN (in_quotes ''='') (advance s1)) (\<lambda>_ s2.
                    finish_expression (\<lambda>e. zero_statement\<lparr>st_kind := STMT_STORE_MEMBER, st_member_local := Some i,
                      st_member_through_pointer := through_pointer, st_member_offset := sm_offset member,
                      st_member_is_char := sm_is_char member, st_expression := e\<rparr>) s2)))"

text \<open>\<open>array[index] = expression;\<close>\<close>

definition parse_store_array :: "pstate \<Rightarrow> nat option \<times> pstate" where
  "parse_store_array s =
     (case find_local s (current_token s) of
        None \<Rightarrow> fail ''subscript assignment requires an array local'' s
      | Some i \<Rightarrow>
          if \<not> lc_is_array (local_at s i) then fail ''subscript assignment requires an array local'' s
          else and_then (parse_expression (advance (advance s))) (\<lambda>index s1.
            and_then (expect TOK_RBRACKET (in_quotes '']'') s1) (\<lambda>_ s2.
              and_then (expect TOK_ASSIGN (in_quotes ''='') s2) (\<lambda>_ s3.
                finish_expression (\<lambda>e. zero_statement\<lparr>st_kind := STMT_STORE_ARRAY, st_array_local := Some i,
                  st_array_index := index, st_expression := e\<rparr>) s3))))"

definition parse_assign :: "pstate \<Rightarrow> nat option \<times> pstate" where
  "parse_assign s =
     (case find_local s (current_token s) of
        None \<Rightarrow> fail ''assignment to undeclared local variable'' s
      | Some i \<Rightarrow>
          if lc_is_array (local_at s i) then fail ''array objects are not assignable'' s
          else if lc_is_struct (local_at s i) \<and> \<not> lc_is_pointer (local_at s i)
          then fail ''Stage 24 does not yet support whole-struct assignment'' s
          else and_then (expect TOK_ASSIGN (in_quotes ''='') (advance s)) (\<lambda>_ s1.
            finish_expression (\<lambda>e. zero_statement\<lparr>st_kind := STMT_ASSIGN, st_target_local := Some i,
              st_expression := e\<rparr>) s1))"

text \<open>The statements that begin with an expression or a target, told apart by the token after the
  first.\<close>

definition parse_simple :: "pstate \<Rightarrow> nat option \<times> pstate" where
  "parse_simple s =
     (if current_kind s \<notin> {TOK_IDENTIFIER, TOK_INTEGER, TOK_STRING, TOK_LPAREN, TOK_MINUS, TOK_STAR, TOK_AMPERSAND}
      then fail ''expected expression, assignment, if, while, for, break, continue, or return statement'' s
      else if current_kind s = TOK_STAR then parse_store_indirect s
      else case next_is TOK_ARROW s of (arrow, s1) \<Rightarrow>
        if arrow then parse_store_member True s1
        else case next_is TOK_DOT s1 of (dot, s2) \<Rightarrow>
        if dot then parse_store_member False s2
        else case next_is TOK_LBRACKET s2 of (bracket, s3) \<Rightarrow>
        if bracket then parse_store_array s3
        else case next_is TOK_ASSIGN s3 of (assign, s4) \<Rightarrow>
        if assign then parse_assign s4
        else finish_expression (\<lambda>e. zero_statement\<lparr>st_kind := STMT_EXPR, st_expression := e\<rparr>) s4)"

section \<open>Statements with bodies\<close>

text \<open>A parenthesised condition.\<close>

definition parse_condition :: "pstate \<Rightarrow> expression_t option \<times> pstate" where
  "parse_condition s =
     and_then (expect TOK_LPAREN (in_quotes ''('') s) (\<lambda>_ s1.
       and_then (parse_expression s1) (\<lambda>e s2.
         and_then (expect TOK_RPAREN (in_quotes '')'') s2) (\<lambda>_ s3. (Some e, s3))))"

definition parse_for_head :: "pstate \<Rightarrow> statement_t option \<times> pstate" where
  "parse_for_head s =
     and_then (expect TOK_LPAREN (in_quotes ''('') s) (\<lambda>_ s1.
       and_then (parse_assignment_clause s1) (\<lambda>init s2.
         and_then (expect TOK_SEMICOLON (in_quotes '';'') s2) (\<lambda>_ s3.
           and_then (parse_expression s3) (\<lambda>e s4.
             and_then (expect TOK_SEMICOLON (in_quotes '';'') s4) (\<lambda>_ s5.
               and_then (parse_assignment_clause s5) (\<lambda>update s6.
                 and_then (expect TOK_RPAREN (in_quotes '')'') s6) (\<lambda>_ s7.
                   (Some (zero_statement\<lparr>st_kind := STMT_FOR, st_for_init_local := Some (fst init),
                      st_for_init := snd init, st_expression := e, st_for_update_local := Some (fst update),
                      st_for_update := snd update\<rparr>), s7))))))))"

text \<open>A loop statement, whose body is one level deeper.\<close>

definition loop_body :: "(pstate \<Rightarrow> nat option option \<times> pstate) \<Rightarrow> nat \<Rightarrow> pstate \<Rightarrow> nat option \<times> pstate" where
  "loop_body body i s =
     (case body (set_loop_depth Suc s) of
        (None, s1) \<Rightarrow> (None, set_loop_depth (\<lambda>d. d - 1) s1)
      | (Some first, s1) \<Rightarrow>
          (Some i, set_loop_depth (\<lambda>d. d - 1) (set_statement i (\<lambda>st. st\<lparr>st_then_first := first\<rparr>) s1)))"

fun parse_statement :: "nat \<Rightarrow> pstate \<Rightarrow> nat option \<times> pstate"
  and parse_statement_sequence :: "nat \<Rightarrow> bool \<Rightarrow> nat option \<Rightarrow> nat option \<Rightarrow> pstate \<Rightarrow> nat option option \<times> pstate"
  and parse_statement_or_block :: "nat \<Rightarrow> pstate \<Rightarrow> nat option option \<times> pstate" where
  "parse_statement 0 s = no_fuel s"
| "parse_statement (Suc k) s =
     (if current_is w_break s then parse_jump ''break'' STMT_BREAK s
      else if current_is w_continue s then parse_jump ''continue'' STMT_CONTINUE s
      else if current_is w_for s then
        and_then (parse_for_head (advance s)) (\<lambda>st s1.
          and_then (statement_add st s1) (\<lambda>i s2. loop_body (parse_statement_or_block k) i s2))
      else if current_is w_while s then
        and_then (parse_condition (advance s)) (\<lambda>e s1.
          and_then (statement_add (zero_statement\<lparr>st_kind := STMT_WHILE, st_expression := e\<rparr>) s1)
            (\<lambda>i s2. loop_body (parse_statement_or_block k) i s2))
      else if current_is w_if s then
        and_then (parse_condition (advance s)) (\<lambda>e s1.
          and_then (statement_add (zero_statement\<lparr>st_kind := STMT_IF, st_expression := e\<rparr>) s1) (\<lambda>i s2.
            and_then (parse_statement_or_block k s2) (\<lambda>first s3.
              let s4 = set_statement i (\<lambda>st. st\<lparr>st_then_first := first\<rparr>) s3 in
              if current_is w_else s4 then
                and_then (parse_statement_or_block k (advance s4)) (\<lambda>else_first s5.
                  (Some i, set_statement i (\<lambda>st. st\<lparr>st_else_first := else_first\<rparr>) s5))
              else (Some i, s4))))
      else if current_is w_int s \<or> current_is w_char s
      then fail ''Stage 24 requires local declarations before executable statements'' s
      else if current_is w_return s then
        finish_expression (\<lambda>e. zero_statement\<lparr>st_kind := STMT_RETURN, st_expression := e\<rparr>) (advance s)
      else parse_simple s)"
| "parse_statement_sequence 0 stop_at_rbrace first prev s = no_fuel s"
| "parse_statement_sequence (Suc k) stop_at_rbrace first prev s =
     (if ps_failed (cp_parser s) then (None, s)
      else if stop_at_rbrace \<and> current_kind s = TOK_RBRACE then (Some first, s)
      else if \<not> stop_at_rbrace \<and> (current_is w_return s \<or> current_kind s = TOK_RBRACE) then (Some first, s)
      else if current_kind s = TOK_EOF
      then fail (if stop_at_rbrace then ''expected '' @ in_quotes ''}'' else ''expected return statement or '' @ in_quotes ''}'') s
      else and_then (parse_statement k s) (\<lambda>current s1.
        parse_statement_sequence k stop_at_rbrace (if first = None then Some current else first) (Some current)
          (case prev of None \<Rightarrow> s1 | Some l \<Rightarrow> set_statement l (\<lambda>st. st\<lparr>st_next := Some current\<rparr>) s1)))"
| "parse_statement_or_block 0 s = no_fuel s"
| "parse_statement_or_block (Suc k) s =
     (if current_kind s = TOK_LBRACE then
        and_then (parse_statement_sequence k True None None (advance s)) (\<lambda>first s1.
          and_then (expect TOK_RBRACE (in_quotes ''}'') s1) (\<lambda>_ s2. (Some first, s2)))
      else and_then (parse_statement k s) (\<lambda>i s1. (Some (Some i), s1)))"

end
