(* ===== verification/T32_Parse_Unit.thy ===== *)
theory T32_Parse_Unit
  imports T32_Parse_Stmt
begin

text \<open>
  Declarations in \<open>toolchain/t32-cc/src/t32-cc.c\<close>: external functions, struct types, functions with
  their parameters and local variables, the translation unit, and the check of calls at its end. A
  loop over a bounded table counts the places that are left in it.
\<close>

section \<open>Translation units\<close>

abbreviation (input) "MAX_FUNCTIONS \<equiv> 16 :: nat"
abbreviation (input) "MAX_EXTERNALS \<equiv> 16 :: nat"

record external_t =
  xt_name :: bytes
  xt_parameter_count :: nat

record translation_unit_t =
  tu_functions :: "program_t list"
  tu_externals :: "external_t list"
  tu_main_index :: "nat option"

definition zero_unit :: translation_unit_t where
  "zero_unit = \<lparr>tu_functions = [], tu_externals = [], tu_main_index = None\<rparr>"

definition find_external :: "translation_unit_t \<Rightarrow> bytes \<Rightarrow> nat option" where
  "find_external unit' name = find_index (\<lambda>x. xt_name x = name) (tu_externals unit')"

definition find_function :: "translation_unit_t \<Rightarrow> bytes \<Rightarrow> nat option" where
  "find_function unit' name = find_index (\<lambda>f. pr_function_name f = name) (tu_functions unit')"

section \<open>Calls\<close>

text \<open>The message for the first bad call of an expression.\<close>

definition call_error :: "translation_unit_t \<Rightarrow> expression_node_t \<Rightarrow> string option" where
  "call_error unit' node =
     (if nd_kind node \<noteq> EXPR_CALL then None
      else case find_function unit' (nd_call_name node) of
        Some i \<Rightarrow> if pr_parameter_count (tu_functions unit' ! i) \<noteq> length (nd_call_args node)
          then Some ''function argument count mismatch'' else None
      | None \<Rightarrow> (case find_external unit' (nd_call_name node) of
            None \<Rightarrow> Some ''call to undefined function''
          | Some j \<Rightarrow> if xt_parameter_count (tu_externals unit' ! j) \<noteq> length (nd_call_args node)
              then Some ''function argument count mismatch'' else None))"

fun validate_nodes :: "translation_unit_t \<Rightarrow> expression_node_t list \<Rightarrow> pstate \<Rightarrow> unit option \<times> pstate" where
  "validate_nodes unit' [] s = (Some (), s)"
| "validate_nodes unit' (node # nodes) s =
     (case call_error unit' node of Some message \<Rightarrow> fail message s | None \<Rightarrow> validate_nodes unit' nodes s)"

definition expression_validate_calls :: "translation_unit_t \<Rightarrow> expression_t \<Rightarrow> pstate \<Rightarrow> unit option \<times> pstate" where
  "expression_validate_calls unit' e s = validate_nodes unit' (ex_nodes e) s"

text \<open>The expressions of a statement that are checked: not those of stores.\<close>

definition checked_expressions :: "statement_t \<Rightarrow> expression_t list" where
  "checked_expressions st =
     (case st_kind st of
        STMT_ASSIGN \<Rightarrow> [st_expression st] | STMT_EXPR \<Rightarrow> [st_expression st]
      | STMT_IF \<Rightarrow> [st_expression st] | STMT_WHILE \<Rightarrow> [st_expression st]
      | STMT_FOR \<Rightarrow> [st_for_init st, st_expression st, st_for_update st]
      | STMT_RETURN \<Rightarrow> [st_expression st]
      | _ \<Rightarrow> [])"

fun validate_expressions :: "translation_unit_t \<Rightarrow> expression_t list \<Rightarrow> pstate \<Rightarrow> unit option \<times> pstate" where
  "validate_expressions unit' [] s = (Some (), s)"
| "validate_expressions unit' (e # es) s =
     and_then (expression_validate_calls unit' e s) (\<lambda>_ s1. validate_expressions unit' es s1)"

definition validate_program_calls :: "translation_unit_t \<Rightarrow> program_t \<Rightarrow> pstate \<Rightarrow> unit option \<times> pstate" where
  "validate_program_calls unit' prog s =
     validate_expressions unit'
       (map lc_initializer (filter lc_has_initializer (drop (pr_parameter_count prog) (pr_locals prog)))
        @ concat (map checked_expressions (pr_statements prog))
        @ (if pr_has_explicit_return prog then [pr_return_expression prog] else [])) s"

section \<open>External declarations\<close>

text \<open>The parameters, with the number of places that are left; the result is how many stay free.\<close>

fun external_parameters :: "nat \<Rightarrow> pstate \<Rightarrow> nat option \<times> pstate" where
  "external_parameters 0 s = fail ''Stage 24 supports at most four external parameters'' s"
| "external_parameters (Suc n) s =
     (if \<not> current_is w_int s \<and> \<not> current_is w_char s then fail ''expected external parameter type'' s
      else let s1 = advance s; s2 = (if current_kind s1 = TOK_STAR then advance s1 else s1) in
        if current_kind s2 \<noteq> TOK_IDENTIFIER then fail ''expected external parameter name'' s2
        else let s3 = advance s2 in
          if current_kind s3 \<noteq> TOK_COMMA then (Some n, s3)
          else external_parameters n (advance s3))"

definition parse_external_declaration :: "translation_unit_t \<Rightarrow> pstate \<Rightarrow> translation_unit_t option \<times> pstate" where
  "parse_external_declaration unit' s =
     and_then (expect_word w_extern s) (\<lambda>_ s1. and_then (expect_word w_int s1) (\<lambda>_ s2.
       if current_kind s2 \<noteq> TOK_IDENTIFIER then fail ''expected external function name'' s2
       else case copy_identifier (source_of s2) (current_token s2) 64 of
         None \<Rightarrow> fail ''external function name is too long'' s2
       | Some name \<Rightarrow>
         and_then (expect TOK_LPAREN (in_quotes ''('') (advance s2)) (\<lambda>_ s3.
           and_then (if current_is w_void s3 then (Some 4, advance s3)
             else if current_kind s3 \<noteq> TOK_RPAREN then external_parameters 4 s3
             else (Some 4, s3)) (\<lambda>free s4.
             and_then (expect TOK_RPAREN (in_quotes '')'') s4) (\<lambda>_ s5.
               and_then (expect TOK_SEMICOLON (in_quotes '';'') s5) (\<lambda>_ s6.
                 if find_external unit' name \<noteq> None then fail ''duplicate external declaration'' s6
                 else if length (tu_externals unit') \<ge> MAX_EXTERNALS then fail ''too many external declarations'' s6
                 else (Some (unit'\<lparr>tu_externals := tu_externals unit'
                   @ [\<lparr>xt_name = name, xt_parameter_count = 4 - free\<rparr>]\<rparr>), s6)))))))"

section \<open>Struct types\<close>

definition round_up :: "u32 \<Rightarrow> u32" where
  "round_up v = (v + 3) AND NOT 3"

text \<open>The members; the result is the list and the offset behind the last. One round more than there are
  places is enough.\<close>

fun struct_members :: "nat \<Rightarrow> struct_member_t list \<Rightarrow> u32 \<Rightarrow> pstate \<Rightarrow> (struct_member_t list \<times> u32) option \<times> pstate" where
  "struct_members 0 members offset s = no_fuel s"
| "struct_members (Suc n) members offset s =
     (if current_kind s = TOK_RBRACE then (Some (members, offset), s)
      else if \<not> current_is w_int s \<and> \<not> current_is w_char s
      then fail ''Stage 24 struct members must be int or char'' s
      else let is_char = current_is w_char s; s1 = advance s in
        if current_kind s1 \<noteq> TOK_IDENTIFIER then fail ''expected struct member name'' s1
        else if length members \<ge> MAX_STRUCT_MEMBERS then fail ''too many struct members'' s1
        else if find_index (\<lambda>m. token_matches_name (source_of s1) (current_token s1) (sm_name m)) members \<noteq> None
        then fail ''duplicate struct member'' s1
        else case copy_identifier (source_of s1) (current_token s1) 64 of
          None \<Rightarrow> fail ''struct member name is too long'' s1
        | Some name \<Rightarrow>
            let size' = (if is_char then 1 else 4); at = (if is_char then offset else round_up offset);
              member = \<lparr>sm_name = name, sm_is_char = is_char, sm_offset = at, sm_size = size'\<rparr>
            in and_then (expect TOK_SEMICOLON (in_quotes '';'') (advance s1)) (\<lambda>_ s2.
              struct_members n (members @ [member]) (at + size') s2))"

definition parse_struct_definition :: "pstate \<Rightarrow> unit option \<times> pstate" where
  "parse_struct_definition s =
     and_then (expect_word w_struct s) (\<lambda>_ s1.
       if current_kind s1 \<noteq> TOK_IDENTIFIER then fail ''expected struct name'' s1
       else if length (cp_structs s1) \<ge> MAX_STRUCTS then fail ''too many struct definitions'' s1
       else if find_struct_by_name s1 (current_token s1) \<noteq> None then fail ''duplicate struct definition'' s1
       else case copy_identifier (source_of s1) (current_token s1) 64 of
         None \<Rightarrow> fail ''struct name is too long'' s1
       | Some name \<Rightarrow>
         and_then (expect TOK_LBRACE (in_quotes ''{'') (advance s1)) (\<lambda>_ s2.
           and_then (struct_members (MAX_STRUCT_MEMBERS + 1) [] 0 s2) (\<lambda>(members, offset) s3.
             if members = [] then fail ''empty structs are not supported'' s3
             else and_then (expect TOK_SEMICOLON (in_quotes '';'') (advance s3)) (\<lambda>_ s4.
               (Some (), s4\<lparr>cp_structs := cp_structs s4
                 @ [\<lparr>sd_name = name, sd_members = members, sd_size = round_up offset\<rparr>]\<rparr>)))))"

section \<open>Functions\<close>

definition zero_program :: program_t where
  "zero_program = \<lparr>pr_function_name = [], pr_is_main = False, pr_parameter_count = 0, pr_locals = [],
     pr_statements = [], pr_first_statement = None, pr_has_explicit_return = False,
     pr_return_expression = zero_expression, pr_frame_bytes = 0\<rparr>"

definition zero_local :: local_t where
  "zero_local = \<lparr>lc_name = [], lc_has_initializer = False, lc_is_parameter = False, lc_parameter_index = 0,
     lc_is_pointer = False, lc_is_char = False, lc_is_array = False, lc_array_length = 0, lc_offset = 0,
     lc_storage_size = 0, lc_is_struct = False, lc_struct_index = None, lc_initializer = zero_expression\<rparr>"

text \<open>A local variable into the table, and its storage onto the frame.\<close>

definition add_local :: "local_t \<Rightarrow> program_t \<Rightarrow> program_t" where
  "add_local l prog = prog\<lparr>pr_locals := pr_locals prog @ [l], pr_frame_bytes := pr_frame_bytes prog + lc_storage_size l\<rparr>"

text \<open>The index of a struct type that the current token names.\<close>

definition parse_struct_name :: "pstate \<Rightarrow> nat option \<times> pstate" where
  "parse_struct_name s =
     (if current_kind s \<noteq> TOK_IDENTIFIER then fail ''expected struct type name'' s
      else case find_struct_by_name s (current_token s) of
        None \<Rightarrow> fail ''unknown struct type'' s
      | Some i \<Rightarrow> (Some i, advance s))"

text \<open>The type of a parameter: \<open>int\<close>, or a pointer to a struct with its index.\<close>

definition parse_parameter_type :: "pstate \<Rightarrow> nat option option \<times> pstate" where
  "parse_parameter_type s =
     (if current_is w_struct s then
        and_then (parse_struct_name (advance s)) (\<lambda>i s1.
          if current_kind s1 \<noteq> TOK_STAR then fail ''Stage 25 supports struct parameters only by pointer'' s1
          else (Some (Some i), advance s1))
      else and_then (expect_word w_int s) (\<lambda>_ s1. (Some None, s1)))"

fun parse_parameters :: "nat \<Rightarrow> pstate \<Rightarrow> unit option \<times> pstate" where
  "parse_parameters 0 s = fail ''Stage 25 supports at most four parameters'' s"
| "parse_parameters (Suc n) s =
     and_then (parse_parameter_type s) (\<lambda>struct_index s1.
       if current_kind s1 \<noteq> TOK_IDENTIFIER then fail ''expected parameter name'' s1
       else if find_local s1 (current_token s1) \<noteq> None then fail ''duplicate parameter name'' s1
       else case copy_identifier (source_of s1) (current_token s1) 64 of
         None \<Rightarrow> fail ''parameter name is too long'' s1
       | Some name \<Rightarrow>
           let count = pr_parameter_count (cp_program s1);
             parameter = zero_local\<lparr>lc_name := name, lc_is_parameter := True, lc_parameter_index := count,
               lc_is_pointer := (struct_index \<noteq> None), lc_is_struct := (struct_index \<noteq> None),
               lc_struct_index := struct_index, lc_offset := pr_frame_bytes (cp_program s1), lc_storage_size := 4\<rparr>;
             s2 = advance (set_program (\<lambda>p. (add_local parameter p)\<lparr>pr_parameter_count := count + 1\<rparr>) s1)
           in if current_kind s2 \<noteq> TOK_COMMA then (Some (), s2)
              else parse_parameters n (advance s2))"

text \<open>The length of an array, behind the opening bracket.\<close>

definition parse_array_length :: "local_t \<Rightarrow> pstate \<Rightarrow> local_t option \<times> pstate" where
  "parse_array_length l s =
     (if current_kind s \<noteq> TOK_INTEGER \<or> tk_integer_value (current_token s) = 0
      then fail ''array length must be a positive integer constant'' s
      else let n = tk_integer_value (current_token s) in
        and_then (expect TOK_RBRACKET (in_quotes '']'') (advance s)) (\<lambda>_ s1.
          (Some (l\<lparr>lc_is_array := True, lc_array_length := n,
             lc_storage_size := round_up (n * (if lc_is_char l then 1 else 4))\<rparr>), s1)))"

text \<open>A declaration behind its type: \<open>l\<close> is the local variable as the type has set it up.\<close>

definition parse_declarator :: "local_t \<Rightarrow> pstate \<Rightarrow> local_t option \<times> pstate" where
  "parse_declarator l0 s0 =
     (let pointer = current_kind s0 = TOK_STAR;
        l = (if pointer then l0\<lparr>lc_is_pointer := True, lc_storage_size := 4\<rparr> else l0);
        s = (if pointer then advance s0 else s0) in
      if current_kind s \<noteq> TOK_IDENTIFIER then fail ''expected local variable name'' s
      else if find_local s (current_token s) \<noteq> None then fail ''duplicate local variable'' s
      else case copy_identifier (source_of s) (current_token s) 64 of
        None \<Rightarrow> fail ''local variable name is too long'' s
      | Some name \<Rightarrow>
          let l1 = l\<lparr>lc_name := name\<rparr>; s1 = advance s in
          and_then (if current_kind s1 \<noteq> TOK_LBRACKET then (Some l1, s1)
            else if lc_is_struct l1 \<and> \<not> lc_is_pointer l1 then fail ''Stage 24 arrays of structs are not yet supported'' s1
            else if lc_is_pointer l1 then fail ''Stage 24 does not support arrays of pointers'' s1
            else parse_array_length l1 (advance s1)) (\<lambda>l2 s2.
              if current_kind s2 \<noteq> TOK_ASSIGN then (Some l2, s2)
              else if lc_is_struct l2 \<and> \<not> lc_is_pointer l2 then fail ''Stage 24 does not support struct initializers'' s2
              else if lc_is_array l2 then fail ''Stage 24 does not support array initializers'' s2
              else and_then (parse_expression (advance s2)) (\<lambda>e s3.
                (Some (l2\<lparr>lc_has_initializer := True, lc_initializer := e\<rparr>), s3))))"

definition parse_declaration :: "pstate \<Rightarrow> unit option \<times> pstate" where
  "parse_declaration s =
     (let declared_char = current_is w_char s; declared_struct = current_is w_struct s; s1 = advance s in
      and_then (if declared_struct then and_then (parse_struct_name s1) (\<lambda>i s2. (Some (Some i), s2))
        else (Some None, s1)) (\<lambda>struct_index s2.
          let l = zero_local\<lparr>lc_is_char := declared_char, lc_is_struct := declared_struct,
            lc_struct_index := struct_index, lc_offset := pr_frame_bytes (cp_program s2),
            lc_storage_size := (case struct_index of Some i \<Rightarrow> sd_size (cp_structs s2 ! i) | None \<Rightarrow> 4)\<rparr>
          in and_then (parse_declarator l s2) (\<lambda>l1 s3.
            and_then (expect TOK_SEMICOLON (in_quotes '';'') s3) (\<lambda>_ s4.
              (Some (), set_program (add_local l1) s4)))))"

text \<open>The declarations, with the number of places that are left.\<close>

fun parse_locals :: "nat \<Rightarrow> pstate \<Rightarrow> unit option \<times> pstate" where
  "parse_locals n s =
     (if current_is w_int s \<or> current_is w_char s \<or> current_is w_struct s then
        (case n of 0 \<Rightarrow> fail ''too many local variables'' s
         | Suc k \<Rightarrow> and_then (parse_declaration s) (\<lambda>_ s1. parse_locals k s1))
      else (Some (), s))"

definition statement_fuel :: "pstate \<Rightarrow> nat" where
  "statement_fuel s = 4 * (length (source_of s) + 2)"

text \<open>The body, from the declarations to the closing brace.\<close>

definition parse_body :: "pstate \<Rightarrow> unit option \<times> pstate" where
  "parse_body s =
     and_then (parse_locals (MAX_LOCALS - length (pr_locals (cp_program s))) s) (\<lambda>_ s1.
       and_then (parse_statement_sequence (statement_fuel s1) False None None s1) (\<lambda>first s2.
         let s3 = set_program (\<lambda>p. p\<lparr>pr_first_statement := first\<rparr>) s2 in
         and_then (if current_is w_return s3 then
             and_then (parse_expression (advance s3)) (\<lambda>e s4.
               and_then (expect TOK_SEMICOLON (in_quotes '';'') s4) (\<lambda>_ s5.
                 (Some (), set_program (\<lambda>p. p\<lparr>pr_has_explicit_return := True, pr_return_expression := e\<rparr>) s5)))
           else if \<not> pr_is_main (cp_program s3) then fail ''non-main int function requires return value'' s3
           else (Some (), s3)) (\<lambda>_ s6.
             and_then (expect TOK_RBRACE (in_quotes ''}'') s6) (\<lambda>_ s7. (Some (), s7)))))"

definition parse_function :: "pstate \<Rightarrow> program_t option \<times> pstate" where
  "parse_function s =
     and_then (expect_word w_int (s\<lparr>cp_program := zero_program\<rparr>)) (\<lambda>_ s1.
       if current_kind s1 \<noteq> TOK_IDENTIFIER then fail ''expected function name'' s1
       else case copy_identifier (source_of s1) (current_token s1) 64 of
         None \<Rightarrow> fail ''function name is too long'' s1
       | Some name \<Rightarrow>
         let s2 = advance (set_program (\<lambda>p. p\<lparr>pr_function_name := name, pr_is_main := (name = char_bytes ''main'')\<rparr>) s1) in
         and_then (expect TOK_LPAREN (in_quotes ''('') s2) (\<lambda>_ s3.
           and_then (if current_is w_void s3 then (Some (), advance s3)
             else if current_kind s3 \<noteq> TOK_RPAREN then parse_parameters 4 s3
             else (Some (), s3)) (\<lambda>_ s4.
             and_then (expect TOK_RPAREN (in_quotes '')'') s4) (\<lambda>_ s5.
               if pr_is_main (cp_program s5) \<and> pr_parameter_count (cp_program s5) \<noteq> 0
               then fail ''Stage 25 main must have no parameters'' s5
               else and_then (expect TOK_LBRACE (in_quotes ''{'') s5) (\<lambda>_ s6.
                 and_then (parse_body s6) (\<lambda>_ s7. (Some (cp_program s7), s7)))))))"

section \<open>The whole source\<close>

text \<open>The function that has just been read, into the table.\<close>

definition add_function :: "translation_unit_t \<Rightarrow> program_t \<Rightarrow> pstate \<Rightarrow> translation_unit_t option \<times> pstate" where
  "add_function unit' f s =
     (if find_function unit' (pr_function_name f) \<noteq> None then fail ''duplicate function definition'' s
      else if pr_is_main f \<and> tu_main_index unit' \<noteq> None then fail ''duplicate main definition'' s
      else (Some (unit'\<lparr>tu_functions := tu_functions unit' @ [f],
          tu_main_index := (if pr_is_main f then Some (length (tu_functions unit')) else tu_main_index unit')\<rparr>), s))"

text \<open>Every round fills a place of one of three tables of sixteen.\<close>

fun parse_units :: "nat \<Rightarrow> translation_unit_t \<Rightarrow> pstate \<Rightarrow> translation_unit_t option \<times> pstate" where
  "parse_units 0 unit' s = no_fuel s"
| "parse_units (Suc k) unit' s =
     (if current_kind s = TOK_EOF then (Some unit', s)
      else if current_is w_struct s then and_then (parse_struct_definition s) (\<lambda>_ s1. parse_units k unit' s1)
      else if current_is w_extern s
      then and_then (parse_external_declaration unit' s) (\<lambda>unit1 s1. parse_units k unit1 s1)
      else if length (tu_functions unit') \<ge> MAX_FUNCTIONS then fail ''too many functions'' s
      else and_then (parse_function s) (\<lambda>f s1.
        and_then (add_function unit' f s1) (\<lambda>unit1 s2. parse_units k unit1 s2)))"

fun validate_functions :: "translation_unit_t \<Rightarrow> program_t list \<Rightarrow> pstate \<Rightarrow> unit option \<times> pstate" where
  "validate_functions unit' [] s = (Some (), s)"
| "validate_functions unit' (f # fs) s =
     and_then (validate_program_calls unit' f s) (\<lambda>_ s1. validate_functions unit' fs s1)"

definition parse_translation_unit :: "pstate \<Rightarrow> translation_unit_t option \<times> pstate" where
  "parse_translation_unit s =
     and_then (parse_units (MAX_STRUCTS + MAX_EXTERNALS + MAX_FUNCTIONS + 1) zero_unit
       (advance (s\<lparr>cp_structs := []\<rparr>))) (\<lambda>unit' s1.
         if tu_main_index unit' = None then fail ''translation unit requires main'' s1
         else and_then (validate_functions unit' (tu_functions unit') s1) (\<lambda>_ s2.
           (if ps_failed (cp_parser s2) then None else Some unit', s2)))"

text \<open>The state with which \<open>main\<close> starts.\<close>

definition start_state :: "bytes \<Rightarrow> bytes \<Rightarrow> pstate" where
  "start_state path source =
     \<lparr>cp_parser = \<lparr>ps_lexer = \<lparr>lx_path = path, lx_source = source, lx_offset = 0, lx_line = 1, lx_column = 1\<rparr>,
        ps_current = make_token TOK_EOF None 0 0 0, ps_failed = False, ps_loop_depth = 0, ps_err = []\<rparr>,
      cp_structs = [], cp_next_string = 0, cp_program = zero_program, cp_expr = zero_expression, cp_fuel_out = False\<rparr>"

end
