(* ===== verification/T32_Function.thy ===== *)
theory T32_Function
  imports T32_Emit T32_Parse_Unit
begin

text \<open>
  The code generator of \<open>toolchain/t32-cc/src/t32-cc.c\<close> for statements, functions and the translation
  unit. Statements refer to each other by their places in the table, so these functions take a fuel
  as well, and \<open>EMIT_FUEL\<close> for the expressions in them; the result \<open>None\<close> is running out of one.
\<close>

section \<open>Statements\<close>

abbreviation (input) "EMIT_FUEL \<equiv> 512 :: nat"

datatype loop_kind_t = LOOP_WHILE | LOOP_FOR

definition label_at :: "string \<Rightarrow> u32 \<Rightarrow> string" where
  "label_at prefix id' = prefix @ ''_'' @ fmt_u id'"

definition take_label :: "emitter \<Rightarrow> u32 \<times> emitter" where
  "take_label em = (em_label em, em\<lparr>em_label := em_label em + 1\<rparr>)"

text \<open>An expression, and more lines behind it if it could be emitted.\<close>

definition emit_value :: "program_t \<Rightarrow> expression_t \<Rightarrow> nat \<Rightarrow> asm_line list \<Rightarrow> emitter \<Rightarrow> (bool \<times> emitter) option" where
  "emit_value prog e d rest em =
     do { (ok, em1) \<leftarrow> emit_expression EMIT_FUEL prog e d (d + 1) em;
          Some (if ok then (True, emit rest em1) else (False, em1)) }"

definition is_byte_local :: "local_t \<Rightarrow> bool" where
  "is_byte_local l \<longleftrightarrow> lc_is_char l \<and> \<not> lc_is_pointer l"

definition local_name :: "program_t \<Rightarrow> nat \<Rightarrow> string" where
  "local_name prog i = chars (lc_name (pr_locals prog ! i))"

definition emit_assign :: "program_t \<Rightarrow> statement_t \<Rightarrow> emitter \<Rightarrow> (bool \<times> emitter) option" where
  "emit_assign prog st em =
     (let i = the (st_target_local st) in
      emit_value prog (st_expression st) 1
        ((if is_byte_local (pr_locals prog ! i) then emit_truncate_char 1 else []) @ emit_store_local_value prog i 1)
        (emit [Comment (''assign '' @ local_name prog i)] em))"

definition emit_store_indirect :: "program_t \<Rightarrow> statement_t \<Rightarrow> emitter \<Rightarrow> (bool \<times> emitter) option" where
  "emit_store_indirect prog st em =
     (let i = the (st_pointer_local st); byte_access = lc_is_char (pr_locals prog ! i) in
      emit_value prog (st_expression st) 1 (emit_load_local prog i 2 @ [Store byte_access 1 2])
        (emit [Comment (''store through '' @ (if byte_access then ''char'' else ''int'') @ '' pointer ''
          @ local_name prog i)] em))"

definition emit_store_array :: "program_t \<Rightarrow> statement_t \<Rightarrow> emitter \<Rightarrow> (bool \<times> emitter) option" where
  "emit_store_array prog st em =
     (let i = the (st_array_local st); byte_access = lc_is_char (pr_locals prog ! i) in
      do { (ok, em1) \<leftarrow> emit_value prog (st_expression st) 1 (if byte_access then emit_truncate_char 1 else [])
             (emit [Comment (''store '' @ (if byte_access then ''char'' else ''int'') @ '' array element ''
               @ local_name prog i @ ''[index]'')] em);
           if \<not> ok then Some (False, em1)
           else emit_value prog (st_array_index st) 2
             ((if \<not> byte_access then [Movi 10 4, Alu AL_mul 2 2 10] else [])
              @ emit_local_address_to prog i 3 @ [Alu AL_add 3 3 2, Store byte_access 1 3]) em1 })"

definition member_store_lines :: "program_t \<Rightarrow> statement_t \<Rightarrow> asm_line list" where
  "member_store_lines prog st =
     (let i = the (st_member_local st); b = st_member_is_char st in
      (if b then emit_truncate_char 1 else [])
      @ (if st_member_through_pointer st then
           emit_operand prog \<lparr>op_kind = OPERAND_LOCAL, op_value = of_nat i\<rparr> 10
           @ (if st_member_offset st \<noteq> 0 then [Movi 9 (st_member_offset st), Alu AL_add 10 10 9] else [])
           @ [Store b 1 10]
         else let offset = lc_offset (pr_locals prog ! i) + st_member_offset st in
           if offset = 0 then [Store b 1 15] else [Movi 10 offset, Alu AL_add 10 15 10, Store b 1 10]))"

definition emit_store_member :: "program_t \<Rightarrow> statement_t \<Rightarrow> emitter \<Rightarrow> (bool \<times> emitter) option" where
  "emit_store_member prog st em =
     emit_value prog (st_expression st) 1 (member_store_lines prog st)
       (emit [Comment (''store struct member '' @ local_name prog (the (st_member_local st)) @ '' + ''
         @ fmt_u (st_member_offset st))] em)"

text \<open>The labels that \<open>break\<close> and \<open>continue\<close> jump to.\<close>

definition break_label :: "loop_kind_t \<times> u32 \<Rightarrow> string" where
  "break_label c = label_at (if fst c = LOOP_WHILE then ''.Lendwhile'' else ''.Lendfor'') (snd c)"

definition continue_label :: "loop_kind_t \<times> u32 \<Rightarrow> string" where
  "continue_label c = label_at (if fst c = LOOP_WHILE then ''.Lwhile'' else ''.Lfor_update'') (snd c)"

fun emit_statement :: "nat \<Rightarrow> program_t \<Rightarrow> string \<Rightarrow> nat \<Rightarrow> (loop_kind_t \<times> u32) option \<Rightarrow> emitter \<Rightarrow> (bool \<times> emitter) option"
  and emit_statement_sequence :: "nat \<Rightarrow> program_t \<Rightarrow> string \<Rightarrow> nat option \<Rightarrow> (loop_kind_t \<times> u32) option \<Rightarrow> emitter \<Rightarrow> (bool \<times> emitter) option" where
  "emit_statement 0 prog epilogue i context em = None"
| "emit_statement (Suc k) prog epilogue i context em =
     (if i \<ge> length (pr_statements prog) then Some (False, em)
      else let st = pr_statements prog ! i in
      case st_kind st of
        STMT_ASSIGN \<Rightarrow> emit_assign prog st em
      | STMT_STORE_INDIRECT \<Rightarrow> emit_store_indirect prog st em
      | STMT_STORE_ARRAY \<Rightarrow> emit_store_array prog st em
      | STMT_STORE_MEMBER \<Rightarrow> emit_store_member prog st em
      | STMT_EXPR \<Rightarrow> emit_value prog (st_expression st) 0 []
          (emit [Comment ''expression statement (result discarded)''] em)
      | STMT_RETURN \<Rightarrow> emit_value prog (st_expression st) 0 [Jump epilogue] em
      | STMT_BREAK \<Rightarrow> (case context of None \<Rightarrow> Some (False, em)
          | Some c \<Rightarrow> Some (True, emit [Jump (break_label c)] em))
      | STMT_CONTINUE \<Rightarrow> (case context of None \<Rightarrow> Some (False, em)
          | Some c \<Rightarrow> Some (True, emit [Jump (continue_label c)] em))
      | STMT_IF \<Rightarrow> (case take_label em of (id', em0) \<Rightarrow>
          do { (ok, em1) \<leftarrow> emit_value prog (st_expression st) 0
                 [Jump_zero 0 (label_at (if st_else_first st \<noteq> None then ''.Lelse'' else ''.Lendif'') id')]
                 (emit [Comment ''if condition''] em0);
               if \<not> ok then Some (False, em1) else
               do { (ok2, em2) \<leftarrow> emit_statement_sequence k prog epilogue (st_then_first st) context em1;
               if \<not> ok2 then Some (False, em2) else
               do { (ok3, em3) \<leftarrow> (if st_else_first st \<noteq> None
                    then emit_statement_sequence k prog epilogue (st_else_first st) context
                      (emit [Jump (label_at ''.Lendif'' id'), Label (label_at ''.Lelse'' id')] em2)
                    else Some (True, em2));
               Some (if ok3 then (True, emit [Label (label_at ''.Lendif'' id')] em3) else (False, em3)) } } })
      | STMT_WHILE \<Rightarrow> (case take_label em of (id', em0) \<Rightarrow>
          do { (ok, em1) \<leftarrow> emit_value prog (st_expression st) 0 [Jump_zero 0 (label_at ''.Lendwhile'' id')]
                 (emit [Label (label_at ''.Lwhile'' id'), Comment ''while condition''] em0);
               if \<not> ok then Some (False, em1) else
               do { (ok2, em2) \<leftarrow> emit_statement_sequence k prog epilogue (st_then_first st) (Some (LOOP_WHILE, id')) em1;
               Some (if ok2 then (True, emit [Jump (label_at ''.Lwhile'' id'), Label (label_at ''.Lendwhile'' id')] em2)
                 else (False, em2)) } })
      | STMT_FOR \<Rightarrow> (case take_label em of (id', em0) \<Rightarrow>
          do { (ok, em1) \<leftarrow> emit_value prog (st_for_init st) 1 (emit_store_local prog (the (st_for_init_local st)) 1)
                 (emit [Comment ''for initializer''] em0);
               if \<not> ok then Some (False, em1) else
               do { (ok2, em2) \<leftarrow> emit_value prog (st_expression st) 0 [Jump_zero 0 (label_at ''.Lendfor'' id')]
                 (emit [Label (label_at ''.Lfor'' id'), Comment ''for condition''] em1);
               if \<not> ok2 then Some (False, em2) else
               do { (ok3, em3) \<leftarrow> emit_statement_sequence k prog epilogue (st_then_first st) (Some (LOOP_FOR, id')) em2;
               if \<not> ok3 then Some (False, em3) else
               emit_value prog (st_for_update st) 1 (emit_store_local prog (the (st_for_update_local st)) 1
                   @ [Jump (label_at ''.Lfor'' id'), Label (label_at ''.Lendfor'' id')])
                 (emit [Label (label_at ''.Lfor_update'' id'), Comment ''for update''] em3) } } }))"
| "emit_statement_sequence k prog epilogue None context em = Some (True, em)"
| "emit_statement_sequence 0 prog epilogue (Some i) context em = None"
| "emit_statement_sequence (Suc k) prog epilogue (Some i) context em =
     do { (ok, em1) \<leftarrow> emit_statement k prog epilogue i context em;
          if \<not> ok then Some (False, em1)
          else emit_statement_sequence k prog epilogue (st_next (pr_statements prog ! i)) context em1 }"

section \<open>Functions\<close>

definition expression_contains_call :: "expression_t \<Rightarrow> bool" where
  "expression_contains_call e =
     (case ex_root e of None \<Rightarrow> False
      | Some r \<Rightarrow> expression_node_contains_call EMIT_FUEL e r = Some True)"

definition statement_contains_call :: "statement_t \<Rightarrow> bool" where
  "statement_contains_call st \<longleftrightarrow>
     (st_kind st \<in> {STMT_ASSIGN, STMT_EXPR, STMT_IF, STMT_WHILE, STMT_RETURN, STMT_STORE_INDIRECT,
        STMT_STORE_ARRAY, STMT_STORE_MEMBER} \<and> expression_contains_call (st_expression st))
     \<or> (st_kind st = STMT_STORE_ARRAY \<and> expression_contains_call (st_array_index st))
     \<or> (st_kind st = STMT_FOR \<and> (expression_contains_call (st_for_init st)
        \<or> expression_contains_call (st_expression st) \<or> expression_contains_call (st_for_update st)))"

definition program_contains_calls :: "program_t \<Rightarrow> bool" where
  "program_contains_calls prog \<longleftrightarrow>
     list_ex (\<lambda>l. lc_has_initializer l \<and> expression_contains_call (lc_initializer l))
       (drop (pr_parameter_count prog) (pr_locals prog))
     \<or> list_ex statement_contains_call (pr_statements prog)
     \<or> (pr_has_explicit_return prog \<and> expression_contains_call (pr_return_expression prog))"

definition local_comment :: "string \<Rightarrow> local_t \<Rightarrow> asm_line" where
  "local_comment what l = Comment (what @ '' local '' @ (if lc_is_char l then ''char'' else ''int'')
     @ (if lc_is_pointer l then '' *'' else '''') @ '' '' @ chars (lc_name l) @ '' at [r15 + ''
     @ dec_string (unat (lc_offset l)) @ '']'')"

fun emit_parameters :: "program_t \<Rightarrow> nat \<Rightarrow> nat \<Rightarrow> asm_line list" where
  "emit_parameters prog i 0 = []"
| "emit_parameters prog i (Suc n) =
     [Comment (''parameter int '' @ local_name prog i @ '' from r'' @ dec_string i)]
     @ emit_store_local prog i i @ emit_parameters prog (i + 1) n"

fun emit_initializers :: "program_t \<Rightarrow> nat \<Rightarrow> local_t list \<Rightarrow> emitter \<Rightarrow> (bool \<times> emitter) option" where
  "emit_initializers prog i [] em = Some (True, em)"
| "emit_initializers prog i (l # ls) em =
     (if \<not> lc_has_initializer l then emit_initializers prog (i + 1) ls (emit [local_comment ''uninitialized'' l] em)
      else do { (ok, em1) \<leftarrow> emit_value prog (lc_initializer l) 1
             ((if is_byte_local l then emit_truncate_char 1 else []) @ emit_store_local_value prog i 1)
             (emit [local_comment ''initialize'' l] em);
           if \<not> ok then Some (False, em1) else emit_initializers prog (i + 1) ls em1 })"

definition frame_size :: "program_t \<Rightarrow> u32" where
  "frame_size prog = pr_frame_bytes prog + (if program_contains_calls prog then 64 else 0)"

text \<open>\<open>char epilogue_label[96]\<close>.\<close>

definition epilogue_of :: "program_t \<Rightarrow> string" where
  "epilogue_of prog = snprintf 96 (''.Lreturn_'' @ chars (pr_function_name prog))"

definition emit_prologue :: "program_t \<Rightarrow> emitter \<Rightarrow> (bool \<times> emitter) option" where
  "emit_prologue prog em =
     (if frame_size prog = 0 then Some (True, em)
      else emit_initializers prog (pr_parameter_count prog) (drop (pr_parameter_count prog) (pr_locals prog))
        (emit ([Comment (dec_string (length (pr_locals prog))
             @ (if pr_is_main prog \<and> pr_parameter_count prog = 0 then '' local int(s), '' else '' parameter/local slot(s), '')
             @ fmt_u (frame_size prog) @ ''-byte stack frame''),
           Subi 15 15 (frame_size prog)] @ emit_parameters prog 0 (pr_parameter_count prog)) em))"

definition emit_function :: "program_t \<Rightarrow> emitter \<Rightarrow> (bool \<times> emitter) option" where
  "emit_function prog em =
     (let epilogue = epilogue_of prog;
        em0 = emit [Label (chars (pr_function_name prog))] (em\<lparr>em_base := pr_frame_bytes prog, em_depth := 0\<rparr>) in
      do { (ok, em1) \<leftarrow> emit_prologue prog em0;
           if \<not> ok then Some (False, em1) else
           do { (ok2, em2) \<leftarrow> emit_statement_sequence EMIT_FUEL prog epilogue (pr_first_statement prog) None em1;
           if \<not> ok2 then Some (False, em2) else
           do { (ok3, em3) \<leftarrow> (if pr_has_explicit_return prog then emit_value prog (pr_return_expression prog) 0 [] em2
                else Some (True, emit [Comment ''implicit return 0 from main'', Movi 0 0] em2));
           Some (if \<not> ok3 then (False, em3)
             else (True, emit ([Label epilogue] @ (if frame_size prog \<noteq> 0 then [Addi 15 15 (frame_size prog)] else [])
               @ [Ret]) em3)) } } })"

section \<open>Strings\<close>

function chunks :: "nat \<Rightarrow> 'a list \<Rightarrow> 'a list list" where
  "chunks n xs = (if xs = [] \<or> n = 0 then [] else take n xs # chunks n (drop n xs))"
  by pat_completeness auto
termination by (relation "measure (\<lambda>(n, xs). length xs)") auto

declare chunks.simps [simp del]

fun joined :: "string \<Rightarrow> string list \<Rightarrow> string" where
  "joined sep [] = ''''"
| "joined sep [x] = x"
| "joined sep (x # y # xs) = x @ sep @ joined sep (y # xs)"

definition byte_line :: "bytes \<Rightarrow> asm_line" where
  "byte_line bs = Verbatim (''    .byte '' @ joined '', '' (map (\<lambda>b. dec_string (unat b)) bs) @ newline)"

definition string_lines :: "expression_node_t \<Rightarrow> asm_line list" where
  "string_lines node = Label (''.Lstr_'' @ fmt_u (nd_string_id node))
     # map byte_line (chunks 8 (takeWhile (\<lambda>b. b \<noteq> 0) (nd_string_value node) @ [0]))"

definition emit_expression_strings :: "expression_t \<Rightarrow> asm_line list" where
  "emit_expression_strings e = concat (map string_lines (filter (\<lambda>node. nd_kind node = EXPR_STRING) (ex_nodes e)))"

definition emit_program_strings :: "program_t \<Rightarrow> asm_line list" where
  "emit_program_strings prog =
     concat (map (\<lambda>l. emit_expression_strings (lc_initializer l)) (filter lc_has_initializer (pr_locals prog)))
     @ concat (map (\<lambda>st. emit_expression_strings (st_expression st) @ emit_expression_strings (st_for_init st)
         @ emit_expression_strings (st_for_update st)) (pr_statements prog))
     @ (if pr_has_explicit_return prog then emit_expression_strings (pr_return_expression prog) else [])"

section \<open>The translation unit\<close>

definition expression_uses_call_name :: "expression_t \<Rightarrow> bytes \<Rightarrow> bool" where
  "expression_uses_call_name e name \<longleftrightarrow>
     list_ex (\<lambda>node. nd_kind node = EXPR_CALL \<and> nd_call_name node = name) (ex_nodes e)"

definition program_uses_call_name :: "program_t \<Rightarrow> bytes \<Rightarrow> bool" where
  "program_uses_call_name prog name \<longleftrightarrow>
     list_ex (\<lambda>l. lc_has_initializer l \<and> expression_uses_call_name (lc_initializer l) name) (pr_locals prog)
     \<or> list_ex (\<lambda>st. expression_uses_call_name (st_expression st) name
         \<or> expression_uses_call_name (st_for_init st) name \<or> expression_uses_call_name (st_for_update st) name)
         (pr_statements prog)
     \<or> (pr_has_explicit_return prog \<and> expression_uses_call_name (pr_return_expression prog) name)"

definition unit_uses_call_name :: "translation_unit_t \<Rightarrow> bytes \<Rightarrow> bool" where
  "unit_uses_call_name unit' name \<longleftrightarrow> list_ex (\<lambda>f. program_uses_call_name f name) (tu_functions unit')"

definition extern_lines :: "translation_unit_t \<Rightarrow> asm_line list" where
  "extern_lines unit' =
     map (\<lambda>x. Verbatim (''.extern '' @ chars (xt_name x) @ newline))
       (filter (\<lambda>x. find_function unit' (xt_name x) = None \<and> unit_uses_call_name unit' (xt_name x)) (tu_externals unit'))"

fun emit_functions :: "bool \<Rightarrow> program_t list \<Rightarrow> emitter \<Rightarrow> (bool \<times> emitter) option" where
  "emit_functions later [] em = Some (True, em)"
| "emit_functions later (f # fs) em =
     do { (ok, em1) \<leftarrow> emit_function f (if later then emit [Verbatim newline] em else em);
          if \<not> ok then Some (False, em1) else emit_functions True fs em1 }"

definition zero_emitter :: emitter where
  "zero_emitter = \<lparr>em_lines = [], em_base = 0, em_depth = 0, em_label = 0, em_err = []\<rparr>"

text \<open>The version the file names when the build does not.\<close>

abbreviation (input) T32CC_VERSION :: string where "T32CC_VERSION \<equiv> ''0.9.0''"

definition assembly_head :: "asm_line list" where
  "assembly_head = [Verbatim (''; generated by t32-cc '' @ T32CC_VERSION @ newline
     @ ''; Stage 24 ABI 0.1 translation unit'' @ newline @ newline
     @ ''.section .text'' @ newline @ ''.global main'' @ newline)]"

text \<open>The lines of the output file, when it could be opened; \<open>strings\<close> is the number of string literals.\<close>

definition emit_unit :: "translation_unit_t \<Rightarrow> u32 \<Rightarrow> (bool \<times> emitter) option" where
  "emit_unit unit' strings =
     do { (ok, em) \<leftarrow> emit_functions False (tu_functions unit')
            (emit (assembly_head @ extern_lines unit' @ [Verbatim newline]) zero_emitter);
          Some (if \<not> ok then (False, em)
            else (True, if strings > 0 then emit (Verbatim (newline @ ''.section .data'' @ newline)
              # concat (map emit_program_strings (tu_functions unit'))) em else em)) }"

end
