(* ===== verification/T32_Driver.thy ===== *)
theory T32_Driver
  imports T32_Function T32_Parse_Unit T32_World
begin

text \<open>
  The driver of the compiler (\<open>emit_assembly\<close> to \<open>main\<close> of \<open>toolchain/t32-cc/src/t32-cc.c\<close>): it writes the assembly
  file, calls the assembler and the linker, and removes its temporary files. The shell with the
  programs behind it, the environment variables and \<open>malloc\<close> are parameters.
\<close>

section \<open>The host\<close>

text \<open>\<open>he_system\<close> is \<open>system\<close>: whether the command returned 0, and what it made of the file system.
  \<open>he_strerror\<close> is the reason why a path cannot be opened, \<open>he_removable\<close> whether \<open>remove\<close> may delete it.\<close>

record host_env =
  he_getenv :: "string \<Rightarrow> bytes option"
  he_system :: "bytes \<Rightarrow> world \<Rightarrow> bool \<times> world"
  he_malloc :: bool
  he_strerror :: "bytes \<Rightarrow> string"
  he_removable :: "bytes \<Rightarrow> bool"

text \<open>The file system and what was printed.\<close>

record dstate =
  d_world :: world
  d_out :: string
  d_err :: string

definition print_out :: "string \<Rightarrow> dstate \<Rightarrow> dstate" where
  "print_out s d = d\<lparr>d_out := d_out d @ s\<rparr>"

definition print_err :: "string \<Rightarrow> dstate \<Rightarrow> dstate" where
  "print_err s d = d\<lparr>d_err := d_err d @ s\<rparr>"

text \<open>\<open>snprintf\<close> of a path or a command into a buffer of \<open>n\<close> bytes.\<close>

definition fitting :: "nat \<Rightarrow> bytes \<Rightarrow> bytes" where
  "fitting n s = take (n - 1) s"

section \<open>Files\<close>

definition remove_file_quietly :: "host_env \<Rightarrow> bytes option \<Rightarrow> dstate \<Rightarrow> dstate" where
  "remove_file_quietly env path d =
     (case path of
        None \<Rightarrow> d
      | Some p \<Rightarrow> if he_removable env p
          then d\<lparr>d_world := (d_world d)\<lparr>w_files := (w_files (d_world d))(p := None)\<rparr>\<rparr> else d)"

text \<open>The result tells whether the file was written; there is none when the emitter runs out of fuel.\<close>

definition emit_assembly :: "host_env \<Rightarrow> bytes \<Rightarrow> translation_unit_t \<Rightarrow> u32 \<Rightarrow> dstate \<Rightarrow> (bool \<times> dstate) option" where
  "emit_assembly env path unit' strings d =
     (case fopen_wb path (d_world d) of
        (None, w1) \<Rightarrow> Some (False, print_err (''t32-cc: cannot create '' @ chars path @ '': '' @ he_strerror env path @ newline)
          (d\<lparr>d_world := w1\<rparr>))
      | (Some f0, w1) \<Rightarrow>
        do { (ok, em) \<leftarrow> emit_unit unit' strings;
             let f = fold (\<lambda>l. put (char_bytes (render l))) (em_lines em) f0;
                 d1 = print_err (em_err em) d;
                 (closed, f') = fflush f;
                 d2 = d1\<lparr>d_world := save_stream path f' w1\<rparr> in
             Some (if \<not> ok then (False, remove_file_quietly env (Some path) d2)
               else if \<not> closed then (False, print_err (''t32-cc: error closing '' @ chars path @ newline) d2)
               else (True, d2)) })"

section \<open>Commands\<close>

abbreviation (input) PATH_SEP :: bytes where "PATH_SEP \<equiv> [0x2F]"
abbreviation (input) NULL_REDIRECT :: bytes where "NULL_REDIRECT \<equiv> char_bytes '' >/dev/null''"

definition run_command :: "host_env \<Rightarrow> bytes \<Rightarrow> bool \<Rightarrow> dstate \<Rightarrow> bool \<times> dstate" where
  "run_command env command verbose d =
     (let d1 = if verbose then print_out (''invoke: '' @ chars command @ newline) d else d;
          full = fitting 4096 (if verbose then command else command @ NULL_REDIRECT)
      in case he_system env full (d_world d1) of (ok, w) \<Rightarrow> (ok, d1\<lparr>d_world := w\<rparr>))"

definition get_prefix :: "host_env \<Rightarrow> nat \<Rightarrow> bytes option" where
  "get_prefix env size' =
     (case he_getenv env ''T32_PREFIX'' of
        Some (c # cs) \<Rightarrow> if length (c # cs) < size' then Some (c # cs) else None
      | _ \<Rightarrow> (case he_getenv env ''HOME'' of
            Some (c # cs) \<Rightarrow> Some (fitting size' ((c # cs) @ PATH_SEP @ char_bytes ''.local''))
          | _ \<Rightarrow> None))"

definition make_temp_path :: "bytes \<Rightarrow> string \<Rightarrow> nat \<Rightarrow> bytes" where
  "make_temp_path output suffix size' = fitting size' (output @ char_bytes suffix)"

definition quoted_path :: "bytes \<Rightarrow> bytes" where
  "quoted_path path = [0x22] @ path @ [0x22]"

definition assembler_command :: "bytes \<Rightarrow> bytes \<Rightarrow> bytes" where
  "assembler_command assembly object =
     fitting 8192 (char_bytes ''t32-as -f obj '' @ quoted_path assembly @ char_bytes '' -o '' @ quoted_path object)"

definition assemble_object :: "host_env \<Rightarrow> bytes \<Rightarrow> bytes \<Rightarrow> bool \<Rightarrow> dstate \<Rightarrow> bool \<times> dstate" where
  "assemble_object env assembly object verbose d =
     (case run_command env (assembler_command assembly object) verbose d of (ok, d1) \<Rightarrow>
        if ok then (True, d1)
        else (False, remove_file_quietly env (Some object) (print_err (''t32-cc: assembler failed'' @ newline) d1)))"

definition linker_command :: "bytes \<Rightarrow> bytes \<Rightarrow> bytes \<Rightarrow> bytes \<Rightarrow> bytes" where
  "linker_command crt0 object library output =
     fitting 8192 (char_bytes ''t32-ld '' @ quoted_path crt0 @ [0x20] @ quoted_path object @ [0x20] @ quoted_path library
       @ char_bytes '' -o '' @ quoted_path output)"

definition link_program :: "host_env \<Rightarrow> bytes \<Rightarrow> bytes \<Rightarrow> bool \<Rightarrow> dstate \<Rightarrow> bool \<times> dstate" where
  "link_program env object output verbose d =
     (case get_prefix env 1024 of
        None \<Rightarrow> (False, print_err (''t32-cc: cannot determine T32 installation prefix'' @ newline) d)
      | Some prefix \<Rightarrow>
        let dir = prefix @ PATH_SEP @ char_bytes ''lib'' @ PATH_SEP @ char_bytes ''t32'' @ PATH_SEP;
            crt0 = fitting 1400 (dir @ char_bytes ''crt0.o'');
            library = fitting 1400 (dir @ char_bytes ''libt32.a'') in
        (case fopen_rb crt0 (d_world d) of
           (None, w1) \<Rightarrow> (False, print_err (''t32-cc: missing startup object: '' @ chars crt0 @ newline) (d\<lparr>d_world := w1\<rparr>))
         | (Some _, w1) \<Rightarrow>
           (case fopen_rb library w1 of
              (None, w2) \<Rightarrow>
                (False, print_err (''t32-cc: missing runtime library: '' @ chars library @ newline) (d\<lparr>d_world := w2\<rparr>))
            | (Some _, w2) \<Rightarrow>
              (case run_command env (linker_command crt0 object library output) verbose (d\<lparr>d_world := w2\<rparr>) of (ok, d3) \<Rightarrow>
                 if ok then (True, d3)
                 else (False, remove_file_quietly env (Some output)
                   (print_err (''t32-cc: linker failed'' @ newline) d3))))))"

section \<open>The phases\<close>

text \<open>Where the phases write: the temporary files are named after the output.\<close>

definition assembly_path :: "output_mode_t \<Rightarrow> bytes \<Rightarrow> bytes" where
  "assembly_path mode output = (if mode = MODE_ASSEMBLY then output else make_temp_path output ''.t32cc.s'' 1200)"

definition object_path :: "output_mode_t \<Rightarrow> bytes \<Rightarrow> bytes" where
  "object_path mode output = (if mode = MODE_OBJECT then output else make_temp_path output ''.t32cc.o'' 1200)"

text \<open>The phases behind the assembly file: success, and the path of the object file once it is set.\<close>

definition assemble_and_link :: "host_env \<Rightarrow> output_mode_t \<Rightarrow> bool \<Rightarrow> bytes \<Rightarrow> dstate \<Rightarrow> bool \<times> bytes option \<times> dstate" where
  "assemble_and_link env mode verbose output d =
     (if mode = MODE_ASSEMBLY then (True, None, d)
      else let object = object_path mode output in
        case assemble_object env (assembly_path mode output) object verbose d of (assembled, d1) \<Rightarrow>
          if \<not> assembled then (False, Some object, d1)
          else if mode = MODE_OBJECT then (True, Some object, d1)
          else case link_program env object output verbose d1 of (linked, d2) \<Rightarrow> (linked, Some object, d2))"

text \<open>From a translation unit to the label \<open>done\<close>.\<close>

definition run_phases :: "host_env \<Rightarrow> cc_options_t \<Rightarrow> bytes \<Rightarrow> bytes \<Rightarrow> translation_unit_t \<Rightarrow> u32 \<Rightarrow> dstate
    \<Rightarrow> (bool \<times> bytes option \<times> dstate) option" where
  "run_phases env opt input output unit' strings d =
     (let assembly = assembly_path (cc_mode opt) output;
          d0 = if cc_verbose opt then print_out (''compile: '' @ chars input @ '' -> '' @ chars assembly @ newline) d else d in
      map_option (\<lambda>(written, d1). if \<not> written then (False, None, d1)
          else assemble_and_link env (cc_mode opt) (cc_verbose opt) output d1)
        (emit_assembly env assembly unit' strings d0))"

text \<open>From the label \<open>done\<close> on; the result is the exit code.\<close>

definition clean_up :: "host_env \<Rightarrow> output_mode_t \<Rightarrow> bytes \<Rightarrow> bool \<times> bytes option \<times> dstate \<Rightarrow> nat \<times> dstate" where
  "clean_up env mode output result =
     (case result of (success, object, d) \<Rightarrow>
      let d1 = if mode \<noteq> MODE_ASSEMBLY then remove_file_quietly env (Some (assembly_path mode output)) d else d;
          d2 = if mode = MODE_LINK then remove_file_quietly env object d1 else d1;
          d3 = if \<not> success then remove_file_quietly env (Some output) d2 else d2
      in (if success then 0 else 1, d3))"

text \<open>A source that was read.\<close>

definition compile_source :: "host_env \<Rightarrow> cc_options_t \<Rightarrow> bytes \<Rightarrow> bytes \<Rightarrow> bytes \<Rightarrow> dstate \<Rightarrow> (nat \<times> dstate) option" where
  "compile_source env opt input output source d =
     (case parse_translation_unit (start_state input source) of (result, s) \<Rightarrow>
      let d1 = print_err (ps_err (cp_parser s)) d in
      if cp_fuel_out s then None
      else case result of
        None \<Rightarrow> Some (1, d1)
      | Some unit' \<Rightarrow>
          map_option (clean_up env (cc_mode opt) output) (run_phases env opt input output unit' (cp_next_string s) d1))"

text \<open>\<open>main\<close> with the arguments behind the program name; \<open>exit\<close> is a return.\<close>

definition cc_main :: "host_env \<Rightarrow> bytes \<Rightarrow> bytes list \<Rightarrow> dstate \<Rightarrow> (nat \<times> dstate) option" where
  "cc_main env program_name args d =
     (if args = [] then Some (1, print_err (cc_print_usage program_name) d)
      else case cc_parse_options program_name args 1024 of
        Inl (Cc_Exit s) \<Rightarrow> Some (0, print_out s d)
      | Inl (Cc_Bad s) \<Rightarrow> Some (1, print_err s d)
      | Inr opt \<Rightarrow>
        let input = the (cc_input_path opt); output = the (cc_output_path opt) in
        (case fopen_rb input (d_world d) of (f, w1) \<Rightarrow>
         case read_entire_file input (case f of None \<Rightarrow> Inl (he_strerror env input) | Some g \<Rightarrow> Inr g) (he_malloc env) of
           Inl message \<Rightarrow> Some (1, print_err message (d\<lparr>d_world := w1\<rparr>))
         | Inr source \<Rightarrow> compile_source env opt input output source (d\<lparr>d_world := w1\<rparr>)))"

end
