(* ===== verification/T32_Tree.thy ===== *)
theory T32_Tree
  imports T32_Ast
begin

text \<open>
  Expression trees, which node tables of the compiler represent (\<open>denotes\<close>), and the well-formedness
  of a table: children come before their parents, local variables exist and are of the right kind, a
  call has at most four arguments. Every node of a well-formed table has a tree, no deeper than its
  place in the table.
\<close>

section \<open>Trees\<close>

datatype tree =
    Const u32
  | Var nat
  | Str u32
  | Addr nat
  | Deref bool tree
  | Index bool nat tree
  | Member bool nat u32
  | Arrow bool nat u32
  | Bin token_kind_t u32 tree tree
  | Fun bytes "tree list"

definition is_operator :: "token_kind_t \<Rightarrow> bool" where
  "is_operator k \<longleftrightarrow> k \<in> {TOK_PLUS, TOK_MINUS, TOK_STAR, TOK_SLASH, TOK_PERCENT, TOK_EQ, TOK_NE,
     TOK_LT, TOK_GT, TOK_LE, TOK_GE}"

fun depth :: "tree \<Rightarrow> nat" where
  "depth (Deref b t) = Suc (depth t)"
| "depth (Index b i t) = Suc (depth t)"
| "depth (Bin k s l r) = Suc (max (depth l) (depth r))"
| "depth (Fun f ts) = Max (set (0 # map (\<lambda>t. Suc (depth t)) ts))"
| "depth _ = 0"

fun tree_ok :: "program_t \<Rightarrow> tree \<Rightarrow> bool" where
  "tree_ok prog (Const v) = True"
| "tree_ok prog (Str n) = True"
| "tree_ok prog (Var i) = (i < length (pr_locals prog))"
| "tree_ok prog (Addr i) = (i < length (pr_locals prog))"
| "tree_ok prog (Deref b t) = tree_ok prog t"
| "tree_ok prog (Index b i t) = (i < length (pr_locals prog) \<and> tree_ok prog t)"
| "tree_ok prog (Member b i off) = (i < length (pr_locals prog))"
| "tree_ok prog (Arrow b i off) = (i < length (pr_locals prog))"
| "tree_ok prog (Bin k s l r) = (is_operator k \<and> tree_ok prog l \<and> tree_ok prog r)"
| "tree_ok prog (Fun f ts) = list_all (tree_ok prog) ts"

section \<open>The tree of a node\<close>

inductive denotes :: "expression_t \<Rightarrow> nat \<Rightarrow> tree \<Rightarrow> bool" for e where
  d_const: "denotes e i (Const (op_value (nd_operand nd)))"
    if "i < length (ex_nodes e)" "ex_nodes e ! i = nd" "nd_kind nd = EXPR_OPERAND" "nd_call_args nd = []"
      "op_kind (nd_operand nd) = OPERAND_INTEGER"
| d_var: "denotes e i (Var (unat (op_value (nd_operand nd))))"
    if "i < length (ex_nodes e)" "ex_nodes e ! i = nd" "nd_kind nd = EXPR_OPERAND" "nd_call_args nd = []"
      "op_kind (nd_operand nd) = OPERAND_LOCAL"
| d_str: "denotes e i (Str (nd_string_id nd))"
    if "i < length (ex_nodes e)" "ex_nodes e ! i = nd" "nd_kind nd = EXPR_STRING" "nd_call_args nd = []"
| d_addr: "denotes e i (Addr (nd_local_index nd))"
    if "i < length (ex_nodes e)" "ex_nodes e ! i = nd" "nd_kind nd = EXPR_ADDRESS_OF" "nd_call_args nd = []"
| d_deref: "denotes e i (Deref (nd_byte_access nd) t)"
    if "i < length (ex_nodes e)" "ex_nodes e ! i = nd" "nd_kind nd = EXPR_DEREF" "denotes e (nd_child nd) t"
| d_index: "denotes e i (Index (nd_byte_access nd) (nd_array_local nd) t)"
    if "i < length (ex_nodes e)" "ex_nodes e ! i = nd" "nd_kind nd = EXPR_ARRAY_SUBSCRIPT"
      "denotes e (nd_child nd) t"
| d_member: "denotes e i (Member (nd_byte_access nd) (nd_local_index nd) (nd_member_offset nd))"
    if "i < length (ex_nodes e)" "ex_nodes e ! i = nd" "nd_kind nd = EXPR_STRUCT_MEMBER"
      "nd_call_args nd = []" "nd_array_local nd = 0"
| d_arrow: "denotes e i (Arrow (nd_byte_access nd) (nd_local_index nd) (nd_member_offset nd))"
    if "i < length (ex_nodes e)" "ex_nodes e ! i = nd" "nd_kind nd = EXPR_STRUCT_MEMBER"
      "nd_call_args nd = []" "nd_array_local nd \<noteq> 0"
| d_bin: "denotes e i (Bin (nd_operator_kind nd) (nd_pointer_scale nd) l r)"
    if "i < length (ex_nodes e)" "ex_nodes e ! i = nd" "nd_kind nd = EXPR_BINARY"
      "denotes e (nd_left nd) l" "denotes e (nd_right nd) r"
| d_fun: "denotes e i (Fun (nd_call_name nd) ts)"
    if "i < length (ex_nodes e)" "ex_nodes e ! i = nd" "nd_kind nd = EXPR_CALL"
      "list_all2 (denotes e) (nd_call_args nd) ts"
  monos list.rel_mono_strong

section \<open>Well-formed tables\<close>

definition local_ok :: "program_t \<Rightarrow> nat \<Rightarrow> bool" where
  "local_ok prog i \<longleftrightarrow> i < length (pr_locals prog)"

definition node_ok :: "program_t \<Rightarrow> nat \<Rightarrow> expression_node_t \<Rightarrow> bool" where
  "node_ok prog i node =
     (case nd_kind node of
        EXPR_OPERAND \<Rightarrow> nd_call_args node = []
          \<and> (op_kind (nd_operand node) = OPERAND_LOCAL \<longrightarrow> local_ok prog (unat (op_value (nd_operand node))))
      | EXPR_STRING \<Rightarrow> nd_call_args node = [] \<and> length (nd_string_value node) < 160
      | EXPR_ADDRESS_OF \<Rightarrow> nd_call_args node = [] \<and> local_ok prog (nd_local_index node)
      | EXPR_DEREF \<Rightarrow> nd_child node < i
      | EXPR_ARRAY_SUBSCRIPT \<Rightarrow> nd_child node < i \<and> local_ok prog (nd_array_local node)
          \<and> lc_is_array (pr_locals prog ! nd_array_local node)
      | EXPR_STRUCT_MEMBER \<Rightarrow> nd_call_args node = [] \<and> local_ok prog (nd_local_index node)
          \<and> lc_is_struct (pr_locals prog ! nd_local_index node)
          \<and> (lc_is_pointer (pr_locals prog ! nd_local_index node) \<longleftrightarrow> nd_array_local node \<noteq> 0)
      | EXPR_CALL \<Rightarrow> length (nd_call_args node) \<le> 4 \<and> list_all (\<lambda>a. a < i) (nd_call_args node)
          \<and> length (nd_call_name node) < 64
      | EXPR_BINARY \<Rightarrow> nd_left node < i \<and> nd_right node < i \<and> is_operator (nd_operator_kind node)
          \<and> nd_pointer_scale node \<in> {0, 1, 4})"

definition table_ok :: "program_t \<Rightarrow> expression_t \<Rightarrow> bool" where
  "table_ok prog e \<longleftrightarrow> length (ex_nodes e) \<le> MAX_EXPRESSION_NODES
     \<and> list_all (\<lambda>i. node_ok prog i (ex_nodes e ! i)) [0..<length (ex_nodes e)]"

lemma table_okD: "table_ok prog e \<Longrightarrow> i < length (ex_nodes e) \<Longrightarrow> node_ok prog i (ex_nodes e ! i)"
  by (simp add: table_ok_def list_all_iff)

lemma table_ok_snoc:
  "table_ok prog (e\<lparr>ex_nodes := ex_nodes e @ [node]\<rparr>) \<longleftrightarrow>
   table_ok prog e \<and> length (ex_nodes e) < MAX_EXPRESSION_NODES \<and> node_ok prog (length (ex_nodes e)) node"
  by (auto simp: table_ok_def list_all_iff nth_append)

lemma table_ok_root [simp]: "table_ok prog (e\<lparr>ex_root := r\<rparr>) = table_ok prog e"
  by (simp add: table_ok_def)

lemma table_ok_zero [simp]: "table_ok prog zero_expression"
  by (simp add: table_ok_def zero_expression_def)

text \<open>Every node of a well-formed table has a well-formed tree.\<close>

lemma table_denotes:
  assumes "table_ok prog e"
  shows "i < length (ex_nodes e) \<Longrightarrow> \<exists>t. denotes e i t \<and> tree_ok prog t \<and> depth t \<le> i"
proof (induction i rule: less_induct)
  case (less i)
  let ?nd = "ex_nodes e ! i"
  have ok: "node_ok prog i ?nd" using table_okD assms less.prems by blast
  have sub: "\<exists>t. denotes e j t \<and> tree_ok prog t \<and> depth t < i" if "j < i" for j
    using less.IH [OF that] less.prems that by force
  show ?case
  proof (cases "nd_kind ?nd")
    case EXPR_OPERAND
    with ok d_const [OF less.prems refl] d_var [OF less.prems refl] show ?thesis
      by (cases "op_kind (nd_operand ?nd)")
        (force simp: node_ok_def local_ok_def)+
  next
    case EXPR_DEREF
    with ok obtain t where "denotes e (nd_child ?nd) t" "tree_ok prog t" "depth t < i"
      using sub by (auto simp: node_ok_def)
    with d_deref [OF less.prems refl EXPR_DEREF] show ?thesis by force
  next
    case EXPR_ARRAY_SUBSCRIPT
    with ok obtain t where "denotes e (nd_child ?nd) t" "tree_ok prog t" "depth t < i"
      using sub by (auto simp: node_ok_def)
    with d_index [OF less.prems refl EXPR_ARRAY_SUBSCRIPT] ok EXPR_ARRAY_SUBSCRIPT show ?thesis
      by (force simp: node_ok_def local_ok_def)
  next
    case EXPR_BINARY
    with ok have "nd_left ?nd < i" "nd_right ?nd < i" by (auto simp: node_ok_def)
    then obtain l r where "denotes e (nd_left ?nd) l" "tree_ok prog l" "depth l < i"
        "denotes e (nd_right ?nd) r" "tree_ok prog r" "depth r < i"
      using sub by metis
    with d_bin [OF less.prems refl EXPR_BINARY] ok EXPR_BINARY show ?thesis
      by (force simp: node_ok_def)
  next
    case EXPR_CALL
    have "\<exists>ts. list_all2 (denotes e) as ts \<and> list_all (tree_ok prog) ts \<and> list_all (\<lambda>t. depth t < i) ts"
      if "list_all (\<lambda>a. a < i) as" for as
      using that sub by (induction as) (force simp: list_all2_Cons1)+
    then obtain ts where ts: "list_all2 (denotes e) (nd_call_args ?nd) ts" "list_all (tree_ok prog) ts"
        "list_all (\<lambda>t. depth t < i) ts"
      using ok EXPR_CALL by (auto simp: node_ok_def)
    have "depth (Fun (nd_call_name ?nd) ts) \<le> i" using ts(3) by (auto simp: list_all_iff Suc_le_eq)
    with d_fun [OF less.prems refl EXPR_CALL ts(1)] ts(2) show ?thesis by force
  next
    case EXPR_STRUCT_MEMBER
    with ok d_member [OF less.prems refl] d_arrow [OF less.prems refl] show ?thesis
      by (cases "nd_array_local ?nd = 0") (force simp: node_ok_def local_ok_def)+
  qed (use ok d_str [OF less.prems refl] d_addr [OF less.prems refl] in \<open>force simp: node_ok_def local_ok_def\<close>)+
qed

end
