(* ===== verification/T32_Parse_Laws.thy ===== *)
theory T32_Parse_Laws
  imports T32_Parse T32_Tree T32_Cc
begin

text \<open>
  Laws of the expression parser. \<open>outcome\<close> is the contract of its functions: the fuel suffices, the
  table stays well-formed and only grows, and the parser only moves forward. From it follow the
  termination of the parser and the well-formedness of what it builds.
\<close>

section \<open>Progress\<close>

text \<open>A bound on the tokens that are left; a parser that cannot go on has none.\<close>

definition left_tokens :: "pstate \<Rightarrow> nat" where
  "left_tokens s = (if current_kind s \<in> {TOK_EOF, TOK_INVALID} then 0
     else Suc (remaining (ps_lexer (cp_parser s))))"

text \<open>The parser goes on only with a failed state whose current token is invalid.\<close>

definition settled :: "pstate \<Rightarrow> bool" where
  "settled s \<longleftrightarrow> (ps_failed (cp_parser s) \<longrightarrow> current_kind s = TOK_INVALID)"

definition parse_inv :: "pstate \<Rightarrow> bool" where
  "parse_inv s \<longleftrightarrow> settled s \<and> length (pr_locals (cp_program s)) \<le> MAX_LOCALS
     \<and> table_ok (cp_program s) (cp_expr s)"

definition grows :: "pstate \<Rightarrow> pstate \<Rightarrow> bool" where
  "grows s s' \<longleftrightarrow> cp_program s' = cp_program s \<and> cp_structs s' = cp_structs s \<and> source_of s' = source_of s
     \<and> ps_loop_depth (cp_parser s') = ps_loop_depth (cp_parser s) \<and> cp_fuel_out s' = cp_fuel_out s
     \<and> left_tokens s' \<le> left_tokens s \<and> (\<exists>ns. ex_nodes (cp_expr s') = ex_nodes (cp_expr s) @ ns)"

lemma grows_refl [simp]: "grows s s"
  by (simp add: grows_def)

lemma grows_trans: "grows s s' \<Longrightarrow> grows s' s'' \<Longrightarrow> grows s s''"
  by (auto simp: grows_def)

lemma grows_left: "grows s s' \<Longrightarrow> left_tokens s' \<le> left_tokens s"
  by (simp add: grows_def)

definition outcome :: "pstate \<Rightarrow> ('a \<Rightarrow> pstate \<Rightarrow> bool) \<Rightarrow> 'a option \<times> pstate \<Rightarrow> bool" where
  "outcome s Q r = (case r of (None, s') \<Rightarrow> cp_fuel_out s' = cp_fuel_out s
     | (Some x, s') \<Rightarrow> parse_inv s' \<and> grows s s' \<and> Q x s')"

lemma outcome_simps [simp]:
  "outcome s Q (None, s') \<longleftrightarrow> cp_fuel_out s' = cp_fuel_out s"
  "outcome s Q (Some x, s') \<longleftrightarrow> parse_inv s' \<and> grows s s' \<and> Q x s'"
  "outcome s Q (fail m s') \<longleftrightarrow> cp_fuel_out s' = cp_fuel_out s"
  by (simp_all add: outcome_def fail_def)

lemma outcome_and_then:
  assumes "outcome s Q r" "\<And>x s'. parse_inv s' \<Longrightarrow> grows s s' \<Longrightarrow> Q x s' \<Longrightarrow> outcome s Q' (f x s')"
  shows "outcome s Q' (and_then r f)"
  using assms by (cases r; cases "fst r") (auto simp: and_then_def)

lemma outcome_after: "grows s s' \<Longrightarrow> outcome s' Q r \<Longrightarrow> outcome s Q r"
  by (auto simp: outcome_def grows_def split: prod.splits option.splits)

lemma outcome_mono: "outcome s Q r \<Longrightarrow> (\<And>x s'. Q x s' \<Longrightarrow> Q' x s') \<Longrightarrow> outcome s Q' r"
  by (auto simp: outcome_def split: prod.splits option.splits)

lemma outcome_grows: "outcome s Q r \<Longrightarrow> outcome s (\<lambda>x s'. Q x s' \<and> grows s s') r"
  by (auto simp: outcome_def split: prod.splits option.splits)

subsection \<open>The steps of the parser\<close>

interpretation lexer_source: lexer_invariant "\<lambda>l. lx_source l = source" for source
  by unfold_locales simp

lemma next_token_source [simp]: "lexer_next_token l = (t, l', msg) \<Longrightarrow> lx_source l' = lx_source l"
  using lexer_source.next_token [of l] by simp

lemma parser_advance_fields [simp]:
  "ps_loop_depth (parser_advance p) = ps_loop_depth p"
  "lx_source (ps_lexer (parser_advance p)) = lx_source (ps_lexer p)"
  using lexer_source.next_token [of "ps_lexer p"]
  by (auto simp: parser_advance_def parser_error_def Let_def split: prod.split)

lemma advance_fields [simp]:
  "cp_program (advance s) = cp_program s" "cp_structs (advance s) = cp_structs s"
  "cp_expr (advance s) = cp_expr s" "cp_fuel_out (advance s) = cp_fuel_out s"
  "cp_next_string (advance s) = cp_next_string s" "source_of (advance s) = source_of s"
  "ps_loop_depth (cp_parser (advance s)) = ps_loop_depth (cp_parser s)"
  by (simp_all add: advance_def source_of_def)

lemma advance_cases:
  obtains "ps_failed (cp_parser s)" "advance s = s"
  | t l msg where "\<not> ps_failed (cp_parser s)" "lexer_next_token (ps_lexer (cp_parser s)) = (t, l, msg)"
      "ps_lexer (cp_parser (advance s)) = l" "current_token (advance s) = t"
      "ps_failed (cp_parser (advance s)) \<longleftrightarrow> tk_kind t = TOK_INVALID"
proof (cases "ps_failed (cp_parser s)")
  case True
  then show ?thesis using that(1) by (simp add: advance_def parser_advance_def)
next
  case False
  obtain t l msg where n: "lexer_next_token (ps_lexer (cp_parser s)) = (t, l, msg)" by (metis surj_pair)
  show ?thesis
    by (rule that(2) [OF False n])
      (use n False in \<open>auto simp: advance_def parser_advance_def parser_error_def Let_def current_token_def\<close>)
qed

lemma settled_advance: "settled s \<Longrightarrow> settled (advance s)"
  by (cases s rule: advance_cases) (auto simp: settled_def current_kind_def)

text \<open>A token that can be passed.\<close>

definition solid :: "token_kind_t \<Rightarrow> bool" where
  "solid k \<longleftrightarrow> k \<noteq> TOK_EOF \<and> k \<noteq> TOK_INVALID"

lemma solid_running: "settled s \<Longrightarrow> solid (current_kind s) \<Longrightarrow> \<not> ps_failed (cp_parser s)"
  by (auto simp: settled_def solid_def)

lemma left_advance:
  assumes "settled s" "solid (current_kind s)"
  shows "left_tokens (advance s) < left_tokens s"
proof (cases s rule: advance_cases)
  case 1
  with solid_running [OF assms] show ?thesis by simp
next
  case (2 t l msg)
  have "remaining l < remaining (ps_lexer (cp_parser s))" if "tk_kind t \<noteq> TOK_EOF"
    using next_token_progress [OF 2(2) that] .
  with 2 assms(2) show ?thesis by (auto simp: left_tokens_def current_kind_def solid_def)
qed

lemma grows_advance:
  "settled s \<Longrightarrow> solid (current_kind s) \<Longrightarrow> grows s (advance s)"
  using left_advance [of s] by (simp add: grows_def)

lemma parse_inv_advance: "parse_inv s \<Longrightarrow> parse_inv (advance s)"
  by (simp add: parse_inv_def settled_advance)

lemma advance_from:
  assumes "parse_inv s'" "grows s s'" "solid (current_kind s')"
  shows "grows s (advance s')" "parse_inv (advance s')" "left_tokens (advance s') < left_tokens s"
  using assms parse_inv_advance grows_trans [OF assms(2) grows_advance] left_advance [of s'] grows_left [OF assms(2)]
  by (simp_all add: parse_inv_def)

text \<open>What the parser says when it looks ahead does not matter to it.\<close>

lemma next_is_fields:
  assumes "next_is k s = (b, s')"
  shows "current_token s' = current_token s" "ps_lexer (cp_parser s') = ps_lexer (cp_parser s)"
    "ps_failed (cp_parser s') = ps_failed (cp_parser s)"
    "cp_program s' = cp_program s" "cp_structs s' = cp_structs s" "cp_expr s' = cp_expr s"
    "cp_fuel_out s' = cp_fuel_out s" "source_of s' = source_of s" "cp_next_string s' = cp_next_string s"
    "ps_loop_depth (cp_parser s') = ps_loop_depth (cp_parser s)"
  using assms by (auto simp: next_is_def current_token_def source_of_def split: if_splits prod.splits)

lemma next_is_inv: "next_is k s = (b, s') \<Longrightarrow> parse_inv s \<Longrightarrow> parse_inv s' \<and> grows s s'"
  using next_is_fields [of k s b s']
  by (simp add: parse_inv_def settled_def grows_def left_tokens_def current_kind_def)

lemma next_is_true:
  assumes "next_is k s = (True, s')" "settled s"
  shows "current_kind s' = TOK_IDENTIFIER" "current_kind (advance s') = k"
proof -
  have k: "current_kind s = TOK_IDENTIFIER" using assms(1) by (auto simp: next_is_def split: if_splits)
  then show k': "current_kind s' = TOK_IDENTIFIER" using next_is_fields(1) [OF assms(1)] by (simp add: current_kind_def)
  have run: "\<not> ps_failed (cp_parser s')"
    using solid_running [OF assms(2)] k next_is_fields(3) [OF assms(1)] by (simp add: solid_def)
  show "current_kind (advance s') = k"
  proof (cases s' rule: advance_cases)
    case (2 t l msg)
    then show ?thesis using assms(1) k next_is_fields(2) [OF assms(1)]
      by (auto simp: next_is_def current_kind_def)
  qed (use run in simp)
qed

lemma outcome_expect:
  assumes "parse_inv s" "solid kind"
  shows "outcome s (\<lambda>_ s'. s' = advance s \<and> left_tokens s' < left_tokens s) (expect kind d s)"
proof (cases "current_kind s = kind")
  case True
  then have "solid (current_kind s)" "settled s" using assms by (simp_all add: parse_inv_def)
  then show ?thesis using True parse_inv_advance [OF assms(1)] grows_advance [of s] left_advance [of s]
    by (auto simp: expect_def parser_expect_kind_def Let_def advance_def current_kind_def current_token_def)
qed (simp add: expect_def parser_expect_kind_def current_kind_def current_token_def)

lemma outcome_add_node:
  assumes "parse_inv s" "node_ok (cp_program s) (length (ex_nodes (cp_expr s))) node"
  shows "outcome s (\<lambda>i s'. i < length (ex_nodes (cp_expr s'))) (expression_add_node node s)"
  using assms
  by (auto simp: expression_add_node_def Let_def parse_inv_def table_ok_snoc settled_def current_kind_def
      current_token_def grows_def source_of_def left_tokens_def)

subsection \<open>Leaves\<close>

lemma find_index_less: "find_index P xs = Some i \<Longrightarrow> i < length xs \<and> P (xs ! i)"
  by (induction xs arbitrary: i) (auto split: if_splits)

lemma find_local_less: "find_local s t = Some i \<Longrightarrow> i < length (pr_locals (cp_program s))"
  by (auto simp: find_local_def dest: find_index_less)

lemma local_index_word:
  "parse_inv s \<Longrightarrow> i < length (pr_locals (cp_program s)) \<Longrightarrow> unat (of_nat i :: u32) = i"
  by (simp add: parse_inv_def unat_of_nat32)

lemma outcome_operand:
  assumes "parse_inv s"
  shows "outcome s (\<lambda>v s'. cp_expr s' = cp_expr s \<and> (op_kind v = OPERAND_LOCAL \<longrightarrow> local_ok (cp_program s) (unat (op_value v))))
    (parse_operand s)"
proof -
  have st: "settled s" using assms by (simp add: parse_inv_def)
  have adv: "parse_inv (advance s) \<and> grows s (advance s) \<and> settled (advance s)" if "solid (current_kind s)"
    using that parse_inv_advance [OF assms] grows_advance [OF st] by (simp add: parse_inv_def)
  have twice: "parse_inv (advance (advance s)) \<and> grows s (advance (advance s))"
    if "solid (current_kind s)" "solid (current_kind (advance s))"
    using that adv [OF that(1)] parse_inv_advance [of "advance s"] grows_advance [of "advance s"] grows_trans
    by blast
  have "local_ok (cp_program s) (unat (of_nat i :: u32))" if "find_local s t = Some i" for t i
    using find_local_less [OF that] local_index_word [OF assms] by (simp add: local_ok_def)
  then show ?thesis using adv twice
    by (auto simp: parse_operand_def parse_integer_literal_def fail_def Let_def solid_def split: option.split)
qed

lemma decode_string_length: "decode_string t out = Inr v \<Longrightarrow> length out < 160 \<Longrightarrow> length v < 160"
  by (induction t out rule: decode_string.induct) (auto split: if_splits option.splits)

lemma zero_node_simps [simp]: "nd_call_args zero_node = []"
  by (simp add: zero_node_def)

definition fresh_node :: "nat \<Rightarrow> pstate \<Rightarrow> bool" where
  "fresh_node i s \<longleftrightarrow> i < length (ex_nodes (cp_expr s))"

lemma fresh_node_grows: "fresh_node i s \<Longrightarrow> grows s s' \<Longrightarrow> fresh_node i s'"
  by (auto simp: fresh_node_def grows_def)

lemma outcome_add_leaf:
  assumes "grows s s'" "parse_inv s'" "node_ok (cp_program s') (length (ex_nodes (cp_expr s'))) node"
  shows "outcome s fresh_node (expression_add_node node s')"
  using outcome_after [OF assms(1) outcome_add_node [OF assms(2,3)]] by (simp add: fresh_node_def [abs_def])

lemma outcome_string:
  assumes "parse_inv s" "current_kind s = TOK_STRING"
  shows "outcome s fresh_node (parse_string s)"
proof -
  let ?s1 = "s\<lparr>cp_next_string := cp_next_string s + 1\<rparr>"
  have k: "solid (current_kind ?s1)" using assms(2) by (simp add: solid_def current_kind_def current_token_def)
  have i: "parse_inv ?s1" "grows s ?s1"
    using assms(1) by (simp_all add: parse_inv_def settled_def grows_def current_kind_def current_token_def
        source_of_def left_tokens_def)
  then have "grows s (advance ?s1)" using grows_advance [OF _ k] grows_trans by (auto simp: parse_inv_def)
  moreover have "parse_inv (advance ?s1)" using parse_inv_advance [OF i(1)] .
  ultimately have "outcome s fresh_node (expression_add_node (zero_node\<lparr>nd_kind := EXPR_STRING,
      nd_string_id := cp_next_string s, nd_string_value := v\<rparr>) (advance ?s1))"
    if "decode_string (current_text s) [] = Inr v" for v
    using decode_string_length [OF that] by (intro outcome_add_leaf) (simp_all add: node_ok_def)
  then show ?thesis by (auto simp: parse_string_def Let_def split: sum.split)
qed

lemma outcome_member:
  assumes "parse_inv s" "solid (current_kind s)" "solid (current_kind (advance s))"
  shows "outcome s fresh_node (parse_member b s)"
proof -
  let ?s1 = "advance (advance s)"
  have st: "settled s" "settled (advance s)" using assms(1) settled_advance by (auto simp: parse_inv_def)
  have i1: "parse_inv ?s1" "grows s ?s1"
    using parse_inv_advance assms(1) grows_trans [OF grows_advance [OF st(1) assms(2)] grows_advance [OF st(2) assms(3)]]
    by blast+
  have i2: "parse_inv (advance ?s1)" "grows s (advance ?s1)" if "current_kind ?s1 = TOK_IDENTIFIER"
    using that i1 parse_inv_advance grows_trans [OF i1(2) grows_advance [of ?s1]] by (auto simp: parse_inv_def solid_def)
  show ?thesis
    using i2 find_local_less [of s]
    by (auto simp: parse_member_def Let_def local_at_def node_ok_def local_ok_def
        intro!: outcome_add_leaf split: option.split)
qed

lemma node_type_total:
  "table_ok prog e \<Longrightarrow> i < k \<Longrightarrow> expression_node_type k prog e i \<noteq> None"
proof (induction k arbitrary: i)
  case (Suc k)
  show ?case
  proof (cases "i < length (ex_nodes e)")
    case True
    then have "node_ok prog i (ex_nodes e ! i)" using table_okD Suc.prems(1) by blast
    then have "nd_kind (ex_nodes e ! i) = EXPR_BINARY \<Longrightarrow> nd_left (ex_nodes e ! i) < k"
      using Suc.prems(2) by (auto simp: node_ok_def)
    then show ?thesis using Suc by (auto simp: Let_def)
  qed simp
qed simp

lemma type_of_total: "parse_inv s \<Longrightarrow> fresh_node i s \<Longrightarrow> type_of s i \<noteq> None"
  using node_type_total [of "cp_program s" "cp_expr s" i "Suc MAX_EXPRESSION_NODES"]
  by (auto simp: type_of_def parse_inv_def fresh_node_def table_ok_def)

subsection \<open>Binary operators\<close>

definition builds :: "token_kind_t list \<Rightarrow> (token_kind_t \<Rightarrow> nat \<Rightarrow> nat \<Rightarrow> pstate \<Rightarrow> expression_node_t option \<times> pstate) \<Rightarrow> bool" where
  "builds ops build \<longleftrightarrow> (\<forall>k l r s. k \<in> set ops \<longrightarrow> parse_inv s \<longrightarrow> fresh_node l s \<longrightarrow> fresh_node r s \<longrightarrow>
     outcome s (\<lambda>node s'. s' = s \<and> node_ok (cp_program s) (length (ex_nodes (cp_expr s))) node) (build k l r s))"

lemma builds_plain: "list_all is_operator ops \<Longrightarrow> builds ops plain_binary"
  by (auto simp: builds_def plain_binary_def binary_node_def node_ok_def fresh_node_def list_all_iff zero_node_def)

lemma builds_additive: "builds [TOK_PLUS, TOK_MINUS] additive_node"
  unfolding builds_def
proof (intro allI impI)
  fix k l r s
  assume a: "k \<in> set [TOK_PLUS, TOK_MINUS]" "parse_inv s" "fresh_node l s" "fresh_node r s"
  then obtain tl tr where "type_of s l = Some tl" "type_of s r = Some tr" using type_of_total by blast
  with a show "outcome s (\<lambda>node s'. s' = s \<and> node_ok (cp_program s) (length (ex_nodes (cp_expr s))) node)
      (additive_node k l r s)"
    by (auto simp: additive_node_def binary_node_def node_ok_def fresh_node_def is_operator_def Let_def zero_node_def)
qed

lemma operator_solid: "is_operator k \<Longrightarrow> solid k"
  by (auto simp: is_operator_def solid_def)

lemma outcome_loop:
  assumes b: "builds ops build" and ops: "list_all is_operator ops"
    and operand: "\<And>s'. parse_inv s' \<Longrightarrow> left_tokens s' < n \<Longrightarrow> outcome s' fresh_node (operand s')"
  shows "parse_inv s \<Longrightarrow> fresh_node left s \<Longrightarrow> left_tokens s \<le> n \<Longrightarrow> left_tokens s < k \<Longrightarrow>
    outcome s fresh_node (binary_loop k ops operand build left s)"
proof (induction k arbitrary: s left)
  case (Suc k)
  show ?case
  proof (cases "current_kind s \<in> set ops")
    case False
    with Suc.prems show ?thesis by simp
  next
    case True
    then have sol: "solid (current_kind s)" using ops operator_solid by (auto simp: list_all_iff)
    have st: "settled s" using Suc.prems(1) by (simp add: parse_inv_def)
    let ?s1 = "advance s"
    note adv = parse_inv_advance [OF Suc.prems(1)] grows_advance [OF st sol] left_advance [OF st sol]
    have rest: "outcome s2 fresh_node (and_then (build (current_kind s) left right s2) (\<lambda>node s3.
        and_then (expression_add_node node s3) (\<lambda>left' s4. binary_loop k ops operand build left' s4)))"
      if s2: "parse_inv s2" "grows ?s1 s2" "fresh_node right s2" for right s2
    proof (rule outcome_and_then)
      have "fresh_node left s2" using Suc.prems(2) adv(2) s2(2) fresh_node_grows grows_trans by blast
      then show "outcome s2 (\<lambda>node s'. s' = s2 \<and> node_ok (cp_program s2) (length (ex_nodes (cp_expr s2))) node)
          (build (current_kind s) left right s2)"
        using b True s2 by (simp add: builds_def)
    next
      fix node s3
      assume s3: "parse_inv s3" "grows s2 s3" "s3 = s2 \<and> node_ok (cp_program s2) (length (ex_nodes (cp_expr s2))) node"
      show "outcome s2 fresh_node (and_then (expression_add_node node s3)
          (\<lambda>left' s4. binary_loop k ops operand build left' s4))"
      proof (rule outcome_and_then)
        show "outcome s2 fresh_node (expression_add_node node s3)"
          using s3 outcome_add_leaf [OF s3(2,1)] by simp
      next
        fix left' s4
        assume s4: "parse_inv s4" "grows s2 s4" "fresh_node left' s4"
        have "left_tokens s4 \<le> left_tokens ?s1" using s4(2) s2(2) by (simp add: grows_def)
        then have "outcome s4 fresh_node (binary_loop k ops operand build left' s4)"
          using Suc.IH [OF s4(1,3)] Suc.prems(3,4) adv(3) by simp
        then show "outcome s2 fresh_node (binary_loop k ops operand build left' s4)"
          using outcome_after [OF s4(2)] by blast
      qed
    qed
    have "outcome ?s1 fresh_node (operand ?s1)" using operand [OF adv(1)] adv(3) Suc.prems(3) by simp
    then have "outcome ?s1 fresh_node (and_then (operand ?s1) (\<lambda>right s1.
        and_then (build (current_kind s) left right s1) (\<lambda>node s2.
          and_then (expression_add_node node s2) (\<lambda>left' s3. binary_loop k ops operand build left' s3))))"
      by (rule outcome_and_then) (use rest outcome_after in blast)
    with True show ?thesis using outcome_after [OF adv(2)] by simp
  qed
qed simp

section \<open>The contract of the parser\<close>

definition args_ok :: "nat list \<Rightarrow> pstate \<Rightarrow> bool" where
  "args_ok args s \<longleftrightarrow> length args \<le> 4 \<and> list_all (\<lambda>a. fresh_node a s) args"

lemma args_ok_grows: "args_ok args s \<Longrightarrow> grows s s' \<Longrightarrow> args_ok args s'"
  using fresh_node_grows by (auto simp: args_ok_def list_all_iff)

lemma copy_identifier_length:
  "copy_identifier source t n = Some name \<Longrightarrow> length name < n"
  by (auto simp: copy_identifier_def token_text_def slice_def split: if_splits option.splits)

lemma outcome_level:
  assumes b: "builds ops build" and ops: "list_all is_operator ops"
    and operand: "\<And>s'. parse_inv s' \<Longrightarrow> left_tokens s' \<le> left_tokens s \<Longrightarrow> outcome s' fresh_node (operand s')"
    and s: "parse_inv s" "left_tokens s < k"
  shows "outcome s fresh_node (and_then (operand s) (\<lambda>left s1. binary_loop k ops operand build left s1))"
proof (rule outcome_and_then [OF operand [OF s(1) order_refl]])
  fix x s'
  assume s': "parse_inv s'" "grows s s'" "fresh_node x s'"
  then have "left_tokens s' \<le> left_tokens s" by (simp add: grows_def)
  then have "outcome s' fresh_node (binary_loop k ops operand build x s')"
    using outcome_loop [OF b ops, of "left_tokens s" operand s' x k] operand s'(1,3) s(2) by simp
  then show "outcome s fresh_node (binary_loop k ops operand build x s')"
    using outcome_after [OF s'(2)] by blast
qed

lemma operators [simp]: "is_operator TOK_STAR" "is_operator TOK_SLASH" "is_operator TOK_PERCENT"
  "is_operator TOK_PLUS" "is_operator TOK_MINUS" "is_operator TOK_LT" "is_operator TOK_LE" "is_operator TOK_GT"
  "is_operator TOK_GE" "is_operator TOK_EQ" "is_operator TOK_NE"
  by (simp_all add: is_operator_def)

lemma outcome_unary:
  assumes primary: "\<And>s'. parse_inv s' \<Longrightarrow> left_tokens s' \<le> left_tokens s \<Longrightarrow> outcome s' fresh_node (parse_primary k s')"
    and s: "parse_inv s"
  shows "outcome s fresh_node (parse_unary (Suc k) s)"
proof -
  have st: "settled s" using s by (simp add: parse_inv_def)
  let ?s1 = "advance s"
  have adv: "parse_inv ?s1 \<and> grows s ?s1" if "solid (current_kind s)"
    using parse_inv_advance [OF s] grows_advance [OF st that] by blast
  have adv2: "parse_inv (advance ?s1) \<and> grows s (advance ?s1)"
    if "solid (current_kind s)" "current_kind ?s1 = TOK_IDENTIFIER"
    using adv [OF that(1)] that(2) parse_inv_advance [of ?s1] grows_trans [OF _ grows_advance [of ?s1]]
    by (auto simp: parse_inv_def solid_def)
  have leaf: "outcome s fresh_node (expression_add_node (zero_node\<lparr>nd_kind := EXPR_ADDRESS_OF, nd_local_index := i\<rparr>) (advance ?s1))"
    if "solid (current_kind s)" "current_kind ?s1 = TOK_IDENTIFIER" "find_local ?s1 t = Some i" for i t
    using adv2 [OF that(1,2)] find_local_less [OF that(3)]
    by (auto simp: node_ok_def local_ok_def intro!: outcome_add_leaf)
  have deref: "outcome s fresh_node (and_then (parse_primary k ?s1) (\<lambda>child s2.
      expression_add_node (zero_node\<lparr>nd_kind := EXPR_DEREF, nd_child := child, nd_byte_access := c s2\<rparr>) s2))"
    if "solid (current_kind s)" for c
  proof (rule outcome_and_then)
    show "outcome s fresh_node (parse_primary k ?s1)"
      using adv [OF that] grows_left by (blast intro: outcome_after primary)
  next
    fix child s2
    assume "parse_inv s2" "grows s s2" "fresh_node child s2"
    then show "outcome s fresh_node (expression_add_node (zero_node\<lparr>nd_kind := EXPR_DEREF, nd_child := child,
        nd_byte_access := c s2\<rparr>) s2)"
      by (intro outcome_add_leaf) (simp_all add: node_ok_def fresh_node_def)
  qed
  show ?thesis
    using primary [OF s order_refl] leaf deref
    by (auto simp: Let_def solid_def split: option.split)
qed

lemma solid_kinds [simp]: "solid TOK_IDENTIFIER" "solid TOK_LPAREN" "solid TOK_RPAREN" "solid TOK_LBRACKET"
  "solid TOK_RBRACKET" "solid TOK_COMMA" "solid TOK_ARROW" "solid TOK_DOT" "solid TOK_SEMICOLON" "solid TOK_ASSIGN"
  "solid TOK_LBRACE" "solid TOK_RBRACE" "solid TOK_STRING" "solid TOK_INTEGER" "solid TOK_STAR"
  by (simp_all add: solid_def)

text \<open>The operand of a bracket, between two tokens.\<close>

lemma outcome_closed:
  assumes "outcome s Q r" "solid kind" "\<And>x s1 s2. Q x s1 \<Longrightarrow> grows s1 s2 \<Longrightarrow> Q x s2"
    and f: "\<And>x s2. parse_inv s2 \<Longrightarrow> grows s s2 \<Longrightarrow> Q x s2 \<Longrightarrow> outcome s Q' (f x s2)"
  shows "outcome s Q' (and_then r (\<lambda>x s1. and_then (expect kind d s1) (\<lambda>_ s2. f x s2)))"
proof (rule outcome_and_then [OF assms(1)])
  fix x s1
  assume s1: "parse_inv s1" "grows s s1" "Q x s1"
  show "outcome s Q' (and_then (expect kind d s1) (\<lambda>_ s2. f x s2))"
  proof (rule outcome_and_then)
    show "outcome s (\<lambda>_ s2. grows s1 s2) (expect kind d s1)"
      by (rule outcome_after [OF s1(2)], rule outcome_mono [OF outcome_grows [OF outcome_expect [OF s1(1) assms(2)]]]) simp
  next
    fix u s2
    assume "parse_inv s2" "grows s s2" "grows s1 s2"
    then show "outcome s Q' (f x s2)" using f assms(3) s1(3) by blast
  qed
qed

lemma outcome_primary:
  assumes equality: "\<And>s'. parse_inv s' \<Longrightarrow> left_tokens s' < left_tokens s \<Longrightarrow> outcome s' fresh_node (parse_equality k s')"
    and args: "\<And>s'. parse_inv s' \<Longrightarrow> left_tokens s' < left_tokens s \<Longrightarrow> outcome s' args_ok (parse_arguments k [] s')"
    and s: "parse_inv s"
  shows "outcome s fresh_node (parse_primary (Suc k) s)"
proof -
  have st: "settled s" using s by (simp add: parse_inv_def)
  consider (paren) "current_kind s = TOK_LPAREN" | (string) "current_kind s = TOK_STRING"
    | (other) "current_kind s \<noteq> TOK_LPAREN" "current_kind s \<noteq> TOK_STRING" by blast
  then show ?thesis
  proof cases
    case paren
    then have g: "grows s (advance s)" "left_tokens (advance s) < left_tokens s"
      using grows_advance [OF st] left_advance [OF st] by simp_all
    have "outcome s fresh_node (parse_equality k (advance s))"
      using equality [OF parse_inv_advance [OF s] g(2)] outcome_after [OF g(1)] by blast
    from outcome_closed [OF this, of TOK_RPAREN fresh_node "\<lambda>root s2. (Some root, s2)" "in_quotes '')''"]
    show ?thesis using paren fresh_node_grows by simp
  next
    case string
    then show ?thesis using outcome_string [OF s] by simp
  next
    case other
    obtain b1 s1 where n1: "next_is TOK_ARROW s = (b1, s1)" by (metis surj_pair)
    obtain b2 s2 where n2: "next_is TOK_DOT s1 = (b2, s2)" by (metis surj_pair)
    obtain b3 s3 where n3: "next_is TOK_LBRACKET s2 = (b3, s3)" by (metis surj_pair)
    obtain b4 s4 where n4: "next_is TOK_LPAREN s3 = (b4, s4)" by (metis surj_pair)
    have i1: "parse_inv s1" "grows s s1" using next_is_inv [OF n1 s] by auto
    have i2: "parse_inv s2" "grows s s2" using next_is_inv [OF n2 i1(1)] grows_trans [OF i1(2)] by auto
    have i3: "parse_inv s3" "grows s s3" using next_is_inv [OF n3 i2(1)] grows_trans [OF i2(2)] by auto
    have i4: "parse_inv s4" "grows s s4" using next_is_inv [OF n4 i3(1)] grows_trans [OF i3(2)] by auto
    have member: "outcome s fresh_node (parse_member b s')"
      if "next_is kk s0 = (True, s')" "parse_inv s0" "parse_inv s'" "grows s s'" "solid kk" for kk b s0 s'
      by (rule outcome_after [OF that(4)], rule outcome_member [OF that(3)])
        (use next_is_true [OF that(1)] that in \<open>simp_all add: parse_inv_def\<close>)
    have sub: "outcome s fresh_node (and_then (parse_equality k (advance (advance s3))) (\<lambda>index_root s4.
        and_then (expect TOK_RBRACKET (in_quotes '']'') s4) (\<lambda>_ s5.
          expression_add_node (zero_node\<lparr>nd_kind := EXPR_ARRAY_SUBSCRIPT, nd_array_local := i,
            nd_child := index_root, nd_byte_access := c s5\<rparr>) s5)))"
      if b: "b3" and i: "find_local s3 t = Some i" "lc_is_array (local_at s3 i)" for i t c
    proof -
      have st: "settled s2" "settled s3" using i2 i3 by (simp_all add: parse_inv_def)
      have kinds: "current_kind s3 = TOK_IDENTIFIER" "current_kind (advance s3) = TOK_LBRACKET"
        using next_is_true [OF n3 [unfolded b [THEN eq_True [THEN iffD2]]] st(1)] by simp_all
      let ?s' = "advance (advance s3)"
      have g: "grows s ?s'" "left_tokens ?s' < left_tokens s" "parse_inv ?s'"
        using advance_from [OF advance_from(2,1) [OF i3]] advance_from [OF i3] kinds by simp_all
      have "outcome s fresh_node (parse_equality k ?s')"
        using equality [OF g(3,2)] outcome_after [OF g(1)] by blast
      then show ?thesis
      proof (rule outcome_closed)
        fix x s5
        assume s5: "parse_inv s5" "grows s s5" "fresh_node x s5"
        have "cp_program s5 = cp_program s3" using s5(2) i3(2) by (simp add: grows_def)
        then show "outcome s fresh_node (expression_add_node (zero_node\<lparr>nd_kind := EXPR_ARRAY_SUBSCRIPT,
            nd_array_local := i, nd_child := x, nd_byte_access := c s5\<rparr>) s5)"
          using s5 find_local_less [OF i(1)] i(2)
          by (intro outcome_add_leaf) (simp_all add: node_ok_def local_ok_def local_at_def fresh_node_def)
      qed (auto intro: fresh_node_grows)
    qed
    have call: "outcome s fresh_node (and_then (expect TOK_LPAREN (in_quotes ''('') (advance s4)) (\<lambda>_ s5.
        and_then (if current_kind s5 \<noteq> TOK_RPAREN then parse_arguments k [] s5 else (Some [], s5)) (\<lambda>args s6.
          and_then (expect TOK_RPAREN (in_quotes '')'') s6) (\<lambda>_ s7.
            expression_add_node (zero_node\<lparr>nd_kind := EXPR_CALL, nd_call_name := name,
              nd_call_args := args\<rparr>) s7))))"
      if b: "b4" and name: "length name < 64" for name
    proof -
      have st: "settled s3" "settled s4" using i3 i4 by (simp_all add: parse_inv_def)
      have kind: "current_kind s4 = TOK_IDENTIFIER"
        using next_is_true [OF n4 [unfolded b [THEN eq_True [THEN iffD2]]] st(1)] by simp
      have g: "grows s (advance s4)" "left_tokens (advance s4) < left_tokens s" "parse_inv (advance s4)"
        using advance_from [OF i4] kind by simp_all
      show ?thesis
      proof (rule outcome_and_then)
        show "outcome s (\<lambda>_ s5. left_tokens s5 < left_tokens s) (expect TOK_LPAREN (in_quotes ''('') (advance s4))"
          using outcome_after [OF g(1) outcome_expect [OF g(3), of TOK_LPAREN "in_quotes ''(''"]] g(2)
          by (auto simp: outcome_def split: prod.splits option.splits)
      next
        fix u s5
        assume s5: "parse_inv s5" "grows s s5" "left_tokens s5 < left_tokens s"
        have "outcome s5 args_ok (if current_kind s5 \<noteq> TOK_RPAREN then parse_arguments k [] s5 else (Some [], s5))"
          using args [OF s5(1,3)] s5(1) by (simp add: args_ok_def)
        from outcome_after [OF s5(2) this]
        show "outcome s fresh_node (and_then (if current_kind s5 \<noteq> TOK_RPAREN then parse_arguments k [] s5 else (Some [], s5))
          (\<lambda>args s6. and_then (expect TOK_RPAREN (in_quotes '')'') s6) (\<lambda>_ s7.
            expression_add_node (zero_node\<lparr>nd_kind := EXPR_CALL, nd_call_name := name,
              nd_call_args := args\<rparr>) s7)))"
        proof (rule outcome_closed)
          fix x s7
          assume s7: "parse_inv s7" "grows s s7" "args_ok x s7"
          then show "outcome s fresh_node (expression_add_node (zero_node\<lparr>nd_kind := EXPR_CALL,
              nd_call_name := name, nd_call_args := x\<rparr>) s7)"
            using name by (intro outcome_add_leaf) (simp_all add: node_ok_def args_ok_def fresh_node_def)
        qed (auto intro: args_ok_grows)
      qed
    qed
    have leaf: "outcome s fresh_node (and_then (parse_operand s4) (\<lambda>operand s5.
        expression_add_node (zero_node\<lparr>nd_kind := EXPR_OPERAND, nd_operand := operand\<rparr>) s5))"
    proof (rule outcome_and_then)
      show "outcome s (\<lambda>(v :: operand_t) s'. op_kind v = OPERAND_LOCAL \<longrightarrow> local_ok (cp_program s4) (unat (op_value v))) (parse_operand s4)"
        by (rule outcome_mono [OF outcome_after [OF i4(2) outcome_operand [OF i4(1)]]]) simp
    next
      fix v :: operand_t and s5
      assume s5: "parse_inv s5" "grows s s5" "op_kind v = OPERAND_LOCAL \<longrightarrow> local_ok (cp_program s4) (unat (op_value v))"
      have "cp_program s5 = cp_program s4" using s5(2) i4(2) by (simp add: grows_def)
      then show "outcome s fresh_node (expression_add_node (zero_node\<lparr>nd_kind := EXPR_OPERAND, nd_operand := v\<rparr>) s5)"
        using s5 by (intro outcome_add_leaf) (simp_all add: node_ok_def)
    qed
    note run = parse_primary.simps(2) [of k s] n1 n2 n3 n4 other
    consider "b1" | "\<not> b1" "b2" | "\<not> b1" "\<not> b2" "b3" | "\<not> b1" "\<not> b2" "\<not> b3" "b4"
      | "\<not> b1" "\<not> b2" "\<not> b3" "\<not> b4" by blast
    then show ?thesis
    proof cases
      case 1
      then show ?thesis using member [of TOK_ARROW s s1] run i1 s by simp
    next
      case 2
      then show ?thesis using member [of TOK_DOT s1 s2] run i1 i2 by simp
    next
      case 3
      show ?thesis
      proof (cases "find_local s3 (current_token s3)")
        case None
        then show ?thesis using 3 run i3 by (simp add: grows_def)
      next
        case (Some i)
        then show ?thesis using 3 run i3 sub [OF 3(3) Some] by (simp add: grows_def)
      qed
    next
      case 4
      show ?thesis
      proof (cases "copy_identifier (source_of s4) (current_token s4) 64")
        case None
        then show ?thesis using 4 run i4 by (simp add: grows_def)
      next
        case (Some name)
        then show ?thesis using 4 run call [OF 4(4) copy_identifier_length [OF Some]] by simp
      qed
    next
      case 5
      then show ?thesis using run leaf by simp
    qed
  qed
qed

lemma outcome_args:
  assumes equality: "\<And>s'. parse_inv s' \<Longrightarrow> left_tokens s' \<le> left_tokens s \<Longrightarrow> outcome s' fresh_node (parse_equality k s')"
    and args: "\<And>s' as. parse_inv s' \<Longrightarrow> args_ok as s' \<Longrightarrow> left_tokens s' < left_tokens s \<Longrightarrow> outcome s' args_ok (parse_arguments k as s')"
    and s: "parse_inv s" "args_ok as s"
  shows "outcome s args_ok (parse_arguments (Suc k) as s)"
proof (cases "length as \<ge> 4")
  case False
  have "outcome s args_ok (and_then (parse_equality k s) (\<lambda>arg_root s1.
      if current_kind s1 \<noteq> TOK_COMMA then (Some (as @ [arg_root]), s1) else parse_arguments k (as @ [arg_root]) (advance s1)))"
  proof (rule outcome_and_then [OF equality [OF s(1) order_refl]])
    fix a s1
    assume s1: "parse_inv s1" "grows s s1" "fresh_node a s1"
    have ok: "args_ok (as @ [a]) s1"
      using args_ok_grows [OF s(2) s1(2)] s1(3) False by (auto simp: args_ok_def)
    have "outcome s args_ok (parse_arguments k (as @ [a]) (advance s1))" if k: "current_kind s1 = TOK_COMMA"
    proof -
      have g: "grows s1 (advance s1)" "left_tokens (advance s1) < left_tokens s"
        using grows_advance [of s1] left_advance [of s1] s1 k grows_left [OF s1(2)] by (auto simp: parse_inv_def)
      show ?thesis
        by (rule outcome_after [OF grows_trans [OF s1(2) g(1)]],
          rule args [OF parse_inv_advance [OF s1(1)] args_ok_grows [OF ok g(1)] g(2)])
    qed
    with s1 ok show "outcome s args_ok (if current_kind s1 \<noteq> TOK_COMMA then (Some (as @ [a]), s1)
        else parse_arguments k (as @ [a]) (advance s1))" by simp
  qed
  with False show ?thesis by simp
qed simp

text \<open>All functions of the parser keep the contract when the fuel is above eight times the source that
  is left.\<close>

lemma parser_contract:
  "parse_inv s \<Longrightarrow> 8 * left_tokens s + 1 \<le> k \<Longrightarrow> outcome s fresh_node (parse_primary k s)"
  "parse_inv s \<Longrightarrow> 8 * left_tokens s + 2 \<le> k \<Longrightarrow> outcome s fresh_node (parse_unary k s)"
  "parse_inv s \<Longrightarrow> 8 * left_tokens s + 3 \<le> k \<Longrightarrow> outcome s fresh_node (parse_multiplicative k s)"
  "parse_inv s \<Longrightarrow> 8 * left_tokens s + 4 \<le> k \<Longrightarrow> outcome s fresh_node (parse_additive k s)"
  "parse_inv s \<Longrightarrow> 8 * left_tokens s + 5 \<le> k \<Longrightarrow> outcome s fresh_node (parse_relational k s)"
  "parse_inv s \<Longrightarrow> 8 * left_tokens s + 6 \<le> k \<Longrightarrow> outcome s fresh_node (parse_equality k s)"
  "parse_inv s \<Longrightarrow> args_ok as s \<Longrightarrow> 8 * left_tokens s + 7 \<le> k \<Longrightarrow> outcome s args_ok (parse_arguments k as s)"
proof (induction k arbitrary: s as)
  case (Suc k)
  note IH = Suc.IH
  {
    case 1
    then show ?case by (intro outcome_primary IH(6) IH(7)) (simp_all add: args_ok_def)
  next
    case 2
    then show ?case by (intro outcome_unary IH(1)) simp_all
  next
    case 3
    then show ?case unfolding parse_multiplicative.simps
      by (intro outcome_level builds_plain IH(2)) simp_all
  next
    case 4
    then show ?case unfolding parse_additive.simps
      by (intro outcome_level builds_additive IH(3)) simp_all
  next
    case 5
    then show ?case unfolding parse_relational.simps
      by (intro outcome_level builds_plain IH(4)) simp_all
  next
    case 6
    then show ?case unfolding parse_equality.simps
      by (intro outcome_level builds_plain IH(5)) simp_all
  next
    case 7
    then show ?case by (intro outcome_args IH(6) IH(7)) simp_all
  }
qed simp_all

end
