(* ===== verification/T32_Grammar.thy ===== *)
theory T32_Grammar
  imports T32_Parse_Laws
begin

text \<open>
  The expression grammar of the language of \<open>t32-cc\<close>, and the proof that the parser follows it. A
  \<open>phrase\<close> relates a list of tokens to the tree that it stands for, by precedence levels, with the
  string literals numbered from left to right. What \<open>parse_expression\<close> accepts is a phrase, and the
  table that it builds represents the tree of the phrase.
\<close>

section \<open>Tokens that the parser passes\<close>

definition place :: "pstate \<Rightarrow> lexer_t \<times> token_t" where
  "place s = (ps_lexer (cp_parser s), current_token s)"

inductive eats :: "lexer_t \<times> token_t \<Rightarrow> token_t list \<Rightarrow> lexer_t \<times> token_t \<Rightarrow> bool" where
  eats_Nil: "eats c [] c"
| eats_Cons: "eats (l, t) (t # ts) c" if "lexer_next_token l = (t', l', msg)" "eats (l', t') ts c"

lemma eats_append: "eats a ts b \<Longrightarrow> eats b us c \<Longrightarrow> eats a (ts @ us) c"
  by (induction rule: eats.induct) (auto intro: eats.intros)

lemma eats_advance:
  assumes "settled s" "solid (current_kind s)"
  shows "eats (place s) [current_token s] (place (advance s))"
proof (cases s rule: advance_cases)
  case 1
  with solid_running [OF assms] show ?thesis by simp
next
  case (2 t l msg)
  then show ?thesis by (auto simp: place_def intro!: eats.intros)
qed

section \<open>The grammar\<close>

text \<open>What an expression refers to.\<close>

record scope =
  sc_program :: program_t
  sc_structs :: "struct_def_t list"
  sc_source :: bytes

definition scope_of :: "pstate \<Rightarrow> scope" where
  "scope_of s = \<lparr>sc_program = cp_program s, sc_structs = cp_structs s, sc_source = source_of s\<rparr>"

definition names_local :: "scope \<Rightarrow> token_t \<Rightarrow> nat \<Rightarrow> bool" where
  "names_local S t i \<longleftrightarrow>
     find_index (\<lambda>l. token_matches_name (sc_source S) t (lc_name l)) (pr_locals (sc_program S)) = Some i"

abbreviation the_local :: "scope \<Rightarrow> nat \<Rightarrow> local_t" where
  "the_local S i \<equiv> pr_locals (sc_program S) ! i"

definition names_member :: "scope \<Rightarrow> nat option \<Rightarrow> token_t \<Rightarrow> struct_member_t \<Rightarrow> bool" where
  "names_member S d t m \<longleftrightarrow>
     (\<exists>i j. d = Some i \<and> i < length (sc_structs S) \<and> m = sd_members (sc_structs S ! i) ! j
       \<and> find_index (\<lambda>m. token_matches_name (sc_source S) t (sm_name m)) (sd_members (sc_structs S ! i)) = Some j)"

text \<open>The type of a tree, and the scale of pointer arithmetic.\<close>

fun tree_type :: "program_t \<Rightarrow> tree \<Rightarrow> expression_type_t" where
  "tree_type prog (Str n) = EXPR_TYPE_CHAR_PTR"
| "tree_type prog (Addr i) = (if lc_is_char (pr_locals prog ! i) then EXPR_TYPE_CHAR_PTR else EXPR_TYPE_INT_PTR)"
| "tree_type prog (Deref b t) = (if b then EXPR_TYPE_CHAR else EXPR_TYPE_INT)"
| "tree_type prog (Index b i t) = (if b then EXPR_TYPE_CHAR else EXPR_TYPE_INT)"
| "tree_type prog (Member b i off) = (if b then EXPR_TYPE_CHAR else EXPR_TYPE_INT)"
| "tree_type prog (Arrow b i off) = (if b then EXPR_TYPE_CHAR else EXPR_TYPE_INT)"
| "tree_type prog (Var i) =
     (let l = pr_locals prog ! i in
      if lc_is_pointer l \<or> lc_is_array l
      then if lc_is_char l then EXPR_TYPE_CHAR_PTR else EXPR_TYPE_INT_PTR
      else if lc_is_char l then EXPR_TYPE_CHAR else EXPR_TYPE_INT)"
| "tree_type prog (Bin k s l r) = (if s \<noteq> 0 then tree_type prog l else EXPR_TYPE_INT)"
| "tree_type prog (Const v) = EXPR_TYPE_INT"
| "tree_type prog (Fun f ts) = EXPR_TYPE_INT"

definition sum_scale :: "program_t \<Rightarrow> tree \<Rightarrow> tree \<Rightarrow> u32 option" where
  "sum_scale prog l r =
     (if expression_type_is_pointer (tree_type prog r) then None
      else if tree_type prog l = EXPR_TYPE_INT_PTR then Some 4
      else if tree_type prog l = EXPR_TYPE_CHAR_PTR then Some 1
      else Some 0)"

datatype level = Primary | Unary | Product | Sum | Comparison | Equality

fun operators :: "level \<Rightarrow> token_kind_t list" where
  "operators Product = [TOK_STAR, TOK_SLASH, TOK_PERCENT]"
| "operators Sum = [TOK_PLUS, TOK_MINUS]"
| "operators Comparison = [TOK_LT, TOK_LE, TOK_GT, TOK_GE]"
| "operators Equality = [TOK_EQ, TOK_NE]"
| "operators _ = []"

fun tighter :: "level \<Rightarrow> level" where
  "tighter Unary = Primary" | "tighter Product = Unary" | "tighter Sum = Product"
| "tighter Comparison = Sum" | "tighter Equality = Comparison" | "tighter Primary = Primary"

definition scale_at :: "scope \<Rightarrow> level \<Rightarrow> tree \<Rightarrow> tree \<Rightarrow> u32 option" where
  "scale_at S lv l r = (if lv = Sum then sum_scale (sc_program S) l r else Some 0)"

inductive phrase :: "scope \<Rightarrow> level \<Rightarrow> u32 \<Rightarrow> token_t list \<Rightarrow> tree \<Rightarrow> u32 \<Rightarrow> bool"
  and arguments :: "scope \<Rightarrow> u32 \<Rightarrow> token_t list \<Rightarrow> tree list \<Rightarrow> u32 \<Rightarrow> bool" for S where
  p_paren: "phrase S Primary n (a # ts @ [b]) t n'"
    if "tk_kind a = TOK_LPAREN" "phrase S Equality n ts t n'" "tk_kind b = TOK_RPAREN"
| p_integer: "phrase S Primary n [a] (Const (tk_integer_value a)) n" if "tk_kind a = TOK_INTEGER"
| p_negative: "phrase S Primary n [m, a] (Const (0 - tk_integer_value a)) n"
    if "tk_kind m = TOK_MINUS" "tk_kind a = TOK_INTEGER" "tk_integer_value a \<le> 2147483648"
| p_variable: "phrase S Primary n [a] (Var i) n"
    if "tk_kind a = TOK_IDENTIFIER" "names_local S a i"
      "lc_is_struct (the_local S i) \<Longrightarrow> lc_is_pointer (the_local S i)"
| p_string: "phrase S Primary n [a] (Str n) (n + 1)"
    if "tk_kind a = TOK_STRING" "decode_string (token_text (sc_source S) a) [] = Inr v"
| p_dot: "phrase S Primary n [a, d, b] (Member (sm_is_char m) i (sm_offset m)) n"
    if "tk_kind a = TOK_IDENTIFIER" "names_local S a i" "lc_is_struct (the_local S i)" "\<not> lc_is_pointer (the_local S i)"
      "tk_kind d = TOK_DOT" "names_member S (lc_struct_index (the_local S i)) b m"
| p_arrow: "phrase S Primary n [a, d, b] (Arrow (sm_is_char m) i (sm_offset m)) n"
    if "tk_kind a = TOK_IDENTIFIER" "names_local S a i" "lc_is_struct (the_local S i)" "lc_is_pointer (the_local S i)"
      "tk_kind d = TOK_ARROW" "names_member S (lc_struct_index (the_local S i)) b m"
| p_subscript: "phrase S Primary n (a # l # ts @ [r]) (Index (lc_is_char (the_local S i)) i t) n'"
    if "tk_kind a = TOK_IDENTIFIER" "names_local S a i" "lc_is_array (the_local S i)"
      "tk_kind l = TOK_LBRACKET" "phrase S Equality n ts t n'" "tk_kind r = TOK_RBRACKET"
| p_call: "phrase S Primary n (a # l # ts @ [r]) (Fun (token_text (sc_source S) a) us) n'"
    if "tk_kind a = TOK_IDENTIFIER" "tk_length a < 64" "tk_kind l = TOK_LPAREN"
      "arguments S n ts us n'" "length us \<le> 4" "tk_kind r = TOK_RPAREN"
| p_unary: "phrase S Unary n ts t n'" if "phrase S Primary n ts t n'"
| p_address: "phrase S Unary n [m, a] (Addr i) n"
    if "tk_kind m = TOK_AMPERSAND" "tk_kind a = TOK_IDENTIFIER" "names_local S a i"
| p_deref: "phrase S Unary n (m # a # ts) (Deref (lc_is_char (the_local S i)) t) n'"
    if "tk_kind m = TOK_STAR" "tk_kind a = TOK_IDENTIFIER" "names_local S a i" "lc_is_pointer (the_local S i)"
      "phrase S Primary n (a # ts) t n'"
| p_tighter: "phrase S lv n ts t n'" if "lv \<notin> {Primary, Unary}" "phrase S (tighter lv) n ts t n'"
| p_binary: "phrase S lv n (ts @ k # us) (Bin (tk_kind k) s l r) n''"
    if "phrase S lv n ts l n'" "tk_kind k \<in> set (operators lv)" "phrase S (tighter lv) n' us r n''"
      "scale_at S lv l r = Some s"
| a_none: "arguments S n [] [] n"
| a_one: "arguments S n ts [t] n'" if "phrase S Equality n ts t n'"
| a_more: "arguments S n (ts @ c # vs) (us @ [t]) n''"
    if "arguments S n ts us n'" "us \<noteq> []" "tk_kind c = TOK_COMMA" "phrase S Equality n' vs t n''"

section \<open>Tables that grow\<close>

lemma denotes_append:
  "denotes e i t \<Longrightarrow> ex_nodes e' = ex_nodes e @ ns \<Longrightarrow> denotes e' i t"
proof (induction rule: denotes.induct)
  case (d_fun i nd ts)
  have "list_all2 (denotes e') (nd_call_args nd) ts"
    using d_fun.IH d_fun.prems by (auto elim!: list.rel_mono_strong)
  with d_fun show ?case by (auto intro!: denotes.d_fun simp: nth_append)
qed (auto intro!: denotes.intros simp: nth_append)

lemma denotes_grows: "denotes (cp_expr s) i t \<Longrightarrow> grows s s' \<Longrightarrow> denotes (cp_expr s') i t"
  by (auto simp: grows_def intro: denotes_append)

lemma denotes_less: "denotes e i t \<Longrightarrow> i < length (ex_nodes e)"
  by (auto elim: denotes.cases)

lemma denotes_depth: "denotes e i t \<Longrightarrow> table_ok prog e \<Longrightarrow> depth t \<le> i"
proof (induction rule: denotes.induct)
  case (d_fun i nd ts)
  have "list_all (\<lambda>a. a < i) (nd_call_args nd)" using table_okD [OF d_fun.prems d_fun.hyps(1)] d_fun.hyps(2,3) by (simp add: node_ok_def)
  moreover have "list_all2 (\<lambda>a t. depth t \<le> a) (nd_call_args nd) ts"
    using d_fun.IH d_fun.prems by (auto elim!: list.rel_mono_strong)
  ultimately have "list_all (\<lambda>t. Suc (depth t) \<le> i) ts"
    by (simp add: list_all2_conv_all_nth list_all_length) (metis Suc_leI le_less_trans)
  then show ?case by (auto simp: list_all_iff)
next
  case (d_bin i nd l r)
  then show ?case using table_okD [OF d_bin.prems d_bin.hyps(1)] by (auto simp: node_ok_def)
next
  case (d_deref i nd t)
  then show ?case using table_okD [OF d_deref.prems d_deref.hyps(1)] by (auto simp: node_ok_def)
next
  case (d_index i nd t)
  then show ?case using table_okD [OF d_index.prems d_index.hyps(1)] by (auto simp: node_ok_def)
qed auto

lemma denotes_type:
  "denotes e i t \<Longrightarrow> depth t < k \<Longrightarrow> expression_node_type k prog e i = Some (tree_type prog t)"
proof (induction arbitrary: k rule: denotes.induct)
  case (d_bin i nd l r)
  then obtain j where "k = Suc j" by (cases k) auto
  with d_bin show ?case by (auto simp: Let_def)
next
  case (d_fun i nd ts)
  then obtain j where "k = Suc j" by (cases k) auto
  with d_fun show ?case by (auto simp: Let_def)
qed (case_tac k; auto simp: Let_def)+

lemma type_of_denotes:
  assumes "parse_inv s" "denotes (cp_expr s) i t"
  shows "type_of s i = Some (tree_type (cp_program s) t)"
proof -
  have ok: "table_ok (cp_program s) (cp_expr s)" using assms(1) by (simp add: parse_inv_def)
  have "i < 64" using denotes_less [OF assms(2)] ok by (simp add: table_ok_def)
  then have "depth t < Suc 64" using denotes_depth [OF assms(2) ok] by simp
  then show ?thesis using denotes_type [OF assms(2)] by (simp add: type_of_def)
qed

section \<open>Successful calls\<close>

lemma and_then_Some:
  "and_then r f = (Some y, s') \<longleftrightarrow> (\<exists>x s1. r = (Some x, s1) \<and> f x s1 = (Some y, s'))"
  by (cases r; cases "fst r") (auto simp: and_then_def)

lemma fail_not_Some [simp]: "fail m s \<noteq> (Some x, s')"
  by (simp add: fail_def)

lemma no_fuel_not_Some [simp]: "no_fuel s \<noteq> (Some x, s')"
  by (simp add: no_fuel_def)

lemma expect_Some:
  "expect kind d s = (Some u, s') \<longleftrightarrow> current_kind s = kind \<and> s' = advance s \<and> \<not> ps_failed (cp_parser s')"
  by (auto simp: expect_def parser_expect_kind_def Let_def advance_def current_kind_def current_token_def
      split: if_splits prod.splits)

lemma add_node_Some:
  "expression_add_node node s = (Some i, s') \<longleftrightarrow> length (ex_nodes (cp_expr s)) < MAX_EXPRESSION_NODES
     \<and> i = length (ex_nodes (cp_expr s))
     \<and> s' = s\<lparr>cp_expr := (cp_expr s)\<lparr>ex_nodes := ex_nodes (cp_expr s) @ [node]\<rparr>\<rparr>"
  by (auto simp: expression_add_node_def Let_def fail_def)

lemma added_fields [simp]:
  "place (s\<lparr>cp_expr := e\<rparr>) = place s" "cp_next_string (s\<lparr>cp_expr := e\<rparr>) = cp_next_string s"
  by (simp_all add: place_def current_token_def)

lemma scope_grows: "grows s s' \<Longrightarrow> scope_of s' = scope_of s"
  by (simp add: grows_def scope_of_def)

lemma scope_advance [simp]: "scope_of (advance s) = scope_of s"
  by (simp add: scope_of_def)

text \<open>A call that has read a phrase.\<close>

definition reads :: "level \<Rightarrow> pstate \<Rightarrow> nat \<Rightarrow> pstate \<Rightarrow> bool" where
  "reads lv s i s' \<longleftrightarrow> (\<exists>ts t. eats (place s) ts (place s')
     \<and> phrase (scope_of s) lv (cp_next_string s) ts t (cp_next_string s') \<and> denotes (cp_expr s') i t)"

definition well_read :: "level \<Rightarrow> pstate \<Rightarrow> nat \<Rightarrow> pstate \<Rightarrow> bool" where
  "well_read lv s i s' \<longleftrightarrow> parse_inv s' \<and> grows s s' \<and> reads lv s i s'"

lemma find_local_names: "find_local s t = Some i \<Longrightarrow> names_local (scope_of s) t i"
  by (simp add: find_local_def names_local_def scope_of_def)

lemma local_at_scope: "local_at s i = the_local (scope_of s) i"
  by (simp add: local_at_def scope_of_def)

section \<open>The parser reads phrases\<close>

lemma eats_two:
  assumes "settled s" "solid (current_kind s)" "solid (current_kind (advance s))"
  shows "eats (place s) [current_token s, current_token (advance s)] (place (advance (advance s)))"
  using eats_append [OF eats_advance [OF assms(1,2)] eats_advance [OF settled_advance [OF assms(1)] assms(3)]] by simp

lemma operand_reads:
  assumes s: "parse_inv s" and run: "parse_operand s = (Some v, s')"
  shows "\<exists>ts t. eats (place s) ts (place s') \<and> cp_expr s' = cp_expr s \<and> cp_next_string s' = cp_next_string s
    \<and> phrase (scope_of s) Primary n ts t n
    \<and> t = (if op_kind v = OPERAND_LOCAL then Var (unat (op_value v)) else Const (op_value v))"
proof -
  have st: "settled s" using s by (simp add: parse_inv_def)
  consider (minus) "current_kind s = TOK_MINUS" | (int) "current_kind s = TOK_INTEGER"
    | (name) "current_kind s = TOK_IDENTIFIER"
    using run by (auto simp: parse_operand_def split: if_splits)
  then show ?thesis
  proof cases
    case minus
    then have k: "current_kind (advance s) = TOK_INTEGER" and bound: "tk_integer_value (current_token (advance s)) \<le> 2147483648"
      and r: "v = \<lparr>op_kind = OPERAND_INTEGER, op_value = 0 - tk_integer_value (current_token (advance s))\<rparr>"
        "s' = advance (advance s)"
      using run by (auto simp: parse_operand_def parse_integer_literal_def Let_def and_then_Some not_le split: if_splits)
    have "eats (place s) [current_token s, current_token (advance s)] (place s')"
      using eats_two [OF st] minus k r by (simp add: solid_def)
    moreover have "phrase (scope_of s) Primary n [current_token s, current_token (advance s)]
        (Const (0 - tk_integer_value (current_token (advance s)))) n"
      using minus k bound by (intro p_negative) (simp_all add: current_kind_def)
    ultimately show ?thesis using r by fastforce
  next
    case int
    then have r: "v = \<lparr>op_kind = OPERAND_INTEGER, op_value = tk_integer_value (current_token s)\<rparr>" "s' = advance s"
      using run by (auto simp: parse_operand_def parse_integer_literal_def Let_def and_then_Some split: if_splits)
    have "phrase (scope_of s) Primary n [current_token s] (Const (tk_integer_value (current_token s))) n"
      using int by (intro p_integer) (simp add: current_kind_def)
    with eats_advance [OF st] int r show ?thesis by fastforce
  next
    case name
    then obtain i where i: "find_local s (current_token s) = Some i"
        "lc_is_struct (local_at s i) \<longrightarrow> lc_is_pointer (local_at s i)"
        "v = \<lparr>op_kind = OPERAND_LOCAL, op_value = of_nat i\<rparr>" "s' = advance s"
      using run by (auto simp: parse_operand_def Let_def split: if_splits option.splits)
    have "unat (of_nat i :: u32) = i" using local_index_word [OF s] find_local_less [OF i(1)] .
    moreover have "phrase (scope_of s) Primary n [current_token s] (Var i) n"
      using name i(2) find_local_names [OF i(1)]
      by (intro p_variable) (simp_all add: current_kind_def local_at_scope)
    ultimately show ?thesis using eats_advance [OF st] name i by fastforce
  qed
qed

lemma string_reads:
  assumes s: "parse_inv s" "current_kind s = TOK_STRING" and run: "parse_string s = (Some i, s')"
  shows "reads Primary s i s'"
proof -
  have st: "settled s" using s by (simp add: parse_inv_def)
  let ?s1 = "s\<lparr>cp_next_string := cp_next_string s + 1\<rparr>"
  obtain v where v: "decode_string (current_text s) [] = Inr v"
      "expression_add_node (zero_node\<lparr>nd_kind := EXPR_STRING, nd_string_id := cp_next_string s, nd_string_value := v\<rparr>)
        (advance ?s1) = (Some i, s')"
    using run by (auto simp: parse_string_def Let_def split: sum.splits)
  have "place (advance ?s1) = place (advance s)"
    by (simp add: place_def advance_def current_token_def)
  then have "eats (place s) [current_token s] (place s')"
    using eats_advance [OF st] s(2) v(2) by (simp add: add_node_Some)
  moreover have "phrase (scope_of s) Primary (cp_next_string s) [current_token s] (Str (cp_next_string s)) (cp_next_string s')"
    using s(2) v by (auto simp: add_node_Some current_kind_def current_text_def scope_of_def intro!: p_string)
  moreover have "denotes (cp_expr s') i (Str (cp_next_string s))"
    using v(2) d_str [of i "cp_expr s'" "zero_node\<lparr>nd_kind := EXPR_STRING, nd_string_id := cp_next_string s, nd_string_value := v\<rparr>"]
    by (auto simp: add_node_Some)
  ultimately show ?thesis unfolding reads_def by blast
qed

lemma member_reads:
  assumes s: "parse_inv s" "current_kind s = TOK_IDENTIFIER"
    and k: "current_kind (advance s) = (if b then TOK_ARROW else TOK_DOT)" and run: "parse_member b s = (Some i, s')"
  shows "reads Primary s i s'"
proof -
  have st: "settled s" using s by (simp add: parse_inv_def)
  let ?s1 = "advance (advance s)"
  have sol: "solid (current_kind (advance s))" using k by simp
  obtain x j where x: "find_local s (current_token s) = Some x" "lc_is_struct (local_at s x)" "lc_is_pointer (local_at s x) = b"
      "current_kind ?s1 = TOK_IDENTIFIER" "find_struct_member ?s1 (lc_struct_index (local_at s x)) (current_token ?s1) = Some j"
      "expression_add_node (zero_node\<lparr>nd_kind := EXPR_STRUCT_MEMBER, nd_local_index := x,
        nd_member_offset := sm_offset (sd_members (cp_structs s ! the (lc_struct_index (local_at s x))) ! j),
        nd_byte_access := sm_is_char (sd_members (cp_structs s ! the (lc_struct_index (local_at s x))) ! j),
        nd_array_local := (if b then 1 else 0)\<rparr>) (advance ?s1) = (Some i, s')"
    using run by (auto simp: parse_member_def Let_def local_at_def split: option.splits if_splits)
  define m where "m = sd_members (cp_structs s ! the (lc_struct_index (local_at s x))) ! j"
  have "eats (place s) [current_token s, current_token (advance s), current_token ?s1] (place (advance ?s1))"
    using eats_append [OF eats_two [OF st _ sol] eats_advance [of ?s1]] s(2) x(4) settled_advance st by simp
  then have e: "eats (place s) [current_token s, current_token (advance s), current_token ?s1] (place s')"
    using x(6) by (auto simp: add_node_Some)
  have mem: "names_member (scope_of s) (lc_struct_index (the_local (scope_of s) x)) (current_token ?s1) m"
    using x(5) by (auto simp: names_member_def find_struct_member_def scope_of_def m_def local_at_def
        split: option.splits if_splits)
  have kinds: "tk_kind (current_token s) = TOK_IDENTIFIER"
      "tk_kind (current_token (advance s)) = (if b then TOK_ARROW else TOK_DOT)"
    using s(2) k by (simp_all add: current_kind_def)
  have next_: "cp_next_string s' = cp_next_string s" using x(6) by (auto simp: add_node_Some)
  have nd: "i < length (ex_nodes (cp_expr s'))" "ex_nodes (cp_expr s') ! i = zero_node\<lparr>nd_kind := EXPR_STRUCT_MEMBER,
      nd_local_index := x, nd_member_offset := sm_offset m, nd_byte_access := sm_is_char m,
      nd_array_local := (if b then 1 else 0)\<rparr>"
    using x(6) by (auto simp: add_node_Some m_def)
  show ?thesis
  proof (cases b)
    case True
    have "phrase (scope_of s) Primary (cp_next_string s) [current_token s, current_token (advance s), current_token ?s1]
        (Arrow (sm_is_char m) x (sm_offset m)) (cp_next_string s')"
      unfolding next_ using True kinds x mem find_local_names [OF x(1)]
      by (intro p_arrow) (simp_all add: local_at_scope)
    moreover have "denotes (cp_expr s') i (Arrow (sm_is_char m) x (sm_offset m))"
      using d_arrow [OF nd] True by simp
    ultimately show ?thesis using e unfolding reads_def by blast
  next
    case False
    have "phrase (scope_of s) Primary (cp_next_string s) [current_token s, current_token (advance s), current_token ?s1]
        (Member (sm_is_char m) x (sm_offset m)) (cp_next_string s')"
      unfolding next_ using False kinds x mem find_local_names [OF x(1)]
      by (intro p_dot) (simp_all add: local_at_scope)
    moreover have "denotes (cp_expr s') i (Member (sm_is_char m) x (sm_offset m))"
      using d_member [OF nd] False by simp
    ultimately show ?thesis using e unfolding reads_def by blast
  qed
qed

subsection \<open>Binary operators\<close>

text \<open>A node builder scales as the grammar says.\<close>

definition scales :: "level \<Rightarrow> (token_kind_t \<Rightarrow> nat \<Rightarrow> nat \<Rightarrow> pstate \<Rightarrow> expression_node_t option \<times> pstate) \<Rightarrow> bool" where
  "scales lv build \<longleftrightarrow> (\<forall>k l r s node s' tl tr. parse_inv s \<longrightarrow> build k l r s = (Some node, s') \<longrightarrow>
     denotes (cp_expr s) l tl \<longrightarrow> denotes (cp_expr s) r tr \<longrightarrow>
     s' = s \<and> (\<exists>sc. node = (binary_node k l r)\<lparr>nd_pointer_scale := sc\<rparr> \<and> scale_at (scope_of s) lv tl tr = Some sc))"

lemma scales_plain: "lv \<noteq> Sum \<Longrightarrow> scales lv plain_binary"
  by (auto simp: scales_def plain_binary_def scale_at_def binary_node_def zero_node_def)

lemma scales_additive: "scales Sum additive_node"
  unfolding scales_def
proof (intro allI impI)
  fix k l r s node s' tl tr
  assume a: "parse_inv s" "additive_node k l r s = (Some node, s')" "denotes (cp_expr s) l tl" "denotes (cp_expr s) r tr"
  have t: "type_of s l = Some (tree_type (cp_program s) tl)" "type_of s r = Some (tree_type (cp_program s) tr)"
    using type_of_denotes a by blast+
  show "s' = s \<and> (\<exists>sc. node = (binary_node k l r)\<lparr>nd_pointer_scale := sc\<rparr> \<and> scale_at (scope_of s) Sum tl tr = Some sc)"
    using a(2) t
    by (auto simp: additive_node_def Let_def scale_at_def sum_scale_def scope_of_def expression_type_is_pointer_def
        binary_node_def zero_node_def split: if_splits)
qed

lemma loop_reads:
  assumes b: "builds (operators lv) build" "scales lv build" and lv: "list_all is_operator (operators lv)"
    and operand: "\<And>s' i s''. parse_inv s' \<Longrightarrow> left_tokens s' < n \<Longrightarrow> operand s' = (Some i, s'') \<Longrightarrow> well_read (tighter lv) s' i s''"
  shows "well_read lv s0 left s \<Longrightarrow> left_tokens s \<le> n \<Longrightarrow>
    binary_loop k (operators lv) operand build left s = (Some i, s') \<Longrightarrow> well_read lv s0 i s'"
proof (induction k arbitrary: s left)
  case (Suc k)
  show ?case
  proof (cases "current_kind s \<in> set (operators lv)")
    case False
    with Suc.prems show ?thesis by simp
  next
    case True
    then have sol: "solid (current_kind s)" using lv operator_solid by (auto simp: list_all_iff)
    have s: "parse_inv s" "grows s0 s" "reads lv s0 left s" using Suc.prems(1) by (simp_all add: well_read_def)
    then have st: "settled s" by (simp add: parse_inv_def)
    note adv = advance_from [OF s(1) grows_refl sol]
    obtain right s1 node s2 left' s3 where run:
        "operand (advance s) = (Some right, s1)" "build (current_kind s) left right s1 = (Some node, s2)"
        "expression_add_node node s2 = (Some left', s3)"
        "binary_loop k (operators lv) operand build left' s3 = (Some i, s')"
      using Suc.prems(3) True by (auto simp: and_then_Some)
    have wr: "parse_inv s1" "grows (advance s) s1" "reads (tighter lv) (advance s) right s1"
      using operand [OF adv(2) _ run(1)] adv(3) Suc.prems(2) by (auto simp: well_read_def)
    obtain ts tl where l: "eats (place s0) ts (place s)" "phrase (scope_of s0) lv (cp_next_string s0) ts tl (cp_next_string s)"
        "denotes (cp_expr s) left tl" using s(3) by (auto simp: reads_def)
    obtain us tr where r: "eats (place (advance s)) us (place s1)"
        "phrase (scope_of (advance s)) (tighter lv) (cp_next_string (advance s)) us tr (cp_next_string s1)"
        "denotes (cp_expr s1) right tr" using wr(3) by (auto simp: reads_def)
    have g1: "grows s s1" using grows_trans [OF adv(1) wr(2)] .
    have l1: "denotes (cp_expr s1) left tl" using denotes_grows [OF l(3) g1] .
    obtain sc where sc: "s2 = s1" "node = (binary_node (current_kind s) left right)\<lparr>nd_pointer_scale := sc\<rparr>"
        "scale_at (scope_of s1) lv tl tr = Some sc"
      using b(2) wr(1) run(2) l1 r(3) unfolding scales_def by blast
    have "outcome s1 (\<lambda>node s'. s' = s1 \<and> node_ok (cp_program s1) (length (ex_nodes (cp_expr s1))) node)
        (build (current_kind s) left right s1)"
      using b(1) True wr(1) denotes_less [OF l1] denotes_less [OF r(3)] by (simp add: builds_def fresh_node_def)
    then have ok: "node_ok (cp_program s1) (length (ex_nodes (cp_expr s1))) node" using run(2) sc(1) by simp
    have i3: "parse_inv s3" "grows s1 s3" using outcome_add_node [OF wr(1) ok] run(3) sc(1) by auto
    have g3: "grows s0 s3" using grows_trans [OF s(2) grows_trans [OF g1 i3(2)]] .
    have scope: "scope_of s1 = scope_of s0" "scope_of (advance s) = scope_of s0"
      using scope_grows [OF grows_trans [OF s(2) g1]] scope_grows [OF s(2)] by simp_all
    have s3: "place s3 = place s1" "cp_next_string s3 = cp_next_string s1" using run(3) sc(1) by (auto simp: add_node_Some)
    have "eats (place s0) (ts @ current_token s # us) (place s3)"
      using eats_append [OF l(1) eats_append [OF eats_advance [OF st sol] r(1)]] s3 by simp
    moreover have "phrase (scope_of s0) lv (cp_next_string s0) (ts @ current_token s # us)
        (Bin (current_kind s) sc tl tr) (cp_next_string s3)"
      unfolding current_kind_def s3 using True r(2) sc(3) scope
      by (intro p_binary [OF l(2)]) (simp_all add: current_kind_def)
    moreover have "denotes (cp_expr s3) left' (Bin (current_kind s) sc tl tr)"
    proof -
      have nd: "left' < length (ex_nodes (cp_expr s3))" "ex_nodes (cp_expr s3) ! left' = node"
        using run(3) sc(1) by (auto simp: add_node_Some)
      show ?thesis using d_bin [OF nd] denotes_grows [OF l1 i3(2)] denotes_grows [OF r(3) i3(2)] sc(2)
        by (simp add: binary_node_def)
    qed
    ultimately have "well_read lv s0 left' s3" using i3(1) g3 unfolding well_read_def reads_def by blast
    moreover have "left_tokens s3 \<le> n"
      using grows_left [OF i3(2)] grows_left [OF wr(2)] adv(3) Suc.prems(2) by linarith
    ultimately show ?thesis using Suc.IH run(4) by blast
  qed
qed simp

lemma phrase_first: "phrase S lv n ts t n' \<Longrightarrow> ts \<noteq> []"
  and "arguments S n ts us n' \<Longrightarrow> us \<noteq> [] \<Longrightarrow> ts \<noteq> []"
  by (induction rule: phrase_arguments.inducts) auto

lemma phrase_tighter: "phrase S (tighter lv) n ts t n' \<Longrightarrow> lv \<noteq> Primary \<Longrightarrow> phrase S lv n ts t n'"
  by (cases "lv = Unary") (auto intro: p_unary p_tighter)

lemma well_read_tighter: "well_read (tighter lv) s i s' \<Longrightarrow> lv \<noteq> Primary \<Longrightarrow> well_read lv s i s'"
  unfolding well_read_def reads_def using phrase_tighter by blast

lemma level_reads:
  assumes "builds (operators lv) build" "scales lv build" "list_all is_operator (operators lv)" "lv \<noteq> Primary"
    and operand: "\<And>s' i s''. parse_inv s' \<Longrightarrow> left_tokens s' \<le> left_tokens s \<Longrightarrow> operand s' = (Some i, s'') \<Longrightarrow> well_read (tighter lv) s' i s''"
    and s: "parse_inv s"
    and run: "and_then (operand s) (\<lambda>left s1. binary_loop k (operators lv) operand build left s1) = (Some i, s')"
  shows "well_read lv s i s'"
proof -
  obtain x s1 where x: "operand s = (Some x, s1)" "binary_loop k (operators lv) operand build x s1 = (Some i, s')"
    using run by (auto simp: and_then_Some)
  have w: "well_read lv s x s1" using well_read_tighter [OF operand [OF s order_refl x(1)] assms(4)] .
  then have "left_tokens s1 \<le> left_tokens s" by (simp add: well_read_def grows_left)
  with loop_reads [OF assms(1-3), of "left_tokens s" operand s x s1 k i s'] operand w x(2) show ?thesis by simp
qed

subsection \<open>The other functions\<close>

lemma unary_reads:
  assumes primary: "\<And>s' i s''. parse_inv s' \<Longrightarrow> left_tokens s' \<le> left_tokens s \<Longrightarrow> parse_primary k s' = (Some i, s'') \<Longrightarrow> well_read Primary s' i s''"
    and s: "parse_inv s" and contract: "outcome s fresh_node (parse_unary (Suc k) s)"
    and run: "parse_unary (Suc k) s = (Some i, s')"
  shows "well_read Unary s i s'"
proof -
  have st: "settled s" using s by (simp add: parse_inv_def)
  have wf: "parse_inv s'" "grows s s'" using contract run by auto
  let ?s1 = "advance s"
  consider (amp) "current_kind s = TOK_AMPERSAND" | (star) "current_kind s = TOK_STAR"
    | (other) "current_kind s \<noteq> TOK_AMPERSAND" "current_kind s \<noteq> TOK_STAR" by blast
  then show ?thesis
  proof cases
    case amp
    then obtain x where x: "current_kind ?s1 = TOK_IDENTIFIER" "find_local ?s1 (current_token ?s1) = Some x"
        "expression_add_node (zero_node\<lparr>nd_kind := EXPR_ADDRESS_OF, nd_local_index := x\<rparr>) (advance ?s1) = (Some i, s')"
      using run by (auto simp: Let_def split: if_splits option.splits)
    have "eats (place s) [current_token s, current_token ?s1] (place s')"
      using eats_two [OF st] amp x(1,3) by (auto simp: add_node_Some solid_def)
    moreover have "phrase (scope_of s) Unary (cp_next_string s) [current_token s, current_token ?s1] (Addr x) (cp_next_string s')"
      using amp x find_local_names [OF x(2)] by (auto simp: add_node_Some current_kind_def intro!: p_address)
    moreover have "denotes (cp_expr s') i (Addr x)"
      using x(3) d_addr [of i "cp_expr s'" "zero_node\<lparr>nd_kind := EXPR_ADDRESS_OF, nd_local_index := x\<rparr>"]
      by (auto simp: add_node_Some)
    ultimately show ?thesis using wf unfolding well_read_def reads_def by blast
  next
    case star
    then obtain x child s2 where x: "current_kind ?s1 = TOK_IDENTIFIER" "find_local ?s1 (current_token ?s1) = Some x"
        "lc_is_pointer (local_at ?s1 x)" "parse_primary k ?s1 = (Some child, s2)"
        "expression_add_node (zero_node\<lparr>nd_kind := EXPR_DEREF, nd_child := child,
          nd_byte_access := lc_is_char (local_at s2 x)\<rparr>) s2 = (Some i, s')"
      using run by (auto simp: Let_def and_then_Some split: if_splits option.splits)
    have sol: "solid (current_kind s)" using star by simp
    note adv = advance_from [OF s grows_refl sol]
    have w: "parse_inv s2" "grows ?s1 s2" "reads Primary ?s1 child s2"
      using primary [OF adv(2) _ x(4)] adv(3) by (auto simp: well_read_def)
    obtain ts t where r: "eats (place ?s1) ts (place s2)"
        "phrase (scope_of s) Primary (cp_next_string s) ts t (cp_next_string s2)" "denotes (cp_expr s2) child t"
      using w(3) by (auto simp: reads_def)
    obtain us where ts: "ts = current_token ?s1 # us"
      using phrase_first [OF r(2)] r(1) by (auto elim: eats.cases simp: place_def)
    have "eats (place s) (current_token s # ts) (place s')"
      using eats_append [OF eats_advance [OF st sol] r(1)] x(5) by (auto simp: add_node_Some)
    moreover have "phrase (scope_of s) Unary (cp_next_string s) (current_token s # ts)
        (Deref (lc_is_char (the_local (scope_of s) x)) t) (cp_next_string s')"
      unfolding ts
      using star x r(2) find_local_names [OF x(2)] ts
      by (auto simp: add_node_Some current_kind_def local_at_scope intro!: p_deref)
    moreover have "denotes (cp_expr s') i (Deref (lc_is_char (the_local (scope_of s) x)) t)"
    proof -
      have "scope_of s2 = scope_of s" using scope_grows [OF w(2)] by simp
      moreover have "denotes (cp_expr s') child t" using x(5) r(3) denotes_append by (auto simp: add_node_Some)
      ultimately show ?thesis
        using x(5) d_deref [of i "cp_expr s'" "zero_node\<lparr>nd_kind := EXPR_DEREF, nd_child := child,
            nd_byte_access := lc_is_char (local_at s2 x)\<rparr>" t]
        by (auto simp: add_node_Some local_at_scope)
    qed
    ultimately show ?thesis using wf unfolding well_read_def reads_def by blast
  next
    case other
    with run have "parse_primary k s = (Some i, s')" by simp
    then have "well_read Primary s i s'" using primary [OF s order_refl] by blast
    then show ?thesis using well_read_tighter [of Unary] by simp
  qed
qed

text \<open>The arguments that a call has read so far, and a comma behind them.\<close>

definition args_begun :: "pstate \<Rightarrow> nat list \<Rightarrow> pstate \<Rightarrow> bool" where
  "args_begun s0 as s \<longleftrightarrow> grows s0 s \<and>
     (if as = [] then place s = place s0 \<and> cp_next_string s = cp_next_string s0
      else \<exists>ts c us. eats (place s0) (ts @ [c]) (place s) \<and> tk_kind c = TOK_COMMA
        \<and> arguments (scope_of s0) (cp_next_string s0) ts us (cp_next_string s) \<and> list_all2 (denotes (cp_expr s)) as us)"

definition args_read :: "pstate \<Rightarrow> nat list \<Rightarrow> pstate \<Rightarrow> bool" where
  "args_read s0 as s \<longleftrightarrow> (\<exists>ts us. eats (place s0) ts (place s)
     \<and> arguments (scope_of s0) (cp_next_string s0) ts us (cp_next_string s) \<and> list_all2 (denotes (cp_expr s)) as us)"

lemma args_read_none: "args_read s [] s"
  unfolding args_read_def using a_none eats_Nil by fastforce

lemma denotes_all_grows: "list_all2 (denotes (cp_expr s)) as us \<Longrightarrow> grows s s' \<Longrightarrow> list_all2 (denotes (cp_expr s')) as us"
  using denotes_grows by (auto elim!: list.rel_mono_strong)

lemma args_step:
  assumes s: "parse_inv s" "args_begun s0 as s" "well_read Equality s a s1"
  shows "args_read s0 (as @ [a]) s1"
proof -
  have g: "grows s0 s" "grows s s1" "reads Equality s a s1"
    using s by (auto simp: args_begun_def well_read_def)
  obtain ts t where r: "eats (place s) ts (place s1)"
      "phrase (scope_of s0) Equality (cp_next_string s) ts t (cp_next_string s1)" "denotes (cp_expr s1) a t"
    using g(3) scope_grows [OF g(1)] by (auto simp: reads_def)
  show ?thesis
  proof (cases "as = []")
    case True
    then show ?thesis using s(2) r a_one [OF r(2)] by (auto simp: args_begun_def args_read_def)
  next
    case False
    then obtain us c ws where b: "eats (place s0) (us @ [c]) (place s)" "tk_kind c = TOK_COMMA"
        "arguments (scope_of s0) (cp_next_string s0) us ws (cp_next_string s)" "list_all2 (denotes (cp_expr s)) as ws"
      using s(2) by (auto simp: args_begun_def)
    have "ws \<noteq> []" using b(4) False by auto
    from a_more [OF b(3) this b(2) r(2)] eats_append [OF b(1) r(1)] r(3) denotes_all_grows [OF b(4) g(2)]
    show ?thesis unfolding args_read_def by (intro exI conjI) (auto intro: list_all2_appendI)
  qed
qed

lemma args_comma:
  assumes s1: "parse_inv s1" "grows s0 s1" "args_read s0 as s1" "current_kind s1 = TOK_COMMA" "as \<noteq> []"
  shows "args_begun s0 as (advance s1)"
proof -
  have st: "settled s1" using s1(1) by (simp add: parse_inv_def)
  obtain ts us where r: "eats (place s0) ts (place s1)"
      "arguments (scope_of s0) (cp_next_string s0) ts us (cp_next_string s1)" "list_all2 (denotes (cp_expr s1)) as us"
    using s1(3) by (auto simp: args_read_def)
  have "eats (place s0) (ts @ [current_token s1]) (place (advance s1))"
    using eats_append [OF r(1) eats_advance [OF st]] s1(4) by simp
  moreover have "grows s0 (advance s1)" using advance_from [OF s1(1,2)] s1(4) by simp
  ultimately show ?thesis using r s1(4,5) unfolding args_begun_def current_kind_def
    by (auto intro!: exI [of _ ts] exI [of _ "current_token s1"])
qed

lemma args_reads:
  assumes equality: "\<And>s' i s''. parse_inv s' \<Longrightarrow> left_tokens s' \<le> left_tokens s \<Longrightarrow> parse_equality k s' = (Some i, s'') \<Longrightarrow> well_read Equality s' i s''"
    and args: "\<And>s' as as' s''. parse_inv s' \<Longrightarrow> args_ok as s' \<Longrightarrow> left_tokens s' < left_tokens s \<Longrightarrow> args_begun s0 as s' \<Longrightarrow>
      parse_arguments k as s' = (Some as', s'') \<Longrightarrow> args_read s0 as' s''"
    and s: "parse_inv s" "args_ok as s" "args_begun s0 as s" and run: "parse_arguments (Suc k) as s = (Some as', s')"
  shows "args_read s0 as' s'"
proof -
  obtain a s1 where a: "parse_equality k s = (Some a, s1)" "length as < 4"
    and rest: "(if current_kind s1 \<noteq> TOK_COMMA then (Some (as @ [a]), s1) else parse_arguments k (as @ [a]) (advance s1)) = (Some as', s')"
    using run by (auto simp: and_then_Some split: if_splits)
  have w: "well_read Equality s a s1" using equality [OF s(1) order_refl a(1)] .
  have g: "parse_inv s1" "grows s s1" using w by (simp_all add: well_read_def)
  have r1: "args_read s0 (as @ [a]) s1" using args_step [OF s(1,3) w] .
  show ?thesis
  proof (cases "current_kind s1 = TOK_COMMA")
    case False
    with rest r1 show ?thesis by simp
  next
    case True
    have g0: "grows s0 s1" using s(3) g(2) grows_trans by (auto simp: args_begun_def)
    note adv = advance_from [OF g]
    have "fresh_node a s1" using w denotes_less by (auto simp: well_read_def reads_def fresh_node_def)
    then have "args_ok (as @ [a]) s1" using args_ok_grows [OF s(2) g(2)] a(2) by (auto simp: args_ok_def)
    then have "args_ok (as @ [a]) (advance s1)" by (simp add: args_ok_def fresh_node_def)
    moreover have "args_begun s0 (as @ [a]) (advance s1)" using args_comma [OF g(1) g0 r1 True] by simp
    ultimately show ?thesis using args [OF adv(2) _ adv(3)] True rest by simp
  qed
qed

lemma next_is_same:
  assumes "next_is k s = (b, s')"
  shows "place s' = place s" "scope_of s' = scope_of s" "cp_next_string s' = cp_next_string s" "cp_expr s' = cp_expr s"
  using next_is_fields [OF assms] by (simp_all add: place_def scope_of_def)

lemma reads_from:
  assumes "reads lv s1 i s'" "place s1 = place s" "scope_of s1 = scope_of s" "cp_next_string s1 = cp_next_string s"
  shows "reads lv s i s'"
  using assms by (simp add: reads_def)

lemma add_node_nth:
  "expression_add_node node s = (Some i, s') \<Longrightarrow> i < length (ex_nodes (cp_expr s')) \<and> ex_nodes (cp_expr s') ! i = node
     \<and> place s' = place s \<and> cp_next_string s' = cp_next_string s
     \<and> ex_nodes (cp_expr s') = ex_nodes (cp_expr s) @ [node]"
  by (auto simp: add_node_Some)

lemma paren_reads:
  assumes equality: "\<And>s' i s''. parse_inv s' \<Longrightarrow> left_tokens s' < left_tokens s \<Longrightarrow> parse_equality k s' = (Some i, s'') \<Longrightarrow> well_read Equality s' i s''"
    and s: "parse_inv s" "current_kind s = TOK_LPAREN" and run: "parse_primary (Suc k) s = (Some i, s')"
  shows "reads Primary s i s'"
proof -
  have st: "settled s" using s by (simp add: parse_inv_def)
  have sol: "solid (current_kind s)" using s(2) by simp
  note adv = advance_from [OF s(1) grows_refl sol]
  obtain s1 where x: "parse_equality k (advance s) = (Some i, s1)" "current_kind s1 = TOK_RPAREN" "s' = advance s1"
    using run s(2) by (auto simp: and_then_Some expect_Some)
  have w: "parse_inv s1" "reads Equality (advance s) i s1" using equality [OF adv(2,3) x(1)] by (simp_all add: well_read_def)
  obtain ts t where r: "eats (place (advance s)) ts (place s1)"
      "phrase (scope_of s) Equality (cp_next_string s) ts t (cp_next_string s1)" "denotes (cp_expr s1) i t"
    using w(2) by (auto simp: reads_def)
  have "eats (place s) (current_token s # ts @ [current_token s1]) (place s')"
    using eats_append [OF eats_advance [OF st sol] eats_append [OF r(1) eats_advance [of s1]]] w(1) x(2,3)
    by (simp add: parse_inv_def)
  moreover have "phrase (scope_of s) Primary (cp_next_string s) (current_token s # ts @ [current_token s1]) t (cp_next_string s')"
    using p_paren [OF _ r(2)] s(2) x(2,3) by (simp add: current_kind_def)
  ultimately show ?thesis using r(3) x(3) unfolding reads_def by auto
qed

lemma subscript_reads:
  assumes equality: "\<And>s' i s''. parse_inv s' \<Longrightarrow> left_tokens s' < left_tokens s \<Longrightarrow> parse_equality k s' = (Some i, s'') \<Longrightarrow> well_read Equality s' i s''"
    and s: "parse_inv s" "current_kind s = TOK_IDENTIFIER" "current_kind (advance s) = TOK_LBRACKET"
    and x: "find_local s (current_token s) = Some j" "lc_is_array (local_at s j)"
      "parse_equality k (advance (advance s)) = (Some r, s1)" "current_kind s1 = TOK_RBRACKET"
      "expression_add_node (zero_node\<lparr>nd_kind := EXPR_ARRAY_SUBSCRIPT, nd_array_local := j, nd_child := r,
        nd_byte_access := lc_is_char (local_at (advance s1) j)\<rparr>) (advance s1) = (Some i, s')"
  shows "reads Primary s i s'"
proof -
  have st: "settled s" using s by (simp add: parse_inv_def)
  have sol: "solid (current_kind s)" "solid (current_kind (advance s))" using s(2,3) by simp_all
  note adv = advance_from [OF s(1) grows_refl sol(1)]
  note adv2 = advance_from [OF adv(2,1) sol(2)]
  have w: "parse_inv s1" "grows (advance (advance s)) s1" "reads Equality (advance (advance s)) r s1"
    using equality [OF adv2(2,3) x(3)] by (simp_all add: well_read_def)
  obtain ts t where rd: "eats (place (advance (advance s))) ts (place s1)"
      "phrase (scope_of s) Equality (cp_next_string s) ts t (cp_next_string s1)" "denotes (cp_expr s1) r t"
    using w(3) by (auto simp: reads_def)
  note nd = add_node_nth [OF x(5)]
  let ?toks = "current_token s # current_token (advance s) # ts @ [current_token s1]"
  have "eats (place s) ?toks (place s')"
    using eats_append [OF eats_two [OF st sol] eats_append [OF rd(1) eats_advance [of s1]]] w(1) x(4) nd
    by (simp add: parse_inv_def)
  moreover have "phrase (scope_of s) Primary (cp_next_string s) ?toks (Index (lc_is_char (the_local (scope_of s) j)) j t) (cp_next_string s')"
    using p_subscript [OF _ _ _ _ rd(2)] s(2,3) x nd find_local_names [OF x(1)]
    by (simp add: current_kind_def local_at_scope)
  moreover have "denotes (cp_expr s') i (Index (lc_is_char (the_local (scope_of s) j)) j t)"
  proof -
    have "denotes (cp_expr s') r t" using denotes_append [OF rd(3)] nd by simp
    moreover have "scope_of s1 = scope_of s" using scope_grows [OF w(2)] by simp
    ultimately show ?thesis using d_index [OF nd [THEN conjunct1] nd [THEN conjunct2, THEN conjunct1]]
      by (simp add: local_at_scope)
  qed
  ultimately show ?thesis unfolding reads_def by blast
qed

lemma call_reads:
  assumes s: "parse_inv s" "current_kind s = TOK_IDENTIFIER"
    and x: "copy_identifier (source_of s) (current_token s) 64 = Some name"
      "current_kind (advance s) = TOK_LPAREN" "s2 = advance (advance s)" "args_read s2 as s3" "length as \<le> 4"
      "parse_inv s3" "grows s2 s3" "current_kind s3 = TOK_RPAREN"
      "expression_add_node (zero_node\<lparr>nd_kind := EXPR_CALL, nd_call_name := name, nd_call_args := as\<rparr>) (advance s3) = (Some i, s')"
  shows "reads Primary s i s'"
proof -
  have st: "settled s" using s by (simp add: parse_inv_def)
  have sol: "solid (current_kind s)" "solid (current_kind (advance s))" using s(2) x(2) by simp_all
  obtain ts us where rd: "eats (place s2) ts (place s3)"
      "arguments (scope_of s) (cp_next_string s) ts us (cp_next_string s3)" "list_all2 (denotes (cp_expr s3)) as us"
    using x(3,4) by (auto simp: args_read_def)
  note nd = add_node_nth [OF x(9)]
  let ?toks = "current_token s # current_token (advance s) # ts @ [current_token s3]"
  have name: "name = token_text (sc_source (scope_of s)) (current_token s)" "tk_length (current_token s) < 64"
    using x(1) by (auto simp: copy_identifier_def scope_of_def split: if_splits)
  have "eats (place s) ?toks (place s')"
    using eats_append [OF eats_two [OF st sol] eats_append [OF rd(1) [unfolded x(3)] eats_advance [of s3]]] x(6,8) nd
    by (simp add: parse_inv_def)
  moreover have "phrase (scope_of s) Primary (cp_next_string s) ?toks (Fun name us) (cp_next_string s')"
    unfolding name(1)
    using p_call [OF _ name(2) _ rd(2)] s(2) x nd list_all2_lengthD [OF rd(3)]
    by (simp add: current_kind_def)
  moreover have "denotes (cp_expr s') i (Fun name us)"
  proof -
    have "list_all2 (denotes (cp_expr s')) as us" using rd(3) denotes_append nd by (auto elim!: list.rel_mono_strong)
    then show ?thesis using d_fun [OF nd [THEN conjunct1] nd [THEN conjunct2, THEN conjunct1]] by simp
  qed
  ultimately show ?thesis unfolding reads_def by blast
qed

lemma operand_node_reads:
  assumes s: "parse_inv s" and x: "parse_operand s = (Some v, s1)"
      "expression_add_node (zero_node\<lparr>nd_kind := EXPR_OPERAND, nd_operand := v\<rparr>) s1 = (Some i, s')"
  shows "reads Primary s i s'"
proof -
  obtain ts t where r: "eats (place s) ts (place s1)" "cp_expr s1 = cp_expr s" "cp_next_string s1 = cp_next_string s"
      "phrase (scope_of s) Primary (cp_next_string s) ts t (cp_next_string s)"
      "t = (if op_kind v = OPERAND_LOCAL then Var (unat (op_value v)) else Const (op_value v))"
    using operand_reads [OF s x(1)] by blast
  note nd = add_node_nth [OF x(2)]
  have "denotes (cp_expr s') i t"
  proof (cases "op_kind v")
    case OPERAND_LOCAL
    then show ?thesis using d_var [OF nd [THEN conjunct1] nd [THEN conjunct2, THEN conjunct1]] r(5) by simp
  next
    case OPERAND_INTEGER
    then show ?thesis using d_const [OF nd [THEN conjunct1] nd [THEN conjunct2, THEN conjunct1]] r(5) by simp
  qed
  with r nd show ?thesis unfolding reads_def by auto
qed

lemma primary_reads:
  assumes equality: "\<And>s' i s''. parse_inv s' \<Longrightarrow> left_tokens s' < left_tokens s \<Longrightarrow> parse_equality k s' = (Some i, s'') \<Longrightarrow> well_read Equality s' i s''"
    and args: "\<And>s' as s''. parse_inv s' \<Longrightarrow> left_tokens s' < left_tokens s \<Longrightarrow> parse_arguments k [] s' = (Some as, s'') \<Longrightarrow>
      args_read s' as s'' \<and> outcome s' args_ok (parse_arguments k [] s')"
    and s: "parse_inv s" and contract: "outcome s fresh_node (parse_primary (Suc k) s)"
    and run: "parse_primary (Suc k) s = (Some i, s')"
  shows "well_read Primary s i s'"
proof -
  have wf: "parse_inv s'" "grows s s'" using contract run by auto
  have st: "settled s" using s by (simp add: parse_inv_def)
  have "reads Primary s i s'"
  proof (cases "current_kind s = TOK_LPAREN \<or> current_kind s = TOK_STRING")
    case True
    then show ?thesis
    proof
      assume "current_kind s = TOK_LPAREN"
      from paren_reads [OF equality s this run] show ?thesis .
    next
      assume k: "current_kind s = TOK_STRING"
      then have "parse_string s = (Some i, s')" using run by simp
      from string_reads [OF s k this] show ?thesis .
    qed
  next
    case other: False
    obtain b1 s1 where n1: "next_is TOK_ARROW s = (b1, s1)" by (metis surj_pair)
    obtain b2 s2 where n2: "next_is TOK_DOT s1 = (b2, s2)" by (metis surj_pair)
    obtain b3 s3 where n3: "next_is TOK_LBRACKET s2 = (b3, s3)" by (metis surj_pair)
    obtain b4 s4 where n4: "next_is TOK_LPAREN s3 = (b4, s4)" by (metis surj_pair)
    have i1: "parse_inv s1" "grows s s1" using next_is_inv [OF n1 s] by auto
    have i2: "parse_inv s2" "grows s s2" using next_is_inv [OF n2 i1(1)] grows_trans [OF i1(2)] by auto
    have i3: "parse_inv s3" "grows s s3" using next_is_inv [OF n3 i2(1)] grows_trans [OF i2(2)] by auto
    have i4: "parse_inv s4" "grows s s4" using next_is_inv [OF n4 i3(1)] grows_trans [OF i3(2)] by auto
    note same1 = next_is_same [OF n1]
    note same2 = next_is_same [OF n2] note same3 = next_is_same [OF n3] note same4 = next_is_same [OF n4]
    note ex = parse_primary.simps(2) [of k s] n1 n2 n3 n4 other
    note left3 = grows_left [OF i3(2)] note left4 = grows_left [OF i4(2)]
    consider "b1" | "\<not> b1" "b2" | "\<not> b1" "\<not> b2" "b3" | "\<not> b1" "\<not> b2" "\<not> b3" "b4"
      | "\<not> b1" "\<not> b2" "\<not> b3" "\<not> b4" by blast
    then show ?thesis
    proof cases
      case 1
      then have "parse_member True s1 = (Some i, s')" using run ex by simp
      from member_reads [OF i1(1) _ _ this] next_is_true [OF n1 [unfolded 1 [THEN eq_True [THEN iffD2]]] st]
      have "reads Primary s1 i s'" by simp
      then show ?thesis using reads_from same1 by blast
    next
      case 2
      then have m: "parse_member False s2 = (Some i, s')" using run ex by simp
      have "reads Primary s2 i s'"
        using member_reads [OF i2(1) _ _ m] next_is_true [OF n2 [unfolded 2(2) [THEN eq_True [THEN iffD2]]]] i1(1)
        by (simp add: parse_inv_def)
      then show ?thesis using reads_from [of Primary s2] same1 same2 by simp
    next
      case 3
      obtain j r s5 where x: "find_local s3 (current_token s3) = Some j" "lc_is_array (local_at s3 j)"
          "parse_equality k (advance (advance s3)) = (Some r, s5)" "current_kind s5 = TOK_RBRACKET"
          "expression_add_node (zero_node\<lparr>nd_kind := EXPR_ARRAY_SUBSCRIPT, nd_array_local := j, nd_child := r,
            nd_byte_access := lc_is_char (local_at (advance s5) j)\<rparr>) (advance s5) = (Some i, s')"
        using run ex 3 by (auto simp: and_then_Some expect_Some split: option.splits if_splits)
      have "reads Primary s3 i s'"
      proof (rule subscript_reads [OF _ i3(1) _ _ x])
        show "current_kind s3 = TOK_IDENTIFIER" "current_kind (advance s3) = TOK_LBRACKET"
          using next_is_true [OF n3 [unfolded 3(3) [THEN eq_True [THEN iffD2]]]] i2(1) by (simp_all add: parse_inv_def)
      qed (use equality left3 in force)
      then show ?thesis using reads_from [of Primary s3] same1 same2 same3 by simp
    next
      case 4
      have kinds: "current_kind s4 = TOK_IDENTIFIER" "current_kind (advance s4) = TOK_LPAREN"
        using next_is_true [OF n4 [unfolded 4(4) [THEN eq_True [THEN iffD2]]]] i3(1) by (simp_all add: parse_inv_def)
      obtain name as s5 s6 where x: "copy_identifier (source_of s4) (current_token s4) 64 = Some name"
          "s5 = advance (advance s4)"
          "(if current_kind s5 \<noteq> TOK_RPAREN then parse_arguments k [] s5 else (Some [], s5)) = (Some as, s6)"
          "current_kind s6 = TOK_RPAREN"
          "expression_add_node (zero_node\<lparr>nd_kind := EXPR_CALL, nd_call_name := name, nd_call_args := as\<rparr>) (advance s6) = (Some i, s')"
        using run ex 4 by (auto simp: and_then_Some expect_Some split: option.splits)
      note adv = advance_from [OF i4(1) grows_refl]
      note adv2 = advance_from [OF adv(2,1)]
      have s5: "parse_inv s5" "left_tokens s5 < left_tokens s"
        using adv2 kinds x(2) left4 by simp_all
      have a: "args_read s5 as s6" "length as \<le> 4" "parse_inv s6" "grows s5 s6"
      proof -
        show "args_read s5 as s6" "length as \<le> 4" "parse_inv s6" "grows s5 s6"
          using args [OF s5, of as s6] x(3) s5(1) args_read_none
          by (auto simp: args_ok_def split: if_splits)
      qed
      have "reads Primary s4 i s'" using call_reads [OF i4(1) kinds(1) x(1) kinds(2) x(2) a x(4,5)] .
      then show ?thesis using reads_from [of Primary s4] same1 same2 same3 same4 by simp
    next
      case 5
      then obtain v s5 where "parse_operand s4 = (Some v, s5)"
          "expression_add_node (zero_node\<lparr>nd_kind := EXPR_OPERAND, nd_operand := v\<rparr>) s5 = (Some i, s')"
        using run ex by (auto simp: and_then_Some)
      then have "reads Primary s4 i s'" using operand_node_reads [OF i4(1)] by blast
      then show ?thesis using reads_from [of Primary s4] same1 same2 same3 same4 by simp
    qed
  qed
  with wf show ?thesis by (simp add: well_read_def)
qed

text \<open>With enough fuel, whatever a function of the parser returns stands for the tokens it has read.\<close>

lemma parser_reads:
  "parse_inv s \<Longrightarrow> 8 * left_tokens s + 1 \<le> k \<Longrightarrow> parse_primary k s = (Some i, s') \<Longrightarrow> well_read Primary s i s'"
  "parse_inv s \<Longrightarrow> 8 * left_tokens s + 2 \<le> k \<Longrightarrow> parse_unary k s = (Some i, s') \<Longrightarrow> well_read Unary s i s'"
  "parse_inv s \<Longrightarrow> 8 * left_tokens s + 3 \<le> k \<Longrightarrow> parse_multiplicative k s = (Some i, s') \<Longrightarrow> well_read Product s i s'"
  "parse_inv s \<Longrightarrow> 8 * left_tokens s + 4 \<le> k \<Longrightarrow> parse_additive k s = (Some i, s') \<Longrightarrow> well_read Sum s i s'"
  "parse_inv s \<Longrightarrow> 8 * left_tokens s + 5 \<le> k \<Longrightarrow> parse_relational k s = (Some i, s') \<Longrightarrow> well_read Comparison s i s'"
  "parse_inv s \<Longrightarrow> 8 * left_tokens s + 6 \<le> k \<Longrightarrow> parse_equality k s = (Some i, s') \<Longrightarrow> well_read Equality s i s'"
  "parse_inv s \<Longrightarrow> args_ok as s \<Longrightarrow> 8 * left_tokens s + 7 \<le> k \<Longrightarrow> args_begun s0 as s \<Longrightarrow>
     parse_arguments k as s = (Some as', s') \<Longrightarrow> args_read s0 as' s'"
proof (induction k arbitrary: s i s' as as' s0)
  case (Suc k)
  note IH = Suc.IH
  {
    case 1
    show ?case
    proof (rule primary_reads [OF _ _ 1(1) _ 1(3)])
      fix s1 j s2
      assume "parse_inv s1" "left_tokens s1 < left_tokens s" "parse_equality k s1 = (Some j, s2)"
      then show "well_read Equality s1 j s2" using IH(6) [of s1 j s2] 1(2) by simp
    next
      fix s1 bs s2
      assume a: "parse_inv s1" "left_tokens s1 < left_tokens s" "parse_arguments k [] s1 = (Some bs, s2)"
      have ok: "args_ok [] s1" "args_begun s1 [] s1" by (simp_all add: args_ok_def args_begun_def)
      show "args_read s1 bs s2 \<and> outcome s1 args_ok (parse_arguments k [] s1)"
        using IH(7) [OF a(1) ok(1) _ ok(2) a(3)] parser_contract(7) [OF a(1) ok(1), of k] a(2) 1(2) by simp
    qed (rule parser_contract(1) [OF 1(1,2)])
  next
    case 2
    show ?case
    proof (rule unary_reads [OF _ 2(1) _ 2(3)])
      fix s1 j s2
      assume "parse_inv s1" "left_tokens s1 \<le> left_tokens s" "parse_primary k s1 = (Some j, s2)"
      then show "well_read Primary s1 j s2" using IH(1) [of s1 j s2] 2(2) by simp
    qed (rule parser_contract(2) [OF 2(1,2)])
  next
    case 3
    show ?case
      by (rule level_reads [where lv = Product, simplified, OF _ _ _ _ 3(3) [unfolded parse_multiplicative.simps]])
        (use 3 IH(2) in \<open>auto intro: builds_plain scales_plain\<close>)
  next
    case 4
    show ?case
      by (rule level_reads [where lv = Sum, simplified, OF _ _ _ _ 4(3) [unfolded parse_additive.simps]])
        (use 4 IH(3) in \<open>auto intro: builds_additive scales_additive\<close>)
  next
    case 5
    show ?case
      by (rule level_reads [where lv = Comparison, simplified, OF _ _ _ _ 5(3) [unfolded parse_relational.simps]])
        (use 5 IH(4) in \<open>auto intro: builds_plain scales_plain\<close>)
  next
    case 6
    show ?case
      by (rule level_reads [where lv = Equality, simplified, OF _ _ _ _ 6(3) [unfolded parse_equality.simps]])
        (use 6 IH(5) in \<open>auto intro: builds_plain scales_plain\<close>)
  next
    case 7
    show ?case
    proof (rule args_reads [OF _ _ 7(1,2,4,5)])
      fix s1 j s2
      assume "parse_inv s1" "left_tokens s1 \<le> left_tokens s" "parse_equality k s1 = (Some j, s2)"
      then show "well_read Equality s1 j s2" using IH(6) [of s1 j s2] 7(3) by simp
    next
      fix s1 bs bs' s2
      assume "parse_inv s1" "args_ok bs s1" "left_tokens s1 < left_tokens s" "args_begun s0 bs s1"
        "parse_arguments k bs s1 = (Some bs', s2)"
      then show "args_read s0 bs' s2" using IH(7) [of s1 bs s0 bs' s2] 7(3) by simp
    qed
  }
qed simp_all

section \<open>Expressions\<close>

text \<open>What \<open>parse_expression\<close> needs of its caller.\<close>

definition ready :: "pstate \<Rightarrow> bool" where
  "ready s \<longleftrightarrow> settled s \<and> length (pr_locals (cp_program s)) \<le> MAX_LOCALS"

lemma ready_inv: "ready s \<Longrightarrow> parse_inv (s\<lparr>cp_expr := zero_expression\<rparr>)"
  by (simp add: ready_def parse_inv_def settled_def current_kind_def current_token_def)

lemma parse_fuel_enough: "8 * left_tokens s + 6 \<le> parse_fuel s"
proof -
  have "remaining (ps_lexer (cp_parser s)) \<le> length (source_of s)" by (simp add: source_of_def)
  then show ?thesis by (simp add: left_tokens_def parse_fuel_def)
qed

lemma parse_expression_fuel:
  assumes "ready s" shows "cp_fuel_out (snd (parse_expression s)) = cp_fuel_out s"
proof -
  let ?s0 = "s\<lparr>cp_expr := zero_expression\<rparr>"
  have "outcome ?s0 fresh_node (parse_equality (parse_fuel ?s0) ?s0)"
    by (rule parser_contract(6) [OF ready_inv [OF assms] parse_fuel_enough])
  moreover have "parse_fuel ?s0 = parse_fuel s" by (simp add: parse_fuel_def source_of_def)
  ultimately show ?thesis
    by (auto simp: parse_expression_def Let_def outcome_def grows_def split: prod.splits option.splits)
qed

lemma parse_expression_sound:
  assumes s: "ready s" and run: "parse_expression s = (Some e, s')"
  obtains ts t r where "ex_root e = Some r" "denotes e r t" "table_ok (cp_program s) e"
    "eats (place s) ts (place s')" "phrase (scope_of s) Equality (cp_next_string s) ts t (cp_next_string s')"
    "ready s'" "\<not> ps_failed (cp_parser s')" "cp_expr s' = e" "cp_program s' = cp_program s" "scope_of s' = scope_of s"
    "left_tokens s' \<le> left_tokens s" "ps_loop_depth (cp_parser s') = ps_loop_depth (cp_parser s)"
proof -
  let ?s0 = "s\<lparr>cp_expr := zero_expression\<rparr>"
  obtain r s1 where r: "parse_equality (parse_fuel s) ?s0 = (Some r, s1)" "e = (cp_expr s1)\<lparr>ex_root := Some r\<rparr>"
      "s' = s1\<lparr>cp_expr := e\<rparr>" "\<not> ps_failed (cp_parser s1)"
    using run by (auto simp: parse_expression_def Let_def split: prod.splits option.splits if_splits)
  have fuel: "parse_fuel ?s0 = parse_fuel s" by (simp add: parse_fuel_def source_of_def)
  have w: "parse_inv s1" "grows ?s0 s1" "reads Equality ?s0 r s1"
    using parser_reads(6) [OF ready_inv [OF s] parse_fuel_enough r(1) [folded fuel]] by (simp_all add: well_read_def)
  have same: "place ?s0 = place s" "scope_of ?s0 = scope_of s" "left_tokens ?s0 = left_tokens s"
      "left_tokens s' = left_tokens s1" "scope_of s' = scope_of s1" "place s' = place s1"
    using r(3) by (simp_all add: place_def scope_of_def left_tokens_def current_kind_def current_token_def source_of_def)
  obtain ts t where t: "eats (place s) ts (place s1)"
      "phrase (scope_of s) Equality (cp_next_string s) ts t (cp_next_string s1)" "denotes (cp_expr s1) r t"
    using w(3) same by (auto simp: reads_def)
  have "denotes e r t" using denotes_append [OF t(3), of e "[]"] r(2) by simp
  moreover have "ready s'" "table_ok (cp_program s) e"
    using w(1,2) r(2,3) by (auto simp: parse_inv_def ready_def settled_def current_kind_def current_token_def grows_def)
  ultimately show thesis
    using that [of r t ts] t r same w(2) scope_grows [OF w(2)] by (simp add: grows_def)
qed

end
