(* ===== verification/T32_Asm_Exec.thy ===== *)
theory T32_Asm_Exec
  imports T32_Asm T32_Step
begin

text \<open>
  The meaning of assembly lines, and the virtual machine as its implementation. \<open>run_line\<close> runs a
  line that does not branch on registers and RAM; \<open>line_code\<close> is the machine code of a line under a
  symbol table. A machine that has the code of such lines at its program counter steps through them
  to the registers and the RAM that \<open>run_code\<close> computes.
\<close>

section \<open>Straight-line execution\<close>

type_synonym cpu = "(nat \<Rightarrow> u32) \<times> bytes"
type_synonym symbols = "string \<Rightarrow> u32"

definition ram_range :: "bytes \<Rightarrow> u32 \<Rightarrow> nat \<Rightarrow> bool" where
  "ram_range ram a n \<longleftrightarrow> unat a + n \<le> length ram \<and> unat a + n \<le> T32_VIDEO_BASE"

definition width :: "bool \<Rightarrow> nat" where
  "width byte = (if byte then 1 else 4)"

definition load_value :: "bool \<Rightarrow> bytes \<Rightarrow> u32 \<Rightarrow> u32 option" where
  "load_value byte ram a =
     (if ram_range ram a (width byte)
      then Some (if byte then ucast (ram ! unat a) else of_le32 (slice (unat a) 4 ram)) else None)"

definition store_value :: "bool \<Rightarrow> bytes \<Rightarrow> u32 \<Rightarrow> u32 \<Rightarrow> bytes option" where
  "store_value byte ram a v =
     (if ram_range ram a (width byte) then Some (patch (unat a) (if byte then [ucast v] else le32 v) ram) else None)"

text \<open>C division: none by zero, and none whose quotient does not fit.\<close>

definition div_defined :: "u32 \<Rightarrow> u32 \<Rightarrow> bool" where
  "div_defined a b \<longleftrightarrow> b \<noteq> 0 \<and> \<not> (sint a = - (2 ^ 31) \<and> sint b = - 1)"

fun alu_value :: "alu \<Rightarrow> u32 \<Rightarrow> u32 \<Rightarrow> u32 option" where
  "alu_value AL_add a b = Some (a + b)"
| "alu_value AL_sub a b = Some (a - b)"
| "alu_value AL_mul a b = Some (a * b)"
| "alu_value AL_div a b = (if div_defined a b then Some (word_of_int (sint a sdiv sint b)) else None)"
| "alu_value AL_xor a b = Some (a XOR b)"
| "alu_value AL_and a b = Some (a AND b)"
| "alu_value AL_or a b = Some (a OR b)"
| "alu_value AL_shr a b = Some (drop_bit (unat b mod 32) a)"

definition string_label :: "u32 \<Rightarrow> string" where
  "string_label n = ''.Lstr_'' @ fmt_u n"

fun run_line :: "symbols \<Rightarrow> asm_line \<Rightarrow> cpu \<Rightarrow> cpu option" where
  "run_line lab (Alu op d a b) (r, ram) = map_option (\<lambda>v. (r(d := v), ram)) (alu_value op (r a) (r b))"
| "run_line lab (Invert d a) (r, ram) = Some (r(d := NOT (r a)), ram)"
| "run_line lab (Move d a) (r, ram) = Some (r(d := r a), ram)"
| "run_line lab (Movi d v) (r, ram) = Some (r(d := v), ram)"
| "run_line lab (Movi_string d n) (r, ram) = Some (r(d := lab (string_label n)), ram)"
| "run_line lab (Load byte d a) (r, ram) = map_option (\<lambda>v. (r(d := v), ram)) (load_value byte ram (r a))"
| "run_line lab (Store byte d a) (r, ram) = map_option (Pair r) (store_value byte ram (r a) (r d))"
| "run_line lab (Addi d a v) (r, ram) = Some (r(d := r a + v), ram)"
| "run_line lab (Subi d a v) (r, ram) = Some (r(d := r a - v), ram)"
| "run_line lab (Label l) c = Some c"
| "run_line lab (Comment t) c = Some c"
| "run_line lab _ c = None"

fun run_code :: "symbols \<Rightarrow> asm_line list \<Rightarrow> cpu \<Rightarrow> cpu option" where
  "run_code lab [] c = Some c"
| "run_code lab (l # ls) c = Option.bind (run_line lab l c) (run_code lab ls)"

lemma run_code_append: "run_code lab (ls @ ms) c = Option.bind (run_code lab ls c) (run_code lab ms)"
  by (induction ls arbitrary: c) (auto split: bind_split)

section \<open>Machine code\<close>

fun alu_opcode :: "alu \<Rightarrow> opcode" where
  "alu_opcode AL_add = OP_ADD" | "alu_opcode AL_sub = OP_SUB" | "alu_opcode AL_mul = OP_MUL"
| "alu_opcode AL_div = OP_DIV" | "alu_opcode AL_xor = OP_XOR" | "alu_opcode AL_and = OP_AND"
| "alu_opcode AL_or = OP_OR" | "alu_opcode AL_shr = OP_SHR"

definition insn :: "opcode \<Rightarrow> nat \<Rightarrow> nat \<Rightarrow> nat \<Rightarrow> bytes" where
  "insn op d a b = le32 (assembled op (of_nat d) (of_nat a) (of_nat b))"

text \<open>A store has its address in the field \<open>ra\<close> and its value in \<open>rb\<close>.\<close>

fun line_code :: "symbols \<Rightarrow> asm_line \<Rightarrow> bytes" where
  "line_code lab (Alu op d a b) = insn (alu_opcode op) d a b"
| "line_code lab (Invert d a) = insn OP_NOT d a 0"
| "line_code lab (Move d a) = insn OP_MOV d a 0"
| "line_code lab (Movi d v) = insn OP_MOVI d 0 0 @ le32 v"
| "line_code lab (Movi_string d n) = insn OP_MOVI d 0 0 @ le32 (lab (string_label n))"
| "line_code lab (Load byte d a) = insn (if byte then OP_LDB else OP_LDW) d a 0"
| "line_code lab (Store byte d a) = insn (if byte then OP_STB else OP_STW) 0 a d"
| "line_code lab (Call name) = insn OP_CALL 0 0 0 @ le32 (lab name)"
| "line_code lab (Addi d a v) = insn OP_ADDI d a 0 @ le32 v"
| "line_code lab (Subi d a v) = insn OP_SUBI d a 0 @ le32 v"
| "line_code lab (Jump l) = insn OP_JMP 0 0 0 @ le32 (lab l)"
| "line_code lab (Jump_zero a l) = insn OP_JZ 0 a 0 @ le32 (lab l)"
| "line_code lab Ret = insn OP_RET 0 0 0"
| "line_code lab _ = []"

definition code :: "symbols \<Rightarrow> asm_line list \<Rightarrow> bytes" where
  "code lab ls = concat (map (line_code lab) ls)"

lemma code_simps [simp]: "code lab [] = []" "code lab (l # ls) = line_code lab l @ code lab ls"
  "code lab (ls @ ms) = code lab ls @ code lab ms"
  by (simp_all add: code_def)

lemma length_insn [simp]: "length (insn op d a b) = 4"
  by (simp add: insn_def)

fun line_regs :: "asm_line \<Rightarrow> nat list" where
  "line_regs (Alu op d a b) = [d, a, b]"
| "line_regs (Invert d a) = [d, a]"
| "line_regs (Move d a) = [d, a]"
| "line_regs (Movi d v) = [d]"
| "line_regs (Movi_string d n) = [d]"
| "line_regs (Load byte d a) = [d, a]"
| "line_regs (Store byte d a) = [d, a]"
| "line_regs (Addi d a v) = [d, a]"
| "line_regs (Subi d a v) = [d, a]"
| "line_regs (Jump_zero a l) = [a]"
| "line_regs _ = []"

definition regs_ok :: "asm_line \<Rightarrow> bool" where
  "regs_ok l \<longleftrightarrow> list_all (\<lambda>r. r < 16) (line_regs l)"

section \<open>The machine runs a line\<close>

definition cpu_of :: "t32_machine \<Rightarrow> cpu" where
  "cpu_of m = (\<lambda>r. registers m ! r, memory m)"

text \<open>The machine is about to execute the given code.\<close>

definition at_code :: "t32_machine \<Rightarrow> bytes \<Rightarrow> bool" where
  "at_code m bs \<longleftrightarrow> machine_wf m \<and> state m = STATE_STOPPED
     \<and> unat (pc m) + length bs \<le> memory_size m \<and> unat (pc m) + length bs \<le> T32_VIDEO_BASE
     \<and> slice (unat (pc m)) (length bs) (memory m) = bs"

definition vm_steps :: "t32_machine \<Rightarrow> t32_machine \<Rightarrow> bool" where
  "vm_steps = (\<lambda>m m'. t32_step m = (STEP_OK, m'))\<^sup>*\<^sup>*"

lemma vm_steps_refl [simp, intro]: "vm_steps m m"
  by (simp add: vm_steps_def)

lemma vm_steps_step: "t32_step m = (STEP_OK, m') \<Longrightarrow> vm_steps m' m'' \<Longrightarrow> vm_steps m m''"
  by (simp add: vm_steps_def converse_rtranclp_into_rtranclp)

lemma vm_steps_trans: "vm_steps m m' \<Longrightarrow> vm_steps m' m'' \<Longrightarrow> vm_steps m m''"
  by (simp add: vm_steps_def)

lemma nibble_of_nat: "r < 16 \<Longrightarrow> unat ((of_nat r :: u32) AND 15) = r"
proof -
  assume "r < 16"
  moreover have "(15 :: u32) = mask 4" by (simp add: mask_eq_exp_minus_1)
  ultimately show ?thesis
    by (simp only: take_bit_eq_mask [symmetric] unsigned_take_bit_eq)
       (simp add: take_bit_eq_mod unat_of_nat32)
qed

lemma slice_prefix: "slice off (length (xs @ ys)) zs = xs @ ys \<Longrightarrow> slice off (length xs) zs = xs"
  unfolding slice_def by (metis append_eq_conv_conj min.absorb1 take_take length_append le_add1)

lemma slice_suffix:
  "slice off (length (xs @ ys)) zs = xs @ ys \<Longrightarrow> slice (off + length xs) (length ys) zs = ys"
  unfolding slice_def by (metis append_eq_conv_conj drop_drop drop_take length_append add_diff_cancel_left' add.commute)

lemma fetched_simps [simp]:
  "registers (fetched m) = registers m" "memory (fetched m) = memory m"
  "memory_size (fetched m) = memory_size m" "pc (fetched m) = pc m + 4"
  "machine_wf (fetched m) = machine_wf m"
  by (simp_all add: fetched_def)

lemma at_code_access: "at_code m (insn op d a b @ rest) \<Longrightarrow> ram_access m (pc m) 4"
  by (simp add: at_code_def ram_access_def)

lemma at_code_step:
  assumes at: "at_code m (insn op d a b @ rest)" and r: "d < 16" "a < 16" "b < 16"
  shows "t32_step m = (case execute op d a b (fetched m) of
    Inl p \<Rightarrow> p | Inr m3 \<Rightarrow> (STEP_OK, m3\<lparr>state := STATE_STOPPED\<rparr>))"
proof -
  have "slice (unat (pc m)) 4 (memory m) = insn op d a b"
    using at slice_prefix [of "unat (pc m)" "insn op d a b" rest "memory m"] by (simp add: at_code_def)
  with at show ?thesis
    using step_assembled [of m op "of_nat d" "of_nat a" "of_nat b"] at_code_access [OF at]
    by (simp add: insn_def nibble_of_nat r at_code_def)
qed

text \<open>The extension word behind the instruction.\<close>

lemma at_code_pc4: "at_code m (insn op d a b @ le32 v @ rest) \<Longrightarrow> unat (pc m + 4) = unat (pc m) + 4"
  by (simp add: at_code_def unat_word_ariths)

lemma at_code_extension:
  assumes "at_code m (insn op d a b @ le32 v)"
  shows "with_extension (fetched m) t k = k v ((fetched m)\<lparr>pc := pc m + 8\<rparr>)"
proof -
  have pc4: "unat (pc m + 4) = unat (pc m) + 4" using at_code_pc4 [of m op d a b v "[]"] assms by simp
  have "slice (unat (pc m) + 4) 4 (memory m) = le32 v"
    using assms slice_suffix [of "unat (pc m)" "insn op d a b" "le32 v" "memory m"] by (simp add: at_code_def)
  moreover have "ram_access (fetched m) (pc m + 4) 4"
    using assms by (simp add: ram_access_def pc4 at_code_def)
  ultimately show ?thesis
    by (simp add: with_extension_def fetch_extension_def fetch_u32_ram pc4 add.commute)
qed

text \<open>The machine after a line of \<open>n\<close> bytes.\<close>

definition lands :: "t32_machine \<Rightarrow> nat \<Rightarrow> cpu \<Rightarrow> t32_machine \<Rightarrow> bool" where
  "lands m n c m' \<longleftrightarrow> cpu_of m' = c \<and> pc m' = pc m + of_nat n \<and> machine_wf m'
     \<and> memory_size m' = memory_size m"

lemma cpu_of_frame [simp]:
  "cpu_of (fetched m) = cpu_of m" "cpu_of (m\<lparr>state := s\<rparr>) = cpu_of m" "cpu_of (m\<lparr>pc := p\<rparr>) = cpu_of m"
  by (simp_all add: cpu_of_def)

lemma machine_wf_registers: "machine_wf m \<Longrightarrow> length rs = 16 \<Longrightarrow> machine_wf (m\<lparr>registers := rs\<rparr>)"
  by (simp add: machine_wf_defs)

text \<open>An instruction that sets one register, and perhaps the flags.\<close>

lemma lands_set_reg:
  assumes "machine_wf m" "d < 16"
  shows "lands m 4 ((fst (cpu_of m))(d := v), memory m) (set_reg d v (fetched m))"
    "lands m 4 ((fst (cpu_of m))(d := v), memory m) ((set_reg d v (fetched m))\<lparr>flags := f\<rparr>)"
    "lands m 4 ((fst (cpu_of m))(d := v), memory m) ((fetched m)\<lparr>flags := f, registers := (registers m)[d := v]\<rparr>)"
    "lands m 8 ((fst (cpu_of m))(d := v), memory m) ((fetched m)\<lparr>pc := pc m + 8, registers := (registers m)[d := v], flags := f\<rparr>)"
    "lands m 8 ((fst (cpu_of m))(d := v), memory m) ((fetched m)\<lparr>pc := pc m + 8, flags := f, registers := (registers m)[d := v]\<rparr>)"
  using assms
  by (auto simp: lands_def cpu_of_def nth_list_update fun_eq_iff machine_wf_registers machine_wf_def [of m])

lemma sint_zero: "sint (a :: u32) = 0 \<longleftrightarrow> a = 0"
  by (metis signed_0 signed_word_eqI)

lemma execute_alu:
  assumes "machine_wf m" "d < 16"
    and "alu_value op (fst (cpu_of m) a) (fst (cpu_of m) b) = Some v"
  shows "\<exists>m'. execute (alu_opcode op) d a b (fetched m) = Inr m'
    \<and> lands m 4 ((fst (cpu_of m))(d := v), memory m) m'"
proof (cases "op = AL_div")
  case True
  have "sint (registers m ! b) \<noteq> 0" "\<not> (sint (registers m ! a) = - (2 ^ 31) \<and> sint (registers m ! b) = -1)"
    "v = word_of_int (sint (registers m ! a) sdiv sint (registers m ! b))"
    using assms(3) True by (auto simp: cpu_of_def div_defined_def sint_zero split: if_splits)
  then show ?thesis using lands_set_reg(2) [OF assms(1,2)] True
    by (simp add: exec_DIV_def put_result_def Let_def)
next
  case False
  then show ?thesis using assms lands_set_reg [OF assms(1,2)]
    by (cases op)
      (auto simp: exec_ADD_def exec_SUB_def exec_MUL_def exec_XOR_def exec_AND_def exec_OR_def
        exec_SHR_def alu_add_def alu_sub_def put_result_def Let_def cpu_of_def and_31 split: if_splits)
qed

lemma fetch_value:
  assumes "machine_wf m" "load_value byte (memory m) a = Some v"
  shows "(if byte then (case fetch_u8 (fetched m) a of (x, m1) \<Rightarrow> (map_option ucast x, m1)) else fetch_u32 (fetched m) a)
    = (Some v, fetched m)"
proof -
  have "ram_access (fetched m) a (width byte)"
    using assms by (auto simp: load_value_def ram_access_def ram_range_def machine_wf_def width_def split: if_splits)
  then show ?thesis using assms
    by (cases byte) (auto simp: load_value_def fetch_u32_ram fetch_u8_def read_ram width_def ram_range_def
      nth_slice split: if_splits)
qed

lemma store_executes:
  assumes "machine_wf m" "store_value byte (memory m) a v = Some ram"
  shows "(if byte then store_u8 (fetched m) a (ucast v) else store_u32 (fetched m) a v)
    = (True, (fetched m)\<lparr>memory := ram\<rparr>) \<and> length ram = length (memory m)"
proof -
  have "ram_access (fetched m) a (width byte)" "length ram = length (memory m)"
    using assms by (auto simp: store_value_def ram_access_def ram_range_def machine_wf_def width_def split: if_splits)
  then show ?thesis using assms
    by (cases byte) (auto simp: store_value_def store_u32_ram store_u8_def write_ram width_def split: if_splits)
qed

text \<open>What \<open>execute\<close> and the step around it do with a line.\<close>

lemma line_executes:
  assumes at: "at_code m (line_code lab l)" and ok: "regs_ok l" and ne: "line_code lab l \<noteq> []"
    and run: "run_line lab l (cpu_of m) = Some c"
  shows "\<exists>m'. t32_step m = (STEP_OK, m') \<and> lands m (length (line_code lab l)) c m' \<and> state m' = STATE_STOPPED"
proof -
  have wf: "machine_wf m" using at by (simp add: at_code_def)
  have done_: ?thesis
    if "t32_step m = (STEP_OK, m3\<lparr>state := STATE_STOPPED\<rparr>)" "lands m (length (line_code lab l)) c m3" for m3
    using that by (auto simp: lands_def)
  note step = at_code_step [where rest = "[]", simplified]
  note ext = at_code_step [where rest = "le32 v" for v] at_code_extension
  obtain r ram where c0: "cpu_of m = (r, ram)" "r = (\<lambda>i. registers m ! i)" "ram = memory m"
    by (simp add: cpu_of_def)
  note lands4 = lands_set_reg [OF wf, unfolded c0(1), simplified]
  show ?thesis
  proof (cases l)
    case (Alu op d a b)
    then obtain v where v: "alu_value op (r a) (r b) = Some v" "c = (r(d := v), ram)"
      using run c0 by auto
    have "d < 16" "a < 16" "b < 16" using ok Alu by (simp_all add: regs_ok_def)
    with execute_alu [OF wf, of d op a b v] v(1) c0 step [of m "alu_opcode op" d a b] at Alu
    obtain m3 where "t32_step m = (STEP_OK, m3\<lparr>state := STATE_STOPPED\<rparr>)" "lands m 4 c m3"
      by (auto simp: v(2))
    with done_ Alu show ?thesis by simp
  next
    case (Invert d a)
    with ok step [of m OP_NOT d a 0] at run c0 lands4 show ?thesis
      by (intro done_) (auto simp: regs_ok_def exec_NOT_def put_result_def)
  next
    case (Move d a)
    with ok step [of m OP_MOV d a 0] at run c0 lands4 show ?thesis
      by (intro done_) (auto simp: regs_ok_def exec_MOV_def)
  next
    case (Movi d v)
    with ok ext(1) [of m OP_MOVI d 0 0 v] ext(2) [of m OP_MOVI d 0 0 v] at run c0 lands4 show ?thesis
      by (intro done_) (auto simp: regs_ok_def exec_MOVI_def set_zn_def)
  next
    case (Movi_string d n)
    with ok ext(1) [of m OP_MOVI d 0 0 "lab (string_label n)"] ext(2) [of m OP_MOVI d 0 0 "lab (string_label n)"]
      at run c0 lands4 show ?thesis
      by (intro done_) (auto simp: regs_ok_def exec_MOVI_def set_zn_def)
  next
    case (Addi d a v)
    with ok ext(1) [of m OP_ADDI d a 0 v] ext(2) [of m OP_ADDI d a 0 v] at run c0 lands4 show ?thesis
      by (intro done_) (auto simp: regs_ok_def exec_ADDI_def alu_add_def Let_def)
  next
    case (Subi d a v)
    with ok ext(1) [of m OP_SUBI d a 0 v] ext(2) [of m OP_SUBI d a 0 v] at run c0 lands4 show ?thesis
      by (intro done_) (auto simp: regs_ok_def exec_SUBI_def alu_sub_def Let_def)
  next
    case (Load byte d a)
    then obtain v where v: "load_value byte (memory m) (r a) = Some v" "c = (r(d := v), ram)"
      using run c0 by auto
    with Load ok step [of m "if byte then OP_LDB else OP_LDW" d a 0] at c0 lands4 fetch_value [OF wf v(1)]
    show ?thesis
      by (intro done_)
        (auto simp: regs_ok_def exec_LDB_def exec_LDW_def Let_def split: if_splits prod.splits)
  next
    case (Store byte d a)
    then obtain ram' where v: "store_value byte (memory m) (r a) (r d) = Some ram'" "c = (r, ram')"
      using run c0 by auto
    have "lands m 4 (r, ram') ((fetched m)\<lparr>memory := ram'\<rparr>)"
      using store_executes [OF wf v(1)] wf c0 by (auto simp: lands_def cpu_of_def machine_wf_defs fetched_def)
    with Store ok step [of m "if byte then OP_STB else OP_STW" 0 a d] at c0 store_executes [OF wf v(1)] v
    show ?thesis
      by (intro done_)
        (auto simp: regs_ok_def exec_STB_def exec_STW_def Let_def split: if_splits prod.splits)
  qed (use ne run in auto)
qed

section \<open>The machine runs straight-line code\<close>

text \<open>No line of the run writes into the \<open>n\<close> bytes from \<open>lo\<close>, where the code is.\<close>

fun clear_of :: "symbols \<Rightarrow> nat \<Rightarrow> nat \<Rightarrow> asm_line list \<Rightarrow> cpu \<Rightarrow> bool" where
  "clear_of lab lo n [] c = True"
| "clear_of lab lo n (l # ls) c =
     (case run_line lab l c of None \<Rightarrow> True
      | Some c' \<Rightarrow> slice lo n (snd c') = slice lo n (snd c) \<and> clear_of lab lo n ls c')"

lemma slice_within:
  "lo \<le> k \<Longrightarrow> k + j \<le> lo + n \<Longrightarrow> slice k j xs = take j (drop (k - lo) (slice lo n xs))"
  by (simp add: slice_def take_drop add.commute min_def)

lemma at_code_append: "at_code m (xs @ ys) \<Longrightarrow> at_code m xs"
  using slice_prefix [of "unat (pc m)" xs ys "memory m"] by (auto simp: at_code_def)

lemma run_line_silent: "line_code lab l = [] \<Longrightarrow> run_line lab l c = Some c' \<Longrightarrow> c' = c"
  by (cases l; cases c) (auto simp: insn_def le32_def)

lemma at_code_lands:
  assumes at: "at_code m (xs @ ys)" and l: "lands m (length xs) c m'" and st: "state m' = STATE_STOPPED"
    and same: "slice lo n (snd c) = slice lo n (memory m)"
    and lo: "lo \<le> unat (pc m)" "unat (pc m) + length (xs @ ys) \<le> lo + n"
  shows "at_code m' ys" "unat (pc m') = unat (pc m) + length xs"
proof -
  have bound: "unat (pc m) + length (xs @ ys) \<le> T32_VIDEO_BASE" using at by (simp add: at_code_def)
  then show pc': "unat (pc m') = unat (pc m) + length xs"
    using l by (simp add: lands_def unat_word_ariths unat_of_nat32)
  have "slice (unat (pc m) + length xs) (length ys) (memory m) = ys"
    using at slice_suffix [of "unat (pc m)" xs ys "memory m"] by (simp add: at_code_def)
  moreover have "slice (unat (pc m) + length xs) (length ys) (memory m')
      = slice (unat (pc m) + length xs) (length ys) (memory m)"
  proof -
    have within: "lo \<le> unat (pc m) + length xs" "unat (pc m) + length xs + length ys \<le> lo + n"
      using lo by simp_all
    have "slice lo n (memory m') = slice lo n (memory m)"
      using l same by (auto simp: lands_def cpu_of_def)
    then show ?thesis unfolding slice_within [OF within] by simp
  qed
  ultimately show "at_code m' ys"
    using at l st bound unfolding at_code_def lands_def pc' by (simp add: add.assoc)
qed

lemma lines_execute:
  assumes "at_code m (code lab ls)" "list_all regs_ok ls" "run_code lab ls (cpu_of m) = Some c"
    and "clear_of lab lo n ls (cpu_of m)" "lo \<le> unat (pc m)" "unat (pc m) + length (code lab ls) \<le> lo + n"
  shows "\<exists>m'. vm_steps m m' \<and> lands m (length (code lab ls)) c m' \<and> state m' = STATE_STOPPED"
  using assms
proof (induction ls arbitrary: m)
  case Nil
  then show ?case by (intro exI [of _ m]) (simp add: lands_def at_code_def)
next
  case (Cons l ls)
  obtain c1 where c1: "run_line lab l (cpu_of m) = Some c1" "run_code lab ls c1 = Some c"
    using Cons.prems(3) by (auto split: bind_splits)
  show ?case
  proof (cases "line_code lab l = []")
    case True
    then have "c1 = cpu_of m" using run_line_silent c1(1) by blast
    then show ?thesis using Cons.IH [of m] Cons.prems c1 True by simp
  next
    case False
    obtain m1 where m1: "t32_step m = (STEP_OK, m1)" "lands m (length (line_code lab l)) c1 m1"
        "state m1 = STATE_STOPPED"
      using line_executes [OF at_code_append _ False c1(1)] Cons.prems(1,2) by auto
    have keep: "slice lo n (snd c1) = slice lo n (memory m)" "clear_of lab lo n ls c1"
      using Cons.prems(4) c1(1) by (auto simp: cpu_of_def)
    note at1 = at_code_lands [OF Cons.prems(1) [simplified] m1(2,3) keep(1) Cons.prems(5) Cons.prems(6) [simplified code_simps]]
    have c1': "cpu_of m1 = c1" using m1(2) by (simp add: lands_def)
    obtain m' where m': "vm_steps m1 m'" "lands m1 (length (code lab ls)) c m'" "state m' = STATE_STOPPED"
      using Cons.IH [of m1] Cons.prems c1(2) keep(2) at1 c1' by auto
    have "lands m (length (code lab (l # ls))) c m'"
      using m1(2) m'(2) by (simp add: lands_def)
    with m' vm_steps_step [OF m1(1)] show ?thesis by blast
  qed
qed

text \<open>Lines without a store are clear of any range.\<close>

fun is_store :: "asm_line \<Rightarrow> bool" where
  "is_store (Store byte d a) = True"
| "is_store _ = False"

lemma run_line_ram: "run_line lab l c = Some c' \<Longrightarrow> \<not> is_store l \<Longrightarrow> snd c' = snd c"
  by (cases l; cases c) auto

lemma clear_storeless: "list_all (\<lambda>l. \<not> is_store l) ls \<Longrightarrow> clear_of lab lo n ls c"
  by (induction ls arbitrary: c) (auto split: option.split dest: run_line_ram)

end
