(* ===== verification/T32_Emit_Laws.thy ===== *)
theory T32_Emit_Laws
  imports T32_Emit T32_Tree T32_Asm_Exec
begin

text \<open>
  Correctness of the code that \<open>toolchain/t32-cc\<close> generates for expressions without calls. The
  reference is \<open>eval\<close>, the C meaning of an expression tree over the frame and the RAM; a call has no value
  there. \<open>tree_lines\<close> is what the emitter writes for a tree
  (\<open>emit_denotes\<close>), and running it leaves the value of the tree in the destination register and every
  live register as it was (\<open>tree_lines_correct\<close>).
\<close>

section \<open>The value of a tree\<close>

definition c_bool :: "bool \<Rightarrow> u32" where
  "c_bool b = (if b then 1 else 0)"

text \<open>The operators of C on 32-bit \<open>int\<close>, signed where C says so, wrapping where the machine does;
  no value where C has none.\<close>

definition c_operator :: "token_kind_t \<Rightarrow> u32 \<Rightarrow> u32 \<Rightarrow> u32 option" where
  "c_operator k a b =
     (if k = TOK_PLUS then Some (a + b)
      else if k = TOK_MINUS then Some (a - b)
      else if k = TOK_STAR then Some (a * b)
      else if k = TOK_SLASH then if div_defined a b then Some (word_of_int (sint a sdiv sint b)) else None
      else if k = TOK_PERCENT then if div_defined a b then Some (word_of_int (sint a smod sint b)) else None
      else if k = TOK_EQ then Some (c_bool (a = b))
      else if k = TOK_NE then Some (c_bool (a \<noteq> b))
      else if k = TOK_LT then Some (c_bool (sint a < sint b))
      else if k = TOK_GT then Some (c_bool (sint a > sint b))
      else if k = TOK_LE then Some (c_bool (sint a \<le> sint b))
      else if k = TOK_GE then Some (c_bool (sint a \<ge> sint b))
      else None)"

text \<open>The right operand of pointer arithmetic counts words.\<close>

definition scaled :: "token_kind_t \<Rightarrow> u32 \<Rightarrow> u32 \<Rightarrow> u32" where
  "scaled k s b = (if (k = TOK_PLUS \<or> k = TOK_MINUS) \<and> s = 4 then b * 4 else b)"

definition var_value :: "program_t \<Rightarrow> u32 \<Rightarrow> bytes \<Rightarrow> nat \<Rightarrow> u32 option" where
  "var_value prog fp ram i =
     (if i < length (pr_locals prog) \<and> lc_is_array (pr_locals prog ! i) then Some (fp + local_offset prog i)
      else load_value (byte_value prog i) ram (fp + local_offset prog i))"

fun eval :: "program_t \<Rightarrow> symbols \<Rightarrow> u32 \<Rightarrow> bytes \<Rightarrow> tree \<Rightarrow> u32 option" where
  "eval prog lab fp ram (Const v) = Some v"
| "eval prog lab fp ram (Var i) = var_value prog fp ram i"
| "eval prog lab fp ram (Str n) = Some (lab (string_label n))"
| "eval prog lab fp ram (Addr i) = Some (fp + local_offset prog i)"
| "eval prog lab fp ram (Deref b t) = do { a \<leftarrow> eval prog lab fp ram t; load_value b ram a }"
| "eval prog lab fp ram (Index b i t) =
     do { v \<leftarrow> eval prog lab fp ram t;
          load_value b ram (fp + local_offset prog i + (if b then v else v * 4)) }"
| "eval prog lab fp ram (Member b i off) = load_value b ram (fp + (local_offset prog i + off))"
| "eval prog lab fp ram (Arrow b i off) = do { p \<leftarrow> var_value prog fp ram i; load_value b ram (p + off) }"
| "eval prog lab fp ram (Bin k s l r) =
     do { a \<leftarrow> eval prog lab fp ram l; b \<leftarrow> eval prog lab fp ram r; c_operator k a (scaled k s b) }"
| "eval prog lab fp ram (Fun f ts) = None"

section \<open>The code of a tree\<close>

definition scale_lines :: "token_kind_t \<Rightarrow> u32 \<Rightarrow> nat \<Rightarrow> asm_line list" where
  "scale_lines k s n =
     (if (k = TOK_PLUS \<or> k = TOK_MINUS) \<and> s = 4 then [Movi 10 4, Alu AL_mul n n 10] else [])"

fun tree_lines :: "program_t \<Rightarrow> tree \<Rightarrow> nat \<Rightarrow> nat \<Rightarrow> asm_line list" where
  "tree_lines prog (Const v) d n = [Movi d v]"
| "tree_lines prog (Var i) d n = emit_operand prog \<lparr>op_kind = OPERAND_LOCAL, op_value = of_nat i\<rparr> d"
| "tree_lines prog (Str m) d n = [Movi_string d m]"
| "tree_lines prog (Addr i) d n = emit_local_address_to prog i d"
| "tree_lines prog (Deref b t) d n = tree_lines prog t d n @ [Load b d d]"
| "tree_lines prog (Index b i t) d n =
     emit_local_address_to prog i d @ tree_lines prog t n (n + 1)
     @ (if \<not> b then [Movi 10 4, Alu AL_mul n n 10] else []) @ [Alu AL_add d d n, Load b d d]"
| "tree_lines prog (Member b i off) d n =
     (let offset = lc_offset (pr_locals prog ! i) + off in
      if offset = 0 then [Load b d 15] else [Movi 10 offset, Alu AL_add 10 15 10, Load b d 10])"
| "tree_lines prog (Arrow b i off) d n =
     emit_operand prog \<lparr>op_kind = OPERAND_LOCAL, op_value = of_nat i\<rparr> d
     @ (if off \<noteq> 0 then [Movi 10 off, Alu AL_add d d 10] else []) @ [Load b d d]"
| "tree_lines prog (Bin k s l r) d n =
     tree_lines prog l d n @ tree_lines prog r n (n + 1) @ scale_lines k s n
     @ (case emit_operator k d n of None \<Rightarrow> [] | Some ls \<Rightarrow> ls)"
| "tree_lines prog (Fun f ts) d n = []"

text \<open>The tree has no call, and every register that it needs is below the scratch registers.\<close>

fun regs_fit :: "nat \<Rightarrow> tree \<Rightarrow> bool" where
  "regs_fit n (Deref b t) = regs_fit n t"
| "regs_fit n (Index b i t) = (n < 10 \<and> regs_fit (n + 1) t)"
| "regs_fit n (Bin k s l r) = (n < 10 \<and> regs_fit n l \<and> regs_fit (n + 1) r)"
| "regs_fit n (Fun f ts) = False"
| "regs_fit n _ = True"

text \<open>Local 0 is at the stack pointer, and it alone: the emitter takes this for granted.\<close>

definition locals_ok :: "program_t \<Rightarrow> bool" where
  "locals_ok prog \<longleftrightarrow> length (pr_locals prog) \<le> MAX_LOCALS
     \<and> list_all (\<lambda>i. lc_offset (pr_locals prog ! i) = 0 \<longleftrightarrow> i = 0) [0..<length (pr_locals prog)]"

section \<open>What the emitter writes\<close>

lemma emit_emit [simp]: "emit ls (emit ms em) = emit (ms @ ls) em"
  by (simp add: emit_def)

lemma emit_Nil [simp]: "emit [] em = em"
  by (simp add: emit_def)

lemma contains_no_call:
  "denotes e i t \<Longrightarrow> regs_fit n t \<Longrightarrow> depth t < k \<Longrightarrow> expression_node_contains_call k e i = Some False"
proof (induction arbitrary: k n rule: denotes.induct)
  case (d_bin i nd l r)
  then obtain j where "k = Suc j" by (cases k) auto
  with d_bin show ?case by (auto simp add: Let_def)
next
  case (d_fun i nd ts)
  then show ?case by simp
qed (case_tac k; auto simp add: Let_def)+

lemma emit_operator_Some: "is_operator k \<Longrightarrow> \<exists>ls. emit_operator k d n = Some ls"
  by (auto simp: is_operator_def emit_operator_def)

lemma emit_denotes:
  "denotes e i t \<Longrightarrow> tree_ok prog t \<Longrightarrow> regs_fit n t \<Longrightarrow> depth t < k \<Longrightarrow>
   emit_expression_node k prog e i d n em = Some (True, emit (tree_lines prog t d n) em)"
proof (induction arbitrary: k d n em rule: denotes.induct)
  case (d_bin i nd l r)
  then obtain j where k: "k = Suc j" by (cases k) auto
  obtain ls where ls: "emit_operator (nd_operator_kind nd) d n = Some ls"
    using emit_operator_Some d_bin.prems(1) by fastforce
  have "expression_node_contains_call j e (nd_right nd) = Some False"
    using contains_no_call [OF d_bin.hyps(5), of "n + 1" j] d_bin.prems k by simp
  with d_bin k ls show ?case by (simp add: Let_def scale_lines_def)
next
  case (d_fun i nd ts)
  then show ?case by simp
qed (case_tac k; auto simp: Let_def emit_operand_def emit_member_def)+

section \<open>What the code computes\<close>

text \<open>Running the lines leaves the result in \<open>d\<close>, and the registers below \<open>n\<close> and from 14 on as they
  were; where there is no result the run does not succeed.\<close>

definition computes :: "symbols \<Rightarrow> asm_line list \<Rightarrow> nat \<Rightarrow> nat \<Rightarrow> cpu \<Rightarrow> u32 option \<Rightarrow> bool" where
  "computes lab ls d n c result \<longleftrightarrow>
     (case result of
        None \<Rightarrow> run_code lab ls c = None
      | Some v \<Rightarrow> \<exists>r. run_code lab ls c = Some (r, snd c) \<and> r d = v
          \<and> (\<forall>j. j \<noteq> d \<and> (j < n \<or> 14 \<le> j) \<longrightarrow> r j = fst c j))"

lemma computes_Some:
  "computes lab ls d n (r, ram) (Some v) \<longleftrightarrow>
     (case run_code lab ls (r, ram) of None \<Rightarrow> False
      | Some (r', ram') \<Rightarrow> ram' = ram \<and> r' d = v \<and> (\<forall>j. j \<noteq> d \<and> (j < n \<or> 14 \<le> j) \<longrightarrow> r' j = r j))"
  by (auto simp: computes_def split: option.split)

lemma computes_None: "computes lab ls d n c None \<longleftrightarrow> run_code lab ls c = None"
  by (simp add: computes_def)

text \<open>Code that goes on from a result.\<close>

lemma computes_bind:
  assumes "computes lab ls d' n' (r, ram) x"
    and "\<And>v r'. x = Some v \<Longrightarrow> r' d' = v \<Longrightarrow> (\<And>j. j \<noteq> d' \<Longrightarrow> j < n' \<or> 14 \<le> j \<Longrightarrow> r' j = r j) \<Longrightarrow>
      computes lab ms d n (r', ram) (f v)"
    and "n \<le> n'" "d' = d \<or> n \<le> d' \<and> d' < 14"
  shows "computes lab (ls @ ms) d n (r, ram) (Option.bind x f)"
proof (cases x)
  case None
  with assms(1) show ?thesis by (simp add: computes_def run_code_append)
next
  case (Some v)
  then obtain r' where r': "run_code lab ls (r, ram) = Some (r', ram)" "r' d' = v"
      "\<And>j. j \<noteq> d' \<Longrightarrow> j < n' \<or> 14 \<le> j \<Longrightarrow> r' j = r j"
    using assms(1) by (auto simp: computes_def)
  have "computes lab ms d n (r', ram) (f v)" by (rule assms(2)) (use Some r' in auto)
  moreover have "r' j = r j" if "j \<noteq> d" "j < n \<or> 14 \<le> j" for j
    using r'(3) [of j] that assms(3,4) by auto
  ultimately show ?thesis using Some r'(1)
    by (cases "f v") (auto simp: computes_def run_code_append)
qed

subsection \<open>Truth values\<close>

lemma drop_31: "drop_bit 31 (w :: u32) = c_bool (sint w < 0)"
proof -
  have "bit w (31 + n) \<longleftrightarrow> n = 0 \<and> bit w 31" for n
    using bit_u32_bound [of w "31 + n"] by (cases n) auto
  then have "drop_bit 31 w = of_bool (bit w 31)"
    by (intro bit_word_eqI) (auto simp: bit_simps)
  then show ?thesis by (simp add: sign_bit_sint c_bool_def)
qed

lemma sint_minus_cases:
  "sint (a - b) = (if sint a - sint b < - (2 ^ 31) then sint a - sint b + 2 ^ 32
     else if sint a - sint b < 2 ^ 31 then sint a - sint b else sint a - sint b - 2 ^ 32)" for a b :: u32
  unfolding sint_minus32 by (rule wrap_cases) (rule sint_diff_range)+

lemma nonzero_bits: "drop_bit 31 (w OR (0 - w)) = c_bool (w \<noteq> 0)" for w :: u32
proof -
  have "bit (w OR (0 - w)) 31 \<longleftrightarrow> sint w < 0 \<or> sint (0 - w) < 0"
    by (simp only: bit_or_iff flip: sign_bit_sint)
  moreover have "sint w < 0 \<or> sint (0 - w) < 0 \<longleftrightarrow> w \<noteq> 0"
    using sint_zero [of w] sint_range32 [of w] sint_minus_cases [of 0 w]
    by (auto split: if_splits simp del: diff_0)
  ultimately show ?thesis by (simp only: drop_31 sign_bit_sint)
qed

lemma less_bits:
  "drop_bit 31 (((a XOR b) AND a) OR (NOT (a XOR b) AND (a - b))) = c_bool (sint a < sint b)"
  for a b :: u32
proof -
  have "bit (((a XOR b) AND a) OR (NOT (a XOR b) AND (a - b))) 31
      \<longleftrightarrow> sint a < 0 \<and> 0 \<le> sint b \<or> ((sint a < 0) = (sint b < 0)) \<and> sint (a - b) < 0"
    by (auto simp: bit_and_iff bit_or_iff bit_xor_iff bit_not_iff not_less simp flip: sign_bit_sint not_less)
  also have "\<dots> \<longleftrightarrow> sint a < sint b"
    using sint_range32 [of a] sint_range32 [of b] sint_minus_cases [of a b] by (auto split: if_splits)
  finally show ?thesis by (simp only: drop_31 sign_bit_sint)
qed

subsection \<open>Operators\<close>

lemma computes_nonzero:
  assumes "d < 10" "n \<le> 10"
  shows "computes lab (emit_bool_nonzero d) d n (r, ram) (Some (c_bool (r d \<noteq> 0)))"
  using assms nonzero_bits [of "r d"] by (simp add: computes_Some emit_bool_nonzero_def del: drop_bit_or)

lemma computes_invert:
  assumes "d < 10" "n \<le> 10" "r d = c_bool b"
  shows "computes lab (emit_bool_invert d) d n (r, ram) (Some (c_bool (\<not> b)))"
  using assms by (simp add: computes_Some emit_bool_invert_def c_bool_def)

lemma computes_less:
  assumes "d < 10" "n \<le> 10" "x < 10" "y < 10"
  shows "computes lab (emit_signed_less_than d x y) d n (r, ram) (Some (c_bool (sint (r x) < sint (r y))))"
  using assms less_bits [of "r x" "r y"]
  by (simp add: computes_Some emit_signed_less_than_def del: drop_bit_or drop_bit_and drop_bit_xor)

lemma computes_then_invert:
  assumes "computes lab ls d n (r, ram) (Some (c_bool b))" "d < 10" "n \<le> 10"
  shows "computes lab (ls @ emit_bool_invert d) d n (r, ram) (Some (c_bool (\<not> b)))"
  using computes_bind [OF assms(1), where ms = "emit_bool_invert d" and d = d and n = n
      and f = "\<lambda>_. Some (c_bool (\<not> b))"] computes_invert [OF assms(2,3)] by simp

lemma xor_zero: "a XOR b = 0 \<longleftrightarrow> a = b" for a b :: u32
  by (auto simp: bit_eq_iff bit_xor_iff)

lemma remainder_value:
  "a - word_of_int (sint a sdiv sint b) * b = word_of_int (sint a smod sint b)" for a b :: u32
proof -
  have "sint a smod sint b = sint a - (sint a sdiv sint b) * sint b"
    using sdiv_mult_smod_eq [of "sint a" "sint b"] by simp
  then show ?thesis by simp
qed

lemma computes_operator:
  assumes "emit_operator k d m = Some ls" "d < m" "m < 10"
  shows "computes lab ls d m (r, ram) (c_operator k (r d) (r m))"
proof -
  note defs = emit_operator_def c_operator_def
  have m: "d < 10" "m \<le> 10" using assms(2,3) by simp_all
  note less = computes_less [OF m, of d m] computes_less [OF m, of m d]
  have xor_: "computes lab [Alu AL_xor d d m] d m (r, ram) (Some (r d XOR r m))"
    by (simp add: computes_Some)
  have ne: "computes lab (emit_bool_nonzero d) d m (r', ram) (Some (c_bool (v \<noteq> 0)))"
    and eq: "computes lab (emit_bool_nonzero d @ emit_bool_invert d) d m (r', ram) (Some (c_bool (v = 0)))"
    if "r' d = v" for r' v
    using that computes_nonzero [OF m, of lab r' ram]
      computes_then_invert [OF computes_nonzero [OF m, of lab r' ram] m] by simp_all
  consider "k = TOK_PLUS" | "k = TOK_MINUS" | "k = TOK_STAR" | "k = TOK_SLASH" | "k = TOK_PERCENT"
    | "k = TOK_EQ" | "k = TOK_NE" | "k = TOK_LT" | "k = TOK_GT" | "k = TOK_LE" | "k = TOK_GE"
    using assms(1) by (auto simp: emit_operator_def split: if_splits)
  then show ?thesis
  proof cases
    case 4
    then show ?thesis using assms
      by (auto simp: defs computes_Some computes_None)
  next
    case 5
    then show ?thesis using assms remainder_value [of "r d" "r m"] by (auto simp: defs computes_Some computes_None)
  next
    case 6
    have "computes lab ([Alu AL_xor d d m] @ (emit_bool_nonzero d @ emit_bool_invert d)) d m (r, ram)
        (Option.bind (Some (r d XOR r m)) (\<lambda>v. Some (c_bool (\<not> v \<noteq> 0))))"
      by (rule computes_bind [OF xor_]) (use m in \<open>auto intro!: eq\<close>)
    then show ?thesis using assms 6 by (auto simp: defs xor_zero)
  next
    case 7
    have "computes lab ([Alu AL_xor d d m] @ emit_bool_nonzero d) d m (r, ram)
        (Option.bind (Some (r d XOR r m)) (\<lambda>v. Some (c_bool (v \<noteq> 0))))"
      by (rule computes_bind [OF xor_]) (use m in \<open>auto intro!: ne\<close>)
    then show ?thesis using assms 7 by (auto simp: defs xor_zero)
  next
    case 8
    with assms less(1) [of lab r ram] show ?thesis by (simp add: defs)
  next
    case 9
    with assms less(2) [of lab r ram] show ?thesis by (simp add: defs)
  next
    case 10
    with assms computes_then_invert [OF less(2) [of lab r ram] m] show ?thesis by (simp add: defs not_less)
  next
    case 11
    with assms computes_then_invert [OF less(1) [of lab r ram] m] show ?thesis by (simp add: defs not_less)
  qed (use assms in \<open>auto simp: defs computes_Some\<close>)
qed

subsection \<open>Local variables\<close>

lemma locals_okD:
  assumes "locals_ok prog" "i < length (pr_locals prog)"
  shows "unat (of_nat i :: u32) = i" "local_offset prog i = 0 \<longleftrightarrow> i = 0"
  using assms by (auto simp: locals_ok_def local_offset_def list_all_iff unat_of_nat32)

lemma computes_address:
  assumes "d < 10" "n \<le> 10"
  shows "computes lab (emit_local_address_to prog i d) d n (r, ram) (Some (r 15 + local_offset prog i))"
  using assms by (auto simp: computes_Some emit_local_address_to_def Let_def)

lemma computes_load:
  assumes "r a = x" "d < 10" "n \<le> 10"
  shows "computes lab [Load b d a] d n (r, ram) (load_value b ram x)"
  using assms by (cases "load_value b ram x") (auto simp: computes_Some computes_None)

lemma computes_load_at:
  assumes "d < 10" "n \<le> 10"
  shows "computes lab (if offset = 0 then [Load b d 15] else [Movi 10 offset, Alu AL_add 10 15 10, Load b d 10])
    d n (r, ram) (load_value b ram (r 15 + offset))"
  using assms by (cases "load_value b ram (r 15 + offset)") (auto simp: computes_Some computes_None)

lemma load_local_lines:
  assumes "locals_ok prog" "i < length (pr_locals prog)"
  shows "emit_load_local_value prog i d =
    (if local_offset prog i = 0 then [Load (byte_value prog i) d 15]
     else [Movi 10 (local_offset prog i), Alu AL_add 10 15 10, Load (byte_value prog i) d 10])"
  using locals_okD [OF assms]
  by (auto simp: emit_load_local_value_def emit_load_local_def emit_local_address_def Let_def)

lemma computes_var:
  assumes "locals_ok prog" "i < length (pr_locals prog)" "d < 10" "n \<le> 10"
  shows "computes lab (emit_operand prog \<lparr>op_kind = OPERAND_LOCAL, op_value = of_nat i\<rparr> d) d n (r, ram)
    (var_value prog (r 15) ram i)"
  using assms computes_address [of d n lab prog i r ram]
    computes_load_at [of d n lab "local_offset prog i" "byte_value prog i" r ram]
  by (simp add: emit_operand_def var_value_def locals_okD Let_def load_local_lines)

section \<open>The code of a tree computes its value\<close>

lemma computes_scale:
  assumes "n < 10" "m \<le> n"
  shows "computes lab (scale_lines k s n) n m (r, ram) (Some (scaled k s (r n)))"
  using assms by (simp add: computes_Some scale_lines_def scaled_def)

lemma tree_lines_correct:
  assumes "locals_ok prog"
  shows "tree_ok prog t \<Longrightarrow> regs_fit n t \<Longrightarrow> d < n \<Longrightarrow> n \<le> 10 \<Longrightarrow>
    computes lab (tree_lines prog t d n) d n (r, ram) (eval prog lab (r 15) ram t)"
proof (induction t arbitrary: d n r)
  case (Deref b t)
  then show ?case
    by (auto intro!: computes_bind [where d' = d and n' = n] computes_load)
next
  case (Index b i t)
  let ?base = "r 15 + local_offset prog i"
  define ms where "ms = (if \<not> b then [Movi 10 4, Alu AL_mul n n 10] else []) @ [Alu AL_add d d n, Load b d d]"
  define at where "at v = ?base + (if b then v else v * 4)" for v
  have end_: "computes lab ms d n (r2, ram) (load_value b ram (at v))" if "r2 n = v" "r2 d = ?base" for r2 v
    using that Index.prems
    by (cases "load_value b ram (at v)") (auto simp: ms_def at_def computes_Some computes_None)
  have sub: "computes lab (tree_lines prog t n (Suc n) @ ms) d n (r1, ram)
      (Option.bind (eval prog lab (r 15) ram t) (\<lambda>v. load_value b ram (at v)))"
    if "r1 d = ?base" "r1 15 = r 15" for r1
    by (rule computes_bind [where d' = n and n' = "n + 1"])
      (use Index.IH [of "n + 1" n r1] Index.prems that in \<open>auto intro!: end_\<close>)
  have "computes lab (emit_local_address_to prog i d @ (tree_lines prog t n (n + 1) @ ms)) d n (r, ram)
      (Option.bind (Some ?base) (\<lambda>x. Option.bind (eval prog lab (r 15) ram t) (\<lambda>v. load_value b ram (at v))))"
    by (rule computes_bind [where d' = d and n' = n])
      (use computes_address [of d n lab prog i r ram] Index.prems in \<open>auto intro!: sub\<close>)
  then show ?case by (simp add: ms_def at_def)
next
  case (Member b i off)
  then have "local_offset prog i = lc_offset (pr_locals prog ! i)" by (simp add: local_offset_def)
  then show ?case using computes_load_at [of d n lab "local_offset prog i + off" b r ram] Member.prems
    by (auto simp: Let_def split: if_splits)
next
  case (Arrow b i off)
  have "computes lab ((if off \<noteq> 0 then [Movi 10 off, Alu AL_add d d 10] else []) @ [Load b d d]) d n (r1, ram)
      (load_value b ram (p + off))" if "r1 d = p" for r1 p
    using that Arrow.prems by (cases "load_value b ram (p + off)") (auto simp: computes_Some computes_None)
  then show ?case using computes_var [OF assms, of i d n lab r ram] Arrow.prems
    by (auto intro!: computes_bind [where d' = d and n' = n])
next
  case (Bin k s x y)
  obtain ls where ls: "emit_operator k d n = Some ls" using emit_operator_Some Bin.prems(1) by fastforce
  have oper: "computes lab ls d n (r3, ram) (c_operator k a v)" if "r3 d = a" "r3 n = v" for r3 a v
    using that computes_operator [OF ls, of lab r3 ram] Bin.prems by simp
  have op: "computes lab (scale_lines k s n @ ls) d n (r2, ram) (c_operator k a (scaled k s b))"
    if "r2 d = a" "r2 n = b" for r2 a b
  proof -
    have "computes lab (scale_lines k s n @ ls) d n (r2, ram)
        (Option.bind (Some (scaled k s b)) (\<lambda>v. c_operator k a v))"
      by (rule computes_bind [where d' = n and n' = n])
      (use that Bin.prems computes_scale [of n n lab k s r2 ram] in \<open>auto intro!: oper\<close>)
    then show ?thesis by simp
  qed
  have right: "computes lab (tree_lines prog y n (Suc n) @ (scale_lines k s n @ ls)) d n (r1, ram)
      (do { b \<leftarrow> eval prog lab (r 15) ram y; c_operator k a (scaled k s b) })"
    if "r1 d = a" "r1 15 = r 15" for r1 a
    by (rule computes_bind [where d' = n and n' = "n + 1"])
      (use that Bin.IH(2) [of "n + 1" n r1] Bin.prems in \<open>auto intro!: op\<close>)
  have "computes lab (tree_lines prog x d n @ (tree_lines prog y n (n + 1) @ (scale_lines k s n @ ls))) d n (r, ram)
      (do { a \<leftarrow> eval prog lab (r 15) ram x; b \<leftarrow> eval prog lab (r 15) ram y; c_operator k a (scaled k s b) })"
    by (rule computes_bind [where d' = d and n' = n])
      (use Bin.IH(1) [of n d r] Bin.prems in \<open>auto intro!: right\<close>)
  then show ?case by (simp add: ls)
qed (use computes_var [OF assms] computes_address in \<open>auto simp: computes_Some\<close>)

section \<open>On the machine\<close>

lemma operator_lines_ok:
  "emit_operator k d n = Some ls \<Longrightarrow> d < 10 \<Longrightarrow> n < 10 \<Longrightarrow>
   list_all (\<lambda>l. regs_ok l \<and> \<not> is_store l) ls"
  by (auto simp: emit_operator_def emit_bool_nonzero_def emit_bool_invert_def emit_signed_less_than_def
      regs_ok_def split: if_splits)

lemma tree_lines_ok:
  "tree_ok prog t \<Longrightarrow> regs_fit n t \<Longrightarrow> d < n \<Longrightarrow> n \<le> 10 \<Longrightarrow>
   list_all (\<lambda>l. regs_ok l \<and> \<not> is_store l) (tree_lines prog t d n)"
proof (induction t arbitrary: d n)
  case (Bin k s x y)
  then obtain ls where ls: "emit_operator k d n = Some ls" using emit_operator_Some by fastforce
  have "list_all (\<lambda>l. regs_ok l \<and> \<not> is_store l) (scale_lines k s n)"
    using Bin.prems by (simp add: scale_lines_def regs_ok_def)
  with Bin operator_lines_ok [OF ls] ls show ?case by auto
qed (auto simp: regs_ok_def emit_operand_def emit_local_address_to_def emit_local_address_def
  emit_load_local_value_def emit_load_local_def Let_def)

text \<open>A machine that reaches the code of an expression runs it to the end, with the value in the
  destination register; live registers and RAM are as before.\<close>

lemma tree_on_machine:
  assumes t: "locals_ok prog" "tree_ok prog t" "regs_fit n t" "d < n" "n \<le> 10"
    and at: "at_code m (code lab (tree_lines prog t d n))"
    and v: "eval prog lab (registers m ! 15) (memory m) t = Some v"
  shows "\<exists>m'. vm_steps m m' \<and> registers m' ! d = v
    \<and> (\<forall>j. j \<noteq> d \<and> (j < n \<or> 14 \<le> j) \<longrightarrow> registers m' ! j = registers m ! j)
    \<and> memory m' = memory m \<and> pc m' = pc m + of_nat (length (code lab (tree_lines prog t d n)))
    \<and> state m' = STATE_STOPPED \<and> machine_wf m'"
proof -
  let ?ls = "tree_lines prog t d n"
  obtain r where r: "run_code lab ?ls (cpu_of m) = Some (r, memory m)" "r d = v"
      "\<And>j. j \<noteq> d \<Longrightarrow> j < n \<or> 14 \<le> j \<Longrightarrow> r j = registers m ! j"
    using tree_lines_correct [OF t, of lab "\<lambda>i. registers m ! i" "memory m"] v
    by (auto simp: computes_def cpu_of_def)
  have ok: "list_all regs_ok ?ls" "list_all (\<lambda>l. \<not> is_store l) ?ls"
    using tree_lines_ok [OF t(2-5)] by (simp_all add: list_all_iff)
  obtain m' where "vm_steps m m'" "lands m (length (code lab ?ls)) (r, memory m) m'" "state m' = STATE_STOPPED"
    using lines_execute [OF at ok(1) r(1) clear_storeless [OF ok(2)] order_refl order_refl] by blast
  with r(2,3) show ?thesis by (intro exI [of _ m']) (auto simp: lands_def cpu_of_def fun_eq_iff)
qed

section \<open>Where the emitter needs its conditions\<close>

text \<open>An operator that would need more than the registers below 10 is refused; an array subscript is
  not: from register 10 on, its index is lost and 16 is added to the base instead.\<close>

lemma binary_refused:
  "i < length (ex_nodes e) \<Longrightarrow> nd_kind (ex_nodes e ! i) = EXPR_BINARY \<Longrightarrow> 10 \<le> n \<Longrightarrow>
   \<exists>em'. emit_expression_node (Suc k) prog e i d n em = Some (False, em') \<and> em_lines em' = em_lines em"
  by (simp add: Let_def)

lemma subscript_register_lost:
  "run_code lab (tree_lines prog (Index False i (Const v)) 9 10) (r, ram)
    = run_code lab [Load False 9 9]
        (r(10 := 16, 9 := r 15 + local_offset prog i + 16), ram)"
  by (auto simp: emit_local_address_to_def Let_def fun_upd_twist)

end
