(* ===== verification/T32_Expression.thy ===== *)
theory T32_Expression
  imports T32_Grammar T32_Emit_Laws T32_Function
begin

text \<open>
  Expressions of the compiler \<open>toolchain/t32-cc\<close> between the parser and the code: what the parser
  accepts is well typed, the emitter returns on every table of the parser, and it writes the code of
  the tree that was parsed, in any later state of the function.
\<close>

section \<open>Well-typed expressions\<close>

text \<open>Variables are of the kind that their use needs, loads have the width of what they load, and
  only a pointer on the left is added to, in units of what it points at.\<close>

fun well_typed :: "program_t \<Rightarrow> tree \<Rightarrow> bool" where
  "well_typed prog (Var i) = (i < length (pr_locals prog)
     \<and> (lc_is_struct (pr_locals prog ! i) \<longrightarrow> lc_is_pointer (pr_locals prog ! i)))"
| "well_typed prog (Addr i) = (i < length (pr_locals prog))"
| "well_typed prog (Deref b t) = well_typed prog t"
| "well_typed prog (Index b i t) = (i < length (pr_locals prog) \<and> lc_is_array (pr_locals prog ! i)
     \<and> b = lc_is_char (pr_locals prog ! i) \<and> well_typed prog t)"
| "well_typed prog (Member b i off) = (i < length (pr_locals prog) \<and> lc_is_struct (pr_locals prog ! i)
     \<and> \<not> lc_is_pointer (pr_locals prog ! i))"
| "well_typed prog (Arrow b i off) = (i < length (pr_locals prog) \<and> lc_is_struct (pr_locals prog ! i)
     \<and> lc_is_pointer (pr_locals prog ! i))"
| "well_typed prog (Bin k s l r) = (is_operator k \<and> well_typed prog l \<and> well_typed prog r
     \<and> (if k = TOK_PLUS \<or> k = TOK_MINUS then sum_scale prog l r = Some s else s = 0))"
| "well_typed prog (Fun f ts) = (length f < 64 \<and> length ts \<le> 4 \<and> list_all (well_typed prog) ts)"
| "well_typed prog _ = True"

lemma names_local_less: "names_local S a i \<Longrightarrow> i < length (pr_locals (sc_program S))"
  by (auto simp: names_local_def dest: find_index_less)

lemma operator_levels: "k \<in> set (operators lv) \<Longrightarrow> is_operator k \<and> ((k = TOK_PLUS \<or> k = TOK_MINUS) \<longleftrightarrow> lv = Sum)"
  by (cases lv) (auto simp: is_operator_def)

lemma phrase_well_typed:
  "phrase S lv n ts t n' \<Longrightarrow> well_typed (sc_program S) t"
  "arguments S n ts us n' \<Longrightarrow> list_all (well_typed (sc_program S)) us"
proof (induction rule: phrase_arguments.inducts)
  case (p_call a l n ts us n' r)
  then show ?case by (auto simp: token_text_def slice_def min_less_iff_disj split: option.split)
next
  case (p_binary lv n ts l n' k us r n'' s)
  then show ?case using operator_levels [of "tk_kind k" lv] by (auto simp: scale_at_def)
qed (auto dest: names_local_less)

lemma well_typed_tree_ok: "well_typed prog t \<Longrightarrow> tree_ok prog t"
  by (induction t) (auto simp: list_all_iff)

section \<open>The emitter returns\<close>

text \<open>A fuel that is enough for the nodes of a well-formed table, and for lists of arguments.\<close>

definition node_fuel :: "nat \<Rightarrow> nat \<Rightarrow> bool" where
  "node_fuel k i \<longleftrightarrow> 5 * i < k"

definition args_fuel :: "nat \<Rightarrow> nat list \<Rightarrow> bool" where
  "args_fuel k as \<longleftrightarrow> (\<exists>i. list_all (\<lambda>a. a < i) as \<and> 5 * i + length as \<le> k + 4)"

lemma node_fuel_Suc:
  assumes "table_ok prog e" "node_fuel (Suc k) i" "i < length (ex_nodes e)" "ex_nodes e ! i = nd"
  shows "nd_kind nd = EXPR_DEREF \<or> nd_kind nd = EXPR_ARRAY_SUBSCRIPT \<Longrightarrow> node_fuel k (nd_child nd)"
    "nd_kind nd = EXPR_BINARY \<Longrightarrow> node_fuel k (nd_left nd) \<and> node_fuel k (nd_right nd)"
    "nd_kind nd = EXPR_CALL \<Longrightarrow> args_fuel k (nd_call_args nd)"
    "nd_kind nd \<notin> {EXPR_DEREF, EXPR_ARRAY_SUBSCRIPT, EXPR_BINARY, EXPR_CALL} \<Longrightarrow> nd_call_args nd = []"
proof -
  have ok: "node_ok prog i nd" using table_okD assms(1,3,4) by blast
  show "nd_kind nd = EXPR_DEREF \<or> nd_kind nd = EXPR_ARRAY_SUBSCRIPT \<Longrightarrow> node_fuel k (nd_child nd)"
    "nd_kind nd = EXPR_BINARY \<Longrightarrow> node_fuel k (nd_left nd) \<and> node_fuel k (nd_right nd)"
    using ok assms(2) by (auto simp: node_ok_def node_fuel_def)
  show "nd_kind nd = EXPR_CALL \<Longrightarrow> args_fuel k (nd_call_args nd)"
    using ok assms(2) by (auto simp: node_ok_def node_fuel_def args_fuel_def intro!: exI [of _ i])
  show "nd_kind nd \<notin> {EXPR_DEREF, EXPR_ARRAY_SUBSCRIPT, EXPR_BINARY, EXPR_CALL} \<Longrightarrow> nd_call_args nd = []"
    using ok by (cases "nd_kind nd") (auto simp: node_ok_def)
qed

lemma args_fuel_Cons:
  "args_fuel (Suc k) (a # as) \<Longrightarrow> node_fuel k a \<and> args_fuel k as"
  by (auto simp: node_fuel_def args_fuel_def)

lemma args_fuel_0: "args_fuel 0 as \<Longrightarrow> as = []"
  by (cases as) (auto simp: args_fuel_def)

lemma contains_call_total:
  assumes "table_ok prog e"
  shows "node_fuel k i \<Longrightarrow> \<exists>b. expression_node_contains_call k e i = Some b"
    "args_fuel k as \<Longrightarrow> \<exists>b. any_contains_call k e as = Some b"
proof (induction k arbitrary: i as)
  case 0
  { case 1 then show ?case by (simp add: node_fuel_def) next
    case 2 then show ?case using args_fuel_0 [OF 2] by auto }
next
  case (Suc k)
  { case 1
    show ?case
    proof (cases "i < length (ex_nodes e)")
      case True
      define nd where "nd = ex_nodes e ! i"
      note nd = node_fuel_Suc [OF assms 1 True nd_def [symmetric]]
      show ?thesis
      proof (cases "nd_kind nd \<in> {EXPR_DEREF, EXPR_ARRAY_SUBSCRIPT, EXPR_BINARY, EXPR_CALL}")
        case False
        then show ?thesis using nd(4) True by (auto simp add: Let_def simp flip: nd_def)
      next
        case other: True
        consider "nd_kind nd = EXPR_DEREF \<or> nd_kind nd = EXPR_ARRAY_SUBSCRIPT" | "nd_kind nd = EXPR_BINARY"
          | "nd_kind nd = EXPR_CALL" using other by auto
        then show ?thesis
        proof cases
          case 1
          then obtain b where "expression_node_contains_call k e (nd_child nd) = Some b" using Suc.IH(1) nd(1) by blast
          with 1 True show ?thesis by (auto simp add: Let_def simp flip: nd_def)
        next
          case 2
          obtain b c where "expression_node_contains_call k e (nd_left nd) = Some b"
            "expression_node_contains_call k e (nd_right nd) = Some c" using Suc.IH(1) nd(2) [OF 2] by blast
          with 2 True show ?thesis by (auto simp add: Let_def simp flip: nd_def)
        qed (use True in \<open>auto simp add: Let_def simp flip: nd_def\<close>)
      qed
    qed auto
  next
    case 2
    show ?case
    proof (cases as)
      case (Cons a bs)
      obtain b c where "expression_node_contains_call k e a = Some b" "any_contains_call k e bs = Some c"
        using Suc.IH args_fuel_Cons [OF 2 [unfolded Cons]] by blast
      then show ?thesis using Cons by auto
    qed auto
  }
qed

lemma emit_total:
  assumes "table_ok prog e"
  shows "node_fuel k i \<Longrightarrow> \<exists>ok em'. emit_expression_node k p e i d n em = Some (ok, em')"
    "args_fuel k as \<Longrightarrow> \<exists>ss em'. emit_args k p e as slots em = Some (ss, em')"
proof (induction k arbitrary: i d n em as slots)
  case 0
  { case 1 then show ?case by (simp add: node_fuel_def) next
    case 2 then show ?case using args_fuel_0 [OF 2] by auto }
next
  case (Suc k)
  { case 1
    show ?case
    proof (cases "i < length (ex_nodes e)")
      case True
      define nd where "nd = ex_nodes e ! i"
      note nd = node_fuel_Suc [OF assms 1 True nd_def [symmetric]]
      show ?thesis
      proof (cases "nd_kind nd")
        case EXPR_BINARY
        note lr = nd(2) [OF EXPR_BINARY, THEN conjunct1] nd(2) [OF EXPR_BINARY, THEN conjunct2]
        obtain ok1 em1 where l: "emit_expression_node k p e (nd_left nd) d n em = Some (ok1, em1)"
          using Suc.IH(1) [OF lr(1)] by blast
        obtain b where b: "expression_node_contains_call k e (nd_right nd) = Some b"
          using contains_call_total(1) [OF assms lr(2)] by blast
        obtain ok3 em3 where r: "emit_expression_node k p e (nd_right nd) n (n + 1) em1 = Some (ok3, em3)"
          using Suc.IH(1) [OF lr(2)] by blast
        obtain slot em2 where s: "scratch_store d em1 = (slot, em2)" by (cases "scratch_store d em1")
        obtain ok4 em4 where r2: "emit_expression_node k p e (nd_right nd) n (n + 1) em2 = Some (ok4, em4)"
          using Suc.IH(1) [OF lr(2)] by blast
        obtain ok5 em5 where m: "(if b then case scratch_store d em1 of (None, em3) \<Rightarrow> Some (False, em3)
            | (Some slot, em3) \<Rightarrow> do { (ok, em4) \<leftarrow> emit_expression_node k p e (nd_right nd) n (n + 1) em3;
                if \<not> ok then Some (False, em4)
                else Some (True, scratch_release_to (em_depth em1) (scratch_load_slot slot d em4)) }
            else emit_expression_node k p e (nd_right nd) n (n + 1) em1) = Some (ok5, em5)"
          using r s r2 by (cases slot; cases b; cases ok4) auto
        show ?thesis
          using EXPR_BINARY True
          by (auto simp add: l b m Let_def simp flip: nd_def split: option.split)
      next
        case EXPR_CALL
        obtain ss em' where "emit_args k p e (nd_call_args nd) [] em = Some (ss, em')"
          using Suc.IH(2) [OF nd(3) [OF EXPR_CALL]] by blast
        with EXPR_CALL True show ?thesis by (cases ss) (auto simp add: Let_def simp flip: nd_def)
      next
        case EXPR_DEREF
        obtain ok em' where "emit_expression_node k p e (nd_child nd) d n em = Some (ok, em')"
          using Suc.IH(1) [OF nd(1)] EXPR_DEREF by blast
        with EXPR_DEREF True show ?thesis by (auto simp add: Let_def simp flip: nd_def)
      next
        case EXPR_ARRAY_SUBSCRIPT
        obtain ok em' where "emit_expression_node k p e (nd_child nd) n (n + 1)
            (emit (emit_local_address_to p (nd_array_local nd) d) em) = Some (ok, em')"
          using Suc.IH(1) [OF nd(1)] EXPR_ARRAY_SUBSCRIPT by blast
        with EXPR_ARRAY_SUBSCRIPT True show ?thesis by (auto simp add: Let_def simp flip: nd_def)
      qed (use True in \<open>auto simp add: Let_def simp flip: nd_def\<close>)
    qed auto
  next
    case 2
    show ?case
    proof (cases as)
      case (Cons a bs)
      note ab = args_fuel_Cons [OF 2 [unfolded Cons]]
      obtain ok em1 where a: "emit_expression_node k p e a 0 1 em = Some (ok, em1)" using Suc.IH(1) ab by blast
      obtain slot em2 where s: "scratch_store 0 em1 = (slot, em2)" by (cases "scratch_store 0 em1")
      obtain ss em3 where "emit_args k p e bs (slots @ [the slot]) em2 = Some (ss, em3)" using Suc.IH(2) ab by blast
      with a s Cons show ?thesis by (cases slot) auto
    qed auto
  }
qed

text \<open>Any table of the parser is small enough for \<open>EMIT_FUEL\<close>.\<close>

lemma table_fuel:
  assumes "table_ok prog e" "i < length (ex_nodes e)" shows "node_fuel EMIT_FUEL i"
  using assms by (simp add: node_fuel_def table_ok_def)

lemma emit_expression_total:
  assumes "table_ok prog e" "ex_root e = Some r" "r < length (ex_nodes e)"
  shows "\<exists>ok em'. emit_expression EMIT_FUEL p e d n em = Some (ok, em')"
  using emit_total(1) [OF assms(1) table_fuel [OF assms(1,3)]] assms(2) by (simp add: emit_expression_def)

section \<open>The tree that was parsed, and the code that is emitted\<close>

text \<open>A later state of the function: more local variables, and any statements.\<close>

definition extends :: "program_t \<Rightarrow> program_t \<Rightarrow> bool" where
  "extends prog prog' \<longleftrightarrow> (\<exists>ls. pr_locals prog' = pr_locals prog @ ls)"

lemma extends_refl [simp]: "extends prog prog"
  by (simp add: extends_def)

lemma extends_tree_ok: "extends prog prog' \<Longrightarrow> tree_ok prog t \<Longrightarrow> tree_ok prog' t"
  by (induction t) (auto simp: extends_def list_all_iff)

lemma denotes_tree_ok: "denotes e i t \<Longrightarrow> table_ok prog e \<Longrightarrow> tree_ok prog t"
proof (induction rule: denotes.induct)
  case (d_fun i nd ts)
  then show ?case by (auto simp: list_all_iff list_all2_conv_all_nth in_set_conv_nth)
next
  case (d_index i nd t)
  then show ?case using table_okD [OF d_index.prems d_index.hyps(1)] by (simp add: node_ok_def local_ok_def)
next
  case (d_bin i nd l r)
  then show ?case using table_okD [OF d_bin.prems d_bin.hyps(1)] by (simp add: node_ok_def)
qed (auto dest!: table_okD simp: node_ok_def local_ok_def)

text \<open>The emitter writes the code of the tree.\<close>

lemma emit_expression_denotes:
  assumes "table_ok prog e" "ex_root e = Some r" "denotes e r t" "extends prog prog'" "regs_fit n t"
  shows "emit_expression EMIT_FUEL prog' e d n em = Some (True, emit (tree_lines prog' t d n) (em\<lparr>em_depth := 0\<rparr>))"
proof -
  have "depth t < EMIT_FUEL"
    using denotes_depth [OF assms(3,1)] denotes_less [OF assms(3)] assms(1) by (simp add: table_ok_def)
  then show ?thesis
    using emit_denotes [OF assms(3) extends_tree_ok [OF assms(4) denotes_tree_ok [OF assms(3,1)]] assms(5)]
      assms(2) by (simp add: emit_expression_def)
qed

end
