(* ===== verification/T32_Flow.thy ===== *)
theory T32_Flow
  imports T32_Asm_Exec
begin

text \<open>
  Assembly code with jumps, on lines: a configuration is the number of the next line with registers
  and RAM, and \<open>asm_step\<close> follows jumps to their labels. A machine that has the code of the lines in
  its RAM, under a symbol table that gives every label its address, goes through the same
  configurations.
\<close>

section \<open>Steps\<close>

type_synonym config = "nat \<times> cpu"

text \<open>No step may change the program text, a range of the RAM given by start and length.\<close>

definition keeps_text :: "nat \<times> nat \<Rightarrow> bytes \<Rightarrow> bytes \<Rightarrow> bool" where
  "keeps_text text ram ram' \<longleftrightarrow> slice (fst text) (snd text) ram' = slice (fst text) (snd text) ram"

lemma keeps_text_refl [simp]: "keeps_text text ram ram"
  by (simp add: keeps_text_def)

inductive asm_step :: "symbols \<Rightarrow> nat \<times> nat \<Rightarrow> asm_line list \<Rightarrow> config \<Rightarrow> config \<Rightarrow> bool"
  for lab :: symbols and rng :: "nat \<times> nat" and ls :: "asm_line list" where
  as_line: "asm_step lab rng ls (i, c) (Suc i, c')"
    if "i < length ls" "run_line lab (ls ! i) c = Some c'" "keeps_text rng (snd c) (snd c')"
| as_jump: "asm_step lab rng ls (i, c) (j, c)"
    if "i < length ls" "ls ! i = Jump l" "j < length ls" "ls ! j = Label l"
| as_zero: "asm_step lab rng ls (i, (r, ram)) (j, (r, ram))"
    if "i < length ls" "ls ! i = Jump_zero a l" "r a = 0" "j < length ls" "ls ! j = Label l"
| as_nonzero: "asm_step lab rng ls (i, (r, ram)) (Suc i, (r, ram))"
    if "i < length ls" "ls ! i = Jump_zero a l" "r a \<noteq> 0"

definition asm_steps :: "symbols \<Rightarrow> nat \<times> nat \<Rightarrow> asm_line list \<Rightarrow> config \<Rightarrow> config \<Rightarrow> bool" where
  "asm_steps lab text ls = (asm_step lab text ls)\<^sup>*\<^sup>*"

lemma asm_steps_refl [simp, intro]: "asm_steps lab text ls x x"
  by (simp add: asm_steps_def)

lemma asm_steps_trans [trans]:
  "asm_steps lab text ls x y \<Longrightarrow> asm_steps lab text ls y z \<Longrightarrow> asm_steps lab text ls x z"
  by (simp add: asm_steps_def)

lemma asm_steps_step: "asm_step lab text ls x y \<Longrightarrow> asm_steps lab text ls x y"
  by (simp add: asm_steps_def)

section \<open>Fragments\<close>

text \<open>The lines from \<open>i\<close> on begin with a fragment.\<close>

definition has_at :: "asm_line list \<Rightarrow> nat \<Rightarrow> asm_line list \<Rightarrow> bool" where
  "has_at ls i frag \<longleftrightarrow> (\<exists>pre post. ls = pre @ frag @ post \<and> length pre = i)"

lemma has_at_append:
  "has_at ls i (xs @ ys) \<longleftrightarrow> has_at ls i xs \<and> has_at ls (i + length xs) ys"
proof
  assume "has_at ls i (xs @ ys)"
  then obtain pre post where "ls = pre @ (xs @ ys) @ post" "length pre = i" by (auto simp: has_at_def)
  then have "ls = pre @ xs @ (ys @ post)" "ls = (pre @ xs) @ ys @ post" "length (pre @ xs) = i + length xs"
    by simp_all
  with \<open>length pre = i\<close> show "has_at ls i xs \<and> has_at ls (i + length xs) ys" unfolding has_at_def by blast
next
  assume a: "has_at ls i xs \<and> has_at ls (i + length xs) ys"
  obtain pre p1 where 1: "ls = pre @ xs @ p1" "length pre = i" using a unfolding has_at_def by blast
  obtain pre2 p2 where 2: "ls = pre2 @ ys @ p2" "length pre2 = i + length xs" using a unfolding has_at_def by blast
  have "(pre @ xs) @ p1 = pre2 @ ys @ p2" "length (pre @ xs) = length pre2" using 1 2 by simp_all
  then have "p1 = ys @ p2" by (metis append_eq_append_conv)
  with 1 show "has_at ls i (xs @ ys)" by (auto simp: has_at_def)
qed

lemma has_at_Cons: "has_at ls i (x # xs) \<longleftrightarrow> i < length ls \<and> ls ! i = x \<and> has_at ls (Suc i) xs"
proof -
  have "has_at ls i [x] \<longleftrightarrow> i < length ls \<and> ls ! i = x"
    unfolding has_at_def using id_take_nth_drop [of i ls] by (auto simp: nth_append) force
  then show ?thesis using has_at_append [of ls i "[x]" xs] by simp
qed

lemma has_at_whole [simp]: "has_at ls 0 ls"
  by (auto simp: has_at_def intro!: exI [of _ "[]"])

lemma has_at_part: "has_at ls i ms \<Longrightarrow> has_at ms j frag \<Longrightarrow> has_at ls (i + j) frag"
  unfolding has_at_def by (metis append.assoc length_append)

text \<open>Straight-line code that keeps the text runs as it does alone.\<close>

lemma straight_line:
  assumes "has_at ls i frag" "run_code lab frag c = Some c'" "clear_of lab (fst text) (snd text) frag c"
  shows "asm_steps lab text ls (i, c) (i + length frag, c')"
  using assms
proof (induction frag arbitrary: i c)
  case (Cons l frag)
  obtain c1 where c1: "run_line lab l c = Some c1" "run_code lab frag c1 = Some c'"
    using Cons.prems(2) by (auto split: bind_splits)
  have "asm_step lab text ls (i, c) (Suc i, c1)"
    using Cons.prems c1(1) by (auto simp: has_at_Cons keeps_text_def intro!: as_line)
  then have "asm_steps lab text ls (i, c) (Suc i, c1)" by (rule asm_steps_step)
  also have "asm_steps lab text ls (Suc i, c1) (Suc i + length frag, c')"
    using Cons.prems c1 by (intro Cons.IH) (auto simp: has_at_Cons)
  finally show ?case by simp
qed (simp add: asm_steps_def)

lemma jump_to:
  "has_at ls i [Jump l] \<Longrightarrow> has_at ls j [Label l] \<Longrightarrow> asm_steps lab text ls (i, c) (j, c)"
  by (auto simp: has_at_Cons intro!: asm_steps_step as_jump)

lemma pass_label: "has_at ls i [Label l] \<Longrightarrow> asm_steps lab text ls (i, c) (Suc i, c)"
  by (cases c) (auto simp: has_at_Cons intro!: asm_steps_step as_line)

lemma pass_comment: "has_at ls i [Comment t] \<Longrightarrow> asm_steps lab text ls (i, c) (Suc i, c)"
  by (cases c) (auto simp: has_at_Cons intro!: asm_steps_step as_line)

section \<open>On the machine\<close>

text \<open>Every label has the address of its line.\<close>

definition linked :: "symbols \<Rightarrow> asm_line list \<Rightarrow> u32 \<Rightarrow> bool" where
  "linked lab ls base \<longleftrightarrow>
     (\<forall>j<length ls. \<forall>l. ls ! j = Label l \<longrightarrow> lab l = base + of_nat (length (code lab (take j ls))))"

definition text_of :: "symbols \<Rightarrow> asm_line list \<Rightarrow> u32 \<Rightarrow> nat \<times> nat" where
  "text_of lab ls base = (unat base, length (code lab ls))"

text \<open>The machine has the code in its RAM and is at a configuration.\<close>

definition loaded :: "symbols \<Rightarrow> asm_line list \<Rightarrow> u32 \<Rightarrow> t32_machine \<Rightarrow> bool" where
  "loaded lab ls base m \<longleftrightarrow> machine_wf m \<and> state m = STATE_STOPPED
     \<and> unat base + length (code lab ls) \<le> memory_size m \<and> unat base + length (code lab ls) \<le> T32_VIDEO_BASE
     \<and> slice (unat base) (length (code lab ls)) (memory m) = code lab ls"

definition placed :: "symbols \<Rightarrow> asm_line list \<Rightarrow> u32 \<Rightarrow> config \<Rightarrow> t32_machine \<Rightarrow> bool" where
  "placed lab ls base x m \<longleftrightarrow> loaded lab ls base m \<and> fst x \<le> length ls \<and> cpu_of m = snd x
     \<and> unat (pc m) = unat base + length (code lab (take (fst x) ls))"

lemma code_split:
  "i < length ls \<Longrightarrow> code lab ls = code lab (take i ls) @ line_code lab (ls ! i) @ code lab (drop (Suc i) ls)"
  using id_take_nth_drop [of i ls] by (metis code_simps(2,3))

lemma take_Suc_code:
  "i < length ls \<Longrightarrow> length (code lab (take (Suc i) ls)) = length (code lab (take i ls)) + length (line_code lab (ls ! i))"
  by (simp add: take_Suc_conv_app_nth)

lemma length_code_take: "length (code lab (take i ls)) \<le> length (code lab ls)"
  by (metis append_take_drop_id code_simps(3) length_append le_add1)

lemma placed_at_code:
  assumes "placed lab ls base (i, c) m" "i < length ls"
  shows "at_code m (line_code lab (ls ! i))"
proof -
  let ?a = "code lab (take i ls)" and ?b = "line_code lab (ls ! i)" and ?d = "code lab (drop (Suc i) ls)"
  have l: "loaded lab ls base m" and p: "unat (pc m) = unat base + length ?a"
    using assms(1) by (simp_all add: placed_def)
  have "slice (unat base) (length (?a @ ?b @ ?d)) (memory m) = ?a @ ?b @ ?d"
    using l code_split [OF assms(2), of lab] by (simp add: loaded_def)
  from slice_prefix [OF slice_suffix [OF this]] have "slice (unat (pc m)) (length ?b) (memory m) = ?b" by (simp add: p)
  moreover have "length ?a + length ?b \<le> length (code lab ls)" using code_split [OF assms(2), of lab] by simp
  ultimately show ?thesis using l by (simp add: at_code_def loaded_def p)
qed

lemma placed_jump:
  assumes "placed lab ls base (i, c) m" "linked lab ls base" "j < length ls" "ls ! j = Label l"
  shows "placed lab ls base (j, c) ((fetched m)\<lparr>pc := lab l, state := STATE_STOPPED\<rparr>)"
proof -
  have "unat base + length (code lab (take j ls)) < 2 ^ 32"
    using assms(1) length_code_take [of lab j ls] by (simp add: placed_def loaded_def)
  then have "unat (lab l) = unat base + length (code lab (take j ls))"
    using assms(2-4) by (simp add: linked_def unat_word_ariths unat_of_nat32)
  with assms(1,3) show ?thesis
    by (simp add: placed_def loaded_def cpu_of_def machine_wf_defs fetched_def)
qed

lemma placed_next:
  assumes m: "placed lab ls base (i, c) m" "i < length ls" and l: "lands m (length (line_code lab (ls ! i))) c' m'"
    and st: "state m' = STATE_STOPPED" and k: "keeps_text (text_of lab ls base) (snd c) (snd c')"
  shows "placed lab ls base (Suc i, c') m'"
proof -
  have "unat (pc m) + length (line_code lab (ls ! i)) < 2 ^ 32"
    using m length_code_take [of lab "Suc i" ls] by (simp add: placed_def loaded_def take_Suc_code)
  then have "unat (pc m') = unat (pc m) + length (line_code lab (ls ! i))"
    using l by (simp add: lands_def unat_word_ariths unat_of_nat32)
  moreover have "memory m' = snd c'" "memory m = snd c"
    using l m(1) by (auto simp: lands_def placed_def cpu_of_def)
  ultimately show ?thesis
    using m l st k by (simp add: placed_def loaded_def lands_def keeps_text_def text_of_def take_Suc_code)
qed

lemma step_executes:
  assumes "asm_step lab (text_of lab ls base) ls x y" "placed lab ls base x m" "linked lab ls base" "list_all regs_ok ls"
  shows "\<exists>m'. vm_steps m m' \<and> placed lab ls base y m'"
  using assms(1,2)
proof cases
  case (as_line i c c')
  show ?thesis
  proof (cases "line_code lab (ls ! i) = []")
    case True
    then have "c' = c" using run_line_silent as_line(4) by blast
    with as_line assms(2) True have "placed lab ls base y m" by (simp add: placed_def take_Suc_code)
    then show ?thesis by blast
  next
    case False
    have c: "cpu_of m = c" using assms(2) as_line(1) by (simp add: placed_def)
    obtain m' where "t32_step m = (STEP_OK, m')" "lands m (length (line_code lab (ls ! i))) c' m'"
        "state m' = STATE_STOPPED"
      using line_executes [OF placed_at_code _ False] assms(2,4) as_line c by (metis list_all_length)
    with placed_next [of lab ls base i c m c' m'] as_line assms(2) show ?thesis
      by (blast intro: vm_steps_step)
  qed
next
  case (as_jump i l j c)
  have at: "at_code m (insn OP_JMP 0 0 0 @ le32 (lab l))"
    using placed_at_code [of lab ls base i c m] assms(2) as_jump by simp
  have "t32_step m = (STEP_OK, (fetched m)\<lparr>pc := lab l, state := STATE_STOPPED\<rparr>)"
    using at_code_step [OF at] at_code_extension [OF at] by (simp add: exec_JMP_def)
  with placed_jump [of lab ls base i c m j l] as_jump assms(2,3) show ?thesis
    by (blast intro: vm_steps_step)
next
  case (as_zero i a l r j ram)
  have at: "at_code m (insn OP_JZ 0 a 0 @ le32 (lab l))"
    using placed_at_code [of lab ls base i "(r, ram)" m] assms(2) as_zero by simp
  have a: "a < 16" using assms(4) as_zero(3,4) by (auto simp: list_all_length regs_ok_def)
  have "registers m ! a = 0" using assms(2) as_zero by (auto simp: placed_def cpu_of_def)
  then have "t32_step m = (STEP_OK, (fetched m)\<lparr>pc := lab l, state := STATE_STOPPED\<rparr>)"
    using at_code_step [OF at] at_code_extension [OF at] a by (simp add: exec_JZ_def)
  with placed_jump [of lab ls base i "(r, ram)" m j l] as_zero assms(2,3) show ?thesis
    by (blast intro: vm_steps_step)
next
  case (as_nonzero i a l r ram)
  have at: "at_code m (insn OP_JZ 0 a 0 @ le32 (lab l))"
    using placed_at_code [of lab ls base i "(r, ram)" m] assms(2) as_nonzero by simp
  have a: "a < 16" using assms(4) as_nonzero(3,4) by (auto simp: list_all_length regs_ok_def)
  have "registers m ! a \<noteq> 0" using assms(2) as_nonzero by (auto simp: placed_def cpu_of_def)
  then have s: "t32_step m = (STEP_OK, (fetched m)\<lparr>pc := pc m + 8, state := STATE_STOPPED\<rparr>)"
    using at_code_step [OF at] at_code_extension [OF at] a by (simp add: exec_JZ_def)
  have "lands m (length (line_code lab (ls ! i))) (r, ram) ((fetched m)\<lparr>pc := pc m + 8, state := STATE_STOPPED\<rparr>)"
    using assms(2) as_nonzero by (auto simp: lands_def placed_def loaded_def cpu_of_def machine_wf_defs fetched_def)
  with placed_next [of lab ls base i "(r, ram)" m] as_nonzero assms(2) s show ?thesis
    by (fastforce intro: vm_steps_step)
qed

lemma steps_execute:
  assumes "asm_steps lab (text_of lab ls base) ls x y" "placed lab ls base x m" "linked lab ls base" "list_all regs_ok ls"
  shows "\<exists>m'. vm_steps m m' \<and> placed lab ls base y m'"
  using assms(1,2) unfolding asm_steps_def
proof (induction arbitrary: m rule: converse_rtranclp_induct)
  case (step x z)
  obtain m1 where "vm_steps m m1" "placed lab ls base z m1"
    using step_executes [OF step.hyps(1) step.prems assms(3,4)] by blast
  with step.IH [of m1] show ?case by (blast intro: vm_steps_trans)
qed blast

end
