(* ===== verification/T32_Stmt.thy ===== *)
theory T32_Stmt
  imports T32_Expression T32_Flow
begin

text \<open>
  Statements of the language of \<open>t32-cc\<close> as trees: their meaning in C over the RAM (\<open>exec\<close>, with a
  fuel for the loops), their code (\<open>stmt_lines\<close>), the tables that represent them (\<open>reads_stmt\<close>), and
  the proof that the emitter writes the code of the tree that a table represents.
\<close>

section \<open>Statements\<close>

text \<open>Assignment to a local variable; stores through a pointer, into an array, into a struct (is it a
  byte, is it through a pointer, which variable, at what offset); the branches of a conditional
  are lists, the false branch may be missing.\<close>

datatype stmt =
    Assign nat tree
  | Store_through nat tree
  | Store_element nat tree tree
  | Store_member bool bool nat u32 tree
  | Do tree
  | Return tree
  | Break
  | Continue
  | If tree "stmt list" "stmt list"
  | While tree "stmt list"
  | For nat tree tree nat tree "stmt list"

section \<open>Meaning\<close>

text \<open>Where a function runs: its program, the symbol table, the address of its frame and the text that
  it may not write to.\<close>

record frame =
  fr_prog :: program_t
  fr_labels :: symbols
  fr_base :: u32
  fr_text :: "nat \<times> nat"

definition value_of :: "frame \<Rightarrow> bytes \<Rightarrow> tree \<Rightarrow> u32 option" where
  "value_of F ram t = eval (fr_prog F) (fr_labels F) (fr_base F) ram t"

definition c_store :: "frame \<Rightarrow> bool \<Rightarrow> bytes \<Rightarrow> u32 \<Rightarrow> u32 \<Rightarrow> bytes option" where
  "c_store F byte ram a v =
     do { ram' \<leftarrow> store_value byte ram a v; if keeps_text (fr_text F) ram ram' then Some ram' else None }"

definition local_address :: "frame \<Rightarrow> nat \<Rightarrow> u32" where
  "local_address F i = fr_base F + local_offset (fr_prog F) i"

definition assign :: "frame \<Rightarrow> nat \<Rightarrow> tree \<Rightarrow> bytes \<Rightarrow> bytes option" where
  "assign F i t ram =
     do { v \<leftarrow> value_of F ram t; c_store F (byte_value (fr_prog F) i) ram (local_address F i) v }"

definition is_char_local :: "program_t \<Rightarrow> nat \<Rightarrow> bool" where
  "is_char_local prog i = lc_is_char (pr_locals prog ! i)"

definition store_through :: "frame \<Rightarrow> nat \<Rightarrow> tree \<Rightarrow> bytes \<Rightarrow> bytes option" where
  "store_through F i t ram =
     do { v \<leftarrow> value_of F ram t; p \<leftarrow> load_value False ram (local_address F i);
          c_store F (is_char_local (fr_prog F) i) ram p v }"

definition store_element :: "frame \<Rightarrow> nat \<Rightarrow> tree \<Rightarrow> tree \<Rightarrow> bytes \<Rightarrow> bytes option" where
  "store_element F i ix t ram =
     (let byte = is_char_local (fr_prog F) i in
      do { v \<leftarrow> value_of F ram t; x \<leftarrow> value_of F ram ix;
           c_store F byte ram (local_address F i + (if byte then x else x * 4)) v })"

definition store_member :: "frame \<Rightarrow> bool \<Rightarrow> bool \<Rightarrow> nat \<Rightarrow> u32 \<Rightarrow> tree \<Rightarrow> bytes \<Rightarrow> bytes option" where
  "store_member F byte through i off t ram =
     do { v \<leftarrow> value_of F ram t;
          p \<leftarrow> (if through then value_of F ram (Var i) else Some (local_address F i));
          c_store F byte ram (p + off) v }"

text \<open>How a statement ends, with the RAM.\<close>

datatype outcome = Normal bytes | Broke bytes | Continued bytes | Returned u32 bytes

fun exec :: "frame \<Rightarrow> nat \<Rightarrow> stmt \<Rightarrow> bytes \<Rightarrow> outcome option"
  and exec_seq :: "frame \<Rightarrow> nat \<Rightarrow> stmt list \<Rightarrow> bytes \<Rightarrow> outcome option"
  and exec_loop :: "frame \<Rightarrow> nat \<Rightarrow> tree \<Rightarrow> (nat \<times> tree) option \<Rightarrow> stmt list \<Rightarrow> bytes \<Rightarrow> outcome option" where
  "exec F 0 s ram = None"
| "exec F (Suc k) (Assign i t) ram = map_option Normal (assign F i t ram)"
| "exec F (Suc k) (Store_through i t) ram = map_option Normal (store_through F i t ram)"
| "exec F (Suc k) (Store_element i ix t) ram = map_option Normal (store_element F i ix t ram)"
| "exec F (Suc k) (Store_member b th i off t) ram = map_option Normal (store_member F b th i off t ram)"
| "exec F (Suc k) (Do t) ram = map_option (\<lambda>v. Normal ram) (value_of F ram t)"
| "exec F (Suc k) (Return t) ram = map_option (\<lambda>v. Returned v ram) (value_of F ram t)"
| "exec F (Suc k) Break ram = Some (Broke ram)"
| "exec F (Suc k) Continue ram = Some (Continued ram)"
| "exec F (Suc k) (If t as bs) ram =
     do { v \<leftarrow> value_of F ram t; exec_seq F k (if v \<noteq> 0 then as else bs) ram }"
| "exec F (Suc k) (While t body) ram = exec_loop F k t None body ram"
| "exec F (Suc k) (For i t0 t j t1 body) ram =
     do { ram1 \<leftarrow> assign F i t0 ram; exec_loop F k t (Some (j, t1)) body ram1 }"
| "exec_seq F k [] ram = Some (Normal ram)"
| "exec_seq F 0 (s # ss) ram = None"
| "exec_seq F (Suc k) (s # ss) ram =
     do { out \<leftarrow> exec F k s ram;
          case out of Normal ram1 \<Rightarrow> exec_seq F k ss ram1 | _ \<Rightarrow> Some out }"
| "exec_loop F 0 t u body ram = None"
| "exec_loop F (Suc k) t u body ram =
     do { v \<leftarrow> value_of F ram t;
          if v = 0 then Some (Normal ram)
          else do { out \<leftarrow> exec_seq F k body ram;
            case out of Broke ram1 \<Rightarrow> Some (Normal ram1) | Returned w ram1 \<Rightarrow> Some out
            | Normal ram1 \<Rightarrow> do { ram2 \<leftarrow> (case u of None \<Rightarrow> Some ram1 | Some (j, t1) \<Rightarrow> assign F j t1 ram1);
                exec_loop F k t u body ram2 }
            | Continued ram1 \<Rightarrow> do { ram2 \<leftarrow> (case u of None \<Rightarrow> Some ram1 | Some (j, t1) \<Rightarrow> assign F j t1 ram1);
                exec_loop F k t u body ram2 } } }"

section \<open>Code\<close>

definition assign_lines :: "program_t \<Rightarrow> nat \<Rightarrow> tree \<Rightarrow> asm_line list" where
  "assign_lines prog i t = tree_lines prog t 1 2
     @ (if is_byte_local (pr_locals prog ! i) then emit_truncate_char 1 else []) @ emit_store_local_value prog i 1"

definition through_lines :: "program_t \<Rightarrow> nat \<Rightarrow> tree \<Rightarrow> asm_line list" where
  "through_lines prog i t = tree_lines prog t 1 2 @ emit_load_local prog i 2 @ [Store (is_char_local prog i) 1 2]"

definition element_lines :: "program_t \<Rightarrow> nat \<Rightarrow> tree \<Rightarrow> tree \<Rightarrow> asm_line list" where
  "element_lines prog i ix t =
     (let byte = is_char_local prog i in
      tree_lines prog t 1 2 @ (if byte then emit_truncate_char 1 else []) @ tree_lines prog ix 2 3
      @ (if \<not> byte then [Movi 10 4, Alu AL_mul 2 2 10] else []) @ emit_local_address_to prog i 3
      @ [Alu AL_add 3 3 2, Store byte 1 3])"

definition member_lines :: "program_t \<Rightarrow> bool \<Rightarrow> bool \<Rightarrow> nat \<Rightarrow> u32 \<Rightarrow> tree \<Rightarrow> asm_line list" where
  "member_lines prog byte through i off t = tree_lines prog t 1 2
     @ (if byte then emit_truncate_char 1 else [])
     @ (if through then
          emit_operand prog \<lparr>op_kind = OPERAND_LOCAL, op_value = of_nat i\<rparr> 10
          @ (if off \<noteq> 0 then [Movi 9 off, Alu AL_add 10 10 9] else []) @ [Store byte 1 10]
        else let offset = lc_offset (pr_locals prog ! i) + off in
          if offset = 0 then [Store byte 1 15] else [Movi 10 offset, Alu AL_add 10 15 10, Store byte 1 10])"

text \<open>The lines of a statement and the next free label number.\<close>

type_synonym loop_context = "(loop_kind_t \<times> u32) option"

definition test_lines :: "program_t \<Rightarrow> tree \<Rightarrow> string \<Rightarrow> asm_line list" where
  "test_lines prog t target = tree_lines prog t 0 1 @ [Jump_zero 0 target]"

fun stmt_lines :: "program_t \<Rightarrow> string \<Rightarrow> loop_context \<Rightarrow> u32 \<Rightarrow> stmt \<Rightarrow> asm_line list \<times> u32"
  and seq_lines :: "program_t \<Rightarrow> string \<Rightarrow> loop_context \<Rightarrow> u32 \<Rightarrow> stmt list \<Rightarrow> asm_line list \<times> u32" where
  "stmt_lines prog epi ctx n (Assign i t) = (Comment (''assign '' @ local_name prog i) # assign_lines prog i t, n)"
| "stmt_lines prog epi ctx n (Store_through i t) =
     (Comment (''store through '' @ (if is_char_local prog i then ''char'' else ''int'') @ '' pointer '' @ local_name prog i)
        # through_lines prog i t, n)"
| "stmt_lines prog epi ctx n (Store_element i ix t) =
     (Comment (''store '' @ (if is_char_local prog i then ''char'' else ''int'') @ '' array element '' @ local_name prog i
        @ ''[index]'') # element_lines prog i ix t, n)"
| "stmt_lines prog epi ctx n (Store_member b th i off t) =
     (Comment (''store struct member '' @ local_name prog i @ '' + '' @ fmt_u off) # member_lines prog b th i off t, n)"
| "stmt_lines prog epi ctx n (Do t) = (Comment ''expression statement (result discarded)'' # tree_lines prog t 0 1, n)"
| "stmt_lines prog epi ctx n (Return t) = (tree_lines prog t 0 1 @ [Jump epi], n)"
| "stmt_lines prog epi ctx n Break = (case ctx of None \<Rightarrow> [] | Some c \<Rightarrow> [Jump (break_label c)], n)"
| "stmt_lines prog epi ctx n Continue = (case ctx of None \<Rightarrow> [] | Some c \<Rightarrow> [Jump (continue_label c)], n)"
| "stmt_lines prog epi ctx n (If t as bs) =
     (case seq_lines prog epi ctx (n + 1) as of (la, n1) \<Rightarrow>
      case seq_lines prog epi ctx n1 bs of (lb, n2) \<Rightarrow>
        (Comment ''if condition'' # test_lines prog t (label_at (if bs \<noteq> [] then ''.Lelse'' else ''.Lendif'') n) @ la
         @ (if bs \<noteq> [] then [Jump (label_at ''.Lendif'' n), Label (label_at ''.Lelse'' n)] @ lb else [])
         @ [Label (label_at ''.Lendif'' n)], n2))"
| "stmt_lines prog epi ctx n (While t body) =
     (case seq_lines prog epi (Some (LOOP_WHILE, n)) (n + 1) body of (lb, n1) \<Rightarrow>
        ([Label (label_at ''.Lwhile'' n), Comment ''while condition''] @ test_lines prog t (label_at ''.Lendwhile'' n) @ lb
         @ [Jump (label_at ''.Lwhile'' n), Label (label_at ''.Lendwhile'' n)], n1))"
| "stmt_lines prog epi ctx n (For i t0 t j t1 body) =
     (case seq_lines prog epi (Some (LOOP_FOR, n)) (n + 1) body of (lb, n1) \<Rightarrow>
        (Comment ''for initializer'' # assign_lines prog i t0
         @ [Label (label_at ''.Lfor'' n), Comment ''for condition''] @ test_lines prog t (label_at ''.Lendfor'' n) @ lb
         @ [Label (label_at ''.Lfor_update'' n), Comment ''for update''] @ assign_lines prog j t1
         @ [Jump (label_at ''.Lfor'' n), Label (label_at ''.Lendfor'' n)], n1))"
| "seq_lines prog epi ctx n [] = ([], n)"
| "seq_lines prog epi ctx n (s # ss) =
     (case stmt_lines prog epi ctx n s of (l1, n1) \<Rightarrow>
      case seq_lines prog epi ctx n1 ss of (l2, n2) \<Rightarrow> (l1 @ l2, n2))"

text \<open>Statements that the emitter compiles as C means them: variables exist, expressions have no calls and
  fit the registers, the variables of a \<open>for\<close> are whole words, jumps are inside loops.\<close>

definition word_local :: "program_t \<Rightarrow> nat \<Rightarrow> bool" where
  "word_local prog i \<longleftrightarrow> i < length (pr_locals prog) \<and> \<not> byte_value prog i"

definition tree_fits :: "program_t \<Rightarrow> nat \<Rightarrow> tree \<Rightarrow> bool" where
  "tree_fits prog n t \<longleftrightarrow> tree_ok prog t \<and> regs_fit n t"

fun stmt_ok :: "program_t \<Rightarrow> bool \<Rightarrow> stmt \<Rightarrow> bool" where
  "stmt_ok prog inside (Assign i t) \<longleftrightarrow> i < length (pr_locals prog) \<and> tree_fits prog 2 t"
| "stmt_ok prog inside (Store_through i t) \<longleftrightarrow> i < length (pr_locals prog) \<and> tree_fits prog 2 t"
| "stmt_ok prog inside (Store_element i ix t) \<longleftrightarrow>
     i < length (pr_locals prog) \<and> tree_fits prog 3 ix \<and> tree_fits prog 2 t"
| "stmt_ok prog inside (Store_member b th i off t) \<longleftrightarrow> i < length (pr_locals prog) \<and> tree_fits prog 2 t"
| "stmt_ok prog inside (Do t) \<longleftrightarrow> tree_fits prog 1 t"
| "stmt_ok prog inside (Return t) \<longleftrightarrow> tree_fits prog 1 t"
| "stmt_ok prog inside Break \<longleftrightarrow> inside"
| "stmt_ok prog inside Continue \<longleftrightarrow> inside"
| "stmt_ok prog inside (If t as bs) \<longleftrightarrow>
     tree_fits prog 1 t \<and> list_all (stmt_ok prog inside) as \<and> list_all (stmt_ok prog inside) bs"
| "stmt_ok prog inside (While t body) \<longleftrightarrow> tree_fits prog 1 t \<and> list_all (stmt_ok prog True) body"
| "stmt_ok prog inside (For i t0 t j t1 body) \<longleftrightarrow> word_local prog i \<and> word_local prog j
     \<and> tree_fits prog 2 t0 \<and> tree_fits prog 1 t \<and> tree_fits prog 2 t1 \<and> list_all (stmt_ok prog True) body"

section \<open>Tables of statements\<close>

definition holds :: "program_t \<Rightarrow> expression_t \<Rightarrow> tree \<Rightarrow> bool" where
  "holds prog e t \<longleftrightarrow> table_ok prog e \<and> (\<exists>r. ex_root e = Some r \<and> denotes e r t)"

text \<open>Statement \<open>n\<close> of the table.\<close>

definition entry :: "program_t \<Rightarrow> nat \<Rightarrow> statement_t \<Rightarrow> bool" where
  "entry prog n st \<longleftrightarrow> n < length (pr_statements prog) \<and> pr_statements prog ! n = st"

inductive reads_stmt :: "program_t \<Rightarrow> nat \<Rightarrow> stmt \<Rightarrow> bool"
  and reads_seq :: "program_t \<Rightarrow> nat option \<Rightarrow> stmt list \<Rightarrow> bool" for prog where
  r_assign: "reads_stmt prog n (Assign i t)"
    if "entry prog n st" "st_kind st = STMT_ASSIGN" "st_target_local st = Some i" "holds prog (st_expression st) t"
| r_through: "reads_stmt prog n (Store_through i t)"
    if "entry prog n st" "st_kind st = STMT_STORE_INDIRECT" "st_pointer_local st = Some i" "holds prog (st_expression st) t"
| r_element: "reads_stmt prog n (Store_element i ix t)"
    if "entry prog n st" "st_kind st = STMT_STORE_ARRAY" "st_array_local st = Some i" "holds prog (st_array_index st) ix"
      "holds prog (st_expression st) t"
| r_member: "reads_stmt prog n (Store_member (st_member_is_char st) (st_member_through_pointer st) i (st_member_offset st) t)"
    if "entry prog n st" "st_kind st = STMT_STORE_MEMBER" "st_member_local st = Some i" "holds prog (st_expression st) t"
| r_do: "reads_stmt prog n (Do t)" if "entry prog n st" "st_kind st = STMT_EXPR" "holds prog (st_expression st) t"
| r_return: "reads_stmt prog n (Return t)" if "entry prog n st" "st_kind st = STMT_RETURN" "holds prog (st_expression st) t"
| r_break: "reads_stmt prog n Break" if "entry prog n st" "st_kind st = STMT_BREAK"
| r_continue: "reads_stmt prog n Continue" if "entry prog n st" "st_kind st = STMT_CONTINUE"
| r_if: "reads_stmt prog n (If t as bs)"
    if "entry prog n st" "st_kind st = STMT_IF" "holds prog (st_expression st) t"
      "reads_seq prog (st_then_first st) as" "reads_seq prog (st_else_first st) bs"
| r_while: "reads_stmt prog n (While t body)"
    if "entry prog n st" "st_kind st = STMT_WHILE" "holds prog (st_expression st) t" "reads_seq prog (st_then_first st) body"
| r_for: "reads_stmt prog n (For i t0 t j t1 body)"
    if "entry prog n st" "st_kind st = STMT_FOR" "st_for_init_local st = Some i" "holds prog (st_for_init st) t0"
      "holds prog (st_expression st) t" "st_for_update_local st = Some j" "holds prog (st_for_update st) t1"
      "reads_seq prog (st_then_first st) body"
| r_none: "reads_seq prog None []"
| r_some: "reads_seq prog (Some n) (s # ss)" if "reads_stmt prog n s" "reads_seq prog (st_next (pr_statements prog ! n)) ss"

lemma reads_seq_None: "reads_seq prog o' ss \<Longrightarrow> ss = [] \<longleftrightarrow> o' = None"
  by (auto elim: reads_seq.cases)

text \<open>The fuel for a statement.\<close>

fun weight :: "stmt \<Rightarrow> nat" and weights :: "stmt list \<Rightarrow> nat" where
  "weight (If t as bs) = Suc (max (weights as) (weights bs))"
| "weight (While t body) = Suc (weights body)"
| "weight (For i t0 t j t1 body) = Suc (weights body)"
| "weight _ = 1"
| "weights [] = 0"
| "weights (s # ss) = Suc (max (weight s) (weights ss))"

section \<open>What the emitter writes\<close>

definition wrote :: "emitter \<Rightarrow> asm_line list \<times> u32 \<Rightarrow> emitter \<Rightarrow> bool" where
  "wrote em p em' \<longleftrightarrow> em_lines em' = em_lines em @ fst p \<and> em_label em' = snd p
     \<and> em_base em' = em_base em \<and> em_err em' = em_err em"

lemma emit_fields [simp]:
  "em_lines (emit ls em) = em_lines em @ ls" "em_label (emit ls em) = em_label em"
  "em_base (emit ls em) = em_base em" "em_err (emit ls em) = em_err em"
  by (simp_all add: emit_def)

lemma emit_value_holds:
  assumes "holds prog e t" "regs_fit (d + 1) t"
  shows "emit_value prog e d rest em
    = Some (True, emit (tree_lines prog t d (d + 1) @ rest) (em\<lparr>em_depth := 0\<rparr>))"
  using emit_expression_denotes [OF _ _ _ extends_refl assms(2)] assms(1)
  by (auto simp: emit_value_def holds_def)

lemma emit_values:
  assumes "holds prog e t"
  shows "regs_fit 1 t \<Longrightarrow> emit_value prog e 0 rest em
      = Some (True, emit (tree_lines prog t 0 1 @ rest) (em\<lparr>em_depth := 0\<rparr>))"
    "regs_fit 2 t \<Longrightarrow> emit_value prog e (Suc 0) rest em
      = Some (True, emit (tree_lines prog t (Suc 0) 2 @ rest) (em\<lparr>em_depth := 0\<rparr>))"
    "regs_fit 3 t \<Longrightarrow> emit_value prog e 2 rest em
      = Some (True, emit (tree_lines prog t 2 3 @ rest) (em\<lparr>em_depth := 0\<rparr>))"
  using emit_value_holds [OF assms, of 0] emit_value_holds [OF assms, of 1] emit_value_holds [OF assms, of 2]
  by (simp_all add: numeral_2_eq_2 numeral_3_eq_3)

text \<open>A list of statements without jumps behind it.\<close>

definition written :: "(bool \<times> emitter) option \<Rightarrow> emitter \<Rightarrow> asm_line list \<times> u32 \<Rightarrow> bool" where
  "written result em p \<longleftrightarrow> (\<exists>em'. result = Some (True, em') \<and> wrote em p em')"

lemma word_local_code:
  "word_local prog i \<Longrightarrow> \<not> is_byte_local (pr_locals prog ! i) \<and> emit_store_local_value prog i r = emit_store_local prog i r"
  by (auto simp: word_local_def emit_store_local_value_def byte_value_def is_byte_local_def)

lemma emit_if:
  assumes t: "holds prog (st_expression st) t" "regs_fit 1 t" and st: "entry prog n st" "st_kind st = STMT_IF"
    and a: "\<And>em. written (emit_statement_sequence k prog epi (st_then_first st) ctx em) em (seq_lines prog epi ctx (em_label em) as)"
    and b: "\<And>em. written (emit_statement_sequence k prog epi (st_else_first st) ctx em) em (seq_lines prog epi ctx (em_label em) bs)"
    and bs: "bs = [] \<longleftrightarrow> st_else_first st = None"
  shows "written (emit_statement (Suc k) prog epi n ctx em) em (stmt_lines prog epi ctx (em_label em) (If t as bs))"
proof -
  let ?id = "em_label em"
  let ?em1 = "emit (tree_lines prog t 0 1 @ [Jump_zero 0 (label_at (if st_else_first st \<noteq> None then ''.Lelse'' else ''.Lendif'') ?id)])
    ((emit [Comment ''if condition''] (em\<lparr>em_label := ?id + 1\<rparr>))\<lparr>em_depth := 0\<rparr>)"
  obtain em2 where em2: "emit_statement_sequence k prog epi (st_then_first st) ctx ?em1 = Some (True, em2)"
      "wrote ?em1 (seq_lines prog epi ctx (?id + 1) as) em2"
    using a [of ?em1] by (auto simp: written_def)
  obtain la n1 where la: "seq_lines prog epi ctx (?id + 1) as = (la, n1)" by (metis surj_pair)
  have w2: "em_label em2 = n1" using em2(2) la by (simp add: wrote_def)
  show ?thesis
  proof (cases "st_else_first st")
    case None
    then have "bs = []" using bs by simp
    with None em2 la t st emit_values(1) [OF t(1)] show ?thesis
      by (auto simp: written_def wrote_def entry_def Let_def take_label_def test_lines_def)
  next
    case (Some f)
    let ?em3 = "emit [Jump (label_at ''.Lendif'' ?id), Label (label_at ''.Lelse'' ?id)] em2"
    obtain em4 where em4: "emit_statement_sequence k prog epi (Some f) ctx ?em3 = Some (True, em4)"
        "wrote ?em3 (seq_lines prog epi ctx n1 bs) em4"
      using b [of ?em3] Some w2 by (auto simp: written_def)
    obtain lb n2 where lb: "seq_lines prog epi ctx n1 bs = (lb, n2)" by (metis surj_pair)
    have "bs \<noteq> []" using bs Some by simp
    with Some em2 em4 la lb t st emit_values(1) [OF t(1)] show ?thesis
      by (auto simp: written_def wrote_def entry_def Let_def take_label_def test_lines_def)
  qed
qed

lemma emit_reads:
  "reads_stmt prog n s \<Longrightarrow> stmt_ok prog (ctx \<noteq> None) s \<Longrightarrow> weight s \<le> k \<Longrightarrow>
   written (emit_statement k prog epi n ctx em) em (stmt_lines prog epi ctx (em_label em) s)"
  "reads_seq prog o' ss \<Longrightarrow> list_all (stmt_ok prog (ctx \<noteq> None)) ss \<Longrightarrow> weights ss \<le> k \<Longrightarrow>
   written (emit_statement_sequence k prog epi o' ctx em) em (seq_lines prog epi ctx (em_label em) ss)"
proof (induction arbitrary: k ctx em and k ctx em rule: reads_stmt_reads_seq.inducts)
  case (r_if n st t as bs)
  then obtain j where k: "k = Suc j" by (cases k) auto
  show ?case unfolding k
    by (rule emit_if [OF r_if(2) _ r_if(1,7)])
      (use r_if k reads_seq_None [OF r_if(5)] in \<open>auto simp: tree_fits_def\<close>)
next
  case (r_while n st t body)
  then obtain j where k: "k = Suc j" by (cases k) auto
  let ?id = "em_label em"
  let ?em1 = "emit (tree_lines prog t 0 1 @ [Jump_zero 0 (label_at ''.Lendwhile'' ?id)])
    ((emit [Label (label_at ''.Lwhile'' ?id), Comment ''while condition''] (em\<lparr>em_label := ?id + 1\<rparr>))\<lparr>em_depth := 0\<rparr>)"
  obtain em2 where em2: "emit_statement_sequence j prog epi (st_then_first st) (Some (LOOP_WHILE, ?id)) ?em1 = Some (True, em2)"
      "wrote ?em1 (seq_lines prog epi (Some (LOOP_WHILE, ?id)) (?id + 1) body) em2"
    using r_while(4) [of "Some (LOOP_WHILE, ?id)" j ?em1] r_while(6-) k by (auto simp: written_def)
  obtain lb n1 where "seq_lines prog epi (Some (LOOP_WHILE, ?id)) (?id + 1) body = (lb, n1)" by (metis surj_pair)
  with em2 k r_while emit_values(1) [OF r_while(2)] show ?case
    by (auto simp: written_def wrote_def entry_def Let_def take_label_def test_lines_def tree_fits_def)
next
  case (r_for n st i t0 t j t1 body)
  then obtain h where k: "k = Suc h" by (cases k) auto
  let ?id = "em_label em"
  let ?em1 = "emit (assign_lines prog i t0)
    ((emit [Comment ''for initializer''] (em\<lparr>em_label := ?id + 1\<rparr>))\<lparr>em_depth := 0\<rparr>)"
  let ?em2 = "emit (tree_lines prog t 0 1 @ [Jump_zero 0 (label_at ''.Lendfor'' ?id)])
    ((emit [Label (label_at ''.Lfor'' ?id), Comment ''for condition''] ?em1)\<lparr>em_depth := 0\<rparr>)"
  obtain em3 where em3: "emit_statement_sequence h prog epi (st_then_first st) (Some (LOOP_FOR, ?id)) ?em2 = Some (True, em3)"
      "wrote ?em2 (seq_lines prog epi (Some (LOOP_FOR, ?id)) (?id + 1) body) em3"
    using r_for(6) [of "Some (LOOP_FOR, ?id)" h ?em2] r_for(10-) k by (auto simp: written_def)
  obtain lb n1 where lb: "seq_lines prog epi (Some (LOOP_FOR, ?id)) (?id + 1) body = (lb, n1)" by (metis surj_pair)
  note word = word_local_code [of prog i] word_local_code [of prog j]
  note vals = emit_values(2) [OF r_for(2)] emit_values(1) [OF r_for(3)] emit_values(2) [OF r_for(4)]
  from em3 lb k r_for(1,7,8,9,10) vals word show ?case
    by (auto simp: written_def wrote_def entry_def Let_def take_label_def test_lines_def tree_fits_def assign_lines_def)
next
  case (r_break n st)
  then obtain j where "k = Suc j" by (cases k) auto
  with r_break show ?case by (cases ctx) (auto simp: written_def wrote_def entry_def Let_def)
next
  case (r_continue n st)
  then obtain j where "k = Suc j" by (cases k) auto
  with r_continue show ?case by (cases ctx) (auto simp: written_def wrote_def entry_def Let_def)
next
  case (r_some n s ss)
  then obtain j where k: "k = Suc j" by (cases k) auto
  obtain em1 where em1: "emit_statement j prog epi n ctx em = Some (True, em1)"
      "wrote em (stmt_lines prog epi ctx (em_label em) s) em1"
    using r_some(2) [of ctx j em] r_some(5-) k by (auto simp: written_def)
  obtain l1 n1 where l1: "stmt_lines prog epi ctx (em_label em) s = (l1, n1)" by (metis surj_pair)
  obtain em2 where em2: "emit_statement_sequence j prog epi (st_next (pr_statements prog ! n)) ctx em1 = Some (True, em2)"
      "wrote em1 (seq_lines prog epi ctx (em_label em1) ss) em2"
    using r_some(4) [of ctx j em1] r_some(5-) k by (auto simp: written_def)
  obtain l2 n2 where "seq_lines prog epi ctx n1 ss = (l2, n2)" by (metis surj_pair)
  with em1 em2 l1 k show ?case by (auto simp: written_def wrote_def)
next
  case (r_assign n st i t)
  then obtain j where "k = Suc j" by (cases k) auto
  with r_assign emit_values(2) [OF r_assign(2)] show ?case
    by (auto simp: written_def wrote_def entry_def Let_def emit_assign_def assign_lines_def tree_fits_def)
next
  case (r_through n st i t)
  then obtain j where "k = Suc j" by (cases k) auto
  with r_through emit_values(2) [OF r_through(2)] show ?case
    by (auto simp: written_def wrote_def entry_def Let_def emit_store_indirect_def through_lines_def tree_fits_def is_char_local_def)
next
  case (r_element n st i ix t)
  then obtain j where "k = Suc j" by (cases k) auto
  with r_element emit_values(3) [OF r_element(2)] emit_values(2) [OF r_element(3)] show ?case
    by (auto simp: written_def wrote_def entry_def Let_def emit_store_array_def element_lines_def tree_fits_def is_char_local_def)
next
  case (r_member n st i t)
  then obtain j where "k = Suc j" by (cases k) auto
  with r_member emit_values(2) [OF r_member(2)] show ?case
    by (auto simp: written_def wrote_def entry_def Let_def emit_store_member_def member_lines_def member_store_lines_def tree_fits_def)
next
  case (r_do n st t)
  then obtain j where "k = Suc j" by (cases k) auto
  with r_do emit_values(1) [OF r_do(2)] show ?case
    by (auto simp: written_def wrote_def entry_def Let_def tree_fits_def)
next
  case (r_return n st t)
  then obtain j where "k = Suc j" by (cases k) auto
  with r_return emit_values(1) [OF r_return(2)] show ?case
    by (auto simp: written_def wrote_def entry_def Let_def tree_fits_def)
qed (simp add: written_def wrote_def)

end
