(* ===== verification/T32_Stmt_Laws.thy ===== *)
theory T32_Stmt_Laws
  imports T32_Stmt
begin

text \<open>
  The code of statements does what the statements mean. Code without jumps is followed by \<open>does\<close>, from
  a RAM to a RAM; with jumps, \<open>stmt_flow\<close> says that the lines of a statement lead from their first line to
  the line behind them, to the labels of the loop around them, or to the end of the function, as the
  statement ends.
\<close>

section \<open>Code without jumps\<close>

lemma clear_of_append:
  "clear_of lab lo n (xs @ ys) c \<longleftrightarrow>
     clear_of lab lo n xs c \<and> (\<forall>c'. run_code lab xs c = Some c' \<longrightarrow> clear_of lab lo n ys c')"
  by (induction xs arbitrary: c) (auto split: option.splits)

definition does :: "frame \<Rightarrow> asm_line list \<Rightarrow> (nat \<Rightarrow> u32) \<Rightarrow> bytes \<Rightarrow> bytes \<Rightarrow> bool" where
  "does F frag r ram ram' \<longleftrightarrow> (\<exists>r'. r' 15 = r 15 \<and> run_code (fr_labels F) frag (r, ram) = Some (r', ram')
     \<and> clear_of (fr_labels F) (fst (fr_text F)) (snd (fr_text F)) frag (r, ram))"

text \<open>A value, and code that uses it.\<close>

lemma does_value:
  assumes v: "value_of F ram t = Some v" and t: "locals_ok (fr_prog F)" "tree_fits (fr_prog F) n t" "d < n" "n \<le> 10"
    and r: "r 15 = fr_base F"
    and rest: "\<And>r'. r' d = v \<Longrightarrow> r' 15 = fr_base F \<Longrightarrow> (\<And>j. j < n \<Longrightarrow> j \<noteq> d \<Longrightarrow> r' j = r j) \<Longrightarrow> does F rest r' ram ram'"
  shows "does F (tree_lines (fr_prog F) t d n @ rest) r ram ram'"
proof -
  have fit: "tree_ok (fr_prog F) t" "regs_fit n t" using t(2) by (simp_all add: tree_fits_def)
  obtain r1 where r1: "run_code (fr_labels F) (tree_lines (fr_prog F) t d n) (r, ram) = Some (r1, ram)" "r1 d = v"
      "\<And>j. j \<noteq> d \<Longrightarrow> j < n \<or> 14 \<le> j \<Longrightarrow> r1 j = r j"
    using tree_lines_correct [OF t(1) fit t(3,4), of "fr_labels F" r ram] v r
    by (auto simp: computes_def value_of_def)
  have "r1 15 = fr_base F" using r1(3) [of 15] t(3,4) r by simp
  with rest [of r1] r1 have "does F rest r1 ram ram'" "r1 15 = r 15" using r by auto
  moreover have "list_all (\<lambda>l. \<not> is_store l) (tree_lines (fr_prog F) t d n)"
    using tree_lines_ok [OF fit t(3,4)] by (simp add: list_all_iff)
  ultimately show ?thesis using r1(1)
    by (auto simp: does_def run_code_append clear_of_append clear_storeless)
qed

lemma does_steps:
  assumes "does F frag r ram ram'" "has_at ls i frag" "r 15 = fr_base F"
  shows "\<exists>r'. r' 15 = fr_base F \<and> asm_steps (fr_labels F) (fr_text F) ls (i, (r, ram)) (i + length frag, (r', ram'))"
  using assms straight_line by (fastforce simp: does_def)

lemma c_store_cases:
  assumes "c_store F byte ram a v = Some ram'"
  shows "store_value byte ram a v = Some ram'" "keeps_text (fr_text F) ram ram'"
  using assms by (auto simp: c_store_def split: bind_splits if_splits)

lemma ucast_low_byte: "(ucast (v AND 0xFF) :: u8) = ucast v" for v :: u32
proof -
  have m: "(0xFF :: u32) = mask 8" by (simp add: mask_eq_exp_minus_1)
  show ?thesis unfolding m by (rule bit_word_eqI) (simp add: bit_simps)
qed

lemma store_truncated: "store_value True ram a (v AND 0xFF) = store_value True ram a v"
  by (simp add: store_value_def ucast_low_byte)

lemma c_store_truncated: "c_store F True ram a (v AND 0xFF) = c_store F True ram a v"
  by (simp add: c_store_def store_truncated)

lemma does_store:
  assumes "c_store F byte ram (r a) (r d) = Some ram'"
  shows "does F [Store byte d a] r ram ram'"
  using c_store_cases [OF assms] by (auto simp: does_def keeps_text_def)

lemma does_alu:
  assumes "does F rest (r(d := v)) ram ram'" "d \<noteq> 15"
  shows "v = x \<Longrightarrow> does F (Movi d x # rest) r ram ram'"
    "alu_value op (r a) (r b) = Some v \<Longrightarrow> does F (Alu op d a b # rest) r ram ram'"
    "v = r a \<Longrightarrow> does F (Move d a # rest) r ram ram'"
    "load_value byte ram (r a) = Some v \<Longrightarrow> does F (Load byte d a # rest) r ram ram'"
  using assms by (auto simp: does_def)

lemma does_store_at:
  assumes "c_store F byte ram (r 15 + offset) (r d) = Some ram'" "d < 10"
  shows "does F (if offset = 0 then [Store byte d 15] else [Movi 10 offset, Alu AL_add 10 15 10, Store byte d 10]) r ram ram'"
proof (cases "offset = 0")
  case True
  then show ?thesis using assms by (auto intro: does_store)
next
  case False
  have "does F [Store byte d 10] (r(10 := offset, 10 := r 15 + offset)) ram ram'"
    by (rule does_store) (use assms in simp)
  from does_alu(2) [OF this, of AL_add 15 10, THEN does_alu(1)] False show ?thesis by simp
qed

lemma store_local_lines:
  assumes "locals_ok prog" "i < length (pr_locals prog)"
  shows "emit_store_local_value prog i d =
    (if local_offset prog i = 0 then [Store (byte_value prog i) d 15]
     else [Movi 10 (local_offset prog i), Alu AL_add 10 15 10, Store (byte_value prog i) d 10])"
  using locals_okD [OF assms]
  by (auto simp: emit_store_local_value_def emit_store_local_def emit_local_address_def Let_def)

text \<open>Truncation before a store of a byte makes no difference.\<close>

lemma does_truncate:
  assumes "\<And>r'. r' 1 = (if byte then r 1 AND 0xFF else r 1) \<Longrightarrow> (\<And>j. j \<noteq> 1 \<Longrightarrow> j \<noteq> 10 \<Longrightarrow> r' j = r j) \<Longrightarrow> does F rest r' ram ram'"
  shows "does F ((if byte then emit_truncate_char 1 else []) @ rest) r ram ram'"
proof (cases byte)
  case True
  have "does F rest (r(10 := 0xFF, 1 := r 1 AND 0xFF)) ram ram'" by (rule assms) (use True in auto)
  from does_alu(2) [OF this, of AL_and 1 10, THEN does_alu(1)] True show ?thesis
    by (simp add: emit_truncate_char_def)
next
  case False
  then show ?thesis using assms [of r] by simp
qed

section \<open>Assignments and stores\<close>

lemma does_assign:
  assumes F: "locals_ok (fr_prog F)"
    and "assign F i t ram = Some ram'" "i < length (pr_locals (fr_prog F))" "tree_fits (fr_prog F) 2 t" "r 15 = fr_base F"
  shows "does F (assign_lines (fr_prog F) i t) r ram ram'"
proof -
  let ?b = "byte_value (fr_prog F) i"
  obtain v where v: "value_of F ram t = Some v" "c_store F ?b ram (local_address F i) v = Some ram'"
    using assms(2) by (auto simp: assign_def split: bind_splits)
  have b: "is_byte_local (pr_locals (fr_prog F) ! i) = ?b"
    using assms(3) by (simp add: is_byte_local_def byte_value_def)
  show ?thesis unfolding assign_lines_def b
  proof (rule does_value [where r = r, OF v(1) F assms(4) _ _ assms(5)])
    fix r1 :: "nat \<Rightarrow> u32" assume r1: "r1 1 = v" "r1 15 = fr_base F"
    show "does F ((if ?b then emit_truncate_char 1 else []) @ emit_store_local_value (fr_prog F) i 1) r1 ram ram'"
    proof (rule does_truncate)
      fix r2 :: "nat \<Rightarrow> u32"
      assume r2: "r2 1 = (if ?b then r1 1 AND 0xFF else r1 1)" "\<And>j. j \<noteq> 1 \<Longrightarrow> j \<noteq> 10 \<Longrightarrow> r2 j = r1 j"
      show "does F (emit_store_local_value (fr_prog F) i 1) r2 ram ram'"
        unfolding store_local_lines [OF F assms(3)]
        by (rule does_store_at)
          (use r1 r2 v(2) in \<open>auto simp: local_address_def c_store_truncated split: if_splits\<close>)
    qed
  qed auto
qed

lemma does_through:
  assumes F: "locals_ok (fr_prog F)"
    and "store_through F i t ram = Some ram'" "i < length (pr_locals (fr_prog F))" "tree_fits (fr_prog F) 2 t" "r 15 = fr_base F"
  shows "does F (through_lines (fr_prog F) i t) r ram ram'"
proof -
  let ?b = "is_char_local (fr_prog F) i" and ?off = "local_offset (fr_prog F) i"
  obtain v p where v: "value_of F ram t = Some v" "load_value False ram (local_address F i) = Some p"
      "c_store F ?b ram p v = Some ram'"
    using assms(2) by (auto simp: store_through_def split: bind_splits)
  show ?thesis unfolding through_lines_def
  proof (rule does_value [where r = r, OF v(1) F assms(4) _ _ assms(5)])
    fix r1 :: "nat \<Rightarrow> u32" assume r1: "r1 1 = v" "r1 15 = fr_base F"
    show "does F (emit_load_local (fr_prog F) i 2 @ [Store ?b 1 2]) r1 ram ram'"
    proof (cases "i = 0")
      case True
      then have "?off = 0" using locals_okD [OF F assms(3)] by simp
      then have "does F [Load False 2 15, Store ?b 1 2] r1 ram ram'"
        using v(2,3) r1 by (intro does_alu(4) [where v = p] does_store) (auto simp: local_address_def)
      with True show ?thesis by (simp add: emit_load_local_def)
    next
      case False
      have "does F [Store ?b 1 2] (r1(10 := ?off, 10 := r1 15 + ?off, 2 := p)) ram ram'"
        by (rule does_store) (use v r1 in simp)
      from does_alu(4) [OF this, of False 10, THEN does_alu(2), of AL_add 15 10, THEN does_alu(1)] v(2) r1
        False locals_okD(2) [OF F assms(3)]
      show ?thesis by (simp add: emit_load_local_def emit_local_address_def Let_def local_address_def)
    qed
  qed auto
qed

lemma does_element:
  assumes F: "locals_ok (fr_prog F)"
    and "store_element F i ix t ram = Some ram'" "tree_fits (fr_prog F) 3 ix" "tree_fits (fr_prog F) 2 t" "r 15 = fr_base F"
  shows "does F (element_lines (fr_prog F) i ix t) r ram ram'"
proof -
  let ?b = "is_char_local (fr_prog F) i" and ?at = "local_address F i"
  obtain v x where v: "value_of F ram t = Some v" "value_of F ram ix = Some x"
      "c_store F ?b ram (?at + (if ?b then x else x * 4)) v = Some ram'"
    using assms(2) by (auto simp: store_element_def Let_def split: bind_splits)
  have tail: "does F ((if \<not> ?b then [Movi 10 4, Alu AL_mul 2 2 10] else []) @ emit_local_address_to (fr_prog F) i 3
      @ [Alu AL_add 3 3 2, Store ?b 1 3]) r3 ram ram'"
    if r3: "r3 2 = x" "r3 15 = fr_base F" "r3 1 = (if ?b then v AND 0xFF else v)" for r3 :: "nat \<Rightarrow> u32"
    using r3 v(3) c_store_cases [OF v(3)]
    by (auto simp: does_def emit_local_address_to_def Let_def local_address_def keeps_text_def store_truncated)
  show ?thesis unfolding element_lines_def Let_def
  proof (rule does_value [where r = r, OF v(1) F assms(4) _ _ assms(5)])
    fix r1 :: "nat \<Rightarrow> u32" assume r1: "r1 1 = v" "r1 15 = fr_base F"
    show "does F ((if ?b then emit_truncate_char 1 else []) @ tree_lines (fr_prog F) ix 2 3
      @ (if \<not> ?b then [Movi 10 4, Alu AL_mul 2 2 10] else []) @ emit_local_address_to (fr_prog F) i 3
      @ [Alu AL_add 3 3 2, Store ?b 1 3]) r1 ram ram'"
    proof (rule does_truncate)
      fix r2 :: "nat \<Rightarrow> u32"
      assume r2: "r2 1 = (if ?b then r1 1 AND 0xFF else r1 1)" "\<And>j. j \<noteq> 1 \<Longrightarrow> j \<noteq> 10 \<Longrightarrow> r2 j = r1 j"
      show "does F (tree_lines (fr_prog F) ix 2 3
        @ (if \<not> ?b then [Movi 10 4, Alu AL_mul 2 2 10] else []) @ emit_local_address_to (fr_prog F) i 3
        @ [Alu AL_add 3 3 2, Store ?b 1 3]) r2 ram ram'"
      proof (rule does_value [where r = r2, OF v(2) F assms(3)])
        fix r3 :: "nat \<Rightarrow> u32"
        assume r3: "r3 2 = x" "r3 15 = fr_base F" "\<And>j. j < 3 \<Longrightarrow> j \<noteq> 2 \<Longrightarrow> r3 j = r2 j"
        show "does F ((if \<not> ?b then [Movi 10 4, Alu AL_mul 2 2 10] else []) @ emit_local_address_to (fr_prog F) i 3
          @ [Alu AL_add 3 3 2, Store ?b 1 3]) r3 ram ram'"
          by (rule tail) (use r3(1,2) r3(3) [of 1] r1 r2(1) in auto)
      qed (use r1 r2 in auto)
    qed
  qed auto
qed

lemma does_member:
  assumes F: "locals_ok (fr_prog F)"
    and "store_member F b th i off t ram = Some ram'" "i < length (pr_locals (fr_prog F))" "tree_fits (fr_prog F) 2 t" "r 15 = fr_base F"
  shows "does F (member_lines (fr_prog F) b th i off t) r ram ram'"
proof -
  let ?o = "local_offset (fr_prog F) i"
  have o: "lc_offset (pr_locals (fr_prog F) ! i) = ?o" using assms(3) by (simp add: local_offset_def)
  obtain v p where v: "value_of F ram t = Some v" "(if th then value_of F ram (Var i) else Some (local_address F i)) = Some p"
      "c_store F b ram (p + off) v = Some ram'"
    using assms(2) by (auto simp: store_member_def split: bind_splits)
  show ?thesis unfolding member_lines_def
  proof (rule does_value [where r = r, OF v(1) F assms(4) _ _ assms(5)])
    fix r1 :: "nat \<Rightarrow> u32" assume r1: "r1 1 = v" "r1 15 = fr_base F"
    let ?through = "emit_operand (fr_prog F) \<lparr>op_kind = OPERAND_LOCAL, op_value = of_nat i\<rparr> 10
      @ (if off \<noteq> 0 then [Movi 9 off, Alu AL_add 10 10 9] else []) @ [Store b 1 10]"
    let ?direct = "let offset = lc_offset (pr_locals (fr_prog F) ! i) + off in
      if offset = 0 then [Store b 1 15] else [Movi 10 offset, Alu AL_add 10 15 10, Store b 1 10]"
    show "does F ((if b then emit_truncate_char 1 else []) @ (if th then ?through else ?direct)) r1 ram ram'"
    proof (rule does_truncate)
      fix r2 :: "nat \<Rightarrow> u32"
      assume "r2 1 = (if b then r1 1 AND 0xFF else r1 1)" "\<And>j. j \<noteq> 1 \<Longrightarrow> j \<noteq> 10 \<Longrightarrow> r2 j = r1 j"
      with r1 v(3) have r2: "r2 15 = fr_base F" "c_store F b ram (p + off) (r2 1) = Some ram'"
        by (auto simp: c_store_truncated)
      show "does F (if th then ?through else ?direct) r2 ram ram'"
      proof (cases th)
        case True
        define rest where "rest = (if off \<noteq> 0 then [Movi 9 off, Alu AL_add 10 10 9] else []) @ [Store b 1 10]"
        have store: "does F rest r3 ram ram'"
          if "r3 10 = p" "r3 1 = r2 1" for r3 :: "nat \<Rightarrow> u32"
          using that r2(2) c_store_cases [OF r2(2)] by (auto simp: rest_def does_def keeps_text_def)
        have "var_value (fr_prog F) (fr_base F) ram i = Some p" using v(2) True by (simp add: value_of_def)
        then have "does F (emit_operand (fr_prog F) \<lparr>op_kind = OPERAND_LOCAL, op_value = of_nat i\<rparr> 10 @ rest) r2 ram ram'"
          using store r2(1) locals_okD [OF F assms(3)]
          by (auto simp: emit_operand_def var_value_def load_local_lines [OF F assms(3)] emit_local_address_to_def Let_def
              local_address_def split: if_splits intro!: does_alu store)
        with True show ?thesis by (simp add: rest_def)
      next
        case False
        have "c_store F b ram (r2 15 + (?o + off)) (r2 1) = Some ram'"
          using r2 v(2) False by (simp add: local_address_def flip: add.assoc)
        from does_store_at [OF this] False show ?thesis by (simp add: Let_def o)
      qed
    qed
  qed auto
qed

section \<open>Code with jumps\<close>

text \<open>Where a statement leads: to the line behind its code, the labels of the loop around it, or the
  label at the end of the function, with the returned value in \<open>r0\<close>.\<close>

record exits =
  to_next :: nat
  to_break :: nat
  to_continue :: nat
  to_return :: nat

fun exit_of :: "exits \<Rightarrow> outcome \<Rightarrow> nat" where
  "exit_of E (Normal ram) = to_next E"
| "exit_of E (Broke ram) = to_break E"
| "exit_of E (Continued ram) = to_continue E"
| "exit_of E (Returned v ram) = to_return E"

fun ram_of :: "outcome \<Rightarrow> bytes" where
  "ram_of (Normal ram) = ram" | "ram_of (Broke ram) = ram" | "ram_of (Continued ram) = ram"
| "ram_of (Returned v ram) = ram"

definition leads :: "frame \<Rightarrow> asm_line list \<Rightarrow> nat \<Rightarrow> bytes \<Rightarrow> exits \<Rightarrow> outcome \<Rightarrow> bool" where
  "leads F ls i ram E out \<longleftrightarrow> (\<forall>r. r 15 = fr_base F \<longrightarrow>
     (\<exists>r'. r' 15 = fr_base F \<and> (\<forall>v ram'. out = Returned v ram' \<longrightarrow> r' 0 = v)
       \<and> asm_steps (fr_labels F) (fr_text F) ls (i, (r, ram)) (exit_of E out, (r', ram_of out))))"

text \<open>From one line to another.\<close>

definition goes :: "frame \<Rightarrow> asm_line list \<Rightarrow> nat \<Rightarrow> bytes \<Rightarrow> nat \<Rightarrow> bytes \<Rightarrow> bool" where
  "goes F ls i ram j ram' \<longleftrightarrow> (\<forall>r. r 15 = fr_base F \<longrightarrow>
     (\<exists>r'. r' 15 = fr_base F \<and> asm_steps (fr_labels F) (fr_text F) ls (i, (r, ram)) (j, (r', ram'))))"

lemma goesE:
  assumes "goes F ls i a j b" "r 15 = fr_base F"
  obtains r' where "r' 15 = fr_base F" "asm_steps (fr_labels F) (fr_text F) ls (i, (r, a)) (j, (r', b))"
  using assms by (auto simp: goes_def)

lemma leadsE:
  assumes "leads F ls i a E out" "r 15 = fr_base F"
  obtains r' where "r' 15 = fr_base F" "\<And>v ram'. out = Returned v ram' \<Longrightarrow> r' 0 = v"
    "asm_steps (fr_labels F) (fr_text F) ls (i, (r, a)) (exit_of E out, (r', ram_of out))"
  using assms by (auto simp: leads_def)

lemma goes_trans [trans]: assumes "goes F ls i a j b" "goes F ls j b k c" shows "goes F ls i a k c"
  unfolding goes_def
proof (intro allI impI)
  fix r :: "nat \<Rightarrow> u32" assume "r 15 = fr_base F"
  then obtain r1 r2 where "asm_steps (fr_labels F) (fr_text F) ls (i, (r, a)) (j, (r1, b))" "r2 15 = fr_base F"
      "asm_steps (fr_labels F) (fr_text F) ls (j, (r1, b)) (k, (r2, c))"
    using assms goesE by metis
  then show "\<exists>r'. r' 15 = fr_base F \<and> asm_steps (fr_labels F) (fr_text F) ls (i, (r, a)) (k, (r', c))"
    using asm_steps_trans by blast
qed

lemma goes_leads: assumes "goes F ls i a j b" "leads F ls j b E out" shows "leads F ls i a E out"
  unfolding leads_def
proof (intro allI impI)
  fix r :: "nat \<Rightarrow> u32" assume "r 15 = fr_base F"
  then obtain r1 where r1: "r1 15 = fr_base F" "asm_steps (fr_labels F) (fr_text F) ls (i, (r, a)) (j, (r1, b))"
    using assms(1) goesE by metis
  obtain r2 where r2: "r2 15 = fr_base F" "\<And>v ram'. out = Returned v ram' \<Longrightarrow> r2 0 = v"
      "asm_steps (fr_labels F) (fr_text F) ls (j, (r1, b)) (exit_of E out, (r2, ram_of out))"
    using leadsE [where r = r1, OF assms(2) r1(1)] by blast
  with asm_steps_trans [OF r1(2) r2(3)] show "\<exists>r'. r' 15 = fr_base F \<and> (\<forall>v ram'. out = Returned v ram' \<longrightarrow> r' 0 = v)
      \<and> asm_steps (fr_labels F) (fr_text F) ls (i, (r, a)) (exit_of E out, (r', ram_of out))" by blast
qed

lemma goes_refl [simp]: "goes F ls i a i a"
  unfolding goes_def by blast

lemma leads_Normal: "leads F ls i ram E (Normal ram') \<longleftrightarrow> goes F ls i ram (to_next E) ram'"
  by (simp add: leads_def goes_def)

lemma leads_goes: "goes F ls i ram (exit_of E out) (ram_of out) \<Longrightarrow> (\<And>v ram'. out \<noteq> Returned v ram') \<Longrightarrow> leads F ls i ram E out"
  by (simp add: leads_def goes_def)

lemma goes_does:
  "(\<And>r. r 15 = fr_base F \<Longrightarrow> does F frag r ram ram') \<Longrightarrow> has_at ls i frag \<Longrightarrow> goes F ls i ram (i + length frag) ram'"
  using does_steps unfolding goes_def by blast

lemma goes_jump: "has_at ls i [Jump l] \<Longrightarrow> has_at ls j [Label l] \<Longrightarrow> goes F ls i ram j ram"
  using jump_to unfolding goes_def by blast

lemma goes_label: "has_at ls i [Label l] \<Longrightarrow> goes F ls i ram (Suc i) ram"
  using pass_label unfolding goes_def by blast

lemma goes_comment: "has_at ls i [Comment t] \<Longrightarrow> goes F ls i ram (Suc i) ram"
  using pass_comment unfolding goes_def by blast

lemma leads_value:
  assumes "locals_ok (fr_prog F)" "value_of F ram t = Some v" "tree_fits (fr_prog F) 1 t" "has_at ls i (tree_lines (fr_prog F) t 0 1)"
  shows "\<forall>r. r 15 = fr_base F \<longrightarrow> (\<exists>r'. r' 15 = fr_base F \<and> r' 0 = v
    \<and> asm_steps (fr_labels F) (fr_text F) ls (i, (r, ram)) (i + length (tree_lines (fr_prog F) t 0 1), (r', ram)))"
proof (intro allI impI)
  fix r :: "nat \<Rightarrow> u32" assume r: "r 15 = fr_base F"
  have fit: "tree_ok (fr_prog F) t" "regs_fit 1 t" using assms(3) by (simp_all add: tree_fits_def)
  obtain r1 where r1: "run_code (fr_labels F) (tree_lines (fr_prog F) t 0 1) (r, ram) = Some (r1, ram)" "r1 0 = v" "r1 15 = r 15"
    using tree_lines_correct [OF assms(1) fit, of 0 "fr_labels F" r ram] assms(2) r
    by (auto simp: computes_def value_of_def)
  have "list_all (\<lambda>l. \<not> is_store l) (tree_lines (fr_prog F) t 0 1)"
    using tree_lines_ok [OF fit, of 0] by (simp add: list_all_iff)
  from straight_line [of ls i _ "fr_labels F" _ _ "fr_text F", OF assms(4) r1(1) clear_storeless [OF this]] r1 r
  show "\<exists>r'. r' 15 = fr_base F \<and> r' 0 = v
    \<and> asm_steps (fr_labels F) (fr_text F) ls (i, (r, ram)) (i + length (tree_lines (fr_prog F) t 0 1), (r', ram))"
    by auto
qed

text \<open>A test goes on behind it, or to its label if the value is zero.\<close>

lemma goes_test:
  assumes "locals_ok (fr_prog F)" "value_of F ram t = Some v" "tree_fits (fr_prog F) 1 t"
    and "has_at ls i (test_lines (fr_prog F) t target)" "has_at ls j [Label target]"
  shows "goes F ls i ram (if v = 0 then j else i + length (test_lines (fr_prog F) t target)) ram"
  unfolding goes_def
proof (intro allI impI)
  fix r :: "nat \<Rightarrow> u32" assume r: "r 15 = fr_base F"
  let ?k = "i + length (tree_lines (fr_prog F) t 0 1)"
  have at: "has_at ls i (tree_lines (fr_prog F) t 0 1)" "has_at ls ?k [Jump_zero 0 target]"
    using assms(4) by (simp_all add: test_lines_def has_at_append)
  obtain r' where r': "r' 15 = fr_base F" "r' 0 = v" "asm_steps (fr_labels F) (fr_text F) ls (i, (r, ram)) (?k, (r', ram))"
    using leads_value [OF assms(1-3) at(1)] r by blast
  have "asm_step (fr_labels F) (fr_text F) ls (?k, (r', ram)) (if v = 0 then j else Suc ?k, (r', ram))"
    using at(2) assms(5) r'(2) by (auto simp: has_at_Cons intro: as_zero as_nonzero)
  with r' have "asm_steps (fr_labels F) (fr_text F) ls (i, (r, ram)) (if v = 0 then j else Suc ?k, (r', ram))"
    by (blast intro: asm_steps_trans asm_steps_step)
  with r'(1) show "\<exists>r'. r' 15 = fr_base F \<and> asm_steps (fr_labels F) (fr_text F) ls (i, (r, ram))
      (if v = 0 then j else i + length (test_lines (fr_prog F) t target), (r', ram))"
    by (auto simp: test_lines_def)
qed

lemma leads_return:
  assumes "locals_ok (fr_prog F)" "value_of F ram t = Some v" "tree_fits (fr_prog F) 1 t"
    and "has_at ls i (tree_lines (fr_prog F) t 0 1 @ [Jump epi])" "has_at ls (to_return E) [Label epi]"
  shows "leads F ls i ram E (Returned v ram)"
  unfolding leads_def
proof (intro allI impI)
  fix r :: "nat \<Rightarrow> u32" assume r: "r 15 = fr_base F"
  let ?k = "i + length (tree_lines (fr_prog F) t 0 1)"
  have at: "has_at ls i (tree_lines (fr_prog F) t 0 1)" "has_at ls ?k [Jump epi]"
    using assms(4) by (simp_all add: has_at_append)
  obtain r' where r': "r' 15 = fr_base F" "r' 0 = v" "asm_steps (fr_labels F) (fr_text F) ls (i, (r, ram)) (?k, (r', ram))"
    using leads_value [OF assms(1-3) at(1)] r by blast
  from asm_steps_trans [OF r'(3) jump_to [OF at(2) assms(5)]] r'(1,2)
  show "\<exists>r'. r' 15 = fr_base F \<and> (\<forall>w ram'. Returned v ram = Returned w ram' \<longrightarrow> r' 0 = w)
      \<and> asm_steps (fr_labels F) (fr_text F) ls (i, (r, ram)) (exit_of E (Returned v ram), (r', ram_of (Returned v ram)))"
    by auto
qed

section \<open>The code of a statement\<close>

definition exits_ok :: "asm_line list \<Rightarrow> string \<Rightarrow> loop_context \<Rightarrow> exits \<Rightarrow> bool" where
  "exits_ok ls epi ctx E \<longleftrightarrow> has_at ls (to_return E) [Label epi]
     \<and> (\<forall>c. ctx = Some c \<longrightarrow> has_at ls (to_break E) [Label (break_label c)]
         \<and> has_at ls (to_continue E) [Label (continue_label c)])"

lemma exits_next [simp]: "exits_ok ls epi ctx (E\<lparr>to_next := i\<rparr>) = exits_ok ls epi ctx E"
  by (simp add: exits_ok_def)

text \<open>A detour behind a statement.\<close>

lemma leads_then:
  assumes "leads F ls i ram (E\<lparr>to_next := j\<rparr>) out" "\<And>ram'. goes F ls j ram' (to_next E) ram'"
  shows "leads F ls i ram E out"
proof (cases out)
  case (Normal ram')
  then show ?thesis using goes_trans assms by (fastforce simp: leads_Normal)
qed (use assms(1) in \<open>simp_all add: leads_def\<close>)

text \<open>The places of a loop: its test, its body and the end of it, where \<open>continue\<close> and \<open>break\<close> go.\<close>

definition loop_at :: "frame \<Rightarrow> asm_line list \<Rightarrow> tree \<Rightarrow> (nat \<times> tree) option \<Rightarrow> nat \<Rightarrow> nat \<Rightarrow> nat \<Rightarrow> nat \<Rightarrow> nat \<Rightarrow> bool" where
  "loop_at F ls t u head start finish cont exit' \<longleftrightarrow>
     (\<forall>ram v. value_of F ram t = Some v \<longrightarrow> goes F ls head ram (if v = 0 then exit' else start) ram)
     \<and> (\<forall>ram ram'. (case u of None \<Rightarrow> Some ram | Some (j, t1) \<Rightarrow> assign F j t1 ram) = Some ram'
          \<longrightarrow> goes F ls cont ram head ram')
     \<and> (\<forall>ram. goes F ls finish ram cont ram)"

text \<open>Every part of a conditional, and of a loop, has its place.\<close>

lemma if_places:
  assumes "stmt_lines prog epi ctx n (If t as bs) = (l, n')" "has_at ls i l"
  obtains la n1 lb n2 j where "seq_lines prog epi ctx (n + 1) as = (la, n1)" "seq_lines prog epi ctx n1 bs = (lb, n2)"
    "\<And>F ram. goes F ls i ram (Suc i) ram"
    "has_at ls (Suc i) (test_lines prog t (label_at (if bs \<noteq> [] then ''.Lelse'' else ''.Lendif'') n))"
    "has_at ls (Suc i + length (test_lines prog t (label_at (if bs \<noteq> [] then ''.Lelse'' else ''.Lendif'') n))) la"
    "has_at ls j [Label (label_at (if bs \<noteq> [] then ''.Lelse'' else ''.Lendif'') n)]"
    "\<And>F ram. goes F ls (Suc i + length (test_lines prog t (label_at (if bs \<noteq> [] then ''.Lelse'' else ''.Lendif'') n)) + length la)
      ram (i + length l) ram"
    "bs = [] \<Longrightarrow> \<forall>F ram. goes F ls j ram (i + length l) ram"
    "bs \<noteq> [] \<Longrightarrow> has_at ls (Suc j) lb \<and> (\<forall>F ram. goes F ls j ram (Suc j) ram
      \<and> goes F ls (Suc j + length lb) ram (i + length l) ram)"
proof -
  let ?target = "label_at (if bs \<noteq> [] then ''.Lelse'' else ''.Lendif'') n"
  let ?test = "test_lines prog t ?target"
  obtain la n1 where la: "seq_lines prog epi ctx (n + 1) as = (la, n1)" by (metis surj_pair)
  obtain lb n2 where lb: "seq_lines prog epi ctx n1 bs = (lb, n2)" by (metis surj_pair)
  define k where "k = Suc i + length ?test + length la"
  have l: "l = [Comment ''if condition''] @ ?test @ la
      @ (if bs \<noteq> [] then [Jump (label_at ''.Lendif'' n), Label (label_at ''.Lelse'' n)] @ lb else [])
      @ [Label (label_at ''.Lendif'' n)]"
    using assms(1) la lb by simp
  have at: "has_at ls i [Comment ''if condition'']" "has_at ls (Suc i) ?test" "has_at ls (Suc i + length ?test) la"
    "has_at ls k ((if bs \<noteq> [] then [Jump (label_at ''.Lendif'' n), Label (label_at ''.Lelse'' n)] @ lb else [])
      @ [Label (label_at ''.Lendif'' n)])"
    using assms(2) unfolding l k_def by (simp_all only: has_at_append) simp_all
  show thesis
  proof (cases "bs = []")
    case True
    then have e: "has_at ls k [Label (label_at ''.Lendif'' n)]" "i + length l = Suc k" using at(4) by (simp_all add: l k_def)
    then have g: "\<And>F ram. goes F ls k ram (i + length l) ram" using goes_label by metis
    have j: "has_at ls k [Label ?target]" using e(1) True by simp
    show thesis
      by (rule that [OF la lb goes_comment [OF at(1)] at(2,3) j, folded k_def]) (use g True in blast)+
  next
    case False
    define z where "z = Suc (Suc k) + length lb"
    have e: "has_at ls k [Jump (label_at ''.Lendif'' n)]" "has_at ls (Suc k) [Label (label_at ''.Lelse'' n)]"
      "has_at ls (Suc (Suc k)) lb" "has_at ls z [Label (label_at ''.Lendif'' n)]" "i + length l = Suc z"
    proof -
      have "has_at ls k ([Jump (label_at ''.Lendif'' n)] @ [Label (label_at ''.Lelse'' n)] @ lb @ [Label (label_at ''.Lendif'' n)])"
        using at(4) False by simp
      then show "has_at ls k [Jump (label_at ''.Lendif'' n)]" "has_at ls (Suc k) [Label (label_at ''.Lelse'' n)]"
        "has_at ls (Suc (Suc k)) lb" "has_at ls z [Label (label_at ''.Lendif'' n)]"
        unfolding has_at_append z_def by simp_all
      show "i + length l = Suc z" using False by (simp add: l z_def k_def)
    qed
    have g: "goes F ls k ram (i + length l) ram" "goes F ls z ram (i + length l) ram"
        "goes F ls (Suc k) ram (Suc (Suc k)) ram" for F ram
      using goes_trans [OF goes_jump [OF e(1,4)] goes_label [OF e(4)]] goes_label [OF e(4)] goes_label [OF e(2)] e(5) by simp_all
    have j: "has_at ls (Suc k) [Label ?target]" using e(2) False by simp
    show thesis
      by (rule that [OF la lb goes_comment [OF at(1)] at(2,3) j, folded k_def])
        (use g [unfolded z_def] e(3) False in blast)+
  qed
qed

definition loop_lines :: "program_t \<Rightarrow> string \<Rightarrow> string \<Rightarrow> tree \<Rightarrow> string \<Rightarrow> asm_line list \<Rightarrow> asm_line list \<Rightarrow> asm_line list" where
  "loop_lines prog a what t b body mid =
     [Label a] @ [Comment what] @ test_lines prog t b @ body @ mid @ [Jump a] @ [Label b]"

lemma loop_parts:
  fixes ls head prog t b body mid
  defines "start \<equiv> head + 2 + length (test_lines prog t b)"
  defines "finish \<equiv> start + length body + length mid"
  assumes F: "locals_ok (fr_prog F)" "prog = fr_prog F" "tree_fits prog 1 t"
    and at: "has_at ls head (loop_lines prog a what t b body mid)"
  shows "has_at ls head [Label a]" "has_at ls start body" "has_at ls (start + length body) mid" "has_at ls (Suc finish) [Label b]"
    "value_of F ram t = Some v \<Longrightarrow> goes F ls head ram (if v = 0 then Suc finish else start) ram"
    "goes F ls finish ram head ram" "head + length (loop_lines prog a what t b body mid) = Suc (Suc finish)"
proof -
  have parts: "has_at ls head [Label a]" "has_at ls (Suc head) [Comment what]" "has_at ls (Suc (Suc head)) (test_lines prog t b)"
      "has_at ls start body" "has_at ls (start + length body) mid" "has_at ls finish [Jump a]" "has_at ls (Suc finish) [Label b]"
    using at unfolding loop_lines_def has_at_append start_def finish_def by simp_all
  then show "has_at ls head [Label a]" "has_at ls start body" "has_at ls (start + length body) mid" "has_at ls (Suc finish) [Label b]"
    by simp_all
  show "goes F ls finish ram head ram" by (rule goes_jump [OF parts(6,1)])
  show "head + length (loop_lines prog a what t b body mid) = Suc (Suc finish)"
    by (simp add: loop_lines_def start_def finish_def)
  assume v: "value_of F ram t = Some v"
  have s: "Suc (Suc head) + length (test_lines prog t b) = start" by (simp add: start_def)
  have "goes F ls (Suc (Suc head)) ram (if v = 0 then Suc finish else start) ram"
    using goes_test [OF F(1) v F(3) [unfolded F(2)] parts(3) [unfolded F(2)] parts(7), folded F(2)] unfolding s .
  then show "goes F ls head ram (if v = 0 then Suc finish else start) ram"
    using goes_trans [OF goes_trans [OF goes_label [OF parts(1)] goes_comment [OF parts(2)]]] by blast
qed

lemma while_places:
  assumes F: "locals_ok (fr_prog F)" "tree_fits (fr_prog F) 1 t"
    and l: "stmt_lines (fr_prog F) epi ctx n (While t body) = (l, n')" "has_at ls i l" and E: "exits_ok ls epi ctx E"
  obtains lb n1 start exit' where "seq_lines (fr_prog F) epi (Some (LOOP_WHILE, n)) (n + 1) body = (lb, n1)" "has_at ls start lb"
    "exits_ok ls epi (Some (LOOP_WHILE, n)) (E\<lparr>to_break := exit', to_continue := i\<rparr>)"
    "loop_at F ls t None i start (start + length lb) i exit'" "\<forall>ram. goes F ls exit' ram (i + length l) ram"
proof -
  let ?a = "label_at ''.Lwhile'' n" and ?b = "label_at ''.Lendwhile'' n"
  define start where "start = i + 2 + length (test_lines (fr_prog F) t ?b)"
  obtain lb n1 where lb: "seq_lines (fr_prog F) epi (Some (LOOP_WHILE, n)) (n + 1) body = (lb, n1)" by (metis surj_pair)
  define exit' where "exit' = Suc (start + length lb)"
  have l': "l = loop_lines (fr_prog F) ?a ''while condition'' t ?b lb []" using l(1) lb by (simp add: loop_lines_def)
  note parts = loop_parts [OF F(1) refl F(2) l(2) [unfolded l'], folded start_def l', unfolded list.size(3) add_0_right, folded exit'_def]
  show thesis
  proof (rule that [OF lb parts(2)])
    show "exits_ok ls epi (Some (LOOP_WHILE, n)) (E\<lparr>to_break := exit', to_continue := i\<rparr>)"
      using E parts(1,4) by (simp add: exits_ok_def break_label_def continue_label_def)
    show "loop_at F ls t None i start (start + length lb) i exit'"
      unfolding loop_at_def option.case option.inject using parts(5,6) goes_refl by blast
    show "\<forall>ram. goes F ls exit' ram (i + length l) ram"
      unfolding parts(7) using goes_label [OF parts(4)] by blast
  qed
qed

lemma for_places:
  assumes F: "locals_ok (fr_prog F)" "stmt_ok (fr_prog F) inside (For v0 t0 t v1 t1 body)"
    and l: "stmt_lines (fr_prog F) epi ctx n (For v0 t0 t v1 t1 body) = (l, n')" "has_at ls i l" and E: "exits_ok ls epi ctx E"
  obtains lb n1 head start cont exit' where "seq_lines (fr_prog F) epi (Some (LOOP_FOR, n)) (n + 1) body = (lb, n1)" "has_at ls start lb"
    "\<forall>ram ram'. assign F v0 t0 ram = Some ram' \<longrightarrow> goes F ls i ram head ram'"
    "exits_ok ls epi (Some (LOOP_FOR, n)) (E\<lparr>to_break := exit', to_continue := cont\<rparr>)"
    "loop_at F ls t (Some (v1, t1)) head start (start + length lb) cont exit'"
    "\<forall>ram. goes F ls exit' ram (i + length l) ram"
proof -
  let ?a = "label_at ''.Lfor'' n" and ?b = "label_at ''.Lendfor'' n" and ?u = "label_at ''.Lfor_update'' n"
  let ?init = "assign_lines (fr_prog F) v0 t0" and ?upd = "assign_lines (fr_prog F) v1 t1"
  let ?mid = "[Label ?u] @ [Comment ''for update''] @ ?upd"
  define head where "head = Suc i + length ?init"
  define start where "start = head + 2 + length (test_lines (fr_prog F) t ?b)"
  obtain lb n1 where lb: "seq_lines (fr_prog F) epi (Some (LOOP_FOR, n)) (n + 1) body = (lb, n1)" by (metis surj_pair)
  define cont where "cont = start + length lb"
  define exit' where "exit' = Suc (cont + length ?mid)"
  have ok: "v0 < length (pr_locals (fr_prog F))" "v1 < length (pr_locals (fr_prog F))" "tree_fits (fr_prog F) 2 t0"
      "tree_fits (fr_prog F) 2 t1" "tree_fits (fr_prog F) 1 t" using F(2) by (simp_all add: word_local_def)
  have l': "l = [Comment ''for initializer''] @ ?init @ loop_lines (fr_prog F) ?a ''for condition'' t ?b lb ?mid"
    using l(1) lb by (simp add: loop_lines_def)
  have at: "has_at ls i [Comment ''for initializer'']" "has_at ls (Suc i) ?init"
      "has_at ls head (loop_lines (fr_prog F) ?a ''for condition'' t ?b lb ?mid)"
    using l(2) unfolding l' has_at_append head_def by simp_all
  note parts = loop_parts [OF F(1) refl ok(5) at(3), folded start_def, folded cont_def, folded exit'_def]
  have mid: "has_at ls cont [Label ?u]" "has_at ls (Suc cont) [Comment ''for update'']" "has_at ls (Suc (Suc cont)) ?upd"
    using parts(3) unfolding has_at_append by simp_all
  show thesis
  proof (rule that [OF lb parts(2)])
    show "\<forall>ram ram'. assign F v0 t0 ram = Some ram' \<longrightarrow> goes F ls i ram head ram'"
      using goes_trans [OF goes_comment [OF at(1)] goes_does [OF does_assign [OF F(1) _ ok(1,3)] at(2)]]
      by (auto simp: head_def)
    show "exits_ok ls epi (Some (LOOP_FOR, n)) (E\<lparr>to_break := exit', to_continue := cont\<rparr>)"
      using E parts(4) mid(1) by (simp add: exits_ok_def break_label_def continue_label_def)
    have "goes F ls cont ram head ram'" if "assign F v1 t1 ram = Some ram'" for ram ram'
    proof -
      have "goes F ls (Suc (Suc cont)) ram (cont + length ?mid) ram'"
        using goes_does [OF does_assign [OF F(1) that ok(2,4)] mid(3)] by simp
      with goes_trans [OF goes_label [OF mid(1)] goes_comment [OF mid(2)]] parts(6) show ?thesis
        by (meson goes_trans)
    qed
    then show "loop_at F ls t (Some (v1, t1)) head start (start + length lb) cont exit'"
      unfolding loop_at_def option.case prod.case using parts(5) goes_refl unfolding cont_def by blast
    have "i + length l = Suc exit'" using parts(7) by (simp add: l' head_def)
    then show "\<forall>ram. goes F ls exit' ram (i + length l) ram"
      using goes_label [OF parts(4)] by simp
  qed
qed

lemma leads_exits:
  assumes "leads F ls i ram E out" "out \<noteq> Normal (ram_of out) \<Longrightarrow> exit_of E out = exit_of E' out" "\<And>ram'. out = Normal ram' \<Longrightarrow> to_next E = to_next E'"
  shows "leads F ls i ram E' out"
  using assms by (cases out) (auto simp: leads_def)

lemma stmt_flow:
  assumes F: "locals_ok (fr_prog F)"
  shows "exec F k s ram = Some out \<Longrightarrow> stmt_ok (fr_prog F) (ctx \<noteq> None) s \<Longrightarrow>
      stmt_lines (fr_prog F) epi ctx n s = (l, n') \<Longrightarrow> has_at ls i l \<Longrightarrow> exits_ok ls epi ctx E \<Longrightarrow>
      leads F ls i ram (E\<lparr>to_next := i + length l\<rparr>) out"
    "exec_seq F k ss ram = Some out \<Longrightarrow> list_all (stmt_ok (fr_prog F) (ctx \<noteq> None)) ss \<Longrightarrow>
      seq_lines (fr_prog F) epi ctx n ss = (l, n') \<Longrightarrow> has_at ls i l \<Longrightarrow> exits_ok ls epi ctx E \<Longrightarrow>
      leads F ls i ram (E\<lparr>to_next := i + length l\<rparr>) out"
    "exec_loop F k t u ss ram = Some out \<Longrightarrow> list_all (stmt_ok (fr_prog F) True) ss \<Longrightarrow>
      seq_lines (fr_prog F) epi (Some c) n ss = (l, n') \<Longrightarrow> has_at ls start l \<Longrightarrow>
      exits_ok ls epi (Some c) (E\<lparr>to_break := exit', to_continue := cont\<rparr>) \<Longrightarrow>
      loop_at F ls t u head start (start + length l) cont exit' \<Longrightarrow>
      leads F ls head ram (E\<lparr>to_next := exit'\<rparr>) out"
proof (induction k arbitrary: s ss t u ram out ctx epi n l n' i E c start exit' cont head)
  case 0
  { case 1 then show ?case by simp next
    case 2 then show ?case by (cases ss) (auto simp: leads_Normal) next
    case 3 then show ?case by simp }
next
  case (Suc k)
  note IH = Suc.IH
  { case 1
    have plain: "leads F ls i ram (E\<lparr>to_next := i + length l\<rparr>) (Normal ram')"
      if "l = Comment t # frag" "\<And>r. r 15 = fr_base F \<Longrightarrow> does F frag r ram ram'" for t frag ram'
    proof -
      have at: "has_at ls i [Comment t]" "has_at ls (Suc i) frag" using 1(4) that(1) has_at_append [of ls i "[Comment t]" frag] by simp_all
      show ?thesis using goes_trans [OF goes_comment [OF at(1)] goes_does [OF that(2) at(2)]] that(1)
        by (simp add: leads_Normal)
    qed
    show ?case
    proof (cases s)
      case (Assign v t)
      with 1 obtain ram' where a: "assign F v t ram = Some ram'" "out = Normal ram'" by auto
      show ?thesis unfolding a(2) by (rule plain [OF _ does_assign [OF F a(1)]]) (use 1 Assign in auto)
    next
      case (Store_through v t)
      with 1 obtain ram' where a: "store_through F v t ram = Some ram'" "out = Normal ram'" by auto
      show ?thesis unfolding a(2) by (rule plain [OF _ does_through [OF F a(1)]]) (use 1 Store_through in auto)
    next
      case (Store_element v ix t)
      with 1 obtain ram' where a: "store_element F v ix t ram = Some ram'" "out = Normal ram'" by auto
      show ?thesis unfolding a(2) by (rule plain [OF _ does_element [OF F a(1)]]) (use 1 Store_element in auto)
    next
      case (Store_member b th v off t)
      with 1 obtain ram' where a: "store_member F b th v off t ram = Some ram'" "out = Normal ram'" by auto
      show ?thesis unfolding a(2) by (rule plain [OF _ does_member [OF F a(1)]]) (use 1 Store_member in auto)
    next
      case (Do t)
      with 1 obtain v where v: "value_of F ram t = Some v" "out = Normal ram" by auto
      have "does F (tree_lines (fr_prog F) t 0 1 @ []) r ram ram" if "r 15 = fr_base F" for r
        by (rule does_value [where r = r, OF v(1) F]) (use 1 Do that in \<open>auto simp: does_def\<close>)
      then show ?thesis unfolding v(2) by (intro plain) (use 1 Do in auto)
    next
      case (Return t)
      with 1 obtain v where v: "value_of F ram t = Some v" "out = Returned v ram" by auto
      have at: "has_at ls i (tree_lines (fr_prog F) t 0 1 @ [Jump epi])" using 1 Return by simp
      show ?thesis unfolding v(2)
        by (rule leads_return [OF F v(1) _ at]) (use 1 Return in \<open>auto simp: exits_ok_def\<close>)
    next
      case Break
      with 1 obtain x where x: "ctx = Some x" by auto
      have "has_at ls i [Jump (break_label x)]" "has_at ls (to_break E) [Label (break_label x)]"
        using 1 Break x by (auto simp: exits_ok_def)
      from goes_jump [OF this] 1 Break show ?thesis by (auto intro!: leads_goes)
    next
      case Continue
      with 1 obtain x where x: "ctx = Some x" by auto
      have "has_at ls i [Jump (continue_label x)]" "has_at ls (to_continue E) [Label (continue_label x)]"
        using 1 Continue x by (auto simp: exits_ok_def)
      from goes_jump [OF this] 1 Continue show ?thesis by (auto intro!: leads_goes)
    next
      case (If t as bs)
      obtain v where v: "value_of F ram t = Some v" "exec_seq F k (if v \<noteq> 0 then as else bs) ram = Some out"
        using 1(1) If by (auto split: bind_splits)
      have ok: "tree_fits (fr_prog F) 1 t" "list_all (stmt_ok (fr_prog F) (ctx \<noteq> None)) as"
        "list_all (stmt_ok (fr_prog F) (ctx \<noteq> None)) bs" using 1(2) If by simp_all
      obtain la n1 lb n2 j where p: "seq_lines (fr_prog F) epi ctx (n + 1) as = (la, n1)" "seq_lines (fr_prog F) epi ctx n1 bs = (lb, n2)"
        "goes F ls i ram (Suc i) ram"
        "has_at ls (Suc i) (test_lines (fr_prog F) t (label_at (if bs \<noteq> [] then ''.Lelse'' else ''.Lendif'') n))"
        "has_at ls (Suc i + length (test_lines (fr_prog F) t (label_at (if bs \<noteq> [] then ''.Lelse'' else ''.Lendif'') n))) la"
        "has_at ls j [Label (label_at (if bs \<noteq> [] then ''.Lelse'' else ''.Lendif'') n)]"
        "\<And>ram. goes F ls (Suc i + length (test_lines (fr_prog F) t (label_at (if bs \<noteq> [] then ''.Lelse'' else ''.Lendif'') n)) + length la)
          ram (i + length l) ram"
        "bs = [] \<Longrightarrow> \<forall>ram. goes F ls j ram (i + length l) ram"
        "bs \<noteq> [] \<Longrightarrow> has_at ls (Suc j) lb \<and> (\<forall>ram. goes F ls j ram (Suc j) ram
          \<and> goes F ls (Suc j + length lb) ram (i + length l) ram)"
        using if_places [OF 1(3) [unfolded If] 1(4)] by metis
      define k1 where "k1 = Suc i + length (test_lines (fr_prog F) t (label_at (if bs \<noteq> [] then ''.Lelse'' else ''.Lendif'') n))"
      have test: "goes F ls i ram (if v = 0 then j else k1) ram"
        using goes_trans [OF p(3) goes_test [OF F v(1) ok(1) p(4,6)]] unfolding k1_def .
      show ?thesis
      proof (cases "v = 0")
        case False
        have "leads F ls k1 ram (E\<lparr>to_next := i + length l\<rparr>\<lparr>to_next := k1 + length la\<rparr>) out"
          by (rule IH(2) [OF _ ok(2) p(1) p(5) [folded k1_def]]) (use v(2) False 1(5) in auto)
        then have "leads F ls k1 ram (E\<lparr>to_next := i + length l\<rparr>) out"
          by (rule leads_then) (use p(7) [folded k1_def] in simp)
        then show ?thesis using goes_leads test False by simp
      next
        case True
        show ?thesis
        proof (cases "bs = []")
          case empty: True
          then have "out = Normal ram" using v(2) True by simp
          then show ?thesis using goes_trans [OF test [unfolded if_P [OF True]]] p(8) [OF empty] by (simp add: leads_Normal)
        next
          case nonempty: False
          have "leads F ls (Suc j) ram (E\<lparr>to_next := i + length l\<rparr>\<lparr>to_next := Suc j + length lb\<rparr>) out"
            by (rule IH(2) [OF _ ok(3) p(2)]) (use v(2) True 1(5) p(9) [OF nonempty] in auto)
          then have "leads F ls (Suc j) ram (E\<lparr>to_next := i + length l\<rparr>) out"
            by (rule leads_then) (use p(9) [OF nonempty] in simp)
          then show ?thesis
            using goes_leads [OF goes_trans [OF test [unfolded if_P [OF True]]]] p(9) [OF nonempty] by blast
        qed
      qed
    next
      case (While t body)
      have ok: "tree_fits (fr_prog F) 1 t" "list_all (stmt_ok (fr_prog F) True) body" using 1(2) While by simp_all
      obtain lb n1 start exit' where p: "seq_lines (fr_prog F) epi (Some (LOOP_WHILE, n)) (n + 1) body = (lb, n1)" "has_at ls start lb"
          "exits_ok ls epi (Some (LOOP_WHILE, n)) (E\<lparr>to_break := exit', to_continue := i\<rparr>)"
          "loop_at F ls t None i start (start + length lb) i exit'" "\<forall>ram. goes F ls exit' ram (i + length l) ram"
        using while_places [OF F ok(1) 1(3) [unfolded While] 1(4,5)] by metis
      have "leads F ls i ram (E\<lparr>to_next := i + length l\<rparr>\<lparr>to_next := exit'\<rparr>) out"
        by (rule IH(3) [OF _ ok(2) p(1,2) _ p(4)]) (use 1(1) While p(3) in \<open>auto simp: exits_ok_def\<close>)
      then show ?thesis by (rule leads_then) (use p(5) in simp)
    next
      case (For v0 t0 t v1 t1 body)
      have ok: "list_all (stmt_ok (fr_prog F) True) body" using 1(2) For by simp
      obtain ram1 where ram1: "assign F v0 t0 ram = Some ram1" "exec_loop F k t (Some (v1, t1)) body ram1 = Some out"
        using 1(1) For by (auto split: bind_splits)
      obtain lb n1 head start cont exit' where p: "seq_lines (fr_prog F) epi (Some (LOOP_FOR, n)) (n + 1) body = (lb, n1)" "has_at ls start lb"
          "\<forall>ram ram'. assign F v0 t0 ram = Some ram' \<longrightarrow> goes F ls i ram head ram'"
          "exits_ok ls epi (Some (LOOP_FOR, n)) (E\<lparr>to_break := exit', to_continue := cont\<rparr>)"
          "loop_at F ls t (Some (v1, t1)) head start (start + length lb) cont exit'" "\<forall>ram. goes F ls exit' ram (i + length l) ram"
        using for_places [OF F 1(2) [unfolded For] 1(3) [unfolded For] 1(4,5)] by metis
      have "leads F ls head ram1 (E\<lparr>to_next := i + length l\<rparr>\<lparr>to_next := exit'\<rparr>) out"
        by (rule IH(3) [OF ram1(2) ok p(1,2) _ p(5)]) (use p(4) in \<open>auto simp: exits_ok_def\<close>)
      then have "leads F ls head ram1 (E\<lparr>to_next := i + length l\<rparr>) out" by (rule leads_then) (use p(6) in simp)
      then show ?thesis using goes_leads p(3) ram1(1) by blast
    qed
  next
    case 2
    show ?case
    proof (cases ss)
      case Nil
      with 2 show ?thesis by (auto simp: leads_Normal)
    next
      case (Cons s rest)
      obtain o1 where o1: "exec F k s ram = Some o1"
          "(case o1 of Normal ram1 \<Rightarrow> exec_seq F k rest ram1 | _ \<Rightarrow> Some o1) = Some out"
        using 2(1) Cons by (auto split: bind_splits)
      obtain l1 n1 l2 where l: "stmt_lines (fr_prog F) epi ctx n s = (l1, n1)" "seq_lines (fr_prog F) epi ctx n1 rest = (l2, n')"
          "l = l1 @ l2" using 2(3) Cons by (auto split: prod.splits)
      have at: "has_at ls i l1" "has_at ls (i + length l1) l2" using 2(4) l(3) by (simp_all add: has_at_append)
      have first: "leads F ls i ram (E\<lparr>to_next := i + length l1\<rparr>) o1"
        by (rule IH(1) [OF o1(1) _ l(1) at(1) 2(5)]) (use 2(2) Cons in simp)
      show ?thesis
      proof (cases o1)
        case (Normal ram1)
        have "leads F ls (i + length l1) ram1 (E\<lparr>to_next := i + length l1 + length l2\<rparr>) out"
          by (rule IH(2) [OF _ _ l(2) at(2) 2(5)]) (use o1(2) Normal 2(2) Cons in simp_all)
        with first Normal l(3) show ?thesis by (auto simp: leads_Normal add.assoc intro: goes_leads)
      qed (use first o1(2) in \<open>auto simp: leads_def\<close>)
    qed
  next
    case 3
    let ?E = "E\<lparr>to_break := exit', to_continue := cont\<rparr>"
    obtain v where v: "value_of F ram t = Some v" using 3(1) by (auto split: bind_splits)
    have test: "goes F ls head ram (if v = 0 then exit' else start) ram" using 3(6) v unfolding loop_at_def by blast
    show ?case
    proof (cases "v = 0")
      case True
      with 3(1) v test show ?thesis by (auto simp: leads_Normal)
    next
      case False
      obtain o1 where o1: "exec_seq F k ss ram = Some o1" using 3(1) v False by (auto split: bind_splits)
      have body: "leads F ls start ram (?E\<lparr>to_next := start + length l\<rparr>) o1"
        by (rule IH(2) [OF o1 _ 3(3,4,5)]) (use 3(2) in simp)
      have return: "goes F ls cont ram1 head ram2"
        if "(case u of None \<Rightarrow> Some ram1 | Some (j, t1) \<Rightarrow> assign F j t1 ram1) = Some ram2" for ram1 ram2
        using 3(6) that unfolding loop_at_def by blast
      have again: ?thesis
        if step: "goes F ls start ram cont ram1" and loop: "do { ram2 \<leftarrow> (case u of None \<Rightarrow> Some ram1 | Some (j, t1) \<Rightarrow> assign F j t1 ram1);
          exec_loop F k t u ss ram2 } = Some out" for ram1
      proof -
        obtain ram2 where r2: "(case u of None \<Rightarrow> Some ram1 | Some (j, t1) \<Rightarrow> assign F j t1 ram1) = Some ram2"
            "exec_loop F k t u ss ram2 = Some out" using loop by (auto split: bind_splits)
        have again: "leads F ls head ram2 (E\<lparr>to_next := exit'\<rparr>) out" by (rule IH(3) [OF r2(2) 3(2-6)])
        from goes_trans [OF goes_trans [OF test [unfolded if_not_P [OF False]] step] return [OF r2(1)]] again
        show ?thesis by (rule goes_leads)
      qed
      have onward: "goes F ls (start + length l) ram1 cont ram1" for ram1 using 3(6) unfolding loop_at_def by blast
      note start' = test [unfolded if_not_P [OF False]]
      show ?thesis
      proof (cases o1)
        case (Normal ram1)
        have "goes F ls start ram cont ram1" using body Normal goes_trans [OF _ onward] by (simp add: leads_Normal)
        moreover have "do { ram2 \<leftarrow> (case u of None \<Rightarrow> Some ram1 | Some (j, t1) \<Rightarrow> assign F j t1 ram1);
          exec_loop F k t u ss ram2 } = Some out" using 3(1) v False o1 Normal by simp
        ultimately show ?thesis by (rule again)
      next
        case (Continued ram1)
        have "goes F ls start ram cont ram1" using body Continued by (simp add: leads_def goes_def)
        moreover have "do { ram2 \<leftarrow> (case u of None \<Rightarrow> Some ram1 | Some (j, t1) \<Rightarrow> assign F j t1 ram1);
          exec_loop F k t u ss ram2 } = Some out" using 3(1) v False o1 Continued by simp
        ultimately show ?thesis by (rule again)
      next
        case (Broke ram1)
        have "goes F ls start ram exit' ram1" using body Broke by (simp add: leads_def goes_def)
        from goes_trans [OF start' this] 3(1) v False o1 Broke show ?thesis by (auto simp: leads_Normal)
      next
        case (Returned w ram1)
        have "leads F ls start ram (E\<lparr>to_next := exit'\<rparr>) (Returned w ram1)" using body Returned by (simp add: leads_def)
        from goes_leads [OF start' this] 3(1) v False o1 Returned show ?thesis by simp
      qed
    qed
  }
qed

end
