(* ===== verification/T32_Function_Laws.thy ===== *)
theory T32_Function_Laws
  imports T32_Stmt_Laws
begin

text \<open>
  Functions of the language of \<open>t32-cc\<close>: their meaning (\<open>call_function\<close>), their code (\<open>function_lines\<close>), and
  the proofs that the emitter writes that code and that a machine that is called into it returns with
  the meaning of the function in \<open>r0\<close>.
\<close>

section \<open>Functions\<close>

text \<open>The initializers of the local variables behind the parameters, the statements, and the expression of
  the return at the end.\<close>

record function_tree =
  ft_inits :: "tree option list"
  ft_body :: "stmt list"
  ft_result :: "tree option"

definition reads_init :: "program_t \<Rightarrow> local_t \<Rightarrow> tree option \<Rightarrow> bool" where
  "reads_init prog l i \<longleftrightarrow>
     (case i of None \<Rightarrow> \<not> lc_has_initializer l
      | Some t \<Rightarrow> lc_has_initializer l \<and> holds prog (lc_initializer l) t)"

definition reads_function :: "program_t \<Rightarrow> function_tree \<Rightarrow> bool" where
  "reads_function prog f \<longleftrightarrow>
     list_all2 (reads_init prog) (drop (pr_parameter_count prog) (pr_locals prog)) (ft_inits f)
     \<and> reads_seq prog (pr_first_statement prog) (ft_body f)
     \<and> (case ft_result f of None \<Rightarrow> \<not> pr_has_explicit_return prog
        | Some t \<Rightarrow> pr_has_explicit_return prog \<and> holds prog (pr_return_expression prog) t)"

section \<open>Meaning\<close>

text \<open>The parameters go into their variables, the initializers are assignments, the value is that of the
  \<open>return\<close> that is reached, and 0 at the end of \<open>main\<close>.\<close>

fun store_parameters :: "frame \<Rightarrow> nat \<Rightarrow> nat \<Rightarrow> (nat \<Rightarrow> u32) \<Rightarrow> bytes \<Rightarrow> bytes option" where
  "store_parameters F i 0 args ram = Some ram"
| "store_parameters F i (Suc n) args ram =
     do { ram1 \<leftarrow> c_store F False ram (local_address F i) (args i); store_parameters F (i + 1) n args ram1 }"

fun run_inits :: "frame \<Rightarrow> nat \<Rightarrow> tree option list \<Rightarrow> bytes \<Rightarrow> bytes option" where
  "run_inits F i [] ram = Some ram"
| "run_inits F i (None # is) ram = run_inits F (i + 1) is ram"
| "run_inits F i (Some t # is) ram = do { ram1 \<leftarrow> assign F i t ram; run_inits F (i + 1) is ram1 }"

definition call_function :: "frame \<Rightarrow> nat \<Rightarrow> function_tree \<Rightarrow> (nat \<Rightarrow> u32) \<Rightarrow> bytes \<Rightarrow> (u32 \<times> bytes) option" where
  "call_function F k f args ram =
     (let n = pr_parameter_count (fr_prog F) in
      do { ram1 \<leftarrow> store_parameters F 0 n args ram;
           ram2 \<leftarrow> run_inits F n (ft_inits f) ram1;
           out \<leftarrow> exec_seq F k (ft_body f) ram2;
           case out of Returned v ram3 \<Rightarrow> Some (v, ram3)
           | Normal ram3 \<Rightarrow> (case ft_result f of None \<Rightarrow> Some (0, ram3)
               | Some t \<Rightarrow> map_option (\<lambda>v. (v, ram3)) (value_of F ram3 t))
           | _ \<Rightarrow> None })"

section \<open>Code\<close>

fun init_lines :: "program_t \<Rightarrow> nat \<Rightarrow> tree option list \<Rightarrow> asm_line list" where
  "init_lines prog i [] = []"
| "init_lines prog i (None # is) = local_comment ''uninitialized'' (pr_locals prog ! i) # init_lines prog (i + 1) is"
| "init_lines prog i (Some t # is) =
     local_comment ''initialize'' (pr_locals prog ! i) # assign_lines prog i t @ init_lines prog (i + 1) is"

definition prologue_lines :: "program_t \<Rightarrow> function_tree \<Rightarrow> asm_line list" where
  "prologue_lines prog f =
     (if frame_size prog = 0 then []
      else [Comment (dec_string (length (pr_locals prog))
             @ (if pr_is_main prog \<and> pr_parameter_count prog = 0 then '' local int(s), '' else '' parameter/local slot(s), '')
             @ fmt_u (frame_size prog) @ ''-byte stack frame''),
           Subi 15 15 (frame_size prog)]
        @ emit_parameters prog 0 (pr_parameter_count prog) @ init_lines prog (pr_parameter_count prog) (ft_inits f))"

definition result_lines :: "program_t \<Rightarrow> function_tree \<Rightarrow> asm_line list" where
  "result_lines prog f = (case ft_result f of
       None \<Rightarrow> [Comment ''implicit return 0 from main'', Movi 0 0] | Some t \<Rightarrow> tree_lines prog t 0 1)"

definition leave_lines :: "program_t \<Rightarrow> asm_line list" where
  "leave_lines prog = (if frame_size prog \<noteq> 0 then [Addi 15 15 (frame_size prog)] else [])"

definition function_lines :: "program_t \<Rightarrow> u32 \<Rightarrow> function_tree \<Rightarrow> asm_line list \<times> u32" where
  "function_lines prog n f =
     (case seq_lines prog (epilogue_of prog) None n (ft_body f) of (body, n') \<Rightarrow>
       ([Label (chars (pr_function_name prog))] @ prologue_lines prog f @ body @ result_lines prog f
        @ [Label (epilogue_of prog)] @ leave_lines prog @ [Ret], n'))"

section \<open>Functions that are compiled as C means them\<close>

text \<open>There is a frame if there are variables, parameters come first, expressions fit the registers.\<close>

definition frame_ok :: "program_t \<Rightarrow> bool" where
  "frame_ok prog \<longleftrightarrow> locals_ok prog \<and> pr_parameter_count prog \<le> 4 \<and> pr_parameter_count prog \<le> length (pr_locals prog)
     \<and> (frame_size prog = 0 \<longrightarrow> pr_locals prog = [])"

definition function_ok :: "program_t \<Rightarrow> function_tree \<Rightarrow> bool" where
  "function_ok prog f \<longleftrightarrow> frame_ok prog
     \<and> length (ft_inits f) = length (pr_locals prog) - pr_parameter_count prog
     \<and> list_all (pred_option (tree_fits prog 2)) (ft_inits f)
     \<and> list_all (stmt_ok prog False) (ft_body f) \<and> pred_option (tree_fits prog 1) (ft_result f)"

section \<open>What the emitter writes\<close>

lemma emit_initializers_reads:
  "list_all2 (reads_init prog) ls is \<Longrightarrow> list_all (pred_option (tree_fits prog 2)) is \<Longrightarrow>
   (\<And>j. j < length ls \<Longrightarrow> pr_locals prog ! (i + j) = ls ! j) \<Longrightarrow>
   written (emit_initializers prog i ls em) em (init_lines prog i is, em_label em)"
proof (induction arbitrary: i em rule: list_all2_induct)
  case (Cons l ls x xs)
  have here: "pr_locals prog ! i = l" using Cons.prems(2) [of 0] by simp
  have rest: "written (emit_initializers prog (i + 1) ls em') em' (init_lines prog (i + 1) xs, em_label em')" for em'
    using Cons.IH [of "i + 1" em'] Cons.prems(1) Cons.prems(2) [of "Suc _"] by simp
  show ?case
  proof (cases x)
    case None
    let ?em1 = "emit [local_comment ''uninitialized'' l] em"
    show ?thesis using Cons.hyps(1) None here rest [of ?em1]
      by (auto simp: reads_init_def written_def wrote_def)
  next
    case (Some t)
    let ?em1 = "emit (assign_lines prog i t) ((emit [local_comment ''initialize'' l] em)\<lparr>em_depth := 0\<rparr>)"
    have l: "lc_has_initializer l" "holds prog (lc_initializer l) t" "regs_fit 2 t"
      using Cons.hyps(1) Cons.prems(1) Some by (auto simp: reads_init_def tree_fits_def)
    show ?thesis using l emit_values(2) [OF l(2,3)] Some here rest [of ?em1]
      by (auto simp: written_def wrote_def assign_lines_def)
  qed
qed (simp add: written_def wrote_def)

lemma emit_function_reads:
  assumes f: "reads_function prog f" "function_ok prog f" and k: "weights (ft_body f) \<le> EMIT_FUEL"
  shows "\<exists>em'. emit_function prog em = Some (True, em') \<and> em_err em' = em_err em
    \<and> em_lines em' = em_lines em @ fst (function_lines prog (em_label em) f)
    \<and> em_label em' = snd (function_lines prog (em_label em) f)"
proof -
  note f' = f(1) [unfolded reads_function_def] f(2) [unfolded function_ok_def]
  let ?em0 = "emit [Label (chars (pr_function_name prog))] (em\<lparr>em_base := pr_frame_bytes prog, em_depth := 0\<rparr>)"
  have "written (emit_prologue prog ?em0) ?em0 (prologue_lines prog f, em_label em)"
  proof (cases "frame_size prog = 0")
    case True
    then show ?thesis by (simp add: written_def wrote_def emit_prologue_def prologue_lines_def)
  next
    case False
    let ?n = "pr_parameter_count prog"
    have "written (emit_initializers prog ?n (drop ?n (pr_locals prog)) em1) em1 (init_lines prog ?n (ft_inits f), em_label em1)" for em1
      by (rule emit_initializers_reads) (use f' in \<open>auto simp: frame_ok_def\<close>)
    from this [of "emit ([Comment (dec_string (length (pr_locals prog))
             @ (if pr_is_main prog \<and> pr_parameter_count prog = 0 then '' local int(s), '' else '' parameter/local slot(s), '')
             @ fmt_u (frame_size prog) @ ''-byte stack frame''),
           Subi 15 15 (frame_size prog)] @ emit_parameters prog 0 (pr_parameter_count prog)) ?em0"] False show ?thesis
      by (auto simp: written_def wrote_def emit_prologue_def prologue_lines_def)
  qed
  then obtain em1 where em1: "emit_prologue prog ?em0 = Some (True, em1)" "wrote ?em0 (prologue_lines prog f, em_label em) em1"
    by (auto simp: written_def)
  have "list_all (stmt_ok prog (None \<noteq> (None :: loop_context))) (ft_body f)" using f'(2) by simp
  from emit_reads(2) [OF f'(1) [THEN conjunct2, THEN conjunct1] this k, of "epilogue_of prog" em1]
  obtain em2 where em2: "emit_statement_sequence EMIT_FUEL prog (epilogue_of prog) (pr_first_statement prog) None em1 = Some (True, em2)"
      "wrote em1 (seq_lines prog (epilogue_of prog) None (em_label em) (ft_body f)) em2"
    using em1(2) by (auto simp: written_def wrote_def)
  obtain body n' where body: "seq_lines prog (epilogue_of prog) None (em_label em) (ft_body f) = (body, n')" by (metis surj_pair)
  show ?thesis
  proof (cases "ft_result f")
    case None
    then show ?thesis using f'(1) em1 em2 body
      by (auto simp: emit_function_def Let_def wrote_def function_lines_def result_lines_def leave_lines_def)
  next
    case (Some t)
    then have t: "pr_has_explicit_return prog" "holds prog (pr_return_expression prog) t" "regs_fit 1 t"
      using f' by (auto simp: tree_fits_def)
    with emit_values(1) [OF t(2,3)] Some em1 em2 body show ?thesis
      by (auto simp: emit_function_def Let_def wrote_def function_lines_def result_lines_def leave_lines_def)
  qed
qed

section \<open>What the code does\<close>

text \<open>Storing the parameters changes no register but \<open>r10\<close>.\<close>

lemma store_parameters_run:
  assumes "locals_ok (fr_prog F)" "i + n \<le> 10" "i + n \<le> length (pr_locals (fr_prog F))"
    and "store_parameters F i n args ram = Some ram'" "r 15 = fr_base F" "\<And>j. j < i + n \<Longrightarrow> r j = args j"
  shows "\<exists>r'. (\<forall>j. j \<noteq> 10 \<longrightarrow> r' j = r j) \<and> run_code (fr_labels F) (emit_parameters (fr_prog F) i n) (r, ram) = Some (r', ram')
    \<and> clear_of (fr_labels F) (fst (fr_text F)) (snd (fr_text F)) (emit_parameters (fr_prog F) i n) (r, ram)"
  using assms(2-)
proof (induction n arbitrary: i r ram)
  case (Suc n)
  obtain ram1 where ram1: "c_store F False ram (local_address F i) (args i) = Some ram1" "store_parameters F (i + 1) n args ram1 = Some ram'"
    using Suc.prems(3) by (auto split: bind_splits)
  have i: "i < length (pr_locals (fr_prog F))" using Suc.prems(2) by simp
  define r1 where "r1 = (if i = 0 then r else r(10 := r 15 + local_offset (fr_prog F) i))"
  have here: "run_code (fr_labels F) (emit_store_local (fr_prog F) i i) (r, ram) = Some (r1, ram1)"
    "clear_of (fr_labels F) (fst (fr_text F)) (snd (fr_text F)) (emit_store_local (fr_prog F) i i) (r, ram)"
    using ram1(1) c_store_cases [OF ram1(1)] Suc.prems(1,4) Suc.prems(5) [of i] locals_okD [OF assms(1) i]
    by (auto simp: emit_store_local_def emit_local_address_def Let_def r1_def local_address_def keeps_text_def)
  have same: "\<forall>j. j \<noteq> 10 \<longrightarrow> r1 j = r j" by (simp add: r1_def)
  obtain r' where r': "\<forall>j. j \<noteq> 10 \<longrightarrow> r' j = r1 j"
      "run_code (fr_labels F) (emit_parameters (fr_prog F) (i + 1) n) (r1, ram1) = Some (r', ram')"
      "clear_of (fr_labels F) (fst (fr_text F)) (snd (fr_text F)) (emit_parameters (fr_prog F) (i + 1) n) (r1, ram1)"
    using Suc.IH [of "i + 1" ram1 r1] Suc.prems ram1(2) same by auto
  have "\<forall>j. j \<noteq> 10 \<longrightarrow> r' j = r j" using r'(1) same by simp
  then show ?case using here r'(2,3) by (auto simp: run_code_append clear_of_append)
qed auto

lemma inits_flow:
  assumes F: "locals_ok (fr_prog F)"
  shows "run_inits F i is ram = Some ram' \<Longrightarrow> list_all (pred_option (tree_fits (fr_prog F) 2)) is \<Longrightarrow>
    i + length is \<le> length (pr_locals (fr_prog F)) \<Longrightarrow> has_at ls j (init_lines (fr_prog F) i is) \<Longrightarrow>
    goes F ls j ram (j + length (init_lines (fr_prog F) i is)) ram'"
proof (induction "is" arbitrary: i ram j)
  case (Cons x xs)
  define front where "front = (case x of None \<Rightarrow> [] | Some t \<Rightarrow> assign_lines (fr_prog F) i t)"
  define remark where "remark = local_comment (case x of None \<Rightarrow> ''uninitialized'' | Some t \<Rightarrow> ''initialize'') (pr_locals (fr_prog F) ! i)"
  have lines: "init_lines (fr_prog F) i (x # xs) = [remark] @ front @ init_lines (fr_prog F) (i + 1) xs"
    by (cases x) (simp_all add: front_def remark_def)
  have at: "has_at ls j [remark]" "has_at ls (j + 1) front" "has_at ls (j + 1 + length front) (init_lines (fr_prog F) (i + 1) xs)"
    using Cons.prems(4) unfolding lines has_at_append by simp_all
  obtain ram1 where ram1: "(case x of None \<Rightarrow> Some ram | Some t \<Rightarrow> assign F i t ram) = Some ram1" "run_inits F (i + 1) xs ram1 = Some ram'"
    using Cons.prems(1) by (cases x) (auto split: bind_splits)
  have "goes F ls j ram (j + 1) ram" using goes_comment at(1) by (simp add: remark_def local_comment_def)
  also have "goes F ls (j + 1) ram (j + 1 + length front) ram1"
  proof (cases x)
    case None
    then show ?thesis using ram1(1) by (simp add: front_def)
  next
    case (Some t)
    with at(2) have "has_at ls (j + 1) (assign_lines (fr_prog F) i t)" by (simp add: front_def)
    moreover have "does F (assign_lines (fr_prog F) i t) r ram ram1" if "r 15 = fr_base F" for r
      by (rule does_assign [OF F]) (use Some ram1(1) Cons.prems(2,3) that in auto)
    ultimately have "goes F ls (j + 1) ram (j + 1 + length (assign_lines (fr_prog F) i t)) ram1" by (intro goes_does)
    then show ?thesis using Some by (simp add: front_def)
  qed
  also have "goes F ls (j + 1 + length front) ram1 (j + 1 + length front + length (init_lines (fr_prog F) (i + 1) xs)) ram'"
    by (rule Cons.IH [OF ram1(2) _ _ at(3)]) (use Cons.prems in auto)
  finally show ?case unfolding lines by (simp add: add.assoc)
qed simp

text \<open>From the label of a function to its statements.\<close>

lemma entry_flow:
  assumes f: "function_ok (fr_prog F) f" and at: "has_at ls i (prologue_lines (fr_prog F) f)"
    and ram1: "store_parameters F 0 (pr_parameter_count (fr_prog F)) args ram = Some ram1"
    and ram2: "run_inits F (pr_parameter_count (fr_prog F)) (ft_inits f) ram1 = Some ram2"
    and r: "r 15 = fr_base F + frame_size (fr_prog F)" "\<And>j. j < pr_parameter_count (fr_prog F) \<Longrightarrow> r j = args j"
  shows "\<exists>r'. r' 15 = fr_base F \<and> asm_steps (fr_labels F) (fr_text F) ls (i, (r, ram))
    (i + length (prologue_lines (fr_prog F) f), (r', ram2))"
proof -
  let ?prog = "fr_prog F" and ?n = "pr_parameter_count (fr_prog F)"
  note f' = f [unfolded function_ok_def frame_ok_def]
  show ?thesis
  proof (cases "frame_size ?prog = 0")
    case True
    then have "pr_parameter_count ?prog = 0" "ft_inits f = []" using f' by auto
    then have "ram2 = ram" using ram1 ram2 by simp
    with True r(1) show ?thesis by (auto simp: prologue_lines_def)
  next
    case False
    define front where "front = [Comment (dec_string (length (pr_locals ?prog))
             @ (if pr_is_main ?prog \<and> ?n = 0 then '' local int(s), '' else '' parameter/local slot(s), '')
             @ fmt_u (frame_size ?prog) @ ''-byte stack frame''), Subi 15 15 (frame_size ?prog)]"
    let ?inits = "init_lines ?prog ?n (ft_inits f)"
    have lines: "prologue_lines ?prog f = front @ emit_parameters ?prog 0 ?n @ ?inits"
      using False by (simp add: prologue_lines_def front_def)
    have at': "has_at ls i front" "has_at ls (i + length front) (emit_parameters ?prog 0 ?n)"
      "has_at ls (i + length front + length (emit_parameters ?prog 0 ?n)) ?inits"
      using at by (simp_all add: lines has_at_append)
    let ?r1 = "r(15 := fr_base F)"
    have s1: "asm_steps (fr_labels F) (fr_text F) ls (i, (r, ram)) (i + length front, (?r1, ram))"
      by (rule straight_line [OF at'(1)]) (use r(1) in \<open>auto simp: front_def\<close>)
    obtain r2 where r2: "\<forall>j. j \<noteq> 10 \<longrightarrow> r2 j = ?r1 j"
        "run_code (fr_labels F) (emit_parameters ?prog 0 ?n) (?r1, ram) = Some (r2, ram1)"
        "clear_of (fr_labels F) (fst (fr_text F)) (snd (fr_text F)) (emit_parameters ?prog 0 ?n) (?r1, ram)"
      using store_parameters_run [OF _ _ _ ram1, of ?r1] f' r(2) by auto
    have s2: "asm_steps (fr_labels F) (fr_text F) ls (i + length front, (?r1, ram))
        (i + length front + length (emit_parameters ?prog 0 ?n), (r2, ram1))"
      by (rule straight_line [OF at'(2) r2(2,3)])
    have "goes F ls (i + length front + length (emit_parameters ?prog 0 ?n)) ram1
        (i + length front + length (emit_parameters ?prog 0 ?n) + length ?inits) ram2"
      by (rule inits_flow [OF _ ram2 _ _ at'(3)]) (use f' in auto)
    then obtain r3 where "r3 15 = fr_base F" "asm_steps (fr_labels F) (fr_text F) ls
        (i + length front + length (emit_parameters ?prog 0 ?n), (r2, ram1))
        (i + length front + length (emit_parameters ?prog 0 ?n) + length ?inits, (r3, ram2))"
      by (rule goesE [where r = r2]) (use r2(1) in simp)
    with asm_steps_trans [OF asm_steps_trans [OF s1 s2]] show ?thesis by (auto simp: lines add.assoc)
  qed
qed

text \<open>From the statements to the end of the function.\<close>

lemma result_flow:
  assumes F: "locals_ok (fr_prog F)" and t: "pred_option (tree_fits (fr_prog F) 1) (ft_result f)"
    and at: "has_at ls i (result_lines (fr_prog F) f)"
    and v: "(case ft_result f of None \<Rightarrow> Some (0, ram) | Some t \<Rightarrow> map_option (\<lambda>v. (v, ram)) (value_of F ram t)) = Some (v, ram')"
    and r: "r 15 = fr_base F"
  shows "\<exists>r'. r' 15 = fr_base F \<and> r' 0 = v \<and> asm_steps (fr_labels F) (fr_text F) ls (i, (r, ram))
    (i + length (result_lines (fr_prog F) f), (r', ram'))"
proof (cases "ft_result f")
  case None
  with at have at': "has_at ls i [Comment ''implicit return 0 from main'', Movi 0 0]" by (simp add: result_lines_def)
  have "asm_steps (fr_labels F) (fr_text F) ls (i, (r, ram))
      (i + length [Comment ''implicit return 0 from main'', Movi 0 0], (r(0 := 0), ram))"
    by (rule straight_line [OF at']) auto
  with None v r show ?thesis by (auto simp: result_lines_def intro!: exI [of _ "r(0 := 0)"])
next
  case (Some t')
  with v t at leads_value [OF F, of ram t' v ls i] r show ?thesis by (auto simp: result_lines_def)
qed

lemma body_flow:
  assumes f: "function_ok (fr_prog F) f" and body: "seq_lines (fr_prog F) epi None n (ft_body f) = (body, n')"
    and at: "has_at ls i (body @ result_lines (fr_prog F) f @ [Label epi])"
    and out: "exec_seq F k (ft_body f) ram = Some out"
    and v: "(case out of Returned v ram3 \<Rightarrow> Some (v, ram3)
       | Normal ram3 \<Rightarrow> (case ft_result f of None \<Rightarrow> Some (0, ram3) | Some t \<Rightarrow> map_option (\<lambda>v. (v, ram3)) (value_of F ram3 t))
       | _ \<Rightarrow> None) = Some (v, ram')"
    and r: "r 15 = fr_base F"
  shows "\<exists>r'. r' 15 = fr_base F \<and> r' 0 = v \<and> asm_steps (fr_labels F) (fr_text F) ls (i, (r, ram))
    (i + length body + length (result_lines (fr_prog F) f), (r', ram'))"
proof -
  note f' = f [unfolded function_ok_def frame_ok_def]
  let ?j = "i + length body" and ?k = "i + length body + length (result_lines (fr_prog F) f)"
  have at': "has_at ls i body" "has_at ls ?j (result_lines (fr_prog F) f)" "has_at ls ?k [Label epi]"
    using at by (simp_all add: has_at_append add.assoc)
  define E where "E = \<lparr>to_next = ?j, to_break = 0, to_continue = 0, to_return = ?k\<rparr>"
  have "leads F ls i ram (E\<lparr>to_next := i + length body\<rparr>) out"
    by (rule stmt_flow(2) [OF _ out _ body at'(1)]) (use f' at'(3) in \<open>auto simp: exits_ok_def E_def\<close>)
  then obtain r1 where r1: "r1 15 = fr_base F" "\<And>w ram'. out = Returned w ram' \<Longrightarrow> r1 0 = w"
      "asm_steps (fr_labels F) (fr_text F) ls (i, (r, ram)) (exit_of (E\<lparr>to_next := i + length body\<rparr>) out, (r1, ram_of out))"
    using r by (rule leadsE [where r = r]) blast+
  show ?thesis
  proof (cases out)
    case (Normal ram3)
    then obtain r' where "r' 15 = fr_base F" "r' 0 = v" "asm_steps (fr_labels F) (fr_text F) ls (?j, (r1, ram3)) (?k, (r', ram'))"
      using result_flow [where r = r1, OF _ _ at'(2) _ r1(1), of ram3 v ram'] f' v by auto
    with r1(3) Normal show ?thesis by (auto simp: E_def intro: asm_steps_trans)
  next
    case (Returned w ram3)
    with r1 v show ?thesis by (auto simp: E_def)
  qed (use v in auto)
qed

text \<open>A function from its label to its last instruction.\<close>

lemma function_flow:
  assumes f: "function_ok (fr_prog F) f" and at: "has_at ls i (fst (function_lines (fr_prog F) n f))"
    and v: "call_function F k f args ram = Some (v, ram')"
    and r: "r 15 = fr_base F + frame_size (fr_prog F)" "\<And>j. j < pr_parameter_count (fr_prog F) \<Longrightarrow> r j = args j"
  shows "\<exists>r' j. has_at ls j [Ret] \<and> r' 15 = r 15 \<and> r' 0 = v
    \<and> asm_steps (fr_labels F) (fr_text F) ls (i, (r, ram)) (j, (r', ram'))"
proof -
  let ?prog = "fr_prog F" and ?epi = "epilogue_of (fr_prog F)"
  obtain body n' where body: "seq_lines ?prog ?epi None n (ft_body f) = (body, n')" by (metis surj_pair)
  define front where "front = Label (chars (pr_function_name ?prog)) # prologue_lines ?prog f"
  define j where "j = i + length front + length body + length (result_lines ?prog f)"
  have lines: "fst (function_lines ?prog n f)
      = front @ (body @ result_lines ?prog f @ [Label ?epi]) @ leave_lines ?prog @ [Ret]"
    by (simp add: function_lines_def body front_def)
  have at': "has_at ls i front" "has_at ls (i + length front) (body @ result_lines ?prog f @ [Label ?epi])"
    "has_at ls (j + 1) (leave_lines ?prog)" "has_at ls (j + 1 + length (leave_lines ?prog)) [Ret]"
    using at unfolding lines has_at_append by (simp_all add: j_def add.assoc)
  obtain ram1 ram2 out where ex: "store_parameters F 0 (pr_parameter_count ?prog) args ram = Some ram1"
      "run_inits F (pr_parameter_count ?prog) (ft_inits f) ram1 = Some ram2" "exec_seq F k (ft_body f) ram2 = Some out"
      "(case out of Returned v ram3 \<Rightarrow> Some (v, ram3)
       | Normal ram3 \<Rightarrow> (case ft_result f of None \<Rightarrow> Some (0, ram3) | Some t \<Rightarrow> map_option (\<lambda>v. (v, ram3)) (value_of F ram3 t))
       | _ \<Rightarrow> None) = Some (v, ram')"
    using v by (auto simp: call_function_def Let_def split: bind_splits)
  have begin_: "has_at ls i ([Label (chars (pr_function_name ?prog))] @ prologue_lines ?prog f)"
    using at'(1) by (simp add: front_def)
  have after: "has_at ls (Suc i) (prologue_lines ?prog f)"
    using begin_ [unfolded has_at_append] by simp
  note label_ = pass_label [OF begin_ [unfolded has_at_append, THEN conjunct1], of "fr_labels F" "fr_text F" "(r, ram)"]
  obtain r1 where r1: "r1 15 = fr_base F" "asm_steps (fr_labels F) (fr_text F) ls (Suc i, (r, ram)) (i + length front, (r1, ram2))"
    using entry_flow [where r = r, OF f after ex(1,2) r] by (auto simp: front_def)
  obtain r2 where r2: "r2 15 = fr_base F" "r2 0 = v" "asm_steps (fr_labels F) (fr_text F) ls (i + length front, (r1, ram2)) (j, (r2, ram'))"
    using body_flow [where r = r1, OF f body at'(2) ex(3,4) r1(1)] by (auto simp: j_def)
  have "has_at ls j [Label ?epi]" using at'(2) by (simp add: has_at_append j_def add.assoc)
  then have end_: "asm_steps (fr_labels F) (fr_text F) ls (j, (r2, ram')) (j + 1, (r2, ram'))" using pass_label by simp
  have "run_code (fr_labels F) (leave_lines ?prog) (r2, ram') = Some (r2(15 := r 15), ram')"
    using r(1) r2(1) by (auto simp: leave_lines_def fun_eq_iff)
  then have leave: "asm_steps (fr_labels F) (fr_text F) ls (j + 1, (r2, ram')) (j + 1 + length (leave_lines ?prog), (r2(15 := r 15), ram'))"
    by (rule straight_line [OF at'(3)]) (simp add: leave_lines_def)
  show ?thesis
    using asm_steps_trans [OF asm_steps_trans [OF asm_steps_trans [OF asm_steps_trans [OF label_ r1(2)] r2(3)] end_] leave] at'(4) r2(2)
    by (intro exI [of _ "r2(15 := r 15)"] exI [of _ "j + 1 + length (leave_lines ?prog)"]) auto
qed

section \<open>On the machine\<close>

text \<open>The lines of a function name registers that exist.\<close>

lemma tree_lines_regs: "tree_fits prog n t \<Longrightarrow> d < n \<Longrightarrow> n \<le> 10 \<Longrightarrow> list_all regs_ok (tree_lines prog t d n)"
  using tree_lines_ok by (auto simp: tree_fits_def list_all_iff)

lemma local_lines_regs:
  "list_all regs_ok (emit_local_address prog i)" "d < 16 \<Longrightarrow> list_all regs_ok (emit_store_local prog i d)"
  "d < 16 \<Longrightarrow> list_all regs_ok (emit_load_local prog i d)" "d < 16 \<Longrightarrow> list_all regs_ok (emit_local_address_to prog i d)"
  "d < 16 \<Longrightarrow> list_all regs_ok (emit_store_local_value prog i d)" "d < 16 \<Longrightarrow> list_all regs_ok (emit_truncate_char d)"
  "d < 16 \<Longrightarrow> list_all regs_ok (emit_operand prog \<lparr>op_kind = OPERAND_LOCAL, op_value = v\<rparr> d)"
  by (auto simp: emit_local_address_def emit_store_local_def emit_load_local_def emit_local_address_to_def
      emit_store_local_value_def emit_truncate_char_def emit_operand_def Let_def regs_ok_def emit_load_local_value_def)

lemmas statement_regs = tree_lines_regs local_lines_regs assign_lines_def through_lines_def element_lines_def member_lines_def
  test_lines_def

lemma assign_lines_regs: "tree_fits prog 2 t \<Longrightarrow> list_all regs_ok (assign_lines prog i t)"
  by (simp add: statement_regs)

lemma stmt_lines_regs:
  "stmt_ok prog b s \<Longrightarrow> list_all regs_ok (fst (stmt_lines prog epi ctx n s))"
  "list_all (stmt_ok prog b) ss \<Longrightarrow> list_all regs_ok (fst (seq_lines prog epi ctx n ss))"
proof (induction prog epi ctx n s and prog epi ctx n ss arbitrary: b and b rule: stmt_lines_seq_lines.induct)
qed (auto simp: statement_regs regs_ok_def Let_def split: prod.splits option.splits)

lemma emit_parameters_regs: "i + n \<le> 16 \<Longrightarrow> list_all regs_ok (emit_parameters prog i n)"
  by (induction n arbitrary: i) (auto simp: local_lines_regs regs_ok_def)

lemma init_lines_regs: "list_all (pred_option (tree_fits prog 2)) is \<Longrightarrow> list_all regs_ok (init_lines prog i is)"
  by (induction prog i "is" rule: init_lines.induct) (auto simp: assign_lines_regs local_comment_def regs_ok_def)

lemma function_lines_regs:
  assumes "function_ok prog f"
  shows "list_all regs_ok (fst (function_lines prog n f))"
proof -
  note f = assms [unfolded function_ok_def frame_ok_def]
  have "list_all regs_ok (prologue_lines prog f)"
    using f by (auto simp: prologue_lines_def emit_parameters_regs init_lines_regs regs_ok_def)
  moreover have "list_all regs_ok (result_lines prog f)"
    using f by (auto simp: result_lines_def regs_ok_def tree_lines_regs split: option.splits)
  moreover have "list_all regs_ok (fst (seq_lines prog (epilogue_of prog) None n (ft_body f)))"
    using f stmt_lines_regs(2) by blast
  ultimately show ?thesis
    by (auto simp: function_lines_def leave_lines_def regs_ok_def split: prod.splits)
qed

text \<open>The last instruction takes the return address from the stack.\<close>

lemma ret_executes:
  assumes m: "placed lab ls base (j, (r, ram)) m" and at: "has_at ls j [Ret]"
    and ret: "load_value False ram (r 15) = Some ret"
  shows "\<exists>m'. t32_step m = (STEP_OK, m') \<and> pc m' = ret \<and> cpu_of m' = (r(15 := r 15 + 4), ram)"
proof -
  have j: "j < length ls" "ls ! j = Ret" using at by (simp_all add: has_at_Cons)
  have code_: "at_code m (insn OP_RET 0 0 0 @ [])" using placed_at_code [OF m j(1)] j(2) by simp
  have c: "registers m ! 15 = r 15" "memory m = ram" "length (registers m) = 16" "machine_wf m"
    using m by (auto simp: placed_def cpu_of_def loaded_def machine_wf_def)
  have "ram_access (fetched m) (registers (fetched m) ! T32_STACK_POINTER) 4"
    using ret c by (auto simp: load_value_def ram_access_def ram_range_def machine_wf_def width_def split: if_splits)
  from stack_pop_ram [OF this] at_code_step [OF code_] c ret m show ?thesis
    by (auto simp: exec_RET_def load_value_def cpu_of_def fun_eq_iff placed_def split: if_splits)
qed

lemma function_on_machine:
  assumes f: "function_ok prog f" and ls: "linked lab ls base" "list_all regs_ok ls"
    and m: "placed lab ls base (i, (r, ram)) m" "has_at ls i (fst (function_lines prog n f))"
    and v: "call_function \<lparr>fr_prog = prog, fr_labels = lab, fr_base = r 15 - frame_size prog, fr_text = text_of lab ls base\<rparr> k f r ram
      = Some (v, ram')"
    and ret: "load_value False ram' (r 15) = Some ret"
  shows "\<exists>m'. vm_steps m m' \<and> pc m' = ret \<and> registers m' ! 0 = v \<and> registers m' ! 15 = r 15 + 4 \<and> memory m' = ram'"
proof -
  let ?F = "\<lparr>fr_prog = prog, fr_labels = lab, fr_base = r 15 - frame_size prog, fr_text = text_of lab ls base\<rparr>"
  obtain r' j where r': "has_at ls j [Ret]" "r' 15 = r 15" "r' 0 = v"
      "asm_steps lab (text_of lab ls base) ls (i, (r, ram)) (j, (r', ram'))"
    using function_flow [where F = ?F and r = r, OF _ _ v] f m(2) by (auto; blast)
  obtain m1 where m1: "vm_steps m m1" "placed lab ls base (j, (r', ram')) m1"
    using steps_execute [OF r'(4) m(1) ls] by blast
  obtain m' where m': "t32_step m1 = (STEP_OK, m')" "pc m' = ret" "cpu_of m' = (r'(15 := r' 15 + 4), ram')"
    using ret_executes [OF m1(2) r'(1)] ret r'(2) by auto
  have "vm_steps m m'" using m1(1) vm_steps_step [OF m'(1) vm_steps_refl] by (rule vm_steps_trans)
  moreover have "registers m' ! 0 = v" "registers m' ! 15 = r 15 + 4" "memory m' = ram'"
    using m'(3) r'(2,3) by (auto simp: cpu_of_def fun_eq_iff)
  ultimately show ?thesis using m'(2) by blast
qed

end
