(* ===== verification/T32_Parse_Stmt_Laws.thy ===== *)
theory T32_Parse_Stmt_Laws
  imports T32_Grammar T32_Function_Laws
begin

text \<open>
  Laws of the statement parser. \<open>contract\<close> says what a parser function does for its caller: the fuel
  suffices, and a result comes with an invariant of the state and a relation to the state before. The
  locale \<open>parser_level\<close> has the laws of the steps that all levels above expressions share. Statements
  are one level, with the invariant that every entry of their table is well-formed (\<open>statements_ok\<close>).
\<close>

section \<open>Contracts\<close>

text \<open>What reading tokens and expressions changes.\<close>

definition quiet :: "pstate \<Rightarrow> pstate \<Rightarrow> bool" where
  "quiet s s' \<longleftrightarrow> settled s' \<and> cp_program s' = cp_program s \<and> cp_structs s' = cp_structs s
     \<and> source_of s' = source_of s \<and> cp_fuel_out s' = cp_fuel_out s \<and> left_tokens s' \<le> left_tokens s"

text \<open>The same, and some token was read.\<close>

definition passes :: "pstate \<Rightarrow> pstate \<Rightarrow> bool" where
  "passes s s' \<longleftrightarrow> quiet s s' \<and> left_tokens s' < left_tokens s"

lemma quiet_trans: "quiet s s' \<Longrightarrow> quiet s' s'' \<Longrightarrow> quiet s s''"
  by (simp add: quiet_def)

lemma passes_trans:
  "passes s s' \<Longrightarrow> quiet s' s'' \<Longrightarrow> passes s s''" "quiet s s' \<Longrightarrow> passes s' s'' \<Longrightarrow> passes s s''"
  by (auto simp: passes_def quiet_def)

lemma passes_quiet: "passes s s' \<Longrightarrow> quiet s s'"
  by (simp add: passes_def)

definition contract :: "(pstate \<Rightarrow> bool) \<Rightarrow> (pstate \<Rightarrow> pstate \<Rightarrow> bool) \<Rightarrow> pstate \<Rightarrow> ('a \<Rightarrow> pstate \<Rightarrow> bool) \<Rightarrow> 'a option \<times> pstate \<Rightarrow> bool" where
  "contract good step s Q r = (case r of (None, s') \<Rightarrow> cp_fuel_out s' = cp_fuel_out s
     | (Some x, s') \<Rightarrow> good s' \<and> step s s' \<and> Q x s')"

lemma contract_simps [simp]:
  "contract good step s Q (None, s') \<longleftrightarrow> cp_fuel_out s' = cp_fuel_out s"
  "contract good step s Q (Some x, s') \<longleftrightarrow> good s' \<and> step s s' \<and> Q x s'"
  "contract good step s Q (fail m s') \<longleftrightarrow> cp_fuel_out s' = cp_fuel_out s"
  by (simp_all add: contract_def fail_def)

text \<open>Expressions that the parser has checked: the table holds a well-typed tree.\<close>

definition sound_expression :: "program_t \<Rightarrow> expression_t \<Rightarrow> bool" where
  "sound_expression prog e \<longleftrightarrow> (\<exists>t. holds prog e t \<and> well_typed prog t)"

lemma expression_run:
  assumes "ready s"
  shows "case parse_expression s of (None, s') \<Rightarrow> cp_fuel_out s' = cp_fuel_out s
    | (Some e, s') \<Rightarrow> quiet s s' \<and> sound_expression (cp_program s) e"
proof (cases "parse_expression s")
  case (Pair r s')
  show ?thesis
  proof (cases r)
    case None
    then show ?thesis using parse_expression_fuel [OF assms] Pair by simp
  next
    case (Some e)
    with Pair have run: "parse_expression s = (Some e, s')" by simp
    obtain ts t n where t: "ex_root e = Some n" "denotes e n t" "table_ok (cp_program s) e"
      "phrase (scope_of s) Equality (cp_next_string s) ts t (cp_next_string s')"
      "ready s'" "cp_program s' = cp_program s" "scope_of s' = scope_of s" "left_tokens s' \<le> left_tokens s"
      by (rule parse_expression_sound [OF assms run])
    have "well_typed (cp_program s) t" using phrase_well_typed(1) [OF t(4)] by (simp add: scope_of_def)
    moreover have "cp_fuel_out s' = cp_fuel_out s" using parse_expression_fuel [OF assms] run by simp
    ultimately show ?thesis using t Pair Some
      by (auto simp: quiet_def sound_expression_def holds_def ready_def scope_of_def)
  qed
qed

text \<open>A token that can be passed.\<close>

lemma advance_passes: "settled s \<Longrightarrow> solid (current_kind s) \<Longrightarrow> passes s (advance s)"
  using left_advance [of s] settled_advance [of s] by (simp add: passes_def quiet_def)

lemma current_is_kind: "current_is w s \<Longrightarrow> current_kind s = TOK_IDENTIFIER"
  by (simp add: current_is_def token_is_identifier_def current_kind_def)

lemma current_is_solid: "current_is w s \<Longrightarrow> solid (current_kind s)"
  using current_is_kind by (simp add: solid_def)

text \<open>The laws of a level: its invariant and its steps allow quiet changes.\<close>

locale parser_level =
  fixes good :: "pstate \<Rightarrow> bool" and step :: "pstate \<Rightarrow> pstate \<Rightarrow> bool"
  assumes step_trans: "step s s' \<Longrightarrow> step s' s'' \<Longrightarrow> step s s''"
    and step_fuel: "step s s' \<Longrightarrow> cp_fuel_out s' = cp_fuel_out s"
    and quiet_good: "good s \<Longrightarrow> quiet s s' \<Longrightarrow> good s'"
    and quiet_step: "good s \<Longrightarrow> quiet s s' \<Longrightarrow> step s s'"
    and good_ready: "good s \<Longrightarrow> ready s"
begin

lemma good_settled: "good s \<Longrightarrow> settled s"
  using good_ready by (simp add: ready_def)

lemma step_refl: "good s \<Longrightarrow> step s s"
  using quiet_step [of s s] good_settled by (simp add: quiet_def)

lemma bind:
  assumes "contract good step s Q r" "\<And>x s'. good s' \<Longrightarrow> step s s' \<Longrightarrow> Q x s' \<Longrightarrow> contract good step s' Q' (f x s')"
  shows "contract good step s Q' (and_then r f)"
proof (cases "fst r")
  case None
  then show ?thesis using assms(1) by (cases r) (auto simp: and_then_def)
next
  case (Some x)
  then have c: "good (snd r)" "step s (snd r)" "Q x (snd r)" using assms(1) by (cases r, simp)+
  from assms(2) [OF c] c(2) Some show ?thesis
    by (cases r; cases "fst (f x (snd r))"; cases "f x (snd r)") (auto simp: and_then_def dest: step_fuel step_trans)
qed

lemma mono:
  "contract good step s Q r \<Longrightarrow> (\<And>x s'. good s' \<Longrightarrow> step s s' \<Longrightarrow> Q x s' \<Longrightarrow> Q' x s') \<Longrightarrow> contract good step s Q' r"
  by (auto simp: contract_def split: prod.splits option.splits)

lemma after: "step s s' \<Longrightarrow> contract good step s' Q r \<Longrightarrow> contract good step s Q r"
  by (auto simp: contract_def dest: step_fuel step_trans split: prod.splits option.splits)

lemma after_quiet: "good s \<Longrightarrow> quiet s s' \<Longrightarrow> contract good step s' Q r \<Longrightarrow> contract good step s Q r"
  using after quiet_step by blast

lemma expects:
  assumes "good s" "solid kind"
  shows "contract good step s (\<lambda>_ s'. passes s s') (expect kind d s)"
proof (cases "current_kind s = kind")
  case True
  then have p: "passes s (advance s)" using advance_passes good_settled assms by simp
  then show ?thesis using True quiet_good quiet_step assms(1)
    by (auto simp: expect_def parser_expect_kind_def Let_def advance_def current_kind_def current_token_def dest: passes_quiet)
qed (simp add: expect_def parser_expect_kind_def current_kind_def current_token_def)

lemma expects_word:
  assumes "good s"
  shows "contract good step s (\<lambda>_ s'. passes s s') (expect_word w s)"
proof (cases "current_is w s")
  case True
  then have p: "passes s (advance s)" using advance_passes good_settled assms current_is_solid by simp
  then show ?thesis using True quiet_good quiet_step assms(1)
    by (auto simp: expect_word_def parser_expect_word_def Let_def advance_def current_is_def current_token_def source_of_def
        dest: passes_quiet)
qed (auto simp: expect_word_def parser_expect_word_def current_is_def current_token_def source_of_def Let_def)

lemma expression:
  assumes "good s"
  shows "contract good step s (\<lambda>e s'. quiet s s' \<and> sound_expression (cp_program s) e) (parse_expression s)"
  using expression_run [OF good_ready [OF assms]] quiet_good [OF assms] quiet_step [OF assms]
  by (auto simp: contract_def split: prod.splits option.splits)

lemma next_token:
  assumes "good s" "solid (current_kind s)"
  shows "good (advance s)" "step s (advance s)" "passes s (advance s)"
  using advance_passes [OF good_settled assms(2)] assms quiet_good quiet_step passes_quiet by auto

lemma look_ahead:
  assumes "good s" "next_is k s = (b, s')"
  shows "good s'" "step s s'" "quiet s s'" "current_kind s' = current_kind s"
proof -
  have "settled s" using good_settled assms(1) by simp
  then show "quiet s s'" "current_kind s' = current_kind s" using next_is_fields [OF assms(2)]
    by (auto simp: quiet_def settled_def current_kind_def left_tokens_def)
  then show "good s'" "step s s'" using quiet_good quiet_step assms(1) by auto
qed

end

section \<open>Statements\<close>

text \<open>More local variables leave expressions as they are.\<close>

lemma extends_locals: "extends prog prog' \<Longrightarrow> i < length (pr_locals prog) \<Longrightarrow>
    i < length (pr_locals prog') \<and> pr_locals prog' ! i = pr_locals prog ! i"
  by (auto simp: extends_def nth_append)

lemma node_ok_extends: "extends prog prog' \<Longrightarrow> node_ok prog i nd \<Longrightarrow> node_ok prog' i nd"
  using extends_locals [of prog prog'] by (auto simp: node_ok_def local_ok_def split: expression_kind_t.splits)

lemma tree_type_extends: "extends prog prog' \<Longrightarrow> well_typed prog t \<Longrightarrow> tree_type prog' t = tree_type prog t"
  by (induction t) (auto simp: extends_locals Let_def)

lemma well_typed_extends: "extends prog prog' \<Longrightarrow> well_typed prog t \<Longrightarrow> well_typed prog' t"
  using extends_locals [of prog prog'] by (induction t) (auto simp: list_all_iff sum_scale_def tree_type_extends)

lemma sound_extends: "extends prog prog' \<Longrightarrow> sound_expression prog e \<Longrightarrow> sound_expression prog' e"
  using node_ok_extends well_typed_extends
  unfolding sound_expression_def holds_def table_ok_def list_all_iff by blast

text \<open>What the parser guarantees of an entry of the table of statements: its variables exist and have the
  types that the statement needs, its expressions are sound, and its links lead forward.\<close>

definition has_local :: "program_t \<Rightarrow> (local_t \<Rightarrow> bool) \<Rightarrow> nat option \<Rightarrow> bool" where
  "has_local prog P v \<longleftrightarrow> (\<exists>i. v = Some i \<and> i < length (pr_locals prog) \<and> P (pr_locals prog ! i))"

definition assignable :: "local_t \<Rightarrow> bool" where
  "assignable l \<longleftrightarrow> \<not> lc_is_array l \<and> \<not> (lc_is_struct l \<and> \<not> lc_is_pointer l)"

definition parts_ok :: "program_t \<Rightarrow> statement_t \<Rightarrow> bool" where
  "parts_ok prog st =
     (case st_kind st of
        STMT_ASSIGN \<Rightarrow> has_local prog assignable (st_target_local st) \<and> sound_expression prog (st_expression st)
      | STMT_STORE_INDIRECT \<Rightarrow> has_local prog lc_is_pointer (st_pointer_local st) \<and> sound_expression prog (st_expression st)
      | STMT_STORE_ARRAY \<Rightarrow> has_local prog lc_is_array (st_array_local st) \<and> sound_expression prog (st_array_index st)
          \<and> sound_expression prog (st_expression st)
      | STMT_STORE_MEMBER \<Rightarrow> has_local prog (\<lambda>l. lc_is_struct l \<and> lc_is_pointer l = st_member_through_pointer st) (st_member_local st)
          \<and> sound_expression prog (st_expression st)
      | STMT_FOR \<Rightarrow> has_local prog (\<lambda>l. True) (st_for_init_local st) \<and> sound_expression prog (st_for_init st)
          \<and> sound_expression prog (st_expression st)
          \<and> has_local prog (\<lambda>l. True) (st_for_update_local st) \<and> sound_expression prog (st_for_update st)
      | STMT_BREAK \<Rightarrow> True | STMT_CONTINUE \<Rightarrow> True
      | _ \<Rightarrow> sound_expression prog (st_expression st))"

definition later :: "nat \<Rightarrow> nat \<Rightarrow> nat option \<Rightarrow> bool" where
  "later n i link \<longleftrightarrow> (\<forall>j. link = Some j \<longrightarrow> i < j \<and> j < n)"

definition links_ok :: "nat \<Rightarrow> nat \<Rightarrow> statement_t \<Rightarrow> bool" where
  "links_ok n i st \<longleftrightarrow> later n i (st_then_first st) \<and> later n i (st_else_first st) \<and> later n i (st_next st)"

definition statements_ok :: "program_t \<Rightarrow> bool" where
  "statements_ok prog \<longleftrightarrow> length (pr_statements prog) \<le> MAX_STATEMENTS
     \<and> (\<forall>i<length (pr_statements prog). parts_ok prog (pr_statements prog ! i)
         \<and> links_ok (length (pr_statements prog)) i (pr_statements prog ! i))"

lemma later_None [simp]: "later n i None"
  by (simp add: later_def)

lemma later_mono: "later n i link \<Longrightarrow> n \<le> m \<Longrightarrow> later m i link"
  by (auto simp: later_def)

lemma links_ok_mono: "links_ok n i st \<Longrightarrow> n \<le> m \<Longrightarrow> links_ok m i st"
  by (auto simp: links_ok_def intro: later_mono)

text \<open>Parts depend on the local variables only.\<close>

lemma sound_statements [simp]: "sound_expression (prog\<lparr>pr_statements := sts\<rparr>) e = sound_expression prog e"
  using sound_extends [of prog "prog\<lparr>pr_statements := sts\<rparr>" e] sound_extends [of "prog\<lparr>pr_statements := sts\<rparr>" prog e]
  by (auto simp: extends_def)

lemma parts_statements [simp]: "parts_ok (prog\<lparr>pr_statements := sts\<rparr>) st = parts_ok prog st"
  by (simp add: parts_ok_def has_local_def split: statement_kind_t.split)

text \<open>The level of statements: only the table of statements changes, and it grows.\<close>

definition stmt_good :: "pstate \<Rightarrow> bool" where
  "stmt_good s \<longleftrightarrow> ready s \<and> statements_ok (cp_program s)"

abbreviation (input) count_of :: "pstate \<Rightarrow> nat" where "count_of s \<equiv> length (pr_statements (cp_program s))"

definition stmt_step :: "pstate \<Rightarrow> pstate \<Rightarrow> bool" where
  "stmt_step s s' \<longleftrightarrow> (\<exists>sts. cp_program s' = (cp_program s)\<lparr>pr_statements := sts\<rparr> \<and> count_of s \<le> length sts)
     \<and> cp_structs s' = cp_structs s \<and> source_of s' = source_of s \<and> cp_fuel_out s' = cp_fuel_out s
     \<and> left_tokens s' \<le> left_tokens s"

interpretation body: parser_level stmt_good stmt_step
proof unfold_locales
  fix s s' s''
  show "stmt_step s s' \<Longrightarrow> stmt_step s' s'' \<Longrightarrow> stmt_step s s''" by (auto simp: stmt_step_def)
  show "stmt_good s \<Longrightarrow> quiet s s' \<Longrightarrow> stmt_step s s'"
    by (auto simp: quiet_def stmt_step_def intro!: exI [of _ "pr_statements (cp_program s)"])
qed (auto simp: stmt_good_def stmt_step_def quiet_def ready_def)

abbreviation (input) "stmt_contract \<equiv> contract stmt_good stmt_step"

lemma step_sound: "stmt_step s s' \<Longrightarrow> sound_expression (cp_program s') e = sound_expression (cp_program s) e"
  by (auto simp: stmt_step_def)

text \<open>A statement that has been read: some token was passed, and it has a new entry.\<close>

definition new_statement :: "pstate \<Rightarrow> nat \<Rightarrow> pstate \<Rightarrow> bool" where
  "new_statement s i s' \<longleftrightarrow> left_tokens s' < left_tokens s \<and> count_of s \<le> i \<and> i < count_of s'"

lemma add_contract:
  assumes s: "stmt_good s" and st: "parts_ok (cp_program s) st" "st_then_first st = None" "st_else_first st = None" "st_next st = None"
  shows "stmt_contract s (\<lambda>i s'. i = count_of s \<and> count_of s' = Suc i \<and> left_tokens s' = left_tokens s
    \<and> ps_failed (cp_parser s') = ps_failed (cp_parser s)) (statement_add st s)"
  using assms
  by (auto simp: statement_add_def Let_def set_program_def stmt_good_def stmt_step_def ready_def settled_def current_kind_def
      current_token_def left_tokens_def source_of_def statements_ok_def nth_append links_ok_def less_Suc_eq intro: later_mono)

text \<open>Setting a link to a later entry.\<close>

lemma set_statement_good:
  assumes s: "stmt_good s" and f: "\<And>st. parts_ok (cp_program s) st \<Longrightarrow> parts_ok (cp_program s) (f st)"
      "\<And>st. i < count_of s \<Longrightarrow> links_ok (count_of s) i st \<Longrightarrow> links_ok (count_of s) i (f st)"
  shows "stmt_good (set_statement i f s) \<and> stmt_step s (set_statement i f s) \<and> left_tokens (set_statement i f s) = left_tokens s
    \<and> count_of (set_statement i f s) = count_of s"
proof -
  let ?sts = "pr_statements (cp_program s)"
  have "parts_ok (cp_program s) (?sts[i := f (?sts ! i)] ! j) \<and> links_ok (count_of s) j (?sts[i := f (?sts ! i)] ! j)"
    if "j < count_of s" for j
    using s f that by (cases "j = i") (auto simp: stmt_good_def statements_ok_def)
  then show ?thesis using s
    by (auto simp: set_statement_def set_program_def stmt_good_def stmt_step_def ready_def settled_def current_kind_def
        current_token_def left_tokens_def source_of_def statements_ok_def intro!: exI [of _ "?sts[i := f (?sts ! i)]"])
qed

lemma set_link:
  assumes "stmt_good s" "later (count_of s) i link"
  shows "stmt_good (set_statement i (\<lambda>st. st\<lparr>st_then_first := link\<rparr>) s) \<and> stmt_step s (set_statement i (\<lambda>st. st\<lparr>st_then_first := link\<rparr>) s)
      \<and> left_tokens (set_statement i (\<lambda>st. st\<lparr>st_then_first := link\<rparr>) s) = left_tokens s
      \<and> count_of (set_statement i (\<lambda>st. st\<lparr>st_then_first := link\<rparr>) s) = count_of s"
    "stmt_good (set_statement i (\<lambda>st. st\<lparr>st_else_first := link\<rparr>) s) \<and> stmt_step s (set_statement i (\<lambda>st. st\<lparr>st_else_first := link\<rparr>) s)
      \<and> left_tokens (set_statement i (\<lambda>st. st\<lparr>st_else_first := link\<rparr>) s) = left_tokens s
      \<and> count_of (set_statement i (\<lambda>st. st\<lparr>st_else_first := link\<rparr>) s) = count_of s"
    "stmt_good (set_statement i (\<lambda>st. st\<lparr>st_next := link\<rparr>) s) \<and> stmt_step s (set_statement i (\<lambda>st. st\<lparr>st_next := link\<rparr>) s)
      \<and> left_tokens (set_statement i (\<lambda>st. st\<lparr>st_next := link\<rparr>) s) = left_tokens s
      \<and> count_of (set_statement i (\<lambda>st. st\<lparr>st_next := link\<rparr>) s) = count_of s"
  by (rule set_statement_good [OF assms(1)];
      use assms(2) in \<open>simp add: parts_ok_def links_ok_def cong: statement_kind_t.case_cong\<close>)+

lemma loop_depth_fields:
  "stmt_good (set_loop_depth f s) = stmt_good s" "left_tokens (set_loop_depth f s) = left_tokens s"
  "cp_program (set_loop_depth f s) = cp_program s" "stmt_step s' (set_loop_depth f s) = stmt_step s' s"
  "stmt_step (set_loop_depth f s) s' = stmt_step s s'" "cp_fuel_out (set_loop_depth f s) = cp_fuel_out s"
  by (simp_all add: set_loop_depth_def stmt_good_def stmt_step_def ready_def settled_def current_kind_def
      current_token_def left_tokens_def source_of_def)

subsection \<open>Simple statements\<close>

definition unlinked :: "statement_t \<Rightarrow> bool" where
  "unlinked st \<longleftrightarrow> st_then_first st = None \<and> st_else_first st = None \<and> st_next st = None"

lemma zero_unlinked [simp]:
  "st_then_first zero_statement = None" "st_else_first zero_statement = None" "st_next zero_statement = None"
  by (simp_all add: zero_statement_def)

lemma finish_statement_contract:
  assumes "stmt_good s" "parts_ok (cp_program s) st" "unlinked st"
  shows "stmt_contract s (new_statement s) (finish_statement st s)"
  unfolding finish_statement_def
proof (rule body.bind [OF body.expects [OF assms(1)]])
  fix x :: unit and s1 assume s1: "stmt_good s1" "passes s s1"
  show "stmt_contract s1 (new_statement s) (statement_add st s1)"
    by (rule body.mono [OF add_contract [OF s1(1)]])
      (use s1 assms in \<open>auto simp: new_statement_def passes_def quiet_def unlinked_def\<close>)
qed (simp add: solid_def)

lemma finish_expression_contract:
  assumes "stmt_good s" "\<And>e. sound_expression (cp_program s) e \<Longrightarrow> parts_ok (cp_program s) (stmt e) \<and> unlinked (stmt e)"
  shows "stmt_contract s (new_statement s) (finish_expression stmt s)"
  unfolding finish_expression_def
proof (rule body.bind [OF body.expression [OF assms(1)]])
  fix e s1 assume s1: "stmt_good s1" "quiet s s1 \<and> sound_expression (cp_program s) e"
  show "stmt_contract s1 (new_statement s) (finish_statement (stmt e) s1)"
    by (rule body.mono [OF finish_statement_contract [OF s1(1)]])
      (use s1(2) assms(2) in \<open>auto simp: new_statement_def quiet_def\<close>)
qed

text \<open>A statement that is read behind some tokens.\<close>

lemma new_statement_behind:
  assumes "stmt_good s" "quiet s s1" "stmt_contract s1 (new_statement s1) r"
  shows "stmt_contract s (new_statement s) r"
  by (rule body.after_quiet [OF assms(1,2) body.mono [OF assms(3)]])
    (use assms(2) in \<open>auto simp: new_statement_def quiet_def\<close>)

lemma find_has_local:
  "find_local s t = Some i \<Longrightarrow> P (local_at s i) \<Longrightarrow> has_local (cp_program s) P (Some i)"
  using find_local_less by (auto simp: has_local_def local_at_def)

lemma expects_then:
  assumes "stmt_good s" "solid kind" "\<And>s1. stmt_good s1 \<Longrightarrow> passes s s1 \<Longrightarrow> stmt_contract s1 (new_statement s1) (f s1)"
  shows "stmt_contract s (new_statement s) (and_then (expect kind d s) (\<lambda>_ s1. f s1))"
proof (rule body.bind [OF body.expects [OF assms(1,2)]])
  fix x :: unit and s1 assume s1: "stmt_good s1" "passes s s1"
  show "stmt_contract s1 (new_statement s) (f s1)"
    by (rule body.mono [OF assms(3) [OF s1]]) (use s1(2) in \<open>auto simp: new_statement_def passes_def quiet_def\<close>)
qed

lemma expression_then:
  assumes "stmt_good s" "\<And>e s1. stmt_good s1 \<Longrightarrow> quiet s s1 \<Longrightarrow> sound_expression (cp_program s) e \<Longrightarrow> stmt_contract s1 (new_statement s1) (f e s1)"
  shows "stmt_contract s (new_statement s) (and_then (parse_expression s) f)"
proof (rule body.bind [OF body.expression [OF assms(1)]])
  fix e s1 assume s1: "stmt_good s1" "quiet s s1 \<and> sound_expression (cp_program s) e"
  show "stmt_contract s1 (new_statement s) (f e s1)"
    by (rule body.mono [OF assms(2)]) (use s1 in \<open>auto simp: new_statement_def quiet_def\<close>)
qed

lemma solid_punctuation [simp]:
  "solid TOK_IDENTIFIER" "solid TOK_STAR" "solid TOK_ASSIGN" "solid TOK_SEMICOLON" "solid TOK_LPAREN" "solid TOK_RPAREN"
  "solid TOK_LBRACE" "solid TOK_RBRACE" "solid TOK_LBRACKET" "solid TOK_RBRACKET" "solid TOK_ARROW" "solid TOK_DOT"
  "solid TOK_COMMA" "solid TOK_INTEGER"
  by (simp_all add: solid_def)

lemma jump_contract:
  assumes "stmt_good s" "solid (current_kind s)" "kind \<in> {STMT_BREAK, STMT_CONTINUE}"
  shows "stmt_contract s (new_statement s) (parse_jump w kind s)"
proof -
  note t = body.next_token [OF assms(1,2)]
  have "stmt_contract s (new_statement s) (finish_statement (zero_statement\<lparr>st_kind := kind\<rparr>) (advance s))"
    by (rule new_statement_behind [OF assms(1) passes_quiet [OF t(3)] finish_statement_contract [OF t(1)]])
      (use assms(3) in \<open>auto simp: parts_ok_def unlinked_def\<close>)
  then show ?thesis by (simp add: parse_jump_def)
qed

lemma indirect_contract:
  assumes "stmt_good s" "solid (current_kind s)"
  shows "stmt_contract s (new_statement s) (parse_store_indirect s)"
proof -
  note t = body.next_token [OF assms]
  have "stmt_contract s (new_statement s) (and_then (expect TOK_ASSIGN (in_quotes ''='') (advance (advance s))) (\<lambda>_ s2.
      finish_expression (\<lambda>e. zero_statement\<lparr>st_kind := STMT_STORE_INDIRECT, st_pointer_local := Some i, st_expression := e\<rparr>) s2))"
    if k: "current_kind (advance s) = TOK_IDENTIFIER"
      and i: "find_local (advance s) (current_token (advance s)) = Some i" "lc_is_pointer (local_at (advance s) i)" for i
  proof -
    have sol: "solid (current_kind (advance s))" using k by simp
    note t2 = body.next_token [OF t(1) sol]
    show ?thesis
      by (rule new_statement_behind [OF assms(1) quiet_trans [OF t(3) [THEN passes_quiet] t2(3) [THEN passes_quiet]]],
          rule expects_then [OF t2(1)], simp, rule finish_expression_contract)
        (use find_has_local [OF i(1), of lc_is_pointer] i(2) in \<open>auto simp: parts_ok_def unlinked_def passes_def quiet_def\<close>)
  qed
  then show ?thesis by (auto simp: parse_store_indirect_def Let_def split: option.split)
qed

lemma two_tokens:
  assumes "stmt_good s" "solid (current_kind s)" "solid (current_kind (advance s))"
  shows "stmt_good (advance (advance s))" "quiet s (advance (advance s))"
  using body.next_token [OF assms(1,2)] body.next_token [OF _ assms(3)] quiet_trans passes_quiet by blast+

lemma member_contract:
  assumes "stmt_good s" "current_kind s = TOK_IDENTIFIER" "solid (current_kind (advance s))"
  shows "stmt_contract s (new_statement s) (parse_store_member b s)"
proof -
  have sol: "solid (current_kind s)" using assms(2) by simp
  let ?s1 = "advance (advance s)"
  note t = two_tokens [OF assms(1) sol assms(3)]
  have store: "stmt_contract s (new_statement s) (and_then (expect TOK_ASSIGN (in_quotes ''='') (advance ?s1)) (\<lambda>_ s2.
      finish_expression (\<lambda>e. zero_statement\<lparr>st_kind := STMT_STORE_MEMBER, st_member_local := Some i,
        st_member_through_pointer := c, st_member_offset := sm_offset m, st_member_is_char := sm_is_char m, st_expression := e\<rparr>) s2))"
    if k: "current_kind ?s1 = TOK_IDENTIFIER"
      and i: "find_local s (current_token s) = Some i" "lc_is_struct (local_at s i)" "lc_is_pointer (local_at s i) = c" for i m c
  proof -
    have sol: "solid (current_kind ?s1)" using k by simp
    note t2 = body.next_token [OF t(1) sol]
    show ?thesis
      by (rule new_statement_behind [OF assms(1) quiet_trans [OF t(2) t2(3) [THEN passes_quiet]]],
          rule expects_then [OF t2(1)], simp, rule finish_expression_contract)
        (use find_has_local [OF i(1), of "\<lambda>l. lc_is_struct l \<and> lc_is_pointer l = c"] i(2,3)
          in \<open>auto simp: parts_ok_def unlinked_def passes_def quiet_def\<close>)
  qed
  show ?thesis by (auto simp: parse_store_member_def Let_def split: option.split intro!: store)
qed

lemma array_contract:
  assumes "stmt_good s" "current_kind s = TOK_IDENTIFIER" "solid (current_kind (advance s))"
  shows "stmt_contract s (new_statement s) (parse_store_array s)"
proof -
  have sol: "solid (current_kind s)" using assms(2) by simp
  note t = two_tokens [OF assms(1) sol assms(3)]
  have "stmt_contract s (new_statement s) (and_then (parse_expression (advance (advance s))) (\<lambda>index s1.
            and_then (expect TOK_RBRACKET (in_quotes '']'') s1) (\<lambda>_ s2.
              and_then (expect TOK_ASSIGN (in_quotes ''='') s2) (\<lambda>_ s3.
                finish_expression (\<lambda>e. zero_statement\<lparr>st_kind := STMT_STORE_ARRAY, st_array_local := Some i,
                  st_array_index := index, st_expression := e\<rparr>) s3))))"
    if i: "find_local s (current_token s) = Some i" "lc_is_array (local_at s i)" for i
    by (rule new_statement_behind [OF assms(1) t(2)], rule expression_then [OF t(1)], rule expects_then, assumption, simp,
        rule expects_then, assumption, simp, rule finish_expression_contract)
      (use find_has_local [OF i(1), of lc_is_array] i(2) t in \<open>auto simp: parts_ok_def unlinked_def passes_def quiet_def\<close>)
  then show ?thesis by (auto simp: parse_store_array_def Let_def split: option.split)
qed

lemma assign_contract:
  assumes "stmt_good s" "current_kind s = TOK_IDENTIFIER"
  shows "stmt_contract s (new_statement s) (parse_assign s)"
proof -
  have sol: "solid (current_kind s)" using assms(2) by simp
  note t = body.next_token [OF assms(1) sol]
  have "stmt_contract s (new_statement s) (and_then (expect TOK_ASSIGN (in_quotes ''='') (advance s)) (\<lambda>_ s1.
      finish_expression (\<lambda>e. zero_statement\<lparr>st_kind := STMT_ASSIGN, st_target_local := Some i, st_expression := e\<rparr>) s1))"
    if i: "find_local s (current_token s) = Some i" "assignable (local_at s i)" for i
    by (rule new_statement_behind [OF assms(1) passes_quiet [OF t(3)]], rule expects_then [OF t(1)], simp,
        rule finish_expression_contract)
      (use find_has_local [where P = assignable, OF i] in \<open>auto simp: parts_ok_def unlinked_def passes_def quiet_def\<close>)
  then show ?thesis by (auto simp: parse_assign_def assignable_def Let_def split: option.split)
qed

lemma simple_contract:
  assumes "stmt_good s"
  shows "stmt_contract s (new_statement s) (parse_simple s)"
proof -
  have k: "current_kind s1 = TOK_IDENTIFIER \<and> solid (current_kind (advance s1))"
    if "stmt_good s0" "next_is kind s0 = (True, s1)" "solid kind" for s0 s1 kind
    using next_is_true [OF that(2) body.good_settled [OF that(1)]] that(3) by simp
  obtain b1 s1 where n1: "next_is TOK_ARROW s = (b1, s1)" by (metis surj_pair)
  obtain b2 s2 where n2: "next_is TOK_DOT s1 = (b2, s2)" by (metis surj_pair)
  obtain b3 s3 where n3: "next_is TOK_LBRACKET s2 = (b3, s3)" by (metis surj_pair)
  obtain b4 s4 where n4: "next_is TOK_ASSIGN s3 = (b4, s4)" by (metis surj_pair)
  note l1 = body.look_ahead [OF assms n1]
  note l2 = body.look_ahead [OF l1(1) n2]
  note l3 = body.look_ahead [OF l2(1) n3]
  note l4 = body.look_ahead [OF l3(1) n4]
  note q2 = quiet_trans [OF l1(3) l2(3)]
  note q3 = quiet_trans [OF q2 l3(3)]
  note q4 = quiet_trans [OF q3 l4(3)]
  have "b1 \<Longrightarrow> stmt_contract s (new_statement s) (parse_store_member True s1)"
    using new_statement_behind [OF assms l1(3) member_contract [OF l1(1)]] k [OF assms] n1 by simp
  moreover have "b2 \<Longrightarrow> stmt_contract s (new_statement s) (parse_store_member False s2)"
    using new_statement_behind [OF assms q2 member_contract [OF l2(1)]] k [OF l1(1)] n2 by simp
  moreover have "b3 \<Longrightarrow> stmt_contract s (new_statement s) (parse_store_array s3)"
    using new_statement_behind [OF assms q3 array_contract [OF l3(1)]] k [OF l2(1)] n3 by simp
  moreover have "b4 \<Longrightarrow> stmt_contract s (new_statement s) (parse_assign s4)"
    using new_statement_behind [OF assms q4 assign_contract [OF l4(1)]] k [OF l3(1)] n4 by simp
  moreover have "stmt_contract s (new_statement s) (finish_expression (\<lambda>e. zero_statement\<lparr>st_kind := STMT_EXPR, st_expression := e\<rparr>) s4)"
    by (rule new_statement_behind [OF assms q4 finish_expression_contract [OF l4(1)]])
      (auto simp: parts_ok_def unlinked_def)
  moreover have "current_kind s = TOK_STAR \<Longrightarrow> stmt_contract s (new_statement s) (parse_store_indirect s)"
    using indirect_contract [OF assms] by simp
  ultimately show ?thesis by (simp add: parse_simple_def n1 n2 n3 n4)
qed

subsection \<open>Statements with bodies\<close>

lemma condition_contract:
  assumes "stmt_good s"
  shows "stmt_contract s (\<lambda>e s'. passes s s' \<and> sound_expression (cp_program s) e) (parse_condition s)"
  unfolding parse_condition_def
proof (rule body.bind [OF body.expects [OF assms]])
  fix x :: unit and s1 assume s1: "stmt_good s1" "passes s s1"
  show "stmt_contract s1 (\<lambda>e s'. passes s s' \<and> sound_expression (cp_program s) e)
      (and_then (parse_expression s1) (\<lambda>e s2. and_then (expect TOK_RPAREN (in_quotes '')'') s2) (\<lambda>_ s3. (Some e, s3))))"
  proof (rule body.bind [OF body.expression [OF s1(1)]])
    fix e s2 assume s2: "stmt_good s2" "quiet s1 s2 \<and> sound_expression (cp_program s1) e"
    show "stmt_contract s2 (\<lambda>e s'. passes s s' \<and> sound_expression (cp_program s) e)
        (and_then (expect TOK_RPAREN (in_quotes '')'') s2) (\<lambda>_ s3. (Some e, s3)))"
      by (rule body.bind [OF body.expects [OF s2(1)]])
        (use s1 s2 in \<open>auto simp: passes_def quiet_def body.step_refl\<close>)
  qed
qed simp

text \<open>A clause of a \<open>for\<close>.\<close>

definition clause_ok :: "program_t \<Rightarrow> nat \<times> expression_t \<Rightarrow> bool" where
  "clause_ok prog c \<longleftrightarrow> has_local prog (\<lambda>l. True) (Some (fst c)) \<and> sound_expression prog (snd c)"

lemma clause_contract:
  assumes "stmt_good s"
  shows "stmt_contract s (\<lambda>c s'. quiet s s' \<and> clause_ok (cp_program s) c) (parse_assignment_clause s)"
proof -
  have "stmt_contract s (\<lambda>c s'. quiet s s' \<and> clause_ok (cp_program s) c)
      (and_then (expect TOK_ASSIGN (in_quotes ''='') (advance s)) (\<lambda>_ s1.
        and_then (parse_expression s1) (\<lambda>e s2. (Some (i, e), s2))))"
    if i: "current_kind s = TOK_IDENTIFIER" "find_local s (current_token s) = Some i" for i
  proof -
    have sol: "solid (current_kind s)" using i(1) by simp
    note t = body.next_token [OF assms sol]
    have v: "has_local (cp_program s) (\<lambda>l. True) (Some i)" using find_has_local [OF i(2)] by simp
    show ?thesis
    proof (rule body.after [OF t(2)], rule body.bind [OF body.expects [OF t(1)]])
      fix x :: unit and s1 assume s1: "stmt_good s1" "passes (advance s) s1"
      show "stmt_contract s1 (\<lambda>c s'. quiet s s' \<and> clause_ok (cp_program s) c)
          (and_then (parse_expression s1) (\<lambda>e s2. (Some (i, e), s2)))"
        by (rule body.bind [OF body.expression [OF s1(1)]])
          (use s1 t v in \<open>auto simp: passes_def quiet_def body.step_refl clause_ok_def\<close>)
    qed simp
  qed
  then show ?thesis by (auto simp: parse_assignment_clause_def split: option.split)
qed

lemma for_head_contract:
  assumes "stmt_good s"
  shows "stmt_contract s (\<lambda>st s'. passes s s' \<and> parts_ok (cp_program s) st \<and> unlinked st) (parse_for_head s)"
  unfolding parse_for_head_def
  apply (rule body.bind [OF body.expects [OF assms]], simp)
  subgoal for _ s1
    apply (rule body.bind [OF clause_contract], assumption)
    subgoal for init s2
      apply (rule body.bind [OF body.expects], assumption, simp)
      subgoal for _ s3
        apply (rule body.bind [OF body.expression], assumption)
        subgoal for e s4
          apply (rule body.bind [OF body.expects], assumption, simp)
          subgoal for _ s5
            apply (rule body.bind [OF clause_contract], assumption)
            subgoal for update s6
              by (rule body.bind [OF body.expects], assumption, simp)
                (auto simp: passes_def quiet_def body.step_refl clause_ok_def parts_ok_def unlinked_def)
            done
          done
        done
      done
    done
  done

text \<open>A body: the link to its first statement.\<close>

definition body_read :: "nat \<Rightarrow> pstate \<Rightarrow> nat option \<Rightarrow> pstate \<Rightarrow> bool" where
  "body_read n s link s' \<longleftrightarrow> left_tokens s' \<le> left_tokens s \<and> n \<le> count_of s' \<and> (\<forall>j. link = Some j \<longrightarrow> n \<le> j \<and> j < count_of s')"

lemma loop_contract:
  assumes "stmt_good s" "i < count_of s" "\<And>s. stmt_good s \<Longrightarrow> left_tokens s \<le> n \<Longrightarrow> stmt_contract s (body_read (count_of s) s) (body s)"
    and "left_tokens s \<le> n"
  shows "stmt_contract s (\<lambda>j s'. j = i \<and> left_tokens s' \<le> left_tokens s \<and> count_of s \<le> count_of s') (loop_body body i s)"
proof -
  have c: "stmt_contract (set_loop_depth Suc s) (body_read (count_of s) s) (body (set_loop_depth Suc s))"
    using assms(3) [of "set_loop_depth Suc s"] assms(1,4) by (simp add: loop_depth_fields body_read_def [abs_def])
  show ?thesis
  proof (cases "body (set_loop_depth Suc s)")
    case (Pair r s1)
    show ?thesis
    proof (cases r)
      case None
      then show ?thesis using c Pair by (simp add: loop_body_def loop_depth_fields)
    next
      case (Some link)
      then have s1: "stmt_good s1" "stmt_step s s1" "body_read (count_of s) s link s1"
        using c Pair by (simp_all add: loop_depth_fields)
      have "later (count_of s1) i link" using s1(3) assms(2) by (auto simp: body_read_def later_def)
      from set_link(1) [OF s1(1) this] show ?thesis using s1 Pair Some body.step_trans [OF s1(2)]
        by (auto simp: loop_body_def loop_depth_fields body_read_def)
    qed
  qed
qed

lemma conditional_contract:
  assumes s: "stmt_good s" "i < count_of s" "left_tokens s \<le> n"
    and block: "\<And>s. stmt_good s \<Longrightarrow> left_tokens s \<le> n \<Longrightarrow> stmt_contract s (body_read (count_of s) s) (block s)"
  shows "stmt_contract s (\<lambda>j s'. j = i \<and> left_tokens s' \<le> left_tokens s \<and> count_of s \<le> count_of s')
    (and_then (block s) (\<lambda>first s3.
       let s4 = set_statement i (\<lambda>st. st\<lparr>st_then_first := first\<rparr>) s3 in
       if current_is w_else s4 then
         and_then (block (advance s4)) (\<lambda>else_first s5.
           (Some i, set_statement i (\<lambda>st. st\<lparr>st_else_first := else_first\<rparr>) s5))
       else (Some i, s4)))"
proof (rule body.bind [OF block [OF s(1,3)]])
  fix first s3 assume s3: "stmt_good s3" "stmt_step s s3" "body_read (count_of s) s first s3"
  let ?s4 = "set_statement i (\<lambda>st. st\<lparr>st_then_first := first\<rparr>) s3"
  have "later (count_of s3) i first" using s3(3) s(2) by (auto simp: body_read_def later_def)
  note s4 = set_link(1) [OF s3(1) this]
  have same: "count_of s \<le> count_of s3" "left_tokens s3 \<le> left_tokens s" using s3(3) by (simp_all add: body_read_def)
  have alternative: "stmt_contract s3 (\<lambda>j s'. j = i \<and> left_tokens s' \<le> left_tokens s \<and> count_of s \<le> count_of s')
      (and_then (block (advance ?s4)) (\<lambda>else_first s5.
        (Some i, set_statement i (\<lambda>st. st\<lparr>st_else_first := else_first\<rparr>) s5)))" if e: "current_is w_else ?s4"
  proof -
    note t = body.next_token [OF conjunct1 [OF s4] current_is_solid [OF e]]
    have left: "left_tokens (advance ?s4) \<le> n" "count_of (advance ?s4) = count_of s3"
      using t(3) s4 same s(3) by (auto simp: passes_def)
    show ?thesis
    proof (rule body.after [OF body.step_trans [OF conjunct1 [OF conjunct2 [OF s4]] t(2)]], rule body.bind [OF block [OF t(1) left(1)]])
      fix link s5 assume s5: "stmt_good s5" "body_read (count_of (advance ?s4)) (advance ?s4) link s5"
      have "later (count_of s5) i link" using s5(2) left(2) s(2) same by (auto simp: body_read_def later_def)
      from set_link(2) [OF s5(1) this]
      show "stmt_contract s5 (\<lambda>j s'. j = i \<and> left_tokens s' \<le> left_tokens s \<and> count_of s \<le> count_of s')
          (Some i, set_statement i (\<lambda>st. st\<lparr>st_else_first := link\<rparr>) s5)"
        using s5(2) left(2) same t(3) s4 by (auto simp: body_read_def passes_def)
    qed
  qed
  show "stmt_contract s3 (\<lambda>j s'. j = i \<and> left_tokens s' \<le> left_tokens s \<and> count_of s \<le> count_of s')
      (let s4 = ?s4 in if current_is w_else s4 then
         and_then (block (advance s4)) (\<lambda>else_first s5.
           (Some i, set_statement i (\<lambda>st. st\<lparr>st_else_first := else_first\<rparr>) s5))
       else (Some i, s4))"
    using alternative s4 same by (simp add: Let_def)
qed

text \<open>A statement with a condition: its entry, then its body.\<close>

lemma headed_contract:
  assumes s: "stmt_good s" and head: "stmt_contract s (\<lambda>st s'. passes s s' \<and> parts_ok (cp_program s) st \<and> unlinked st) head"
    and rest: "\<And>i s2. stmt_good s2 \<Longrightarrow> i < count_of s2 \<Longrightarrow> left_tokens s2 < left_tokens s \<Longrightarrow>
      stmt_contract s2 (\<lambda>j s'. j = i \<and> left_tokens s' \<le> left_tokens s2 \<and> count_of s2 \<le> count_of s') (rest i s2)"
  shows "stmt_contract s (new_statement s) (and_then head (\<lambda>st s1. and_then (statement_add st s1) rest))"
proof (rule body.bind [OF head])
  fix st s1 assume s1: "stmt_good s1" "passes s s1 \<and> parts_ok (cp_program s) st \<and> unlinked st"
  then have st: "parts_ok (cp_program s1) st" "st_then_first st = None" "st_else_first st = None" "st_next st = None"
    by (simp_all add: passes_def quiet_def unlinked_def)
  show "stmt_contract s1 (new_statement s) (and_then (statement_add st s1) rest)"
  proof (rule body.bind [OF add_contract [OF s1(1) st]])
    fix i s2 assume s2: "stmt_good s2" "i = count_of s1 \<and> count_of s2 = Suc i \<and> left_tokens s2 = left_tokens s1
      \<and> ps_failed (cp_parser s2) = ps_failed (cp_parser s1)"
    then have i: "i < count_of s2" "left_tokens s2 < left_tokens s" "count_of s1 = count_of s"
      using s1(2) by (auto simp: passes_def quiet_def)
    show "stmt_contract s2 (new_statement s) (rest i s2)"
      by (rule body.mono [OF rest [OF s2(1) i(1,2)]]) (use s2(2) i in \<open>auto simp: new_statement_def\<close>)
  qed
qed

lemma and_then_assoc: "and_then (and_then r f) g = and_then r (\<lambda>x s. and_then (f x s) g)"
  by (auto simp: and_then_def split: prod.split option.split)

lemma condition_head:
  assumes "stmt_good s" "\<And>e. sound_expression (cp_program s) e \<Longrightarrow> parts_ok (cp_program s) (stmt e) \<and> unlinked (stmt e)"
    and rest: "\<And>i s2. stmt_good s2 \<Longrightarrow> i < count_of s2 \<Longrightarrow> left_tokens s2 < left_tokens s \<Longrightarrow>
      stmt_contract s2 (\<lambda>j s'. j = i \<and> left_tokens s' \<le> left_tokens s2 \<and> count_of s2 \<le> count_of s') (rest i s2)"
  shows "stmt_contract s (new_statement s) (and_then (parse_condition s) (\<lambda>e s1. and_then (statement_add (stmt e) s1) rest))"
proof -
  have "stmt_contract s (\<lambda>st s'. passes s s' \<and> parts_ok (cp_program s) st \<and> unlinked st)
      (and_then (parse_condition s) (\<lambda>e s1. (Some (stmt e), s1)))"
    by (rule body.bind [OF condition_contract [OF assms(1)]]) (use assms(2) in \<open>auto intro: body.step_refl\<close>)
  from headed_contract [OF assms(1) this rest] show ?thesis by (simp add: and_then_assoc)
qed

text \<open>The three functions together, on the fuel.\<close>

lemma sequence_next:
  assumes s1: "stmt_good s1" and prev: "\<And>l. prev = Some l \<Longrightarrow> l < i" "i < count_of s1"
  defines "s2 \<equiv> (case prev of None \<Rightarrow> s1 | Some l \<Rightarrow> set_statement l (\<lambda>st. st\<lparr>st_next := Some i\<rparr>) s1)"
  shows "stmt_good s2 \<and> stmt_step s1 s2 \<and> left_tokens s2 = left_tokens s1 \<and> count_of s2 = count_of s1"
proof (cases prev)
  case None
  then show ?thesis using s1 body.step_refl by (simp add: s2_def)
next
  case (Some l)
  have "later (count_of s1) l (Some i)" using prev Some by (simp add: later_def)
  from set_link(3) [OF s1 this] Some show ?thesis by (simp add: s2_def)
qed

lemma statements_contract:
  "stmt_good s \<Longrightarrow> 3 * left_tokens s + 1 \<le> k \<Longrightarrow> stmt_contract s (new_statement s) (parse_statement k s)"
  "stmt_good s \<Longrightarrow> 3 * left_tokens s + 2 \<le> k \<Longrightarrow> (\<And>l. prev = Some l \<Longrightarrow> l < count_of s) \<Longrightarrow> n \<le> count_of s \<Longrightarrow>
    (\<And>f. first = Some f \<Longrightarrow> n \<le> f \<and> f < count_of s) \<Longrightarrow>
    stmt_contract s (body_read n s) (parse_statement_sequence k b first prev s)"
  "stmt_good s \<Longrightarrow> 3 * left_tokens s + 2 \<le> k \<Longrightarrow> stmt_contract s (body_read (count_of s) s) (parse_statement_or_block k s)"
proof (induction k arbitrary: s b first prev n)
  case (Suc k)
  { case 1
    have block: "stmt_contract s' (body_read (count_of s') s') (parse_statement_or_block k s')"
      if "stmt_good s'" "left_tokens s' < left_tokens s" for s'
      using Suc.IH(3) [OF that(1)] that(2) 1(2) by simp
    have behind: "stmt_contract s (new_statement s) (f (advance s))"
      if k: "current_is w s" and f: "\<And>s'. stmt_good s' \<Longrightarrow> left_tokens s' < left_tokens s \<Longrightarrow> stmt_contract s' (new_statement s') (f s')" for w f
    proof -
      note t = body.next_token [OF 1(1) current_is_solid [OF k]]
      show ?thesis by (rule new_statement_behind [OF 1(1) passes_quiet [OF t(3)] f [OF t(1)]]) (use t(3) in \<open>simp add: passes_def\<close>)
    qed
    have loop: "stmt_contract s2 (\<lambda>j s'. j = i \<and> left_tokens s' \<le> left_tokens s2 \<and> count_of s2 \<le> count_of s')
        (loop_body (parse_statement_or_block k) i s2)" if "stmt_good s2" "i < count_of s2" "left_tokens s2 < left_tokens s" for i s2
      by (rule loop_contract [where n = "left_tokens s2", OF that(1,2)]) (use block that(3) in auto)
    have for_: "stmt_contract s (new_statement s) (and_then (parse_for_head (advance s)) (\<lambda>st s1.
        and_then (statement_add st s1) (loop_body (parse_statement_or_block k))))" if "current_is w_for s"
      by (rule behind [OF that, where f = "\<lambda>s. and_then (parse_for_head s) (\<lambda>st s1. and_then (statement_add st s1) (loop_body (parse_statement_or_block k)))"],
          rule headed_contract [OF _ for_head_contract], assumption, assumption, rule loop) auto
    have while_: "stmt_contract s (new_statement s) (and_then (parse_condition (advance s)) (\<lambda>e s1.
        and_then (statement_add (zero_statement\<lparr>st_kind := STMT_WHILE, st_expression := e\<rparr>) s1) (loop_body (parse_statement_or_block k))))"
      if "current_is w_while s"
      by (rule behind [OF that, where f = "\<lambda>s. and_then (parse_condition s) (\<lambda>e s1.
          and_then (statement_add (zero_statement\<lparr>st_kind := STMT_WHILE, st_expression := e\<rparr>) s1) (loop_body (parse_statement_or_block k)))"],
          rule condition_head, assumption, simp add: parts_ok_def unlinked_def, rule loop) auto
    have if_: "stmt_contract s (new_statement s) (and_then (parse_condition (advance s)) (\<lambda>e s1.
        and_then (statement_add (zero_statement\<lparr>st_kind := STMT_IF, st_expression := e\<rparr>) s1) (\<lambda>i s2.
            and_then (parse_statement_or_block k s2) (\<lambda>first s3.
              let s4 = set_statement i (\<lambda>st. st\<lparr>st_then_first := first\<rparr>) s3 in
              if current_is w_else s4 then
                and_then (parse_statement_or_block k (advance s4)) (\<lambda>else_first s5.
                  (Some i, set_statement i (\<lambda>st. st\<lparr>st_else_first := else_first\<rparr>) s5))
              else (Some i, s4)))))" if "current_is w_if s"
    proof (rule behind [OF that, where f = "\<lambda>s. and_then (parse_condition s) (\<lambda>e s1.
        and_then (statement_add (zero_statement\<lparr>st_kind := STMT_IF, st_expression := e\<rparr>) s1) (\<lambda>i s2.
            and_then (parse_statement_or_block k s2) (\<lambda>first s3.
              let s4 = set_statement i (\<lambda>st. st\<lparr>st_then_first := first\<rparr>) s3 in
              if current_is w_else s4 then
                and_then (parse_statement_or_block k (advance s4)) (\<lambda>else_first s5.
                  (Some i, set_statement i (\<lambda>st. st\<lparr>st_else_first := else_first\<rparr>) s5))
              else (Some i, s4))))"], rule condition_head)
      fix s' i s2 assume "left_tokens s' < left_tokens s" "stmt_good s2" "i < count_of s2" "left_tokens s2 < left_tokens s'"
      then show "stmt_contract s2 (\<lambda>j s'. j = i \<and> left_tokens s' \<le> left_tokens s2 \<and> count_of s2 \<le> count_of s')
          (and_then (parse_statement_or_block k s2) (\<lambda>first s3.
              let s4 = set_statement i (\<lambda>st. st\<lparr>st_then_first := first\<rparr>) s3 in
              if current_is w_else s4 then
                and_then (parse_statement_or_block k (advance s4)) (\<lambda>else_first s5.
                  (Some i, set_statement i (\<lambda>st. st\<lparr>st_else_first := else_first\<rparr>) s5))
              else (Some i, s4)))"
        by (intro conditional_contract [OF _ _ order_refl] block) auto
    qed (auto simp: parts_ok_def unlinked_def)
    have return_: "stmt_contract s (new_statement s) (finish_expression (\<lambda>e. zero_statement\<lparr>st_kind := STMT_RETURN, st_expression := e\<rparr>) (advance s))"
      if "current_is w_return s"
      by (rule behind [OF that, where f = "finish_expression (\<lambda>e. zero_statement\<lparr>st_kind := STMT_RETURN, st_expression := e\<rparr>)"],
          rule finish_expression_contract) (auto simp: parts_ok_def unlinked_def)
    show ?case
      using for_ while_ if_ return_ simple_contract [OF 1(1)] jump_contract [OF 1(1) current_is_solid] by auto
  next
    case 2
    have go: "stmt_contract s (body_read n s) (and_then (parse_statement k s) (\<lambda>current s1.
        parse_statement_sequence k b (if first = None then Some current else first) (Some current)
          (case prev of None \<Rightarrow> s1 | Some l \<Rightarrow> set_statement l (\<lambda>st. st\<lparr>st_next := Some current\<rparr>) s1)))"
    proof (rule body.bind [OF Suc.IH(1) [OF 2(1)]])
      fix i s1 assume s1: "stmt_good s1" "stmt_step s s1" "new_statement s i s1"
      define s2 where "s2 = (case prev of None \<Rightarrow> s1 | Some l \<Rightarrow> set_statement l (\<lambda>st. st\<lparr>st_next := Some i\<rparr>) s1)"
      have i: "count_of s \<le> i" "i < count_of s1" "left_tokens s1 < left_tokens s"
        using s1(3) by (simp_all add: new_statement_def)
      have l: "prev = Some l \<Longrightarrow> l < i" for l using 2(3) i(1) by fastforce
      have s2: "stmt_good s2" "stmt_step s1 s2" "left_tokens s2 = left_tokens s1" "count_of s2 = count_of s1"
        unfolding s2_def using sequence_next [OF s1(1) l i(2)] by simp_all
      have f: "n \<le> f \<and> f < count_of s2" if "(if first = None then Some i else first) = Some f" for f
        using 2(4) 2(5) [of f] i that s2(4) by (auto split: if_splits)
      have p: "l < count_of s2" if "Some i = Some l" for l using that i s2(4) by simp
      have n: "3 * left_tokens s2 + 2 \<le> k" "n \<le> count_of s2" using s2(3,4) i 2(2,4) by simp_all
      have "stmt_contract s1 (body_read n s) (parse_statement_sequence k b (if first = None then Some i else first) (Some i) s2)"
        by (rule body.after [OF s2(2) body.mono [OF Suc.IH(2) [OF s2(1) n(1) p n(2) f]]])
          (use s2(3) i(3) in \<open>auto simp: body_read_def\<close>)
      then show "stmt_contract s1 (body_read n s) (parse_statement_sequence k b (if first = None then Some i else first) (Some i)
          (case prev of None \<Rightarrow> s1 | Some l \<Rightarrow> set_statement l (\<lambda>st. st\<lparr>st_next := Some i\<rparr>) s1))" by (simp add: s2_def)
    qed (use 2(2) in simp)
    have stop: "stmt_contract s (body_read n s) (Some first, s)"
      using 2(1,4,5) body.step_refl [OF 2(1)] by (simp add: body_read_def)
    show ?case unfolding parse_statement_sequence.simps using go stop by (cases b) simp_all
  next
    case 3
    have block: "stmt_contract s (body_read (count_of s) s) (and_then (parse_statement_sequence k True None None (advance s)) (\<lambda>first s1.
          and_then (expect TOK_RBRACE (in_quotes ''}'') s1) (\<lambda>_ s2. (Some first, s2))))" if b: "current_kind s = TOK_LBRACE"
    proof -
      have sol: "solid (current_kind s)" using b by simp
      note t = body.next_token [OF 3(1) sol]
      show ?thesis
      proof (rule body.after [OF t(2)], rule body.bind [OF Suc.IH(2) [OF t(1), where n = "count_of s"]])
        fix first s1 assume s1: "stmt_good s1" "body_read (count_of s) (advance s) first s1"
        show "stmt_contract s1 (body_read (count_of s) s) (and_then (expect TOK_RBRACE (in_quotes ''}'') s1) (\<lambda>_ s2. (Some first, s2)))"
          by (rule body.bind [OF body.expects [OF s1(1)]])
            (use s1 t(3) body.step_refl in \<open>auto simp: passes_def quiet_def body_read_def\<close>)
      qed (use 3(2) t(3) in \<open>auto simp: passes_def\<close>)
    qed
    have single: "stmt_contract s (body_read (count_of s) s) (and_then (parse_statement k s) (\<lambda>i s1. (Some (Some i), s1)))"
      by (rule body.bind [OF Suc.IH(1) [OF 3(1)]]) (use 3(2) body.step_refl in \<open>auto simp: new_statement_def body_read_def\<close>)
    show ?case using block single by simp
  }
qed auto

end
