(* ===== verification/T32_Unit_Laws.thy ===== *)
theory T32_Unit_Laws
  imports T32_Parse_Stmt_Laws T32_Parse_Unit
begin

text \<open>
  Laws of the parser for declarations, functions and the translation unit: it ends on every source, and
  a function that it accepts has well-formed tables (\<open>function_sound\<close>), so that there is a function
  tree which they represent.
\<close>

section \<open>Functions\<close>

definition inits_ok :: "program_t \<Rightarrow> bool" where
  "inits_ok prog \<longleftrightarrow> (\<forall>i. pr_parameter_count prog \<le> i \<longrightarrow> i < length (pr_locals prog) \<longrightarrow>
     lc_has_initializer (pr_locals prog ! i) \<longrightarrow> sound_expression prog (lc_initializer (pr_locals prog ! i)))"

definition function_parts :: "program_t \<Rightarrow> bool" where
  "function_parts prog \<longleftrightarrow> statements_ok prog \<and> inits_ok prog
     \<and> pr_parameter_count prog \<le> 4 \<and> pr_parameter_count prog \<le> length (pr_locals prog)
     \<and> (\<forall>j. pr_first_statement prog = Some j \<longrightarrow> j < length (pr_statements prog))
     \<and> (pr_has_explicit_return prog \<longrightarrow> sound_expression prog (pr_return_expression prog))"

definition function_sound :: "program_t \<Rightarrow> bool" where
  "function_sound prog \<longleftrightarrow> function_parts prog \<and> length (pr_locals prog) \<le> MAX_LOCALS
     \<and> (pr_has_explicit_return prog \<or> pr_is_main prog)"

text \<open>The level of a function: local variables and statements are added.\<close>

definition fun_good :: "pstate \<Rightarrow> bool" where
  "fun_good s \<longleftrightarrow> ready s \<and> function_parts (cp_program s)"

definition fun_step :: "pstate \<Rightarrow> pstate \<Rightarrow> bool" where
  "fun_step s s' \<longleftrightarrow> extends (cp_program s) (cp_program s')
     \<and> cp_structs s' = cp_structs s \<and> source_of s' = source_of s
     \<and> cp_fuel_out s' = cp_fuel_out s \<and> left_tokens s' \<le> left_tokens s"

lemma extends_trans: "extends p q \<Longrightarrow> extends q r \<Longrightarrow> extends p r"
  by (auto simp: extends_def)

interpretation funct: parser_level fun_good fun_step
  by unfold_locales (auto simp: fun_good_def fun_step_def quiet_def ready_def intro: extends_trans)

abbreviation (input) "fun_contract \<equiv> contract fun_good fun_step"

text \<open>A statement inside a function.\<close>

lemma fun_statement: "fun_good s \<Longrightarrow> stmt_good s' \<Longrightarrow> stmt_step s s' \<Longrightarrow> fun_good s' \<and> fun_step s s'"
  by (auto simp: fun_good_def fun_step_def stmt_good_def stmt_step_def function_parts_def inits_ok_def extends_def)

lemma fun_good_stmt: "fun_good s \<Longrightarrow> stmt_good s"
  by (simp add: fun_good_def stmt_good_def function_parts_def)

lemma fun_of_stmt: "fun_good s \<Longrightarrow> stmt_contract s Q r \<Longrightarrow> fun_contract s Q r"
  using fun_statement by (auto simp: contract_def split: prod.splits option.splits)

subsection \<open>Local variables\<close>

lemma parts_extends: "extends prog prog' \<Longrightarrow> parts_ok prog st \<Longrightarrow> parts_ok prog' st"
  using sound_extends [of prog prog'] extends_locals [of prog prog']
  by (auto simp: parts_ok_def has_local_def split: statement_kind_t.splits)

lemma add_local_extends: "extends prog (add_local l prog)"
  by (simp add: extends_def add_local_def)

lemma add_local_parts:
  assumes "function_parts prog" "lc_has_initializer l \<Longrightarrow> sound_expression prog (lc_initializer l)"
  shows "function_parts (add_local l prog)"
proof -
  note more = sound_extends [OF add_local_extends] parts_extends [OF add_local_extends]
  have "inits_ok (add_local l prog)"
    using assms more(1) by (auto simp: function_parts_def inits_ok_def add_local_def nth_append less_Suc_eq)
  moreover have "statements_ok (add_local l prog)"
    using assms(1) more(2) by (auto simp: function_parts_def statements_ok_def add_local_def)
  ultimately show ?thesis using assms(1) more(1) by (auto simp: function_parts_def add_local_def)
qed

lemma add_local_good:
  assumes "fun_good s" "lc_has_initializer l \<Longrightarrow> sound_expression (cp_program s) (lc_initializer l)"
    and "length (pr_locals (cp_program s)) < MAX_LOCALS"
  shows "fun_good (set_program (add_local l) s) \<and> fun_step s (set_program (add_local l) s)
    \<and> left_tokens (set_program (add_local l) s) = left_tokens s"
  using assms add_local_parts [of "cp_program s" l]
  by (auto simp: fun_good_def fun_step_def set_program_def ready_def settled_def current_kind_def current_token_def
      left_tokens_def source_of_def add_local_extends) (simp_all add: add_local_def)

lemma parameter_parts:
  assumes "function_parts prog" "pr_parameter_count prog = length (pr_locals prog)" "length (pr_locals prog) < 4"
    and "\<not> lc_has_initializer l"
  shows "function_parts ((add_local l prog)\<lparr>pr_parameter_count := pr_parameter_count prog + 1\<rparr>)"
proof -
  let ?prog = "(add_local l prog)\<lparr>pr_parameter_count := pr_parameter_count prog + 1\<rparr>"
  have "function_parts (add_local l prog)" using assms(1,4) by (intro add_local_parts) auto
  moreover have "extends (add_local l prog) ?prog" by (simp add: extends_def)
  ultimately show ?thesis using assms(2,3) sound_extends [of "add_local l prog" ?prog] parts_extends [of "add_local l prog" ?prog]
    by (auto simp: function_parts_def statements_ok_def inits_ok_def add_local_def)
qed

subsection \<open>Declarations\<close>

lemma struct_name_contract:
  assumes "fun_good s"
  shows "fun_contract s (\<lambda>_ s'. passes s s') (parse_struct_name s)"
proof -
  have "solid (current_kind s) \<Longrightarrow> fun_good (advance s) \<and> fun_step s (advance s) \<and> passes s (advance s)"
    using funct.next_token [OF assms] by blast
  then show ?thesis by (auto simp: parse_struct_name_def split: option.split)
qed

lemma parameter_type_contract:
  assumes "fun_good s"
  shows "fun_contract s (\<lambda>_ s'. passes s s') (parse_parameter_type s)"
proof (cases "current_is w_struct s")
  case True
  note t = funct.next_token [OF assms current_is_solid [OF True]]
  have star: "fun_contract s1 (\<lambda>_ s'. passes s s') (if current_kind s1 \<noteq> TOK_STAR then fail m s1 else (Some (Some i), advance s1))"
    if s1: "fun_good s1" "passes (advance s) s1" for s1 i m
  proof (cases "current_kind s1 = TOK_STAR")
    case True
    then have sol: "solid (current_kind s1)" by simp
    note t1 = funct.next_token [OF s1(1) sol]
    have "passes s (advance s1)"
      using passes_trans(1) [OF t(3) quiet_trans [OF passes_quiet [OF s1(2)] passes_quiet [OF t1(3)]]] .
    with t1 True show ?thesis by simp
  qed simp
  have "fun_contract s (\<lambda>_ s'. passes s s') (and_then (parse_struct_name (advance s)) (\<lambda>i s1.
      if current_kind s1 \<noteq> TOK_STAR then fail ''Stage 25 supports struct parameters only by pointer'' s1
      else (Some (Some i), advance s1)))"
    by (rule funct.after [OF t(2) funct.bind [OF struct_name_contract [OF t(1)] star]])
  with True show ?thesis by (simp add: parse_parameter_type_def)
next
  case False
  have "fun_contract s (\<lambda>_ s'. passes s s') (and_then (expect_word w_int s) (\<lambda>_ s1. (Some (None :: nat option), s1)))"
    by (rule funct.bind [OF funct.expects_word [OF assms]]) (use funct.step_refl in auto)
  with False show ?thesis by (simp add: parse_parameter_type_def)
qed

lemma parameter_good:
  assumes "fun_good s" "pr_parameter_count (cp_program s) = length (pr_locals (cp_program s))" "length (pr_locals (cp_program s)) < 4"
    and "\<not> lc_has_initializer l"
  defines "s' \<equiv> set_program (\<lambda>p. (add_local l p)\<lparr>pr_parameter_count := pr_parameter_count (cp_program s) + 1\<rparr>) s"
  shows "fun_good s' \<and> fun_step s s' \<and> current_kind s' = current_kind s
    \<and> pr_parameter_count (cp_program s') = length (pr_locals (cp_program s'))
    \<and> length (pr_locals (cp_program s')) = Suc (length (pr_locals (cp_program s)))"
  using parameter_parts [OF _ assms(2-4)] assms(1-3)
  by (auto simp: fun_good_def fun_step_def s'_def set_program_def ready_def settled_def current_kind_def current_token_def
      left_tokens_def source_of_def extends_def) (simp_all add: add_local_def)

lemma parameters_contract:
  "fun_good s \<Longrightarrow> pr_parameter_count (cp_program s) = length (pr_locals (cp_program s)) \<Longrightarrow>
   n + length (pr_locals (cp_program s)) \<le> 4 \<Longrightarrow> fun_contract s (\<lambda>_ _. True) (parse_parameters n s)"
proof (induction n arbitrary: s)
  case (Suc n)
  show ?case unfolding parse_parameters.simps
  proof (rule funct.bind [OF parameter_type_contract [OF Suc.prems(1)]])
    fix struct_index s1 assume s1: "fun_good s1" "passes s s1"
    then have same: "cp_program s1 = cp_program s" by (simp add: passes_def quiet_def)
    define l where "l name = zero_local\<lparr>lc_name := name, lc_is_parameter := True,
        lc_parameter_index := pr_parameter_count (cp_program s1), lc_is_pointer := (struct_index \<noteq> None),
        lc_is_struct := (struct_index \<noteq> None), lc_struct_index := struct_index,
        lc_offset := pr_frame_bytes (cp_program s1), lc_storage_size := 4\<rparr>" for name
    define s2 where "s2 name = set_program (\<lambda>p. (add_local (l name) p)\<lparr>pr_parameter_count := pr_parameter_count (cp_program s1) + 1\<rparr>) s1" for name
    have step: "fun_contract s1 (\<lambda>_ _. True) (if current_kind (advance (s2 name)) \<noteq> TOK_COMMA then (Some (), advance (s2 name))
        else parse_parameters n (advance (advance (s2 name))))" if k: "current_kind s1 = TOK_IDENTIFIER" for name
    proof -
      have s2: "fun_good (s2 name)" "fun_step s1 (s2 name)" "solid (current_kind (s2 name))"
        "pr_parameter_count (cp_program (s2 name)) = length (pr_locals (cp_program (s2 name)))"
        "length (pr_locals (cp_program (s2 name))) = Suc (length (pr_locals (cp_program s)))"
        using parameter_good [OF s1(1), of "l name"] Suc.prems(2,3) k same
        by (simp_all add: s2_def l_def zero_local_def)
      note t = funct.next_token [OF s2(1,3)]
      have "fun_contract (advance (s2 name)) (\<lambda>_ _. True) (parse_parameters n (advance (advance (s2 name))))"
        if "current_kind (advance (s2 name)) = TOK_COMMA"
      proof -
        have sol: "solid (current_kind (advance (s2 name)))" using that by simp
        note t2 = funct.next_token [OF t(1) sol]
        show ?thesis by (rule funct.after [OF t2(2) Suc.IH [OF t2(1)]]) (use s2(4,5) Suc.prems(3) in simp_all)
      qed
      then show ?thesis using t s2(2) funct.step_refl [OF t(1)]
        by (intro funct.after [OF funct.step_trans [OF s2(2) t(2)]]) simp
    qed
    show "fun_contract s1 (\<lambda>_ _. True) (if current_kind s1 \<noteq> TOK_IDENTIFIER then fail ''expected parameter name'' s1
       else if find_local s1 (current_token s1) \<noteq> None then fail ''duplicate parameter name'' s1
       else case copy_identifier (source_of s1) (current_token s1) 64 of
         None \<Rightarrow> fail ''parameter name is too long'' s1
       | Some name \<Rightarrow>
           let count = pr_parameter_count (cp_program s1);
             parameter = zero_local\<lparr>lc_name := name, lc_is_parameter := True, lc_parameter_index := count,
               lc_is_pointer := (struct_index \<noteq> None), lc_is_struct := (struct_index \<noteq> None),
               lc_struct_index := struct_index, lc_offset := pr_frame_bytes (cp_program s1), lc_storage_size := 4\<rparr>;
             s2 = advance (set_program (\<lambda>p. (add_local parameter p)\<lparr>pr_parameter_count := count + 1\<rparr>) s1)
           in if current_kind s2 \<noteq> TOK_COMMA then (Some (), s2)
              else parse_parameters n (advance s2))"
      using step unfolding Let_def l_def s2_def by (simp split: option.split)
  qed
qed simp

lemma array_length_contract:
  assumes "fun_good s"
  shows "fun_contract s (\<lambda>l' s'. quiet s s' \<and> lc_has_initializer l' = lc_has_initializer l) (parse_array_length l s)"
proof (cases "current_kind s = TOK_INTEGER")
  case True
  then have sol: "solid (current_kind s)" by simp
  note t = funct.next_token [OF assms sol]
  have "fun_contract s (\<lambda>l' s'. quiet s s' \<and> lc_has_initializer l' = lc_has_initializer l)
      (and_then (expect TOK_RBRACKET (in_quotes '']'') (advance s)) (\<lambda>_ s1. (Some (l\<lparr>lc_is_array := True, lc_array_length := n,
         lc_storage_size := z\<rparr>), s1)))" for n z
    by (rule funct.after [OF t(2) funct.bind [OF funct.expects [OF t(1)]]])
      (use t(3) funct.step_refl in \<open>auto simp: passes_def intro: quiet_trans\<close>)
  then show ?thesis by (simp add: parse_array_length_def Let_def)
qed (simp add: parse_array_length_def)

text \<open>The initializer, behind the equals sign.\<close>

definition local_read :: "pstate \<Rightarrow> local_t \<Rightarrow> pstate \<Rightarrow> bool" where
  "local_read s l s' \<longleftrightarrow> quiet s s' \<and> (lc_has_initializer l \<longrightarrow> sound_expression (cp_program s) (lc_initializer l))"

lemma local_read_behind: "quiet s s1 \<Longrightarrow> local_read s1 l s' \<Longrightarrow> local_read s l s'"
  by (auto simp: local_read_def quiet_def)

lemma local_behind:
  "fun_good s \<Longrightarrow> quiet s s1 \<Longrightarrow> fun_contract s1 (local_read s1) r \<Longrightarrow> fun_contract s (local_read s) r"
  using funct.after_quiet funct.mono local_read_behind by metis

lemma initializer_contract:
  assumes "fun_good s" "\<not> lc_has_initializer l" "current_kind s = TOK_ASSIGN"
  shows "fun_contract s (local_read s) (and_then (parse_expression (advance s)) (\<lambda>e s3.
    (Some (l\<lparr>lc_has_initializer := True, lc_initializer := e\<rparr>), s3)))"
proof -
  have sol: "solid (current_kind s)" using assms(3) by simp
  note t = funct.next_token [OF assms(1) sol]
  show ?thesis
    by (rule funct.after [OF t(2) funct.bind [OF funct.expression [OF t(1)]]])
      (use t(3) funct.step_refl in \<open>auto simp: local_read_def passes_def quiet_def\<close>)
qed

lemma declarator_contract:
  assumes "fun_good s" "\<not> lc_has_initializer l"
  shows "fun_contract s (local_read s) (parse_declarator l s)"
proof -
  define s1 where "s1 = (if current_kind s = TOK_STAR then advance s else s)"
  define l1 where "l1 = (if current_kind s = TOK_STAR then l\<lparr>lc_is_pointer := True, lc_storage_size := 4\<rparr> else l)"
  have s1: "fun_good s1" "quiet s s1"
    using funct.next_token [OF assms(1)] passes_quiet assms(1) funct.good_settled [OF assms(1)]
    by (auto simp: s1_def quiet_def)
  have l1: "\<not> lc_has_initializer (l1\<lparr>lc_name := name\<rparr>)" for name using assms(2) by (simp add: l1_def)
  have rest: "fun_contract s2 (local_read s2) (if current_kind s2 \<noteq> TOK_ASSIGN then (Some l2, s2)
      else if lc_is_struct l2 \<and> \<not> lc_is_pointer l2 then fail m s2 else if lc_is_array l2 then fail m' s2
      else and_then (parse_expression (advance s2)) (\<lambda>e s3. (Some (l2\<lparr>lc_has_initializer := True, lc_initializer := e\<rparr>), s3)))"
    if "fun_good s2" "\<not> lc_has_initializer l2" for s2 l2 m m'
    using initializer_contract [OF that] that funct.step_refl funct.good_settled [OF that(1)]
    by (simp add: local_read_def quiet_def)
  have go: "fun_contract s (local_read s) (and_then (if current_kind (advance s1) \<noteq> TOK_LBRACKET then (Some l2, advance s1)
        else if lc_is_struct l2 \<and> \<not> lc_is_pointer l2 then fail m1 (advance s1)
        else if lc_is_pointer l2 then fail m2 (advance s1)
        else parse_array_length l2 (advance (advance s1))) (\<lambda>l2 s2.
          if current_kind s2 \<noteq> TOK_ASSIGN then (Some l2, s2)
          else if lc_is_struct l2 \<and> \<not> lc_is_pointer l2 then fail m3 s2
          else if lc_is_array l2 then fail m4 s2
          else and_then (parse_expression (advance s2)) (\<lambda>e s3.
            (Some (l2\<lparr>lc_has_initializer := True, lc_initializer := e\<rparr>), s3))))"
    if k: "current_kind s1 = TOK_IDENTIFIER" and l2: "\<not> lc_has_initializer l2" for l2 m1 m2 m3 m4
  proof -
    have sol: "solid (current_kind s1)" using k by simp
    note t = funct.next_token [OF s1(1) sol]
    have array: "fun_contract (advance s1) (\<lambda>l' s'. quiet (advance s1) s' \<and> \<not> lc_has_initializer l')
        (parse_array_length l2 (advance (advance s1)))" if "current_kind (advance s1) = TOK_LBRACKET"
    proof -
      have sol: "solid (current_kind (advance s1))" using that by simp
      note t2 = funct.next_token [OF t(1) sol]
      show ?thesis by (rule funct.after [OF t2(2) funct.mono [OF array_length_contract [OF t2(1)]]])
          (use l2 t2(3) in \<open>auto simp: passes_def intro: quiet_trans\<close>)
    qed
    have first: "fun_contract (advance s1) (\<lambda>l' s'. quiet (advance s1) s' \<and> \<not> lc_has_initializer l')
        (if current_kind (advance s1) \<noteq> TOK_LBRACKET then (Some l2, advance s1)
        else if lc_is_struct l2 \<and> \<not> lc_is_pointer l2 then fail m1 (advance s1)
        else if lc_is_pointer l2 then fail m2 (advance s1)
        else parse_array_length l2 (advance (advance s1)))"
      using array t l2 funct.step_refl funct.good_settled [OF t(1)] by (simp add: quiet_def)
    show ?thesis
    proof (rule local_behind [OF assms(1) quiet_trans [OF s1(2) passes_quiet [OF t(3)]]], rule funct.bind [OF first])
      fix l3 :: local_t and s2
      assume a: "fun_good s2" "quiet (advance s1) s2 \<and> \<not> lc_has_initializer l3"
      show "fun_contract s2 (local_read (advance s1)) (if current_kind s2 \<noteq> TOK_ASSIGN then (Some l3, s2)
          else if lc_is_struct l3 \<and> \<not> lc_is_pointer l3 then fail m3 s2
          else if lc_is_array l3 then fail m4 s2
          else and_then (parse_expression (advance s2)) (\<lambda>e s3.
            (Some (l3\<lparr>lc_has_initializer := True, lc_initializer := e\<rparr>), s3)))"
        by (rule funct.mono [OF rest [OF a(1)]]) (use a(2) local_read_behind in blast)+
    qed
  qed
  have fuel: "cp_fuel_out s1 = cp_fuel_out s" using s1(2) by (simp add: quiet_def)
  show ?thesis unfolding parse_declarator_def Let_def s1_def [symmetric] l1_def [symmetric]
    using go [OF _ l1] fuel by (simp split: option.split)
qed

abbreviation (input) locals_of :: "pstate \<Rightarrow> nat" where "locals_of s \<equiv> length (pr_locals (cp_program s))"

lemma declaration_contract:
  assumes "fun_good s" "solid (current_kind s)" "locals_of s < MAX_LOCALS"
  shows "fun_contract s (\<lambda>_ s'. locals_of s' = Suc (locals_of s)) (parse_declaration s)"
proof -
  note t = funct.next_token [OF assms(1,2)]
  have type: "fun_contract (advance s) (\<lambda>_ s'. quiet (advance s) s')
      (if b then and_then (parse_struct_name (advance s)) (\<lambda>i s2. (Some (Some i), s2)) else (Some None, advance s))" for b
    using funct.bind [OF struct_name_contract [OF t(1)], of "\<lambda>_ s'. quiet (advance s) s'" "\<lambda>i s2. (Some (Some i), s2)"]
      funct.step_refl t(1) funct.good_settled [OF t(1)]
    by (auto simp: passes_def quiet_def)
  show ?thesis unfolding parse_declaration_def Let_def
  proof (rule funct.after [OF t(2)], rule funct.bind [OF type])
    fix struct_index s2 assume s2: "fun_good s2" "quiet (advance s) s2"
    let ?l = "zero_local\<lparr>lc_is_char := current_is w_char s, lc_is_struct := current_is w_struct s,
            lc_struct_index := struct_index, lc_offset := pr_frame_bytes (cp_program s2),
            lc_storage_size := (case struct_index of Some i \<Rightarrow> sd_size (cp_structs s2 ! i) | None \<Rightarrow> 4)\<rparr>"
    show "fun_contract s2 (\<lambda>_ s'. locals_of s' = Suc (locals_of s)) (and_then (parse_declarator ?l s2) (\<lambda>l1 s3.
        and_then (expect TOK_SEMICOLON (in_quotes '';'') s3) (\<lambda>_ s4. (Some (), set_program (add_local l1) s4))))"
    proof (rule funct.bind [OF declarator_contract [OF s2(1)]])
      fix l1 s3 assume s3: "fun_good s3" "local_read s2 l1 s3"
      have p3: "cp_program s3 = cp_program s" using s2(2) s3(2) by (simp add: local_read_def quiet_def)
      show "fun_contract s3 (\<lambda>_ s'. locals_of s' = Suc (locals_of s))
          (and_then (expect TOK_SEMICOLON (in_quotes '';'') s3) (\<lambda>_ s4. (Some (), set_program (add_local l1) s4)))"
      proof (rule funct.bind [OF funct.expects [OF s3(1)]])
        fix x :: unit and s4 assume s4: "fun_good s4" "passes s3 s4"
        have p4: "cp_program s4 = cp_program s" "cp_program s2 = cp_program s"
          using p3 s4(2) s2(2) by (simp_all add: passes_def quiet_def)
        have "lc_has_initializer l1 \<Longrightarrow> sound_expression (cp_program s4) (lc_initializer l1)"
          using s3(2) p4 by (simp add: local_read_def)
        from add_local_good [OF s4(1) this] assms(3) p4
        show "fun_contract s4 (\<lambda>_ s'. locals_of s' = Suc (locals_of s)) (Some (), set_program (add_local l1) s4)"
          by (simp add: set_program_def add_local_def)
      qed simp
    qed (simp add: zero_local_def)
  qed
qed

declare parse_locals.simps [simp del]

lemma locals_contract:
  "fun_good s \<Longrightarrow> n + locals_of s \<le> MAX_LOCALS \<Longrightarrow> fun_contract s (\<lambda>_ _. True) (parse_locals n s)"
proof (induction n arbitrary: s)
  case 0
  then show ?case using funct.step_refl by (simp add: parse_locals.simps [of 0])
next
  case (Suc n)
  have "fun_contract s (\<lambda>_ _. True) (and_then (parse_declaration s) (\<lambda>_ s1. parse_locals n s1))" if "solid (current_kind s)"
    by (rule funct.bind [OF declaration_contract [OF Suc.prems(1) that]]) (use Suc in auto)
  then show ?case using Suc.prems(1) funct.step_refl current_is_solid by (subst parse_locals.simps) auto
qed

subsection \<open>Bodies\<close>

lemma statement_fuel_enough: "3 * left_tokens s + 2 \<le> statement_fuel s"
  using parse_fuel_enough [of s] by (simp add: parse_fuel_def statement_fuel_def)

lemma update_good:
  assumes "fun_good s" "function_parts (f (cp_program s))" "pr_locals (f (cp_program s)) = pr_locals (cp_program s)"
  shows "fun_good (set_program f s) \<and> fun_step s (set_program f s)"
  using assms by (auto simp: fun_good_def fun_step_def set_program_def ready_def settled_def current_kind_def current_token_def
      left_tokens_def source_of_def extends_def)

lemma same_locals:
  assumes "pr_locals p = pr_locals q"
  shows "sound_expression p = sound_expression q" "parts_ok p = parts_ok q"
proof -
  have e: "extends p q" "extends q p" using assms by (simp_all add: extends_def)
  show "sound_expression p = sound_expression q" using sound_extends [OF e(1)] sound_extends [OF e(2)] by blast
  show "parts_ok p = parts_ok q" using parts_extends [OF e(1)] parts_extends [OF e(2)] by blast
qed

lemma link_parts:
  "function_parts prog \<Longrightarrow> (\<And>j. link = Some j \<Longrightarrow> j < length (pr_statements prog)) \<Longrightarrow>
   function_parts (prog\<lparr>pr_first_statement := link\<rparr>)"
  "function_parts prog \<Longrightarrow> sound_expression prog e \<Longrightarrow>
   function_parts (prog\<lparr>pr_has_explicit_return := True, pr_return_expression := e\<rparr>)"
proof -
  have same: "sound_expression (prog\<lparr>pr_first_statement := link\<rparr>) = sound_expression prog"
    "parts_ok (prog\<lparr>pr_first_statement := link\<rparr>) = parts_ok prog"
    "sound_expression (prog\<lparr>pr_has_explicit_return := True, pr_return_expression := e\<rparr>) = sound_expression prog"
    "parts_ok (prog\<lparr>pr_has_explicit_return := True, pr_return_expression := e\<rparr>) = parts_ok prog"
    by (rule same_locals; simp)+
  show "function_parts prog \<Longrightarrow> (\<And>j. link = Some j \<Longrightarrow> j < length (pr_statements prog)) \<Longrightarrow>
      function_parts (prog\<lparr>pr_first_statement := link\<rparr>)"
    "function_parts prog \<Longrightarrow> sound_expression prog e \<Longrightarrow>
      function_parts (prog\<lparr>pr_has_explicit_return := True, pr_return_expression := e\<rparr>)"
    by (auto simp: function_parts_def statements_ok_def inits_ok_def same)
qed

text \<open>The return at the end; only \<open>main\<close> may leave it out.\<close>

definition closed :: "pstate \<Rightarrow> bool" where
  "closed s \<longleftrightarrow> pr_has_explicit_return (cp_program s) \<or> pr_is_main (cp_program s)"

lemma return_contract:
  assumes "fun_good s" "current_is w_return s"
  shows "fun_contract s (\<lambda>_ s'. closed s') (and_then (parse_expression (advance s)) (\<lambda>e s4.
    and_then (expect TOK_SEMICOLON (in_quotes '';'') s4) (\<lambda>_ s5.
      (Some (), set_program (\<lambda>p. p\<lparr>pr_has_explicit_return := True, pr_return_expression := e\<rparr>) s5))))"
proof -
  note t = funct.next_token [OF assms(1) current_is_solid [OF assms(2)]]
  show ?thesis
  proof (rule funct.after [OF t(2)], rule funct.bind [OF funct.expression [OF t(1)]])
    fix e s4 assume s4: "fun_good s4" "quiet (advance s) s4 \<and> sound_expression (cp_program (advance s)) e"
    show "fun_contract s4 (\<lambda>_ s'. closed s') (and_then (expect TOK_SEMICOLON (in_quotes '';'') s4) (\<lambda>_ s5.
        (Some (), set_program (\<lambda>p. p\<lparr>pr_has_explicit_return := True, pr_return_expression := e\<rparr>) s5)))"
    proof (rule funct.bind [OF funct.expects [OF s4(1)]])
      fix x :: unit and s5 assume s5: "fun_good s5" "passes s4 s5"
      have "sound_expression (cp_program s5) e" using s4(2) s5(2) by (simp add: passes_def quiet_def)
      then have "function_parts ((cp_program s5)\<lparr>pr_has_explicit_return := True, pr_return_expression := e\<rparr>)"
        using link_parts(2) s5(1) by (simp add: fun_good_def)
      from update_good [OF s5(1), of "\<lambda>p. p\<lparr>pr_has_explicit_return := True, pr_return_expression := e\<rparr>", OF this]
      show "fun_contract s5 (\<lambda>_ s'. closed s') (Some (),
          set_program (\<lambda>p. p\<lparr>pr_has_explicit_return := True, pr_return_expression := e\<rparr>) s5)"
        by (simp add: closed_def set_program_def)
    qed simp
  qed
qed

lemma body_contract:
  assumes "fun_good s"
  shows "fun_contract s (\<lambda>_ s'. closed s') (parse_body s)"
  unfolding parse_body_def Let_def
proof (rule funct.bind [OF locals_contract [OF assms]])
  show "MAX_LOCALS - locals_of s + locals_of s \<le> MAX_LOCALS" using assms by (simp add: fun_good_def ready_def)
next
  fix x :: unit and s1 assume s1: "fun_good s1"
  have seq: "fun_contract s1 (body_read 0 s1) (parse_statement_sequence (statement_fuel s1) False None None s1)"
    by (rule fun_of_stmt [OF s1 statements_contract(2) [OF fun_good_stmt [OF s1] statement_fuel_enough]]) simp_all
  let ?link = "\<lambda>first. set_program (\<lambda>p. p\<lparr>pr_first_statement := first\<rparr>)"
  show "fun_contract s1 (\<lambda>_ s'. closed s') (and_then (parse_statement_sequence (statement_fuel s1) False None None s1) (\<lambda>first s2.
      and_then (if current_is w_return (?link first s2) then
          and_then (parse_expression (advance (?link first s2))) (\<lambda>e s4.
            and_then (expect TOK_SEMICOLON (in_quotes '';'') s4) (\<lambda>_ s5.
              (Some (), set_program (\<lambda>p. p\<lparr>pr_has_explicit_return := True, pr_return_expression := e\<rparr>) s5)))
        else if \<not> pr_is_main (cp_program (?link first s2)) then fail ''non-main int function requires return value'' (?link first s2)
        else (Some (), ?link first s2)) (\<lambda>_ s6.
          and_then (expect TOK_RBRACE (in_quotes ''}'') s6) (\<lambda>_ s7. (Some (), s7)))))"
  proof (rule funct.bind [OF seq])
    fix first s2 assume s2: "fun_good s2" "body_read 0 s1 first s2"
    have "function_parts ((cp_program s2)\<lparr>pr_first_statement := first\<rparr>)"
      using s2 by (intro link_parts(1)) (auto simp: fun_good_def body_read_def)
    then have s3: "fun_good (?link first s2)" "fun_step s2 (?link first s2)"
      using update_good [OF s2(1), of "\<lambda>p. p\<lparr>pr_first_statement := first\<rparr>"] by simp_all
    have return_: "fun_contract (?link first s2) (\<lambda>_ s'. closed s') (if current_is w_return (?link first s2) then
          and_then (parse_expression (advance (?link first s2))) (\<lambda>e s4.
            and_then (expect TOK_SEMICOLON (in_quotes '';'') s4) (\<lambda>_ s5.
              (Some (), set_program (\<lambda>p. p\<lparr>pr_has_explicit_return := True, pr_return_expression := e\<rparr>) s5)))
        else if \<not> pr_is_main (cp_program (?link first s2)) then fail m (?link first s2)
        else (Some (), ?link first s2))" for m
      using return_contract [OF s3(1)] s3(1) funct.step_refl [OF s3(1)] by (simp add: closed_def)
    have brace: "fun_contract s6 (\<lambda>_ s'. closed s') (and_then (expect TOK_RBRACE (in_quotes ''}'') s6) (\<lambda>_ s7. (Some (), s7)))"
      if "fun_good s6" "closed s6" for s6
      by (rule funct.bind [OF funct.expects [OF that(1)]]) (use that(2) funct.step_refl in \<open>auto simp: closed_def passes_def quiet_def\<close>)
    show "fun_contract s2 (\<lambda>_ s'. closed s') (and_then (if current_is w_return (?link first s2) then
          and_then (parse_expression (advance (?link first s2))) (\<lambda>e s4.
            and_then (expect TOK_SEMICOLON (in_quotes '';'') s4) (\<lambda>_ s5.
              (Some (), set_program (\<lambda>p. p\<lparr>pr_has_explicit_return := True, pr_return_expression := e\<rparr>) s5)))
        else if \<not> pr_is_main (cp_program (?link first s2)) then fail ''non-main int function requires return value'' (?link first s2)
        else (Some (), ?link first s2)) (\<lambda>_ s6. and_then (expect TOK_RBRACE (in_quotes ''}'') s6) (\<lambda>_ s7. (Some (), s7))))"
      by (rule funct.after [OF s3(2) funct.bind [OF return_ brace]])
  qed
qed

subsection \<open>Function definitions\<close>

lemma name_good:
  assumes "fun_good s" "cp_program s = zero_program"
  shows "fun_good (set_program (\<lambda>p. p\<lparr>pr_function_name := name, pr_is_main := b\<rparr>) s)
    \<and> fun_step s (set_program (\<lambda>p. p\<lparr>pr_function_name := name, pr_is_main := b\<rparr>) s)"
  by (rule update_good [OF assms(1)])
    (simp_all add: assms(2) function_parts_def statements_ok_def inits_ok_def zero_program_def)

lemma parameter_list_contract:
  assumes "fun_good s" "locals_of s = 0" "pr_parameter_count (cp_program s) = 0"
  shows "fun_contract s (\<lambda>_ _. True) (if current_is w_void s then (Some (), advance s)
    else if current_kind s \<noteq> TOK_RPAREN then parse_parameters 4 s else (Some (), s))"
  using funct.next_token [OF assms(1) current_is_solid] parameters_contract [OF assms(1), of 4] assms
    funct.step_refl [OF assms(1)] by simp

lemma function_rest:
  assumes "fun_good s"
  shows "fun_contract s (\<lambda>f s'. f = cp_program s' \<and> closed s') (and_then (expect TOK_RPAREN (in_quotes '')'') s) (\<lambda>_ s5.
    if pr_is_main (cp_program s5) \<and> pr_parameter_count (cp_program s5) \<noteq> 0
    then fail ''Stage 25 main must have no parameters'' s5
    else and_then (expect TOK_LBRACE (in_quotes ''{'') s5) (\<lambda>_ s6. and_then (parse_body s6) (\<lambda>_ s7. (Some (cp_program s7), s7)))))"
proof (rule funct.bind [OF funct.expects [OF assms]])
  fix x :: unit and s5 assume s5: "fun_good s5"
  have "fun_contract s5 (\<lambda>f s'. f = cp_program s' \<and> closed s') (and_then (expect TOK_LBRACE (in_quotes ''{'') s5)
      (\<lambda>_ s6. and_then (parse_body s6) (\<lambda>_ s7. (Some (cp_program s7), s7))))"
  proof (rule funct.bind [OF funct.expects [OF s5]])
    fix y :: unit and s6 assume s6: "fun_good s6"
    show "fun_contract s6 (\<lambda>f s'. f = cp_program s' \<and> closed s') (and_then (parse_body s6) (\<lambda>_ s7. (Some (cp_program s7), s7)))"
      by (rule funct.bind [OF body_contract [OF s6]]) (use funct.step_refl in auto)
  qed simp
  then show "fun_contract s5 (\<lambda>f s'. f = cp_program s' \<and> closed s')
      (if pr_is_main (cp_program s5) \<and> pr_parameter_count (cp_program s5) \<noteq> 0
       then fail ''Stage 25 main must have no parameters'' s5
       else and_then (expect TOK_LBRACE (in_quotes ''{'') s5) (\<lambda>_ s6. and_then (parse_body s6) (\<lambda>_ s7. (Some (cp_program s7), s7))))"
    by simp
qed simp

lemma function_contract:
  assumes "fun_good s" "cp_program s = zero_program"
  shows "fun_contract s (\<lambda>f s'. f = cp_program s' \<and> closed s') (parse_function s)"
proof -
  have zero: "s\<lparr>cp_program := zero_program\<rparr> = s" using assms(2) by simp
  let ?named = "\<lambda>name. set_program (\<lambda>p. p\<lparr>pr_function_name := name, pr_is_main := (name = char_bytes ''main'')\<rparr>)"
  let ?rest = "\<lambda>s4. and_then (expect TOK_RPAREN (in_quotes '')'') s4) (\<lambda>_ s5.
    if pr_is_main (cp_program s5) \<and> pr_parameter_count (cp_program s5) \<noteq> 0
    then fail ''Stage 25 main must have no parameters'' s5
    else and_then (expect TOK_LBRACE (in_quotes ''{'') s5) (\<lambda>_ s6. and_then (parse_body s6) (\<lambda>_ s7. (Some (cp_program s7), s7))))"
  let ?list = "\<lambda>s3. if current_is w_void s3 then (Some (), advance s3)
    else if current_kind s3 \<noteq> TOK_RPAREN then parse_parameters 4 s3 else (Some (), s3)"
  have named: "fun_contract s1 (\<lambda>f s'. f = cp_program s' \<and> closed s')
      (and_then (expect TOK_LPAREN (in_quotes ''('') (advance (?named name s1))) (\<lambda>_ s3. and_then (?list s3) (\<lambda>_ s4. ?rest s4)))"
    if s1: "fun_good s1" "cp_program s1 = zero_program" "current_kind s1 = TOK_IDENTIFIER" for s1 name
  proof -
    note n = name_good [where name = name and b = "name = char_bytes ''main''", OF s1(1,2)]
    have sol: "solid (current_kind (?named name s1))" using s1(3) by (simp add: set_program_def current_kind_def current_token_def)
    note t = funct.next_token [OF conjunct1 [OF n] sol]
    show ?thesis
    proof (rule funct.after [OF funct.step_trans [OF conjunct2 [OF n] t(2)]], rule funct.bind [OF funct.expects [OF t(1)]])
      fix x :: unit and s3 assume s3: "fun_good s3" "passes (advance (?named name s1)) s3"
      have "locals_of s3 = 0" "pr_parameter_count (cp_program s3) = 0"
        using s3(2) s1(2) by (simp_all add: passes_def quiet_def set_program_def zero_program_def)
      from funct.bind [OF parameter_list_contract [OF s3(1) this] function_rest]
      show "fun_contract s3 (\<lambda>f s'. f = cp_program s' \<and> closed s') (and_then (?list s3) (\<lambda>_ s4. ?rest s4))" .
    qed simp
  qed
  show ?thesis unfolding parse_function_def zero
  proof (rule funct.bind [OF funct.expects_word [OF assms(1)]])
    fix x :: unit and s1 assume s1: "fun_good s1" "passes s s1"
    then have "cp_program s1 = zero_program" using assms(2) by (simp add: passes_def quiet_def)
    from named [OF s1(1) this]
    show "fun_contract s1 (\<lambda>f s'. f = cp_program s' \<and> closed s')
        (if current_kind s1 \<noteq> TOK_IDENTIFIER then fail ''expected function name'' s1
         else case copy_identifier (source_of s1) (current_token s1) 64 of
           None \<Rightarrow> fail ''function name is too long'' s1
         | Some name \<Rightarrow> let s2 = advance (?named name s1) in
           and_then (expect TOK_LPAREN (in_quotes ''('') s2) (\<lambda>_ s3. and_then (?list s3) (\<lambda>_ s4. ?rest s4)))"
      by (simp add: Let_def split: option.split)
  qed
qed

section \<open>Translation units\<close>

text \<open>The level of the unit: the program is that of the last function.\<close>

definition unit_step :: "pstate \<Rightarrow> pstate \<Rightarrow> bool" where
  "unit_step s s' \<longleftrightarrow> source_of s' = source_of s \<and> cp_fuel_out s' = cp_fuel_out s
     \<and> length (cp_structs s) \<le> length (cp_structs s')"

interpretation units: parser_level ready unit_step
  by unfold_locales (auto simp: unit_step_def quiet_def ready_def)

abbreviation (input) "unit_contract \<equiv> contract ready unit_step"

lemma parse_function_contract:
  assumes "ready s"
  shows "unit_contract s (\<lambda>f s'. function_sound f) (parse_function s)"
proof -
  let ?s0 = "s\<lparr>cp_program := zero_program\<rparr>"
  have s0: "fun_good ?s0"
    using assms by (auto simp: fun_good_def ready_def settled_def current_kind_def current_token_def function_parts_def
        statements_ok_def inits_ok_def zero_program_def)
  have same: "parse_function ?s0 = parse_function s" by (simp add: parse_function_def)
  have "fun_contract ?s0 (\<lambda>f s'. f = cp_program s' \<and> closed s') (parse_function s)"
    using function_contract [OF s0] same by simp
  then show ?thesis
    by (auto simp: contract_def unit_step_def fun_step_def fun_good_def function_sound_def closed_def ready_def source_of_def
        split: prod.splits option.splits)
qed

text \<open>External declarations.\<close>

lemma external_parameters_contract:
  "ready s \<Longrightarrow> unit_contract s (\<lambda>_ _. True) (external_parameters n s)"
proof (induction n arbitrary: s)
  case (Suc n)
  have go: "unit_contract s (\<lambda>_ _. True) (if current_kind s3 \<noteq> TOK_COMMA then (Some n, s3) else external_parameters n (advance s3))"
    if s3: "ready s3" "unit_step s s3" for s3
  proof -
    have "unit_contract s3 (\<lambda>_ _. True) (external_parameters n (advance s3))" if "current_kind s3 = TOK_COMMA"
    proof -
      have sol: "solid (current_kind s3)" using that by simp
      note t = units.next_token [OF s3(1) sol]
      show ?thesis by (rule units.after [OF t(2) Suc.IH [OF t(1)]])
    qed
    then show ?thesis using s3 units.step_refl [OF s3(1)] by (intro units.after [OF s3(2)]) simp
  qed
  have name: "unit_contract s (\<lambda>_ _. True) (let s3 = advance s2 in
      if current_kind s3 \<noteq> TOK_COMMA then (Some n, s3) else external_parameters n (advance s3))"
    if "ready s2" "unit_step s s2" "current_kind s2 = TOK_IDENTIFIER" for s2
    using go units.next_token [OF that(1)] that units.step_trans by (simp add: Let_def)
  have star: "ready (if current_kind s1 = TOK_STAR then advance s1 else s1)
      \<and> unit_step s (if current_kind s1 = TOK_STAR then advance s1 else s1)" if "ready s1" "unit_step s s1" for s1
    using units.next_token [OF that(1)] that units.step_trans by simp
  show ?case
  proof (cases "current_is w_int s \<or> current_is w_char s")
    case True
    then have sol: "solid (current_kind s)" using current_is_solid by blast
    note t = units.next_token [OF Suc.prems sol]
    define s2 where "s2 = (if current_kind (advance s) = TOK_STAR then advance (advance s) else advance s)"
    have s2: "ready s2" "unit_step s s2" "cp_fuel_out s2 = cp_fuel_out s"
      using star [OF t(1,2)] by (auto simp: s2_def)
    show ?thesis unfolding external_parameters.simps Let_def s2_def [symmetric]
      using name [OF s2(1,2)] True s2(3) by (simp add: Let_def)
  qed simp
qed simp

lemma external_contract:
  assumes "ready s"
  shows "unit_contract s (\<lambda>u' s'. length (tu_externals u) < MAX_EXTERNALS
    \<and> (\<exists>x. u' = u\<lparr>tu_externals := tu_externals u @ [x]\<rparr>)) (parse_external_declaration u s)"
  unfolding parse_external_declaration_def
proof (rule units.bind [OF units.expects_word [OF assms]], rule units.bind [OF units.expects_word], assumption)
  fix x y :: unit and s1 s2 assume s2: "ready s2"
  let ?Q = "\<lambda>u' s'. length (tu_externals u) < MAX_EXTERNALS \<and> (\<exists>x. u' = u\<lparr>tu_externals := tu_externals u @ [x]\<rparr>)"
  let ?list = "\<lambda>s3. if current_is w_void s3 then (Some 4, advance s3)
             else if current_kind s3 \<noteq> TOK_RPAREN then external_parameters 4 s3 else (Some 4, s3)"
  let ?tail = "\<lambda>name free s4. and_then (expect TOK_RPAREN (in_quotes '')'') s4) (\<lambda>_ s5.
               and_then (expect TOK_SEMICOLON (in_quotes '';'') s5) (\<lambda>_ s6.
                 if find_external u name \<noteq> None then fail ''duplicate external declaration'' s6
                 else if length (tu_externals u) \<ge> MAX_EXTERNALS then fail ''too many external declarations'' s6
                 else (Some (u\<lparr>tu_externals := tu_externals u @ [\<lparr>xt_name = name, xt_parameter_count = 4 - free\<rparr>]\<rparr>), s6)))"
  have end_: "unit_contract s4 ?Q (?tail name free s4)" if "ready s4" for s4 name free
    by (rule units.bind [OF units.expects [OF that]], simp, rule units.bind [OF units.expects], assumption, simp)
      (use units.step_refl in auto)
  have list_: "unit_contract s3 (\<lambda>_ _. True) (?list s3)" if "ready s3" for s3
    using units.next_token [OF that current_is_solid] external_parameters_contract [OF that, of 4] that units.step_refl [OF that]
    by simp
  have name: "unit_contract s2 ?Q (and_then (expect TOK_LPAREN (in_quotes ''('') (advance s2)) (\<lambda>_ s3.
      and_then (?list s3) (\<lambda>free s4. ?tail name free s4)))" if "current_kind s2 = TOK_IDENTIFIER" for name
  proof -
    have sol: "solid (current_kind s2)" using that by simp
    note t = units.next_token [OF s2 sol]
    show ?thesis
      by (rule units.after [OF t(2)], rule units.bind [OF units.expects [OF t(1)]], simp, rule units.bind [OF list_ end_])
  qed
  show "unit_contract s2 ?Q (if current_kind s2 \<noteq> TOK_IDENTIFIER then fail ''expected external function name'' s2
      else case copy_identifier (source_of s2) (current_token s2) 64 of
        None \<Rightarrow> fail ''external function name is too long'' s2
      | Some name \<Rightarrow> and_then (expect TOK_LPAREN (in_quotes ''('') (advance s2)) (\<lambda>_ s3.
          and_then (?list s3) (\<lambda>free s4. ?tail name free s4)))"
    using name by (simp split: option.split)
qed

text \<open>Struct types: a round for every place, and one for the brace.\<close>

lemma struct_members_contract:
  "ready s \<Longrightarrow> length members \<le> MAX_STRUCT_MEMBERS \<Longrightarrow> MAX_STRUCT_MEMBERS + 1 \<le> n + length members \<Longrightarrow>
   unit_contract s (\<lambda>_ s'. current_kind s' = TOK_RBRACE) (struct_members n members offset s)"
proof (induction n arbitrary: s members offset)
  case (Suc n)
  have go: "unit_contract s (\<lambda>_ s'. current_kind s' = TOK_RBRACE) (and_then (expect TOK_SEMICOLON (in_quotes '';'') (advance (advance s))) (\<lambda>_ s2.
      struct_members n (members @ [m]) offset' s2))"
    if k: "current_is w_int s \<or> current_is w_char s" "current_kind (advance s) = TOK_IDENTIFIER" "length members < MAX_STRUCT_MEMBERS" for m offset'
  proof -
    have sol: "solid (current_kind s)" "solid (current_kind (advance s))" using k current_is_solid by auto
    note t = units.next_token [OF Suc.prems(1) sol(1)]
    note t2 = units.next_token [OF t(1) sol(2)]
    show ?thesis
      by (rule units.after [OF units.step_trans [OF t(2) t2(2)]], rule units.bind [OF units.expects [OF t2(1)]], simp,
          rule Suc.IH) (use k(3) Suc.prems(3) in auto)
  qed
  show ?case using go Suc.prems(1) units.step_refl [OF Suc.prems(1)]
    by (auto simp: Let_def split: option.split)
qed simp

lemma struct_definition_contract:
  assumes "ready s"
  shows "unit_contract s (\<lambda>_ s'. length (cp_structs s) < MAX_STRUCTS \<and> length (cp_structs s) < length (cp_structs s'))
    (parse_struct_definition s)"
  unfolding parse_struct_definition_def
proof (rule units.bind [OF units.expects_word [OF assms]])
  fix x :: unit and s1 assume s1: "ready s1" "unit_step s s1"
  let ?Q = "\<lambda>(_ :: unit) s'. length (cp_structs s) < MAX_STRUCTS \<and> length (cp_structs s) < length (cp_structs s')"
  let ?tail = "\<lambda>name members offset s3. if members = [] then fail ''empty structs are not supported'' s3
             else and_then (expect TOK_SEMICOLON (in_quotes '';'') (advance s3)) (\<lambda>_ s4.
               (Some (), s4\<lparr>cp_structs := cp_structs s4
                 @ [\<lparr>sd_name = name, sd_members = members, sd_size = round_up offset\<rparr>]\<rparr>))"
  have end_: "unit_contract s3 ?Q (?tail name members offset s3)"
    if "ready s3" "length (cp_structs s) \<le> length (cp_structs s3)" "length (cp_structs s) < MAX_STRUCTS" "current_kind s3 = TOK_RBRACE"
    for s3 name members offset
  proof -
    have sol: "solid (current_kind s3)" using that by simp
    note t = units.next_token [OF that(1) sol]
    have "unit_contract s3 ?Q (and_then (expect TOK_SEMICOLON (in_quotes '';'') (advance s3)) (\<lambda>_ s4.
               (Some (), s4\<lparr>cp_structs := cp_structs s4
                 @ [\<lparr>sd_name = name, sd_members = members, sd_size = round_up offset\<rparr>]\<rparr>)))"
      by (rule units.after [OF t(2)], rule units.bind [OF units.expects [OF t(1)]], simp)
        (use that t in \<open>auto simp: unit_step_def ready_def settled_def current_kind_def current_token_def source_of_def
            passes_def quiet_def\<close>)
    then show ?thesis by simp
  qed
  have members: "unit_contract s1 ?Q (and_then (expect TOK_LBRACE (in_quotes ''{'') (advance s1)) (\<lambda>_ s2.
      and_then (struct_members (MAX_STRUCT_MEMBERS + 1) [] 0 s2) (\<lambda>(members, offset) s3. ?tail name members offset s3)))"
    if k: "current_kind s1 = TOK_IDENTIFIER" "length (cp_structs s1) < MAX_STRUCTS" for name
  proof -
    have sol: "solid (current_kind s1)" using k by simp
    note t = units.next_token [OF s1(1) sol]
    show ?thesis
    proof (rule units.after [OF t(2)], rule units.bind [OF units.expects [OF t(1)]])
      fix y :: unit and s2 assume s2: "ready s2" "unit_step (advance s1) s2"
      show "unit_contract s2 ?Q (and_then (struct_members (MAX_STRUCT_MEMBERS + 1) [] 0 s2)
          (\<lambda>(members, offset) s3. ?tail name members offset s3))"
      proof (rule units.bind [OF struct_members_contract [OF s2(1)]])
        fix r s3 assume s3: "ready s3" "unit_step s2 s3" "current_kind s3 = TOK_RBRACE"
        have "length (cp_structs s) \<le> length (cp_structs s3)" "length (cp_structs s) < MAX_STRUCTS"
          using s1(2) s2(2) s3(2) t(2) k(2) by (auto simp: unit_step_def)
        from end_ [OF s3(1) this s3(3)] show "unit_contract s3 ?Q ((case r of (members, offset) \<Rightarrow> \<lambda>s3. ?tail name members offset s3) s3)"
          by (cases r) simp
      qed simp_all
    qed simp
  qed
  show "unit_contract s1 ?Q (if current_kind s1 \<noteq> TOK_IDENTIFIER then fail ''expected struct name'' s1
       else if length (cp_structs s1) \<ge> MAX_STRUCTS then fail ''too many struct definitions'' s1
       else if find_struct_by_name s1 (current_token s1) \<noteq> None then fail ''duplicate struct definition'' s1
       else case copy_identifier (source_of s1) (current_token s1) 64 of
         None \<Rightarrow> fail ''struct name is too long'' s1
       | Some name \<Rightarrow> and_then (expect TOK_LBRACE (in_quotes ''{'') (advance s1)) (\<lambda>_ s2.
           and_then (struct_members (MAX_STRUCT_MEMBERS + 1) [] 0 s2) (\<lambda>(members, offset) s3. ?tail name members offset s3)))"
    using members by (simp split: option.split)
qed

text \<open>A unit: sound functions with different names, in tables of bounded size, and \<open>main\<close> where the index
  says.\<close>

definition unit_sound :: "translation_unit_t \<Rightarrow> bool" where
  "unit_sound u \<longleftrightarrow> list_all function_sound (tu_functions u) \<and> distinct (map pr_function_name (tu_functions u))
     \<and> length (tu_functions u) \<le> MAX_FUNCTIONS \<and> length (tu_externals u) \<le> MAX_EXTERNALS
     \<and> (\<forall>i. tu_main_index u = Some i \<longrightarrow> i < length (tu_functions u) \<and> pr_is_main (tu_functions u ! i))"

lemma find_index_None: "find_index P xs = None \<longleftrightarrow> (\<forall>x\<in>set xs. \<not> P x)"
  by (induction xs) auto

lemma add_function_sound:
  assumes "unit_sound u" "function_sound f" "length (tu_functions u) < MAX_FUNCTIONS" "add_function u f s = (Some u', s')"
  shows "unit_sound u' \<and> s' = s \<and> length (tu_functions u') = Suc (length (tu_functions u)) \<and> tu_externals u' = tu_externals u"
proof -
  have "pr_function_name f \<notin> pr_function_name ` set (tu_functions u)"
    using assms(4) by (auto simp: add_function_def fail_def find_function_def find_index_None split: if_splits)
  with assms show ?thesis
    by (auto simp: add_function_def fail_def unit_sound_def nth_append split: if_splits)
qed

text \<open>The places that are left in the three tables.\<close>

definition places :: "translation_unit_t \<Rightarrow> pstate \<Rightarrow> nat" where
  "places u s = (MAX_STRUCTS - length (cp_structs s)) + (MAX_EXTERNALS - length (tu_externals u))
     + (MAX_FUNCTIONS - length (tu_functions u))"

lemma parse_units_contract:
  "ready s \<Longrightarrow> unit_sound u \<Longrightarrow> places u s < k \<Longrightarrow> unit_contract s (\<lambda>u' s'. unit_sound u') (parse_units k u s)"
proof (induction k arbitrary: s u)
  case (Suc k)
  note s = Suc.prems
  have struct_: "unit_contract s (\<lambda>u' s'. unit_sound u') (and_then (parse_struct_definition s) (\<lambda>_ s1. parse_units k u s1))"
    by (rule units.bind [OF struct_definition_contract [OF s(1)]], rule Suc.IH) (use s in \<open>auto simp: places_def\<close>)
  have extern_: "unit_contract s (\<lambda>u' s'. unit_sound u') (and_then (parse_external_declaration u s) (\<lambda>u1 s1. parse_units k u1 s1))"
    by (rule units.bind [OF external_contract [OF s(1)]], rule Suc.IH)
      (use s in \<open>auto simp: places_def unit_sound_def unit_step_def\<close>)
  have function_: "unit_contract s (\<lambda>u' s'. unit_sound u') (and_then (parse_function s) (\<lambda>f s1.
      and_then (add_function u f s1) (\<lambda>u1 s2. parse_units k u1 s2)))" if "length (tu_functions u) < MAX_FUNCTIONS"
  proof (rule units.bind [OF parse_function_contract [OF s(1)]])
    fix f s1 assume s1: "ready s1" "unit_step s s1" "function_sound f"
    have add: "unit_contract s1 (\<lambda>u1 s2. unit_sound u1 \<and> s2 = s1 \<and> length (tu_functions u1) = Suc (length (tu_functions u))
        \<and> tu_externals u1 = tu_externals u) (add_function u f s1)"
    proof (cases "add_function u f s1")
      case (Pair r s2)
      show ?thesis
      proof (cases r)
        case None
        with Pair show ?thesis by (auto simp: add_function_def fail_def split: if_splits)
      next
        case (Some u1)
        with add_function_sound [OF s(2) s1(3) that, of s1 u1 s2] Pair s1(1) units.step_refl [OF s1(1)] show ?thesis by auto
      qed
    qed
    show "unit_contract s1 (\<lambda>u' s'. unit_sound u') (and_then (add_function u f s1) (\<lambda>u1 s2. parse_units k u1 s2))"
      by (rule units.bind [OF add], rule Suc.IH) (use s(3) s1(2) that in \<open>auto simp: places_def unit_step_def\<close>)
  qed
  show ?case using struct_ extern_ function_ s units.step_refl [OF s(1)] by simp
qed simp

lemma fail_outcome: "fail m s = (None, s') \<Longrightarrow> cp_fuel_out s' = cp_fuel_out s" "fail m s \<noteq> (Some x, s')"
  by (auto simp: fail_def)

lemma validate_nodes_run:
  "validate_nodes u nodes s = (r, s') \<Longrightarrow> cp_fuel_out s' = cp_fuel_out s
    \<and> (r = Some () \<longrightarrow> s' = s \<and> list_all (\<lambda>nd. call_error u nd = None) nodes)"
  by (induction u nodes s rule: validate_nodes.induct) (auto simp: fail_def split: option.splits)

lemma validate_expressions_run:
  "validate_expressions u es s = (r, s') \<Longrightarrow> cp_fuel_out s' = cp_fuel_out s
    \<and> (r = Some () \<longrightarrow> s' = s \<and> list_all (\<lambda>e. list_all (\<lambda>nd. call_error u nd = None) (ex_nodes e)) es)"
proof (induction u es s arbitrary: r s' rule: validate_expressions.induct)
  case (2 u e es s)
  obtain r1 s1 where r1: "validate_nodes u (ex_nodes e) s = (r1, s1)" by (metis surj_pair)
  note first = validate_nodes_run [OF r1]
  show ?case
  proof (cases r1)
    case None
    then show ?thesis using first 2(2) r1 by (simp add: expression_validate_calls_def)
  next
    case (Some x)
    then have "validate_expressions u es s1 = (r, s')" using 2(2) r1 by (simp add: expression_validate_calls_def)
    moreover have "expression_validate_calls u e s = (Some x, s1)" using r1 Some by (simp add: expression_validate_calls_def)
    ultimately show ?thesis using 2(1) [of x s1 r s'] first Some by auto
  qed
qed simp

text \<open>The expressions whose calls are checked.\<close>

definition checked_of :: "program_t \<Rightarrow> expression_t list" where
  "checked_of prog = map lc_initializer (filter lc_has_initializer (drop (pr_parameter_count prog) (pr_locals prog)))
     @ concat (map checked_expressions (pr_statements prog))
     @ (if pr_has_explicit_return prog then [pr_return_expression prog] else [])"

definition calls_ok :: "translation_unit_t \<Rightarrow> program_t \<Rightarrow> bool" where
  "calls_ok u prog \<longleftrightarrow> list_all (\<lambda>e. list_all (\<lambda>nd. call_error u nd = None) (ex_nodes e)) (checked_of prog)"

lemma validate_functions_run:
  "validate_functions u fs s = (r, s') \<Longrightarrow> cp_fuel_out s' = cp_fuel_out s
    \<and> (r = Some () \<longrightarrow> s' = s \<and> list_all (calls_ok u) fs)"
proof (induction u fs s arbitrary: r s' rule: validate_functions.induct)
  case (2 u f fs s)
  obtain r1 s1 where r1: "validate_program_calls u f s = (r1, s1)" by (metis surj_pair)
  note first = validate_expressions_run [OF r1 [unfolded validate_program_calls_def checked_of_def [symmetric]]]
  show ?case
  proof (cases r1)
    case None
    then show ?thesis using first 2(2) r1 by simp
  next
    case (Some x)
    then have "validate_functions u fs s1 = (r, s')" using 2(2) r1 by simp
    then show ?thesis using 2(1) [of x s1 r s'] first Some r1 by (auto simp: calls_ok_def)
  qed
qed simp

lemma parse_translation_unit_run:
  assumes "settled s" "length (pr_locals (cp_program s)) \<le> MAX_LOCALS" "parse_translation_unit s = (r, s')"
  shows "cp_fuel_out s' = cp_fuel_out s"
    "r = Some u \<Longrightarrow> unit_sound u \<and> tu_main_index u \<noteq> None \<and> list_all (calls_ok u) (tu_functions u)"
proof -
  let ?s0 = "advance (s\<lparr>cp_structs := []\<rparr>)"
  have s0: "ready ?s0" "cp_fuel_out ?s0 = cp_fuel_out s"
    using assms(1,2) settled_advance [of "s\<lparr>cp_structs := []\<rparr>"]
    by (auto simp: ready_def settled_def current_kind_def current_token_def)
  have z: "unit_sound zero_unit" by (simp add: unit_sound_def zero_unit_def)
  have p: "places zero_unit ?s0 < MAX_STRUCTS + MAX_EXTERNALS + MAX_FUNCTIONS + 1" by (simp add: places_def)
  obtain r1 s1 where r1: "parse_units (MAX_STRUCTS + MAX_EXTERNALS + MAX_FUNCTIONS + 1) zero_unit ?s0 = (r1, s1)" by (metis surj_pair)
  have c: "unit_contract ?s0 (\<lambda>u' s'. unit_sound u') (r1, s1)"
    using parse_units_contract [OF s0(1) z p] r1 by simp
  show "cp_fuel_out s' = cp_fuel_out s"
    "r = Some u \<Longrightarrow> unit_sound u \<and> tu_main_index u \<noteq> None \<and> list_all (calls_ok u) (tu_functions u)"
    using c s0(2) assms(3) r1 validate_functions_run
    by (cases r1; auto simp: parse_translation_unit_def and_then_def fail_def unit_step_def
        split: if_splits prod.splits option.splits dest!: validate_functions_run)+
qed

end
