(* ===== verification/T32_Emit_Relation.thy ===== *)
theory T32_Emit_Relation
  imports T32_Function
begin

text \<open>
  What the emitter of expressions does to its state, whatever the expression is: it adds lines without
  labels and jumps, and it sets the scratch depth and messages. A relation that allows this much
  (locale \<open>emitter_relation\<close>) holds between the states before and after.
\<close>

section \<open>Relations on the emitter\<close>

fun straight :: "asm_line \<Rightarrow> bool" where
  "straight (Label l) = False"
| "straight (Jump l) = False"
| "straight (Jump_zero a l) = False"
| "straight _ = True"

definition relates :: "(emitter \<Rightarrow> emitter \<Rightarrow> bool) \<Rightarrow> emitter \<Rightarrow> ('a \<times> emitter) option \<Rightarrow> bool" where
  "relates R em r \<longleftrightarrow> (\<forall>x em'. r = Some (x, em') \<longrightarrow> R em em')"

lemma relates_simps [simp]: "relates R em None" "relates R em (Some (x, em')) = R em em'"
  by (auto simp: relates_def)

lemma relates_bind:
  assumes "relates R em r" "\<And>x em'. R em em' \<Longrightarrow> relates R em (f (x, em'))"
  shows "relates R em (Option.bind r f)"
  using assms by (cases r) (auto simp: relates_def)

lemma straight_local [simp]:
  "list_all straight (emit_local_address prog i)" "list_all straight (emit_local_address_to prog i d)"
  "list_all straight (emit_load_local prog i d)" "list_all straight (emit_store_local prog i d)"
  "list_all straight (emit_load_local_value prog i d)" "list_all straight (emit_store_local_value prog i d)"
  "list_all straight (emit_truncate_char d)"
  by (simp_all add: emit_local_address_def emit_local_address_to_def emit_load_local_def emit_store_local_def
      emit_load_local_value_def emit_store_local_value_def emit_truncate_char_def Let_def)

lemma straight_operand [simp]:
  "list_all straight (emit_operand prog op d)" "list_all straight (emit_member prog node d)"
  by (simp_all add: emit_operand_def emit_member_def Let_def split: operand_kind_t.split)

lemma straight_operator: "emit_operator k d n = Some ls \<Longrightarrow> list_all straight ls"
  by (auto simp: emit_operator_def emit_bool_nonzero_def emit_bool_invert_def emit_signed_less_than_def split: if_splits)

text \<open>What every relation with these laws has in common: an expression preserves it.\<close>

locale emitter_relation =
  fixes R :: "emitter \<Rightarrow> emitter \<Rightarrow> bool"
  assumes same: "R em em"
    and chain: "R em em1 \<Longrightarrow> R em1 em2 \<Longrightarrow> R em em2"
    and adds_straight: "list_all straight ls \<Longrightarrow> R em em' \<Longrightarrow> R em (emit ls em')"
    and sets_depth: "R em em' \<Longrightarrow> R em (em'\<lparr>em_depth := d\<rparr>)"
    and sets_err: "R em em' \<Longrightarrow> R em (em'\<lparr>em_err := x\<rparr>)"
begin

lemma onward: "R em em' \<Longrightarrow> relates R em' r \<Longrightarrow> relates R em r"
  using chain by (auto simp: relates_def)

lemma scratch:
  "R em em' \<Longrightarrow> R em (scratch_load_slot slot d em')" "R em em' \<Longrightarrow> R em (scratch_release_to slot em')"
  "scratch_store d em' = (r, em'') \<Longrightarrow> R em em' \<Longrightarrow> R em em''"
  by (auto simp: scratch_load_slot_def scratch_release_to_def scratch_store_def Let_def
      intro!: adds_straight sets_depth sets_err split: if_splits)

lemma args: "R em em' \<Longrightarrow> R em (load_args i slots em')"
  by (induction i slots em' rule: load_args.induct) (auto simp: scratch)

lemma node:
  "relates R em (emit_expression_node k p e i d n em)" "relates R em (emit_args k p e as slots em)"
proof (induction k arbitrary: i d n em as slots)
  case 0
  { case 1 then show ?case by simp next
    case 2 then show ?case by (cases as) (auto simp: same) }
next
  case (Suc k)
  have IH: "relates R em (emit_expression_node k p e i d n em')" if "R em em'" for i d n em em'
    using onward [OF that Suc.IH(1)] .
  have IHs: "relates R em (emit_args k p e as slots em')" if "R em em'" for as slots em em'
    using onward [OF that Suc.IH(2)] .
  { case 1
    have right: "relates R em (case scratch_store d em1 of (None, em3) \<Rightarrow> Some (False, em3)
        | (Some slot, em3) \<Rightarrow> do { (ok, em4) \<leftarrow> emit_expression_node k p e j n (n + 1) em3;
            if \<not> ok then Some (False, em4)
            else Some (True, scratch_release_to (em_depth em1) (scratch_load_slot slot d em4)) })" if "R em em1" for em1 j
    proof -
      obtain r em3 where s: "scratch_store d em1 = (r, em3)" by (metis surj_pair)
      have a: "R em em3" using scratch(3) [OF s that] .
      have "relates R em (do { (ok, em4) \<leftarrow> emit_expression_node k p e j n (n + 1) em3;
            if \<not> ok then Some (False, em4)
            else Some (True, scratch_release_to (em_depth em1) (scratch_load_slot slot d em4)) })" for slot
        by (rule relates_bind [OF IH [OF a]]) (auto intro: scratch)
      then show ?thesis using IH [OF that] a s by (simp split: option.split)
    qed
    show ?case
    proof (cases "nd_kind (ex_nodes e ! i)")
      case EXPR_BINARY
      let ?nd = "ex_nodes e ! i"
      have tail: "relates R em (if \<not> ok2 then Some (False, em2)
          else let em5 = (if (nd_operator_kind ?nd = TOK_PLUS \<or> nd_operator_kind ?nd = TOK_MINUS)
              \<and> nd_pointer_scale ?nd = 4 then emit [Movi 10 4, Alu AL_mul n n 10] em2 else em2) in
            case emit_operator (nd_operator_kind ?nd) d n of None \<Rightarrow> Some (False, em5) | Some ls \<Rightarrow> Some (True, emit ls em5))"
        if "R em em2" for ok2 em2
        using that straight_operator by (auto simp: Let_def adds_straight split: option.split)
      show ?thesis
      proof (cases "i < length (ex_nodes e) \<and> n < 10")
        case True
        show ?thesis using True EXPR_BINARY
          apply (simp add: Let_def)
          apply (rule relates_bind [OF IH [OF same]])
          subgoal for x em'
            using tail
            by (cases "expression_node_contains_call k e (nd_right ?nd)")
              (auto simp: Let_def intro!: relates_bind right [simplified] IH)
          done
      qed (use EXPR_BINARY in \<open>auto simp: Let_def same sets_err\<close>)
    qed (auto simp: Let_def same adds_straight args scratch intro!: relates_bind IH IHs split: option.splits)
  next
    case 2
    show ?case
    proof (cases as)
      case (Cons a bs)
      have step: "relates R em (if \<not> ok then Some (None, em1) else case scratch_store 0 em1 of (None, em2) \<Rightarrow> Some (None, em2)
          | (Some slot, em2) \<Rightarrow> emit_args k p e bs (slots @ [slot]) em2)" if "R em em1" for ok em1
      proof -
        obtain r em2 where s: "scratch_store 0 em1 = (r, em2)" by (metis surj_pair)
        show ?thesis using scratch(3) [OF s that] IHs that s by (simp split: option.split)
      qed
      show ?thesis unfolding Cons emit_args.simps
        by (rule relates_bind [OF IH [OF same]]) (use step in simp)
    qed (simp add: same)
  }
qed

lemma expression: "R em em' \<Longrightarrow> relates R em (emit_expression k p e d n em')"
  using onward [OF sets_depth node(1)] by (simp add: emit_expression_def sets_depth split: option.split)

end

end
