(* ===== verification/T32_Compile_Laws.thy ===== *)
theory T32_Compile_Laws
  imports T32_Unit_Laws T32_Emit_Relation
begin

text \<open>
  Parser and emitter together. The tables of a function that the parser has accepted represent a
  function tree; the fuel of the emitter suffices for them; and a machine that has the emitted code of
  the unit and is called at the label of a function returns with the value of the tree.
\<close>

section \<open>The tree of a function\<close>

text \<open>Links lead forward, so a statement in front of \<open>n\<close> others in its table nests at most \<open>2 * n\<close> deep.\<close>

lemma statements_okD:
  assumes "statements_ok prog" "i < length (pr_statements prog)"
  shows "parts_ok prog (pr_statements prog ! i)"
    "st_then_first (pr_statements prog ! i) = Some j \<Longrightarrow> i < j \<and> j < length (pr_statements prog)"
    "st_else_first (pr_statements prog ! i) = Some j \<Longrightarrow> i < j \<and> j < length (pr_statements prog)"
    "st_next (pr_statements prog ! i) = Some j \<Longrightarrow> i < j \<and> j < length (pr_statements prog)"
proof -
  have a: "parts_ok prog (pr_statements prog ! i)" "links_ok (length (pr_statements prog)) i (pr_statements prog ! i)"
    using assms unfolding statements_ok_def by blast+
  show "parts_ok prog (pr_statements prog ! i)" by (rule a(1))
  show "st_then_first (pr_statements prog ! i) = Some j \<Longrightarrow> i < j \<and> j < length (pr_statements prog)"
    "st_else_first (pr_statements prog ! i) = Some j \<Longrightarrow> i < j \<and> j < length (pr_statements prog)"
    "st_next (pr_statements prog ! i) = Some j \<Longrightarrow> i < j \<and> j < length (pr_statements prog)"
    using a(2) unfolding links_ok_def later_def by blast+
qed

lemma statement_tree:
  assumes ok: "statements_ok prog" and i: "i < length (pr_statements prog)"
    and seq: "\<And>link. (\<And>j. link = Some j \<Longrightarrow> i < j \<and> j < length (pr_statements prog)) \<Longrightarrow> \<exists>ss. reads_seq prog link ss"
  shows "\<exists>s. reads_stmt prog i s"
proof -
  let ?st = "pr_statements prog ! i"
  have e: "entry prog i ?st" using i by (simp add: entry_def)
  have p: "parts_ok prog ?st" using statements_okD(1) [OF ok i] .
  obtain as where as: "reads_seq prog (st_then_first ?st) as" using seq statements_okD(2) [OF ok i] by blast
  obtain bs where bs: "reads_seq prog (st_else_first ?st) bs" using seq statements_okD(3) [OF ok i] by blast
  show ?thesis
  proof (cases "st_kind ?st")
    case STMT_ASSIGN
    with p r_assign [OF e STMT_ASSIGN] show ?thesis by (auto simp: parts_ok_def has_local_def sound_expression_def)
  next
    case STMT_STORE_INDIRECT
    with p r_through [OF e STMT_STORE_INDIRECT] show ?thesis by (auto simp: parts_ok_def has_local_def sound_expression_def)
  next
    case STMT_STORE_ARRAY
    with p r_element [OF e STMT_STORE_ARRAY] show ?thesis by (fastforce simp: parts_ok_def has_local_def sound_expression_def)
  next
    case STMT_STORE_MEMBER
    with p r_member [OF e STMT_STORE_MEMBER] show ?thesis by (auto simp: parts_ok_def has_local_def sound_expression_def)
  next
    case STMT_EXPR
    with p r_do [OF e STMT_EXPR] show ?thesis by (auto simp: parts_ok_def sound_expression_def)
  next
    case STMT_RETURN
    with p r_return [OF e STMT_RETURN] show ?thesis by (auto simp: parts_ok_def sound_expression_def)
  next
    case STMT_BREAK
    with r_break [OF e] show ?thesis by blast
  next
    case STMT_CONTINUE
    with r_continue [OF e] show ?thesis by blast
  next
    case STMT_IF
    with p r_if [OF e STMT_IF _ as bs] show ?thesis by (auto simp: parts_ok_def sound_expression_def)
  next
    case STMT_WHILE
    with p r_while [OF e STMT_WHILE _ as] show ?thesis by (auto simp: parts_ok_def sound_expression_def)
  next
    case STMT_FOR
    with p r_for [OF e STMT_FOR _ _ _ _ _ as] show ?thesis by (fastforce simp: parts_ok_def has_local_def sound_expression_def)
  qed
qed

lemma sequence_tree:
  assumes ok: "statements_ok prog"
  shows "(\<And>i. link = Some i \<Longrightarrow> i < length (pr_statements prog)) \<Longrightarrow> \<exists>ss. reads_seq prog link ss"
proof (induction "case link of None \<Rightarrow> 0 | Some i \<Rightarrow> length (pr_statements prog) - i" arbitrary: link rule: less_induct)
  case less
  show ?case
  proof (cases link)
    case None
    then show ?thesis using r_none by blast
  next
    case (Some i)
    then have i: "i < length (pr_statements prog)" using less.prems by simp
    have later: "\<exists>ss. reads_seq prog link' ss"
      if "\<And>j. link' = Some j \<Longrightarrow> i < j \<and> j < length (pr_statements prog)" for link'
      by (rule less.hyps) (use that Some i in \<open>auto split: option.split\<close>)
    obtain s where "reads_stmt prog i s" using statement_tree [OF ok i later] by blast
    moreover obtain ss where "reads_seq prog (st_next (pr_statements prog ! i)) ss"
      using later statements_okD(4) [OF ok i] by blast
    ultimately show ?thesis using r_some Some by blast
  qed
qed

lemma initializers_tree:
  "(\<And>l. l \<in> set ls \<Longrightarrow> lc_has_initializer l \<Longrightarrow> sound_expression prog (lc_initializer l)) \<Longrightarrow>
   \<exists>is. list_all2 (reads_init prog) ls is"
proof (induction ls)
  case (Cons l ls)
  then obtain "is" where "list_all2 (reads_init prog) ls is" by auto
  moreover obtain i where "reads_init prog l i"
  proof (cases "lc_has_initializer l")
    case True
    then obtain t where "holds prog (lc_initializer l) t" using Cons.prems [of l] by (auto simp: sound_expression_def)
    then show ?thesis using that [of "Some t"] True by (simp add: reads_init_def)
  next
    case False
    then show ?thesis using that [of None] by (simp add: reads_init_def)
  qed
  ultimately show ?case by (meson list_all2_Cons)
qed auto

lemma function_tree:
  assumes "function_sound prog" shows "\<exists>f. reads_function prog f"
proof -
  note f = assms [unfolded function_sound_def function_parts_def]
  obtain ss where ss: "reads_seq prog (pr_first_statement prog) ss" using sequence_tree f by blast
  have "sound_expression prog (lc_initializer l)"
    if "l \<in> set (drop (pr_parameter_count prog) (pr_locals prog))" "lc_has_initializer l" for l
    using that f by (auto simp: in_set_conv_nth inits_ok_def)
  then obtain "is" where is_: "list_all2 (reads_init prog) (drop (pr_parameter_count prog) (pr_locals prog)) is"
    using initializers_tree by meson
  obtain res where res: "case res of None \<Rightarrow> \<not> pr_has_explicit_return prog
      | Some t \<Rightarrow> pr_has_explicit_return prog \<and> holds prog (pr_return_expression prog) t"
  proof (cases "pr_has_explicit_return prog")
    case True
    then obtain t where "holds prog (pr_return_expression prog) t" using f by (auto simp: sound_expression_def)
    with True that [of "Some t"] show ?thesis by simp
  next
    case False
    with that [of None] show ?thesis by simp
  qed
  show ?thesis
    by (rule exI [of _ "\<lparr>ft_inits = is, ft_body = ss, ft_result = res\<rparr>"]) (use ss is_ res in \<open>simp add: reads_function_def\<close>)
qed

text \<open>The nesting of what a table represents.\<close>

lemma weight_bound:
  assumes ok: "statements_ok prog"
  shows "reads_stmt prog n s \<Longrightarrow> weight s + 2 * n < 2 * length (pr_statements prog)"
    "reads_seq prog link ss \<Longrightarrow> (\<And>j. link = Some j \<Longrightarrow> n < j) \<Longrightarrow> n < length (pr_statements prog) \<Longrightarrow>
      weights ss + 2 * n + 2 \<le> 2 * length (pr_statements prog)"
proof (induction arbitrary: and n rule: reads_stmt_reads_seq.inducts)
  case (r_if n st t as bs)
  then have n: "n < length (pr_statements prog)" and st: "pr_statements prog ! n = st" by (simp_all add: entry_def)
  have "weights as + 2 * n + 2 \<le> 2 * length (pr_statements prog)"
    by (rule r_if(4)) (use statements_okD(2) [OF ok n] st n in blast)+
  moreover have "weights bs + 2 * n + 2 \<le> 2 * length (pr_statements prog)"
    by (rule r_if(6)) (use statements_okD(3) [OF ok n] st n in blast)+
  ultimately show ?case by simp
next
  case (r_while n st t body)
  then have n: "n < length (pr_statements prog)" and st: "pr_statements prog ! n = st" by (simp_all add: entry_def)
  have "weights body + 2 * n + 2 \<le> 2 * length (pr_statements prog)"
    by (rule r_while(4)) (use statements_okD(2) [OF ok n] st n in blast)+
  then show ?case by simp
next
  case (r_for n st i t0 t j t1 body)
  then have n: "n < length (pr_statements prog)" and st: "pr_statements prog ! n = st" by (simp_all add: entry_def)
  have "weights body + 2 * n + 2 \<le> 2 * length (pr_statements prog)"
    by (rule r_for(6)) (use statements_okD(2) [OF ok n] st n in blast)+
  then show ?case by simp
next
  case (r_some m s ss)
  then have m: "m < length (pr_statements prog)" by simp
  have "weights ss + 2 * m + 2 \<le> 2 * length (pr_statements prog)"
    by (rule r_some(4)) (use statements_okD(4) [OF ok m] m in blast)+
  with r_some(2) r_some(5) [of m] show ?case by simp
qed (auto simp: entry_def)

section \<open>The emitter returns\<close>

lemma emit_value_total:
  assumes "sound_expression prog e" shows "\<exists>ok em'. emit_value prog e d rest em = Some (ok, em')"
proof -
  obtain t r where t: "table_ok prog e" "ex_root e = Some r" "denotes e r t"
    using assms by (auto simp: sound_expression_def holds_def)
  obtain ok em1 where "emit_expression EMIT_FUEL prog e d (d + 1) em = Some (ok, em1)"
    using emit_expression_total [OF t(1,2) denotes_less [OF t(3)]] by blast
  then show ?thesis by (cases ok) (auto simp: emit_value_def)
qed

text \<open>What the emitter does with a statement without a body.\<close>

lemma emit_simple_total:
  assumes "parts_ok prog st"
  shows "st_kind st = STMT_ASSIGN \<Longrightarrow> \<exists>ok em'. emit_assign prog st em = Some (ok, em')"
    "st_kind st = STMT_STORE_INDIRECT \<Longrightarrow> \<exists>ok em'. emit_store_indirect prog st em = Some (ok, em')"
    "st_kind st = STMT_STORE_MEMBER \<Longrightarrow> \<exists>ok em'. emit_store_member prog st em = Some (ok, em')"
    "st_kind st = STMT_STORE_ARRAY \<Longrightarrow> \<exists>ok em'. emit_store_array prog st em = Some (ok, em')"
proof -
  assume k: "st_kind st = STMT_STORE_ARRAY"
  let ?i = "the (st_array_local st)"
  let ?b = "lc_is_char (pr_locals prog ! ?i)"
  have e: "sound_expression prog (st_expression st)" "sound_expression prog (st_array_index st)"
    using assms k by (simp_all add: parts_ok_def)
  obtain ok em1 where 1: "emit_value prog (st_expression st) 1 (if ?b then emit_truncate_char 1 else [])
      (emit [Comment (''store '' @ (if ?b then ''char'' else ''int'') @ '' array element '' @ local_name prog ?i @ ''[index]'')] em)
      = Some (ok, em1)" using emit_value_total [OF e(1)] by blast
  show "\<exists>ok em'. emit_store_array prog st em = Some (ok, em')"
    unfolding emit_store_array_def Let_def 1 using emit_value_total [OF e(2)] by (cases ok) auto
qed (use assms emit_value_total in \<open>auto simp: emit_assign_def emit_store_indirect_def emit_store_member_def Let_def parts_ok_def\<close>)

text \<open>A result that is there, and one that follows it.\<close>

definition returns :: "(bool \<times> emitter) option \<Rightarrow> bool" where
  "returns r \<longleftrightarrow> r \<noteq> None"

lemma returns_bind:
  assumes "returns r" "\<And>em'. returns (f em')"
  shows "returns (do { (ok, em1) \<leftarrow> r; if \<not> ok then Some (False, em1) else f em1 })"
  using assms by (auto simp: returns_def split: if_splits)

lemma returns_last:
  "returns r \<Longrightarrow> returns (do { (ok, em1) \<leftarrow> r; Some (if ok then (True, f em1) else (False, em1)) })"
  "returns r \<Longrightarrow> returns (do { (ok, em1) \<leftarrow> r; Some (if \<not> ok then (False, em1) else (True, f em1)) })"
  by (auto simp: returns_def)

lemma returns_if: "returns a \<Longrightarrow> returns (if c then a else Some x)"
  by (simp add: returns_def)

lemma emit_value_returns: "sound_expression prog e \<Longrightarrow> returns (emit_value prog e d rest em)"
  using emit_value_total by (fastforce simp: returns_def)

lemma emit_statements_total:
  assumes ok: "statements_ok prog"
  shows "n < length (pr_statements prog) \<Longrightarrow> 2 * length (pr_statements prog) \<le> 2 * n + k + 1 \<Longrightarrow>
      returns (emit_statement k prog epi n ctx em)"
    "(\<And>n. link = Some n \<Longrightarrow> n < length (pr_statements prog) \<and> 2 * length (pr_statements prog) \<le> 2 * n + k) \<Longrightarrow>
      returns (emit_statement_sequence k prog epi link ctx em)"
proof (induction k arbitrary: n link ctx em)
  case 0
  { case 1 then show ?case by simp next
    case 2 then show ?case by (cases link) (auto simp: returns_def) }
next
  case (Suc k)
  { case 1
    let ?st = "pr_statements prog ! n"
    have p: "parts_ok prog ?st" using statements_okD(1) [OF ok 1(1)] .
    have bodies: "returns (emit_statement_sequence k prog epi (st_then_first ?st) ctx' em')"
      "returns (emit_statement_sequence k prog epi (st_else_first ?st) ctx' em')" for ctx' em'
      by (rule Suc.IH(2); use statements_okD(2,3) [OF ok 1(1)] 1(2) in force)+
    note simple = emit_simple_total [OF p]
    show ?case
    proof (cases "st_kind ?st")
      case STMT_IF
      then have e: "sound_expression prog (st_expression ?st)" using p by (simp add: parts_ok_def)
      obtain id' em0 where l: "take_label em = (id', em0)" by (metis surj_pair)
      show ?thesis using 1(1) STMT_IF l
        by (cases "st_else_first ?st"; simp add: Let_def)
          (intro returns_bind returns_last returns_if emit_value_returns [OF e] bodies)+
    next
      case STMT_WHILE
      then have e: "sound_expression prog (st_expression ?st)" using p by (simp add: parts_ok_def)
      obtain id' em0 where l: "take_label em = (id', em0)" by (metis surj_pair)
      show ?thesis using 1(1) STMT_WHILE l
        by (simp add: Let_def, intro returns_bind returns_last emit_value_returns [OF e] bodies)
    next
      case STMT_FOR
      then have e: "sound_expression prog (st_for_init ?st)" "sound_expression prog (st_expression ?st)"
        "sound_expression prog (st_for_update ?st)" using p by (simp_all add: parts_ok_def)
      obtain id' em0 where l: "take_label em = (id', em0)" by (metis surj_pair)
      show ?thesis using 1(1) STMT_FOR l
        by (simp add: Let_def, intro returns_bind returns_last emit_value_returns [OF e(1)] emit_value_returns [OF e(2)]
            emit_value_returns [OF e(3)] bodies)
    qed (use 1(1) p simple emit_value_total in \<open>auto simp: returns_def parts_ok_def split: option.splits\<close>)
  next
    case 2
    show ?case
    proof (cases link)
      case (Some n)
      then have n: "n < length (pr_statements prog)" "2 * length (pr_statements prog) \<le> 2 * n + Suc k" using 2 by auto
      show ?thesis unfolding Some emit_statement_sequence.simps
        by (intro returns_bind Suc.IH(1) Suc.IH(2)) (use n statements_okD(4) [OF ok n(1)] in force)+
    qed (simp add: returns_def)
  }
qed

lemma emit_initializers_total:
  "(\<And>l. l \<in> set ls \<Longrightarrow> lc_has_initializer l \<Longrightarrow> sound_expression prog (lc_initializer l)) \<Longrightarrow>
   returns (emit_initializers prog i ls em)"
proof (induction ls arbitrary: i em)
  case (Cons l ls)
  have rest: "returns (emit_initializers prog (i + 1) ls em')" for em' using Cons by simp
  show ?case
  proof (cases "lc_has_initializer l")
    case True
    have "sound_expression prog (lc_initializer l)" using Cons.prems [of l] True by simp
    from returns_bind [OF emit_value_returns [OF this] rest] True show ?thesis by simp
  qed (use rest in simp)
qed (simp add: returns_def)

lemma emit_function_total:
  assumes "function_sound prog" shows "returns (emit_function prog em)"
proof -
  note f = assms [unfolded function_sound_def function_parts_def]
  have inits: "sound_expression prog (lc_initializer l)"
    if "l \<in> set (drop (pr_parameter_count prog) (pr_locals prog))" "lc_has_initializer l" for l
    using that f by (auto simp: in_set_conv_nth inits_ok_def)
  have "returns (emit_prologue prog em')" for em'
    by (cases "frame_size prog = 0")
      (simp_all add: emit_prologue_def emit_initializers_total [OF inits] returns_def [of "Some x" for x])
  moreover have "returns (emit_statement_sequence EMIT_FUEL prog epi (pr_first_statement prog) None em')" for epi em'
    by (rule emit_statements_total(2)) (use f in \<open>auto simp: statements_ok_def\<close>)
  moreover have "returns (if pr_has_explicit_return prog then emit_value prog (pr_return_expression prog) 0 [] em'
      else Some (True, em2))" for em' em2
    using f emit_value_returns by (auto simp: returns_def)
  ultimately show ?thesis unfolding emit_function_def Let_def by (intro returns_bind returns_last)
qed

lemma emit_functions_total: "list_all function_sound fs \<Longrightarrow> returns (emit_functions b fs em)"
proof (induction fs arbitrary: b em)
  case (Cons f fs)
  then show ?case by (simp, intro conjI impI returns_bind emit_function_total) simp_all
qed (simp add: returns_def)

lemma emit_unit_total: "unit_sound u \<Longrightarrow> \<exists>ok em. emit_unit u n = Some (ok, em)"
proof -
  assume "unit_sound u"
  then have "returns (emit_functions False (tu_functions u) em)" for em
    using emit_functions_total by (simp add: unit_sound_def)
  then obtain ok em where "emit_functions False (tu_functions u)
      (emit (assembly_head @ extern_lines u @ [Verbatim newline]) zero_emitter) = Some (ok, em)"
    by (fastforce simp: returns_def)
  then show ?thesis by (cases ok) (auto simp: emit_unit_def)
qed

section \<open>Where a function is in the output\<close>

text \<open>Lines are only added.\<close>

definition adds :: "emitter \<Rightarrow> emitter \<Rightarrow> bool" where
  "adds em em' \<longleftrightarrow> (\<exists>ls. em_lines em' = em_lines em @ ls)"

lemma adds_refl [simp]: "adds em em"
  by (simp add: adds_def)

lemma adds_trans [trans]: "adds em em' \<Longrightarrow> adds em' em'' \<Longrightarrow> adds em em''"
  by (auto simp: adds_def)

lemma adds_fields [simp]:
  "adds em (em'\<lparr>em_depth := d\<rparr>) = adds em em'" "adds em (em'\<lparr>em_err := x\<rparr>) = adds em em'"
  "adds em (em'\<lparr>em_label := l\<rparr>) = adds em em'" "adds em (em'\<lparr>em_base := b\<rparr>) = adds em em'"
  "adds (em\<lparr>em_depth := d\<rparr>) em' = adds em em'" "adds (em\<lparr>em_label := l\<rparr>) em' = adds em em'"
  "adds (em\<lparr>em_base := b\<rparr>) em' = adds em em'"
  by (simp_all add: adds_def)

lemma adds_emit: "adds em em' \<Longrightarrow> adds em (emit ls em')"
  by (auto simp: adds_def)

lemma adds_emitted: "adds (emit ls em) em' \<Longrightarrow> adds em em'"
  by (auto simp: adds_def)

interpretation adds: emitter_relation adds
  by unfold_locales (auto intro: adds_trans adds_emit)

abbreviation (input) adding :: "emitter \<Rightarrow> ('a \<times> emitter) option \<Rightarrow> bool" where
  "adding \<equiv> relates adds"

lemma emit_value_adds: "adds em em' \<Longrightarrow> adding em (emit_value p e d rest em')"
proof -
  assume a: "adds em em'"
  have "adding em (emit_expression EMIT_FUEL p e d (d + 1) em')"
    using adds.expression [OF a] .
  then show ?thesis unfolding emit_value_def by (rule relates_bind) (auto simp: adds_emit)
qed

text \<open>A step, and what follows it.\<close>

lemma adding_step:
  assumes "adding em r" "\<And>em'. adds em em' \<Longrightarrow> adding em (f em')"
  shows "adding em (do { (ok, em1) \<leftarrow> r; if \<not> ok then Some (False, em1) else f em1 })"
  by (rule relates_bind [OF assms(1)]) (use assms(2) in auto)

lemma adding_last:
  assumes "adding em r"
  shows "adding em (do { (ok, em1) \<leftarrow> r; Some (if ok then (True, emit ls em1) else (False, em1)) })"
    "adding em (do { (ok, em1) \<leftarrow> r; Some (if \<not> ok then (False, em1) else (True, emit ls em1)) })"
  by (rule relates_bind [OF assms]; auto simp: adds_emit)+

lemma adding_if: "adding em a \<Longrightarrow> adds em em' \<Longrightarrow> adding em (if c then a else Some (x, em'))"
  by simp

lemmas adding_intros = adding_step adding_last adding_if emit_value_adds adds_emit adds_refl

lemma emit_store_adds:
  "adds em em' \<Longrightarrow> adding em (emit_assign p st em')" "adds em em' \<Longrightarrow> adding em (emit_store_indirect p st em')"
  "adds em em' \<Longrightarrow> adding em (emit_store_array p st em')" "adds em em' \<Longrightarrow> adding em (emit_store_member p st em')"
  by (simp_all only: emit_assign_def emit_store_indirect_def emit_store_array_def emit_store_member_def Let_def)
    (intro adding_intros; assumption)+

lemma take_label_adds: "take_label em = (n, em') \<Longrightarrow> adds em em'"
  by (auto simp: take_label_def)

lemma emit_statement_adds:
  "adding em (emit_statement k p epi n ctx em)" "adding em (emit_statement_sequence k p epi link ctx em)"
proof (induction k arbitrary: n link ctx em)
  case 0
  { case 1 then show ?case by simp next
    case 2 then show ?case by (cases link) auto }
next
  case (Suc k)
  have IH: "adding em (emit_statement k p epi n ctx em')" "adding em (emit_statement_sequence k p epi link ctx em')"
    if "adds em em'" for n link ctx em em'
    using adds.onward [OF that] Suc.IH by blast+
  { case 1
    obtain id' em0 where l: "take_label em = (id', em0)" by (metis surj_pair)
    note a = take_label_adds [OF l]
    let ?st = "pr_statements p ! n"
    show ?case
    proof (cases "st_kind ?st")
      case STMT_IF
      then show ?thesis using a l
        by (cases "st_else_first ?st"; simp add: Let_def) (intro impI adding_intros IH; assumption)+
    next
      case STMT_WHILE
      then show ?thesis using a l by (simp add: Let_def) (intro impI adding_intros IH; assumption)
    next
      case STMT_FOR
      then show ?thesis using a l by (simp add: Let_def) (intro impI adding_intros IH; assumption)
    qed (auto simp: Let_def adds_emit emit_store_adds emit_value_adds split: option.split)
  next
    case 2
    show ?case
    proof (cases link)
      case (Some n)
      show ?thesis unfolding Some emit_statement_sequence.simps by (intro adding_intros IH)
    qed simp
  }
qed

lemma emit_initializers_adds: "adds em em' \<Longrightarrow> adding em (emit_initializers p i ls em')"
proof (induction ls arbitrary: i em')
  case (Cons l ls)
  show ?case
  proof (cases "lc_has_initializer l")
    case True
    show ?thesis using True Cons by simp (intro conjI impI adding_intros Cons.IH; assumption)
  qed (use Cons adds_emit in auto)
qed simp

lemma emit_function_adds: "adds em em' \<Longrightarrow> adding em (emit_function p em')"
proof -
  assume a: "adds em em'"
  have prologue: "adding em (emit_prologue p em1)" if "adds em em1" for em1
    using that emit_initializers_adds [OF adds_emit [OF that]] by (simp add: emit_prologue_def)
  have seq: "adding em (emit_statement_sequence k p epi link ctx em1)" if "adds em em1" for k epi link ctx em1
    using adds.onward [OF that emit_statement_adds(2)] .
  show ?thesis unfolding emit_function_def Let_def
    by (intro adding_intros prologue seq) (use a in simp_all)
qed

lemma emit_functions_adds: "adds em em' \<Longrightarrow> adding em (emit_functions b fs em')"
proof (induction fs arbitrary: b em')
  case (Cons f fs)
  then show ?case using adds_emit emit_function_adds
    by (simp add: emit_function_adds adds_emit) (intro conjI impI adding_step emit_function_adds Cons.IH adds_emit; assumption)
qed simp

lemma function_in_output:
  "emit_functions b fs em = Some (True, em') \<Longrightarrow> i < length fs \<Longrightarrow> reads_function (fs ! i) f \<Longrightarrow> function_ok (fs ! i) f \<Longrightarrow>
   weights (ft_body f) \<le> EMIT_FUEL \<Longrightarrow> \<exists>j n. has_at (em_lines em') j (fst (function_lines (fs ! i) n f))"
proof (induction fs arbitrary: i b em)
  case (Cons p fs)
  define em0 where "em0 = (if b then emit [Verbatim newline] em else em)"
  obtain em1 where em1: "emit_function p em0 = Some (True, em1)" "emit_functions True fs em1 = Some (True, em')"
    using Cons.prems(1) unfolding emit_functions.simps em0_def [symmetric] by (auto split: bind_splits if_splits)
  show ?case
  proof (cases i)
    case 0
    then have "em_lines em1 = em_lines em0 @ fst (function_lines p (em_label em0) f)"
      using emit_function_reads [of p f em0] Cons.prems em1(1) by auto
    moreover obtain ls where "em_lines em' = em_lines em1 @ ls"
      using emit_functions_adds [OF adds_refl, of em1 True fs] em1(2) by (auto simp: adds_def)
    ultimately have "has_at (em_lines em') (length (em_lines em0)) (fst (function_lines ((p # fs) ! i) (em_label em0) f))"
      using 0 by (auto simp: has_at_def)
    then show ?thesis by blast
  next
    case (Suc j)
    with Cons.IH [OF em1(2), of j] Cons.prems show ?thesis by simp
  qed
qed simp

section \<open>A call on the machine\<close>

lemma placed_at_label:
  assumes m: "loaded lab ls base m" "linked lab ls base" and at: "has_at ls j (Label l # rest)" and pc: "pc m = lab l"
  shows "placed lab ls base (j, cpu_of m) m"
proof -
  have j: "j < length ls" "ls ! j = Label l" using at by (simp_all add: has_at_Cons)
  have "unat base + length (code lab (take j ls)) < 2 ^ 32"
    using m(1) length_code_take [of lab j ls] by (simp add: loaded_def)
  then have "unat (pc m) = unat base + length (code lab (take j ls))"
    using m(2) j pc by (simp add: linked_def unat_word_ariths unat_of_nat32)
  with m(1) j(1) show ?thesis by (simp add: placed_def)
qed

lemma function_called:
  assumes out: "emit_functions b fs em = Some (True, em')" "i < length fs" "list_all function_sound fs"
    and f: "reads_function (fs ! i) f" "function_ok (fs ! i) f"
    and ls: "linked lab (em_lines em') base" "list_all regs_ok (em_lines em')"
    and m: "loaded lab (em_lines em') base m" "pc m = lab (chars (pr_function_name (fs ! i)))"
    and v: "call_function \<lparr>fr_prog = fs ! i, fr_labels = lab, fr_base = registers m ! 15 - frame_size (fs ! i),
        fr_text = text_of lab (em_lines em') base\<rparr> k f (\<lambda>r. registers m ! r) (memory m) = Some (v, ram')"
    and ret: "load_value False ram' (registers m ! 15) = Some ret"
  shows "\<exists>m'. vm_steps m m' \<and> pc m' = ret \<and> registers m' ! 0 = v \<and> registers m' ! 15 = registers m ! 15 + 4 \<and> memory m' = ram'"
proof -
  have ok: "statements_ok (fs ! i)"
    using out(2,3) by (simp add: list_all_length function_sound_def function_parts_def)
  have seq: "reads_seq (fs ! i) (pr_first_statement (fs ! i)) (ft_body f)" using f(1) by (simp add: reads_function_def)
  have "weights (ft_body f) \<le> 2 * length (pr_statements (fs ! i))"
    using seq
  proof (cases rule: reads_seq.cases)
    case (r_some n s ss)
    have s: "weight s + 2 * n < 2 * length (pr_statements (fs ! i))" by (rule weight_bound(1) [OF ok r_some(3)])
    then have n: "n < length (pr_statements (fs ! i))" by simp
    have "weights ss + 2 * n + 2 \<le> 2 * length (pr_statements (fs ! i))"
      by (rule weight_bound(2) [OF ok r_some(4)]) (use statements_okD(4) [OF ok n] n in blast)+
    with s show ?thesis using r_some(2) by simp
  qed simp
  then have "weights (ft_body f) \<le> EMIT_FUEL" using ok by (simp add: statements_ok_def)
  then obtain j n where j: "has_at (em_lines em') j (fst (function_lines (fs ! i) n f))"
    using function_in_output [OF out(1,2) f] by blast
  obtain rest where "fst (function_lines (fs ! i) n f) = Label (chars (pr_function_name (fs ! i))) # rest"
    by (cases "seq_lines (fs ! i) (epilogue_of (fs ! i)) None n (ft_body f)") (simp add: function_lines_def)
  from placed_at_label [OF m(1) ls(1) j [unfolded this] m(2)]
  have "placed lab (em_lines em') base (j, (\<lambda>r. registers m ! r, memory m)) m" by (simp add: cpu_of_def)
  from function_on_machine [OF f(2) ls this j v ret] show ?thesis .
qed

end
