(* ===== verification/T32_Compile_Demo.thy ===== *)
theory T32_Compile_Demo
  imports T32_Compile_Laws T32_Vm
begin

text \<open>
  A small unit with a loop for the witnesses of \<open>T32_Compile\<close>: its source, its tables, its tree, its code, and a
  machine with this code that is called at \<open>main\<close>. Symbol tables that are linked to a code exist for every code
  that defines no label twice (\<open>assign_labels_linked\<close>).
\<close>

section \<open>A symbol table\<close>

text \<open>The table that gives every label the address of its first line; the code of a line has the same length
  under every table, so the table is \<open>linked\<close> where no label is defined twice.\<close>

definition assign_labels :: "asm_line list \<Rightarrow> u32 \<Rightarrow> symbols" where
  "assign_labels ls base l = base + of_nat (length (code (\<lambda>_. 0) (takeWhile (\<lambda>x. x \<noteq> Label l) ls)))"

definition labels_of :: "asm_line list \<Rightarrow> string list" where
  "labels_of ls = concat (map (\<lambda>x. case x of Label l \<Rightarrow> [l] | _ \<Rightarrow> []) ls)"

lemma labels_of_simps: "labels_of (xs @ ys) = labels_of xs @ labels_of ys" "labels_of (Label l # ys) = l # labels_of ys"
  by (simp_all add: labels_of_def)

lemma length_line_code: "length (line_code lab l) = length (line_code lab' l)"
  by (cases l) simp_all

lemma length_code: "length (code lab ls) = length (code lab' ls)"
  by (induction ls) (auto simp: length_line_code [of lab _ lab'])

lemma assign_labels_linked:
  assumes "distinct (labels_of ls)" shows "linked (assign_labels ls base) ls base"
  unfolding linked_def
proof (intro allI impI)
  fix j l assume j: "j < length ls" "ls ! j = Label l"
  have "ls = take j ls @ Label l # drop (Suc j) ls" using j id_take_nth_drop [of j ls] by simp
  then have "labels_of ls = labels_of (take j ls) @ l # labels_of (drop (Suc j) ls)"
    by (metis labels_of_simps)
  then have "l \<notin> set (labels_of (take j ls))" using assms by auto
  then have no: "Label l \<notin> set (take j ls)" by (force simp: labels_of_def)
  have "takeWhile (\<lambda>x. x \<noteq> Label l) ls = take j ls"
    by (rule takeWhile_eq_take_P_nth) (use no j in \<open>auto simp: in_set_conv_nth\<close>)
  then show "assign_labels ls base l = base + of_nat (length (code (assign_labels ls base) (take j ls)))"
    using length_code [of "\<lambda>_. 0" "take j ls" "assign_labels ls base"] by (simp add: assign_labels_def)
qed

section \<open>A function\<close>

text \<open>A function in a loop: a source, and what the parser makes of it.\<close>

definition demo_source :: bytes where
  "demo_source = char_bytes ''int main(){int x=2;while(x<5)x=x+1;return x;}''"

definition constant_node :: "u32 \<Rightarrow> expression_node_t" where
  "constant_node v = zero_node\<lparr>nd_operand := \<lparr>op_kind = OPERAND_INTEGER, op_value = v\<rparr>\<rparr>"

definition variable_node :: "nat \<Rightarrow> expression_node_t" where
  "variable_node i = zero_node\<lparr>nd_operand := \<lparr>op_kind = OPERAND_LOCAL, op_value = of_nat i\<rparr>\<rparr>"

definition operator_node :: "token_kind_t \<Rightarrow> nat \<Rightarrow> nat \<Rightarrow> expression_node_t" where
  "operator_node k l r = zero_node\<lparr>nd_kind := EXPR_BINARY, nd_operator_kind := k, nd_left := l, nd_right := r\<rparr>"

definition table_of :: "expression_node_t list \<Rightarrow> expression_t" where
  "table_of nodes = \<lparr>ex_nodes = nodes, ex_root = Some (length nodes - 1)\<rparr>"

definition demo_main :: program_t where
  "demo_main = zero_program\<lparr>pr_function_name := char_bytes ''main'', pr_is_main := True,
     pr_locals := [zero_local\<lparr>lc_name := char_bytes ''x'', lc_has_initializer := True, lc_storage_size := 4,
       lc_initializer := table_of [constant_node 2]\<rparr>],
     pr_statements := [
       zero_statement\<lparr>st_kind := STMT_WHILE, st_then_first := Some 1,
         st_expression := table_of [variable_node 0, constant_node 5, operator_node TOK_LT 0 1]\<rparr>,
       zero_statement\<lparr>st_kind := STMT_ASSIGN, st_target_local := Some 0,
         st_expression := table_of [variable_node 0, constant_node 1, operator_node TOK_PLUS 0 1]\<rparr>],
     pr_first_statement := Some 0, pr_has_explicit_return := True,
     pr_return_expression := table_of [variable_node 0], pr_frame_bytes := 4\<rparr>"

definition demo_unit :: translation_unit_t where
  "demo_unit = \<lparr>tu_functions = [demo_main], tu_externals = [], tu_main_index = Some 0\<rparr>"

text \<open>Its tree.\<close>

definition demo_tree :: function_tree where
  "demo_tree = \<lparr>ft_inits = [Some (Const 2)],
     ft_body = [While (Bin TOK_LT 0 (Var 0) (Const 5)) [Assign 0 (Bin TOK_PLUS 0 (Var 0) (Const 1))]],
     ft_result = Some (Var 0)\<rparr>"

definition demo_lines :: "asm_line list" where
  "demo_lines = fst (function_lines demo_main 0 demo_tree)"

lemma node_fields [simp]:
  "nd_kind (constant_node v) = EXPR_OPERAND" "nd_operand (constant_node v) = \<lparr>op_kind = OPERAND_INTEGER, op_value = v\<rparr>"
  "nd_call_args (constant_node v) = []" "nd_call_args (variable_node i) = []"
  "nd_kind (variable_node i) = EXPR_OPERAND" "nd_operand (variable_node i) = \<lparr>op_kind = OPERAND_LOCAL, op_value = of_nat i\<rparr>"
  "nd_kind (operator_node k l r) = EXPR_BINARY" "nd_left (operator_node k l r) = l" "nd_right (operator_node k l r) = r"
  "nd_operator_kind (operator_node k l r) = k" "nd_pointer_scale (operator_node k l r) = 0"
  by (simp_all add: constant_node_def variable_node_def operator_node_def zero_node_def)

lemma demo_calls: "\<not> program_contains_calls demo_main"
  by (simp add: program_contains_calls_def demo_main_def zero_program_def zero_local_def zero_statement_def
      expression_contains_call_def statement_contains_call_def table_of_def numeral_eq_Suc)

lemma demo_frame_size: "frame_size demo_main = 4"
  unfolding frame_size_def if_not_P [OF demo_calls] by (simp add: demo_main_def)

lemma demo_function_ok: "function_ok demo_main demo_tree"
  using demo_frame_size
  by (simp add: function_ok_def frame_ok_def demo_tree_def tree_fits_def demo_main_def zero_program_def zero_local_def
      locals_ok_def is_operator_def)

text \<open>Its tables represent the tree.\<close>

lemma demo_holds:
  "holds demo_main (table_of [constant_node v]) (Const v)" "holds demo_main (table_of [variable_node 0]) (Var 0)"
  "is_operator k \<Longrightarrow> holds demo_main (table_of [variable_node 0, constant_node v, operator_node k 0 1])
     (Bin k 0 (Var 0) (Const v))"
proof -
  let ?e = "table_of [variable_node 0, constant_node v, operator_node k 0 1]"
  have l: "local_ok demo_main 0" by (simp add: local_ok_def demo_main_def)
  have c: "denotes (table_of [constant_node v]) 0 (Const v)" using d_const [of 0 "table_of [constant_node v]" "constant_node v"] by (simp add: table_of_def)
  then show "holds demo_main (table_of [constant_node v]) (Const v)"
    by (auto simp: holds_def table_of_def table_ok_def node_ok_def)
  have x: "denotes (table_of [variable_node 0]) 0 (Var (unat (0 :: u32)))"
    using d_var [of 0 "table_of [variable_node 0]" "variable_node 0"] by (simp add: table_of_def)
  then show "holds demo_main (table_of [variable_node 0]) (Var 0)"
    using l by (auto simp: holds_def table_of_def table_ok_def node_ok_def)
  assume k: "is_operator k"
  have "denotes ?e 0 (Var (unat (0 :: u32)))"
    using d_var [of 0 ?e "variable_node 0"] by (simp add: table_of_def)
  moreover have "denotes ?e 1 (Const v)" using d_const [of 1 ?e "constant_node v"] by (simp add: table_of_def)
  ultimately have "denotes ?e 2 (Bin k 0 (Var 0) (Const v))"
    using d_bin [of 2 ?e "operator_node k 0 1" "Var 0" "Const v"] by (simp add: table_of_def)
  then show "holds demo_main ?e (Bin k 0 (Var 0) (Const v))"
    using l k by (auto simp: holds_def table_of_def table_ok_def node_ok_def numeral_2_eq_2)
qed

lemma demo_reads: "reads_function demo_main demo_tree"
proof -
  have e: "pr_statements demo_main ! 0 = zero_statement\<lparr>st_kind := STMT_WHILE, st_then_first := Some 1,
      st_expression := table_of [variable_node 0, constant_node 5, operator_node TOK_LT 0 1]\<rparr>"
    "pr_statements demo_main ! 1 = zero_statement\<lparr>st_kind := STMT_ASSIGN, st_target_local := Some 0,
      st_expression := table_of [variable_node 0, constant_node 1, operator_node TOK_PLUS 0 1]\<rparr>"
    "length (pr_statements demo_main) = 2" by (simp_all add: demo_main_def)
  have body: "reads_stmt demo_main 1 (Assign 0 (Bin TOK_PLUS 0 (Var 0) (Const 1)))"
    by (rule r_assign [where st = "pr_statements demo_main ! 1"])
      (simp_all add: entry_def e [simplified] demo_holds(3) [simplified] is_operator_def)
  have "reads_seq demo_main (Some 1) [Assign 0 (Bin TOK_PLUS 0 (Var 0) (Const 1))]"
    by (rule r_some [OF body]) (simp add: e(2) [simplified] r_none)
  then have "reads_stmt demo_main 0 (While (Bin TOK_LT 0 (Var 0) (Const 5)) [Assign 0 (Bin TOK_PLUS 0 (Var 0) (Const 1))])"
    by (intro r_while [where st = "pr_statements demo_main ! 0"])
      (simp_all add: entry_def e [simplified] demo_holds(3) [simplified] is_operator_def)
  then have "reads_seq demo_main (Some 0) (ft_body demo_tree)"
    unfolding demo_tree_def function_tree.simps by (rule r_some) (simp add: e(1) r_none)
  moreover have "pr_parameter_count demo_main = 0" "pr_first_statement demo_main = Some 0" "pr_has_explicit_return demo_main"
    "pr_return_expression demo_main = table_of [variable_node 0]"
    "pr_locals demo_main = [zero_local\<lparr>lc_name := char_bytes ''x'', lc_has_initializer := True, lc_storage_size := 4,
       lc_initializer := table_of [constant_node 2]\<rparr>]"
    by (simp_all add: demo_main_def zero_program_def)
  ultimately show ?thesis using demo_holds(1,2)
    by (simp add: reads_function_def) (simp add: demo_tree_def reads_init_def)
qed

section \<open>A machine\<close>

lemma demo_emitted: "\<exists>em. emit_functions False [demo_main] zero_emitter = Some (True, em) \<and> em_lines em = demo_lines"
proof -
  have "weights (ft_body demo_tree) \<le> EMIT_FUEL" by (simp add: demo_tree_def)
  from emit_function_reads [OF demo_reads demo_function_ok this, of zero_emitter] show ?thesis
    by (auto simp: zero_emitter_def demo_lines_def)
qed

lemma demo_fields [simp]:
  "pr_parameter_count demo_main = 0" "length (pr_locals demo_main) = 1" "chars (pr_function_name demo_main) = ''main''"
  "local_offset demo_main 0 = 0" "\<not> byte_value demo_main 0" "\<not> is_byte_local (pr_locals demo_main ! 0)"
  "\<not> lc_is_array (pr_locals demo_main ! 0)" "pr_is_main demo_main"
  by (simp_all add: demo_main_def zero_program_def zero_local_def local_offset_def byte_value_def is_byte_local_def)

lemmas demo_lines_simps = demo_lines_def function_lines_def prologue_lines_def demo_frame_size demo_tree_def assign_lines_def
  test_lines_def result_lines_def leave_lines_def labels_of_def emit_operand_def emit_load_local_value_def emit_load_local_def
  emit_store_local_value_def emit_store_local_def emit_operator_def emit_signed_less_than_def scale_lines_def local_comment_def

lemma demo_code:
  "labels_of demo_lines = [''main'', label_at ''.Lwhile'' 0, label_at ''.Lendwhile'' 0, epilogue_of demo_main]"
  "length (code lab demo_lines) \<le> 244"
  by (simp_all add: demo_lines_simps)

lemma demo_regs: "list_all regs_ok demo_lines"
  unfolding demo_lines_def by (rule function_lines_regs [OF demo_function_ok])

lemma demo_labels_distinct: "distinct (labels_of demo_lines)"
  by (simp add: demo_code label_at_def epilogue_of_def snprintf_def demo_main_def zero_program_def)

definition demo_labels :: symbols where
  "demo_labels = assign_labels demo_lines 0"

lemma demo_linked: "linked demo_labels demo_lines 0"
  unfolding demo_labels_def by (rule assign_labels_linked [OF demo_labels_distinct])

lemma demo_entry: "demo_labels ''main'' = 0"
  by (simp add: demo_labels_def assign_labels_def demo_lines_simps)

text \<open>The code, free bytes, the word of the variable, and the return address.\<close>

definition demo_memory :: "u32 \<Rightarrow> bytes" where
  "demo_memory x = (code demo_labels demo_lines @ replicate (244 - length (code demo_labels demo_lines)) 0) @ le32 x @ le32 48"

lemma demo_memory_simps:
  "length (demo_memory x) = 252" "patch 244 (le32 y) (demo_memory x) = demo_memory y"
  "slice 244 4 (demo_memory x) = le32 x" "slice 248 4 (demo_memory x) = le32 48"
  "slice 0 (length (code demo_labels demo_lines)) (demo_memory x) = code demo_labels demo_lines"
  using demo_code(2) [of demo_labels] by (simp_all add: demo_memory_def patch_def slice_def)

definition demo_machine :: t32_machine where
  "demo_machine = (booted (demo_memory 0))\<lparr>registers := (replicate 16 0)[15 := 248]\<rparr>"

definition demo_frame :: frame where
  "demo_frame = \<lparr>fr_prog = demo_main, fr_labels = demo_labels, fr_base = 248 - frame_size demo_main,
     fr_text = text_of demo_labels demo_lines 0\<rparr>"

lemma demo_stores:
  "c_store demo_frame False (demo_memory x) 244 y = Some (demo_memory y)" "load_value False (demo_memory x) 244 = Some x"
  "load_value False (demo_memory x) 248 = Some 48"
  using of_le32_le32 [of x "[]"] of_le32_le32 [of 48 "[]"]
  by (simp_all add: c_store_def store_value_def load_value_def ram_range_def width_def demo_memory_simps
      demo_frame_def keeps_text_def text_of_def)

lemma demo_loaded: "loaded demo_labels demo_lines 0 demo_machine"
  using demo_code(2) [of demo_labels] machine_wf_registers [OF booted_wf(1), of "(replicate 16 0)[15 := 248]" "demo_memory 0"]
  by (simp add: loaded_def demo_machine_def demo_memory_simps)

lemma demo_frame_fields [simp]: "fr_prog demo_frame = demo_main" "fr_base demo_frame = 244"
  by (simp_all add: demo_frame_def demo_frame_size)

lemma demo_assign: "value_of demo_frame (demo_memory x) t = Some v \<Longrightarrow> assign demo_frame 0 t (demo_memory x) = Some (demo_memory v)"
  by (simp add: assign_def local_address_def demo_stores)

lemma demo_values:
  "value_of demo_frame (demo_memory x) (Const v) = Some v" "value_of demo_frame (demo_memory x) (Var 0) = Some x"
  "is_operator k \<Longrightarrow> value_of demo_frame (demo_memory x) (Bin k 0 (Var 0) (Const v)) = c_operator k x v"
  by (simp_all add: value_of_def var_value_def demo_stores scaled_def)

lemma demo_called:
  "call_function demo_frame 20 demo_tree (\<lambda>r. registers demo_machine ! r) (demo_memory 0) = Some (5, demo_memory 5)"
  by (simp add: call_function_def demo_tree_def demo_values demo_assign is_operator_def numeral_eq_Suc
      c_operator_def c_bool_def)

end
