(* ===== verification/T32_Compile.thy ===== *)
theory T32_Compile
  imports T32_Compile_Demo "HOL-Library.Code_Target_Numeral"
begin

text \<open>
  The properties of the compiler behind its lexer, with their witnesses: the parser and the emitter
  return on every source, what the parser accepts is a phrase of the grammar and well-typed, calls are
  resolved, and the emitted code of a function computes its value on the virtual machine.
\<close>

section \<open>The parser\<close>

lemma start_state_settled:
  "settled (start_state path source)" "length (pr_locals (cp_program (start_state path source))) \<le> MAX_LOCALS"
  "\<not> cp_fuel_out (start_state path source)"
  by (simp_all add: settled_def start_state_def zero_program_def)

text \<open>The parser returns on every source. The recursive descent through expressions, statements,
  declarations and the translation unit never runs out of the fuel that is computed from the length of
  the source and from the sizes of the tables.\<close>

lemma parser_returns:
  "\<not> cp_fuel_out (snd (parse_translation_unit (start_state path source)))"
  using parse_translation_unit_run(1) [OF start_state_settled(1,2)] start_state_settled(3)
  by (cases "parse_translation_unit (start_state path source)") (metis snd_conv)

definition demo_path :: bytes where
  "demo_path = char_bytes ''a.c''"

lemma demo_parsed: "fst (parse_translation_unit (start_state demo_path demo_source)) = Some demo_unit"
  by code_simp

lemma demo_run: "\<exists>s'. parse_translation_unit (start_state demo_path demo_source) = (Some demo_unit, s')"
  using demo_parsed by (cases "parse_translation_unit (start_state demo_path demo_source)") simp



text \<open>C4: An expression that the parser accepts is a phrase of the grammar: the tokens between the place
  before and the place after it derive a tree with the precedences, the left associativity and the
  pointer scaling of the language, and the table that was built represents this tree, which is
  well-typed.\<close>

theorem expression_is_phrase:
  "ready s \<Longrightarrow> parse_expression s = (Some e, s') \<Longrightarrow>
   \<exists>ts t r. eats (place s) ts (place s') \<and> phrase (scope_of s) Equality (cp_next_string s) ts t (cp_next_string s')
     \<and> ex_root e = Some r \<and> denotes e r t \<and> table_ok (cp_program s) e \<and> well_typed (cp_program s) t"
proof -
  assume s: "ready s" and run: "parse_expression s = (Some e, s')"
  obtain ts t r where x: "ex_root e = Some r" "denotes e r t" "table_ok (cp_program s) e"
    "eats (place s) ts (place s')" "phrase (scope_of s) Equality (cp_next_string s) ts t (cp_next_string s')"
    by (rule parse_expression_sound [OF s run])
  have "well_typed (cp_program s) t" using phrase_well_typed(1) [OF x(5)] by (simp add: scope_of_def)
  with x show ?thesis by blast
qed

text \<open>At the beginning of a source.\<close>

definition demo_state :: pstate where
  "demo_state = advance (start_state [] (char_bytes ''1 + 2 * 3;''))"

lemma demo_state_ready: "ready demo_state"
  using settled_advance [OF start_state_settled(1)] start_state_settled(2) by (simp add: ready_def demo_state_def)

definition demo_table :: expression_t where
  "demo_table = table_of [constant_node 1, constant_node 2, constant_node 3, operator_node TOK_STAR 1 2, operator_node TOK_PLUS 0 3]"

lemma demo_table_read: "fst (parse_expression demo_state) = Some demo_table"
  by code_simp

lemma expression_is_phrase_witness:
  "\<exists>s' ts t r. parse_expression demo_state = (Some demo_table, s') \<and> eats (place demo_state) ts (place s')
     \<and> ex_root demo_table = Some r \<and> denotes demo_table r t \<and> well_typed (cp_program demo_state) t"
proof -
  obtain s' where s': "parse_expression demo_state = (Some demo_table, s')"
    using demo_table_read by (cases "parse_expression demo_state") simp
  from expression_is_phrase [OF demo_state_ready s'] s' show ?thesis by blast
qed

section \<open>The emitter\<close>

text \<open>The emitter returns on every unit that the parser accepts: the recursion through the tables of
  expressions and statements stays within \<open>EMIT_FUEL\<close>.\<close>

lemma emitter_returns:
  "parse_translation_unit (start_state path source) = (Some u, s') \<Longrightarrow> \<exists>ok em. emit_unit u n = Some (ok, em)"
  using parse_translation_unit_run(2) [OF start_state_settled(1,2) _ refl] emit_unit_total by blast

text \<open>C3: The compiler is correct for a function without calls whose expressions fit the temporary registers.
  Take the output for a unit that the parser accepts, with the symbol table linked to it, on a machine that has
  the code in its RAM. When the machine is called at the label of the function and the meaning of the
  function in C, over the RAM, is the value \<open>v\<close> and the RAM \<open>ram'\<close>, then the machine gets back to the return
  address with \<open>v\<close> in \<open>r0\<close>, the stack pointer behind the address, and \<open>ram'\<close> as its RAM.\<close>

theorem compiled_function_returns:
  "parse_translation_unit (start_state path source) = (Some u, s') \<Longrightarrow>
   emit_functions False (tu_functions u) em = Some (True, em') \<Longrightarrow>
   i < length (tu_functions u) \<Longrightarrow> f = tu_functions u ! i \<Longrightarrow> reads_function f t \<Longrightarrow> function_ok f t \<Longrightarrow>
   linked lab (em_lines em') base \<Longrightarrow> list_all regs_ok (em_lines em') \<Longrightarrow>
   loaded lab (em_lines em') base m \<Longrightarrow> pc m = lab (chars (pr_function_name f)) \<Longrightarrow>
   call_function \<lparr>fr_prog = f, fr_labels = lab, fr_base = registers m ! 15 - frame_size f,
     fr_text = text_of lab (em_lines em') base\<rparr> k t (\<lambda>r. registers m ! r) (memory m) = Some (v, ram') \<Longrightarrow>
   load_value False ram' (registers m ! 15) = Some ret \<Longrightarrow>
   \<exists>m'. vm_steps m m' \<and> pc m' = ret \<and> registers m' ! 0 = v \<and> registers m' ! 15 = registers m ! 15 + 4 \<and> memory m' = ram'"
proof -
  assume p: "parse_translation_unit (start_state path source) = (Some u, s')"
    and a: "emit_functions False (tu_functions u) em = Some (True, em')" "i < length (tu_functions u)" "f = tu_functions u ! i"
    "reads_function f t" "function_ok f t" "linked lab (em_lines em') base" "list_all regs_ok (em_lines em')"
    "loaded lab (em_lines em') base m" "pc m = lab (chars (pr_function_name f))"
    "call_function \<lparr>fr_prog = f, fr_labels = lab, fr_base = registers m ! 15 - frame_size f,
      fr_text = text_of lab (em_lines em') base\<rparr> k t (\<lambda>r. registers m ! r) (memory m) = Some (v, ram')"
    "load_value False ram' (registers m ! 15) = Some ret"
  have "list_all function_sound (tu_functions u)"
    using parse_translation_unit_run(2) [OF start_state_settled(1,2) p refl] by (simp add: unit_sound_def)
  from function_called [OF a(1,2) this] a(4-) show ?thesis unfolding a(3) by blast
qed

lemma compiled_function_returns_witness:
  "\<exists>m'. vm_steps demo_machine m' \<and> pc m' = 48 \<and> registers m' ! 0 = 5 \<and> registers m' ! 15 = 252 \<and> memory m' = demo_memory 5"
proof -
  obtain s' where p: "parse_translation_unit (start_state demo_path demo_source) = (Some demo_unit, s')" using demo_run by blast
  obtain em where em: "emit_functions False (tu_functions demo_unit) zero_emitter = Some (True, em)" "em_lines em = demo_lines"
    using demo_emitted by (auto simp: demo_unit_def)
  have sp: "registers demo_machine ! 15 = 248" "pc demo_machine = 0" "memory demo_machine = demo_memory 0"
    by (simp_all add: demo_machine_def)
  show ?thesis
    using compiled_function_returns [OF p em(1), of 0 demo_main demo_tree demo_labels 0 demo_machine 20 5 "demo_memory 5" 48]
      demo_reads demo_function_ok demo_linked demo_regs demo_loaded demo_entry demo_called demo_stores(3) sp em(2)
    by (simp add: demo_unit_def demo_frame_def)
qed

end
