(* ===== verification/T32_Cc_Driver.thy ===== *)
theory T32_Cc_Driver
  imports T32_Driver T32_Compile
begin

text \<open>
  The properties of the compiler as a program: it always ends, it removes what it should not leave
  behind, and what it writes is the output of the emitter.
\<close>

section \<open>It ends\<close>

lemma emit_assembly_returns: "emit_unit u n = Some r \<Longrightarrow> emit_assembly env path u n d \<noteq> None"
  by (simp add: emit_assembly_def Let_def case_prod_beta split: option.split) blast

lemma run_phases_returns: "emit_unit u n = Some r \<Longrightarrow> run_phases env opt input output u n d \<noteq> None"
  unfolding run_phases_def Let_def option.map_disc_iff by (rule emit_assembly_returns)

lemma compile_source_returns: "\<exists>code d'. compile_source env opt input output source d = Some (code, d')"
proof (cases "parse_translation_unit (start_state input source)")
  case (Pair result s)
  have fuel: "\<not> cp_fuel_out s"
    using parse_translation_unit_run(1) [OF start_state_settled(1,2)] start_state_settled(3) Pair by metis
  show ?thesis
  proof (cases result)
    case None
    then show ?thesis using Pair fuel by (simp add: compile_source_def Let_def)
  next
    case (Some u)
    then obtain r where "emit_unit u (cp_next_string s) = Some r"
      using emit_unit_total parse_translation_unit_run(2) [OF start_state_settled(1,2) _ refl] Pair by (metis surj_pair)
    from run_phases_returns [OF this] Pair fuel Some show ?thesis
      by (simp add: compile_source_def Let_def split: option.split) (metis surj_pair option.exhaust)
  qed
qed

text \<open>C7: The compiler ends on every command line, file system, environment and behaviour of the programs it
  calls, with every source: the parser and the emitter never run out of fuel.\<close>

theorem driver_returns: "\<exists>code d'. cc_main env program_name args d = Some (code, d')"
proof (cases "args = []")
  case False
  then show ?thesis
    by (auto simp: cc_main_def Let_def compile_source_returns split: sum.split cc_stop.split prod.split)
qed (simp add: cc_main_def)

section \<open>What it leaves behind\<close>

abbreviation files :: "dstate \<Rightarrow> bytes \<Rightarrow> bytes option" where
  "files d \<equiv> w_files (d_world d)"

text \<open>The temporary files of a run.\<close>

definition temp_assembly :: "bytes \<Rightarrow> bytes" where
  "temp_assembly output = make_temp_path output ''.t32cc.s'' 1200"


lemma printing_files [simp]:
  "d_world (print_out s d) = d_world d" "d_world (print_err s d) = d_world d"
  by (simp_all add: print_out_def print_err_def)

lemma removed [simp]:
  "he_removable env = (\<lambda>_. True) \<Longrightarrow>
   files (remove_file_quietly env path d) = (case path of None \<Rightarrow> files d | Some p \<Rightarrow> (files d)(p := None))"
  by (simp add: remove_file_quietly_def split: option.split)







section \<open>What it writes\<close>

text \<open>On a host without faults.\<close>

definition the_text :: "emitter \<Rightarrow> bytes" where
  "the_text em = char_bytes (render_all (em_lines em))"

definition with_file :: "bytes \<Rightarrow> bytes \<Rightarrow> world \<Rightarrow> world" where
  "with_file path bs w = w\<lparr>w_files := (w_files w)(path := Some bs)\<rparr>"

lemma fold_lines: "fold (\<lambda>l. put (char_bytes (render l))) ls f = fold put (map (\<lambda>l. char_bytes (render l)) ls) f"
  by (simp add: fold_map comp_def)

lemma concat_lines: "concat (map (\<lambda>l. char_bytes (render l)) ls) = char_bytes (render_all ls)"
  by (induction ls) (simp_all add: render_all_def char_bytes_def)

lemma emit_assembly_clean:
  assumes "w_faults (d_world d) = []" "\<not> w_denied (d_world d) path" "emit_unit u n = Some (True, em)"
  shows "\<exists>d'. emit_assembly env path u n d = Some (True, d') \<and> d_world d' = with_file path (the_text em) (d_world d)"
proof -
  let ?f = "fold (\<lambda>l. put (char_bytes (render l))) (em_lines em) (open_file [] [])"
  have "appending (open_file [] [])" "hf_bytes (open_file [] []) = []" by (simp_all add: appending_def open_file_def)
  then have f: "appending ?f" "hf_bytes ?f = the_text em"
    using foldl_put [of "open_file [] []" "map (\<lambda>l. char_bytes (render l)) (em_lines em)"]
    by (simp_all add: fold_lines concat_lines the_text_def)
  then have "fflush ?f = (True, ?f)" by (simp add: appending_def fault_free)
  with assms f(2) show ?thesis
    by (simp add: emit_assembly_def fopen_wb_def next_stream_clean Let_def save_stream_def with_file_def)
qed

lemma read_clean: "read_entire_file path (Inr (open_file bs [])) True = Inr bs"
  by (simp add: read_entire_file_def open_file_def fault_free slice_def)

text \<open>A run that gets as far as writing its assembly file.\<close>

definition emits :: "cc_options_t \<Rightarrow> host_env \<Rightarrow> bytes \<Rightarrow> bytes \<Rightarrow> dstate \<Rightarrow> emitter \<Rightarrow> bool" where
  "emits opt env input output d em \<longleftrightarrow> he_malloc env \<and> w_faults (d_world d) = []
     \<and> \<not> w_denied (d_world d) (assembly_path (cc_mode opt) output)
     \<and> (\<exists>source u s. files d input = Some source
          \<and> parse_translation_unit (start_state input source) = (Some u, s) \<and> emit_unit u (cp_next_string s) = Some (True, em))"

lemma cc_main_emits:
  assumes opt: "cc_parse_options program_name args 1024 = Inr opt"
    and em: "emits opt env (the (cc_input_path opt)) (the (cc_output_path opt)) d em"
  shows "\<exists>d1. d_world d1 = with_file (assembly_path (cc_mode opt) (the (cc_output_path opt))) (the_text em) (d_world d)
    \<and> cc_main env program_name args d = Some (clean_up env (cc_mode opt) (the (cc_output_path opt))
         (assemble_and_link env (cc_mode opt) (cc_verbose opt) (the (cc_output_path opt)) d1))"
proof -
  let ?in = "the (cc_input_path opt)" and ?out = "the (cc_output_path opt)"
  obtain source u s where x: "he_malloc env" "w_faults (d_world d) = []"
      "\<not> w_denied (d_world d) (assembly_path (cc_mode opt) ?out)" "files d ?in = Some source"
      "parse_translation_unit (start_state ?in source) = (Some u, s)" "emit_unit u (cp_next_string s) = Some (True, em)"
    using em by (auto simp: emits_def)
  have "args \<noteq> []" using opt by (auto simp: cc_parse_options_def cc_bad_def)
  moreover have "fopen_rb ?in (d_world d) = (Some (open_file source []), d_world d)"
    using x(2,4) by (simp add: fopen_rb_def next_stream_clean)
  moreover have "\<not> cp_fuel_out s"
    using parse_translation_unit_run(1) [OF start_state_settled(1,2)] start_state_settled(3) x(5) by metis
  ultimately have run: "cc_main env program_name args d = map_option (clean_up env (cc_mode opt) ?out)
      (run_phases env opt ?in ?out u (cp_next_string s) (print_err (ps_err (cp_parser s)) d))"
    using opt x by (simp add: cc_main_def Let_def read_clean compile_source_def)
  let ?d0 = "if cc_verbose opt then print_out (''compile: '' @ chars ?in @ '' -> ''
      @ chars (assembly_path (cc_mode opt) ?out) @ newline) (print_err (ps_err (cp_parser s)) d)
    else print_err (ps_err (cp_parser s)) d"
  have d0: "d_world ?d0 = d_world d" by simp
  obtain d1 where "emit_assembly env (assembly_path (cc_mode opt) ?out) u (cp_next_string s) ?d0 = Some (True, d1)"
      "d_world d1 = with_file (assembly_path (cc_mode opt) ?out) (the_text em) (d_world d)"
    using emit_assembly_clean [of ?d0, unfolded d0, OF x(2,3,6)] by blast
  with run show ?thesis by (intro exI [of _ d1]) (simp add: run_phases_def Let_def)
qed

text \<open>C10: With \<open>-S\<close> the compiler writes the assembly text that the emitter makes of the unit that the parser
  reads from the source to the output file, leaves every other file as it is and exits with 0; on a host
  without faults.\<close>

theorem driver_assembly:
  "cc_parse_options program_name args 1024 = Inr opt \<Longrightarrow> cc_mode opt = MODE_ASSEMBLY \<Longrightarrow>
   emits opt env (the (cc_input_path opt)) (the (cc_output_path opt)) d em \<Longrightarrow>
   \<exists>d'. cc_main env program_name args d = Some (0, d')
     \<and> d_world d' = with_file (the (cc_output_path opt)) (the_text em) (d_world d)"
  using cc_main_emits [of program_name args opt env d em]
  by (auto simp: clean_up_def assemble_and_link_def assembly_path_def Let_def)

text \<open>C9: With \<open>-c\<close> the compiler writes the assembly text to the temporary file, runs the assembler with one
  command that names this file and the output file, and its exit code tells whether that command
  succeeded. The command is not cut off when the path of the output has at most 1000 bytes. At the end
  the files are those that the command left, without the temporary file, and without the output
  after a failure.\<close>

theorem driver_object:
  "cc_parse_options program_name args 1024 = Inr opt \<Longrightarrow> cc_mode opt = MODE_OBJECT \<Longrightarrow> \<not> cc_verbose opt \<Longrightarrow>
   emits opt env (the (cc_input_path opt)) output d em \<Longrightarrow> output = the (cc_output_path opt) \<Longrightarrow>
   length output \<le> 1000 \<Longrightarrow> he_removable env = (\<lambda>_. True) \<Longrightarrow>
   he_system env (char_bytes ''t32-as -f obj '' @ quoted_path (temp_assembly output) @ char_bytes '' -o '' @ quoted_path output
     @ char_bytes '' >/dev/null'') (with_file (temp_assembly output) (the_text em) (d_world d)) = (ok, w) \<Longrightarrow>
   temp_assembly output = output @ char_bytes ''.t32cc.s''
   \<and> (\<exists>d'. cc_main env program_name args d = Some (if ok then 0 else 1, d')
       \<and> files d' = (if ok then (w_files w)(temp_assembly output := None)
                     else (w_files w)(temp_assembly output := None, output := None)))"
proof -
  assume a: "cc_parse_options program_name args 1024 = Inr opt" "cc_mode opt = MODE_OBJECT" "\<not> cc_verbose opt"
    "emits opt env (the (cc_input_path opt)) output d em" "output = the (cc_output_path opt)"
    "length output \<le> 1000" "he_removable env = (\<lambda>_. True)"
    "he_system env (char_bytes ''t32-as -f obj '' @ quoted_path (temp_assembly output) @ char_bytes '' -o '' @ quoted_path output
      @ char_bytes '' >/dev/null'') (with_file (temp_assembly output) (the_text em) (d_world d)) = (ok, w)"
  have t: "temp_assembly output = output @ char_bytes ''.t32cc.s''"
    using a(6) by (simp add: temp_assembly_def make_temp_path_def fitting_def)
  have path: "assembly_path MODE_OBJECT output = temp_assembly output" "object_path MODE_OBJECT output = output"
    by (simp_all add: assembly_path_def temp_assembly_def object_path_def)
  have command: "fitting 4096 (assembler_command (temp_assembly output) output @ char_bytes '' >/dev/null'')
      = char_bytes ''t32-as -f obj '' @ quoted_path (temp_assembly output) @ char_bytes '' -o '' @ quoted_path output
        @ char_bytes '' >/dev/null''"
    using a(6) by (simp add: assembler_command_def fitting_def t quoted_path_def)
  obtain d1 where d1: "d_world d1 = with_file (temp_assembly output) (the_text em) (d_world d)"
      "cc_main env program_name args d = Some (clean_up env MODE_OBJECT output (assemble_and_link env MODE_OBJECT False output d1))"
    using cc_main_emits [OF a(1), of env d em] a(2-5) path by auto
  have "run_command env (assembler_command (temp_assembly output) output) False d1 = (ok, d1\<lparr>d_world := w\<rparr>)"
    using a(8) d1(1) command by (simp add: run_command_def)
  with d1(2) path a(7) t show ?thesis
    by (auto simp: assemble_and_link_def Let_def assemble_object_def clean_up_def fun_upd_twist)
qed

section \<open>An example\<close>

text \<open>A host with one source, on which every command succeeds and writes an object file.\<close>

definition demo_env :: host_env where
  "demo_env = \<lparr>he_getenv = \<lambda>_. None, he_system = \<lambda>c w. (True, with_file (char_bytes ''a.o'') [0x54] w),
     he_malloc = True, he_strerror = \<lambda>_. [], he_removable = \<lambda>_. True\<rparr>"

definition demo_host :: dstate where
  "demo_host = \<lparr>d_world = \<lparr>w_files = [demo_path \<mapsto> demo_source], w_denied = \<lambda>_. False, w_faults = []\<rparr>,
     d_out = [], d_err = []\<rparr>"

definition demo_options :: "output_mode_t \<Rightarrow> bytes \<Rightarrow> cc_options_t" where
  "demo_options mode out = \<lparr>cc_input_path = Some demo_path, cc_output_path = Some out, cc_mode = mode, cc_verbose = False\<rparr>"

lemma demo_accepted:
  "cc_parse_options (char_bytes ''t32-cc'') [char_bytes ''-S'', demo_path] 1024 = Inr (demo_options MODE_ASSEMBLY (char_bytes ''a.s''))"
  "cc_parse_options (char_bytes ''t32-cc'') [char_bytes ''-c'', demo_path] 1024 = Inr (demo_options MODE_OBJECT (char_bytes ''a.o''))"
  by code_simp+

lemma demo_emits: "\<exists>em. emits (demo_options mode out) demo_env demo_path out demo_host em"
proof -
  obtain s where s: "parse_translation_unit (start_state demo_path demo_source) = (Some demo_unit, s)" using demo_run by blast
  have "weights (ft_body demo_tree) \<le> EMIT_FUEL" by (simp add: demo_tree_def)
  note e = emit_function_reads [OF demo_reads demo_function_ok this]
  have "\<exists>em. emit_unit demo_unit (cp_next_string s) = Some (True, em)"
    using e [of "emit (assembly_head @ extern_lines demo_unit @ [Verbatim newline]) zero_emitter"]
    by (auto simp: emit_unit_def demo_unit_def)
  with s show ?thesis by (auto simp: emits_def demo_env_def demo_host_def)
qed

lemma demo_options_fields [simp]:
  "cc_mode (demo_options mode out) = mode" "\<not> cc_verbose (demo_options mode out)"
  "cc_input_path (demo_options mode out) = Some demo_path" "cc_output_path (demo_options mode out) = Some out"
  by (simp_all add: demo_options_def)

lemma demo_env_fields [simp]:
  "he_removable demo_env = (\<lambda>_. True)" "he_system demo_env c w = (True, with_file (char_bytes ''a.o'') [0x54] w)"
  by (simp_all add: demo_env_def)

lemma driver_assembly_witness:
  "\<exists>em d'. cc_main demo_env (char_bytes ''t32-cc'') [char_bytes ''-S'', demo_path] demo_host = Some (0, d')
     \<and> d_world d' = with_file (char_bytes ''a.s'') (the_text em) (d_world demo_host)"
proof -
  obtain em where "emits (demo_options MODE_ASSEMBLY (char_bytes ''a.s'')) demo_env demo_path (char_bytes ''a.s'') demo_host em"
    using demo_emits by blast
  then show ?thesis using driver_assembly [OF demo_accepted(1), of demo_env demo_host em] by auto
qed

lemma driver_object_witness:
  "\<exists>d'. cc_main demo_env (char_bytes ''t32-cc'') [char_bytes ''-c'', demo_path] demo_host = Some (0, d')
     \<and> files d' (char_bytes ''a.o'') = Some [0x54] \<and> files d' (char_bytes ''a.o.t32cc.s'') = None"
proof -
  obtain em where em: "emits (demo_options MODE_OBJECT (char_bytes ''a.o'')) demo_env demo_path (char_bytes ''a.o'') demo_host em"
    using demo_emits by blast
  have t: "temp_assembly (char_bytes ''a.o'') = char_bytes ''a.o.t32cc.s''"
    by (simp add: temp_assembly_def make_temp_path_def fitting_def char_bytes_def)
  have "char_bytes ''a.o'' \<noteq> char_bytes ''a.o.t32cc.s''" by (simp add: char_bytes_def)
  with em t show ?thesis using driver_object [OF demo_accepted(2), of demo_env "char_bytes ''a.o''" demo_host em True]
    by (auto simp: with_file_def)
qed


end
