(* ===== verification/T32_Label_Laws.thy ===== *)
theory T32_Label_Laws
  imports T32_Compile
begin

text \<open>
  The labels in the output of the emitter: no label is defined twice, and every jump goes to a label
  of the output. Expressions have neither labels nor jumps (\<open>T32_Emit_Relation\<close>); the labels of
  statements carry the number that \<open>take_label\<close> gives out.
\<close>

section \<open>Expressions\<close>




section \<open>Fragments with labels\<close>


definition label_prefixes :: "string set" where
  "label_prefixes = {''.Lwhile'', ''.Lendwhile'', ''.Lfor'', ''.Lfor_update'', ''.Lendfor'', ''.Lelse'', ''.Lendif''}"

definition targets_of :: "asm_line list \<Rightarrow> string list" where
  "targets_of ls = concat (map (\<lambda>x. case x of Jump l \<Rightarrow> [l] | Jump_zero a l \<Rightarrow> [l] | _ \<Rightarrow> []) ls)"

lemma labels_targets_simps [simp]:
  "labels_of [] = []" "labels_of (Label l # ls) = l # labels_of ls" "straight x \<Longrightarrow> labels_of (x # ls) = labels_of ls"
  "labels_of (Jump l # ls) = labels_of ls" "labels_of (Jump_zero a l # ls) = labels_of ls"
  "labels_of (xs @ ys) = labels_of xs @ labels_of ys"
  "targets_of [] = []" "targets_of (Label l # ls) = targets_of ls" "straight x \<Longrightarrow> targets_of (x # ls) = targets_of ls"
  "targets_of (Jump l # ls) = l # targets_of ls" "targets_of (Jump_zero a l # ls) = l # targets_of ls"
  "targets_of (xs @ ys) = targets_of xs @ targets_of ys"
  by (simp_all add: labels_of_def targets_of_def) (cases x; simp)+

lemma straight_labels [simp]: "list_all straight ls \<Longrightarrow> labels_of ls = []" "list_all straight ls \<Longrightarrow> targets_of ls = []"
  by (induction ls) auto









lemma in_prefixes [simp]:
  "''.Lwhile'' \<in> label_prefixes" "''.Lendwhile'' \<in> label_prefixes" "''.Lfor'' \<in> label_prefixes"
  "''.Lfor_update'' \<in> label_prefixes" "''.Lendfor'' \<in> label_prefixes" "''.Lelse'' \<in> label_prefixes" "''.Lendif'' \<in> label_prefixes"
  by (simp_all add: label_prefixes_def)




section \<open>Statements\<close>










section \<open>Different names\<close>






section \<open>Functions\<close>


lemma straight_parameters [simp]: "list_all straight (emit_parameters p i n)"
  by (induction n arbitrary: i) simp_all








section \<open>Units\<close>






section \<open>The output can be linked\<close>



end
